(* ===== verification/Qx_Prelude.thy ===== *)
theory Qx_Prelude
  imports Complex_Main "HOL-Library.AList" "HOL-Library.Multiset" "HOL-Library.Product_Lexorder"
begin

text \<open>
  Shared vocabulary of the development: the types the Python sources take from the
  standard library (UUIDs, instants, JSON values, strings), the exception-and-state effect
  every coroutine has, and the generic list lemmas the component theories use.

  \<^item> A UUID is its 128-bit integer value, so it is a natural number; every UUID object is
    truthy in Python, so \<open>x or y\<close> on optional UUIDs is the first present one.
  \<^item> An instant (an aware \<open>datetime\<close>) is the number of microseconds since the epoch.
  \<^item> A Python \<open>float\<close> is a rational number: rounding is left out everywhere.
  \<^item> A \<open>dict\<close> whose order is observable is an association list; \<open>AList.update\<close> keeps the
    position of an existing key and appends a new one, as Python does.
\<close>

named_theorems qx_defs \<open>the defining equations unfolded in component proofs\<close>

type_synonym uuid = nat
type_synonym instant = int

datatype json =
    JNull
  | JBool bool
  | JInt int
  | JFloat rat
  | JStr string
  | JList "json list"
  | JObj "(string \<times> json) list"

type_synonym dict = "(string \<times> json) list"

text \<open>The truth value of a JSON value.\<close>

definition json_truthy :: "json \<Rightarrow> bool" where
  "json_truthy j = (case j of
     JNull \<Rightarrow> False | JBool b \<Rightarrow> b | JInt n \<Rightarrow> n \<noteq> 0 | JFloat q \<Rightarrow> q \<noteq> 0
   | JStr s \<Rightarrow> s \<noteq> [] | JList l \<Rightarrow> l \<noteq> [] | JObj d \<Rightarrow> d \<noteq> [])"

section \<open>Optional values\<close>

definition or_else :: "'a option \<Rightarrow> 'a option \<Rightarrow> 'a option" where
  "or_else a b = (case a of None \<Rightarrow> b | Some x \<Rightarrow> Some x)"

definition get_or :: "'a option \<Rightarrow> 'a \<Rightarrow> 'a" where
  "get_or a d = (case a of None \<Rightarrow> d | Some x \<Rightarrow> x)"

lemma or_else_simps [simp]:
  "or_else None b = b" "or_else (Some x) b = Some x" "or_else a None = a"
  by (auto simp: or_else_def split: option.split)

lemma get_or_simps [simp]: "get_or None d = d" "get_or (Some x) d = x"
  by (auto simp: get_or_def)

section \<open>Strings\<close>

text \<open>
  \<open>str.lower\<close> on ASCII letters, \<open>str.startswith\<close>, \<open>str.endswith\<close>, the \<open>in\<close> test on
  strings, \<open>sep.join(xs)\<close> and the decimal form of an integer.
\<close>

definition lower_char :: "char \<Rightarrow> char" where
  "lower_char c =
     (let n = of_char c :: nat in if 65 \<le> n \<and> n \<le> 90 then char_of (n + 32) else c)"

definition py_lower :: "string \<Rightarrow> string" where
  "py_lower s = map lower_char s"

text \<open>\<open>str.isspace\<close> on ASCII characters and \<open>str.strip\<close>.\<close>

definition is_space :: "char \<Rightarrow> bool" where
  "is_space c \<longleftrightarrow> of_char c \<in> {9, 10, 11, 12, 13, 28, 29, 30, 31, 32 :: nat}"

definition py_strip :: "string \<Rightarrow> string" where
  "py_strip s = rev (dropWhile is_space (rev (dropWhile is_space s)))"

fun py_startswith :: "string \<Rightarrow> string \<Rightarrow> bool" where
  "py_startswith s [] = True"
| "py_startswith [] (p # ps) = False"
| "py_startswith (c # s) (p # ps) = (c = p \<and> py_startswith s ps)"

definition py_endswith :: "string \<Rightarrow> string \<Rightarrow> bool" where
  "py_endswith s p = py_startswith (rev s) (rev p)"

fun py_contains :: "string \<Rightarrow> string \<Rightarrow> bool" where
  "py_contains [] p = (p = [])"
| "py_contains (c # s) p = (py_startswith (c # s) p \<or> py_contains s p)"

fun py_join :: "string \<Rightarrow> string list \<Rightarrow> string" where
  "py_join sep [] = []"
| "py_join sep [x] = x"
| "py_join sep (x # y # ys) = x @ sep @ py_join sep (y # ys)"

definition digit_char :: "nat \<Rightarrow> char" where
  "digit_char d = char_of (48 + d)"

fun str_of_nat :: "nat \<Rightarrow> string" where
  "str_of_nat n =
     (if n < 10 then [digit_char n] else str_of_nat (n div 10) @ [digit_char (n mod 10)])"

declare str_of_nat.simps [simp del]

definition str_of_int :: "int \<Rightarrow> string" where
  "str_of_int i = (if i < 0 then ''-'' @ str_of_nat (nat (- i)) else str_of_nat (nat i))"

text \<open>\<open>head, _, tail = s.rpartition(c)\<close> for a one-character separator.\<close>

definition py_rpartition :: "char \<Rightarrow> string \<Rightarrow> string \<times> string" where
  "py_rpartition c s =
     (if c \<in> set s
      then (rev (tl (dropWhile (\<lambda>x. x \<noteq> c) (rev s))), rev (takeWhile (\<lambda>x. x \<noteq> c) (rev s)))
      else ([], s))"

lemma lower_char_space [simp]: "is_space (lower_char c) \<longleftrightarrow> is_space c"
  by (auto simp: is_space_def lower_char_def Let_def)

lemma lower_char_idem [simp]: "lower_char (lower_char c) = lower_char c"
  by (auto simp: lower_char_def Let_def)

lemma py_lower_idem [simp]: "py_lower (py_lower s) = py_lower s"
  by (simp add: py_lower_def)

lemma dropWhile_space_lower:
  "dropWhile is_space (map lower_char s) = map lower_char (dropWhile is_space s)"
  by (induction s) simp_all

lemma py_strip_lower: "py_strip (py_lower s) = py_lower (py_strip s)"
  by (simp add: py_strip_def py_lower_def dropWhile_space_lower rev_map)

lemma dropWhile_last: "xs \<noteq> [] \<Longrightarrow> \<not> P (last xs) \<Longrightarrow> dropWhile P xs \<noteq> [] \<and> last (dropWhile P xs) = last xs"
  by (induction xs) (auto split: if_splits)

lemma py_strip_idem [simp]: "py_strip (py_strip s) = py_strip s"
proof -
  let ?l = "dropWhile is_space s"
  let ?r = "dropWhile is_space (rev ?l)"
  have keep: "dropWhile is_space (rev ?r) = rev ?r"
  proof (cases "?r = []")
    case True
    then show ?thesis by (simp only: rev.simps dropWhile.simps)
  next
    case False
    then obtain c t where l: "?l = c # t" by (cases ?l) auto
    then have c: "\<not> is_space c" using hd_dropWhile [of is_space s] by simp
    have "last ?r = c" using dropWhile_last [of "rev ?l" is_space] l c by simp
    then have "hd (rev ?r) = c" using False by (simp add: hd_rev)
    then show ?thesis using False c by (cases "rev ?r") auto
  qed
  show ?thesis unfolding py_strip_def keep by simp
qed

lemma py_rpartition_last: "c \<notin> set t \<Longrightarrow> py_rpartition c (h @ c # t) = (h, t)"
  by (simp add: py_rpartition_def dropWhile_append takeWhile_append)

lemma py_startswith_iff: "py_startswith s p \<longleftrightarrow> (\<exists>t. s = p @ t)"
  by (induction s p rule: py_startswith.induct) auto

lemma py_startswith_append [simp]: "py_startswith (p @ t) p"
  by (auto simp: py_startswith_iff)

lemma py_endswith_iff: "py_endswith s p \<longleftrightarrow> (\<exists>t. s = t @ p)"
  unfolding py_endswith_def py_startswith_iff
  by (metis rev_append rev_rev_ident)

lemma digit_char_inj: "a < 10 \<Longrightarrow> b < 10 \<Longrightarrow> digit_char a = digit_char b \<Longrightarrow> a = b"
proof -
  assume a: "a < 10" and b: "b < 10" and eq: "digit_char a = digit_char b"
  from eq have "of_char (digit_char a) = (of_char (digit_char b) :: nat)" by simp
  with a b show "a = b" by (simp add: digit_char_def)
qed

lemma str_of_nat_nonempty [simp]: "str_of_nat n \<noteq> []" "[] \<noteq> str_of_nat n"
  by (subst str_of_nat.simps, simp)+

lemma str_of_nat_inj: "str_of_nat m = str_of_nat n \<Longrightarrow> m = n"
proof (induction m arbitrary: n rule: str_of_nat.induct)
  case (1 m)
  show ?case
  proof (cases "m < 10")
    case True
    then have m: "str_of_nat m = [digit_char m]" by (subst str_of_nat.simps) simp
    have "n < 10"
    proof (rule ccontr)
      assume "\<not> n < 10"
      then have "str_of_nat n = str_of_nat (n div 10) @ [digit_char (n mod 10)]"
        by (subst str_of_nat.simps) simp
      with m "1.prems" show False by simp
    qed
    then have "str_of_nat n = [digit_char n]" by (subst str_of_nat.simps) simp
    with m "1.prems" True \<open>n < 10\<close> show ?thesis by (auto intro: digit_char_inj)
  next
    case False
    then have m: "str_of_nat m = str_of_nat (m div 10) @ [digit_char (m mod 10)]"
      by (subst str_of_nat.simps) simp
    have n10: "\<not> n < 10"
    proof
      assume "n < 10"
      then have "str_of_nat n = [digit_char n]" by (subst str_of_nat.simps) simp
      with m "1.prems" show False by simp
    qed
    then have n: "str_of_nat n = str_of_nat (n div 10) @ [digit_char (n mod 10)]"
      by (subst str_of_nat.simps) simp
    from m n "1.prems" have "str_of_nat (m div 10) = str_of_nat (n div 10)"
      and "digit_char (m mod 10) = digit_char (n mod 10)" by auto
    with "1.IH" [OF False] have "m div 10 = n div 10" and "m mod 10 = n mod 10"
      by (auto intro: digit_char_inj)
    then show ?thesis by (metis mult_div_mod_eq)
  qed
qed

text \<open>
  \<open>int(text)\<close> on decimal text, as far as the sources use it: an optional minus sign and
  digits. Anything else is the \<open>ValueError\<close> branch.
\<close>

fun digits_val :: "nat \<Rightarrow> string \<Rightarrow> nat option" where
  "digits_val acc [] = Some acc"
| "digits_val acc (c # cs) =
     (let d = of_char c :: nat
      in if 48 \<le> d \<and> d \<le> 57 then digits_val (acc * 10 + (d - 48)) cs else None)"

definition py_int :: "string \<Rightarrow> int option" where
  "py_int s =
     (case s of
        [] \<Rightarrow> None
      | c # cs \<Rightarrow>
          (if c = CHR ''-'' then
             (if cs = [] then None else map_option (\<lambda>n. - int n) (digits_val 0 cs))
           else map_option int (digits_val 0 (c # cs))))"

lemma digits_val_append:
  "digits_val acc (xs @ ys) = Option.bind (digits_val acc xs) (\<lambda>a. digits_val a ys)"
  by (induction acc xs rule: digits_val.induct) (auto simp: Let_def)

lemma digits_val_digit [simp]: "d < 10 \<Longrightarrow> digits_val acc [digit_char d] = Some (acc * 10 + d)"
  by (simp add: digit_char_def)

lemma digits_val_str_of_nat: "digits_val 0 (str_of_nat n) = Some n"
proof (induction n rule: str_of_nat.induct)
  case (1 n)
  then show ?case
    by (subst str_of_nat.simps) (auto simp: digits_val_append simp del: digits_val.simps)
qed

lemma str_of_nat_digits: "c \<in> set (str_of_nat n) \<Longrightarrow> 48 \<le> (of_char c :: nat) \<and> (of_char c :: nat) \<le> 57"
proof (induction n rule: str_of_nat.induct)
  case (1 n)
  have d: "d < 10 \<Longrightarrow> 48 \<le> (of_char (digit_char d) :: nat) \<and> (of_char (digit_char d) :: nat) \<le> 57" for d
    by (simp add: digit_char_def)
  show ?case
  proof (cases "n < 10")
    case True
    with "1.prems" d show ?thesis by (subst (asm) str_of_nat.simps) auto
  next
    case False
    then have "str_of_nat n = str_of_nat (n div 10) @ [digit_char (n mod 10)]"
      by (subst str_of_nat.simps) simp
    with "1.prems" have "c \<in> set (str_of_nat (n div 10)) \<or> c = digit_char (n mod 10)" by auto
    with "1.IH" [OF False] d [of "n mod 10"] show ?thesis by auto
  qed
qed

lemma py_int_str_of_int [simp]: "py_int (str_of_int i) = Some i"
proof (cases "i < 0")
  case True
  then show ?thesis by (simp add: py_int_def str_of_int_def digits_val_str_of_nat)
next
  case False
  obtain c cs where s: "str_of_nat (nat i) = c # cs" by (cases "str_of_nat (nat i)") auto
  then have "c \<in> set (str_of_nat (nat i))" by simp
  then have "48 \<le> (of_char c :: nat)" using str_of_nat_digits by blast
  then have "c \<noteq> CHR ''-''" by auto
  with False s digits_val_str_of_nat [of "nat i"] show ?thesis
    by (simp add: py_int_def str_of_int_def)
qed

lemma str_of_int_inj: "str_of_int i = str_of_int j \<longleftrightarrow> i = j"
  by (metis option.inject py_int_str_of_int)

section \<open>UUIDs as text\<close>

text \<open>
  \<open>str(u)\<close> is 32 hexadecimal digits in groups of 8, 4, 4, 4 and 12; \<open>UUID(text)\<close> drops
  surrounding braces and all hyphens and wants 32 hexadecimal digits (its \<open>urn:uuid:\<close>
  prefix is left out).
\<close>

definition hex_char :: "nat \<Rightarrow> char" where
  "hex_char d = (if d < 10 then char_of (48 + d) else char_of (87 + d))"

definition hex_val :: "char \<Rightarrow> nat option" where
  "hex_val c =
     (let n = of_char c :: nat
      in if 48 \<le> n \<and> n \<le> 57 then Some (n - 48)
         else if 97 \<le> n \<and> n \<le> 102 then Some (n - 87)
         else if 65 \<le> n \<and> n \<le> 70 then Some (n - 55) else None)"

fun hex_digits :: "nat \<Rightarrow> nat \<Rightarrow> string" where
  "hex_digits 0 u = []"
| "hex_digits (Suc n) u = hex_digits n (u div 16) @ [hex_char (u mod 16)]"

fun hex_read :: "nat \<Rightarrow> string \<Rightarrow> nat option" where
  "hex_read acc [] = Some acc"
| "hex_read acc (c # cs) = (case hex_val c of None \<Rightarrow> None | Some d \<Rightarrow> hex_read (acc * 16 + d) cs)"

definition str_of_uuid :: "uuid \<Rightarrow> string" where
  "str_of_uuid u =
     (let h = hex_digits 32 u
      in take 8 h @ ''-'' @ take 4 (drop 8 h) @ ''-'' @ take 4 (drop 12 h) @ ''-'' @
         take 4 (drop 16 h) @ ''-'' @ drop 20 h)"

definition parse_uuid :: "string \<Rightarrow> uuid option" where
  "parse_uuid s =
     (let brace = (\<lambda>c. c = CHR ''{'' \<or> c = CHR ''}'');
          t = filter (\<lambda>c. c \<noteq> CHR ''-'') (rev (dropWhile brace (rev (dropWhile brace s))))
      in if length t = 32 then hex_read 0 t else None)"

lemma hex_val_char [simp]: "d < 16 \<Longrightarrow> hex_val (hex_char d) = Some d"
  by (auto simp: hex_val_def hex_char_def Let_def)

lemma hex_digits_length [simp]: "length (hex_digits n u) = n"
  by (induction n arbitrary: u) auto

lemma hex_read_append:
  "hex_read acc (xs @ ys) = Option.bind (hex_read acc xs) (\<lambda>a. hex_read a ys)"
  by (induction acc xs rule: hex_read.induct) (auto split: option.splits)

lemma hex_read_digits: "hex_read acc (hex_digits n u) = Some (acc * 16 ^ n + u mod 16 ^ n)"
proof (induction n arbitrary: u)
  case (Suc n)
  have "u mod 16 ^ Suc n = 16 * (u div 16 mod 16 ^ n) + u mod 16"
    by (simp add: mod_mult2_eq)
  with Suc show ?case by (simp add: hex_read_append algebra_simps)
qed simp

lemma hex_char_plain:
  assumes "d < 16"
  shows "hex_char d \<noteq> CHR ''-'' \<and> hex_char d \<noteq> CHR ''{'' \<and> hex_char d \<noteq> CHR ''}''"
proof -
  have "hex_val CHR ''-'' = None \<and> hex_val CHR ''{'' = None \<and> hex_val CHR ''}'' = None"
    by code_simp
  with hex_val_char [OF assms] show ?thesis by (metis option.distinct(1))
qed

lemma hex_digits_plain:
  "c \<in> set (hex_digits n u) \<Longrightarrow> c \<noteq> CHR ''-'' \<and> c \<noteq> CHR ''{'' \<and> c \<noteq> CHR ''}''"
  by (induction n arbitrary: u) (auto simp: hex_char_plain)

text \<open>The text of a UUID without its hyphens is its digits.\<close>

lemma str_of_uuid_hex: "filter (\<lambda>c. c \<noteq> CHR ''-'') (str_of_uuid u) = hex_digits 32 u"
proof -
  let ?h = "hex_digits 32 u"
  have keep: "filter (\<lambda>c. c \<noteq> CHR ''-'') xs = xs" if "set xs \<subseteq> set ?h" for xs
    using that hex_digits_plain [of _ 32 u] by (auto simp: filter_id_conv)
  have t: "set (take a (drop b ?h)) \<subseteq> set ?h" "set (take a ?h) \<subseteq> set ?h" "set (drop b ?h) \<subseteq> set ?h"
    for a b by (auto dest: in_set_takeD in_set_dropD)
  have "filter (\<lambda>c. c \<noteq> CHR ''-'') (str_of_uuid u) =
      take 8 ?h @ take 4 (drop 8 ?h) @ take 4 (drop 12 ?h) @ take 4 (drop 16 ?h) @ drop 20 ?h"
    by (simp add: str_of_uuid_def Let_def keep t del: hex_digits.simps)
  also have "\<dots> = ?h"
  proof -
    have split: "take a (drop b ?h) @ drop (b + a) ?h = drop b ?h" for a b
      using append_take_drop_id [of a "drop b ?h"] by (simp add: add.commute)
    from split [of 4 16] split [of 4 12] split [of 4 8] append_take_drop_id [of 8 ?h]
    show ?thesis by (simp del: hex_digits.simps append_take_drop_id)
  qed
  finally show ?thesis .
qed

theorem parse_str_of_uuid:
  assumes "u < 2 ^ 128"
  shows "parse_uuid (str_of_uuid u) = Some u"
proof -
  let ?brace = "\<lambda>c. c = CHR ''{'' \<or> c = CHR ''}''"
  have nb: "\<not> ?brace c" if "c \<in> set (str_of_uuid u)" for c
    using that hex_digits_plain [of c 32 u]
    by (auto simp: str_of_uuid_def Let_def dest: in_set_takeD in_set_dropD)
  have dw: "dropWhile ?brace xs = xs" if "\<forall>c\<in>set xs. \<not> ?brace c" for xs
    using that by (cases xs) auto
  have strip: "rev (dropWhile ?brace (rev (dropWhile ?brace (str_of_uuid u)))) = str_of_uuid u"
    using nb by (simp add: dw)
  have "u mod 16 ^ 32 = u" using assms by simp
  then show ?thesis using hex_read_digits [of 0 32 u]
    by (simp add: parse_uuid_def Let_def strip str_of_uuid_hex del: hex_digits.simps)
qed

text \<open>Hence different UUIDs have different digits.\<close>

lemma uuid_hex_inj:
  assumes "u < 2 ^ 128" "v < 2 ^ 128"
  shows "hex_digits 32 u = hex_digits 32 v \<longleftrightarrow> u = v"
proof -
  have "(2 :: nat) ^ 128 = 16 ^ 32" by simp
  with assms have m: "u mod 16 ^ 32 = u" "v mod 16 ^ 32 = v" by (simp_all only: mod_less)
  show ?thesis
  proof
    assume "hex_digits 32 u = hex_digits 32 v"
    then have "hex_read 0 (hex_digits 32 u) = hex_read 0 (hex_digits 32 v)" by (simp only:)
    then show "u = v" unfolding hex_read_digits m by simp
  qed (simp only:)
qed

section \<open>Lists\<close>

lemma upto_glue:
  fixes n k :: int
  assumes "0 \<le> n" "0 \<le> k"
  shows "[1..n] @ [n + 1..n + k] = [1..n + k]"
proof (cases "n = 0")
  case False
  with assms show ?thesis by (intro upto_split2 [symmetric]) auto
qed simp

text \<open>A list sorted by an injective key is determined by its multiset of elements.\<close>

lemma sorted_key_unique:
  fixes f :: "'a \<Rightarrow> 'k::linorder"
  assumes "mset xs = mset ys" "sorted (map f xs)" "sorted (map f ys)" "inj_on f (set ys)"
    "distinct ys"
  shows "xs = ys"
proof -
  have d: "distinct xs" using assms(1,5) by (metis mset_eq_imp_distinct_iff)
  have set_eq: "set xs = set ys" using assms(1) by (metis set_mset_mset)
  have "map f xs = map f ys"
    by (rule sorted_distinct_set_unique)
      (use assms d set_eq in \<open>auto simp: distinct_map\<close>)
  then show ?thesis
    using assms(4) set_eq by (metis map_inj_on Un_absorb)
qed

text \<open>The same for a list sorted by a relation that is antisymmetric on it.\<close>

lemma sorted_wrt_unique:
  assumes "mset xs = mset ys" "sorted_wrt le xs" "sorted_wrt le ys"
    and "\<And>a b. a \<in> set xs \<Longrightarrow> b \<in> set xs \<Longrightarrow> le a b \<Longrightarrow> le b a \<Longrightarrow> a = b"
  shows "xs = ys"
  using assms
proof (induction xs arbitrary: ys)
  case (Cons x xs)
  then obtain y zs where ys: "ys = y # zs" by (cases ys) auto
  have "x = y"
  proof (rule ccontr)
    assume ne: "x \<noteq> y"
    have "y \<in> set xs" using Cons.prems(1) ys ne by (metis list.set_intros(1) set_ConsD set_mset_mset)
    moreover have "x \<in> set zs" using Cons.prems(1) ys ne by (metis list.set_intros(1) set_ConsD set_mset_mset)
    ultimately have "le x y" "le y x" using Cons.prems(2,3) ys by auto
    with Cons.prems(4) \<open>y \<in> set xs\<close> ne show False by auto
  qed
  with Cons ys show ?case by auto
qed simp

lemma update_fresh: "k \<notin> fst ` set al \<Longrightarrow> AList.update k v al = al @ [(k, v)]"
  by (induction al) auto

end
