(* ===== verification/Qx_Core.thy ===== *)
theory Qx_Core
  imports Qx_Prelude
begin

text \<open>
  The package \<open>qx-core\<close>, first half: the error hierarchy (\<open>qx/core/errors\<close>), the
  exceptions that cross the framework's boundaries, the effect of a coroutine (state plus
  exception), and the \<open>Result\<close> type (\<open>qx/core/result\<close>) with its combinators. The last
  section interprets the monad contract on \<open>Result\<close>.
\<close>

section \<open>Errors and exceptions\<close>

text \<open>One constructor per class of the hierarchy; the idempotency store adds one.\<close>

datatype error_class =
    Error_base
  | ValidationError
  | UnauthorizedError
  | ForbiddenError
  | NotFoundError
  | ConflictError
  | PreconditionFailedError
  | IdempotencyConflictError
  | RateLimitedError
  | DomainError
  | InfrastructureError
  | TimeoutError
  | ConfigurationError

fun http_status :: "error_class \<Rightarrow> int" where
  "http_status Error_base = 500"
| "http_status ValidationError = 400"
| "http_status UnauthorizedError = 401"
| "http_status ForbiddenError = 403"
| "http_status NotFoundError = 404"
| "http_status ConflictError = 409"
| "http_status PreconditionFailedError = 412"
| "http_status IdempotencyConflictError = 412"
| "http_status RateLimitedError = 429"
| "http_status DomainError = 422"
| "http_status InfrastructureError = 500"
| "http_status TimeoutError = 504"
| "http_status ConfigurationError = 500"

fun grpc_code :: "error_class \<Rightarrow> string" where
  "grpc_code Error_base = ''INTERNAL''"
| "grpc_code ValidationError = ''INVALID_ARGUMENT''"
| "grpc_code UnauthorizedError = ''UNAUTHENTICATED''"
| "grpc_code ForbiddenError = ''PERMISSION_DENIED''"
| "grpc_code NotFoundError = ''NOT_FOUND''"
| "grpc_code ConflictError = ''ALREADY_EXISTS''"
| "grpc_code PreconditionFailedError = ''FAILED_PRECONDITION''"
| "grpc_code IdempotencyConflictError = ''FAILED_PRECONDITION''"
| "grpc_code RateLimitedError = ''RESOURCE_EXHAUSTED''"
| "grpc_code DomainError = ''FAILED_PRECONDITION''"
| "grpc_code InfrastructureError = ''INTERNAL''"
| "grpc_code TimeoutError = ''DEADLINE_EXCEEDED''"
| "grpc_code ConfigurationError = ''FAILED_PRECONDITION''"

fun category :: "error_class \<Rightarrow> string" where
  "category Error_base = ''infrastructure''"
| "category DomainError = ''domain''"
| "category InfrastructureError = ''infrastructure''"
| "category TimeoutError = ''infrastructure''"
| "category ConfigurationError = ''configuration''"
| "category c = ''client''"

text \<open>\<open>isinstance(err, cls)\<close> for an error of class \<open>c\<close>: the hierarchy is flat but for
  the root and the idempotency conflict.\<close>

definition error_isinstance :: "error_class \<Rightarrow> error_class \<Rightarrow> bool" where
  "error_isinstance c cls \<longleftrightarrow>
     c = cls \<or> cls = Error_base \<or> (c = IdempotencyConflictError \<and> cls = PreconditionFailedError)"

text \<open>
  A structured error may carry the exception that caused it, and an error can be thrown as
  \<open>ErrorException\<close>: exceptions are nested in themselves through the cause of an error, so the
  error is a type of its cause first. Every other exception is its class name and its message;
  the constructor says whether the class derives from \<open>Exception\<close> or only from \<open>BaseException\<close>
  (cancellation, interrupts).
\<close>

datatype 'cause error_of =
    Error (err_class: error_class) (err_code: string) (err_message: string)
      (err_details: dict) (err_cause: "'cause option")

datatype exn =
    ErrorException "exn error_of"
  | PyException string string
  | PyBaseException string string
  | ExceptionGroup string "exn list"

type_synonym error = "exn error_of"

fun is_exception :: "exn \<Rightarrow> bool" where
  "is_exception (ErrorException e) = True"
| "is_exception (PyException c m) = True"
| "is_exception (PyBaseException c m) = False"
| "is_exception (ExceptionGroup m es) = list_all is_exception es"

fun exn_class :: "exn \<Rightarrow> string" where
  "exn_class (ErrorException e) = ''ErrorException''"
| "exn_class (PyException c m) = c"
| "exn_class (PyBaseException c m) = c"
| "exn_class (ExceptionGroup m es) =
     (if list_all is_exception es then ''ExceptionGroup'' else ''BaseExceptionGroup'')"

fun exn_str :: "exn \<Rightarrow> string" where
  "exn_str (ErrorException e) = ''['' @ err_code e @ ''] '' @ err_message e"
| "exn_str (PyException c m) = m"
| "exn_str (PyBaseException c m) = m"
| "exn_str (ExceptionGroup m es) =
     m @ '' ('' @ str_of_nat (length es) @
     (if length es = 1 then '' sub-exception)'' else '' sub-exceptions)'')"

text \<open>\<open>Error.as_exception\<close> keeps the error, so its cause stays reachable through it.\<close>

definition as_exception :: "error \<Rightarrow> exn" where
  "as_exception e = ErrorException e"

definition error_to_dict :: "error \<Rightarrow> dict" where
  "error_to_dict e =
     [(''code'', JStr (err_code e)), (''message'', JStr (err_message e)),
      (''details'', JObj (err_details e))]"

abbreviation mk_error :: "error_class \<Rightarrow> string \<Rightarrow> string \<Rightarrow> error" where
  "mk_error c code msg \<equiv> Error c code msg [] None"

section \<open>The effect of a coroutine\<close>

text \<open>
  An awaited call runs on the state of its world and ends by returning or by raising; the
  changes made before an exception stay. \<open>except Exception\<close> is \<open>etry\<close>,
  \<open>except BaseException\<close> is \<open>etry_all\<close>, \<open>finally\<close> is \<open>efinally\<close>.
\<close>

type_synonym ('s, 'a) eff = "'s \<Rightarrow> (exn + 'a) \<times> 's"

definition eret :: "'a \<Rightarrow> ('s, 'a) eff" where
  "eret x s = (Inr x, s)"

definition eraise :: "exn \<Rightarrow> ('s, 'a) eff" where
  "eraise e s = (Inl e, s)"

definition ebind :: "('s, 'a) eff \<Rightarrow> ('a \<Rightarrow> ('s, 'b) eff) \<Rightarrow> ('s, 'b) eff" where
  "ebind m f s = (case m s of (Inl e, s') \<Rightarrow> (Inl e, s') | (Inr x, s') \<Rightarrow> f x s')"

definition etry :: "('s, 'a) eff \<Rightarrow> (exn \<Rightarrow> ('s, 'a) eff) \<Rightarrow> ('s, 'a) eff" where
  "etry m h s =
     (case m s of
        (Inl e, s') \<Rightarrow> (if is_exception e then h e s' else (Inl e, s'))
      | (Inr x, s') \<Rightarrow> (Inr x, s'))"

definition etry_all :: "('s, 'a) eff \<Rightarrow> (exn \<Rightarrow> ('s, 'a) eff) \<Rightarrow> ('s, 'a) eff" where
  "etry_all m h s = (case m s of (Inl e, s') \<Rightarrow> h e s' | (Inr x, s') \<Rightarrow> (Inr x, s'))"

definition efinally :: "('s, 'a) eff \<Rightarrow> ('s, unit) eff \<Rightarrow> ('s, 'a) eff" where
  "efinally m c s =
     (let (r, s') = m s
      in case c s' of (Inl e, s'') \<Rightarrow> (Inl e, s'') | (Inr u, s'') \<Rightarrow> (r, s''))"

definition eget :: "('s, 's) eff" where
  "eget s = (Inr s, s)"

definition emodify :: "('s \<Rightarrow> 's) \<Rightarrow> ('s, unit) eff" where
  "emodify f s = (Inr (), f s)"

text \<open>An effect on one half of a pair of states.\<close>

definition on_fst :: "('s, 'a) eff \<Rightarrow> ('s \<times> 't, 'a) eff" where
  "on_fst m st = (case m (fst st) of (r, s') \<Rightarrow> (r, (s', snd st)))"

definition on_snd :: "('t, 'a) eff \<Rightarrow> ('s \<times> 't, 'a) eff" where
  "on_snd m st = (case m (snd st) of (r, t') \<Rightarrow> (r, (fst st, t')))"

text \<open>The effect of a call that can only return or raise, and a loop over a list.\<close>

definition elift :: "exn + 'a \<Rightarrow> ('s, 'a) eff" where
  "elift r s = (r, s)"

fun efold :: "('a \<Rightarrow> ('s, unit) eff) \<Rightarrow> 'a list \<Rightarrow> ('s, unit) eff" where
  "efold f [] = eret ()"
| "efold f (x # xs) = ebind (f x) (\<lambda>_. efold f xs)"

fun emap :: "('a \<Rightarrow> ('s, 'b) eff) \<Rightarrow> 'a list \<Rightarrow> ('s, 'b list) eff" where
  "emap f [] = eret []"
| "emap f (x # xs) = ebind (f x) (\<lambda>y. ebind (emap f xs) (\<lambda>ys. eret (y # ys)))"

lemmas eff_defs = eret_def eraise_def ebind_def etry_def etry_all_def efinally_def eget_def
  emodify_def

lemma ebind_eret [simp]: "ebind (eret x) f = f x"
  by (rule ext) (simp add: eff_defs)

lemma ebind_eraise [simp]: "ebind (eraise e) f = eraise e"
  by (rule ext) (simp add: eff_defs)

lemma ebind_eret_right [simp]: "ebind m eret = m"
  by (rule ext) (auto simp: eff_defs split: prod.splits sum.splits)

lemma ebind_assoc: "ebind (ebind m f) g = ebind m (\<lambda>x. ebind (f x) g)"
  by (rule ext) (auto simp: eff_defs split: prod.splits sum.splits)

lemma eret_apply [simp]: "eret x s = (Inr x, s)" by (simp add: eret_def)
lemma eraise_apply [simp]: "eraise e s = (Inl e, s)" by (simp add: eraise_def)
lemma eget_apply [simp]: "eget s = (Inr s, s)" by (simp add: eget_def)
lemma emodify_apply [simp]: "emodify f s = (Inr (), f s)" by (simp add: emodify_def)

text \<open>The simplifier contracts the four rules above, so these are the forms it meets.\<close>

lemma ebind_Pair [simp]:
  "ebind (Pair (Inr x)) f = f x" "ebind (Pair (Inl e)) f = Pair (Inl e)"
  by (rule ext, simp add: ebind_def)+

lemma ebind_Pair_right [simp]: "ebind m (\<lambda>x. Pair (Inr x)) = m"
  using ebind_eret_right [of m] by (simp add: eret_def [abs_def] cong del: ebind_eret_right)

lemma elift_apply [simp]: "elift r s = (r, s)" by (simp add: elift_def)
lemma on_fst_apply [simp]: "on_fst m (a, b) = (case m a of (r, a') \<Rightarrow> (r, (a', b)))"
  by (simp add: on_fst_def)
lemma on_snd_apply [simp]: "on_snd m (a, b) = (case m b of (r, b') \<Rightarrow> (r, (a, b')))"
  by (simp add: on_snd_def)

lemma efold_append: "efold f (xs @ ys) = ebind (efold f xs) (\<lambda>_. efold f ys)"
  by (induction xs) (simp_all add: ebind_assoc)

lemma ebind_Inr: "m s = (Inr x, s') \<Longrightarrow> ebind m f s = f x s'"
  by (simp add: ebind_def)

lemma ebind_eq_Inr:
  "ebind m f s = (Inr y, s') \<longleftrightarrow> (\<exists>x s1. m s = (Inr x, s1) \<and> f x s1 = (Inr y, s'))"
  by (auto simp: ebind_def split: prod.splits sum.splits)

lemma efinally_eq_Inr:
  "efinally m c s = (Inr x, s') \<longleftrightarrow> (\<exists>s1 u. m s = (Inr x, s1) \<and> c s1 = (Inr u, s'))"
  by (auto simp: efinally_def Let_def split: prod.splits sum.splits)

lemma ebind_Inl: "m s = (Inl e, s') \<Longrightarrow> ebind m f s = (Inl e, s')"
  by (simp add: ebind_def)

text \<open>An effect that leaves an observation of the state alone.\<close>

definition ekeeps :: "('s \<Rightarrow> 'o) \<Rightarrow> ('s, 'a) eff \<Rightarrow> bool" where
  "ekeeps obs m \<longleftrightarrow> (\<forall>s. obs (snd (m s)) = obs s)"

lemma ekeepsD: "ekeeps obs m \<Longrightarrow> m s = (x, s') \<Longrightarrow> obs s' = obs s"
  by (metis ekeeps_def snd_conv)

lemma ekeeps_pure [simp, intro]:
  "ekeeps obs (eret x)" "ekeeps obs (eraise e)" "ekeeps obs (Pair r)" "ekeeps obs (\<lambda>s. (r, s))"
  by (simp_all add: ekeeps_def)

lemma ekeeps_modify: "(\<And>s. obs (f s) = obs s) \<Longrightarrow> ekeeps obs (emodify f)"
  by (simp add: ekeeps_def)

lemma ekeeps_bind: "ekeeps obs m \<Longrightarrow> (\<And>x. ekeeps obs (f x)) \<Longrightarrow> ekeeps obs (ebind m f)"
  by (auto simp: ekeeps_def ebind_def split: prod.splits sum.splits) (metis snd_conv)+

lemma ekeeps_finally: "ekeeps obs m \<Longrightarrow> ekeeps obs c \<Longrightarrow> ekeeps obs (efinally m c)"
  by (auto simp: ekeeps_def efinally_def Let_def split: prod.splits sum.splits) (metis snd_conv)+

lemma ekeeps_try_all: "ekeeps obs m \<Longrightarrow> (\<And>e. ekeeps obs (h e)) \<Longrightarrow> ekeeps obs (etry_all m h)"
  by (auto simp: ekeeps_def etry_all_def split: prod.splits sum.splits) (metis snd_conv)+

lemma ekeeps_cond: "(\<And>s. b s \<Longrightarrow> ekeeps obs m) \<Longrightarrow> (\<And>s. \<not> b s \<Longrightarrow> ekeeps obs n) \<Longrightarrow>
    ekeeps obs (\<lambda>s. if b s then m s else n s)"
  by (auto simp: ekeeps_def)

lemma ekeeps_efold: "(\<And>x. ekeeps obs (f x)) \<Longrightarrow> ekeeps obs (efold f xs)"
  by (induction xs) (auto intro: ekeeps_bind)

lemmas ekeeps_rules = ekeeps_pure ekeeps_modify ekeeps_bind ekeeps_finally ekeeps_cond

section \<open>Result\<close>

text \<open>The frozen dataclasses \<open>Success\<close>, \<open>Failure\<close> and the tagged union over them.\<close>

datatype 'a result = Success 'a dict | Failure error dict

definition result_success :: "'a \<Rightarrow> dict \<Rightarrow> 'a result" where
  "result_success v md = Success v md"

definition result_failure :: "error \<Rightarrow> dict \<Rightarrow> 'a result" where
  "result_failure e md = Failure e md"

definition from_optional :: "'a option \<Rightarrow> error \<Rightarrow> dict \<Rightarrow> 'a result" where
  "from_optional v on_none md =
     (case v of None \<Rightarrow> result_failure on_none md | Some x \<Rightarrow> result_success x md)"

fun is_success :: "'a result \<Rightarrow> bool" where
  "is_success (Success v md) = True"
| "is_success (Failure e md) = False"

fun is_failure :: "'a result \<Rightarrow> bool" where
  "is_failure (Success v md) = False"
| "is_failure (Failure e md) = True"

fun result_value :: "'a result \<Rightarrow> exn + 'a" where
  "result_value (Failure e md) =
     Inl (PyException ''ValueError'' (''Called .value on a Failure result: '' @ err_code e))"
| "result_value (Success v md) = Inr v"

fun result_error :: "'a result \<Rightarrow> exn + error" where
  "result_error (Success v md) = Inl (PyException ''ValueError'' ''Called .error on a Success result'')"
| "result_error (Failure e md) = Inr e"

fun result_metadata :: "'a result \<Rightarrow> dict" where
  "result_metadata (Success v md) = md"
| "result_metadata (Failure e md) = md"

fun result_map :: "'a result \<Rightarrow> ('a \<Rightarrow> 'b) \<Rightarrow> 'b result" where
  "result_map (Failure e md) fn = Failure e md"
| "result_map (Success v md) fn = result_success (fn v) md"

fun result_bind :: "'a result \<Rightarrow> ('a \<Rightarrow> 'b result) \<Rightarrow> 'b result" where
  "result_bind (Failure e md) fn = Failure e md"
| "result_bind (Success v md) fn = fn v"

fun map_async :: "'a result \<Rightarrow> ('a \<Rightarrow> ('s, 'b) eff) \<Rightarrow> ('s, 'b result) eff" where
  "map_async (Failure e md) fn = eret (Failure e md)"
| "map_async (Success v md) fn = ebind (fn v) (\<lambda>x. eret (result_success x md))"

fun bind_async :: "'a result \<Rightarrow> ('a \<Rightarrow> ('s, 'b result) eff) \<Rightarrow> ('s, 'b result) eff" where
  "bind_async (Failure e md) fn = eret (Failure e md)"
| "bind_async (Success v md) fn = fn v"

fun map_error :: "'a result \<Rightarrow> (error \<Rightarrow> error) \<Rightarrow> 'a result" where
  "map_error (Success v md) fn = Success v md"
| "map_error (Failure e md) fn = result_failure (fn e) md"

fun unwrap_or :: "'a result \<Rightarrow> 'a \<Rightarrow> 'a" where
  "unwrap_or (Failure e md) d = d"
| "unwrap_or (Success v md) d = v"

fun unwrap_or_else :: "'a result \<Rightarrow> (error \<Rightarrow> 'a) \<Rightarrow> 'a" where
  "unwrap_or_else (Failure e md) fn = fn e"
| "unwrap_or_else (Success v md) fn = v"

fun unwrap_or_raise :: "'a result \<Rightarrow> exn + 'a" where
  "unwrap_or_raise (Failure e md) = Inl (as_exception e)"
| "unwrap_or_raise (Success v md) = Inr v"

fun result_match :: "'a result \<Rightarrow> ('a \<Rightarrow> 'b) \<Rightarrow> (error \<Rightarrow> 'b) \<Rightarrow> 'b" where
  "result_match (Success v md) on_success on_failure = on_success v"
| "result_match (Failure e md) on_success on_failure = on_failure e"

definition result_bool :: "'a result \<Rightarrow> exn + bool" where
  "result_bool r =
     Inl (PyException ''TypeError''
       ''Result objects do not support truthiness. Use .is_success or .is_failure explicitly.'')"

lemma is_failure_iff [simp]: "is_failure r \<longleftrightarrow> \<not> is_success r"
  by (cases r) auto

lemma is_success_result_success [simp]:
  "is_success (result_success v md)" "\<not> is_success (result_failure e md)"
  by (simp_all add: result_success_def result_failure_def)

lemma not_is_successE:
  assumes "\<not> is_success r"
  obtains e md where "r = Failure e md"
  using assms by (cases r) auto

lemma is_successE:
  assumes "is_success r"
  obtains v md where "r = Success v md"
  using assms by (cases r) auto

section \<open>The contract of a failure-propagating chain\<close>

text \<open>
  Handlers chain \<open>Result\<close>-returning steps with \<open>bind\<close> (\<open>bind_async\<close>). What the chaining
  relies on: a failed step is returned as it is and the rest of the chain is skipped, and
  nesting of chains does not matter. The locale states it for any chain operation and
  derives the behaviour of a whole list of steps.
\<close>

locale failure_chain =
  fixes step :: "'r \<Rightarrow> ('v \<Rightarrow> 'r) \<Rightarrow> 'r"
    and ok :: "'v \<Rightarrow> 'r"
    and failed :: "'r \<Rightarrow> bool"
  assumes step_ok: "step (ok v) f = f v"
    and step_failed: "failed r \<Longrightarrow> step r f = r"
    and ok_or_failed: "failed r \<or> (\<exists>v. \<forall>f. step r f = f v)"
    and ok_not_failed: "\<not> failed (ok v)"
begin

fun chain_all :: "'r \<Rightarrow> ('v \<Rightarrow> 'r) list \<Rightarrow> 'r" where
  "chain_all r [] = r"
| "chain_all r (f # fs) = chain_all (step r f) fs"

lemma step_assoc: "step (step r f) g = step r (\<lambda>v. step (f v) g)"
proof (cases "failed r")
  case True
  then show ?thesis by (simp add: step_failed)
next
  case False
  with ok_or_failed obtain v where "\<And>f. step r f = f v" by blast
  then show ?thesis by simp
qed

lemma chain_failed: "failed r \<Longrightarrow> chain_all r fs = r"
  by (induction fs) (auto simp: step_failed)

lemma chain_append: "chain_all r (fs @ gs) = chain_all (chain_all r fs) gs"
  by (induction fs arbitrary: r) auto

lemma chain_first_failure:
  assumes "failed (chain_all r fs)"
  shows "chain_all r (fs @ gs) = chain_all r fs"
  using assms by (simp add: chain_append chain_failed)

end

interpretation result_chain: failure_chain result_bind "\<lambda>v. Success v []" is_failure
proof
  fix r :: "'a result" and f :: "'a \<Rightarrow> 'a result"
  show "is_failure r \<Longrightarrow> result_bind r f = r" by (cases r) auto
  show "is_failure r \<or> (\<exists>v. \<forall>f. result_bind r f = (f v :: 'a result))" by (cases r) auto
qed auto

lemma bind_async_pure: "bind_async r (\<lambda>v. eret (f v)) s = (Inr (result_bind r f), s)"
  by (cases r) auto

lemma map_async_pure: "map_async r (\<lambda>v. eret (f v)) s = (Inr (result_map r f), s)"
  by (cases r) auto

lemma result_map_id: "result_map r (\<lambda>v. v) = r"
  by (cases r) (auto simp: result_success_def)

lemma result_map_comp: "result_map (result_map r f) g = result_map r (\<lambda>v. g (f v))"
  by (cases r) (auto simp: result_success_def)

end
