(* ===== verification/Qx_Sql.thy ===== *)
theory Qx_Sql
  imports Qx_Core
begin

text \<open>
  The interface to a relational table. PostgreSQL and SQLAlchemy are not part of the
  repository, so the definitions of the other theories take a table as a parameter of type
  \<open>('db, 'r) sql\<close>: one operation per statement form the sources use, each an effect on the
  database state \<open>'db\<close> of the session. The locale \<open>sql_table\<close> names what the code relies
  on: WHERE, ORDER BY and LIMIT, the row count of an UPDATE, and that a row violating a
  unique index is refused with a message mentioning it. \<open>sql_up\<close> adds that statements do
  not fail for other reasons. The last section gives a table held in a list and interprets
  both locales on it, so that every hypothesis about tables can be met.
\<close>

section \<open>Statements\<close>

text \<open>
  \<open>sql_select P k lmt\<close> is SELECT with condition \<open>P\<close>, ORDER BY the key \<open>k\<close> (a constant key
  for no ORDER BY) and an optional LIMIT. \<open>sql_update P f\<close> returns the number of rows it
  changed. \<open>sql_upsert r f\<close> is INSERT of \<open>r\<close> with ON CONFLICT on the unique index DO
  UPDATE by \<open>f\<close> (the identity for DO NOTHING). \<open>sql_page P le k n\<close> is SELECT with an ORDER BY
  that the relation \<open>le\<close> describes, OFFSET \<open>k\<close> and LIMIT \<open>n\<close>; \<open>sql_count P\<close> is
  SELECT count(*).
\<close>

record ('db, 'r) sql =
  sql_insert :: "'r list \<Rightarrow> ('db, unit) eff"
  sql_select :: "('r \<Rightarrow> bool) \<Rightarrow> ('r \<Rightarrow> int \<times> int) \<Rightarrow> nat option \<Rightarrow> ('db, 'r list) eff"
  sql_update :: "('r \<Rightarrow> bool) \<Rightarrow> ('r \<Rightarrow> 'r) \<Rightarrow> ('db, nat) eff"
  sql_delete :: "('r \<Rightarrow> bool) \<Rightarrow> ('db, nat) eff"
  sql_upsert :: "'r \<Rightarrow> ('r \<Rightarrow> 'r) \<Rightarrow> ('db, unit) eff"
  sql_page :: "('r \<Rightarrow> bool) \<Rightarrow> ('r \<Rightarrow> 'r \<Rightarrow> bool) \<Rightarrow> nat \<Rightarrow> nat \<Rightarrow> ('db, 'r list) eff"
  sql_count :: "('r \<Rightarrow> bool) \<Rightarrow> ('db, nat) eff"

abbreviation no_order :: "'r \<Rightarrow> int \<times> int" where
  "no_order \<equiv> (\<lambda>_. (0, 0))"

text \<open>No two rows clash on a unique index.\<close>

definition unique_rows :: "('r \<Rightarrow> 'r \<Rightarrow> bool) \<Rightarrow> 'r list \<Rightarrow> bool" where
  "unique_rows clash xs = sorted_wrt (\<lambda>a b. \<not> clash a b) xs"

text \<open>The test the sources make on a driver's exception: \<open>"unique" in str(exc).lower()\<close>.\<close>

definition unique_violation :: "exn \<Rightarrow> bool" where
  "unique_violation e = py_contains (py_lower (exn_str e)) ''unique''"

text \<open>\<open>LIKE\<close> and \<open>ILIKE\<close> patterns: \<open>%\<close> matches any text and \<open>_\<close> any character.\<close>

fun like_match :: "string \<Rightarrow> string \<Rightarrow> bool" where
  "like_match [] s = (s = [])"
| "like_match (p # ps) [] = (p = CHR ''%'' \<and> like_match ps [])"
| "like_match (p # ps) (c # s) =
     (if p = CHR ''%'' then like_match ps (c # s) \<or> like_match (p # ps) s
      else (p = CHR ''_'' \<or> p = c) \<and> like_match ps s)"

definition limit_rows :: "nat option \<Rightarrow> 'r list \<Rightarrow> 'r list" where
  "limit_rows lmt ys = (case lmt of None \<Rightarrow> ys | Some n \<Rightarrow> take n ys)"

definition upsert_rows :: "('r \<Rightarrow> 'r \<Rightarrow> bool) \<Rightarrow> 'r \<Rightarrow> ('r \<Rightarrow> 'r) \<Rightarrow> 'r list \<Rightarrow> 'r list" where
  "upsert_rows clash r f xs =
     (if \<exists>x \<in> set xs. clash x r then map (\<lambda>x. if clash x r then f x else x) xs else xs @ [r])"

text \<open>A relation that can order rows, and the list sorted by it.\<close>

definition row_order :: "('r \<Rightarrow> 'r \<Rightarrow> bool) \<Rightarrow> bool" where
  "row_order le \<longleftrightarrow> (\<forall>a b c. le a b \<longrightarrow> le b c \<longrightarrow> le a c) \<and> (\<forall>a b. le a b \<or> le b a)"

fun insert_row :: "('r \<Rightarrow> 'r \<Rightarrow> bool) \<Rightarrow> 'r \<Rightarrow> 'r list \<Rightarrow> 'r list" where
  "insert_row le x [] = [x]"
| "insert_row le x (y # ys) = (if le x y then x # y # ys else y # insert_row le x ys)"

definition order_rows :: "('r \<Rightarrow> 'r \<Rightarrow> bool) \<Rightarrow> 'r list \<Rightarrow> 'r list" where
  "order_rows le xs = foldr (insert_row le) xs []"

lemma insert_row_mset [simp]: "mset (insert_row le x ys) = add_mset x (mset ys)"
  by (induction ys) auto

lemma insert_row_set [simp]: "set (insert_row le x ys) = insert x (set ys)"
  by (induction ys) auto

lemma insert_row_sorted:
  "row_order le \<Longrightarrow> sorted_wrt le ys \<Longrightarrow> sorted_wrt le (insert_row le x ys)"
  by (induction ys) (auto simp: row_order_def)

lemma order_rows_mset [simp]: "mset (order_rows le xs) = mset xs"
  by (induction xs) (auto simp: order_rows_def)

lemma order_rows_sorted: "row_order le \<Longrightarrow> sorted_wrt le (order_rows le xs)"
  by (induction xs) (auto simp: order_rows_def intro: insert_row_sorted)

lemma limit_rows_simps [simp]: "limit_rows None ys = ys" "limit_rows (Some n) ys = take n ys"
  by (simp_all add: limit_rows_def)

lemma unique_rows_append:
  "unique_rows clash (xs @ ys) \<longleftrightarrow>
     unique_rows clash xs \<and> unique_rows clash ys \<and> (\<forall>x\<in>set xs. \<forall>y\<in>set ys. \<not> clash x y)"
  by (simp add: unique_rows_def sorted_wrt_append)

lemma unique_rows_same:
  assumes "unique_rows clash xs" "a \<in> set xs" "b \<in> set xs" "clash a b" "clash b a"
  shows "a = b"
  using assms by (induction xs) (auto simp: unique_rows_def)

text \<open>\<open>engine.begin()\<close>: an exception, of the commit too, undoes the statements; what the second
  state has, it keeps.\<close>

definition engine_begin ::
  "('d \<Rightarrow> exn option) \<Rightarrow> ('d \<times> 'b, 'a) eff \<Rightarrow> ('d \<times> 'b, 'a) eff" where
  "engine_begin commit body st =
     (case body st of
        (Inl e, (d, b)) \<Rightarrow> (Inl e, (fst st, b))
      | (Inr x, (d, b)) \<Rightarrow>
          (case commit d of None \<Rightarrow> (Inr x, (d, b)) | Some e \<Rightarrow> (Inl e, (fst st, b))))"

text \<open>An UPDATE that no unique index notices.\<close>

definition keeps_keys :: "('r \<Rightarrow> 'r \<Rightarrow> bool) \<Rightarrow> ('r \<Rightarrow> bool) \<Rightarrow> ('r \<Rightarrow> 'r) \<Rightarrow> bool" where
  "keeps_keys clash P f \<longleftrightarrow>
     (\<forall>a b. P a \<longrightarrow> clash (f a) b = clash a b \<and> clash b (f a) = clash b a)"

lemma keeps_keys_unique:
  assumes "keeps_keys clash P f" "unique_rows clash rs"
  shows "unique_rows clash (map (\<lambda>r. if P r then f r else r) rs)"
proof -
  have "clash (if P a then f a else a) (if P b then f b else b) = clash a b" for a b
    using assms(1) by (simp add: keeps_keys_def)
  with assms(2) show ?thesis by (simp add: unique_rows_def sorted_wrt_map)
qed

section \<open>What the code relies on\<close>

locale sql_table =
  fixes T :: "('db, 'r) sql"
    and rows :: "'db \<Rightarrow> 'r list"
    and clash :: "'r \<Rightarrow> 'r \<Rightarrow> bool"
    and rest :: "'db \<Rightarrow> 'o"
  assumes select_state: "sql_select T P k lmt db = (res, db') \<Longrightarrow> db' = db"
    and select_rows: "sql_select T P k lmt db = (Inr rs, db') \<Longrightarrow>
      \<exists>ys. mset ys = mset (filter P (rows db)) \<and> sorted (map k ys) \<and> rs = limit_rows lmt ys"
    and insert_ok: "sql_insert T xs db = (Inr u, db') \<Longrightarrow> unique_rows clash (rows db) \<Longrightarrow>
      unique_rows clash (rows db @ xs) \<and> rows db' = rows db @ xs \<and> rest db' = rest db"
    and insert_failed: "sql_insert T xs db = (Inl e, db') \<Longrightarrow> rows db' = rows db \<and> rest db' = rest db"
    and insert_clash: "unique_rows clash (rows db) \<Longrightarrow> \<not> unique_rows clash (rows db @ xs) \<Longrightarrow>
      sql_insert T xs db = (Inl e, db') \<Longrightarrow> is_exception e \<and> unique_violation e"
    and update_ok: "sql_update T P f db = (Inr n, db') \<Longrightarrow>
      rows db' = map (\<lambda>r. if P r then f r else r) (rows db) \<and> n = length (filter P (rows db))
        \<and> rest db' = rest db"
    and update_unique: "sql_update T P f db = (Inr n, db') \<Longrightarrow> unique_rows clash (rows db) \<Longrightarrow>
      unique_rows clash (rows db')"
    and update_failed: "sql_update T P f db = (Inl e, db') \<Longrightarrow> rows db' = rows db \<and> rest db' = rest db"
    and update_clash: "unique_rows clash (rows db) \<Longrightarrow>
      \<not> unique_rows clash (map (\<lambda>r. if P r then f r else r) (rows db)) \<Longrightarrow>
      sql_update T P f db = (Inl e, db') \<Longrightarrow> is_exception e \<and> unique_violation e"
    and delete_ok: "sql_delete T P db = (Inr n, db') \<Longrightarrow>
      rows db' = filter (\<lambda>r. \<not> P r) (rows db) \<and> n = length (filter P (rows db)) \<and> rest db' = rest db"
    and delete_failed: "sql_delete T P db = (Inl e, db') \<Longrightarrow> rows db' = rows db \<and> rest db' = rest db"
    and upsert_ok: "sql_upsert T r f db = (Inr u, db') \<Longrightarrow>
      rows db' = upsert_rows clash r f (rows db) \<and> rest db' = rest db"
    and upsert_failed: "sql_upsert T r f db = (Inl e, db') \<Longrightarrow> rows db' = rows db \<and> rest db' = rest db"
    and page_state: "sql_page T P le off num db = (pres, db') \<Longrightarrow> db' = db"
    and page_rows: "row_order le \<Longrightarrow> sql_page T P le off num db = (Inr rs, db') \<Longrightarrow>
      \<exists>ys. mset ys = mset (filter P (rows db)) \<and> sorted_wrt le ys \<and> rs = take num (drop off ys)"
    and count_rows: "sql_count T P db = (Inr m, db') \<Longrightarrow> m = length (filter P (rows db)) \<and> db' = db"
begin

lemma select_mset:
  assumes "sql_select T P k None db = (Inr rs, db')"
  shows "mset rs = mset (filter P (rows db))" and "set rs = set (filter P (rows db))"
    and "sorted (map k rs)" and "length rs = length (filter P (rows db))"
proof -
  from select_rows [OF assms] show m: "mset rs = mset (filter P (rows db))"
    and "sorted (map k rs)" by auto
  show "set rs = set (filter P (rows db))" using m by (metis set_mset_mset)
  show "length rs = length (filter P (rows db))" using m by (metis size_mset)
qed

lemma select_unique_order:
  assumes "sql_select T P k None db = (Inr rs, db')"
    and "mset ys = mset (filter P (rows db))" and "sorted (map k ys)"
    and "inj_on k (set ys)" and "distinct ys"
  shows "rs = ys"
  by (rule sorted_key_unique [where f = k]) (use assms select_mset [OF assms(1)] in auto)

lemma update_none:
  assumes "sql_update T P f db = (Inr n, db')"
  shows "n = 0 \<longleftrightarrow> (\<forall>r\<in>set (rows db). \<not> P r)"
    and "n = 0 \<Longrightarrow> rows db' = rows db"
proof -
  from update_ok [OF assms] have n: "n = length (filter P (rows db))"
    and r: "rows db' = map (\<lambda>r. if P r then f r else r) (rows db)" by auto
  from n show iff: "n = 0 \<longleftrightarrow> (\<forall>r\<in>set (rows db). \<not> P r)" by (auto simp: filter_empty_conv)
  assume "n = 0"
  with iff r show "rows db' = rows db" by (auto intro: map_idI)
qed

end

text \<open>Statements only fail for the reasons SQL gives them: an UPDATE that leaves the columns of the
  unique indexes alone, or that ends in rows that do not clash, does not fail.\<close>

locale sql_up = sql_table T rows clash rest
  for T :: "('db, 'r) sql"
    and rows :: "'db \<Rightarrow> 'r list"
    and clash :: "'r \<Rightarrow> 'r \<Rightarrow> bool"
    and rest :: "'db \<Rightarrow> 'o" +
  assumes select_up: "\<exists>rs db'. sql_select T P k lmt db = (Inr rs, db')"
    and insert_up: "unique_rows clash (rows db @ xs) \<Longrightarrow> \<exists>db'. sql_insert T xs db = (Inr (), db')"
    and update_up: "keeps_keys clash P f \<or> unique_rows clash (map (\<lambda>r. if P r then f r else r) (rows db)) \<Longrightarrow>
      \<exists>n db'. sql_update T P f db = (Inr n, db')"
    and delete_up: "\<exists>n db'. sql_delete T P db = (Inr n, db')"
    and upsert_up: "\<exists>db'. sql_upsert T r f db = (Inr (), db')"
    and page_up: "\<exists>rs db'. sql_page T P le off num db = (Inr rs, db')"
    and count_up: "\<exists>m db'. sql_count T P db = (Inr m, db')"

section \<open>A table held in a list\<close>

text \<open>
  A slot of the database state holds the rows; \<open>get\<close> and \<open>put\<close> reach it and leave the rest
  alone.
\<close>

definition unique_violation_exn :: exn where
  "unique_violation_exn =
     PyException ''IntegrityError'' ''duplicate key value violates unique constraint''"

definition list_sql ::
  "('db \<Rightarrow> 'r list) \<Rightarrow> ('r list \<Rightarrow> 'db \<Rightarrow> 'db) \<Rightarrow> ('r \<Rightarrow> 'r \<Rightarrow> bool) \<Rightarrow> ('db, 'r) sql" where
  "list_sql get put clash =
     \<lparr> sql_insert = (\<lambda>xs db.
         if unique_rows clash (get db @ xs) then (Inr (), put (get db @ xs) db)
         else (Inl unique_violation_exn, db)),
       sql_select = (\<lambda>P k lmt db. (Inr (limit_rows lmt (sort_key k (filter P (get db)))), db)),
       sql_update = (\<lambda>P f db.
         let rs = map (\<lambda>r. if P r then f r else r) (get db)
         in if unique_rows clash (get db) \<and> \<not> unique_rows clash rs then (Inl unique_violation_exn, db)
            else (Inr (length (filter P (get db))), put rs db)),
       sql_delete = (\<lambda>P db.
         (Inr (length (filter P (get db))), put (filter (\<lambda>r. \<not> P r) (get db)) db)),
       sql_upsert = (\<lambda>r f db. (Inr (), put (upsert_rows clash r f (get db)) db)),
       sql_page = (\<lambda>P le k n db. (Inr (take n (drop k (order_rows le (filter P (get db))))), db)),
       sql_count = (\<lambda>P db. (Inr (length (filter P (get db))), db)) \<rparr>"

lemma list_sql_sel [simp]:
  "sql_insert (list_sql get put clash) xs db =
     (if unique_rows clash (get db @ xs) then (Inr (), put (get db @ xs) db)
      else (Inl unique_violation_exn, db))"
  "sql_select (list_sql get put clash) P k lmt db =
     (Inr (limit_rows lmt (sort_key k (filter P (get db)))), db)"
  "sql_update (list_sql get put clash) P f db =
     (if unique_rows clash (get db) \<and> \<not> unique_rows clash (map (\<lambda>r. if P r then f r else r) (get db))
      then (Inl unique_violation_exn, db)
      else (Inr (length (filter P (get db))), put (map (\<lambda>r. if P r then f r else r) (get db)) db))"
  "sql_delete (list_sql get put clash) P db =
     (Inr (length (filter P (get db))), put (filter (\<lambda>r. \<not> P r) (get db)) db)"
  "sql_upsert (list_sql get put clash) r f db = (Inr (), put (upsert_rows clash r f (get db)) db)"
  "sql_page (list_sql get put clash) P le off num db =
     (Inr (take num (drop off (order_rows le (filter P (get db))))), db)"
  "sql_count (list_sql get put clash) P db = (Inr (length (filter P (get db))), db)"
  by (simp_all add: list_sql_def Let_def)

lemma unique_violation_exn_simps [simp]:
  "is_exception unique_violation_exn" "unique_violation unique_violation_exn"
  by (simp add: unique_violation_exn_def) (simp add: unique_violation_def unique_violation_exn_def py_lower_def lower_char_def)

locale table_slot =
  fixes get :: "'db \<Rightarrow> 'r list"
    and put :: "'r list \<Rightarrow> 'db \<Rightarrow> 'db"
    and rest :: "'db \<Rightarrow> 'o"
  assumes get_put: "get (put xs db) = xs"
    and rest_put: "rest (put xs db) = rest db"
begin

lemma list_select_rows:
  "\<exists>ys. mset ys = mset (filter P xs) \<and> sorted (map k ys)
     \<and> limit_rows lmt (sort_key k (filter P xs)) = limit_rows lmt ys"
  by (rule exI [of _ "sort_key k (filter P xs)"]) simp

lemma list_page_rows:
  "row_order le \<Longrightarrow> \<exists>ys. mset ys = mset (filter P xs) \<and> sorted_wrt le ys
     \<and> take n (drop k (order_rows le (filter P xs))) = take n (drop k ys)"
  by (rule exI [of _ "order_rows le (filter P xs)"]) (simp add: order_rows_sorted)

lemma list_sql_table: "sql_table (list_sql get put clash) get clash rest"
  by unfold_locales
    (use list_select_rows list_page_rows in \<open>auto simp: get_put rest_put split: if_splits\<close>)

lemma list_sql_up: "sql_up (list_sql get put clash) get clash rest"
  by (intro sql_up.intro list_sql_table sql_up_axioms.intro) (auto simp: keeps_keys_unique)

end

interpretation whole_table: table_slot "\<lambda>rs. rs" "\<lambda>rs _. rs" "\<lambda>_. ()"
  by unfold_locales auto

interpretation list_table: sql_up "list_sql (\<lambda>rs. rs) (\<lambda>rs _. rs) clash" "\<lambda>rs. rs" clash "\<lambda>_. ()"
  for clash :: "'r \<Rightarrow> 'r \<Rightarrow> bool"
  by (rule whole_table.list_sql_up)

end
