(* ===== verification/Qx_Eventstore.thy ===== *)
theory Qx_Eventstore
  imports Qx_Sql
begin

text \<open>
  The package \<open>qx-eventstore\<close>: event-sourced aggregates (\<open>aggregate.py\<close>), the two tables
  (\<open>table.py\<close>) and the store that appends pending events and loads an aggregate from its
  snapshot and the events after it (\<open>store.py\<close>). User classes are records of what the store
  uses of them. The second half is the concurrent use of one store: a step relation in which
  any number of clients create, load, change and append aggregates in any order.
\<close>

section \<open>Event classes and aggregate classes\<close>

text \<open>
  What the store reads of an event object, and \<open>importlib.import_module(m)\<close> followed by
  \<open>getattr(module, c)\<close>, which gives the class's \<open>model_validate\<close>.
\<close>

record 'ev event_api =
  ev_module :: "'ev \<Rightarrow> string"
  ev_qualname :: "'ev \<Rightarrow> string"
  ev_class_name :: "'ev \<Rightarrow> string"
  ev_event_name :: "'ev \<Rightarrow> string"
  ev_dump :: "'ev \<Rightarrow> json"
  import_class :: "string \<Rightarrow> string \<Rightarrow> exn + (json \<Rightarrow> exn + 'ev)"

text \<open>
  Instance attributes other than \<open>id\<close>, \<open>version\<close> and \<open>_pending_events\<close>, by name, with Python
  values \<open>'v\<close>. An \<open>apply_*\<close> method sees the attributes as Python looks them up (instance first,
  then class) and gives the attributes it assigns, with the exception if it raises after that.
  \<open>cls_dump\<close> is what a JSONB column makes of the copy \<open>asdict\<close> takes of a value (it raises on
  values JSON has no form for, such as a UUID or a datetime), \<open>cls_load\<close> the value read back.
\<close>

type_synonym 'v attrs = "string \<rightharpoonup> 'v"

datatype 'v field_default = NoDefault | FieldDefault 'v | FieldFactory 'v

record ('ev, 'v) agg_class =
  cls_fields :: "(string \<times> 'v field_default) list"
  cls_attrs :: "'v attrs"
  cls_apply :: "string \<Rightarrow> ('ev \<Rightarrow> 'v attrs \<Rightarrow> exn option \<times> 'v attrs) option"
  cls_dump :: "'v \<Rightarrow> exn + json"
  cls_load :: "json \<Rightarrow> 'v"

text \<open>
  The identity: an object of the user's type with what \<open>str\<close> gives of it, or the text that
  \<open>load\<close> was called with, which is what a loaded aggregate has as its \<open>id\<close>.
\<close>

datatype 'v agg_ident = IdText string | IdObject string 'v

fun ident_str :: "'v agg_ident \<Rightarrow> string" where
  "ident_str (IdText s) = s"
| "ident_str (IdObject s v) = s"

record ('ev, 'v) es_agg =
  ag_ident :: "'v agg_ident"
  ag_version :: int
  ag_pending :: "'ev list"
  ag_attrs :: "'v attrs"

text \<open>\<open>str(aggregate.id)\<close>.\<close>

definition ag_id :: "('ev, 'v) es_agg \<Rightarrow> string" where
  "ag_id a = ident_str (ag_ident a)"

lemma ag_id_simps [simp]:
  "ag_id (a\<lparr>ag_version := n\<rparr>) = ag_id a"
  "ag_id (a\<lparr>ag_pending := p\<rparr>) = ag_id a"
  "ag_id (a\<lparr>ag_attrs := m\<rparr>) = ag_id a"
  "ag_id \<lparr>ag_ident = i, ag_version = n, ag_pending = p, ag_attrs = m\<rparr> = ident_str i"
  by (simp_all add: ag_id_def)

definition agg_view :: "('ev, 'v) agg_class \<Rightarrow> ('ev, 'v) es_agg \<Rightarrow> 'v attrs" where
  "agg_view cls a = cls_attrs cls ++ ag_attrs a"

definition es_apply :: "'ev event_api \<Rightarrow> ('ev, 'v) agg_class \<Rightarrow> 'ev \<Rightarrow> (('ev, 'v) es_agg, unit) eff" where
  "es_apply api cls ev a =
     (case cls_apply cls (''apply_'' @ py_lower (ev_class_name api ev)) of
        None \<Rightarrow> (Inr (), a)
      | Some h \<Rightarrow>
          (case h ev (agg_view cls a) of
             (exc, upd) \<Rightarrow>
               ((case exc of None \<Rightarrow> Inr () | Some e \<Rightarrow> Inl e), a\<lparr>ag_attrs := ag_attrs a ++ upd\<rparr>)))"

definition es_record_event :: "'ev event_api \<Rightarrow> ('ev, 'v) agg_class \<Rightarrow> 'ev \<Rightarrow> (('ev, 'v) es_agg, unit) eff" where
  "es_record_event api cls ev =
     ebind (emodify (\<lambda>a. a\<lparr>ag_pending := ag_pending a @ [ev]\<rparr>)) (\<lambda>_. es_apply api cls ev)"

definition es_pull_events :: "(('ev, 'v) es_agg, 'ev list) eff" where
  "es_pull_events a = (Inr (ag_pending a), a\<lparr>ag_pending := []\<rparr>)"

definition es_has_pending_events :: "('ev, 'v) es_agg \<Rightarrow> bool" where
  "es_has_pending_events a = (ag_pending a \<noteq> [])"

definition es_replay ::
  "'ev event_api \<Rightarrow> ('ev, 'v) agg_class \<Rightarrow> 'ev list \<Rightarrow> int \<Rightarrow> (('ev, 'v) es_agg, unit) eff" where
  "es_replay api cls events version =
     ebind (efold (es_apply api cls) events) (\<lambda>_. emodify (\<lambda>a. a\<lparr>ag_version := version\<rparr>))"

text \<open>\<open>object.__new__(cls)\<close> with \<open>id\<close>, \<open>version = 0\<close> and an empty buffer.\<close>

definition es_blank :: "'v agg_ident \<Rightarrow> ('ev, 'v) es_agg" where
  "es_blank aid = \<lparr>ag_ident = aid, ag_version = 0, ag_pending = [], ag_attrs = Map.empty\<rparr>"

definition es_from_events ::
  "'ev event_api \<Rightarrow> ('ev, 'v) agg_class \<Rightarrow> 'v agg_ident \<Rightarrow> 'ev list \<Rightarrow> int \<Rightarrow> exn + ('ev, 'v) es_agg" where
  "es_from_events api cls aid events version =
     (case es_replay api cls events version (es_blank aid) of
        (Inl e, a) \<Rightarrow> Inl e
      | (Inr u, a) \<Rightarrow> Inr a)"

text \<open>The generated \<open>__init__(id)\<close>: every field gets its default, a field without one must be
  passed, so the call raises.\<close>

fun es_init_fields :: "(string \<times> 'v field_default) list \<Rightarrow> 'v attrs \<Rightarrow> exn + 'v attrs" where
  "es_init_fields [] m = Inr m"
| "es_init_fields ((n, d) # fs) m =
     (case d of
        NoDefault \<Rightarrow> Inl (PyException ''TypeError'' ''missing required argument'')
      | FieldDefault v \<Rightarrow> es_init_fields fs (m(n \<mapsto> v))
      | FieldFactory v \<Rightarrow> es_init_fields fs (m(n \<mapsto> v)))"

definition es_new :: "('ev, 'v) agg_class \<Rightarrow> 'v agg_ident \<Rightarrow> exn + ('ev, 'v) es_agg" where
  "es_new cls aid =
     (case es_init_fields (cls_fields cls) Map.empty of
        Inl e \<Rightarrow> Inl e
      | Inr m \<Rightarrow> Inr ((es_blank aid)\<lparr>ag_attrs := m\<rparr>))"

section \<open>The tables\<close>

record es_row =
  er_id :: uuid
  er_type :: string
  er_agg :: string
  er_seq :: int
  er_event_type :: string
  er_event_name :: string
  er_payload :: json
  er_occurred :: instant
  er_tenant :: "string option"

record snap_row =
  sn_id :: uuid
  sn_type :: string
  sn_agg :: string
  sn_state :: json
  sn_version :: int
  sn_taken :: instant
  sn_tenant :: "string option"

text \<open>The primary key and the unique index on (type, id, sequence) of the events table, and
  the unique index on (type, id) of the snapshots table.\<close>

definition es_clash :: "es_row \<Rightarrow> es_row \<Rightarrow> bool" where
  "es_clash r r' \<longleftrightarrow>
     er_id r = er_id r' \<or>
     (er_type r = er_type r' \<and> er_agg r = er_agg r' \<and> er_seq r = er_seq r')"

definition sn_clash :: "snap_row \<Rightarrow> snap_row \<Rightarrow> bool" where
  "sn_clash r r' \<longleftrightarrow> sn_type r = sn_type r' \<and> sn_agg r = sn_agg r'"

record 'db event_store =
  st_events :: "('db, es_row) sql"
  st_snapshots :: "('db, snap_row) sql"
  st_snapshot_every :: int

section \<open>Snapshots\<close>

text \<open>
  \<open>dataclasses.asdict\<close> reads every field of the class, the base class's included (a subclass
  always inherits them, so \<open>is_dataclass\<close> holds); a field with no value raises. The private
  ones are left out of the result.
\<close>

fun asdict_fields ::
  "'v attrs \<Rightarrow> (string \<times> 'v field_default) list \<Rightarrow> exn + (string \<times> 'v) list" where
  "asdict_fields m [] = Inr []"
| "asdict_fields m ((n, d) # fs) =
     (case m n of
        None \<Rightarrow> Inl (PyException ''AttributeError'' n)
      | Some v \<Rightarrow>
          (case asdict_fields m fs of
             Inl e \<Rightarrow> Inl e
           | Inr rest \<Rightarrow> Inr (if py_startswith n ''_'' then rest else (n, v) # rest)))"

definition serialize_aggregate ::
  "('ev, 'v) agg_class \<Rightarrow> ('ev, 'v) es_agg \<Rightarrow> exn + 'v agg_ident \<times> int \<times> (string \<times> 'v) list" where
  "serialize_aggregate cls a =
     (case asdict_fields (agg_view cls a) (cls_fields cls) of
        Inl e \<Rightarrow> Inl e
      | Inr d \<Rightarrow> Inr (ag_ident a, ag_version a, d))"

text \<open>The serializer of the JSONB column, which the statement runs on that dict.\<close>

fun dump_ident :: "('v \<Rightarrow> exn + json) \<Rightarrow> 'v agg_ident \<Rightarrow> exn + json" where
  "dump_ident dump (IdText s) = Inr (JStr s)"
| "dump_ident dump (IdObject s v) = dump v"

fun dump_values :: "('v \<Rightarrow> exn + json) \<Rightarrow> (string \<times> 'v) list \<Rightarrow> exn + dict" where
  "dump_values dump [] = Inr []"
| "dump_values dump ((n, v) # d) =
     (case dump v of
        Inl e \<Rightarrow> Inl e
      | Inr j \<Rightarrow>
          (case dump_values dump d of Inl e \<Rightarrow> Inl e | Inr rest \<Rightarrow> Inr ((n, j) # rest)))"

definition dump_state ::
  "('ev, 'v) agg_class \<Rightarrow> 'v agg_ident \<times> int \<times> (string \<times> 'v) list \<Rightarrow> exn + dict" where
  "dump_state cls state =
     (case state of (i, n, d) \<Rightarrow>
        case dump_ident (cls_dump cls) i of
          Inl e \<Rightarrow> Inl e
        | Inr j \<Rightarrow>
            (case dump_values (cls_dump cls) d of
               Inl e \<Rightarrow> Inl e
             | Inr ds \<Rightarrow> Inr ((''id'', j) # (''version'', JInt n) # ds)))"

fun restore_fields ::
  "(json \<Rightarrow> 'v) \<Rightarrow> dict \<Rightarrow> (string \<times> 'v field_default) list \<Rightarrow> 'v attrs \<Rightarrow> 'v attrs" where
  "restore_fields load state [] m = m"
| "restore_fields load state ((n, d) # fs) m =
     restore_fields load state fs
       (if py_startswith n ''_'' then m
        else case map_of state n of
               Some j \<Rightarrow> m(n \<mapsto> load j)
             | None \<Rightarrow>
                 (case d of NoDefault \<Rightarrow> m | FieldDefault v \<Rightarrow> m(n \<mapsto> v) | FieldFactory v \<Rightarrow> m(n \<mapsto> v)))"

definition restore_from_snapshot ::
  "('ev, 'v) agg_class \<Rightarrow> string \<Rightarrow> dict \<Rightarrow> int \<Rightarrow> ('ev, 'v) es_agg" where
  "restore_from_snapshot cls aid state version =
     \<lparr>ag_ident = IdText aid, ag_version = version, ag_pending = [],
      ag_attrs = restore_fields (cls_load cls) state (cls_fields cls) Map.empty\<rparr>"

definition es_save_snapshot ::
  "'db event_store \<Rightarrow> ('ev, 'v) agg_class \<Rightarrow> uuid \<Rightarrow> instant \<Rightarrow> string \<Rightarrow> string option
     \<Rightarrow> ('db \<times> ('ev, 'v) es_agg, unit) eff" where
  "es_save_snapshot st cls new_id now ty tenant =
     ebind (on_snd eget) (\<lambda>a.
     ebind (elift (serialize_aggregate cls a)) (\<lambda>asdict.
     ebind (elift (dump_state cls asdict)) (\<lambda>state.
       on_fst (sql_upsert (st_snapshots st)
         \<lparr>sn_id = new_id, sn_type = ty, sn_agg = ag_id a, sn_state = JObj state,
          sn_version = ag_version a, sn_taken = now, sn_tenant = tenant\<rparr>
         (\<lambda>r. r\<lparr>sn_state := JObj state, sn_version := ag_version a, sn_taken := now\<rparr>)))))"

section \<open>Append and load\<close>

definition es_make_row ::
  "'ev event_api \<Rightarrow> uuid \<Rightarrow> instant \<Rightarrow> string \<Rightarrow> string option \<Rightarrow> string \<Rightarrow> int \<Rightarrow> 'ev \<Rightarrow> es_row" where
  "es_make_row api new_id now ty tenant aid sq ev =
     \<lparr>er_id = new_id, er_type = ty, er_agg = aid, er_seq = sq,
      er_event_type = ev_module api ev @ ''.'' @ ev_qualname api ev,
      er_event_name = ev_event_name api ev, er_payload = ev_dump api ev,
      er_occurred = now, er_tenant = tenant\<rparr>"

definition es_make_rows ::
  "'ev event_api \<Rightarrow> (nat \<Rightarrow> uuid) \<Rightarrow> instant \<Rightarrow> string \<Rightarrow> string option \<Rightarrow> string \<Rightarrow> int
     \<Rightarrow> 'ev list \<Rightarrow> es_row list" where
  "es_make_rows api fresh now ty tenant aid base events =
     map (\<lambda>(i, ev). es_make_row api (fresh i) now ty tenant aid (base + int i) ev)
       (enumerate 1 events)"

definition version_conflict :: "string \<Rightarrow> string \<Rightarrow> error" where
  "version_conflict ty aid =
     mk_error ConflictError ''eventstore.version_conflict''
       (ty @ '':'' @ aid @ '' was modified concurrently'')"

text \<open>\<open>fresh\<close> gives the UUIDs of the call (index 0 for the snapshot row), \<open>now\<close> and \<open>now'\<close> the
  two clock readings.\<close>

definition es_append ::
  "'ev event_api \<Rightarrow> 'db event_store \<Rightarrow> ('ev, 'v) agg_class \<Rightarrow> (nat \<Rightarrow> uuid) \<Rightarrow> instant \<Rightarrow> instant
     \<Rightarrow> string \<Rightarrow> string option \<Rightarrow> ('db \<times> ('ev, 'v) es_agg, int result) eff" where
  "es_append api st cls fresh now now' ty tenant =
     ebind (on_snd es_pull_events) (\<lambda>events.
     ebind (on_snd eget) (\<lambda>a.
       if events = [] then eret (result_success (ag_version a) [])
       else
         ebind
           (etry
             (ebind (on_fst (sql_insert (st_events st)
                 (es_make_rows api fresh now ty tenant (ag_id a) (ag_version a) events)))
               (\<lambda>_. eret None))
             (\<lambda>exc.
               if unique_violation exc
               then eret (Some (result_failure (version_conflict ty (ag_id a)) []))
               else eraise exc))
           (\<lambda>early.
             case early of
               Some r \<Rightarrow> eret r
             | None \<Rightarrow>
                 (let new_version = ag_version a + int (length events)
                  in ebind (on_snd (emodify (\<lambda>a. a\<lparr>ag_version := new_version\<rparr>))) (\<lambda>_.
                     ebind
                       (if st_snapshot_every st = 0
                        then eraise (PyException ''ZeroDivisionError'' ''integer modulo by zero'')
                        else if new_version mod st_snapshot_every st = 0
                        then es_save_snapshot st cls (fresh 0) now' ty tenant
                        else eret ())
                       (\<lambda>_. eret (result_success new_version [])))))))"

definition es_deserialize_event :: "'ev event_api \<Rightarrow> es_row \<Rightarrow> exn + 'ev" where
  "es_deserialize_event api r =
     (case py_rpartition (CHR ''.'') (er_event_type r) of
        (module_path, class_name) \<Rightarrow>
          (case import_class api module_path class_name of
             Inl e \<Rightarrow> Inl e
           | Inr validate \<Rightarrow> validate (er_payload r)))"

fun es_deserialize_all :: "'ev event_api \<Rightarrow> es_row list \<Rightarrow> exn + 'ev list" where
  "es_deserialize_all api [] = Inr []"
| "es_deserialize_all api (r # rs) =
     (case es_deserialize_event api r of
        Inl e \<Rightarrow> Inl e
      | Inr ev \<Rightarrow>
          (case es_deserialize_all api rs of Inl e \<Rightarrow> Inl e | Inr evs \<Rightarrow> Inr (ev # evs)))"

definition es_load ::
  "'ev event_api \<Rightarrow> 'db event_store \<Rightarrow> ('ev, 'v) agg_class \<Rightarrow> string \<Rightarrow> string
     \<Rightarrow> ('db, ('ev, 'v) es_agg option result) eff" where
  "es_load api st cls aid ty =
     ebind (sql_select (st_snapshots st) (\<lambda>r. sn_type r = ty \<and> sn_agg r = aid) no_order None)
       (\<lambda>snaps.
     let snapshot_state = (case snaps of [] \<Rightarrow> None
           | s # _ \<Rightarrow> Some (case sn_state s of JObj d \<Rightarrow> d | _ \<Rightarrow> []));
         snapshot_version = (case snaps of [] \<Rightarrow> 0 | s # _ \<Rightarrow> sn_version s)
     in ebind (sql_select (st_events st)
            (\<lambda>r. er_type r = ty \<and> er_agg r = aid \<and> er_seq r > snapshot_version)
            (\<lambda>r. (er_seq r, 0)) None)
       (\<lambda>event_rows.
         if snapshot_state = None \<and> event_rows = [] then eret (result_success None [])
         else
           ebind (elift (es_deserialize_all api event_rows)) (\<lambda>events.
             let final_version =
               (if event_rows = [] then snapshot_version else er_seq (last event_rows))
             in case snapshot_state of
                  Some state \<Rightarrow>
                    (case es_replay api cls events final_version
                            (restore_from_snapshot cls aid state snapshot_version) of
                       (Inl e, a) \<Rightarrow> eraise e
                     | (Inr u, a) \<Rightarrow> eret (result_success (Some a) []))
                | None \<Rightarrow>
                    ebind (elift (es_from_events api cls (IdText aid) events final_version))
                      (\<lambda>a. eret (result_success (Some a) [])))))"

section \<open>What an aggregate's state is: a fold over its events\<close>

text \<open>
  The specification of replay: a fold on the attributes as Python looks them up, which stops
  at the first \<open>apply_*\<close> method that raises.
\<close>

fun es_fold :: "'ev event_api \<Rightarrow> ('ev, 'v) agg_class \<Rightarrow> 'ev list \<Rightarrow> 'v attrs \<Rightarrow> exn + 'v attrs" where
  "es_fold api cls [] v = Inr v"
| "es_fold api cls (ev # evs) v =
     (case cls_apply cls (''apply_'' @ py_lower (ev_class_name api ev)) of
        None \<Rightarrow> es_fold api cls evs v
      | Some h \<Rightarrow>
          (case h ev v of
             (Some e, upd) \<Rightarrow> Inl e
           | (None, upd) \<Rightarrow> es_fold api cls evs (v ++ upd)))"

lemma agg_view_simps [simp]:
  "agg_view cls (a\<lparr>ag_version := n\<rparr>) = agg_view cls a"
  "agg_view cls (a\<lparr>ag_pending := p\<rparr>) = agg_view cls a"
  "agg_view cls (a\<lparr>ag_attrs := ag_attrs a ++ m\<rparr>) = agg_view cls a ++ m"
  "agg_view cls (es_blank aid) = cls_attrs cls"
  by (simp_all add: agg_view_def es_blank_def)

lemma es_blank_simps [simp]:
  "ag_ident (es_blank i) = i" "ag_id (es_blank i) = ident_str i" "ag_version (es_blank i) = 0"
  "ag_pending (es_blank i) = []"
  by (simp_all add: es_blank_def ag_id_def)

lemma efold_apply_frame:
  "efold (es_apply api cls) evs a = (r, a') \<Longrightarrow>
     ag_ident a' = ag_ident a \<and> ag_version a' = ag_version a \<and> ag_pending a' = ag_pending a"
proof (induction evs arbitrary: a)
  case (Cons ev evs)
  obtain r1 a1 where s: "es_apply api cls ev a = (r1, a1)" by (cases "es_apply api cls ev a")
  then have f: "ag_ident a1 = ag_ident a" "ag_version a1 = ag_version a" "ag_pending a1 = ag_pending a"
    by (auto simp: es_apply_def split: option.splits prod.splits)
  show ?case
    using Cons.prems Cons.IH [of a1] s f by (cases r1) (auto simp: ebind_def)
qed simp

lemma efold_apply_view:
  "(case efold (es_apply api cls) evs a of (Inl e, a') \<Rightarrow> Inl e | (Inr u, a') \<Rightarrow> Inr (agg_view cls a'))
     = es_fold api cls evs (agg_view cls a)"
proof (induction evs arbitrary: a)
  case (Cons ev evs)
  show ?case
  proof (cases "cls_apply cls (''apply_'' @ py_lower (ev_class_name api ev))")
    case None
    with Cons show ?thesis by (simp add: ebind_def es_apply_def)
  next
    case (Some h)
    obtain exc upd where h: "h ev (agg_view cls a) = (exc, upd)" by fastforce
    with Some Cons [of "a\<lparr>ag_attrs := ag_attrs a ++ upd\<rparr>"] show ?thesis
      by (cases exc) (simp_all add: ebind_def es_apply_def)
  qed
qed simp

lemma es_replay_spec:
  "(case es_replay api cls evs n a of (Inl e, a') \<Rightarrow> Inl e
    | (Inr u, a') \<Rightarrow> Inr (ag_ident a', ag_version a', ag_pending a', agg_view cls a'))
   = (case es_fold api cls evs (agg_view cls a) of Inl e \<Rightarrow> Inl e
      | Inr v \<Rightarrow> Inr (ag_ident a, n, ag_pending a, v))"
proof -
  obtain r a' where e: "efold (es_apply api cls) evs a = (r, a')"
    by (cases "efold (es_apply api cls) evs a")
  show ?thesis
    using efold_apply_view [where api = api and cls = cls and evs = evs and a = a] efold_apply_frame [OF e] e
    by (cases r) (auto simp: es_replay_def ebind_def split: sum.splits)
qed

lemma es_fold_append:
  "es_fold api cls (xs @ ys) v =
     (case es_fold api cls xs v of Inl e \<Rightarrow> Inl e | Inr w \<Rightarrow> es_fold api cls ys w)"
  by (induction xs arbitrary: v) (auto split: option.splits prod.splits)

text \<open>
  The classes for which a snapshot keeps the whole state: each field has a plain default,
  no field is private or shadows \<open>id\<close> or \<open>version\<close>, and the \<open>apply_*\<close> methods only assign
  fields, with values that come back from JSON as they were.
\<close>

definition field_names :: "('ev, 'v) agg_class \<Rightarrow> string set" where
  "field_names cls = fst ` set (cls_fields cls)"

definition plain_value :: "('ev, 'v) agg_class \<Rightarrow> 'v \<Rightarrow> bool" where
  "plain_value cls x \<longleftrightarrow>
     (case cls_dump cls x of Inl e \<Rightarrow> False | Inr j \<Rightarrow> cls_load cls j = x)"

definition plain_view :: "('ev, 'v) agg_class \<Rightarrow> 'v attrs \<Rightarrow> bool" where
  "plain_view cls v \<longleftrightarrow> (\<forall>n x. n \<in> field_names cls \<longrightarrow> v n = Some x \<longrightarrow> plain_value cls x)"

definition tidy_class :: "('ev, 'v) agg_class \<Rightarrow> bool" where
  "tidy_class cls \<longleftrightarrow>
     distinct (map fst (cls_fields cls)) \<and>
     (\<forall>(n, d) \<in> set (cls_fields cls).
        \<not> py_startswith n ''_'' \<and> n \<noteq> ''id'' \<and> n \<noteq> ''version'' \<and>
        (\<exists>v. d = FieldDefault v \<and> cls_attrs cls n = Some v \<and> plain_value cls v)) \<and>
     (\<forall>m h ev v. cls_apply cls m = Some h \<longrightarrow> dom (snd (h ev v)) \<subseteq> field_names cls \<and>
        (plain_view cls v \<longrightarrow> plain_view cls (v ++ snd (h ev v))))"

lemma tidy_classD:
  assumes "tidy_class cls"
  shows "\<forall>(n, d) \<in> set (cls_fields cls). \<not> py_startswith n ''_''"
    and "\<forall>n \<in> fst ` set (cls_fields cls). n \<noteq> ''id'' \<and> n \<noteq> ''version''"
    and "\<forall>(n, d) \<in> set (cls_fields cls). \<exists>v. d = FieldDefault v \<and> cls_attrs cls n = Some v"
    and "cls_apply cls m = Some h \<Longrightarrow> dom (snd (h ev v)) \<subseteq> field_names cls"
    and "cls_apply cls m = Some h \<Longrightarrow> plain_view cls v \<Longrightarrow> plain_view cls (v ++ snd (h ev v))"
    and "plain_view cls (cls_attrs cls)"
proof -
  note t = assms [unfolded tidy_class_def]
  note fs = t [THEN conjunct2, THEN conjunct1, rule_format]
  show "\<forall>(n, d) \<in> set (cls_fields cls). \<not> py_startswith n ''_''"
    and "\<forall>n \<in> fst ` set (cls_fields cls). n \<noteq> ''id'' \<and> n \<noteq> ''version''"
    and "\<forall>(n, d) \<in> set (cls_fields cls). \<exists>v. d = FieldDefault v \<and> cls_attrs cls n = Some v"
    using fs by fastforce+
  show "plain_view cls (cls_attrs cls)"
    unfolding plain_view_def field_names_def using fs by fastforce
  note h = t [THEN conjunct2, THEN conjunct2, rule_format]
  show "cls_apply cls m = Some h \<Longrightarrow> dom (snd (h ev v)) \<subseteq> field_names cls"
    and "cls_apply cls m = Some h \<Longrightarrow> plain_view cls v \<Longrightarrow> plain_view cls (v ++ snd (h ev v))"
    using h by blast+
qed

lemma es_fold_plain:
  assumes "tidy_class cls" "plain_view cls v" "es_fold api cls evs v = Inr w"
  shows "plain_view cls w"
  using assms(2,3)
proof (induction evs arbitrary: v)
  case (Cons ev evs)
  show ?case
  proof (cases "cls_apply cls (''apply_'' @ py_lower (ev_class_name api ev))")
    case None
    with Cons show ?thesis by simp
  next
    case (Some h)
    obtain upd where h: "h ev v = (None, upd)" and f: "es_fold api cls evs (v ++ upd) = Inr w"
      using Some Cons.prems by (auto split: prod.splits option.splits)
    from tidy_classD(5) [OF assms(1) Some Cons.prems(1), of ev] h
    have "plain_view cls (v ++ upd)" by simp
    from Cons.IH [OF this f] show ?thesis .
  qed
qed simp

lemma es_fold_outside:
  assumes "tidy_class cls" "n \<notin> field_names cls" "es_fold api cls evs v = Inr w"
  shows "w n = v n"
  using assms(3)
proof (induction evs arbitrary: v)
  case (Cons ev evs)
  let ?m = "''apply_'' @ py_lower (ev_class_name api ev)"
  show ?case
  proof (cases "cls_apply cls ?m")
    case None
    with Cons show ?thesis by simp
  next
    case (Some h)
    obtain upd where h: "h ev v = (None, upd)" and f: "es_fold api cls evs (v ++ upd) = Inr w"
      using Some Cons.prems by (auto split: prod.splits option.splits)
    have "dom (snd (h ev v)) \<subseteq> field_names cls" using tidy_classD(4) [OF assms(1) Some] .
    with h assms(2) have "upd n = None" by (auto simp: dom_def)
    with Cons.IH [OF f] show ?thesis by (simp add: map_add_def)
  qed
qed simp

lemma asdict_fields_map:
  assumes "asdict_fields v fs = Inr d" "\<forall>(n, x) \<in> set fs. \<not> py_startswith n ''_''"
  shows "map_of d n = (if n \<in> fst ` set fs then v n else None)"
    and "n \<in> fst ` set fs \<Longrightarrow> v n \<noteq> None"
proof -
  have "map_of d n = (if n \<in> fst ` set fs then v n else None) \<and> (n \<in> fst ` set fs \<longrightarrow> v n \<noteq> None)"
    using assms
  proof (induction fs arbitrary: d)
    case (Cons f fs)
    obtain k x where f: "f = (k, x)" by (cases f)
    with Cons.prems obtain y d' where y: "v k = Some y" and d': "asdict_fields v fs = Inr d'"
      and d: "d = (k, y) # d'"
      by (auto split: option.splits sum.splits)
    from Cons.IH [OF d'] Cons.prems(2) f y d show ?case by auto
  qed simp
  then show "map_of d n = (if n \<in> fst ` set fs then v n else None)"
    and "n \<in> fst ` set fs \<Longrightarrow> v n \<noteq> None" by auto
qed

lemma dump_values_map:
  assumes "dump_values dump d = Inr ds" "map_of d n = Some x"
  shows "\<exists>j. dump x = Inr j \<and> map_of ds n = Some j"
  using assms
proof (induction d arbitrary: ds)
  case (Cons p d)
  then show ?case by (cases p) (auto split: sum.splits if_splits)
qed simp

lemma restore_fields_map:
  assumes "\<forall>(n, x) \<in> set fs. \<not> py_startswith n ''_''"
    "\<forall>n \<in> fst ` set fs. \<exists>j. map_of state n = Some j \<and> v n = Some (load j)"
  shows "restore_fields load state fs m n = (if n \<in> fst ` set fs then v n else m n)"
  using assms
proof (induction fs arbitrary: m)
  case (Cons f fs)
  obtain k x where f: "f = (k, x)" by (cases f)
  with Cons.prems obtain j where j: "map_of state k = Some j" "v k = Some (load j)" by fastforce
  have "restore_fields load state fs (m(k \<mapsto> load j)) n =
      (if n \<in> fst ` set fs then v n else (m(k \<mapsto> load j)) n)"
    using Cons.prems f by (intro Cons.IH) auto
  with f j Cons.prems(1) show ?case by auto
qed simp

lemma restore_view:
  assumes tidy: "tidy_class cls"
    and s: "asdict_fields v (cls_fields cls) = Inr d"
    and j: "dump_values (cls_dump cls) d = Inr ds"
    and plain: "plain_view cls v"
    and out: "\<And>n. n \<notin> field_names cls \<Longrightarrow> v n = cls_attrs cls n"
  shows "agg_view cls (restore_from_snapshot cls aid ((''id'', i) # (''version'', w) # ds) k) = v"
proof
  fix n
  let ?fs = "cls_fields cls" and ?state = "(''id'', i) # (''version'', w) # ds"
  note pub = tidy_classD(1) [OF tidy] and ids = tidy_classD(2) [OF tidy]
  have m: "\<forall>n \<in> fst ` set ?fs. \<exists>j. map_of ?state n = Some j \<and> v n = Some (cls_load cls j)"
  proof
    fix n assume n: "n \<in> fst ` set ?fs"
    then obtain x where x: "v n = Some x" "map_of d n = Some x"
      using asdict_fields_map [OF s pub, of n] by auto
    from dump_values_map [OF j x(2)] obtain y where y: "cls_dump cls x = Inr y" "map_of ds n = Some y"
      by blast
    from plain n x(1) have "plain_value cls x" by (simp add: plain_view_def field_names_def)
    with x y ids n show "\<exists>j. map_of ?state n = Some j \<and> v n = Some (cls_load cls j)"
      by (auto simp: plain_value_def)
  qed
  have some: "\<forall>n \<in> fst ` set ?fs. v n \<noteq> None" using asdict_fields_map(2) [OF s pub] by auto
  show "agg_view cls (restore_from_snapshot cls aid ?state k) n = v n"
    using restore_fields_map [OF pub m, of Map.empty n] some out [of n]
    by (auto simp: agg_view_def restore_from_snapshot_def map_add_def field_names_def
        split: option.splits)
qed

lemma init_fields_map:
  assumes "es_init_fields fs m = Inr m'" "\<forall>(n, d) \<in> set fs. \<exists>v. d = FieldDefault v \<and> c n = Some v"
  shows "m' n = (if n \<in> fst ` set fs then c n else m n)"
  using assms
proof (induction fs arbitrary: m)
  case (Cons f fs)
  from Cons.prems(2) obtain k v where f: "f = (k, FieldDefault v)" "c k = Some v" by (cases f) auto
  with Cons.prems have i: "es_init_fields fs (m(k \<mapsto> v)) = Inr m'"
    and d: "\<forall>(n, d) \<in> set fs. \<exists>v. d = FieldDefault v \<and> c n = Some v" by simp_all
  from Cons.IH [OF i d] f show ?case by auto
qed simp

lemma es_new_view:
  assumes "tidy_class cls" "es_new cls aid = Inr a"
  shows "agg_view cls a = cls_attrs cls" "ag_ident a = aid" "ag_version a = 0" "ag_pending a = []"
proof -
  from assms(2) obtain m where m: "es_init_fields (cls_fields cls) Map.empty = Inr m"
    and a: "a = (es_blank aid)\<lparr>ag_attrs := m\<rparr>"
    by (auto simp: es_new_def split: sum.splits)
  note d = tidy_classD(3) [OF assms(1)]
  from init_fields_map [OF m d] a show "agg_view cls a = cls_attrs cls"
    by (intro ext) (auto simp: agg_view_def map_add_def split: option.splits)
qed (use assms(2) in \<open>auto simp: es_new_def es_blank_def split: sum.splits\<close>)

section \<open>The log as one stream per aggregate\<close>

definition es_stream :: "es_row list \<Rightarrow> string \<Rightarrow> string \<Rightarrow> es_row list" where
  "es_stream rows ty aid = sort_key er_seq (filter (\<lambda>r. er_type r = ty \<and> er_agg r = aid) rows)"

text \<open>Every stream is numbered 1, 2, 3, \<dots> without a gap or a repetition.\<close>

definition es_contiguous :: "es_row list \<Rightarrow> bool" where
  "es_contiguous rows \<longleftrightarrow>
     (\<forall>ty aid. map er_seq (es_stream rows ty aid) = [1..int (length (es_stream rows ty aid))])"

lemma es_stream_set: "set (es_stream rows ty aid) = {r \<in> set rows. er_type r = ty \<and> er_agg r = aid}"
  by (auto simp: es_stream_def)

lemma es_contiguous_seqs:
  assumes "es_contiguous rows"
  shows "er_seq ` set (es_stream rows ty aid) = {1..int (length (es_stream rows ty aid))}"
  using assms unfolding es_contiguous_def by (metis list.set_map set_upto)

lemma es_contiguous_distinct:
  assumes "es_contiguous rows"
  shows "distinct (es_stream rows ty aid)" "inj_on er_seq (set (es_stream rows ty aid))"
    "sorted (map er_seq (es_stream rows ty aid))"
proof -
  have "distinct (map er_seq (es_stream rows ty aid))"
    using assms unfolding es_contiguous_def by (metis distinct_upto)
  then show "distinct (es_stream rows ty aid)" "inj_on er_seq (set (es_stream rows ty aid))"
    by (auto simp: distinct_map)
  show "sorted (map er_seq (es_stream rows ty aid))" by (simp add: es_stream_def)
qed

lemma make_rows_seqs:
  "map er_seq (es_make_rows api fresh now ty tenant aid base evs) = [base + 1..base + int (length evs)]"
proof (rule nth_equalityI)
  show "length (map er_seq (es_make_rows api fresh now ty tenant aid base evs)) =
      length [base + 1..base + int (length evs)]"
    by (simp add: es_make_rows_def)
  fix i assume "i < length (map er_seq (es_make_rows api fresh now ty tenant aid base evs))"
  then have "i < length evs" by (simp add: es_make_rows_def)
  then show "map er_seq (es_make_rows api fresh now ty tenant aid base evs) ! i =
      [base + 1..base + int (length evs)] ! i"
    by (simp add: es_make_rows_def es_make_row_def nth_enumerate_eq)
qed

lemma make_rows_length [simp]:
  "length (es_make_rows api fresh now ty tenant aid base evs) = length evs"
  by (simp add: es_make_rows_def)

lemma make_rows_keys:
  "r \<in> set (es_make_rows api fresh now ty tenant aid base evs) \<Longrightarrow> er_type r = ty \<and> er_agg r = aid"
  by (auto simp: es_make_rows_def es_make_row_def)

lemma es_stream_extend:
  assumes c: "es_contiguous rows" and n: "n = int (length (es_stream rows ty aid))"
  shows "es_stream (rows @ es_make_rows api fresh now ty tenant aid n evs) ty aid =
      es_stream rows ty aid @ es_make_rows api fresh now ty tenant aid n evs"
    and "(ty', aid') \<noteq> (ty, aid) \<Longrightarrow>
      es_stream (rows @ es_make_rows api fresh now ty tenant aid n evs) ty' aid' =
      es_stream rows ty' aid'"
proof -
  let ?new = "es_make_rows api fresh now ty tenant aid n evs"
  let ?old = "es_stream rows ty aid"
  have keys: "filter (\<lambda>r. er_type r = ty \<and> er_agg r = aid) ?new = ?new"
    by (auto simp: filter_id_conv dest: make_rows_keys)
  have seqs: "map er_seq (?old @ ?new) = [1..n] @ [n + 1..n + int (length evs)]"
    using c make_rows_seqs [of api fresh now ty tenant aid n evs] unfolding es_contiguous_def n by simp
  also have "\<dots> = [1..n + int (length evs)]" using n by (intro upto_glue) auto
  finally have all: "map er_seq (?old @ ?new) = [1..n + int (length evs)]" .
  show "es_stream (rows @ ?new) ty aid = ?old @ ?new"
  proof (rule sorted_key_unique [where f = er_seq])
    show "mset (es_stream (rows @ ?new) ty aid) = mset (?old @ ?new)"
      using keys by (simp add: es_stream_def flip: mset_filter)
    show "sorted (map er_seq (es_stream (rows @ ?new) ty aid))" by (simp add: es_stream_def)
    show "sorted (map er_seq (?old @ ?new))" unfolding all by simp
    have "distinct (map er_seq (?old @ ?new))" unfolding all by simp
    then show "inj_on er_seq (set (?old @ ?new))" "distinct (?old @ ?new)"
      unfolding distinct_map by auto
  qed
  assume "(ty', aid') \<noteq> (ty, aid)"
  then have "filter (\<lambda>r. er_type r = ty' \<and> er_agg r = aid') ?new = []"
    by (auto simp: filter_empty_conv dest: make_rows_keys)
  then show "es_stream (rows @ ?new) ty' aid' = es_stream rows ty' aid'"
    by (simp add: es_stream_def)
qed

lemma es_contiguous_extend:
  assumes "es_contiguous rows"
  shows "es_contiguous (rows @ es_make_rows api fresh now ty tenant aid
      (int (length (es_stream rows ty aid))) evs)"
  unfolding es_contiguous_def
proof (intro allI)
  fix ty' aid'
  let ?n = "int (length (es_stream rows ty aid))"
  let ?new = "es_make_rows api fresh now ty tenant aid ?n evs"
  note ext = es_stream_extend [OF assms refl, where api = api and fresh = fresh and now = now
      and tenant = tenant and evs = evs]
  show "map er_seq (es_stream (rows @ ?new) ty' aid') =
      [1..int (length (es_stream (rows @ ?new) ty' aid'))]"
  proof (cases "(ty', aid') = (ty, aid)")
    case True
    have "map er_seq (es_stream rows ty aid) @ map er_seq ?new = [1..?n] @ [?n + 1..?n + int (length evs)]"
      using assms by (simp add: es_contiguous_def make_rows_seqs)
    also have "\<dots> = [1..?n + int (length evs)]" by (intro upto_glue) auto
    finally show ?thesis using True ext(1) by simp
  next
    case False
    with ext(2) assms show ?thesis by (simp add: es_contiguous_def)
  qed
qed

text \<open>An event whose stored form can be read back.\<close>

definition es_loadable :: "'ev event_api \<Rightarrow> 'ev \<Rightarrow> bool" where
  "es_loadable api ev \<longleftrightarrow>
     CHR ''.'' \<notin> set (ev_qualname api ev) \<and>
     (case import_class api (ev_module api ev) (ev_qualname api ev) of
        Inl e \<Rightarrow> False
      | Inr validate \<Rightarrow> validate (ev_dump api ev) = Inr ev)"

lemma deserialize_make_row:
  assumes "es_loadable api ev"
  shows "es_deserialize_event api (es_make_row api i now ty tenant aid sq ev) = Inr ev"
proof -
  have "py_rpartition (CHR ''.'') (ev_module api ev @ CHR ''.'' # ev_qualname api ev) =
      (ev_module api ev, ev_qualname api ev)"
    by (rule py_rpartition_last) (use assms in \<open>simp add: es_loadable_def\<close>)
  with assms show ?thesis
    by (simp add: es_deserialize_event_def es_make_row_def es_loadable_def split: sum.splits)
qed

lemma deserialize_append:
  "es_deserialize_all api (xs @ ys) =
     (case es_deserialize_all api xs of
        Inl e \<Rightarrow> Inl e
      | Inr a \<Rightarrow> (case es_deserialize_all api ys of Inl e \<Rightarrow> Inl e | Inr b \<Rightarrow> Inr (a @ b)))"
  by (induction xs) (auto split: sum.splits)

lemma deserialize_make_rows:
  assumes "list_all (es_loadable api) evs"
  shows "es_deserialize_all api (es_make_rows api fresh now ty tenant aid base evs) = Inr evs"
proof -
  have "es_deserialize_all api (map (\<lambda>(i, ev). es_make_row api (fresh i) now ty tenant aid
      (base + int i) ev) (enumerate k evs)) = Inr evs" for k
    using assms by (induction evs arbitrary: k) (simp_all add: deserialize_make_row)
  then show ?thesis by (simp add: es_make_rows_def)
qed

lemma deserialize_length: "es_deserialize_all api rs = Inr evs \<Longrightarrow> length evs = length rs"
  by (induction rs arbitrary: evs) (auto split: sum.splits)

lemma deserialize_drop:
  "es_deserialize_all api rs = Inr evs \<Longrightarrow> es_deserialize_all api (drop k rs) = Inr (drop k evs)"
proof (induction rs arbitrary: evs k)
  case (Cons r rs)
  then show ?case by (cases k) (auto split: sum.splits)
qed simp

lemma deserialize_take:
  "es_deserialize_all api rs = Inr evs \<Longrightarrow> es_deserialize_all api (take k rs) = Inr (take k evs)"
proof (induction rs arbitrary: evs k)
  case (Cons r rs)
  then show ?case by (cases k) (auto split: sum.splits)
qed simp

lemma contiguous_tail:
  assumes "es_contiguous rows" "0 \<le> v"
  shows "filter (\<lambda>r. er_seq r > v) (es_stream rows ty aid) = drop (nat v) (es_stream rows ty aid)"
proof -
  let ?s = "es_stream rows ty aid"
  have nth: "er_seq (?s ! i) = int i + 1" if "i < length ?s" for i
  proof -
    have "map er_seq ?s ! i = [1..int (length ?s)] ! i"
      using assms(1) by (simp add: es_contiguous_def)
    with that show ?thesis by simp
  qed
  have t: "filter (\<lambda>r. er_seq r > v) (take (nat v) ?s) = []"
    by (auto simp: filter_empty_conv in_set_conv_nth nth)
  have d: "filter (\<lambda>r. er_seq r > v) (drop (nat v) ?s) = drop (nat v) ?s"
    using assms(2) by (auto simp: filter_id_conv in_set_conv_nth nth)
  have "filter (\<lambda>r. er_seq r > v) ?s =
      filter (\<lambda>r. er_seq r > v) (take (nat v) ?s @ drop (nat v) ?s)" by simp
  also have "\<dots> = drop (nat v) ?s" by (simp only: filter_append t d append_Nil)
  finally show ?thesis .
qed

lemma contiguous_last:
  assumes "es_contiguous rows" "drop k (es_stream rows ty aid) \<noteq> []"
  shows "er_seq (last (drop k (es_stream rows ty aid))) = int (length (es_stream rows ty aid))"
proof -
  let ?s = "es_stream rows ty aid"
  from assms(2) have k: "k < length ?s" by (metis drop_eq_Nil not_less)
  then have "last (drop k ?s) = ?s ! (length ?s - 1)" by (simp add: last_conv_nth)
  moreover have "map er_seq ?s ! (length ?s - 1) = [1..int (length ?s)] ! (length ?s - 1)"
    using assms(1) by (simp add: es_contiguous_def)
  ultimately show ?thesis using k by simp
qed

section \<open>The branches of append\<close>

lemma es_append_none:
  "ag_pending a = [] \<Longrightarrow>
     es_append api st cls fresh now now' ty tenant (db, a) =
       (Inr (Success (ag_version a) []), (db, a\<lparr>ag_pending := []\<rparr>))"
  by (simp add: es_append_def es_pull_events_def ebind_def result_success_def)

text \<open>A statement that fails leaves the pending events drained.\<close>

lemma es_append_insert_failed:
  assumes "ag_pending a \<noteq> []"
    and "sql_insert (st_events st)
      (es_make_rows api fresh now ty tenant (ag_id a) (ag_version a) (ag_pending a)) db = (Inl e, db')"
  shows "es_append api st cls fresh now now' ty tenant (db, a) =
      (if is_exception e \<and> unique_violation e then Inr (Failure (version_conflict ty (ag_id a)) [])
       else Inl e, (db', a\<lparr>ag_pending := []\<rparr>))"
  using assms by (simp add: es_append_def es_pull_events_def ebind_def etry_def result_failure_def)

lemma es_append_inserted:
  assumes "ag_pending a \<noteq> []"
    and "sql_insert (st_events st)
      (es_make_rows api fresh now ty tenant (ag_id a) (ag_version a) (ag_pending a)) db = (Inr u, db')"
    and "n = ag_version a + int (length (ag_pending a))"
    and "a' = a\<lparr>ag_pending := [], ag_version := n\<rparr>"
  shows "es_append api st cls fresh now now' ty tenant (db, a) =
      (if st_snapshot_every st = 0
       then (Inl (PyException ''ZeroDivisionError'' ''integer modulo by zero''), (db', a'))
       else if n mod st_snapshot_every st = 0
       then (case es_save_snapshot st cls (fresh 0) now' ty tenant (db', a') of
               (Inl e, s) \<Rightarrow> (Inl e, s) | (Inr x, s) \<Rightarrow> (Inr (Success n []), s))
       else (Inr (Success n []), (db', a')))"
  using assms
  by (simp add: es_append_def es_pull_events_def ebind_def etry_def result_success_def Let_def
      split: prod.splits sum.splits)

text \<open>What a snapshot stores, when nothing raises.\<close>

definition snapshot_state :: "('ev, 'v) agg_class \<Rightarrow> ('ev, 'v) es_agg \<Rightarrow> exn + dict" where
  "snapshot_state cls a =
     (case serialize_aggregate cls a of Inl e \<Rightarrow> Inl e | Inr d \<Rightarrow> dump_state cls d)"

lemma es_save_snapshot_eq:
  "es_save_snapshot st cls i now ty tenant (db, a) =
     (case snapshot_state cls a of
        Inl e \<Rightarrow> (Inl e, (db, a))
      | Inr d \<Rightarrow>
          (case sql_upsert (st_snapshots st)
              \<lparr>sn_id = i, sn_type = ty, sn_agg = ag_id a, sn_state = JObj d,
               sn_version = ag_version a, sn_taken = now, sn_tenant = tenant\<rparr>
              (\<lambda>r. r\<lparr>sn_state := JObj d, sn_version := ag_version a, sn_taken := now\<rparr>) db of
             (r, db') \<Rightarrow> (r, (db', a))))"
  by (simp add: es_save_snapshot_def snapshot_state_def ebind_def split: sum.splits prod.splits)

section \<open>The store on a database that keeps its promises\<close>

locale es_tables =
  ev: sql_table "st_events st" er es_clash sr + sn: sql_table "st_snapshots st" sr sn_clash er
  for st :: "'db event_store"
    and er :: "'db \<Rightarrow> es_row list"
    and sr :: "'db \<Rightarrow> snap_row list"
begin

text \<open>An append that is not behind the log writes exactly the pending events after it.\<close>

lemma append_events:
  assumes p: "ag_pending a \<noteq> []" and u: "unique_rows es_clash (er db)"
    and r: "es_append api st cls fresh now now' ty tenant (db, a) = (r, (db', a'))"
    and i: "sql_insert (st_events st)
      (es_make_rows api fresh now ty tenant (ag_id a) (ag_version a) (ag_pending a)) db = (Inr x, db1)"
  shows "er db' = er db @ es_make_rows api fresh now ty tenant (ag_id a) (ag_version a) (ag_pending a)"
    and "unique_rows es_clash (er db')"
    and "a' = a\<lparr>ag_pending := [], ag_version := ag_version a + int (length (ag_pending a))\<rparr>"
    and "sr db' = sr db \<or> (\<exists>d. snapshot_state cls a' = Inr d \<and>
      sr db' = upsert_rows sn_clash
        \<lparr>sn_id = fresh 0, sn_type = ty, sn_agg = ag_id a, sn_state = JObj d,
         sn_version = ag_version a', sn_taken = now', sn_tenant = tenant\<rparr>
        (\<lambda>r. r\<lparr>sn_state := JObj d, sn_version := ag_version a', sn_taken := now'\<rparr>) (sr db))"
    and "\<And>v md. r = Inr v \<Longrightarrow> v = Success (ag_version a') []"
    and "r = Inr v \<Longrightarrow> st_snapshot_every st \<noteq> 0"
proof -
  let ?a = "a\<lparr>ag_pending := [], ag_version := ag_version a + int (length (ag_pending a))\<rparr>"
  note eq = es_append_inserted [OF p i refl refl, of cls now']
  from ev.insert_ok [OF i u] have e1: "er db1 = er db @ es_make_rows api fresh now ty tenant (ag_id a)
      (ag_version a) (ag_pending a)" and u1: "unique_rows es_clash (er db1)" and s1: "sr db1 = sr db"
    by auto
  let ?row = "\<lambda>d. \<lparr>sn_id = fresh 0, sn_type = ty, sn_agg = ag_id a, sn_state = JObj d,
         sn_version = ag_version ?a, sn_taken = now', sn_tenant = tenant\<rparr>"
  let ?f = "\<lambda>d r. r\<lparr>sn_state := JObj d, sn_version := ag_version ?a, sn_taken := now'\<rparr>"
  have snap: "er (fst s) = er db1 \<and> snd s = ?a \<and> (sr (fst s) = sr db \<or>
      (\<exists>d. snapshot_state cls ?a = Inr d \<and> sr (fst s) = upsert_rows sn_clash (?row d) (?f d) (sr db)))"
    if q: "es_save_snapshot st cls (fresh 0) now' ty tenant (db1, ?a) = (q, s)" for q s
  proof (cases "snapshot_state cls ?a")
    case (Inl e)
    with q s1 show ?thesis by (auto simp: es_save_snapshot_eq)
  next
    case (Inr d)
    obtain q' db2 where up: "sql_upsert (st_snapshots st) (?row d) (?f d) db1 = (q', db2)"
      by (cases "sql_upsert (st_snapshots st) (?row d) (?f d) db1")
    with Inr q have s: "s = (db2, ?a)" by (simp add: es_save_snapshot_eq)
    show ?thesis
      using sn.upsert_ok [of "?row d" "?f d" db1 _ db2] sn.upsert_failed [of "?row d" "?f d" db1 _ db2]
        up Inr s s1
      by (cases q') auto
  qed
  from r eq snap
  have "er db' = er db1 \<and> a' = ?a \<and> (sr db' = sr db \<or>
      (\<exists>d. snapshot_state cls ?a = Inr d \<and> sr db' = upsert_rows sn_clash (?row d) (?f d) (sr db)))
      \<and> (\<forall>v. r = Inr v \<longrightarrow> v = Success (ag_version ?a) [] \<and> st_snapshot_every st \<noteq> 0)"
    using s1 by (auto split: if_splits prod.splits sum.splits)
  then show "er db' = er db @ es_make_rows api fresh now ty tenant (ag_id a) (ag_version a) (ag_pending a)"
    and "unique_rows es_clash (er db')" and "a' = ?a"
    and "sr db' = sr db \<or> (\<exists>d. snapshot_state cls a' = Inr d \<and>
      sr db' = upsert_rows sn_clash
        \<lparr>sn_id = fresh 0, sn_type = ty, sn_agg = ag_id a, sn_state = JObj d,
         sn_version = ag_version a', sn_taken = now', sn_tenant = tenant\<rparr>
        (\<lambda>r. r\<lparr>sn_state := JObj d, sn_version := ag_version a', sn_taken := now'\<rparr>) (sr db))"
    and "\<And>v md. r = Inr v \<Longrightarrow> v = Success (ag_version a') []"
    and "r = Inr v \<Longrightarrow> st_snapshot_every st \<noteq> 0"
    using e1 u1 by auto
qed

text \<open>The three ways an append can end, by where the aggregate stands to its stream.\<close>

lemma insert_behind:
  assumes "es_contiguous (er db)" "unique_rows es_clash (er db)" "0 \<le> v"
    "v < int (length (es_stream (er db) ty aid))" "evs \<noteq> []"
    and i: "sql_insert (st_events st) (es_make_rows api fresh now ty tenant aid v evs) db = (x, db')"
  shows "\<exists>e. x = Inl e \<and> is_exception e \<and> unique_violation e" and "er db' = er db \<and> sr db' = sr db"
proof -
  let ?new = "es_make_rows api fresh now ty tenant aid v evs"
  have "v + 1 \<in> er_seq ` set (es_stream (er db) ty aid)"
    using assms by (simp add: es_contiguous_seqs)
  then obtain r where r: "r \<in> set (er db)" "er_type r = ty" "er_agg r = aid" "er_seq r = v + 1"
    by (auto simp: es_stream_set)
  have "v + 1 \<in> set (map er_seq ?new)" unfolding make_rows_seqs using assms(5)
    by (cases evs) auto
  then obtain r' where r': "r' \<in> set ?new" "er_seq r' = v + 1" by auto
  with r make_rows_keys [OF r'(1)] have "es_clash r r'" by (simp add: es_clash_def)
  with r r' have no: "\<not> unique_rows es_clash (er db @ ?new)" by (auto simp: unique_rows_append)
  show "\<exists>e. x = Inl e \<and> is_exception e \<and> unique_violation e"
    using ev.insert_ok [of ?new db _ db'] ev.insert_clash [of db ?new _ db'] i no assms(2)
    by (cases x) auto
  then show "er db' = er db \<and> sr db' = sr db"
    using ev.insert_failed i by blast
qed

lemma append_behind:
  assumes "es_contiguous (er db)" "unique_rows es_clash (er db)" "0 \<le> ag_version a"
    "ag_version a < int (length (es_stream (er db) ty (ag_id a)))" "ag_pending a \<noteq> []"
    and r: "es_append api st cls fresh now now' ty tenant (db, a) = (r, (db', a'))"
  shows "r = Inr (Failure (version_conflict ty (ag_id a)) []) \<and> er db' = er db \<and> sr db' = sr db
    \<and> a' = a\<lparr>ag_pending := []\<rparr>"
proof -
  obtain x db1 where i: "sql_insert (st_events st)
      (es_make_rows api fresh now ty tenant (ag_id a) (ag_version a) (ag_pending a)) db = (x, db1)"
    by (cases "sql_insert (st_events st)
      (es_make_rows api fresh now ty tenant (ag_id a) (ag_version a) (ag_pending a)) db")
  from insert_behind [OF assms(1-5) i] obtain e where
    "x = Inl e" "is_exception e" "unique_violation e" "er db1 = er db" "sr db1 = sr db" by blast
  with es_append_insert_failed [OF assms(5), of st api fresh now ty tenant db e db1 cls now'] i r
  show ?thesis by auto
qed

end

interpretation es_list: es_tables
  "\<lparr>st_events = list_sql fst (\<lambda>rs db. (rs, snd db)) es_clash,
    st_snapshots = list_sql snd (\<lambda>rs db. (fst db, rs)) sn_clash, st_snapshot_every = n\<rparr>" fst snd
  for n :: int
proof -
  have e: "table_slot fst (\<lambda>rs db :: es_row list \<times> snap_row list. (rs, snd db)) snd" by unfold_locales auto
  have s: "table_slot snd (\<lambda>rs db :: es_row list \<times> snap_row list. (fst db, rs)) fst" by unfold_locales auto
  show "es_tables \<lparr>st_events = list_sql fst (\<lambda>rs db. (rs, snd db)) es_clash,
    st_snapshots = list_sql snd (\<lambda>rs db. (fst db, rs)) sn_clash, st_snapshot_every = n\<rparr> fst snd"
    using table_slot.list_sql_table [OF e] table_slot.list_sql_table [OF s]
    by (simp add: es_tables_def)
qed

section \<open>Any number of clients on one store\<close>

text \<open>
  A world is the database and the aggregates the clients hold, each with its aggregate type.
  A client creates an aggregate with any identity, loads one, records an event on it (the
  recorded event is applied at once), appends it, or gives it up: it does so when its append
  did not succeed or was rolled back, or when an \<open>apply_*\<close> method raised.
\<close>

type_synonym ('db, 'ev, 'v) es_world = "'db \<times> (nat \<rightharpoonup> string \<times> ('ev, 'v) es_agg)"

inductive es_step ::
  "'ev event_api \<Rightarrow> 'db event_store \<Rightarrow> (string \<Rightarrow> ('ev, 'v) agg_class) \<Rightarrow> ('db, 'ev, 'v) es_world
     \<Rightarrow> ('db, 'ev, 'v) es_world \<Rightarrow> bool" for api st classes where
  es_step_new: "es_new (classes ty) aid = Inr a \<Longrightarrow>
    es_step api st classes (db, cl) (db, cl(i \<mapsto> (ty, a)))"
| es_step_load: "es_load api st (classes ty) aid ty db = (Inr (Success (Some a) md), db') \<Longrightarrow>
    es_step api st classes (db, cl) (db', cl(i \<mapsto> (ty, a)))"
| es_step_record: "cl i = Some (ty, a) \<Longrightarrow>
    es_record_event api (classes ty) ev a = (Inr (), a') \<Longrightarrow>
    es_step api st classes (db, cl) (db, cl(i \<mapsto> (ty, a')))"
| es_step_append: "cl i = Some (ty, a) \<Longrightarrow>
    es_append api st (classes ty) fresh now now' ty tenant (db, a) = (r, (db', a')) \<Longrightarrow>
    es_step api st classes (db, cl)
      (db', cl(i := (case r of Inr (Success v md) \<Rightarrow> Some (ty, a') | _ \<Rightarrow> None)))"
| es_step_rollback: "cl i = Some (ty, a) \<Longrightarrow>
    es_append api st (classes ty) fresh now now' ty tenant (db, a) = (r, (db', a')) \<Longrightarrow>
    es_step api st classes (db, cl) (db, cl(i := None))"
| es_step_drop: "es_step api st classes (db, cl) (db, cl(i := None))"

inductive es_reach ::
  "'ev event_api \<Rightarrow> 'db event_store \<Rightarrow> (string \<Rightarrow> ('ev, 'v) agg_class) \<Rightarrow> ('db \<Rightarrow> es_row list)
     \<Rightarrow> ('db \<Rightarrow> snap_row list) \<Rightarrow> ('db, 'ev, 'v) es_world \<Rightarrow> bool" for api st classes er sr where
  es_reach_init: "er db = [] \<Longrightarrow> sr db = [] \<Longrightarrow> es_reach api st classes er sr (db, Map.empty)"
| es_reach_step: "es_reach api st classes er sr w \<Longrightarrow> es_step api st classes w w' \<Longrightarrow>
    es_reach api st classes er sr w'"

text \<open>
  The invariant: the numbering of the log, the snapshots within it and the clients not ahead of
  it hold for every type; what the snapshots and the clients contain is stated for the types
  \<open>G\<close> whose class is tidy and whose events can be read back.
\<close>

abbreviation es_history ::
  "'ev event_api \<Rightarrow> es_row list \<Rightarrow> string \<Rightarrow> string \<Rightarrow> 'ev list \<Rightarrow> bool" where
  "es_history api rows ty aid evs \<equiv> es_deserialize_all api (es_stream rows ty aid) = Inr evs"

definition snap_in_log :: "es_row list \<Rightarrow> snap_row \<Rightarrow> bool" where
  "snap_in_log rows s \<longleftrightarrow>
     1 \<le> sn_version s \<and> sn_version s \<le> int (length (es_stream rows (sn_type s) (sn_agg s)))"

definition snap_ok ::
  "'ev event_api \<Rightarrow> (string \<Rightarrow> ('ev, 'v) agg_class) \<Rightarrow> es_row list \<Rightarrow> snap_row \<Rightarrow> bool" where
  "snap_ok api classes rows s \<longleftrightarrow>
     (\<exists>evs w x d i j.
        es_history api rows (sn_type s) (sn_agg s) evs \<and> sn_version s \<le> int (length evs) \<and>
        es_fold api (classes (sn_type s)) (take (nat (sn_version s)) evs)
          (cls_attrs (classes (sn_type s))) = Inr w \<and>
        asdict_fields w (cls_fields (classes (sn_type s))) = Inr x \<and>
        dump_values (cls_dump (classes (sn_type s))) x = Inr d \<and>
        sn_state s = JObj ((''id'', i) # (''version'', j) # d))"

definition client_ok ::
  "'ev event_api \<Rightarrow> (string \<Rightarrow> ('ev, 'v) agg_class) \<Rightarrow> (string \<Rightarrow> bool) \<Rightarrow> es_row list
     \<Rightarrow> string \<times> ('ev, 'v) es_agg \<Rightarrow> bool" where
  "client_ok api classes G rows c \<longleftrightarrow>
     (case c of (ty, a) \<Rightarrow>
        0 \<le> ag_version a \<and> ag_version a \<le> int (length (es_stream rows ty (ag_id a))) \<and>
        (G ty \<longrightarrow> list_all (es_loadable api) (ag_pending a) \<and>
          (ag_version a = int (length (es_stream rows ty (ag_id a))) \<longrightarrow>
             (\<exists>evs. es_history api rows ty (ag_id a) evs \<and>
                es_fold api (classes ty) (evs @ ag_pending a) (cls_attrs (classes ty)) =
                  Inr (agg_view (classes ty) a)))))"

definition es_log_ok ::
  "'ev event_api \<Rightarrow> (string \<Rightarrow> ('ev, 'v) agg_class) \<Rightarrow> (string \<Rightarrow> bool) \<Rightarrow> es_row list
     \<Rightarrow> snap_row list \<Rightarrow> bool" where
  "es_log_ok api classes G rows snaps \<longleftrightarrow>
     unique_rows es_clash rows \<and> es_contiguous rows \<and>
     (\<forall>s\<in>set snaps. snap_in_log rows s) \<and>
     (\<forall>ty aid. G ty \<longrightarrow> (\<exists>evs. es_history api rows ty aid evs)) \<and>
     (\<forall>s\<in>set snaps. G (sn_type s) \<longrightarrow> snap_ok api classes rows s)"

definition es_inv ::
  "'ev event_api \<Rightarrow> (string \<Rightarrow> ('ev, 'v) agg_class) \<Rightarrow> (string \<Rightarrow> bool) \<Rightarrow> ('db \<Rightarrow> es_row list)
     \<Rightarrow> ('db \<Rightarrow> snap_row list) \<Rightarrow> ('db, 'ev, 'v) es_world \<Rightarrow> bool" where
  "es_inv api classes G er sr w \<longleftrightarrow>
     (case w of (db, cl) \<Rightarrow>
        es_log_ok api classes G (er db) (sr db) \<and> (\<forall>c\<in>ran cl. client_ok api classes G (er db) c))"

lemma ran_update: "c \<in> ran (m(i := x)) \<Longrightarrow> x = Some c \<or> c \<in> ran m"
  by (auto simp: ran_def split: if_splits)

lemma snap_in_log_extend:
  assumes "snap_in_log rows s" "es_contiguous rows" "n = int (length (es_stream rows ty aid))"
  shows "snap_in_log (rows @ es_make_rows api fresh now ty tenant aid n evs) s"
proof (cases "(sn_type s, sn_agg s) = (ty, aid)")
  case True
  with assms(1) es_stream_extend(1) [OF assms(2,3), of api fresh now tenant evs] show ?thesis
    by (simp add: snap_in_log_def)
next
  case False
  from assms(1) es_stream_extend(2) [OF assms(2,3) False, of api fresh now tenant evs] show ?thesis
    by (simp add: snap_in_log_def)
qed

lemma history_extend:
  assumes h: "es_history api rows ty' aid' evs0" and c: "es_contiguous rows"
    and l: "ty' = ty \<Longrightarrow> list_all (es_loadable api) evs" and n: "n = int (length (es_stream rows ty aid))"
  shows "\<exists>more. es_history api (rows @ es_make_rows api fresh now ty tenant aid n evs) ty' aid' (evs0 @ more)"
proof (cases "(ty', aid') = (ty, aid)")
  case True
  with h l es_stream_extend(1) [OF c n, of api fresh now tenant evs]
    deserialize_make_rows [of api evs fresh now ty tenant aid n]
  have "es_history api (rows @ es_make_rows api fresh now ty tenant aid n evs) ty' aid' (evs0 @ evs)"
    by (simp add: deserialize_append)
  then show ?thesis ..
next
  case False
  with h es_stream_extend(2) [OF c n False, of api fresh now tenant evs]
  have "es_history api (rows @ es_make_rows api fresh now ty tenant aid n evs) ty' aid' (evs0 @ [])"
    by simp
  then show ?thesis ..
qed

lemma snap_ok_extend:
  assumes s: "snap_ok api classes rows s" and c: "es_contiguous rows"
    and l: "sn_type s = ty \<Longrightarrow> list_all (es_loadable api) evs"
    and n: "n = int (length (es_stream rows ty aid))"
  shows "snap_ok api classes (rows @ es_make_rows api fresh now ty tenant aid n evs) s"
proof -
  from s obtain evs0 w x d i j where h: "es_history api rows (sn_type s) (sn_agg s) evs0"
    and v: "sn_version s \<le> int (length evs0)"
    and f: "es_fold api (classes (sn_type s)) (take (nat (sn_version s)) evs0)
          (cls_attrs (classes (sn_type s))) = Inr w"
    and d: "asdict_fields w (cls_fields (classes (sn_type s))) = Inr x"
      "dump_values (cls_dump (classes (sn_type s))) x = Inr d"
    and st: "sn_state s = JObj ((''id'', i) # (''version'', j) # d)"
    unfolding snap_ok_def by blast
  from history_extend [OF h c l n, of fresh now tenant] obtain more where
    h': "es_history api (rows @ es_make_rows api fresh now ty tenant aid n evs) (sn_type s) (sn_agg s)
      (evs0 @ more)" by blast
  have "take (nat (sn_version s)) (evs0 @ more) = take (nat (sn_version s)) evs0" using v by simp
  with h' v f d st show ?thesis
    unfolding snap_ok_def
    by (intro exI [of _ "evs0 @ more"] exI [of _ w] exI [of _ x] exI [of _ d] exI [of _ i] exI [of _ j]) simp
qed

lemma es_log_ok_extend:
  assumes ok: "es_log_ok api classes G rows snaps" and l: "G ty \<Longrightarrow> list_all (es_loadable api) evs"
    and n: "n = int (length (es_stream rows ty aid))"
    and u: "unique_rows es_clash (rows @ es_make_rows api fresh now ty tenant aid n evs)"
  shows "es_log_ok api classes G (rows @ es_make_rows api fresh now ty tenant aid n evs) snaps"
    and "G ty \<Longrightarrow> es_history api rows ty aid evs0 \<Longrightarrow>
      es_history api (rows @ es_make_rows api fresh now ty tenant aid n evs) ty aid (evs0 @ evs)"
proof -
  let ?new = "es_make_rows api fresh now ty tenant aid n evs"
  from ok have c: "es_contiguous rows" by (simp add: es_log_ok_def)
  show "G ty \<Longrightarrow> es_history api rows ty aid evs0 \<Longrightarrow> es_history api (rows @ ?new) ty aid (evs0 @ evs)"
    using es_stream_extend(1) [OF c n, of api fresh now tenant evs]
      deserialize_make_rows [OF l, of fresh now ty tenant aid n] by (simp add: deserialize_append)
  have "\<exists>evs. es_history api (rows @ ?new) ty' aid' evs" if "G ty'" for ty' aid'
  proof -
    from ok that obtain evs0 where h: "es_history api rows ty' aid' evs0"
      unfolding es_log_ok_def by blast
    have "ty' = ty \<Longrightarrow> list_all (es_loadable api) evs" using that l by simp
    from history_extend [OF h c this n] show ?thesis by blast
  qed
  moreover have "snap_ok api classes (rows @ ?new) s" if "s \<in> set snaps" "G (sn_type s)" for s
    using ok that l by (intro snap_ok_extend [OF _ c _ n]) (auto simp: es_log_ok_def)
  ultimately show "es_log_ok api classes G (rows @ ?new) snaps"
    using ok u es_contiguous_extend [OF c] snap_in_log_extend [OF _ c n] unfolding es_log_ok_def n
    by blast
qed

lemma client_ok_extend:
  assumes ok: "client_ok api classes G rows (ty', a)" and c: "es_contiguous rows"
    and l: "evs \<noteq> []" and n: "n = int (length (es_stream rows ty aid))"
  shows "client_ok api classes G (rows @ es_make_rows api fresh now ty tenant aid n evs) (ty', a)"
proof -
  note ext = es_stream_extend [OF c n, where api = api and fresh = fresh and now = now
      and tenant = tenant and evs = evs]
  show ?thesis
  proof (cases "(ty', ag_id a) = (ty, aid)")
    case True
    with ok ext(1) l show ?thesis by (auto simp: client_ok_def)
  next
    case False
    with ok ext(2) [OF False] show ?thesis by (simp add: client_ok_def)
  qed
qed

text \<open>
  What a load does: it reads the snapshot, if there is one, and replays the events after it.
\<close>

definition load_start ::
  "('ev, 'v) agg_class \<Rightarrow> snap_row list \<Rightarrow> string \<Rightarrow> string \<Rightarrow> int \<Rightarrow> ('ev, 'v) es_agg \<Rightarrow> bool" where
  "load_start cls snaps ty aid v a \<longleftrightarrow>
     v = 0 \<and> a = es_blank (IdText aid) \<or>
     (\<exists>s\<in>set snaps. sn_type s = ty \<and> sn_agg s = aid \<and> v = sn_version s \<and>
        a = restore_from_snapshot cls aid (case sn_state s of JObj d \<Rightarrow> d | _ \<Rightarrow> []) v)"

lemma load_start_simps:
  assumes "load_start cls snaps ty aid v a"
  shows "ag_ident a = IdText aid" "ag_pending a = []"
  using assms by (auto simp: load_start_def restore_from_snapshot_def)

context es_tables begin

lemma load_run:
  assumes c: "es_contiguous (er db)" and sn_log: "\<forall>s\<in>set (sr db). snap_in_log (er db) s"
    and l: "es_load api st cls aid ty db = (Inr res, db')"
  shows "db' = db" and "es_stream (er db) ty aid = [] \<Longrightarrow> res = Success None []"
    and "es_stream (er db) ty aid \<noteq> [] \<Longrightarrow> \<exists>v evs a0 a.
      0 \<le> v \<and> nat v \<le> length (es_stream (er db) ty aid) \<and>
      es_deserialize_all api (drop (nat v) (es_stream (er db) ty aid)) = Inr evs \<and>
      load_start cls (sr db) ty aid v a0 \<and> res = Success (Some a) [] \<and>
      es_replay api cls evs (int (length (es_stream (er db) ty aid))) a0 = (Inr (), a)"
proof -
  let ?cls = cls and ?s = "es_stream (er db) ty aid"
  let ?P = "\<lambda>r. sn_type r = ty \<and> sn_agg r = aid"
  obtain x db1 where q1: "sql_select (st_snapshots st) ?P no_order None db = (x, db1)"
    by (cases "sql_select (st_snapshots st) ?P no_order None db")
  with l obtain snaps where x: "x = Inr snaps" by (cases x) (auto simp: es_load_def ebind_def)
  have db1: "db1 = db" using sn.select_state [OF q1] .
  have snaps: "set snaps = {r \<in> set (sr db). ?P r}"
    using sn.select_mset(2) [of ?P no_order db snaps db1] q1 x by auto
  define v where "v = (case snaps of [] \<Rightarrow> 0 | s # _ \<Rightarrow> sn_version s)"
  have bound: "1 \<le> sn_version s \<and> sn_version s \<le> int (length ?s)" if "s \<in> set snaps" for s
    using that snaps sn_log by (auto simp: snap_in_log_def)
  have "0 \<le> v \<and> nat v \<le> length ?s"
  proof (cases snaps)
    case (Cons s rest)
    with bound [of s] show ?thesis by (simp add: v_def nat_le_iff)
  qed (simp add: v_def)
  then have v0: "0 \<le> v" and vlen: "nat v \<le> length ?s" by auto
  let ?Q = "\<lambda>r. er_type r = ty \<and> er_agg r = aid \<and> er_seq r > v"
  obtain y db2 where q2: "sql_select (st_events st) ?Q (\<lambda>r. (er_seq r, 0)) None db = (y, db2)"
    by (cases "sql_select (st_events st) ?Q (\<lambda>r. (er_seq r, 0)) None db")
  have l2: "es_load api st ?cls aid ty db = ebind (sql_select (st_events st) ?Q (\<lambda>r. (er_seq r, 0)) None) (\<lambda>event_rows.
         if snaps = [] \<and> event_rows = [] then eret (result_success None [])
         else
           ebind (elift (es_deserialize_all api event_rows)) (\<lambda>events.
             let final_version = (if event_rows = [] then v else er_seq (last event_rows))
             in case snaps of
                  s # _ \<Rightarrow>
                    (case es_replay api ?cls events final_version
                            (restore_from_snapshot ?cls aid (case sn_state s of JObj d \<Rightarrow> d | _ \<Rightarrow> []) v) of
                       (Inl e, a) \<Rightarrow> eraise e
                     | (Inr u, a) \<Rightarrow> eret (result_success (Some a) []))
                | [] \<Rightarrow>
                    ebind (elift (es_from_events api ?cls (IdText aid) events final_version))
                      (\<lambda>a. eret (result_success (Some a) [])))) db"
    unfolding es_load_def v_def using q1 x db1
    by (cases snaps) (simp_all add: ebind_Inr Let_def cong: if_cong)
  obtain rs where y: "y = Inr rs"
    using l unfolding l2 by (cases y) (simp_all add: ebind_def q2)
  have db2: "db2 = db" using ev.select_state [OF q2] .
  have rs: "rs = drop (nat v) ?s"
  proof -
    have "rs = filter (\<lambda>r. er_seq r > v) ?s"
    proof (rule ev.select_unique_order [OF q2 [unfolded y]])
      show "mset (filter (\<lambda>r. er_seq r > v) ?s) = mset (filter ?Q (er db))"
        by (simp add: es_stream_def filter_filter_mset conj_ac)
      have "sorted (map er_seq (filter (\<lambda>r. er_seq r > v) ?s))"
        by (simp add: es_stream_def sorted_filter)
      then show "sorted (map (\<lambda>r. (er_seq r, 0)) (filter (\<lambda>r. er_seq r > v) ?s))"
        unfolding sorted_map by (rule sorted_wrt_mono_rel [rotated]) auto
      show "inj_on (\<lambda>r. (er_seq r, 0)) (set (filter (\<lambda>r. er_seq r > v) ?s))"
        using es_contiguous_distinct(2) [OF c, of ty aid] by (auto simp: inj_on_def)
      show "distinct (filter (\<lambda>r. er_seq r > v) ?s)"
        using es_contiguous_distinct(1) [OF c, of ty aid] by simp
    qed
    with contiguous_tail [OF c v0] show ?thesis by simp
  qed
  have last: "(if rs = [] then v else er_seq (last rs)) = int (length ?s)"
    using contiguous_last [OF c, of "nat v" ty aid] vlen v0 unfolding rs by auto
  have empty: "?s = [] \<longleftrightarrow> snaps = [] \<and> rs = []"
  proof (cases snaps)
    case (Cons s rest)
    with bound [of s] have "?s \<noteq> []" by auto
    with Cons show ?thesis by simp
  qed (simp add: rs v_def)
  note run = l [unfolded l2]
  have "db' = db \<and> (?s = [] \<longrightarrow> res = Success None []) \<and> (?s \<noteq> [] \<longrightarrow> (\<exists>evs a0 a.
      es_deserialize_all api (drop (nat v) ?s) = Inr evs \<and> load_start cls (sr db) ty aid v a0 \<and>
      res = Success (Some a) [] \<and> es_replay api cls evs (int (length ?s)) a0 = (Inr (), a)))"
  proof (cases "?s = []")
    case True
    with run q2 y db2 empty show ?thesis by (auto simp: ebind_def result_success_def)
  next
    case False
    with run q2 y db2 empty obtain evs where des: "es_deserialize_all api rs = Inr evs"
      by (cases "es_deserialize_all api rs") (auto simp: ebind_def)
    show ?thesis
    proof (cases snaps)
      case Nil
      then have v: "v = 0" by (simp add: v_def)
      from False run q2 y db2 empty des last Nil
      obtain a where a: "es_from_events api cls (IdText aid) evs (int (length ?s)) = Inr a"
        and res: "res = Success (Some a) []" and db': "db' = db"
        by (cases "es_from_events api cls (IdText aid) evs (int (length ?s))")
          (auto simp: ebind_def result_success_def)
      from a have "es_replay api cls evs (int (length ?s)) (es_blank (IdText aid)) = (Inr (), a)"
        by (auto simp: es_from_events_def split: prod.splits sum.splits)
      with False res db' des rs v show ?thesis by (auto simp: load_start_def)
    next
      case (Cons s rest)
      with snaps have s: "s \<in> set (sr db)" "sn_type s = ty" "sn_agg s = aid" by auto
      from Cons have v: "v = sn_version s" by (simp add: v_def)
      let ?a0 = "restore_from_snapshot cls aid (case sn_state s of JObj d \<Rightarrow> d | _ \<Rightarrow> []) v"
      obtain r a where rep: "es_replay api cls evs (int (length ?s)) ?a0 = (r, a)"
        by (cases "es_replay api cls evs (int (length ?s)) ?a0")
      with False run q2 y db2 Cons des last
      have "r = Inr () \<and> res = Success (Some a) [] \<and> db' = db"
        by (cases r) (auto simp: ebind_def result_success_def)
      moreover have "load_start cls (sr db) ty aid v ?a0" using s v unfolding load_start_def by blast
      ultimately show ?thesis using False des rs rep by blast
    qed
  qed
  then show "db' = db" and "?s = [] \<Longrightarrow> res = Success None []"
    and "?s \<noteq> [] \<Longrightarrow> \<exists>v evs a0 a. 0 \<le> v \<and> nat v \<le> length ?s \<and>
      es_deserialize_all api (drop (nat v) ?s) = Inr evs \<and> load_start cls (sr db) ty aid v a0 \<and>
      res = Success (Some a) [] \<and> es_replay api cls evs (int (length ?s)) a0 = (Inr (), a)"
    using v0 vlen by blast+
qed

text \<open>The version of what is loaded, and, where a snapshot keeps the state, its attributes.\<close>

lemma load_version:
  assumes "es_contiguous (er db)" "\<forall>s\<in>set (sr db). snap_in_log (er db) s"
    and "es_load api st cls aid ty db = (Inr (Success (Some a) md), db')"
  shows "db' = db" "ag_ident a = IdText aid" "ag_version a = int (length (es_stream (er db) ty aid))"
    "ag_pending a = []" "es_stream (er db) ty aid \<noteq> []"
proof -
  note r = load_run [OF assms]
  show "db' = db" by (rule r(1))
  show ne: "es_stream (er db) ty aid \<noteq> []" using r(2) by auto
  from r(3) [OF this] obtain v evs a0 where s: "load_start cls (sr db) ty aid v a0"
    and rep: "es_replay api cls evs (int (length (es_stream (er db) ty aid))) a0 = (Inr (), a)" by auto
  show "ag_ident a = IdText aid" "ag_version a = int (length (es_stream (er db) ty aid))" "ag_pending a = []"
    using es_replay_spec [where api = api and cls = cls and evs = evs and
      n = "int (length (es_stream (er db) ty aid))" and a = a0] rep load_start_simps [OF s]
    by (auto split: sum.splits)
qed

lemma load_spec:
  assumes ok: "es_log_ok api classes G (er db) (sr db)"
    and tidy: "\<And>s. s \<in> set (sr db) \<Longrightarrow> sn_type s = ty \<Longrightarrow> sn_agg s = aid \<Longrightarrow>
      G ty \<and> tidy_class (classes ty)"
    and l: "es_load api st (classes ty) aid ty db = (Inr res, db')"
  shows "db' = db \<and> (\<exists>evs. es_history api (er db) ty aid evs \<and>
      (if evs = [] then res = Success None []
       else \<exists>a. res = Success (Some a) [] \<and> ag_ident a = IdText aid \<and>
         ag_version a = int (length evs) \<and> ag_pending a = [] \<and>
         es_fold api (classes ty) evs (cls_attrs (classes ty)) = Inr (agg_view (classes ty) a)))"
proof -
  let ?cls = "classes ty" and ?s = "es_stream (er db) ty aid"
  from ok have c: "es_contiguous (er db)" and sl: "\<forall>s\<in>set (sr db). snap_in_log (er db) s"
    by (simp_all add: es_log_ok_def)
  note r = load_run [OF c sl l]
  show ?thesis
  proof (cases "?s = []")
    case True
    with r(1) r(2) show ?thesis by simp
  next
    case False
    from r(3) [OF this] obtain v tl a0 a where v: "0 \<le> v" "nat v \<le> length ?s"
      and des: "es_deserialize_all api (drop (nat v) ?s) = Inr tl"
      and start: "load_start ?cls (sr db) ty aid v a0" and res: "res = Success (Some a) []"
      and rep: "es_replay api ?cls tl (int (length ?s)) a0 = (Inr (), a)" by blast
    have "\<exists>evs. es_history api (er db) ty aid evs \<and>
        es_fold api ?cls evs (cls_attrs ?cls) = es_fold api ?cls tl (agg_view ?cls a0)"
      using start unfolding load_start_def
    proof (elim disjE bexE conjE)
      assume "v = 0" "a0 = es_blank (IdText aid)"
      with des show ?thesis by simp
    next
      fix s assume s: "s \<in> set (sr db)" "sn_type s = ty" "sn_agg s = aid" and vs: "v = sn_version s"
        and a0: "a0 = restore_from_snapshot ?cls aid (case sn_state s of JObj d \<Rightarrow> d | _ \<Rightarrow> []) v"
      from tidy [OF s] have G: "G ty" and t: "tidy_class ?cls" by auto
      with ok s have "snap_ok api classes (er db) s" unfolding es_log_ok_def by blast
      then obtain evs w x d i j where h: "es_history api (er db) ty aid evs"
        and f: "es_fold api ?cls (take (nat v) evs) (cls_attrs ?cls) = Inr w"
        and x: "asdict_fields w (cls_fields ?cls) = Inr x" "dump_values (cls_dump ?cls) x = Inr d"
        and state: "sn_state s = JObj ((''id'', i) # (''version'', j) # d)"
        using s vs unfolding snap_ok_def by blast
      have "agg_view ?cls a0 = w"
        using restore_view [OF t x es_fold_plain [OF t tidy_classD(6) [OF t] f], of aid i j v]
          es_fold_outside [OF t _ f] state a0 by simp
      moreover have "drop (nat v) evs = tl" using deserialize_drop [OF h, of "nat v"] des by simp
      ultimately show ?thesis
        using h f es_fold_append [of api ?cls "take (nat v) evs" "drop (nat v) evs" "cls_attrs ?cls",
            unfolded append_take_drop_id]
        by (intro exI [where x = evs]) simp
    qed
    then obtain evs where h: "es_history api (er db) ty aid evs"
      and f: "es_fold api ?cls evs (cls_attrs ?cls) = es_fold api ?cls tl (agg_view ?cls a0)" by blast
    have len: "length evs = length ?s" using h by (rule deserialize_length)
    with False have ne: "evs \<noteq> []" by auto
    have "es_fold api ?cls tl (agg_view ?cls a0) = Inr (agg_view ?cls a) \<and> ag_ident a = IdText aid \<and>
        ag_version a = int (length ?s) \<and> ag_pending a = []"
      using es_replay_spec [where api = api and cls = ?cls and evs = tl
          and n = "int (length ?s)" and a = a0] rep load_start_simps [OF start]
      by (auto split: sum.splits)
    with h f ne len res r(1) show ?thesis by (intro conjI exI [where x = evs]) auto
  qed
qed

end

lemma client_ok_record:
  assumes ok: "client_ok api classes G rows (ty, a)" and ev: "G ty \<Longrightarrow> es_loadable api ev"
    and r: "es_record_event api (classes ty) ev a = (Inr (), a')"
  shows "client_ok api classes G rows (ty, a')"
proof -
  let ?a = "a\<lparr>ag_pending := ag_pending a @ [ev]\<rparr>"
  from r have e: "efold (es_apply api (classes ty)) [ev] ?a = (Inr (), a')"
    by (simp add: es_record_event_def ebind_def)
  from efold_apply_frame [OF e] have frame: "ag_id a' = ag_id a" "ag_version a' = ag_version a"
    "ag_pending a' = ag_pending a @ [ev]" by (auto simp: ag_id_def)
  from efold_apply_view [where api = api and cls = "classes ty" and evs = "[ev]" and a = ?a] e
  have view: "es_fold api (classes ty) [ev] (agg_view (classes ty) a) = Inr (agg_view (classes ty) a')"
    by simp
  have fold: "es_fold api (classes ty) (evs @ ag_pending a @ [ev]) w = Inr (agg_view (classes ty) a')"
    if "es_fold api (classes ty) (evs @ ag_pending a) w = Inr (agg_view (classes ty) a)" for evs w
    using that view es_fold_append [of api "classes ty" "evs @ ag_pending a" "[ev]" w] by simp
  show ?thesis
    using ok ev fold by (auto simp: client_ok_def frame)
qed

lemma client_ok_new:
  assumes "G ty \<Longrightarrow> tidy_class (classes ty)" "es_new (classes ty) aid = Inr a"
    and "G ty \<Longrightarrow> \<exists>evs. es_history api rows ty (ident_str aid) evs"
  shows "client_ok api classes G rows (ty, a)"
proof -
  from assms(2) have "ag_ident a = aid" "ag_version a = 0" "ag_pending a = []"
    by (auto simp: es_new_def split: sum.splits)
  then show ?thesis
    using assms es_new_view(1) [OF assms(1,2)] by (fastforce simp: client_ok_def ag_id_def)
qed

lemma serialize_view:
  assumes "snapshot_state cls a = Inr d"
  shows "\<exists>x j ds. asdict_fields (agg_view cls a) (cls_fields cls) = Inr x \<and>
    dump_values (cls_dump cls) x = Inr ds \<and>
    d = (''id'', j) # (''version'', JInt (ag_version a)) # ds"
  using assms by (auto simp: snapshot_state_def serialize_aggregate_def dump_state_def split: sum.splits)

context es_tables begin

text \<open>The number a successful append returns is the last one of the stream.\<close>

lemma append_number:
  assumes c: "es_contiguous (er db)" and u: "unique_rows es_clash (er db)"
    and v: "0 \<le> ag_version a" "ag_version a \<le> int (length (es_stream (er db) ty (ag_id a)))"
    and r: "es_append api st cls fresh now now' ty tenant (db, a) = (Inr (Success n md), (db', a'))"
  shows "n = int (length (es_stream (er db') ty (ag_id a))) \<or> ag_pending a = [] \<and> n = ag_version a"
proof (cases "ag_pending a = []")
  case True
  with r show ?thesis by (simp add: es_append_none)
next
  case p: False
  let ?n = "int (length (es_stream (er db) ty (ag_id a)))"
  let ?rows = "es_make_rows api fresh now ty tenant (ag_id a) (ag_version a) (ag_pending a)"
  have eq: "ag_version a = ?n"
    using append_behind [OF c u v(1) _ p r] v(2) by fastforce
  obtain x db1 where i: "sql_insert (st_events st) ?rows db = (x, db1)"
    by (cases "sql_insert (st_events st) ?rows db")
  obtain y where x: "x = Inr y"
    using es_append_insert_failed [OF p, of st api fresh now ty tenant db _ db1 cls now'] i r
    by (cases x) (auto split: if_splits)
  note ap = append_events [OF p u r i [unfolded x]]
  from ap(5) [OF refl] ap(3) have "n = ag_version a + int (length (ag_pending a))" by simp
  moreover have "es_stream (er db') ty (ag_id a) = es_stream (er db) ty (ag_id a) @ ?rows"
    unfolding ap(1) by (rule es_stream_extend(1) [OF c eq])
  ultimately show ?thesis using eq by simp
qed

text \<open>A snapshot of an aggregate that is up to date with its stream.\<close>

lemma new_snap_ok:
  assumes "es_history api rows ty (ag_id a) evs" "int (length evs) = ag_version a"
    and "es_fold api (classes ty) evs (cls_attrs (classes ty)) = Inr (agg_view (classes ty) a)"
    and "snapshot_state (classes ty) a = Inr d"
    and "sn_type s = ty" "sn_agg s = ag_id a" "sn_state s = JObj d" "sn_version s = ag_version a"
  shows "snap_ok api classes rows s"
proof -
  from serialize_view [OF assms(4)] obtain x j ds where
    x: "asdict_fields (agg_view (classes ty) a) (cls_fields (classes ty)) = Inr x"
      "dump_values (cls_dump (classes ty)) x = Inr ds"
    and d: "d = (''id'', j) # (''version'', JInt (ag_version a)) # ds" by blast
  have tk: "take (nat (ag_version a)) evs = evs" unfolding assms(2) [symmetric] by simp
  show ?thesis
    unfolding snap_ok_def using assms x d tk
    by (intro exI [of _ evs] exI [of _ "agg_view (classes ty) a"] exI [of _ x] exI [of _ ds]
        exI [of _ j] exI [of _ "JInt (ag_version a)"]) simp
qed

lemma append_inv:
  assumes ok: "es_log_ok api classes G (er db) (sr db)"
    and c: "client_ok api classes G (er db) (ty, a)"
    and r: "es_append api st (classes ty) fresh now now' ty tenant (db, a) = (r, (db', a'))"
  shows "es_log_ok api classes G (er db') (sr db')"
    and "r = Inr (Success v md) \<Longrightarrow> client_ok api classes G (er db') (ty, a')"
    and "client_ok api classes G (er db) (ty', b) \<Longrightarrow> client_ok api classes G (er db') (ty', b)"
proof -
  let ?cls = "classes ty" and ?n = "int (length (es_stream (er db) ty (ag_id a)))"
  from ok have cont: "es_contiguous (er db)" and u: "unique_rows es_clash (er db)"
    by (simp_all add: es_log_ok_def)
  from c have v: "0 \<le> ag_version a" "ag_version a \<le> ?n"
    and load: "G ty \<Longrightarrow> list_all (es_loadable api) (ag_pending a)" by (auto simp: client_ok_def)
  consider (none) "ag_pending a = []"
    | (behind) "ag_pending a \<noteq> []" "ag_version a < ?n"
    | (refused) e db1 where "ag_pending a \<noteq> []" "sql_insert (st_events st)
        (es_make_rows api fresh now ty tenant (ag_id a) (ag_version a) (ag_pending a)) db = (Inl e, db1)"
    | (written) x db1 where "ag_pending a \<noteq> []" "ag_version a = ?n" "sql_insert (st_events st)
        (es_make_rows api fresh now ty tenant (ag_id a) (ag_version a) (ag_pending a)) db = (Inr x, db1)"
    using v by (cases "sql_insert (st_events st)
        (es_make_rows api fresh now ty tenant (ag_id a) (ag_version a) (ag_pending a)) db" rule: prod.exhaust)
      (metis order_le_less sum.exhaust)
  then have "es_log_ok api classes G (er db') (sr db') \<and>
      (\<forall>v md. r = Inr (Success v md) \<longrightarrow> client_ok api classes G (er db') (ty, a')) \<and>
      (client_ok api classes G (er db) (ty', b) \<longrightarrow> client_ok api classes G (er db') (ty', b))"
  proof cases
    case none
    then have "a\<lparr>ag_pending := []\<rparr> = a" by (cases a) simp
    moreover from none r have "db' = db \<and> a' = a\<lparr>ag_pending := []\<rparr>"
      by (simp add: es_append_none)
    ultimately have "db' = db \<and> a' = a" by metis
    with ok c show ?thesis by simp
  next
    case behind
    from append_behind [OF cont u v(1) behind(2,1) r] ok show ?thesis by simp
  next
    case refused
    with es_append_insert_failed [OF refused, of cls now'] ev.insert_failed [OF refused(2)] r ok
    show ?thesis
      using es_append_insert_failed [OF refused, of ?cls now'] by (auto split: if_splits)
  next
    case written
    let ?evs = "ag_pending a" and ?new = "es_make_rows api fresh now ty tenant (ag_id a) ?n (ag_pending a)"
    note ap = append_events [OF written(1) u r written(3)]
    from written(2) have rows: "er db' = er db @ ?new" using ap(1) by simp
    note u' = ap(2) [unfolded rows]
    note ext = es_log_ok_extend [OF ok load refl u']
    have len: "int (length (es_stream (er db') ty (ag_id a))) = ag_version a'"
      using es_stream_extend(1) [OF cont refl, of api fresh now ty tenant "ag_id a" ?evs] rows written(2) ap(3)
      by simp
    have v1: "1 \<le> ag_version a'" using ap(3) v(1) written(1) by (cases ?evs) auto
    have fold: "\<exists>evs. es_history api (er db') ty (ag_id a) evs \<and>
        es_fold api ?cls evs (cls_attrs ?cls) = Inr (agg_view ?cls a')" if G: "G ty"
    proof -
      from c written(2) G obtain evs where h: "es_history api (er db) ty (ag_id a) evs"
        and f: "es_fold api ?cls (evs @ ?evs) (cls_attrs ?cls) = Inr (agg_view ?cls a)"
        by (auto simp: client_ok_def)
      from ext(2) [OF _ G h] f rows ap(3) show ?thesis by auto
    qed
    have client: "client_ok api classes G (er db') (ty, a')"
      using fold len v1 ap(3) by (auto simp: client_ok_def)
    have new: "snap_in_log (er db') s \<and> (G (sn_type s) \<longrightarrow> snap_ok api classes (er db') s)"
      if s: "snapshot_state ?cls a' = Inr d" "sn_type s = ty" "sn_agg s = ag_id a" "sn_state s = JObj d"
        "sn_version s = ag_version a'" for s d
    proof -
      have "snap_ok api classes (er db') s" if G: "G (sn_type s)"
      proof -
        from fold G s(2) obtain evs where h: "es_history api (er db') ty (ag_id a) evs"
          and f: "es_fold api ?cls evs (cls_attrs ?cls) = Inr (agg_view ?cls a')" by auto
        show ?thesis
          using new_snap_ok [where a = a' and ty = ty and classes = classes and api = api, OF _ _ f s(1) s(2) _ s(4,5)]
            h s(3) len deserialize_length [OF h] ap(3) by simp
      qed
      with s len v1 show ?thesis by (simp add: snap_in_log_def)
    qed
    have old: "es_log_ok api classes G (er db') (sr db)" unfolding rows by (rule ext(1)) (simp_all add: load)
    have "\<forall>s\<in>set (sr db'). snap_in_log (er db') s \<and> (G (sn_type s) \<longrightarrow> snap_ok api classes (er db') s)"
      using ap(4)
    proof
      assume "sr db' = sr db"
      with old show ?thesis by (simp add: es_log_ok_def)
    next
      assume "\<exists>d. snapshot_state ?cls a' = Inr d \<and> sr db' = upsert_rows sn_clash
        \<lparr>sn_id = fresh 0, sn_type = ty, sn_agg = ag_id a, sn_state = JObj d,
         sn_version = ag_version a', sn_taken = now', sn_tenant = tenant\<rparr>
        (\<lambda>r. r\<lparr>sn_state := JObj d, sn_version := ag_version a', sn_taken := now'\<rparr>) (sr db)"
      with old new show ?thesis
        unfolding upsert_rows_def es_log_ok_def by (auto simp: sn_clash_def split: if_splits)
    qed
    then have "es_log_ok api classes G (er db') (sr db')"
      using old by (simp add: es_log_ok_def)
    moreover have "client_ok api classes G (er db') (ty', b)" if "client_ok api classes G (er db) (ty', b)"
      using client_ok_extend [OF that cont written(1) refl] rows by simp
    ultimately show ?thesis using client by blast
  qed
  then show "es_log_ok api classes G (er db') (sr db')"
    and "r = Inr (Success v md) \<Longrightarrow> client_ok api classes G (er db') (ty, a')"
    and "client_ok api classes G (er db) (ty', b) \<Longrightarrow> client_ok api classes G (er db') (ty', b)"
    by blast+
qed

end

lemma es_stream_nil [simp]: "es_stream [] ty aid = []"
  by (simp add: es_stream_def)

lemma es_reach_inv:
  assumes t: "es_tables st er sr"
    and good: "\<And>ty. G ty \<Longrightarrow> tidy_class (classes ty) \<and> (\<forall>ev. es_loadable api ev)"
    and "es_reach api st classes er sr w"
  shows "es_inv api classes G er sr w"
  using assms(3)
proof (induction rule: es_reach.induct)
  case (es_reach_init db)
  then show ?case
    by (simp add: es_inv_def es_log_ok_def unique_rows_def es_contiguous_def)
next
  case (es_reach_step w w')
  from es_reach_step(2,3) show ?case
  proof (cases rule: es_step.cases)
    case (es_step_new ty aid a db cl i)
    with es_reach_step.IH good client_ok_new [of G ty classes aid a api "er db"]
    show ?thesis by (auto simp: es_inv_def es_log_ok_def dest!: ran_update)
  next
    case (es_step_load ty aid db a md db' cl i)
    then have ok: "es_log_ok api classes G (er db) (sr db)" using es_reach_step.IH
      by (simp add: es_inv_def)
    then have num: "es_contiguous (er db)" "\<forall>s\<in>set (sr db). snap_in_log (er db) s"
      by (simp_all add: es_log_ok_def)
    note lv = es_tables.load_version [OF t num es_step_load(3)]
    have "client_ok api classes G (er db) (ty, a)"
    proof (cases "G ty")
      case True
      with es_tables.load_spec [OF t ok _ es_step_load(3)] good lv deserialize_length
      show ?thesis by (fastforce simp: client_ok_def ag_id_def split: if_splits)
    next
      case False
      with lv show ?thesis by (simp add: client_ok_def ag_id_def)
    qed
    with es_step_load es_reach_step.IH lv(1) show ?thesis by (auto simp: es_inv_def dest!: ran_update)
  next
    case (es_step_record cl i ty a ev a' db)
    then have "client_ok api classes G (er db) (ty, a)" using es_reach_step.IH
      by (auto simp: es_inv_def intro: ranI)
    from client_ok_record [OF this _ es_step_record(4)] good es_step_record es_reach_step.IH
    show ?thesis by (auto simp: es_inv_def dest!: ran_update)
  next
    case (es_step_append cl i ty a fresh now now' tenant db r db' a')
    then have ok: "es_log_ok api classes G (er db) (sr db)"
      and c: "client_ok api classes G (er db) (ty, a)"
      and cs: "\<forall>c\<in>ran cl. client_ok api classes G (er db) c"
      using es_reach_step.IH by (auto simp: es_inv_def intro: ranI)
    note inv = es_tables.append_inv [OF t ok c es_step_append(4)]
    show ?thesis
      using inv cs es_step_append(1,2)
      by (auto simp: es_inv_def dest!: ran_update split: sum.splits result.splits)
  next
    case (es_step_rollback cl i ty a fresh now now' tenant db r db' a')
    with es_reach_step.IH show ?thesis by (auto simp: es_inv_def dest!: ran_update)
  next
    case (es_step_drop db cl i)
    with es_reach_step.IH show ?thesis by (auto simp: es_inv_def dest!: ran_update)
  qed
qed

section \<open>A concrete aggregate: the bank account of the package's tests\<close>

datatype account_event = MoneyDeposited int | MoneyWithdrawn int

fun account_event_name :: "account_event \<Rightarrow> string" where
  "account_event_name (MoneyDeposited n) = ''MoneyDeposited''"
| "account_event_name (MoneyWithdrawn n) = ''MoneyWithdrawn''"

fun account_event_dump :: "account_event \<Rightarrow> json" where
  "account_event_dump (MoneyDeposited n) = JObj [(''amount'', JInt n)]"
| "account_event_dump (MoneyWithdrawn n) = JObj [(''amount'', JInt n)]"

definition account_validate :: "(int \<Rightarrow> account_event) \<Rightarrow> json \<Rightarrow> exn + account_event" where
  "account_validate c j =
     (case j of JObj [(k, JInt n)] \<Rightarrow> Inr (c n)
      | _ \<Rightarrow> Inl (PyException ''ValidationError'' ''amount''))"

definition account_api :: "account_event event_api" where
  "account_api =
     \<lparr>ev_module = (\<lambda>_. ''bank''), ev_qualname = account_event_name,
      ev_class_name = account_event_name,
      ev_event_name = (\<lambda>e. ''account.'' @ account_event_name e), ev_dump = account_event_dump,
      import_class = (\<lambda>m c.
        if c = ''MoneyDeposited'' then Inr (account_validate MoneyDeposited)
        else if c = ''MoneyWithdrawn'' then Inr (account_validate MoneyWithdrawn)
        else Inl (PyException ''AttributeError'' c))\<rparr>"

text \<open>Attributes are JSON values or UUIDs, which the JSON serializer refuses.\<close>

datatype account_value = AvJson json | AvUuid uuid

fun account_dump :: "account_value \<Rightarrow> exn + json" where
  "account_dump (AvJson j) = Inr j"
| "account_dump (AvUuid u) = Inl (PyException ''TypeError'' ''Object of type UUID is not JSON serializable'')"

definition balance_of :: "account_value attrs \<Rightarrow> int" where
  "balance_of v = (case v ''balance'' of Some (AvJson (JInt n)) \<Rightarrow> n | _ \<Rightarrow> 0)"

fun account_apply :: "account_event \<Rightarrow> account_value attrs \<Rightarrow> exn option \<times> account_value attrs" where
  "account_apply (MoneyDeposited n) v = (None, [''balance'' \<mapsto> AvJson (JInt (balance_of v + n))])"
| "account_apply (MoneyWithdrawn n) v = (None, [''balance'' \<mapsto> AvJson (JInt (balance_of v - n))])"

definition account_class :: "(account_event, account_value) agg_class" where
  "account_class =
     \<lparr>cls_fields = [(''balance'', FieldDefault (AvJson (JInt 0)))],
      cls_attrs = [''balance'' \<mapsto> AvJson (JInt 0)],
      cls_apply = (\<lambda>m. if m = ''apply_moneydeposited'' \<or> m = ''apply_moneywithdrawn''
        then Some account_apply else None),
      cls_dump = account_dump, cls_load = AvJson\<rparr>"

abbreviation list_store :: "int \<Rightarrow> (es_row list \<times> snap_row list) event_store" where
  "list_store n \<equiv>
     \<lparr>st_events = list_sql fst (\<lambda>rs db. (rs, snd db)) es_clash,
      st_snapshots = list_sql snd (\<lambda>rs db. (fst db, rs)) sn_clash, st_snapshot_every = n\<rparr>"

lemmas account_defs = account_api_def account_class_def account_validate_def balance_of_def

lemma account_lower [simp]:
  "py_lower ''MoneyDeposited'' = ''moneydeposited''" "py_lower ''MoneyWithdrawn'' = ''moneywithdrawn''"
  by code_simp+

lemma account_tidy: "tidy_class account_class"
proof -
  have d: "dom (snd (account_apply ev v)) \<subseteq> {''balance''}" for ev v by (cases ev) auto
  have p: "plain_view account_class (v ++ snd (account_apply ev v))" for ev v
    by (cases ev) (auto simp: plain_view_def plain_value_def field_names_def account_class_def)
  have a: "h = account_apply" if "cls_apply account_class m = Some h" for m h
    using that by (auto simp: account_class_def split: if_splits)
  have fn: "field_names account_class = {''balance''}" by (simp add: field_names_def account_class_def)
  have "dom (snd (h ev v)) \<subseteq> field_names account_class \<and> plain_view account_class (v ++ snd (h ev v))"
    if "cls_apply account_class m = Some h" for m h ev v
    using d p unfolding a [OF that] fn by blast
  then show ?thesis
    unfolding tidy_class_def by (auto simp: account_class_def plain_value_def)
qed

lemma account_loadable: "es_loadable account_api ev"
  by (cases ev) (auto simp: es_loadable_def account_defs)

lemma list_store_tables: "es_tables (list_store n) fst snd"
  by (rule es_list.es_tables_axioms)

text \<open>A client opens an account, records two events, appends them and loads the account back.\<close>

definition account_new :: "(account_event, account_value) es_agg" where
  "account_new = (es_blank (IdText ''a1''))\<lparr>ag_attrs := [''balance'' \<mapsto> AvJson (JInt 0)]\<rparr>"

definition account_two :: "(account_event, account_value) es_agg" where
  "account_two =
     \<lparr>ag_ident = IdText ''a1'', ag_version = 0, ag_pending = [MoneyDeposited 5, MoneyWithdrawn 2],
      ag_attrs = [''balance'' \<mapsto> AvJson (JInt 3)]\<rparr>"

definition account_rows :: "es_row list" where
  "account_rows = es_make_rows account_api (\<lambda>i. i) 0 ''Acc'' None ''a1'' 0
     [MoneyDeposited 5, MoneyWithdrawn 2]"

definition account_snap :: snap_row where
  "account_snap =
     \<lparr>sn_id = 0, sn_type = ''Acc'', sn_agg = ''a1'',
      sn_state = JObj [(''id'', JStr ''a1''), (''version'', JInt 2), (''balance'', JInt 3)],
      sn_version = 2, sn_taken = 0, sn_tenant = None\<rparr>"

lemma account_rows_eq:
  "account_rows =
     [es_make_row account_api 1 0 ''Acc'' None ''a1'' 1 (MoneyDeposited 5),
      es_make_row account_api 2 0 ''Acc'' None ''a1'' 2 (MoneyWithdrawn 2)]"
  by (simp add: account_rows_def es_make_rows_def numeral_2_eq_2)

lemma account_rows_unique: "unique_rows es_clash account_rows"
  by (simp add: account_rows_eq unique_rows_def es_clash_def es_make_row_def)

lemma account_stream: "es_stream account_rows ''Acc'' ''a1'' = account_rows"
  by (simp add: es_stream_def account_rows_eq es_make_row_def)

lemma account_append:
  "es_append account_api (list_store 2) account_class (\<lambda>i. i) 0 0 ''Acc'' None (([], []), account_two) =
     (Inr (Success 2 []), ((account_rows, [account_snap]),
       account_two\<lparr>ag_pending := [], ag_version := 2\<rparr>))"
proof -
  have rows: "es_make_rows account_api (\<lambda>i. i) 0 ''Acc'' None (ag_id account_two)
      (ag_version account_two) (ag_pending account_two) = account_rows"
    by (simp add: account_rows_def account_two_def)
  have i: "sql_insert (st_events (list_store 2)) (es_make_rows account_api (\<lambda>i. i) 0 ''Acc'' None
      (ag_id account_two) (ag_version account_two) (ag_pending account_two)) ([], []) =
      (Inr (), (account_rows, []))"
    unfolding rows by (simp add: account_rows_unique)
  show ?thesis
    by (subst es_append_inserted [OF _ i refl refl])
      (simp_all add: account_two_def es_save_snapshot_eq snapshot_state_def
        serialize_aggregate_def dump_state_def account_class_def
        agg_view_def upsert_rows_def account_snap_def)
qed

lemma account_reach:
  "es_reach account_api (list_store 2) (\<lambda>_. account_class) fst snd
     ((account_rows, [account_snap]), [0 \<mapsto> (''Acc'', account_two\<lparr>ag_pending := [], ag_version := 2\<rparr>)])"
proof -
  let ?step = "es_step account_api (list_store 2) (\<lambda>_. account_class)"
  let ?reach = "es_reach account_api (list_store 2) (\<lambda>_. account_class) fst snd"
  let ?one = "account_new\<lparr>ag_pending := [MoneyDeposited 5],
    ag_attrs := [''balance'' \<mapsto> AvJson (JInt 5)]\<rparr>"
  have r0: "?reach (([], []), Map.empty)" by (rule es_reach_init) simp_all
  have s1: "?step (([], []), Map.empty) (([], []), Map.empty(0 \<mapsto> (''Acc'', account_new)))"
    by (rule es_step_new) (simp add: es_new_def account_new_def account_class_def)
  have s2: "?step (([], []), Map.empty(0 \<mapsto> (''Acc'', account_new)))
      (([], []), (Map.empty(0 \<mapsto> (''Acc'', account_new)))(0 \<mapsto> (''Acc'', ?one)))"
    by (rule es_step_record [where ev = "MoneyDeposited 5"])
      (simp_all add: es_record_event_def ebind_def es_apply_def,
        simp_all add: account_new_def account_defs agg_view_def es_blank_def)
  have s3: "?step (([], []), Map.empty(0 \<mapsto> (''Acc'', ?one)))
      (([], []), (Map.empty(0 \<mapsto> (''Acc'', ?one)))(0 \<mapsto> (''Acc'', account_two)))"
    by (rule es_step_record [where ev = "MoneyWithdrawn 2"])
      (simp_all add: es_record_event_def ebind_def es_apply_def,
        simp_all add: account_new_def account_defs agg_view_def es_blank_def account_two_def)
  have s4: "?step (([], []), Map.empty(0 \<mapsto> (''Acc'', account_two)))
      ((account_rows, [account_snap]), (Map.empty(0 \<mapsto> (''Acc'', account_two)))
        (0 := (case (Inr (Success 2 []) :: exn + int result) of Inr (Success v md) \<Rightarrow>
          Some (''Acc'', account_two\<lparr>ag_pending := [], ag_version := 2\<rparr>) | _ \<Rightarrow> None)))"
    by (rule es_step_append [OF _ account_append]) simp
  show ?thesis
    using es_reach_step [OF es_reach_step [OF es_reach_step [OF es_reach_step [OF r0 s1] s2]]]
      s3 s4 by simp
qed

section \<open>Where the concurrent use has to stop\<close>

text \<open>An identity that JSON has no form for, such as a UUID, makes the snapshot raise: every append
  that reaches a multiple of the interval fails after its events were inserted.\<close>

lemma es_snapshot_object_id:
  assumes "ag_pending a \<noteq> []" "ag_ident a = IdObject s v" "cls_dump cls v = Inl e"
    and "asdict_fields (agg_view cls a) (cls_fields cls) = Inr d"
    and "sql_insert (st_events st)
      (es_make_rows api fresh now ty tenant (ag_id a) (ag_version a) (ag_pending a)) db = (Inr u, db')"
    and "n = ag_version a + int (length (ag_pending a))" "n mod st_snapshot_every st = 0"
    and "st_snapshot_every st \<noteq> 0"
  shows "es_append api st cls fresh now now' ty tenant (db, a) =
    (Inl e, (db', a\<lparr>ag_pending := [], ag_version := n\<rparr>))"
  by (subst es_append_inserted [OF assms(1,5,6) refl])
    (use assms in \<open>simp_all add: es_save_snapshot_eq snapshot_state_def serialize_aggregate_def
      dump_state_def\<close>)

text \<open>An aggregate that is kept after its append was rolled back has a version no stored event
  has, so its next append leaves a gap in the stream.\<close>

lemma es_rollback_gap:
  "es_append account_api (list_store 50) account_class (\<lambda>i. i) 0 0 ''Acc'' None
      (([], []), account_two\<lparr>ag_pending := [MoneyDeposited 5], ag_version := 2\<rparr>) =
    (Inr (Success 3 []), (([es_make_row account_api 1 0 ''Acc'' None ''a1'' 3 (MoneyDeposited 5)], []),
      account_two\<lparr>ag_pending := [], ag_version := 3\<rparr>))"
  "\<not> es_contiguous [es_make_row account_api 1 0 ''Acc'' None ''a1'' 3 (MoneyDeposited 5)]"
proof -
  let ?a = "account_two\<lparr>ag_pending := [MoneyDeposited 5], ag_version := 2\<rparr>"
  let ?rows = "[es_make_row account_api 1 0 ''Acc'' None ''a1'' 3 (MoneyDeposited 5)]"
  have rows: "es_make_rows account_api (\<lambda>i. i) 0 ''Acc'' None (ag_id ?a) (ag_version ?a) (ag_pending ?a) = ?rows"
    by (simp add: es_make_rows_def account_two_def)
  have i: "sql_insert (st_events (list_store 50)) (es_make_rows account_api (\<lambda>i. i) 0 ''Acc'' None
      (ag_id ?a) (ag_version ?a) (ag_pending ?a)) ([], []) = (Inr (), (?rows, []))"
    unfolding rows by (simp add: unique_rows_def)
  show "es_append account_api (list_store 50) account_class (\<lambda>i. i) 0 0 ''Acc'' None (([], []), ?a) =
    (Inr (Success 3 []), ((?rows, []), account_two\<lparr>ag_pending := [], ag_version := 3\<rparr>))"
    by (subst es_append_inserted [OF _ i refl refl]) (simp_all add: account_two_def)
  have "es_stream ?rows ''Acc'' ''a1'' = ?rows" by (simp add: es_stream_def es_make_row_def)
  then have "map er_seq (es_stream ?rows ''Acc'' ''a1'') \<noteq> [1..int (length (es_stream ?rows ''Acc'' ''a1''))]"
    by (simp add: es_make_row_def)
  then show "\<not> es_contiguous ?rows" unfolding es_contiguous_def by blast
qed

section \<open>Properties\<close>





text \<open>C17: Optimistic concurrency: appending an aggregate whose version is behind its stream
  always returns a conflict, writes no event and no snapshot, and drops the aggregate's
  pending events without changing its version.\<close>

theorem es_append_conflict:
  assumes "es_tables st er sr" "es_contiguous (er db)" "unique_rows es_clash (er db)"
    and "0 \<le> ag_version a" "ag_version a < int (length (es_stream (er db) ty (ag_id a)))"
    and "ag_pending a \<noteq> []"
  shows "\<exists>db'. es_append api st cls fresh now now' ty tenant (db, a) =
      (Inr (Failure (version_conflict ty (ag_id a)) []), (db', a\<lparr>ag_pending := []\<rparr>)) \<and>
    er db' = er db \<and> sr db' = sr db"
proof -
  obtain r db' a' where r: "es_append api st cls fresh now now' ty tenant (db, a) = (r, (db', a'))"
    by (metis prod.exhaust)
  from es_tables.append_behind [OF assms r] r show ?thesis by auto
qed

theorem es_append_conflict_witness:
  "\<exists>db'. es_append account_api (list_store 2) account_class (\<lambda>i. i + 10) 0 0 ''Acc'' None
      ((account_rows, []), account_two) =
      (Inr (Failure (version_conflict ''Acc'' ''a1'') []), (db', account_two\<lparr>ag_pending := []\<rparr>)) \<and>
    fst db' = account_rows \<and> snd db' = []"
proof -
  have "es_contiguous account_rows"
    using es_reach_inv [OF list_store_tables _ account_reach, of "\<lambda>_. False"]
    by (simp add: es_inv_def es_log_ok_def)
  then have "\<exists>db'. es_append account_api (list_store 2) account_class (\<lambda>i. i + 10) 0 0 ''Acc'' None
      ((account_rows, []), account_two) =
      (Inr (Failure (version_conflict ''Acc'' (ag_id account_two)) []),
        (db', account_two\<lparr>ag_pending := []\<rparr>)) \<and>
    fst db' = fst (account_rows, [] :: snap_row list) \<and> snd db' = snd (account_rows, [])"
    by (intro es_append_conflict [where st = "list_store 2" and er = fst and sr = snd
        and db = "(account_rows, [])"] list_store_tables)
      (simp_all add: account_rows_unique account_two_def account_stream, simp add: account_rows_eq)
  then show ?thesis by (simp add: account_two_def)
qed

text \<open>An append that is up to date with its stream always succeeds on a database that is up:
  it returns the new version, the stream of the aggregate grows by exactly the pending
  events in the order they were recorded, every other stream keeps its rows, and the buffer
  is empty.\<close>

theorem es_append_success:
  assumes "sql_up (st_events st) er es_clash sr" "sql_up (st_snapshots st) sr sn_clash er"
    and "es_contiguous (er db)" "ag_version a = int (length (es_stream (er db) ty (ag_id a)))"
    and "ag_pending a \<noteq> []" "st_snapshot_every st \<noteq> 0"
    and "unique_rows es_clash (er db @
      es_make_rows api fresh now ty tenant (ag_id a) (ag_version a) (ag_pending a))"
    and "n = ag_version a + int (length (ag_pending a))"
    and "snapshot_state cls (a\<lparr>ag_pending := [], ag_version := n\<rparr>) = Inr d"
  shows "\<exists>db'. es_append api st cls fresh now now' ty tenant (db, a) =
      (Inr (Success n []), (db', a\<lparr>ag_pending := [], ag_version := n\<rparr>)) \<and>
    es_stream (er db') ty (ag_id a) = es_stream (er db) ty (ag_id a) @
      es_make_rows api fresh now ty tenant (ag_id a) (ag_version a) (ag_pending a) \<and>
    (\<forall>ty' aid'. (ty', aid') \<noteq> (ty, ag_id a) \<longrightarrow> es_stream (er db') ty' aid' = es_stream (er db) ty' aid')"
proof -
  let ?rows = "es_make_rows api fresh now ty tenant (ag_id a) (ag_version a) (ag_pending a)"
  let ?a = "a\<lparr>ag_pending := [], ag_version := n\<rparr>"
  have t: "es_tables st er sr"
    using assms(1,2) by (simp add: es_tables_def sql_up_def)
  obtain db1 where i: "sql_insert (st_events st) ?rows db = (Inr (), db1)"
    using sql_up.insert_up [OF assms(1,7)] by blast
  have u: "unique_rows es_clash (er db)" using assms(7) by (simp add: unique_rows_append)
  obtain r db' a' where r: "es_append api st cls fresh now now' ty tenant (db, a) = (r, (db', a'))"
    by (metis prod.exhaust)
  have "\<exists>s. es_save_snapshot st cls (fresh 0) now' ty tenant (db1, ?a) = (Inr (), s)"
    using sql_up.upsert_up [OF assms(2)] assms(9)
    by (simp add: es_save_snapshot_eq) (metis (mono_tags, lifting) case_prod_conv)
  then have res: "r = Inr (Success n [])"
    using es_append_inserted [OF assms(5) i assms(8) refl, of cls now'] r assms(6)
    by (auto split: if_splits)
  from es_tables.append_events [OF t assms(5) u r i] have rows: "er db' = er db @ ?rows"
    and a': "a' = ?a" using assms(8) by auto
  have "es_stream (er db') ty (ag_id a) = es_stream (er db) ty (ag_id a) @ ?rows"
    unfolding rows by (rule es_stream_extend(1) [OF assms(3,4)])
  moreover have "es_stream (er db') ty' aid' = es_stream (er db) ty' aid'"
    if "(ty', aid') \<noteq> (ty, ag_id a)" for ty' aid'
    unfolding rows by (rule es_stream_extend(2) [OF assms(3,4) that])
  ultimately show ?thesis using r res a' by blast
qed

theorem es_append_success_witness:
  "\<exists>db'. es_append account_api (list_store 2) account_class (\<lambda>i. i) 0 0 ''Acc'' None
      (([], []), account_two) =
      (Inr (Success 2 []), (db', account_two\<lparr>ag_pending := [], ag_version := 2\<rparr>)) \<and>
    es_stream (fst db') ''Acc'' ''a1'' = account_rows"
proof -
  have e: "sql_up (st_events (list_store 2)) fst es_clash snd"
    "sql_up (st_snapshots (list_store 2)) snd sn_clash fst"
    by (simp_all add: table_slot.list_sql_up table_slot_def)
  have rows: "es_make_rows account_api (\<lambda>i. i) 0 ''Acc'' None ''a1'' 0
      [MoneyDeposited 5, MoneyWithdrawn 2] = account_rows" by (simp add: account_rows_def)
  have s: "snapshot_state account_class (account_two\<lparr>ag_pending := [], ag_version := 2\<rparr>) =
      Inr [(''id'', JStr ''a1''), (''version'', JInt 2), (''balance'', JInt 3)]"
    by (simp add: snapshot_state_def serialize_aggregate_def dump_state_def account_class_def agg_view_def
        account_two_def)
  have st: "es_stream [] ty aid = []" for ty aid by simp
  have a: "ag_id account_two = ''a1''" "ag_version account_two = 0"
    "ag_pending account_two = [MoneyDeposited 5, MoneyWithdrawn 2]"
    by (simp_all add: account_two_def)
  have "\<exists>db'. es_append account_api (list_store 2) account_class (\<lambda>i. i) 0 0 ''Acc'' None
      (([], []), account_two) =
      (Inr (Success 2 []), (db', account_two\<lparr>ag_pending := [], ag_version := 2\<rparr>)) \<and>
    es_stream (fst db') ''Acc'' (ag_id account_two) = es_stream (fst ([], [] :: snap_row list)) ''Acc'' (ag_id account_two) @
      es_make_rows account_api (\<lambda>i. i) 0 ''Acc'' None (ag_id account_two) (ag_version account_two)
        (ag_pending account_two) \<and>
    (\<forall>ty' aid'. (ty', aid') \<noteq> (''Acc'', ag_id account_two) \<longrightarrow>
      es_stream (fst db') ty' aid' = es_stream (fst ([], [] :: snap_row list)) ty' aid')"
    by (rule es_append_success [OF e _ _ _ _ _ _ s])
      (simp_all add: a es_contiguous_def rows account_rows_unique)
  then show ?thesis unfolding a rows fst_conv st append_Nil by blast
qed

end
