(* ===== verification/Qx_Projections.thy ===== *)
theory Qx_Projections
  imports Qx_Eventstore "HOL-Library.Sublist"
begin

text \<open>
  The package \<open>qx-projections\<close>: read models driven from the event log (\<open>projection.py\<close>,
  \<open>runner.py\<close>, \<open>table.py\<close>). The runner keeps one checkpoint per projection, the sequence
  number of the last event it applied. The lemmas show what that gives on a log with one
  global numbering, and what it does on a log with several streams.
\<close>

section \<open>Projections and the checkpoint table\<close>

record ('s, 'ev) projection =
  pj_name :: string
  pj_handler :: "string \<Rightarrow> ('ev \<Rightarrow> ('s, unit) eff) option"
  pj_reset :: "('s, unit) eff"

definition pj_apply ::
  "'ev event_api \<Rightarrow> ('s, 'ev) projection \<Rightarrow> 'ev \<Rightarrow> string \<Rightarrow> ('s, unit) eff" where
  "pj_apply api p ev aid =
     (case pj_handler p (''on_'' @ py_lower (ev_class_name api ev)) of
        None \<Rightarrow> eret ()
      | Some h \<Rightarrow> h ev)"

record ck_row =
  ck_projection :: string
  ck_last :: int
  ck_updated :: instant

definition ck_clash :: "ck_row \<Rightarrow> ck_row \<Rightarrow> bool" where
  "ck_clash a b \<longleftrightarrow> ck_projection a = ck_projection b"

section \<open>The runner\<close>

record ('s, 'ev) runner =
  pr_checkpoints :: "('s, ck_row) sql"
  pr_events :: "('s, es_row) sql"
  pr_batch :: nat
  pr_projections :: "(string \<times> ('s, 'ev) projection) list"

definition pj_register :: "('s, 'ev) projection \<Rightarrow> ('s, 'ev) runner \<Rightarrow> ('s, 'ev) runner" where
  "pj_register p R = R\<lparr>pr_projections := AList.update (pj_name p) p (pr_projections R)\<rparr>"

definition pj_get_checkpoint :: "('s, 'ev) runner \<Rightarrow> string \<Rightarrow> ('s, int) eff" where
  "pj_get_checkpoint R name =
     ebind (sql_select (pr_checkpoints R) (\<lambda>r. ck_projection r = name) no_order None)
       (\<lambda>rows. eret (case rows of [] \<Rightarrow> 0 | r # _ \<Rightarrow> ck_last r))"

definition pj_set_checkpoint :: "('s, 'ev) runner \<Rightarrow> instant \<Rightarrow> string \<Rightarrow> int \<Rightarrow> ('s, unit) eff" where
  "pj_set_checkpoint R now name sq =
     sql_upsert (pr_checkpoints R)
       \<lparr>ck_projection = name, ck_last = sq, ck_updated = now\<rparr>
       (\<lambda>r. r\<lparr>ck_last := sq, ck_updated := now\<rparr>)"

text \<open>The handler loop: a failure is logged and raised again, so it stops the run.\<close>

definition pj_apply_row ::
  "'ev event_api \<Rightarrow> ('s, 'ev) projection \<Rightarrow> es_row \<Rightarrow> ('s, unit) eff" where
  "pj_apply_row api p r =
     ebind (elift (es_deserialize_event api r)) (\<lambda>ev. pj_apply api p ev (er_agg r))"

definition pj_run_projection ::
  "'ev event_api \<Rightarrow> ('s, 'ev) runner \<Rightarrow> instant \<Rightarrow> ('s, 'ev) projection \<Rightarrow> int option
     \<Rightarrow> ('s, nat) eff" where
  "pj_run_projection api R now p from_sequence =
     ebind (case from_sequence of Some n \<Rightarrow> eret n | None \<Rightarrow> pj_get_checkpoint R (pj_name p))
       (\<lambda>last_seq.
     ebind (sql_select (pr_events R) (\<lambda>r. er_seq r > last_seq) (\<lambda>r. (er_seq r, 0))
              (Some (pr_batch R)))
       (\<lambda>event_rows.
         if event_rows = [] then eret 0
         else
           ebind (efold (pj_apply_row api p) event_rows) (\<lambda>_.
           ebind (pj_set_checkpoint R now (pj_name p) (er_seq (last event_rows))) (\<lambda>_.
             eret (length event_rows)))))"

fun pj_run_list ::
  "'ev event_api \<Rightarrow> ('s, 'ev) runner \<Rightarrow> instant \<Rightarrow> ('s, 'ev) projection list \<Rightarrow> nat
     \<Rightarrow> ('s, nat) eff" where
  "pj_run_list api R now [] acc = eret acc"
| "pj_run_list api R now (p # ps) acc =
     ebind (pj_run_projection api R now p None) (\<lambda>n. pj_run_list api R now ps (acc + n))"

definition pj_run_once :: "'ev event_api \<Rightarrow> ('s, 'ev) runner \<Rightarrow> instant \<Rightarrow> ('s, nat) eff" where
  "pj_run_once api R now = pj_run_list api R now (map snd (pr_projections R)) 0"

definition pj_rebuild ::
  "'ev event_api \<Rightarrow> ('s, 'ev) runner \<Rightarrow> instant \<Rightarrow> string \<Rightarrow> ('s, nat) eff" where
  "pj_rebuild api R now name =
     (case map_of (pr_projections R) name of
        None \<Rightarrow> eraise (PyException ''KeyError'' (''No projection registered with name '' @ name))
      | Some p \<Rightarrow>
          ebind (pj_reset p) (\<lambda>_.
          ebind (pj_set_checkpoint R now name 0) (\<lambda>_.
            pj_run_projection api R now p (Some 0))))"

section \<open>A log with one numbering\<close>

text \<open>All events of the log, in the order of their sequence numbers, and the checkpoint that the
  next run starts from.\<close>

definition global_log :: "es_row list \<Rightarrow> es_row list" where
  "global_log rows = sort_key er_seq rows"

definition globally_numbered :: "es_row list \<Rightarrow> bool" where
  "globally_numbered rows \<longleftrightarrow> map er_seq (global_log rows) = [1..int (length rows)]"

definition ck_value :: "ck_row list \<Rightarrow> string \<Rightarrow> int" where
  "ck_value cks name = (case filter (\<lambda>r. ck_projection r = name) cks of [] \<Rightarrow> 0 | r # _ \<Rightarrow> ck_last r)"

lemma global_log_length [simp]: "length (global_log rows) = length rows"
  by (simp add: global_log_def)

lemma global_log_nth:
  assumes "globally_numbered rows" "i < length rows"
  shows "er_seq (global_log rows ! i) = int i + 1"
proof -
  have "map er_seq (global_log rows) ! i = [1..int (length rows)] ! i"
    using assms(1) by (simp add: globally_numbered_def)
  with assms(2) show ?thesis by simp
qed

lemma global_log_tail:
  assumes "globally_numbered rows" "0 \<le> v"
  shows "filter (\<lambda>r. er_seq r > v) (global_log rows) = drop (nat v) (global_log rows)"
proof -
  let ?s = "global_log rows"
  have t: "filter (\<lambda>r. er_seq r > v) (take (nat v) ?s) = []"
    using global_log_nth [OF assms(1)] by (auto simp: filter_empty_conv in_set_conv_nth)
  have d: "filter (\<lambda>r. er_seq r > v) (drop (nat v) ?s) = drop (nat v) ?s"
    using global_log_nth [OF assms(1)] assms(2) by (auto simp: filter_id_conv in_set_conv_nth)
  have "filter (\<lambda>r. er_seq r > v) ?s =
      filter (\<lambda>r. er_seq r > v) (take (nat v) ?s @ drop (nat v) ?s)" by simp
  also have "\<dots> = drop (nat v) ?s" by (simp only: filter_append t d append_Nil)
  finally show ?thesis .
qed

lemma global_log_distinct:
  assumes "globally_numbered rows"
  shows "distinct (global_log rows)" "inj_on er_seq (set (global_log rows))"
proof -
  have "distinct (map er_seq (global_log rows))"
    using assms unfolding globally_numbered_def by (metis distinct_upto)
  then show "distinct (global_log rows)" "inj_on er_seq (set (global_log rows))"
    by (auto simp: distinct_map)
qed

lemma deserialize_each:
  "es_deserialize_all api rs = Inr evs \<Longrightarrow> \<forall>r\<in>set rs. \<exists>ev. es_deserialize_event api r = Inr ev"
  by (induction rs arbitrary: evs) (auto split: sum.splits)

text \<open>
  What a projection relies on: the two tables, whose statements may fail, and handlers that leave
  them alone; a step function describes what a handler that returns does to the read model.
\<close>

locale projection_tables =
  ev: sql_table "pr_events R" er es_clash "\<lambda>s. (cr s, rm s)" +
  ck: sql_table "pr_checkpoints R" cr ck_clash "\<lambda>s. (er s, rm s)"
  for R :: "('s, 'ev) runner"
    and er :: "'s \<Rightarrow> es_row list"
    and cr :: "'s \<Rightarrow> ck_row list"
    and rm :: "'s \<Rightarrow> 'm" +
  fixes api :: "'ev event_api"
    and p :: "('s, 'ev) projection"
    and upd :: "'ev \<Rightarrow> 'm \<Rightarrow> 'm"
  assumes handler_frame: "pj_apply api p ev aid s = (x, s') \<Longrightarrow> er s' = er s \<and> cr s' = cr s \<and>
      (x = Inr () \<longrightarrow> rm s' = upd ev (rm s))"
begin

lemma get_checkpoint_ret:
  assumes u: "unique_rows ck_clash (cr s)" and r: "pj_get_checkpoint R name s = (x, s')"
  shows "s' = s" and "x = Inr v \<Longrightarrow> v = ck_value (cr s) name"
proof -
  let ?P = "\<lambda>r. ck_projection r = name"
  obtain y s1 where q: "sql_select (pr_checkpoints R) ?P no_order None s = (y, s1)" by (rule prod.exhaust)
  with r have same: "s' = s1" and x: "x = (case y of Inl e \<Rightarrow> Inl e | Inr rs \<Rightarrow>
      Inr (case rs of [] \<Rightarrow> 0 | r # _ \<Rightarrow> ck_last r))"
    by (cases y; simp add: pj_get_checkpoint_def ebind_def)+
  show "s' = s" using ck.select_state [OF q] same by simp
  assume "x = Inr v"
  with x obtain rs where y: "y = Inr rs" and v: "v = (case rs of [] \<Rightarrow> 0 | r # _ \<Rightarrow> ck_last r)"
    by (cases y) auto
  have short: "unique_rows ck_clash ys \<Longrightarrow> length (filter ?P ys) \<le> 1" for ys
    by (induction ys) (auto simp: unique_rows_def ck_clash_def filter_empty_conv)
  note len = short [OF u]
  from ck.select_mset(1) [OF q [unfolded y]] have m: "mset rs = mset (filter ?P (cr s))" .
  have "rs = filter ?P (cr s)"
  proof (cases "filter ?P (cr s)")
    case Nil
    with m show ?thesis by simp
  next
    case (Cons a xs)
    with len have "filter ?P (cr s) = [a]" by simp
    moreover from this m have "rs = [a]" by (metis mset_single_iff_right mset_zero_iff mset.simps)
    ultimately show ?thesis by simp
  qed
  with v show "v = ck_value (cr s) name" by (simp add: ck_value_def)
qed

lemma apply_rows_ret:
  assumes "es_deserialize_all api rs = Inr evs" "efold (pj_apply_row api p) rs s = (x, s')"
  shows "er s' = er s \<and> cr s' = cr s \<and> (x = Inr () \<longrightarrow> rm s' = fold upd evs (rm s)) \<and>
    ((\<forall>ev aid s e s'. pj_apply api p ev aid s = (Inl e, s') \<longrightarrow> rm s' = rm s) \<longrightarrow>
       (\<exists>j. rm s' = fold upd (take j evs) (rm s)))"
  using assms
proof (induction rs arbitrary: evs s)
  case (Cons r rs)
  from Cons.prems(1) obtain ev evs' where ev: "es_deserialize_event api r = Inr ev"
    and evs': "es_deserialize_all api rs = Inr evs'" and evs: "evs = ev # evs'"
    by (auto split: sum.splits)
  obtain y s1 where s1: "pj_apply api p ev (er_agg r) s = (y, s1)" by (rule prod.exhaust)
  note f = handler_frame [OF s1]
  show ?case
  proof (cases y)
    case (Inl e)
    with Cons.prems(2) ev s1 have "x = Inl e" "s' = s1" by (auto simp: pj_apply_row_def ebind_def)
    with f Inl s1 show ?thesis by (auto intro: exI [of _ 0])
  next
    case (Inr u)
    have "pj_apply_row api p r s = (Inr (), s1)" using ev s1 Inr by (simp add: pj_apply_row_def ebind_def)
    with Cons.prems(2) have "efold (pj_apply_row api p) rs s1 = (x, s')" by (simp add: ebind_def)
    from Cons.IH [OF evs' this] f Inr evs show ?thesis
      by (auto intro: exI [of _ "Suc j" for j])
  qed
qed (auto intro: exI [of _ 0])

lemma upsert_checkpoint_ret:
  assumes "unique_rows ck_clash (cr s)"
    and q: "sql_upsert (pr_checkpoints R) \<lparr>ck_projection = name, ck_last = sq, ck_updated = now\<rparr>
      (\<lambda>r. r\<lparr>ck_last := sq, ck_updated := now'\<rparr>) s = (Inr u, s')"
  shows "er s' = er s \<and> rm s' = rm s \<and> ck_value (cr s') name = sq \<and> unique_rows ck_clash (cr s') \<and>
    (\<forall>other. other \<noteq> name \<longrightarrow> ck_value (cr s') other = ck_value (cr s) other)"
proof -
  let ?row = "\<lparr>ck_projection = name, ck_last = sq, ck_updated = now\<rparr>"
  let ?f = "\<lambda>r. r\<lparr>ck_last := sq, ck_updated := now'\<rparr>"
  from ck.upsert_ok [OF q] have rows: "cr s' = upsert_rows ck_clash ?row ?f (cr s)"
    and rest: "er s' = er s" "rm s' = rm s" by auto
  have "ck_value (upsert_rows ck_clash ?row ?f cks) name = sq
      \<and> unique_rows ck_clash (upsert_rows ck_clash ?row ?f cks)"
    if "unique_rows ck_clash cks" for cks
  proof (cases "\<exists>x\<in>set cks. ck_clash x ?row")
    case False
    then have "filter (\<lambda>r. ck_projection r = name) cks = []"
      by (auto simp: filter_empty_conv ck_clash_def)
    with False that show ?thesis
      by (auto simp: upsert_rows_def ck_value_def ck_clash_def unique_rows_def sorted_wrt_append)
  next
    case True
    let ?g = "\<lambda>x. if ck_clash x ?row then ?f x else x"
    have key: "ck_projection (?g x) = ck_projection x" for x by simp
    have "ck_clash (?g x) (?g y) = ck_clash x y" for x y unfolding ck_clash_def [of "?g x"] key
      by (simp add: ck_clash_def)
    then have u: "unique_rows ck_clash (map ?g cks)"
      using that unfolding unique_rows_def sorted_wrt_map by simp
    from True have "\<exists>x xs. filter (\<lambda>r. ck_projection r = name) cks = x # xs"
      by (metis (mono_tags, lifting) ck_clash_def ck_row.select_convs(1) filter_empty_conv
          neq_Nil_conv)
    then obtain x xs where x: "filter (\<lambda>r. ck_projection r = name) cks = x # xs" by blast
    then have "x \<in> set (filter (\<lambda>r. ck_projection r = name) cks)" by simp
    then have "ck_projection x = name" by simp
    then have g: "?g x = ?f x" by (simp add: ck_clash_def)
    have "filter (\<lambda>r. ck_projection r = name) (map ?g cks) = ?g x # map ?g xs"
      unfolding filter_map o_def key x by (simp only: list.map)
    then have "ck_value (map ?g cks) name = sq"
      unfolding ck_value_def g by simp
    with True u show ?thesis by (simp add: upsert_rows_def)
  qed
  moreover have "ck_value (upsert_rows ck_clash ?row ?f cks) other = ck_value cks other"
    if "other \<noteq> name" for other cks
  proof -
    have "filter (\<lambda>r. ck_projection r = other) (map (\<lambda>x. if ck_clash x ?row then ?f x else x) cks) =
        filter (\<lambda>r. ck_projection r = other) cks"
      using that by (induction cks) (auto simp: ck_clash_def)
    with that show ?thesis by (simp add: upsert_rows_def ck_value_def)
  qed
  ultimately show ?thesis using assms(1) rows rest by simp
qed

text \<open>One run that returns applies the next batch of the log, in order, and moves the checkpoint past
  it; one that raises does not move the checkpoint.\<close>

lemma run_ret:
  assumes g: "globally_numbered (er s)" and u: "unique_rows ck_clash (cr s)"
    and des: "es_deserialize_all api (global_log (er s)) = Inr evs"
    and start: "(case from of Some n \<Rightarrow> n | None \<Rightarrow> ck_value (cr s) (pj_name p)) = int k"
    and k: "k \<le> length evs"
    and run: "pj_run_projection api R now p from s = (x, s')"
  shows "er s' = er s"
    and "x = Inr n \<Longrightarrow> n = min (pr_batch R) (length evs - k) \<and> unique_rows ck_clash (cr s') \<and>
      rm s' = fold upd (take (pr_batch R) (drop k evs)) (rm s) \<and>
      (\<forall>other. other \<noteq> pj_name p \<longrightarrow> ck_value (cr s') other = ck_value (cr s) other) \<and>
      (ck_value (cr s') (pj_name p) = int (min (k + pr_batch R) (length evs)) \<or>
        (s' = s \<and> (pr_batch R = 0 \<or> k = length evs)))"
    and "x = Inl e \<Longrightarrow> cr s' = cr s \<and>
      ((\<forall>ev aid s e s'. pj_apply api p ev aid s = (Inl e, s') \<longrightarrow> rm s' = rm s) \<longrightarrow>
         (\<exists>j. rm s' = fold upd (take j (drop k evs)) (rm s)))"
proof -
  let ?b = "pr_batch R" and ?log = "global_log (er s)"
  have len: "length evs = length ?log" using des by (rule deserialize_length)
  obtain y s0 where st: "(case from of Some n \<Rightarrow> eret n | None \<Rightarrow> pj_get_checkpoint R (pj_name p)) s = (y, s0)"
    by (rule prod.exhaust)
  have s0: "s0 = s" using st get_checkpoint_ret(1) [OF u] by (cases "from") (auto simp: eret_def)
  have yk: "n = int k" if "y = Inr n" for n
    using st that start get_checkpoint_ret(2) [OF u] by (cases "from") (auto simp: eret_def)
  obtain z s1 where q: "sql_select (pr_events R) (\<lambda>r. er_seq r > int k) (\<lambda>r. (er_seq r, 0))
      (Some ?b) s = (z, s1)" by (rule prod.exhaust)
  have s1: "s1 = s" using ev.select_state [OF q] .
  consider (early) e where "x = Inl e" "s' = s" | (rows) rs where "y = Inr (int k)" "z = Inr rs"
    using run st s0 yk q s1 by (cases y; cases z) (auto simp: pj_run_projection_def ebind_def)
  then have "er s' = er s \<and>
      (\<forall>n. x = Inr n \<longrightarrow> n = min ?b (length evs - k) \<and> unique_rows ck_clash (cr s') \<and>
        rm s' = fold upd (take ?b (drop k evs)) (rm s) \<and>
        (\<forall>other. other \<noteq> pj_name p \<longrightarrow> ck_value (cr s') other = ck_value (cr s) other) \<and>
        (ck_value (cr s') (pj_name p) = int (min (k + ?b) (length evs)) \<or> (s' = s \<and> (?b = 0 \<or> k = length evs)))) \<and>
      (\<forall>e. x = Inl e \<longrightarrow> cr s' = cr s \<and>
        ((\<forall>ev aid s e s'. pj_apply api p ev aid s = (Inl e, s') \<longrightarrow> rm s' = rm s) \<longrightarrow>
           (\<exists>j. rm s' = fold upd (take j (drop k evs)) (rm s))))"
  proof cases
    case early
    then show ?thesis by (auto intro: exI [of _ 0])
  next
    case rows
    obtain ys where ys: "mset ys = mset (filter (\<lambda>r. er_seq r > int k) (er s))"
      "sorted (map (\<lambda>r. (er_seq r, 0::int)) ys)" "rs = take ?b ys"
      using ev.select_rows [OF q [unfolded rows]] by auto
    have "ys = filter (\<lambda>r. er_seq r > int k) ?log"
    proof (rule sorted_key_unique [where f = "\<lambda>r. (er_seq r, 0::int)"])
      show "mset ys = mset (filter (\<lambda>r. er_seq r > int k) ?log)"
        using ys(1) by (simp add: global_log_def)
      have "sorted (map er_seq (filter (\<lambda>r. er_seq r > int k) ?log))"
        by (simp add: global_log_def sorted_filter)
      then show "sorted (map (\<lambda>r. (er_seq r, 0::int)) (filter (\<lambda>r. er_seq r > int k) ?log))"
        unfolding sorted_map by (rule sorted_wrt_mono_rel [rotated]) auto
    qed (use ys(2) global_log_distinct [OF g] in \<open>auto simp: inj_on_def\<close>)
    with global_log_tail [OF g] ys(3) have rs: "rs = take ?b (drop k ?log)" by simp
    have dr: "es_deserialize_all api rs = Inr (take ?b (drop k evs))"
      unfolding rs by (intro deserialize_take deserialize_drop des)
    have n: "length rs = min ?b (length evs - k)" using rs len by simp
    show ?thesis
    proof (cases "rs = []")
      case True
      with n k have "?b = 0 \<or> k = length evs" by auto
      with True st s0 q s1 n u rows run show ?thesis
        by (auto simp: pj_run_projection_def ebind_def eret_def)
    next
      case False
      obtain w s2 where s2: "efold (pj_apply_row api p) rs s = (w, s2)" by (rule prod.exhaust)
      note ap = apply_rows_ret [OF dr s2]
      have tk: "\<exists>j. rm s2 = fold upd (take j (drop k evs)) (rm s)"
        if "\<forall>ev aid s e s'. pj_apply api p ev aid s = (Inl e, s') \<longrightarrow> rm s' = rm s"
        using ap that by (auto simp: take_take)
      show ?thesis
      proof (cases w)
        case (Inl e)
        with run st s0 q s1 rows s2 False have "x = Inl e" "s' = s2"
          by (auto simp: pj_run_projection_def ebind_def)
        with ap tk show ?thesis by auto
      next
        case (Inr uu)
        obtain v s3 where s3: "pj_set_checkpoint R now (pj_name p) (er_seq (last rs)) s2 = (v, s3)"
          by (rule prod.exhaust)
        have run': "x = (case v of Inl e \<Rightarrow> Inl e | Inr w \<Rightarrow> Inr (length rs))" "s' = s3"
          using run st s0 q s1 rows s2 s3 Inr False
          by (cases v; simp add: pj_run_projection_def ebind_def eret_def)+
        show ?thesis
        proof (cases v)
          case Inl': (Inl e)
          from ck.upsert_failed [OF s3 [unfolded Inl' pj_set_checkpoint_def]]
          have "cr s3 = cr s2" "er s3 = er s2" "rm s3 = rm s2" by auto
          with ap tk run' Inl' show ?thesis by auto
        next
          case Inr': (Inr vv)
          have u2: "unique_rows ck_clash (cr s2)" using u ap by simp
          note up = upsert_checkpoint_ret [OF u2 s3 [unfolded Inr' pj_set_checkpoint_def]]
          have pos: "0 < length rs" using False by simp
          moreover have "length rs \<le> ?b" using n by simp
          ultimately have "last rs = rs ! (length rs - 1)" "length rs - 1 < ?b"
            using False by (simp add: last_conv_nth, linarith)
          then have "last rs = global_log (er s) ! (k + length rs - 1)"
            using rs n k len pos by (simp add: add_diff_assoc del: length_greater_0_conv)
          moreover have "length rs \<le> length evs - k" using n by simp
          then have "k + length rs - 1 < length (er s)"
            using pos len k unfolding global_log_length by linarith
          ultimately have "er_seq (last rs) = int (k + length rs)"
            using global_log_nth [OF g] pos by (simp add: of_nat_diff Suc_leI)
          also have "\<dots> = int (min (k + ?b) (length evs))" using n k by auto
          finally have "er_seq (last rs) = int (min (k + ?b) (length evs))" .
          with ap up run' Inr Inr' n show ?thesis by auto
        qed
      qed
    qed
  qed
  then show "er s' = er s"
    and "x = Inr n \<Longrightarrow> n = min (pr_batch R) (length evs - k) \<and> unique_rows ck_clash (cr s') \<and>
      rm s' = fold upd (take (pr_batch R) (drop k evs)) (rm s) \<and>
      (\<forall>other. other \<noteq> pj_name p \<longrightarrow> ck_value (cr s') other = ck_value (cr s) other) \<and>
      (ck_value (cr s') (pj_name p) = int (min (k + pr_batch R) (length evs)) \<or>
        (s' = s \<and> (pr_batch R = 0 \<or> k = length evs)))"
    and "x = Inl e \<Longrightarrow> cr s' = cr s \<and>
      ((\<forall>ev aid s e s'. pj_apply api p ev aid s = (Inl e, s') \<longrightarrow> rm s' = rm s) \<longrightarrow>
         (\<exists>j. rm s' = fold upd (take j (drop k evs)) (rm s)))"
    by blast+
qed

end

text \<open>The same with a database that is up and handlers that return.\<close>

locale projection_db =
  ev: sql_up "pr_events R" er es_clash "\<lambda>s. (cr s, rm s)" +
  ck: sql_up "pr_checkpoints R" cr ck_clash "\<lambda>s. (er s, rm s)"
  for R :: "('s, 'ev) runner"
    and er :: "'s \<Rightarrow> es_row list"
    and cr :: "'s \<Rightarrow> ck_row list"
    and rm :: "'s \<Rightarrow> 'm" +
  fixes api :: "'ev event_api"
    and p :: "('s, 'ev) projection"
    and upd :: "'ev \<Rightarrow> 'm \<Rightarrow> 'm"
  assumes handler_ok: "\<exists>s'. pj_apply api p ev aid s = (Inr (), s') \<and> er s' = er s \<and> cr s' = cr s
      \<and> rm s' = upd ev (rm s)"

sublocale projection_db \<subseteq> tabs: projection_tables R er cr rm api p upd
  by unfold_locales (metis handler_ok prod.inject)

context projection_db begin

lemma get_checkpoint:
  assumes "unique_rows ck_clash (cr s)"
  shows "pj_get_checkpoint R name s = (Inr (ck_value (cr s) name), s)"
proof -
  obtain rs s' where q: "sql_select (pr_checkpoints R) (\<lambda>r. ck_projection r = name) no_order None s = (Inr rs, s')"
    using ck.select_up by blast
  then have "pj_get_checkpoint R name s = (Inr (case rs of [] \<Rightarrow> 0 | r # _ \<Rightarrow> ck_last r), s')"
    by (simp add: pj_get_checkpoint_def ebind_def)
  with tabs.get_checkpoint_ret [OF assms this] show ?thesis by simp
qed

lemma apply_rows:
  assumes "es_deserialize_all api rs = Inr evs"
  shows "\<exists>s'. efold (pj_apply_row api p) rs s = (Inr (), s') \<and> er s' = er s \<and> cr s' = cr s
    \<and> rm s' = fold upd evs (rm s)"
  using assms
proof (induction rs arbitrary: evs s)
  case (Cons r rs)
  from Cons.prems obtain ev evs' where ev: "es_deserialize_event api r = Inr ev"
    and evs': "es_deserialize_all api rs = Inr evs'" and evs: "evs = ev # evs'"
    by (auto split: sum.splits)
  obtain s1 where s1: "pj_apply api p ev (er_agg r) s = (Inr (), s1)" "er s1 = er s" "cr s1 = cr s"
    "rm s1 = upd ev (rm s)"
    using handler_ok by blast
  from Cons.IH [OF evs', of s1] s1 ev evs show ?case
    by (auto simp: pj_apply_row_def ebind_def)
qed simp

lemma upsert_checkpoint:
  assumes "unique_rows ck_clash (cr s)"
  shows "\<exists>s'. sql_upsert (pr_checkpoints R) \<lparr>ck_projection = name, ck_last = sq, ck_updated = now\<rparr>
      (\<lambda>r. r\<lparr>ck_last := sq, ck_updated := now'\<rparr>) s = (Inr (), s') \<and> er s' = er s \<and> rm s' = rm s
    \<and> ck_value (cr s') name = sq \<and> unique_rows ck_clash (cr s') \<and>
    (\<forall>other. other \<noteq> name \<longrightarrow> ck_value (cr s') other = ck_value (cr s) other)"
proof -
  obtain s' where q: "sql_upsert (pr_checkpoints R) \<lparr>ck_projection = name, ck_last = sq, ck_updated = now\<rparr>
      (\<lambda>r. r\<lparr>ck_last := sq, ck_updated := now'\<rparr>) s = (Inr (), s')"
    using ck.upsert_up by blast
  with tabs.upsert_checkpoint_ret [OF assms q] show ?thesis by blast
qed

lemma set_checkpoint:
  assumes "unique_rows ck_clash (cr s)"
  shows "\<exists>s'. pj_set_checkpoint R now name sq s = (Inr (), s') \<and> er s' = er s \<and> rm s' = rm s
    \<and> ck_value (cr s') name = sq \<and> unique_rows ck_clash (cr s')"
  using upsert_checkpoint [OF assms, of name sq now now] by (auto simp: pj_set_checkpoint_def)

lemma run_returns:
  assumes u: "unique_rows ck_clash (cr s)"
    and reads: "\<forall>r\<in>set (er s). \<exists>ev. es_deserialize_event api r = Inr ev"
  shows "\<exists>n s'. pj_run_projection api R now p from s = (Inr n, s')"
proof -
  obtain k where st: "(case from of Some n \<Rightarrow> eret n | None \<Rightarrow> pj_get_checkpoint R (pj_name p)) s = (Inr k, s)"
    using get_checkpoint [OF u] by (cases "from") auto
  obtain rs s1 where q: "sql_select (pr_events R) (\<lambda>r. er_seq r > k) (\<lambda>r. (er_seq r, 0)) (Some (pr_batch R)) s =
      (Inr rs, s1)" using ev.select_up by blast
  have s1: "s1 = s" using ev.select_state [OF q] .
  obtain ys where ys: "mset ys = mset (filter (\<lambda>r. er_seq r > k) (er s))" "rs = take (pr_batch R) ys"
    using ev.select_rows [OF q] by auto
  have "set rs \<subseteq> set (er s)" using mset_eq_setD [OF ys(1)] ys(2) by (auto dest: in_set_takeD)
  moreover have "\<exists>evs. es_deserialize_all api xs = Inr evs" if "set xs \<subseteq> set (er s)" for xs
    using that
  proof (induction xs)
    case (Cons x xs)
    from Cons.prems reads obtain ev where "es_deserialize_event api x = Inr ev" by (meson list.set_intros(1) subsetD)
    moreover from Cons obtain evs where "es_deserialize_all api xs = Inr evs" by auto
    ultimately show ?case by simp
  qed simp
  ultimately obtain evs where evs: "es_deserialize_all api rs = Inr evs" by blast
  obtain s2 where s2: "efold (pj_apply_row api p) rs s = (Inr (), s2)" "cr s2 = cr s"
    using apply_rows [OF evs, of s] by blast
  obtain s3 where "pj_set_checkpoint R now (pj_name p) (er_seq (last rs)) s2 = (Inr (), s3)"
    using set_checkpoint [of s2 now "pj_name p" "er_seq (last rs)"] s2(2) u by auto
  with st q s1 s2 show ?thesis
    by (cases "rs = []") (auto simp: pj_run_projection_def ebind_Inr)
qed

text \<open>One run applies the next batch of the log, in order, and moves the checkpoint past it.\<close>

lemma run_projection:
  assumes g: "globally_numbered (er s)" and u: "unique_rows ck_clash (cr s)"
    and des: "es_deserialize_all api (global_log (er s)) = Inr evs"
    and start: "(case from of Some n \<Rightarrow> n | None \<Rightarrow> ck_value (cr s) (pj_name p)) = int k"
    and k: "k \<le> length evs"
  shows "\<exists>s'. pj_run_projection api R now p from s = (Inr (min (pr_batch R) (length evs - k)), s') \<and>
    er s' = er s \<and> unique_rows ck_clash (cr s') \<and>
    rm s' = fold upd (take (pr_batch R) (drop k evs)) (rm s) \<and>
    (\<forall>other. other \<noteq> pj_name p \<longrightarrow> ck_value (cr s') other = ck_value (cr s) other) \<and>
    (ck_value (cr s') (pj_name p) = int (min (k + pr_batch R) (length evs)) \<or>
      (s' = s \<and> (pr_batch R = 0 \<or> k = length evs)))"
proof -
  obtain n s' where r: "pj_run_projection api R now p from s = (Inr n, s')"
    using run_returns [OF u, of now "from"] deserialize_each [OF des] by (auto simp: global_log_def)
  from tabs.run_ret [OF g u des start k r] r show ?thesis by (intro exI [where x = s']) simp
qed

text \<open>A rebuild replays one batch from the start of the log.\<close>

lemma rebuild:
  assumes g: "globally_numbered (er s)" and u: "unique_rows ck_clash (cr s)"
    and des: "es_deserialize_all api (global_log (er s)) = Inr evs"
    and p: "map_of (pr_projections R) (pj_name p) = Some p"
    and reset: "pj_reset p s = (Inr (), s1)" "er s1 = er s" "cr s1 = cr s"
  shows "\<exists>s'. pj_rebuild api R now (pj_name p) s = (Inr (min (pr_batch R) (length evs)), s') \<and>
    rm s' = fold upd (take (pr_batch R) evs) (rm s1)"
proof -
  from set_checkpoint [of s1 now "pj_name p" 0] reset(3) u obtain s2 where
    s2: "pj_set_checkpoint R now (pj_name p) 0 s1 = (Inr (), s2)" "er s2 = er s1" "rm s2 = rm s1"
    "unique_rows ck_clash (cr s2)" by auto
  from run_projection [of s2 evs "Some 0" 0 now] g des reset s2 obtain s' where
    "pj_run_projection api R now p (Some 0) s2 = (Inr (min (pr_batch R) (length evs)), s')"
    "rm s' = fold upd (take (pr_batch R) evs) (rm s1)" by auto
  with p reset s2 show ?thesis
    by (intro exI [of _ s']) (simp add: pj_rebuild_def ebind_Inr)
qed

lemma nothing_above:
  assumes u: "unique_rows ck_clash (cr s)"
    and old: "\<forall>r\<in>set (er s). er_seq r \<le> ck_value (cr s) (pj_name p)"
  shows "pj_run_projection api R now p None s = (Inr 0, s)"
proof -
  let ?P = "\<lambda>r. er_seq r > ck_value (cr s) (pj_name p)"
  obtain rs s1 where q: "sql_select (pr_events R) ?P (\<lambda>r. (er_seq r, 0)) (Some (pr_batch R)) s = (Inr rs, s1)"
    using ev.select_up by blast
  have "filter ?P (er s) = []" using old by (auto simp: filter_empty_conv)
  with ev.select_rows [OF q] have "rs = []" by auto
  with q ev.select_state [OF q] get_checkpoint [OF u] show ?thesis
    by (simp add: pj_run_projection_def ebind_Inr)
qed

end

section \<open>Runs interleaved with appends\<close>

text \<open>
  \<open>async with engine.begin() as conn: await runner.run_once(conn)\<close>: when the run or the commit
  raises, the statements of the runner's connection are undone. \<open>undo s s'\<close> is the state after
  that: it has the events and checkpoints of \<open>s\<close>, and the read model of \<open>s\<close> where the handlers write
  on the same connection (\<open>shared\<close>), that of \<open>s'\<close> where they have a session of their own.
\<close>

definition pj_session :: "('s \<Rightarrow> 's \<Rightarrow> 's) \<Rightarrow> ('s \<Rightarrow> exn option) \<Rightarrow> ('s, 'a) eff \<Rightarrow> ('s, 'a) eff" where
  "pj_session undo commit body s =
     (case body s of
        (Inl e, s') \<Rightarrow> (Inl e, undo s s')
      | (Inr x, s') \<Rightarrow> (case commit s' of None \<Rightarrow> (Inr x, s') | Some e \<Rightarrow> (Inl e, undo s s')))"

definition undoes ::
  "('s \<Rightarrow> es_row list) \<Rightarrow> ('s \<Rightarrow> ck_row list) \<Rightarrow> ('s \<Rightarrow> 'm) \<Rightarrow> bool \<Rightarrow> ('s \<Rightarrow> 's \<Rightarrow> 's) \<Rightarrow> bool" where
  "undoes er cr rm shared undo \<longleftrightarrow>
     (\<forall>s s'. er (undo s s') = er s \<and> cr (undo s s') = cr s \<and>
        rm (undo s s') = (if shared then rm s else rm s'))"

inductive pj_reach ::
  "'ev event_api \<Rightarrow> ('s, 'ev) runner \<Rightarrow> ('s, 'ev) projection \<Rightarrow> ('s \<Rightarrow> 's \<Rightarrow> 's) \<Rightarrow> ('s \<Rightarrow> es_row list)
     \<Rightarrow> ('s \<Rightarrow> ck_row list) \<Rightarrow> ('s \<Rightarrow> 'm) \<Rightarrow> 'm \<Rightarrow> 's \<Rightarrow> bool" for api R p undo er cr rm m0 where
  pj_reach_init: "er s = [] \<Longrightarrow> cr s = [] \<Longrightarrow> rm s = m0 \<Longrightarrow> pj_reach api R p undo er cr rm m0 s"
| pj_reach_append: "pj_reach api R p undo er cr rm m0 s \<Longrightarrow> er s' = er s @ new \<Longrightarrow>
    map er_seq new = [int (length (er s)) + 1..int (length (er s)) + int (length new)] \<Longrightarrow>
    es_deserialize_all api new = Inr evs \<Longrightarrow> cr s' = cr s \<Longrightarrow> rm s' = rm s \<Longrightarrow>
    pj_reach api R p undo er cr rm m0 s'"
| pj_reach_run: "pj_reach api R p undo er cr rm m0 s \<Longrightarrow>
    pj_session undo commit (pj_run_projection api R now p None) s = (r, s') \<Longrightarrow>
    pj_reach api R p undo er cr rm m0 s'"

lemma global_log_append:
  assumes g: "globally_numbered rows"
    and new: "map er_seq new = [int (length rows) + 1..int (length rows) + int (length new)]"
  shows "global_log (rows @ new) = global_log rows @ new" and "globally_numbered (rows @ new)"
proof -
  have all: "map er_seq (global_log rows @ new) = [1..int (length (rows @ new))]"
    using g new upto_glue [of "int (length rows)" "int (length new)"]
    by (simp add: globally_numbered_def)
  have "distinct (map er_seq (global_log rows @ new))" unfolding all by simp
  then have d: "inj_on er_seq (set (global_log rows @ new))" "distinct (global_log rows @ new)"
    unfolding distinct_map by auto
  have "sorted (map er_seq (global_log rows @ new))" unfolding all by simp
  with d show eq: "global_log (rows @ new) = global_log rows @ new"
    by (intro sorted_key_unique [where f = er_seq]) (auto simp: global_log_def)
  show "globally_numbered (rows @ new)" unfolding globally_numbered_def eq by (rule all)
qed

text \<open>\<open>applied\<close> lists the events whose handlers have returned, in the order of the calls.\<close>

definition pj_inv ::
  "'ev event_api \<Rightarrow> ('s, 'ev) projection \<Rightarrow> ('s \<Rightarrow> es_row list) \<Rightarrow> ('s \<Rightarrow> ck_row list)
     \<Rightarrow> ('s \<Rightarrow> 'm) \<Rightarrow> ('ev \<Rightarrow> 'm \<Rightarrow> 'm) \<Rightarrow> bool \<Rightarrow> 'm \<Rightarrow> 's \<Rightarrow> 'ev list \<Rightarrow> nat \<Rightarrow> 'ev list \<Rightarrow> bool" where
  "pj_inv api p er cr rm upd shared m0 s evs k applied \<longleftrightarrow>
     globally_numbered (er s) \<and> unique_rows ck_clash (cr s) \<and>
     es_deserialize_all api (global_log (er s)) = Inr evs \<and>
     ck_value (cr s) (pj_name p) = int k \<and> k \<le> length evs \<and> rm s = fold upd applied m0 \<and>
     subseq (take k evs) applied \<and> set applied \<subseteq> set evs \<and> (shared \<longrightarrow> applied = take k evs)"

text \<open>What a run in a session does to the invariant; a raising handler has had no effect where its
  effect would stay.\<close>

lemma pj_session_inv:
  assumes db: "projection_tables R er cr rm api p upd" and un: "undoes er cr rm shared undo"
    and atomic: "\<not> shared \<Longrightarrow> \<forall>ev aid s e s'. pj_apply api p ev aid s = (Inl e, s') \<longrightarrow> rm s' = rm s"
    and inv: "pj_inv api p er cr rm upd shared m0 s evs k applied"
    and run: "pj_session undo commit (pj_run_projection api R now p None) s = (r, s')"
  shows "\<exists>k' applied'. pj_inv api p er cr rm upd shared m0 s' evs k' applied'"
    and "r = Inr n \<Longrightarrow> n = min (pr_batch R) (length evs - k) \<and>
      pj_inv api p er cr rm upd shared m0 s' evs (k + n) (applied @ take n (drop k evs))"
    and "r = Inl e \<Longrightarrow> \<exists>applied'. pj_inv api p er cr rm upd shared m0 s' evs k applied'"
proof -
  from inv have h: "globally_numbered (er s)" "unique_rows ck_clash (cr s)"
    "es_deserialize_all api (global_log (er s)) = Inr evs" "ck_value (cr s) (pj_name p) = int k"
    "k \<le> length evs" "rm s = fold upd applied m0" "subseq (take k evs) applied" "set applied \<subseteq> set evs"
    "shared \<longrightarrow> applied = take k evs" by (simp_all add: pj_inv_def)
  obtain x t where t: "pj_run_projection api R now p None s = (x, t)" by (rule prod.exhaust)
  note rr = projection_tables.run_ret [OF db h(1-3) _ h(5) t]
  note rr' = rr(1) rr(2) rr(3)
  have er: "er t = er s" by (rule rr(1)) (simp add: h(4))
  have moved: "\<exists>j. rm t = fold upd (take j (drop k evs)) (rm s)" if "\<not> shared"
  proof (cases x)
    case (Inl e)
    show ?thesis using rr(3) [OF _ Inl] h(4) atomic [OF that] by simp
  next
    case (Inr n)
    show ?thesis using rr(2) [OF _ Inr] h(4) by auto
  qed
  have undone: "\<exists>applied'. pj_inv api p er cr rm upd shared m0 (undo s t) evs k applied'"
  proof (cases shared)
    case True
    with un h show ?thesis by (intro exI [of _ applied]) (simp add: pj_inv_def undoes_def)
  next
    case False
    from moved [OF this] obtain j where j: "rm t = fold upd (take j (drop k evs)) (rm s)" by blast
    have "set (take j (drop k evs)) \<subseteq> set evs" by (meson set_drop_subset set_take_subset subset_trans)
    moreover have "subseq (take k evs) (applied @ take j (drop k evs))"
      using list_emb_append_mono [OF h(7), of "[]" "take j (drop k evs)"] by simp
    ultimately show ?thesis
      using False un h j
      by (intro exI [of _ "applied @ take j (drop k evs)"]) (simp add: pj_inv_def undoes_def)
  qed
  have commit: "n = min (pr_batch R) (length evs - k) \<and>
      pj_inv api p er cr rm upd shared m0 t evs (k + n) (applied @ take n (drop k evs))" if x: "x = Inr n" for n
  proof -
    have q: "n = min (pr_batch R) (length evs - k)" "unique_rows ck_clash (cr t)"
      "rm t = fold upd (take (pr_batch R) (drop k evs)) (rm s)"
      "ck_value (cr t) (pj_name p) = int (min (k + pr_batch R) (length evs)) \<or>
        (t = s \<and> (pr_batch R = 0 \<or> k = length evs))"
      using rr(2) [OF _ x] h(4) by auto
    have tk: "take (pr_batch R) (drop k evs) = take n (drop k evs)" unfolding q(1) by (simp add: min_def)
    have ck: "ck_value (cr t) (pj_name p) = int (k + n)"
      using q(4) h(4,5) unfolding q(1) by auto
    have "take (k + n) evs = take k evs @ take n (drop k evs)" by (rule take_add)
    moreover have "subseq (take k evs @ take n (drop k evs)) (applied @ take n (drop k evs))"
      using h(7) by (rule list_emb_append_mono) simp
    moreover have "set (take n (drop k evs)) \<subseteq> set evs" by (meson set_drop_subset set_take_subset subset_trans)
    ultimately show ?thesis
      using q h er ck tk by (auto simp: pj_inv_def)
  qed
  show ok: "r = Inr n \<Longrightarrow> n = min (pr_batch R) (length evs - k) \<and>
      pj_inv api p er cr rm upd shared m0 s' evs (k + n) (applied @ take n (drop k evs))" for n
    using run t commit by (auto simp: pj_session_def split: sum.splits option.splits)
  show bad: "r = Inl e \<Longrightarrow> \<exists>applied'. pj_inv api p er cr rm upd shared m0 s' evs k applied'" for e
    using run t undone by (auto simp: pj_session_def split: sum.splits option.splits)
  show "\<exists>k' applied'. pj_inv api p er cr rm upd shared m0 s' evs k' applied'"
    using ok bad by (cases r) blast+
qed

lemma pj_reach_inv:
  assumes db: "projection_tables R er cr rm api p upd" and un: "undoes er cr rm shared undo"
    and atomic: "\<not> shared \<Longrightarrow> \<forall>ev aid s e s'. pj_apply api p ev aid s = (Inl e, s') \<longrightarrow> rm s' = rm s"
    and "pj_reach api R p undo er cr rm m0 s"
  shows "\<exists>evs k applied. pj_inv api p er cr rm upd shared m0 s evs k applied"
  using assms(4)
proof (induction rule: pj_reach.induct)
  case (pj_reach_init s)
  then show ?case
    by (auto simp: pj_inv_def globally_numbered_def global_log_def unique_rows_def ck_value_def
        intro: exI [of _ "[]"])
next
  case (pj_reach_append s s' new evs)
  then obtain evs0 k applied where inv: "pj_inv api p er cr rm upd shared m0 s evs0 k applied" by blast
  then have g: "globally_numbered (er s)" by (simp add: pj_inv_def)
  note ext = global_log_append [OF g pj_reach_append.hyps(3)]
  have "pj_inv api p er cr rm upd shared m0 s' (evs0 @ evs) k applied"
    using inv ext pj_reach_append.hyps by (auto simp: pj_inv_def deserialize_append)
  then show ?case by blast
next
  case (pj_reach_run s commit now r s')
  then obtain evs k applied where inv: "pj_inv api p er cr rm upd shared m0 s evs k applied" by blast
  from pj_session_inv(1) [OF db un atomic inv pj_reach_run.hyps(2)] show ?case by blast
qed

section \<open>A projection that records what it applies\<close>

text \<open>The database of the witnesses: events, checkpoints, and the list of applied events.\<close>

type_synonym trace_db = "es_row list \<times> ck_row list \<times> account_event list"

definition trace_projection :: "(trace_db, account_event) projection" where
  "trace_projection =
     \<lparr>pj_name = ''trace'',
      pj_handler = (\<lambda>m. Some (\<lambda>ev s. (Inr (), (fst s, fst (snd s), snd (snd s) @ [ev])))),
      pj_reset = (\<lambda>s. (Inr (), (fst s, fst (snd s), [])))\<rparr>"

definition trace_runner :: "nat \<Rightarrow> (trace_db, account_event) runner" where
  "trace_runner b =
     \<lparr>pr_checkpoints = list_sql (\<lambda>s. fst (snd s)) (\<lambda>rs s. (fst s, rs, snd (snd s))) ck_clash,
      pr_events = list_sql fst (\<lambda>rs s. (rs, snd s)) es_clash, pr_batch = b,
      pr_projections = [(''trace'', trace_projection)]\<rparr>"

interpretation trace_db: projection_db "trace_runner b" fst "\<lambda>s. fst (snd s)" "\<lambda>s. snd (snd s)"
  account_api trace_projection "\<lambda>ev m. m @ [ev]"
  for b :: nat
proof -
  have e: "table_slot fst (\<lambda>rs s :: trace_db. (rs, snd s)) (\<lambda>s. (fst (snd s), snd (snd s)))"
    by unfold_locales auto
  have c: "table_slot (\<lambda>s. fst (snd s)) (\<lambda>rs s :: trace_db. (fst s, rs, snd (snd s)))
      (\<lambda>s. (fst s, snd (snd s)))"
    by unfold_locales auto
  show "projection_db (trace_runner b) fst (\<lambda>s. fst (snd s)) (\<lambda>s. snd (snd s))
      account_api trace_projection (\<lambda>ev m. m @ [ev])"
    unfolding projection_db_def projection_db_axioms_def trace_runner_def
    using table_slot.list_sql_up [OF e] table_slot.list_sql_up [OF c]
    by (auto simp: pj_apply_def trace_projection_def)
qed

text \<open>Two aggregates with one event each: both events have number 1.\<close>

definition two_streams :: "es_row list" where
  "two_streams =
     [es_make_row account_api 1 0 ''Acc'' None ''a1'' 1 (MoneyDeposited 5),
      es_make_row account_api 2 0 ''Acc'' None ''a2'' 1 (MoneyDeposited 7)]"

section \<open>Properties\<close>


text \<open>A projection with a session of its own that raises in mid batch, the first time it sees the
  second event: the first event is applied twice.\<close>

definition flaky_projection :: "(trace_db, account_event) projection" where
  "flaky_projection = trace_projection\<lparr>pj_handler := (\<lambda>m. Some (\<lambda>ev s.
     if length (snd (snd s)) = 1 \<and> ev = MoneyWithdrawn 2 then (Inl (PyException ''RuntimeError'' ''down''), s)
     else (Inr (), (fst s, fst (snd s), snd (snd s) @ [ev]))))\<rparr>"

lemma flaky_tables:
  "projection_tables (trace_runner b) fst (\<lambda>s. fst (snd s)) (\<lambda>s. snd (snd s)) account_api flaky_projection
     (\<lambda>ev m. m @ [ev])"
proof (intro projection_tables.intro projection_tables_axioms.intro)
  show "sql_table (pr_events (trace_runner b)) fst es_clash (\<lambda>s. (fst (snd s), snd (snd s)))"
    by (rule sql_up.axioms(1) [OF projection_db.axioms(1) [OF trace_db.projection_db_axioms]])
  show "sql_table (pr_checkpoints (trace_runner b)) (\<lambda>s. fst (snd s)) ck_clash (\<lambda>s. (fst s, snd (snd s)))"
    by (rule sql_up.axioms(1) [OF projection_db.axioms(2) [OF trace_db.projection_db_axioms]])
  fix ev aid s x s'
  assume "pj_apply account_api flaky_projection ev aid s = (x, s')"
  then show "fst s' = fst s \<and> fst (snd s') = fst (snd s) \<and> (x = Inr () \<longrightarrow> snd (snd s') = snd (snd s) @ [ev])"
    by (auto simp: pj_apply_def flaky_projection_def split: if_splits)
qed


text \<open>With several aggregates in one log the checkpoint is not a position in it: once the
  checkpoint is at least every stored sequence number, a run applies nothing and changes
  nothing, although sequence numbers are per aggregate and events of other aggregates with
  those numbers may never have been applied.\<close>

theorem pj_skips_other_streams:
  assumes "projection_db R er cr rm api p upd" "unique_rows ck_clash (cr s)"
    and "\<forall>r\<in>set (er s). er_seq r \<le> ck_value (cr s) (pj_name p)"
  shows "pj_run_projection api R now p None s = (Inr 0, s)"
  by (rule projection_db.nothing_above [OF assms])

theorem pj_skips_other_streams_witness:
  "(case pj_run_projection account_api (trace_runner 1) 0 trace_projection None (two_streams, [], []) of
      (r, s) \<Rightarrow> r = Inr 1 \<and> snd (snd s) = [MoneyDeposited 5] \<and>
        pj_run_projection account_api (trace_runner 1) 0 trace_projection None s = (Inr 0, s))"
proof -
  let ?s = "(two_streams, [\<lparr>ck_projection = ''trace'', ck_last = 1, ck_updated = 0\<rparr>], [MoneyDeposited 5])"
  have "pj_run_projection account_api (trace_runner 1) 0 trace_projection None (two_streams, [], []) =
      (Inr 1, ?s)"
    by (simp add: pj_run_projection_def pj_get_checkpoint_def pj_set_checkpoint_def trace_runner_def
        two_streams_def ebind_def pj_apply_row_def deserialize_make_row account_loadable pj_apply_def
        trace_projection_def upsert_rows_def) (simp add: es_make_row_def)
  moreover have "pj_run_projection account_api (trace_runner 1) 0 trace_projection None ?s = (Inr 0, ?s)"
    by (rule pj_skips_other_streams [OF trace_db.projection_db_axioms])
      (simp_all add: unique_rows_def two_streams_def es_make_row_def ck_value_def trace_projection_def)
  ultimately show ?thesis by simp
qed

text \<open>A rebuild of a registered projection resets its read model and then replays only the
  first batch of the log: it returns the smaller of the batch size and the number of events,
  and the rest of the log is left to later runs.\<close>

theorem pj_rebuild_first_batch:
  assumes "projection_db R er cr rm api p upd"
    and "globally_numbered (er s)" "unique_rows ck_clash (cr s)"
    and "es_deserialize_all api (global_log (er s)) = Inr evs"
    and "map_of (pr_projections R) (pj_name p) = Some p"
    and "pj_reset p s = (Inr (), t)" "er t = er s" "cr t = cr s"
  shows "\<exists>s'. pj_rebuild api R now (pj_name p) s = (Inr (min (pr_batch R) (length evs)), s') \<and>
    rm s' = fold upd (take (pr_batch R) evs) (rm t)"
  by (rule projection_db.rebuild [OF assms])

theorem pj_rebuild_first_batch_witness:
  "\<exists>s'. pj_rebuild account_api (trace_runner 1) 0 ''trace'' (account_rows, [], [MoneyDeposited 9]) =
     (Inr 1, s') \<and> snd (snd s') = [MoneyDeposited 5]"
proof -
  have d: "es_deserialize_all account_api account_rows = Inr [MoneyDeposited 5, MoneyWithdrawn 2]"
    by (simp add: account_rows_eq deserialize_make_row account_loadable)
  have log: "global_log account_rows = account_rows"
    by (simp add: global_log_def account_rows_eq es_make_row_def)
  have n: "globally_numbered account_rows"
    by (simp add: globally_numbered_def log) (simp add: account_rows_eq es_make_row_def upto.simps)
  from pj_rebuild_first_batch [OF trace_db.projection_db_axioms [of 1], where s = "(account_rows, [], [MoneyDeposited 9])"
      and t = "(account_rows, [], [])" and now = 0] d log n
  show ?thesis by (simp add: trace_projection_def trace_runner_def unique_rows_def)
qed

end
