(* ===== verification/Qx_Di.thy ===== *)
theory Qx_Di
  imports Qx_Core
begin

text \<open>
  The package \<open>qx-di\<close>: providers and lifetimes (\<open>providers.py\<close>), scopes (\<open>scope.py\<close>) and the
  container (\<open>container.py\<close>) with registration, resolution, overrides, children and teardown,
  seen from one task. A container is the list of itself and its ancestors, so the owner of a
  provider is a position in that list. Resolution recurses through the constructor
  parameters of the factories; \<open>di_resolve\<close> takes fuel, and \<open>di_enough_fuel\<close> shows that the
  set of keys in flight bounds the recursion, so the fuel is never the reason a resolution ends.

  A second acquisition of the \<open>asyncio.Lock\<close> of a container by the task that holds it never
  returns; that outcome is \<open>Deadlock\<close>.
\<close>

section \<open>Keys, factories, providers\<close>

datatype di_key = KClass string | KName string

datatype lifetime = SINGLETON | SCOPED | TRANSIENT

text \<open>A parameter's annotation as \<open>get_type_hints\<close> or the signature gives it.\<close>

datatype annot = NoAnnot | AContainer | AScope | AKey di_key

record param =
  pa_name :: string
  pa_annot :: annot
  pa_default :: bool
  pa_variadic :: bool

datatype 'v arg = ArgContainer | ArgScope | ArgVal "'v option"

text \<open>
  A class or factory function: its signature (\<open>None\<close> when \<open>inspect.signature\<close> fails), and the
  call with the keyword arguments, awaited if need be. The value \<open>None\<close> is Python's.
\<close>

record ('s, 'v) factory =
  fa_sig :: "param list option"
  fa_async :: bool
  fa_call :: "(string \<times> 'v arg) list \<Rightarrow> ('s, 'v option) eff"

datatype ('s, 'v) provider =
    FactoryProvider (prov_key: di_key) (prov_lifetime: lifetime) (prov_tags: "string list")
      (prov_factory: "('s, 'v) factory")
  | InstanceProvider (prov_key: di_key) (prov_lifetime: lifetime) (prov_tags: "string list")
      (prov_instance: "'v option")

definition is_async_provider :: "('s, 'v) provider \<Rightarrow> bool" where
  "is_async_provider p =
     (case p of FactoryProvider k l t f \<Rightarrow> fa_async f | InstanceProvider k l t v \<Rightarrow> False)"

text \<open>What \<open>register\<close> is given: a class or callable, or any other object.\<close>

datatype ('s, 'v) impl = ImplCallable "('s, 'v) factory" | ImplValue 'v

section \<open>Scopes\<close>

record ('s, 'v) scope =
  sc_name :: string
  sc_cache :: "(di_key \<times> 'v option) list"
  sc_disposers :: "('s, unit) eff list"
  sc_closed :: bool

definition scope_new :: "string \<Rightarrow> ('s, 'v) scope" where
  "scope_new name = \<lparr>sc_name = name, sc_cache = [], sc_disposers = [], sc_closed = False\<rparr>"

definition scope_get :: "di_key \<Rightarrow> ('s, 'v) scope \<Rightarrow> 'v option" where
  "scope_get k sc = (case map_of (sc_cache sc) k of None \<Rightarrow> None | Some v \<Rightarrow> v)"

definition scope_set :: "di_key \<Rightarrow> 'v option \<Rightarrow> ('s, 'v) scope \<Rightarrow> exn + ('s, 'v) scope" where
  "scope_set k v sc =
     (if sc_closed sc
      then Inl (PyException ''RuntimeError'' (''Scope '' @ sc_name sc @ '' is closed; cannot register''))
      else Inr (sc\<lparr>sc_cache := AList.update k v (sc_cache sc)\<rparr>))"

definition scope_register_disposer ::
  "('s, unit) eff \<Rightarrow> ('s, 'v) scope \<Rightarrow> exn + ('s, 'v) scope" where
  "scope_register_disposer d sc =
     (if sc_closed sc
      then Inl (PyException ''RuntimeError'' (''Scope '' @ sc_name sc @ '' is closed; cannot register disposer''))
      else Inr (sc\<lparr>sc_disposers := sc_disposers sc @ [d]\<rparr>))"

text \<open>Disposers run one after the other; whatever one raises is collected.\<close>

fun run_disposers :: "('s, unit) eff list \<Rightarrow> 's \<Rightarrow> exn list \<times> 's" where
  "run_disposers [] s = ([], s)"
| "run_disposers (d # ds) s =
     (case d s of
        (r, s1) \<Rightarrow>
          (case run_disposers ds s1 of
             (es, s2) \<Rightarrow> ((case r of Inl e \<Rightarrow> e # es | Inr u \<Rightarrow> es), s2)))"

definition scope_close :: "('s \<times> ('s, 'v) scope, unit) eff" where
  "scope_close st =
     (case st of
        (s, sc) \<Rightarrow>
          if sc_closed sc then (Inr (), (s, sc))
          else
            (case run_disposers (rev (sc_disposers sc)) s of
               (es, s') \<Rightarrow>
                 ((if es = [] then Inr ()
                   else Inl (ExceptionGroup (''errors disposing scope '' @ sc_name sc) es)),
                  (s', sc\<lparr>sc_closed := True, sc_disposers := [], sc_cache := []\<rparr>))))"

definition scope_aexit :: "('s \<times> ('s, 'v) scope, unit) eff" where
  "scope_aexit = etry_all scope_close (\<lambda>_. eret ())"

section \<open>Containers\<close>

record ('s, 'v) container =
  ct_name :: string
  ct_providers :: "(di_key \<times> ('s, 'v) provider) list"
  ct_singletons :: "(di_key \<times> 'v option) list"
  ct_disposers :: "('s, unit) eff list"
  ct_locked :: bool
  ct_overrides :: "(di_key \<times> ('s, 'v) provider) list"

definition container_new :: "string \<Rightarrow> ('s, 'v) container" where
  "container_new name =
     \<lparr>ct_name = name, ct_providers = [], ct_singletons = [], ct_disposers = [], ct_locked = False,
      ct_overrides = []\<rparr>"

type_synonym ('s, 'v) chain = "('s, 'v) container list"

definition create_child :: "string \<Rightarrow> ('s, 'v) chain \<Rightarrow> ('s, 'v) chain" where
  "create_child name chain = container_new name # chain"

definition make_provider ::
  "di_key \<Rightarrow> ('s, 'v) impl \<Rightarrow> lifetime \<Rightarrow> string list \<Rightarrow> exn + ('s, 'v) provider" where
  "make_provider key impl lifetime tags =
     (case impl of
        ImplCallable f \<Rightarrow> Inr (FactoryProvider key lifetime tags f)
      | ImplValue v \<Rightarrow>
          (if lifetime \<noteq> SINGLETON
           then Inl (PyException ''RegistrationError'' ''Bare value requires SINGLETON lifetime'')
           else Inr (InstanceProvider key lifetime tags (Some v))))"

definition di_register ::
  "di_key \<Rightarrow> ('s, 'v) impl \<Rightarrow> lifetime \<Rightarrow> string list \<Rightarrow> ('s, 'v) container
     \<Rightarrow> exn + ('s, 'v) container" where
  "di_register key impl lifetime tags c =
     (case make_provider key impl lifetime tags of
        Inl e \<Rightarrow> Inl e
      | Inr p \<Rightarrow> Inr (c\<lparr>ct_providers := AList.update key p (ct_providers c)\<rparr>))"

definition register_singleton where
  "register_singleton key impl tags c = di_register key impl SINGLETON tags c"
definition register_scoped where
  "register_scoped key impl tags c = di_register key impl SCOPED tags c"
definition register_transient where
  "register_transient key impl tags c = di_register key impl TRANSIENT tags c"

definition register_instance :: "di_key \<Rightarrow> 'v \<Rightarrow> ('s, 'v) container \<Rightarrow> ('s, 'v) container" where
  "register_instance key v c =
     c\<lparr>ct_providers := AList.update key (InstanceProvider key SINGLETON [] (Some v)) (ct_providers c),
       ct_singletons := AList.update key (Some v) (ct_singletons c)\<rparr>"

fun find_provider_at ::
  "nat \<Rightarrow> ('s, 'v) chain \<Rightarrow> di_key \<Rightarrow> (('s, 'v) provider \<times> nat) option" where
  "find_provider_at i [] key = None"
| "find_provider_at i (c # cs) key =
     (case map_of (ct_overrides c) key of
        Some p \<Rightarrow> Some (p, i)
      | None \<Rightarrow>
          (case map_of (ct_providers c) key of
             Some p \<Rightarrow> Some (p, i)
           | None \<Rightarrow> find_provider_at (Suc i) cs key))"

definition find_provider_with_owner ::
  "('s, 'v) chain \<Rightarrow> di_key \<Rightarrow> (('s, 'v) provider \<times> nat) option" where
  "find_provider_with_owner chain key = find_provider_at 0 chain key"

fun providers_with_tag :: "('s, 'v) chain \<Rightarrow> string \<Rightarrow> ('s, 'v) provider list" where
  "providers_with_tag [] tag = []"
| "providers_with_tag (c # cs) tag =
     filter (\<lambda>p. tag \<in> set (prov_tags p)) (map snd (ct_providers c)) @ providers_with_tag cs tag"

section \<open>Resolution\<close>

datatype 'a outcome = Ret 'a | Raise exn | Deadlock | OutOfFuel

fun outcome_cast :: "'a outcome \<Rightarrow> 'b outcome" where
  "outcome_cast (Raise e) = Raise e"
| "outcome_cast Deadlock = Deadlock"
| "outcome_cast _ = OutOfFuel"

text \<open>The classes of the program, and the \<open>aclose\<close> or \<open>close\<close> method of an object.\<close>

record ('s, 'v) di_env =
  env_class :: "string \<Rightarrow> ('s, 'v) factory"
  env_disposer :: "'v \<Rightarrow> ('s, unit) eff option"

record ('s, 'v) di_state =
  ds_chain :: "('s, 'v) chain"
  ds_flight :: "di_key list"
  ds_scope :: "('s, 'v) scope"
  ds_world :: 's

definition resolution_error :: "string \<Rightarrow> exn" where
  "resolution_error msg = PyException ''ResolutionError'' msg"

definition is_resolution_error :: "exn \<Rightarrow> bool" where
  "is_resolution_error e = (exn_class e = ''ResolutionError'')"

definition put_container ::
  "nat \<Rightarrow> (('s, 'v) container \<Rightarrow> ('s, 'v) container) \<Rightarrow> ('s, 'v) di_state \<Rightarrow> ('s, 'v) di_state" where
  "put_container i f st = st\<lparr>ds_chain := (ds_chain st)[i := f (ds_chain st ! i)]\<rparr>"

definition disposer_of :: "('s, 'v) di_env \<Rightarrow> 'v option \<Rightarrow> ('s, unit) eff option" where
  "disposer_of env v = (case v of None \<Rightarrow> None | Some x \<Rightarrow> env_disposer env x)"

definition register_singleton_disposer ::
  "('s, 'v) di_env \<Rightarrow> 'v option \<Rightarrow> ('s, 'v) container \<Rightarrow> ('s, 'v) container" where
  "register_singleton_disposer env v c =
     (case disposer_of env v of None \<Rightarrow> c | Some d \<Rightarrow> c\<lparr>ct_disposers := ct_disposers c @ [d]\<rparr>)"

definition maybe_register_scope_disposer ::
  "('s, 'v) di_env \<Rightarrow> 'v option \<Rightarrow> ('s, 'v) scope \<Rightarrow> exn + ('s, 'v) scope" where
  "maybe_register_scope_disposer env v sc =
     (case disposer_of env v of None \<Rightarrow> Inr sc | Some d \<Rightarrow> scope_register_disposer d sc)"

text \<open>
  \<open>rec key sc\<close> is the recursive \<open>_resolve(key, scope)\<close>; the flag says whether the active scope
  is passed or \<open>None\<close>.
\<close>

type_synonym ('s, 'v) resolver =
  "di_key \<Rightarrow> bool \<Rightarrow> ('s, 'v) di_state \<Rightarrow> 'v option outcome \<times> ('s, 'v) di_state"

fun di_args ::
  "('s, 'v) resolver \<Rightarrow> bool \<Rightarrow> param list \<Rightarrow> (string \<times> 'v arg) list \<Rightarrow> ('s, 'v) di_state
     \<Rightarrow> (string \<times> 'v arg) list outcome \<times> ('s, 'v) di_state" where
  "di_args rec sc [] kwargs st = (Ret kwargs, st)"
| "di_args rec sc (p # ps) kwargs st =
     (if pa_name p = ''self'' \<or> pa_variadic p then di_args rec sc ps kwargs st
      else case pa_annot p of
        NoAnnot \<Rightarrow>
          (if pa_default p then di_args rec sc ps kwargs st
           else (Raise (resolution_error (''Parameter '' @ pa_name p @
                  '' has no type annotation and no default.'')), st))
      | AContainer \<Rightarrow> di_args rec sc ps (kwargs @ [(pa_name p, ArgContainer)]) st
      | AScope \<Rightarrow> di_args rec sc ps (if sc then kwargs @ [(pa_name p, ArgScope)] else kwargs) st
      | AKey k \<Rightarrow>
          (case rec k sc st of
             (Ret v, st') \<Rightarrow> di_args rec sc ps (kwargs @ [(pa_name p, ArgVal v)]) st'
           | (Raise e, st') \<Rightarrow>
               (if is_resolution_error e \<and> pa_default p then di_args rec sc ps kwargs st'
                else (Raise e, st'))
           | (oc, st') \<Rightarrow> (outcome_cast oc, st')))"

definition call_factory ::
  "('s, 'v) resolver \<Rightarrow> bool \<Rightarrow> ('s, 'v) factory \<Rightarrow> ('s, 'v) di_state
     \<Rightarrow> 'v option outcome \<times> ('s, 'v) di_state" where
  "call_factory rec sc f st =
     (case fa_sig f of
        None \<Rightarrow> (Raise (resolution_error ''Cannot introspect signature''), st)
      | Some ps \<Rightarrow>
          (case di_args rec sc ps [] st of
             (Ret kwargs, st') \<Rightarrow>
               (case fa_call f kwargs (ds_world st') of
                  (Inr v, w) \<Rightarrow> (Ret v, st'\<lparr>ds_world := w\<rparr>)
                | (Inl e, w) \<Rightarrow> (Raise e, st'\<lparr>ds_world := w\<rparr>))
           | (oc, st') \<Rightarrow> (outcome_cast oc, st')))"

definition provide ::
  "('s, 'v) resolver \<Rightarrow> bool \<Rightarrow> ('s, 'v) provider \<Rightarrow> ('s, 'v) di_state
     \<Rightarrow> 'v option outcome \<times> ('s, 'v) di_state" where
  "provide rec sc p st =
     (case p of
        FactoryProvider k l t f \<Rightarrow> call_factory rec sc f st
      | InstanceProvider k l t v \<Rightarrow> (Ret v, st))"

definition singleton_get :: "di_key \<Rightarrow> ('s, 'v) container \<Rightarrow> 'v option" where
  "singleton_get k c = (case map_of (ct_singletons c) k of None \<Rightarrow> None | Some v \<Rightarrow> v)"

definition produce ::
  "('s, 'v) di_env \<Rightarrow> ('s, 'v) resolver \<Rightarrow> ('s, 'v) provider \<Rightarrow> bool \<Rightarrow> nat \<Rightarrow> ('s, 'v) di_state
     \<Rightarrow> 'v option outcome \<times> ('s, 'v) di_state" where
  "produce env rec p sc owner st =
     (let key = prov_key p
      in case prov_lifetime p of
        SINGLETON \<Rightarrow>
          (case singleton_get key (ds_chain st ! owner) of
             Some v \<Rightarrow> (Ret (Some v), st)
           | None \<Rightarrow>
               if ct_locked (ds_chain st ! owner) then (Deadlock, st)
               else
                 (case provide rec False p (put_container owner (\<lambda>c. c\<lparr>ct_locked := True\<rparr>) st) of
                    (Ret v, st') \<Rightarrow>
                      (Ret v, put_container owner
                        (\<lambda>c. (register_singleton_disposer env v
                           (c\<lparr>ct_singletons := AList.update key v (ct_singletons c)\<rparr>))\<lparr>ct_locked := False\<rparr>) st')
                  | (Raise e, st') \<Rightarrow>
                      (Raise e, put_container owner (\<lambda>c. c\<lparr>ct_locked := False\<rparr>) st')
                  | (oc, st') \<Rightarrow> (outcome_cast oc, st')))
      | SCOPED \<Rightarrow>
          (if \<not> sc then (Raise (resolution_error ''is scoped but no scope is active''), st)
           else case scope_get key (ds_scope st) of
             Some v \<Rightarrow> (Ret (Some v), st)
           | None \<Rightarrow>
               (case provide rec False p st of
                  (Ret v, st') \<Rightarrow>
                    (case scope_set key v (ds_scope st') of
                       Inl e \<Rightarrow> (Raise e, st')
                     | Inr s1 \<Rightarrow>
                         (case maybe_register_scope_disposer env v s1 of
                            Inl e \<Rightarrow> (Raise e, st'\<lparr>ds_scope := s1\<rparr>)
                          | Inr s2 \<Rightarrow> (Ret v, st'\<lparr>ds_scope := s2\<rparr>)))
                | (oc, st') \<Rightarrow> (oc, st')))
      | TRANSIENT \<Rightarrow> provide rec sc p st)"

text \<open>\<open>in_flight.discard(key)\<close> in the \<open>finally\<close> of \<open>_resolve\<close>.\<close>

definition leave_flight :: "di_key \<Rightarrow> ('s, 'v) di_state \<Rightarrow> ('s, 'v) di_state" where
  "leave_flight key st = st\<lparr>ds_flight := removeAll key (ds_flight st)\<rparr>"

definition auto_provider :: "('s, 'v) di_env \<Rightarrow> di_key \<Rightarrow> ('s, 'v) provider option" where
  "auto_provider env key =
     (case key of
        KClass c \<Rightarrow> Some (FactoryProvider key TRANSIENT [] (env_class env c))
      | KName n \<Rightarrow> None)"

definition lookup_provider ::
  "('s, 'v) di_env \<Rightarrow> ('s, 'v) chain \<Rightarrow> di_key \<Rightarrow> (('s, 'v) provider \<times> nat) option" where
  "lookup_provider env chain key =
     (case find_provider_with_owner chain key of
        Some po \<Rightarrow> Some po
      | None \<Rightarrow> map_option (\<lambda>p. (p, 0)) (auto_provider env key))"

fun di_resolve :: "('s, 'v) di_env \<Rightarrow> nat \<Rightarrow> ('s, 'v) resolver" where
  "di_resolve env 0 key sc st = (OutOfFuel, st)"
| "di_resolve env (Suc n) key sc st =
     (if key \<in> set (ds_flight st)
      then (Raise (resolution_error ''Cyclic dependency detected''), st)
      else case lookup_provider env (ds_chain st) key of
        None \<Rightarrow>
          (Raise (resolution_error ''No provider registered and key is not a constructible class.''), st)
      | Some (p, owner) \<Rightarrow>
          (case produce env (di_resolve env n) p sc owner (st\<lparr>ds_flight := key # ds_flight st\<rparr>) of
             (oc, st') \<Rightarrow> (oc, leave_flight key st')))"

section \<open>Overrides and teardown\<close>

text \<open>The two halves of the \<open>override\<close> context manager, and a body between them.\<close>

definition override_enter ::
  "di_key \<Rightarrow> ('s, 'v) impl \<Rightarrow> lifetime \<Rightarrow> ('s, 'v) container \<Rightarrow> exn + ('s, 'v) container" where
  "override_enter key impl lifetime c =
     (let c1 = c\<lparr>ct_singletons := AList.delete key (ct_singletons c)\<rparr>
      in case make_provider key impl lifetime [] of
           Inl e \<Rightarrow> Inl e
         | Inr p \<Rightarrow> Inr (c1\<lparr>ct_overrides := AList.update key p (ct_overrides c)\<rparr>))"

definition override_exit ::
  "di_key \<Rightarrow> ('s, 'v) provider option \<Rightarrow> 'v option \<Rightarrow> ('s, 'v) container \<Rightarrow> ('s, 'v) container" where
  "override_exit key previous prev_singleton c =
     c\<lparr>ct_overrides := (case previous of
          None \<Rightarrow> AList.delete key (ct_overrides c)
        | Some p \<Rightarrow> AList.update key p (ct_overrides c)),
       ct_singletons := (case prev_singleton of
          Some v \<Rightarrow> AList.update key (Some v) (ct_singletons c)
        | None \<Rightarrow> AList.delete key (ct_singletons c))\<rparr>"

definition with_override ::
  "di_key \<Rightarrow> ('s, 'v) impl \<Rightarrow> lifetime \<Rightarrow> (('s, 'v) container, 'a) eff \<Rightarrow> (('s, 'v) container, 'a) eff" where
  "with_override key impl lifetime body c =
     (let previous = map_of (ct_overrides c) key;
          prev_singleton = singleton_get key c
      in case override_enter key impl lifetime c of
           Inl e \<Rightarrow>
             (Inl e, override_exit key previous prev_singleton
                (c\<lparr>ct_singletons := AList.delete key (ct_singletons c)\<rparr>))
         | Inr c1 \<Rightarrow>
             (case body c1 of (r, c2) \<Rightarrow> (r, override_exit key previous prev_singleton c2)))"

definition di_aclose :: "('s \<times> ('s, 'v) container, unit) eff" where
  "di_aclose st =
     (case st of
        (s, c) \<Rightarrow>
          (case run_disposers (rev (ct_disposers c)) s of
             (es, s') \<Rightarrow>
               ((if es = [] then Inr () else Inl (ExceptionGroup ''errors disposing singletons'' es)),
                (s', c\<lparr>ct_disposers := [], ct_singletons := []\<rparr>))))"

section \<open>What a resolution leaves alone\<close>

definition regs :: "('s, 'v) chain \<Rightarrow> ((di_key \<times> ('s, 'v) provider) list \<times> (di_key \<times> ('s, 'v) provider) list) list" where
  "regs ch = map (\<lambda>c. (ct_overrides c, ct_providers c)) ch"

definition locks :: "('s, 'v) chain \<Rightarrow> bool list" where
  "locks ch = map ct_locked ch"

text \<open>Registrations and overrides stay, the keys in flight are restored, and unless the
  task hangs every lock is as it was.\<close>

definition frame :: "('s, 'v) di_state \<Rightarrow> 'a outcome \<Rightarrow> ('s, 'v) di_state \<Rightarrow> bool" where
  "frame st oc st' \<longleftrightarrow>
     regs (ds_chain st') = regs (ds_chain st) \<and> ds_flight st' = ds_flight st \<and>
     ((case oc of Ret v \<Rightarrow> True | Raise e \<Rightarrow> True | _ \<Rightarrow> False) \<longrightarrow>
        locks (ds_chain st') = locks (ds_chain st))"

definition framed :: "('s, 'v) resolver \<Rightarrow> bool" where
  "framed rec \<longleftrightarrow> (\<forall>key sc st oc st'. rec key sc st = (oc, st') \<longrightarrow> frame st oc st')"

lemma find_provider_regs:
  "regs ch = regs ch' \<Longrightarrow> find_provider_at i ch key = find_provider_at i ch' key"
proof (induction ch arbitrary: i ch')
  case Nil
  then show ?case by (simp add: regs_def)
next
  case (Cons c ch)
  then obtain c' cs' where ch': "ch' = c' # cs'" by (cases ch') (auto simp: regs_def)
  with Cons show ?case by (auto simp: regs_def split: option.split)
qed

lemma lookup_provider_regs: "regs ch = regs ch' \<Longrightarrow> lookup_provider env ch key = lookup_provider env ch' key"
  using find_provider_regs [of ch ch' 0 key] by (simp add: lookup_provider_def find_provider_with_owner_def)

lemma find_provider_bound:
  "find_provider_at i ch key = Some (p, j) \<Longrightarrow> i \<le> j \<and> j < i + length ch"
  by (induction ch arbitrary: i) (force split: option.splits)+

lemma frame_refl [simp]: "frame st oc st"
  by (simp add: frame_def)

lemma frame_trans:
  "frame st (Ret v) st1 \<Longrightarrow> frame st1 oc st2 \<Longrightarrow> frame st oc st2"
  by (auto simp: frame_def split: outcome.splits)

lemma frame_cast: "frame st oc st' \<Longrightarrow> (\<And>v. oc \<noteq> Ret v) \<Longrightarrow> frame st (outcome_cast oc) st'"
  by (cases oc) (auto simp: frame_def)

lemma frame_raise: "frame st (Raise e) st1 \<Longrightarrow> frame st1 oc st2 \<Longrightarrow> frame st oc st2"
  by (auto simp: frame_def split: outcome.splits)

lemma frame_world [simp]: "frame st oc (st'\<lparr>ds_world := w\<rparr>) = frame st oc st'"
  "frame st oc (st'\<lparr>ds_scope := x\<rparr>) = frame st oc st'"
  by (simp_all add: frame_def)

lemma di_args_frame:
  assumes "framed rec" "di_args rec sc ps kwargs st = (oc, st')"
  shows "frame st oc st'"
  using assms(2)
proof (induction ps arbitrary: kwargs st)
  case (Cons p ps)
  show ?case
  proof (cases "pa_name p = ''self'' \<or> pa_variadic p")
    case True
    with Cons show ?thesis by simp
  next
    case False
    show ?thesis
    proof (cases "pa_annot p")
      case (AKey k)
      obtain o1 st1 where r: "rec k sc st = (o1, st1)" by (cases "rec k sc st")
      then have f: "frame st o1 st1" using assms(1) by (simp add: framed_def)
      show ?thesis
        using Cons.prems Cons.IH False AKey r f
        by (cases o1) (auto split: if_splits intro: frame_trans frame_raise simp: frame_def)
    qed (use Cons False in \<open>auto split: if_splits\<close>)
  qed
qed simp

lemma provide_frame:
  assumes "framed rec" "provide rec sc p st = (oc, st')"
  shows "frame st oc st'"
proof (cases p)
  case (FactoryProvider k l t f)
  show ?thesis
  proof (cases "fa_sig f")
    case None
    with FactoryProvider assms(2) show ?thesis by (auto simp: provide_def call_factory_def)
  next
    case (Some ps)
    obtain o1 st1 where a: "di_args rec sc ps [] st = (o1, st1)" by (cases "di_args rec sc ps [] st")
    note fr = di_args_frame [OF assms(1) a]
    show ?thesis
      using FactoryProvider assms(2) Some a fr
      by (cases o1) (auto simp: provide_def call_factory_def frame_def split: sum.splits prod.splits)
  qed
qed (use assms(2) in \<open>auto simp: provide_def\<close>)

lemma put_container_simps [simp]:
  "ds_flight (put_container i f st) = ds_flight st" "ds_scope (put_container i f st) = ds_scope st"
  "ds_world (put_container i f st) = ds_world st"
  "ds_chain (put_container i f st) = (ds_chain st)[i := f (ds_chain st ! i)]"
  by (simp_all add: put_container_def)

lemma map_update_same: "g (f (xs ! i)) = g (xs ! i) \<Longrightarrow> map g (xs[i := f (xs ! i)]) = map g xs"
  by (cases "i < length xs") (simp_all add: map_update list_update_same_conv list_update_beyond)

lemma regs_put:
  assumes "\<And>c. ct_overrides (f c) = ct_overrides c" "\<And>c. ct_providers (f c) = ct_providers c"
  shows "regs (ch[i := f (ch ! i)]) = regs ch"
  unfolding regs_def by (rule map_update_same) (simp add: assms)

lemma locks_put: "locks (ch[i := c]) = (locks ch)[i := ct_locked c]"
  by (simp add: locks_def map_update)

lemma register_singleton_disposer_simps [simp]:
  "ct_overrides (register_singleton_disposer env v c) = ct_overrides c"
  "ct_providers (register_singleton_disposer env v c) = ct_providers c"
  "ct_singletons (register_singleton_disposer env v c) = ct_singletons c"
  by (simp_all add: register_singleton_disposer_def split: option.split)

lemma produce_frame:
  assumes "framed rec" "produce env rec p sc owner st = (oc, st')" "owner < length (ds_chain st)"
  shows "frame st oc st'"
proof (cases "prov_lifetime p")
  case SINGLETON
  show ?thesis
  proof (cases "singleton_get (prov_key p) (ds_chain st ! owner)")
    case (Some v)
    with SINGLETON assms(2) show ?thesis by (auto simp: produce_def)
  next
    case None
    show ?thesis
    proof (cases "ct_locked (ds_chain st ! owner)")
      case True
      with SINGLETON None assms(2) show ?thesis by (auto simp: produce_def)
    next
      case False
      let ?st = "put_container owner (\<lambda>c. c\<lparr>ct_locked := True\<rparr>) st"
      obtain o1 st1 where pr: "provide rec False p ?st = (o1, st1)" by (cases "provide rec False p ?st")
      from provide_frame [OF assms(1) pr] have f: "frame ?st o1 st1" .
      have r: "regs (ds_chain ?st) = regs (ds_chain st)" by (simp add: regs_put)
      have l: "(locks (ds_chain ?st))[owner := False] = locks (ds_chain st)"
        using False assms(3) by (simp add: locks_put) (simp add: locks_def list_update_same_conv)
      have fin: "frame st (oc' :: 'b option outcome) (put_container owner g st1)"
        if "\<And>c. ct_overrides (g c) = ct_overrides c" "\<And>c. ct_providers (g c) = ct_providers c"
          "\<And>c. \<not> ct_locked (g c)" "locks (ds_chain st1) = locks (ds_chain ?st)" for g oc'
        using that f r l by (auto simp: frame_def regs_put locks_put)
      show ?thesis
      proof (cases o1)
        case (Ret v)
        then have "locks (ds_chain st1) = locks (ds_chain ?st)" using f by (simp add: frame_def)
        with SINGLETON None False assms(2) pr Ret show ?thesis by (auto simp: produce_def intro!: fin)
      next
        case (Raise e)
        then have "locks (ds_chain st1) = locks (ds_chain ?st)" using f by (simp add: frame_def)
        with SINGLETON None False assms(2) pr Raise show ?thesis by (auto simp: produce_def intro!: fin)
      qed (use SINGLETON None False assms(2) pr f r in \<open>auto simp: produce_def frame_def\<close>)
    qed
  qed
next
  case SCOPED
  obtain o1 st1 where pr: "provide rec False p st = (o1, st1)" by (cases "provide rec False p st")
  from provide_frame [OF assms(1) pr] have f: "frame st o1 st1" .
  show ?thesis
    using SCOPED assms(2) pr f
    by (cases o1) (auto simp: produce_def Let_def frame_def split: if_splits option.splits sum.splits)
next
  case TRANSIENT
  with assms(2) provide_frame [OF assms(1)] show ?thesis by (simp add: produce_def)
qed

lemma lookup_bound:
  "lookup_provider env ch key = Some (p, i) \<Longrightarrow> i < length ch \<or> prov_lifetime p = TRANSIENT"
  using find_provider_bound [of 0 ch key p i]
  by (auto simp: lookup_provider_def find_provider_with_owner_def auto_provider_def
      split: option.splits di_key.splits)

lemma di_resolve_framed: "framed (di_resolve env n)"
proof (induction n)
  case 0
  show ?case by (simp add: framed_def)
next
  case (Suc n)
  show ?case unfolding framed_def
  proof (intro allI impI)
    fix key sc st oc st'
    assume r: "di_resolve env (Suc n) key sc st = (oc, st')"
    show "frame st oc st'"
    proof (cases "key \<in> set (ds_flight st)")
      case True
      with r show ?thesis by auto
    next
      case False
      show ?thesis
      proof (cases "lookup_provider env (ds_chain st) key")
        case None
        with r False show ?thesis by auto
      next
        case (Some po)
        obtain p owner where po: "po = (p, owner)" by (cases po)
        let ?st = "st\<lparr>ds_flight := key # ds_flight st\<rparr>"
        obtain st1 where pr: "produce env (di_resolve env n) p sc owner ?st = (oc, st1)"
          and st': "st' = leave_flight key st1"
          using r False Some po by (auto split: prod.splits)
        have "frame ?st oc st1"
        proof (cases "prov_lifetime p = TRANSIENT")
          case True
          with pr provide_frame [OF Suc] show ?thesis by (simp add: produce_def)
        next
          case False
          with lookup_bound Some po have "owner < length (ds_chain ?st)" by fastforce
          with produce_frame [OF Suc pr] show ?thesis by simp
        qed
        with st' False show ?thesis by (auto simp: frame_def leave_flight_def)
      qed
    qed
  qed
qed

section \<open>Fuel\<close>

text \<open>The keys a provider asks for, and a set of keys closed under asking.\<close>

definition asks :: "('s, 'v) provider \<Rightarrow> di_key set" where
  "asks p =
     (case p of
        FactoryProvider k l t f \<Rightarrow>
          (case fa_sig f of None \<Rightarrow> {} | Some ps \<Rightarrow> {k'. \<exists>q \<in> set ps. pa_annot q = AKey k'})
      | InstanceProvider k l t v \<Rightarrow> {})"

definition closed_keys :: "('s, 'v) di_env \<Rightarrow> ('s, 'v) chain \<Rightarrow> di_key set \<Rightarrow> bool" where
  "closed_keys env ch K \<longleftrightarrow>
     (\<forall>key\<in>K. case lookup_provider env ch key of None \<Rightarrow> True | Some (p, i) \<Rightarrow> asks p \<subseteq> K)"

definition fueled ::
  "('s, 'v) resolver \<Rightarrow> di_key set \<Rightarrow> ('s, 'v) chain \<Rightarrow> di_key list \<Rightarrow> bool" where
  "fueled rec K ch fl \<longleftrightarrow>
     (\<forall>key\<in>K. \<forall>sc st. regs (ds_chain st) = regs ch \<and> ds_flight st = fl \<longrightarrow>
        fst (rec key sc st) \<noteq> OutOfFuel)"

lemma di_args_fueled:
  assumes "framed rec" "fueled rec K ch fl"
    and "regs (ds_chain st) = regs ch" "ds_flight st = fl"
    and "\<And>q k. q \<in> set ps \<Longrightarrow> pa_annot q = AKey k \<Longrightarrow> k \<in> K"
  shows "fst (di_args rec sc ps kwargs st) \<noteq> OutOfFuel"
  using assms(3-5)
proof (induction ps arbitrary: kwargs st)
  case (Cons p ps)
  have IH: "fst (di_args rec sc ps kw st') \<noteq> OutOfFuel"
    if "regs (ds_chain st') = regs ch" "ds_flight st' = fl" for kw st'
    by (rule Cons.IH [OF that]) (rule Cons.prems(3), auto)
  show ?case
  proof (cases "\<exists>k. pa_annot p = AKey k \<and> \<not> (pa_name p = ''self'' \<or> pa_variadic p)")
    case True
    then obtain k where k: "pa_annot p = AKey k" "\<not> (pa_name p = ''self'' \<or> pa_variadic p)" by blast
    obtain o1 st1 where r: "rec k sc st = (o1, st1)" by (cases "rec k sc st")
    with assms(1) have f: "frame st o1 st1" by (simp add: framed_def)
    have "k \<in> K" using Cons.prems(3) [of p k] k(1) by simp
    then have "fst (rec k sc st) \<noteq> OutOfFuel"
      using assms(2) Cons.prems(1,2) unfolding fueled_def by blast
    then have "o1 \<noteq> OutOfFuel" using r by simp
    with f IH Cons.prems(1,2) k r show ?thesis
      by (cases o1) (auto simp: frame_def)
  next
    case False
    with IH [OF Cons.prems(1,2)] show ?thesis by (cases "pa_annot p") auto
  qed
qed simp

lemma provide_fueled:
  assumes "framed rec" "fueled rec K ch fl"
    and "regs (ds_chain st) = regs ch" "ds_flight st = fl" "asks p \<subseteq> K"
  shows "fst (provide rec sc p st) \<noteq> OutOfFuel"
proof (cases p)
  case (FactoryProvider k l t f)
  show ?thesis
  proof (cases "fa_sig f")
    case (Some ps)
    have "fst (di_args rec sc ps [] st) \<noteq> OutOfFuel"
      by (rule di_args_fueled [OF assms(1-4)])
        (use assms(5) FactoryProvider Some in \<open>auto simp: asks_def\<close>)
    moreover obtain o1 st1 where "di_args rec sc ps [] st = (o1, st1)"
      by (cases "di_args rec sc ps [] st")
    ultimately show ?thesis using FactoryProvider Some
      by (cases o1) (auto simp: provide_def call_factory_def split: prod.splits sum.splits)
  qed (simp add: FactoryProvider provide_def call_factory_def)
qed (simp add: provide_def)

lemma produce_fueled:
  assumes "framed rec" "fueled rec K ch fl"
    and "regs (ds_chain st) = regs ch" "ds_flight st = fl" "asks p \<subseteq> K"
  shows "fst (produce env rec p sc owner st) \<noteq> OutOfFuel"
proof (cases "prov_lifetime p")
  case SINGLETON
  let ?st = "put_container owner (\<lambda>c. c\<lparr>ct_locked := True\<rparr>) st"
  have "fst (provide rec False p ?st) \<noteq> OutOfFuel"
    using assms by (intro provide_fueled [OF assms(1,2)]) (auto simp: regs_put)
  with SINGLETON show ?thesis
    by (cases "provide rec False p ?st"; cases "fst (provide rec False p ?st)")
      (auto simp: produce_def Let_def split: option.splits)
next
  case SCOPED
  have "fst (provide rec False p st) \<noteq> OutOfFuel" by (rule provide_fueled [OF assms])
  with SCOPED show ?thesis
    by (cases "provide rec False p st"; cases "fst (provide rec False p st)")
      (auto simp: produce_def Let_def split: option.splits sum.splits)
next
  case TRANSIENT
  with provide_fueled [OF assms] show ?thesis by (simp add: produce_def)
qed

lemma di_resolve_fueled:
  fixes env :: "('s, 'v) di_env"
  assumes "finite K" "closed_keys env ch K"
  shows "card (K - set fl) < n \<Longrightarrow> fueled (di_resolve env n) K ch fl"
proof (induction n arbitrary: fl)
  case (Suc n)
  show ?case unfolding fueled_def
  proof (intro ballI allI impI)
    fix key sc and st :: "('s, 'v) di_state"
    assume key: "key \<in> K" and st: "regs (ds_chain st) = regs ch \<and> ds_flight st = fl"
    show "fst (di_resolve env (Suc n) key sc st) \<noteq> OutOfFuel"
    proof (cases "key \<in> set fl \<or> lookup_provider env (ds_chain st) key = None")
      case True
      with st show ?thesis by (auto split: option.splits)
    next
      case False
      then obtain p owner where po: "lookup_provider env (ds_chain st) key = Some (p, owner)"
        by auto
      have "lookup_provider env ch key = Some (p, owner)"
        using po lookup_provider_regs [of "ds_chain st" ch] st by metis
      with assms(2) key have asks: "asks p \<subseteq> K" by (force simp: closed_keys_def)
      have "K - set (key # fl) \<subset> K - set fl" using key False by auto
      then have "card (K - set (key # fl)) < card (K - set fl)"
        using assms(1) by (intro psubset_card_mono) auto
      with Suc.prems have "card (K - set (key # fl)) < n" by linarith
      from produce_fueled [OF di_resolve_framed Suc.IH [OF this], of "st\<lparr>ds_flight := key # ds_flight st\<rparr>" p]
      have "fst (produce env (di_resolve env n) p sc owner (st\<lparr>ds_flight := key # ds_flight st\<rparr>)) \<noteq> OutOfFuel"
        using st asks by auto
      with False po st show ?thesis by (auto split: prod.splits)
    qed
  qed
qed simp

section \<open>Locks\<close>

text \<open>A key whose resolution takes the lock of its owner: a singleton that is not built yet.\<close>

definition needs_lock :: "('s, 'v) di_env \<Rightarrow> ('s, 'v) chain \<Rightarrow> di_key \<Rightarrow> bool" where
  "needs_lock env ch key \<longleftrightarrow>
     (case lookup_provider env ch key of
        None \<Rightarrow> False
      | Some (p, i) \<Rightarrow> prov_lifetime p = SINGLETON \<and> singleton_get (prov_key p) (ch ! i) = None)"

text \<open>
  No lock is held, no key of \<open>L\<close> needs one, and whatever a key of \<open>K\<close> that needs one asks for
  is in \<open>L\<close>: no singleton is built while another one is.
\<close>

definition flat_singletons ::
  "('s, 'v) di_env \<Rightarrow> ('s, 'v) chain \<Rightarrow> di_key set \<Rightarrow> di_key set \<Rightarrow> bool" where
  "flat_singletons env ch K L \<longleftrightarrow>
     True \<notin> set (locks ch) \<and> closed_keys env ch L \<and> (\<forall>k\<in>L. \<not> needs_lock env ch k) \<and>
     (\<forall>k\<in>K. needs_lock env ch k \<longrightarrow> (\<forall>p i. lookup_provider env ch k = Some (p, i) \<longrightarrow> asks p \<subseteq> L))"

text \<open>A resolution that does not hang keeps \<open>I\<close> unless it lacks fuel.\<close>

definition passes :: "(('s, 'v) di_state \<Rightarrow> bool) \<Rightarrow> 'a outcome \<times> ('s, 'v) di_state \<Rightarrow> bool" where
  "passes I r \<longleftrightarrow> fst r \<noteq> Deadlock \<and> (fst r \<noteq> OutOfFuel \<longrightarrow> I (snd r))"

definition passing :: "('s, 'v) resolver \<Rightarrow> di_key set \<Rightarrow> (('s, 'v) di_state \<Rightarrow> bool) \<Rightarrow> bool" where
  "passing rec K I \<longleftrightarrow> (\<forall>k\<in>K. \<forall>sc st. I st \<longrightarrow> passes I (rec k sc st))"

lemma passes_pair: "passes I (oc, st) \<longleftrightarrow> oc \<noteq> Deadlock \<and> (oc \<noteq> OutOfFuel \<longrightarrow> I st)"
  by (simp add: passes_def)

lemma di_args_passes:
  assumes rec: "passing rec K I" and i: "I st" and k: "\<And>q k. q \<in> set ps \<Longrightarrow> pa_annot q = AKey k \<Longrightarrow> k \<in> K"
  shows "passes I (di_args rec sc ps kwargs st)"
  using i k
proof (induction ps arbitrary: kwargs st)
  case Nil
  then show ?case by (simp add: passes_pair)
next
  case (Cons p ps)
  have IH: "passes I (di_args rec sc ps kw st')" if "I st'" for kw st'
    by (rule Cons.IH [OF that]) (rule Cons.prems(2), auto)
  show ?case
  proof (cases "\<exists>k. pa_annot p = AKey k \<and> \<not> (pa_name p = ''self'' \<or> pa_variadic p)")
    case True
    then obtain k where k: "pa_annot p = AKey k" "\<not> (pa_name p = ''self'' \<or> pa_variadic p)" by blast
    obtain o1 st1 where r: "rec k sc st = (o1, st1)" by (cases "rec k sc st")
    have "k \<in> K" using Cons.prems(2) [of p k] k(1) by simp
    then have "passes I (o1, st1)" using rec Cons.prems(1) r unfolding passing_def by metis
    with IH k r show ?thesis by (cases o1) (auto simp: passes_pair)
  next
    case False
    with IH [OF Cons.prems(1)] Cons.prems(1) show ?thesis
      by (cases "pa_annot p") (auto simp: passes_pair)
  qed
qed

lemma provide_passes:
  assumes rec: "passing rec K I" and i: "I st" and k: "asks p \<subseteq> K" and w: "\<And>st w. I (st\<lparr>ds_world := w\<rparr>) = I st"
  shows "passes I (provide rec sc p st)"
proof (cases p)
  case (FactoryProvider k l t f)
  show ?thesis
  proof (cases "fa_sig f")
    case (Some ps)
    have "passes I (di_args rec sc ps [] st)"
      by (rule di_args_passes [OF rec i]) (use k FactoryProvider Some in \<open>auto simp: asks_def\<close>)
    moreover obtain o1 st1 where "di_args rec sc ps [] st = (o1, st1)"
      by (cases "di_args rec sc ps [] st")
    ultimately show ?thesis using FactoryProvider Some w
      by (cases o1) (auto simp: passes_pair provide_def call_factory_def split: prod.splits sum.splits)
  qed (simp add: FactoryProvider provide_def call_factory_def passes_pair i)
qed (simp add: provide_def passes_pair i)

lemma needs_lock_mono:
  assumes "regs ch' = regs ch" "\<And>i k. singleton_get k (ch ! i) \<noteq> None \<Longrightarrow> singleton_get k (ch' ! i) \<noteq> None"
    and "needs_lock env ch' key"
  shows "needs_lock env ch key"
proof -
  from assms(3) obtain p i where l: "lookup_provider env ch' key = Some (p, i)" "prov_lifetime p = SINGLETON"
    "singleton_get (prov_key p) (ch' ! i) = None"
    by (auto simp: needs_lock_def split: option.splits)
  from l(3) assms(2) [where i = i and k = "prov_key p"] have "singleton_get (prov_key p) (ch ! i) = None" by blast
  with l lookup_provider_regs [OF assms(1), of env key] show ?thesis by (simp add: needs_lock_def)
qed

lemma closed_keys_regs: "regs ch = regs ch' \<Longrightarrow> closed_keys env ch K = closed_keys env ch' K"
  using lookup_provider_regs [of ch ch' env] by (simp add: closed_keys_def)

text \<open>A provider outside of the singletons to build, and the step from \<open>produce\<close> to \<open>_resolve\<close>.\<close>

lemma produce_passes:
  assumes rec: "passing rec K I" and i: "I st" and k: "asks p \<subseteq> K"
    and w: "\<And>st w. I (st\<lparr>ds_world := w\<rparr>) = I st" "\<And>st s. I (st\<lparr>ds_scope := s\<rparr>) = I st"
    and b: "prov_lifetime p = SINGLETON \<Longrightarrow> singleton_get (prov_key p) (ds_chain st ! owner) \<noteq> None"
  shows "passes I (produce env rec p sc owner st)"
proof (cases "prov_lifetime p")
  case SINGLETON
  with b i show ?thesis by (auto simp: produce_def passes_pair)
next
  case SCOPED
  have "passes I (provide rec False p st)" by (rule provide_passes [OF rec i k w(1)])
  with SCOPED i w(2) show ?thesis
    by (cases "provide rec False p st"; cases "fst (provide rec False p st)")
      (auto simp: produce_def passes_pair Let_def split: option.splits sum.splits)
next
  case TRANSIENT
  with provide_passes [OF rec i k w(1)] show ?thesis by (simp add: produce_def)
qed

lemma resolve_passes:
  assumes "I st" and f: "\<And>st fl. I (st\<lparr>ds_flight := fl\<rparr>) = I st"
    and p: "\<And>p i. lookup_provider env (ds_chain st) key = Some (p, i) \<Longrightarrow>
      passes I (produce env (di_resolve env n) p sc i (st\<lparr>ds_flight := key # ds_flight st\<rparr>))"
  shows "passes I (di_resolve env (Suc n) key sc st)"
proof (cases "key \<in> set (ds_flight st) \<or> lookup_provider env (ds_chain st) key = None")
  case True
  with assms(1) show ?thesis by (auto simp: passes_pair split: option.splits)
next
  case False
  then obtain q i where l: "lookup_provider env (ds_chain st) key = Some (q, i)" by auto
  from p [OF l] False l f show ?thesis
    by (auto simp: passes_def leave_flight_def split: prod.splits)
qed

text \<open>Keys that need no lock leave the containers alone.\<close>

lemma resolve_calm:
  assumes "closed_keys env ch L" "\<forall>k\<in>L. \<not> needs_lock env ch k"
  shows "passing (di_resolve env n) L (\<lambda>st. ds_chain st = ch)"
proof (induction n)
  case 0
  show ?case by (simp add: passing_def passes_pair)
next
  case (Suc n)
  show ?case unfolding passing_def
  proof (intro ballI allI impI resolve_passes)
    fix key sc st p i
    assume k: "key \<in> L" and c: "ds_chain st = ch"
      and l: "lookup_provider env (ds_chain (st :: ('a, 'b) di_state)) key = Some (p, i)"
    have "asks p \<subseteq> L" using assms(1) k l c by (force simp: closed_keys_def)
    moreover have "prov_lifetime p = SINGLETON \<Longrightarrow> singleton_get (prov_key p) (ch ! i) \<noteq> None"
      using assms(2) k l c by (auto simp: needs_lock_def)
    ultimately show "passes (\<lambda>st. ds_chain st = ch)
        (produce env (di_resolve env n) p sc i (st\<lparr>ds_flight := key # ds_flight st\<rparr>))"
      using c by (intro produce_passes [OF Suc]) simp_all
  qed simp_all
qed

lemma flat_singletons_mono:
  assumes f: "flat_singletons env ch K L" and r: "regs ch' = regs ch" and l: "True \<notin> set (locks ch')"
    and m: "\<And>i k. singleton_get k (ch ! i) \<noteq> None \<Longrightarrow> singleton_get k (ch' ! i) \<noteq> None"
  shows "flat_singletons env ch' K L"
proof -
  have n: "needs_lock env ch' k \<Longrightarrow> needs_lock env ch k" for k
    by (rule needs_lock_mono [OF r m])
  from f n show ?thesis
    by (simp add: flat_singletons_def l closed_keys_regs [OF r] lookup_provider_regs [OF r]) blast
qed

text \<open>A singleton that is built where no lock is held: what it asks for takes no lock, and the
  container only gains the object.\<close>

lemma produce_singleton:
  assumes f: "flat_singletons env (ds_chain st) K L" and i: "i < length (ds_chain st)"
    and s: "prov_lifetime p = SINGLETON" "singleton_get (prov_key p) (ds_chain st ! i) = None"
    and a: "asks p \<subseteq> L"
  shows "passes (\<lambda>st'. regs (ds_chain st') = regs (ds_chain st) \<and> flat_singletons env (ds_chain st') K L)
    (produce env (di_resolve env n) p sc i st)"
proof -
  let ?st = "put_container i (\<lambda>c. c\<lparr>ct_locked := True\<rparr>) st"
  have r: "regs (ds_chain ?st) = regs (ds_chain st)" by (simp add: regs_put)
  have free: "\<not> ct_locked (ds_chain st ! i)"
    using f i by (auto simp: flat_singletons_def locks_def)
  have "closed_keys env (ds_chain ?st) L" using f closed_keys_regs [OF r] by (simp add: flat_singletons_def)
  moreover have same: "singleton_get k (ds_chain ?st ! j) = singleton_get k (ds_chain st ! j)" for j k
    using i by (cases "j = i") (simp_all add: singleton_get_def)
  have "\<not> needs_lock env (ds_chain ?st) k" if "k \<in> L" for k
    using f that needs_lock_mono [OF r] same unfolding flat_singletons_def by metis
  ultimately have calm: "passing (di_resolve env n) L (\<lambda>s. ds_chain s = ds_chain ?st)"
    by (intro resolve_calm) simp_all
  obtain oc st1 where pr: "provide (di_resolve env n) False p ?st = (oc, st1)" by (rule prod.exhaust)
  have "passes (\<lambda>s. ds_chain s = ds_chain ?st) (provide (di_resolve env n) False p ?st)"
    by (rule provide_passes [OF calm _ a]) simp_all
  with pr have oc: "oc \<noteq> Deadlock" "oc \<noteq> OutOfFuel \<Longrightarrow> ds_chain st1 = ds_chain ?st"
    by (auto simp: passes_pair)
  have fin: "regs ch' = regs (ds_chain st) \<and> flat_singletons env ch' K L"
    if c: "ch' = (ds_chain st)[i := g (ds_chain st ! i)]" and
      g: "\<And>c. ct_overrides (g c) = ct_overrides c" "\<And>c. ct_providers (g c) = ct_providers c" "\<And>c. \<not> ct_locked (g c)"
      and m: "\<And>k. singleton_get k (ds_chain st ! i) \<noteq> None \<Longrightarrow> singleton_get k (g (ds_chain st ! i)) \<noteq> None"
    for g ch'
  proof -
    have r': "regs ch' = regs (ds_chain st)" unfolding c by (rule regs_put [OF g(1,2)])
    have "True \<notin> set (locks ch')"
      using f g(3) set_update_subset_insert [of "locks (ds_chain st)" i False]
      unfolding c locks_put flat_singletons_def by auto
    moreover have "singleton_get k (ds_chain st ! j) \<noteq> None \<Longrightarrow> singleton_get k (ch' ! j) \<noteq> None" for j k
      using i m unfolding c by (cases "j = i") simp_all
    ultimately show ?thesis using flat_singletons_mono [OF f r'] r' by blast
  qed
  show ?thesis
  proof (cases oc)
    case (Ret v)
    let ?g = "\<lambda>c. (register_singleton_disposer env v
        (c\<lparr>ct_locked := True, ct_singletons := AList.update (prov_key p) v (ct_singletons c)\<rparr>))\<lparr>ct_locked := False\<rparr>"
    have up: "singleton_get k (ds_chain st ! i) \<noteq> None \<Longrightarrow> singleton_get k (?g (ds_chain st ! i)) \<noteq> None" for k
      using s(2) by (auto simp: singleton_get_def update_conv)
    from Ret pr oc(2) s free i fin [of _ ?g, OF refl _ _ _ up] show ?thesis
      by (simp add: produce_def passes_pair)
  next
    case (Raise e)
    from Raise pr oc(2) s free i fin [of _ "\<lambda>c. c\<lparr>ct_locked := False\<rparr>", OF refl] show ?thesis
      by (simp add: produce_def passes_pair singleton_get_def)
  qed (use pr oc s free in \<open>simp_all add: produce_def passes_pair\<close>)
qed

lemma resolve_flat:
  fixes env :: "('s, 'v) di_env"
  assumes c: "closed_keys env ch K"
  shows "passing (di_resolve env n) K
    (\<lambda>st. regs (ds_chain st) = regs ch \<and> flat_singletons env (ds_chain st) K L)"
proof (induction n)
  case 0
  show ?case by (simp add: passing_def passes_pair)
next
  case (Suc n)
  let ?I = "\<lambda>st :: ('s, 'v) di_state. regs (ds_chain st) = regs ch \<and> flat_singletons env (ds_chain st) K L"
  show ?case unfolding passing_def
  proof (intro ballI allI impI resolve_passes)
    fix key sc p i and st :: "('s, 'v) di_state"
    let ?st = "st\<lparr>ds_flight := key # ds_flight st\<rparr>"
    assume k: "key \<in> K" and I: "?I st"
      and l: "lookup_provider env (ds_chain st) key = Some (p, i)"
    have "lookup_provider env ch key = Some (p, i)" using l lookup_provider_regs I by metis
    with c k have a: "asks p \<subseteq> K" by (force simp: closed_keys_def)
    show "passes ?I (produce env (di_resolve env n) p sc i ?st)"
    proof (cases "needs_lock env (ds_chain st) key")
      case True
      with l have s: "prov_lifetime p = SINGLETON" "singleton_get (prov_key p) (ds_chain st ! i) = None"
        by (auto simp: needs_lock_def)
      have "asks p \<subseteq> L" using I k True l unfolding flat_singletons_def by blast
      moreover have "i < length (ds_chain ?st)" using lookup_bound [OF l] s(1) by simp
      ultimately show ?thesis using produce_singleton [of env ?st K L i p n sc] I s by simp
    next
      case False
      with l have "prov_lifetime p = SINGLETON \<Longrightarrow> singleton_get (prov_key p) (ds_chain ?st ! i) \<noteq> None"
        by (auto simp: needs_lock_def)
      then show ?thesis using I a by (intro produce_passes [OF Suc]) simp_all
    qed
  qed simp_all
qed

section \<open>The dependency graph of the witnesses\<close>

text \<open>
  A small application: a settings object, a pool that needs it, a service that needs the
  pool, and a pair of classes that need each other. Objects are numbers, the world counts
  the objects built so far.
\<close>

definition dep :: "string \<Rightarrow> param" where
  "dep c = \<lparr>pa_name = c, pa_annot = AKey (KClass c), pa_default = False, pa_variadic = False\<rparr>"

definition app_factory :: "param list \<Rightarrow> (nat, nat) factory" where
  "app_factory ps = \<lparr>fa_sig = Some ps, fa_async = False, fa_call = (\<lambda>kw w. (Inr (Some w), Suc w))\<rparr>"

definition app_class :: "string \<Rightarrow> (nat, nat) factory" where
  "app_class c =
     (if c = ''Pool'' then app_factory [dep ''Settings'']
      else if c = ''Service'' then app_factory [dep ''Pool'']
      else if c = ''A'' then app_factory [dep ''B'']
      else if c = ''B'' then app_factory [dep ''A'']
      else app_factory [])"

definition app_env :: "(nat, nat) di_env" where
  "app_env = \<lparr>env_class = app_class, env_disposer = (\<lambda>v. None)\<rparr>"

definition app_container :: "lifetime \<Rightarrow> (nat, nat) container" where
  "app_container l =
     (container_new ''root'')
       \<lparr>ct_providers :=
          [(KClass ''Settings'', FactoryProvider (KClass ''Settings'') l [] (app_class ''Settings'')),
           (KClass ''Pool'', FactoryProvider (KClass ''Pool'') l [] (app_class ''Pool''))]\<rparr>"

definition app_state :: "lifetime \<Rightarrow> (nat, nat) di_state" where
  "app_state l =
     \<lparr>ds_chain = [app_container l], ds_flight = [], ds_scope = scope_new ''request'', ds_world = 0\<rparr>"

lemmas app_defs = app_state_def app_container_def container_new_def app_env_def app_class_def
  app_factory_def dep_def scope_new_def

section \<open>Properties\<close>



text \<open>Whatever a resolution does, it leaves every registration and override of the container
  and its ancestors as it was and the set of keys in flight as it was, and when it returns or
  raises, every singleton lock is as it was.\<close>

theorem di_resolve_frame:
  assumes "di_resolve env n key sc st = (oc, st')"
  shows "regs (ds_chain st') = regs (ds_chain st) \<and> ds_flight st' = ds_flight st \<and>
    ((\<exists>v. oc = Ret v) \<or> (\<exists>e. oc = Raise e) \<longrightarrow> locks (ds_chain st') = locks (ds_chain st))"
proof -
  have "frame st oc st'"
    using di_resolve_framed [of env n] assms unfolding framed_def by blast
  then show ?thesis by (auto simp: frame_def)
qed

theorem di_resolve_frame_witness:
  "(case di_resolve app_env 3 (KClass ''Service'') True (app_state TRANSIENT) of
      (oc, st') \<Rightarrow> oc = Ret (Some 2) \<and> locks (ds_chain st') = locks (ds_chain (app_state TRANSIENT)))"
proof -
  obtain st' where r: "di_resolve app_env 3 (KClass ''Service'') True (app_state TRANSIENT) = (Ret (Some 2), st')"
    by (simp add: app_defs numeral_3_eq_3 lookup_provider_def find_provider_with_owner_def
        auto_provider_def produce_def provide_def call_factory_def leave_flight_def Let_def)
  from di_resolve_frame [OF r] r show ?thesis by simp
qed

text \<open>A singleton is built once: after a resolution of a singleton key has returned an
  object, resolving the key again in the same container returns that object, calls no factory
  and changes nothing.\<close>

theorem singleton_resolved_once:
  assumes "lookup_provider env (ds_chain st) key = Some (p, owner)" "prov_lifetime p = SINGLETON"
    and "di_resolve env n key sc st = (Ret (Some v), st')"
  shows "di_resolve env (Suc m) key sc' st' = (Ret (Some v), st')"
proof -
  from assms(3) obtain k where n: "n = Suc k" by (cases n) auto
  have nf: "key \<notin> set (ds_flight st)" using assms(3) n by (auto split: if_splits)
  let ?st = "st\<lparr>ds_flight := key # ds_flight st\<rparr>"
  obtain st1 where pr: "produce env (di_resolve env k) p sc owner ?st = (Ret (Some v), st1)"
    and st': "st' = leave_flight key st1"
    using assms(1,3) n nf by (auto split: prod.splits)
  have b: "owner < length (ds_chain ?st)" using lookup_bound [OF assms(1)] assms(2) by simp
  have fr: "frame ?st (Ret (Some v)) st1" using produce_frame [OF di_resolve_framed pr b] .
  have len: "length (ds_chain st1) = length (ds_chain st)"
    using fr unfolding frame_def regs_def by (metis (no_types, lifting) length_map di_state.select_convs(1) di_state.surjective di_state.update_convs(2))
  have cached: "singleton_get (prov_key p) (ds_chain st1 ! owner) = Some v"
  proof (cases "singleton_get (prov_key p) (ds_chain st ! owner)")
    case (Some w)
    with pr assms(2) show ?thesis by (auto simp: produce_def)
  next
    case None
    let ?g = "\<lambda>c. (register_singleton_disposer env (Some v)
        (c\<lparr>ct_singletons := AList.update (prov_key p) (Some v) (ct_singletons c)\<rparr>))\<lparr>ct_locked := False\<rparr>"
    obtain st2 where st1: "st1 = put_container owner ?g st2"
      using pr None assms(2) by (auto simp: produce_def split: if_splits prod.splits outcome.splits)
    then have "owner < length (ds_chain st2)" using b len by simp
    with st1 show ?thesis by (simp add: singleton_get_def update_conv)
  qed
  have regs: "regs (ds_chain st') = regs (ds_chain st)" and fl: "ds_flight st' = ds_flight st"
    using di_resolve_frame [OF assms(3)] by auto
  have look: "lookup_provider env (ds_chain st') key = Some (p, owner)"
    using lookup_provider_regs [OF regs] assms(1) by simp
  have ch: "ds_chain st' = ds_chain st1" using st' by (simp add: leave_flight_def)
  have "leave_flight key (st'\<lparr>ds_flight := key # ds_flight st'\<rparr>) = st'"
    using nf fl by (simp add: leave_flight_def)
  then show ?thesis
    using look assms(2) cached nf ch fl by (simp add: produce_def)
qed

theorem singleton_resolved_once_witness:
  "\<exists>st'. di_resolve app_env 2 (KClass ''Settings'') True (app_state SINGLETON) = (Ret (Some 0), st') \<and>
     di_resolve app_env 1 (KClass ''Settings'') False st' = (Ret (Some 0), st')"
proof -
  have l: "lookup_provider app_env (ds_chain (app_state SINGLETON)) (KClass ''Settings'') =
      Some (FactoryProvider (KClass ''Settings'') SINGLETON [] (app_class ''Settings''), 0)"
    by (simp add: app_defs lookup_provider_def find_provider_with_owner_def)
  obtain st' where r: "di_resolve app_env 2 (KClass ''Settings'') True (app_state SINGLETON) = (Ret (Some 0), st')"
    by (simp add: app_defs numeral_2_eq_2 lookup_provider_def find_provider_with_owner_def
        produce_def provide_def call_factory_def leave_flight_def singleton_get_def put_container_def
        Let_def)
  from singleton_resolved_once [OF l _ r, of 0 False] r show ?thesis by auto
qed

text \<open>A singleton whose first constructor parameter is another singleton of the same
  container that is not built yet can never be resolved: the container's lock is held while
  the parameter is resolved, and the second acquisition waits for ever.\<close>

theorem nested_singleton_deadlock:
  assumes "lookup_provider env (ds_chain st) a = Some (FactoryProvider a SINGLETON ta fa, i)"
    and "lookup_provider env (ds_chain st) b = Some (pb, i)"
    and "prov_lifetime pb = SINGLETON" "i < length (ds_chain st)"
    and "fa_sig fa = Some (q # qs)" "pa_annot q = AKey b" "pa_name q \<noteq> ''self''" "\<not> pa_variadic q"
    and "singleton_get a (ds_chain st ! i) = None" "singleton_get (prov_key pb) (ds_chain st ! i) = None"
    and "a \<noteq> b" "a \<notin> set (ds_flight st)" "b \<notin> set (ds_flight st)" "\<not> ct_locked (ds_chain st ! i)"
  shows "fst (di_resolve env (Suc (Suc n)) a sc st) = Deadlock"
proof -
  let ?st = "put_container i (\<lambda>c. c\<lparr>ct_locked := True\<rparr>) (st\<lparr>ds_flight := a # ds_flight st\<rparr>)"
  have "regs (ds_chain ?st) = regs (ds_chain st)" by (simp add: regs_put)
  then have "lookup_provider env (ds_chain ?st) b = Some (pb, i)"
    using lookup_provider_regs assms(2) by metis
  then have "fst (di_resolve env (Suc n) b False ?st) = Deadlock"
    using assms by (auto simp: produce_def singleton_get_def split: prod.splits)
  then obtain st1 where "di_resolve env (Suc n) b False ?st = (Deadlock, st1)"
    by (metis prod.collapse)
  with assms show ?thesis
    by (simp add: produce_def provide_def call_factory_def del: di_resolve.simps(2)
        add: di_resolve.simps(2) [of env "Suc n"])
qed

theorem nested_singleton_deadlock_witness:
  "fst (di_resolve app_env 4 (KClass ''Pool'') True (app_state SINGLETON)) = Deadlock"
proof -
  have 4: "4 = Suc (Suc 2)" by simp
  show ?thesis unfolding 4
    by (rule nested_singleton_deadlock [where i = 0 and b = "KClass ''Settings''" and
        pb = "FactoryProvider (KClass ''Settings'') SINGLETON [] (app_class ''Settings'')" and
        q = "dep ''Settings''" and qs = "[]" and fa = "app_class ''Pool''" and ta = "[]"])
      (simp_all add: app_defs lookup_provider_def find_provider_with_owner_def singleton_get_def)
qed

text \<open>A scoped class whose first constructor parameter is another scoped class cannot be
  resolved, even with a scope open: the scope is not passed on, so the resolution raises
  \<open>ResolutionError\<close>.\<close>

theorem scoped_in_scoped_fails:
  assumes "lookup_provider env (ds_chain st) a = Some (FactoryProvider a SCOPED ta fa, i)"
    and "lookup_provider env (ds_chain st) b = Some (pb, j)" "prov_lifetime pb = SCOPED"
    and "fa_sig fa = Some (q # qs)" "pa_annot q = AKey b" "pa_name q \<noteq> ''self''" "\<not> pa_variadic q"
    and "\<not> pa_default q" "scope_get a (ds_scope st) = None"
    and "a \<noteq> b" "a \<notin> set (ds_flight st)" "b \<notin> set (ds_flight st)"
  shows "\<exists>e. di_resolve env (Suc (Suc n)) a True st = (Raise e, st) \<and> is_resolution_error e"
proof -
  let ?st = "st\<lparr>ds_flight := a # ds_flight st\<rparr>"
  have "di_resolve env (Suc n) b False ?st =
      (Raise (resolution_error ''is scoped but no scope is active''), ?st)"
    using assms by (simp add: produce_def leave_flight_def)
  then show ?thesis using assms
    by (simp add: produce_def provide_def call_factory_def leave_flight_def is_resolution_error_def
        resolution_error_def del: di_resolve.simps(2) add: di_resolve.simps(2) [of env "Suc n"])
qed

theorem scoped_in_scoped_fails_witness:
  "\<exists>e. di_resolve app_env 4 (KClass ''Pool'') True (app_state SCOPED) = (Raise e, app_state SCOPED) \<and>
     is_resolution_error e"
proof -
  have 4: "4 = Suc (Suc 2)" by simp
  show ?thesis unfolding 4
    by (rule scoped_in_scoped_fails [where i = 0 and b = "KClass ''Settings''" and j = 0 and
        pb = "FactoryProvider (KClass ''Settings'') SCOPED [] (app_class ''Settings'')" and
        q = "dep ''Settings''" and qs = "[]" and fa = "app_class ''Pool''" and ta = "[]"])
      (simp_all add: app_defs lookup_provider_def find_provider_with_owner_def scope_get_def)
qed

text \<open>An override is undone exactly: after the body of \<open>override\<close> has run, returned or raised,
  whatever it did to the container, the key has the override it had before and the cached
  singleton it had before.\<close>

theorem override_restores:
  "(case with_override key impl lifetime body c of (r, c') \<Rightarrow>
      map_of (ct_overrides c') key = map_of (ct_overrides c) key \<and>
      singleton_get key c' = singleton_get key c)"
  by (auto simp: with_override_def override_exit_def singleton_get_def Let_def update_conv'
      delete_conv' split: prod.splits sum.splits option.splits)

text \<open>Closing a scope runs its disposers once each in reverse order of registration, collecting
  what they raise, closes it for good (a later \<open>set\<close> raises and a later close does nothing),
  and leaving the scope's context manager never raises.\<close>

theorem scope_close_once:
  assumes "\<not> sc_closed sc" "run_disposers (rev (sc_disposers sc)) s = (es, s')"
  shows "\<exists>sc'. scope_close (s, sc) = ((if es = [] then Inr ()
        else Inl (ExceptionGroup (''errors disposing scope '' @ sc_name sc) es)), (s', sc')) \<and>
    sc_closed sc' \<and> scope_close (s', sc') = (Inr (), (s', sc')) \<and>
    (\<exists>e. scope_set k v sc' = Inl e) \<and> scope_get k sc' = None \<and>
    scope_aexit (s, sc) = (Inr (), (s', sc'))"
  using assms by (simp add: scope_close_def scope_aexit_def etry_all_def scope_set_def scope_get_def)

theorem scope_close_once_witness:
  "scope_aexit ([] :: nat list, (scope_new ''request'' :: (nat list, nat) scope)
      \<lparr>sc_disposers := [\<lambda>s. (Inr (), s @ [1]), \<lambda>s. (Inl (PyException ''E'' ''x''), s @ [2])]\<rparr>) =
    (Inr (), ([2, 1], (scope_new ''request'')\<lparr>sc_closed := True\<rparr>))"
proof -
  let ?sc = "(scope_new ''request'' :: (nat list, nat) scope)
      \<lparr>sc_disposers := [\<lambda>s. (Inr (), s @ [1]), \<lambda>s. (Inl (PyException ''E'' ''x''), s @ [2])]\<rparr>"
  have "\<exists>sc'. scope_aexit ([], ?sc) = (Inr (), ([2, 1], sc'))"
    using scope_close_once [of ?sc "[]" "[PyException ''E'' ''x'']" "[2, 1]"]
    by (auto simp: scope_new_def)
  then show ?thesis by (auto simp: scope_aexit_def etry_all_def scope_close_def scope_new_def)
qed

end
