(* ===== verification/Qx_Domain.thy ===== *)
theory Qx_Domain
  imports Qx_Core
begin

text \<open>
  The package \<open>qx-core\<close>, second half: the request context carried by a context variable
  (\<open>qx/core/context\<close>), events and their envelope (\<open>domain/events.py\<close>), entities and
  aggregate roots (\<open>entities\<close>), and the pagination shapes (\<open>types/pagination.py\<close>). Column
  values are the type \<open>sqlval\<close>; \<open>NULL\<close> is Python's \<open>None\<close>.
\<close>

section \<open>The request context\<close>

record 'a request_context =
  rc_request_id :: uuid
  rc_correlation_id :: uuid
  rc_trace_id :: "string option"
  rc_span_id :: "string option"
  rc_user_id :: "uuid option"
  rc_tenant_id :: "uuid option"
  rc_actor_kind :: "string option"
  rc_attributes :: "(string \<times> 'a) list"

definition with_changes ::
  "('a request_context \<Rightarrow> 'a request_context) \<Rightarrow> 'a request_context \<Rightarrow> 'a request_context" where
  "with_changes changes ctx = changes ctx"

text \<open>\<open>overrides\<close> is applied last, so it can also replace the fresh request id.\<close>

definition context_child ::
  "uuid \<Rightarrow> ('a request_context \<Rightarrow> 'a request_context) \<Rightarrow> 'a request_context \<Rightarrow> 'a request_context" where
  "context_child new_id overrides ctx = overrides (ctx\<lparr>rc_request_id := new_id\<rparr>)"

text \<open>
  A context variable is a field of the state: \<open>get\<close> reads it, \<open>put\<close> sets it; the token of a
  set is the value it replaced. \<open>scoped_var\<close> is set, run, reset in \<open>finally\<close>.
\<close>

definition scoped_var ::
  "('s \<Rightarrow> 'c) \<Rightarrow> ('c \<Rightarrow> 's \<Rightarrow> 's) \<Rightarrow> 'c \<Rightarrow> ('s, 'b) eff \<Rightarrow> ('s, 'b) eff" where
  "scoped_var get put v body s =
     (let old = get s in efinally body (emodify (put old)) (put v s))"

definition request_scope ::
  "('s \<Rightarrow> 'a request_context) \<Rightarrow> ('a request_context \<Rightarrow> 's \<Rightarrow> 's) \<Rightarrow> uuid
     \<Rightarrow> 'a request_context option \<Rightarrow> ('a request_context \<Rightarrow> 'a request_context) option
     \<Rightarrow> ('a request_context \<Rightarrow> ('s, 'b) eff) \<Rightarrow> ('s, 'b) eff" where
  "request_scope get put new_id given overrides body s =
     (let ctx = (case given of
          Some c \<Rightarrow> c
        | None \<Rightarrow>
            (case overrides of
               Some f \<Rightarrow> with_changes f (get s)
             | None \<Rightarrow> context_child new_id (\<lambda>c. c) (get s)))
      in scoped_var get put ctx (body ctx) s)"

locale context_var =
  fixes get :: "'s \<Rightarrow> 'c" and put :: "'c \<Rightarrow> 's \<Rightarrow> 's"
  assumes get_put: "get (put v s) = v"
begin

lemma scoped_restores:
  "scoped_var get put v body s = (r, s') \<Longrightarrow> get s' = get s"
  by (auto simp: scoped_var_def efinally_def Let_def get_put split: prod.splits)

lemma scoped_runs_inside:
  assumes "body (put v s) = (r, s1)"
  shows "scoped_var get put v body s = (r, put (get s) s1) \<and> get (put v s) = v"
  using assms by (simp add: scoped_var_def efinally_def Let_def get_put)

end

interpretation plain_var: context_var "\<lambda>s. s" "\<lambda>v s. v"
  by unfold_locales simp

interpretation fst_var: context_var fst "\<lambda>v s. (v, snd s)"
  by unfold_locales simp

section \<open>Events\<close>

text \<open>
  The field \<open>occurred_at\<close> has the type \<open>Any\<close>: an event made in the process holds an instant, one
  rebuilt from JSON holds the text it was given.
\<close>

datatype occurrence = At instant | AtText string

definition stamp_instant :: "occurrence \<Rightarrow> instant" where
  "stamp_instant st = (case st of At t \<Rightarrow> t | AtText s \<Rightarrow> 0)"

definition is_text :: "occurrence \<Rightarrow> bool" where
  "is_text st = (case st of At t \<Rightarrow> False | AtText s \<Rightarrow> True)"

definition no_isoformat :: exn where
  "no_isoformat = PyException ''AttributeError'' ''str object has no attribute isoformat''"

datatype event_kind = DomainEvent | IntegrationEvent | Notification | PlainEvent

record event =
  ev_id :: uuid
  ev_type :: string
  ev_kind :: event_kind
  ev_name :: string
  ev_version :: int
  ev_occurred_at :: occurrence
  ev_correlation_id :: "uuid option"
  ev_causation_id :: "uuid option"
  ev_tenant_id :: "uuid option"
  ev_actor_id :: "uuid option"
  ev_body :: dict

definition json_uuid :: "uuid option \<Rightarrow> json" where
  "json_uuid u = (case u of None \<Rightarrow> JNull | Some x \<Rightarrow> JStr (str_of_uuid x))"

text \<open>\<open>iso_fmt\<close> is \<open>datetime.isoformat\<close>. The body is \<open>model_dump\<close> of the fields the subclass adds.\<close>

definition envelope_at :: "string \<Rightarrow> event \<Rightarrow> dict" where
  "envelope_at occurred ev =
     [(''event_id'', JStr (str_of_uuid (ev_id ev))),
      (''event_name'', JStr (ev_name ev)),
      (''event_version'', JInt (ev_version ev)),
      (''occurred_at'', JStr occurred),
      (''correlation_id'', json_uuid (ev_correlation_id ev)),
      (''causation_id'', json_uuid (ev_causation_id ev)),
      (''tenant_id'', json_uuid (ev_tenant_id ev)),
      (''actor_id'', json_uuid (ev_actor_id ev)),
      (''payload'', JObj (ev_body ev))]"

definition event_envelope :: "(instant \<Rightarrow> string) \<Rightarrow> event \<Rightarrow> exn + dict" where
  "event_envelope iso_fmt ev =
     (case ev_occurred_at ev of
        At t \<Rightarrow> Inr (envelope_at (iso_fmt t) ev)
      | AtText s \<Rightarrow> Inl no_isoformat)"

text \<open>\<open>__init_subclass__\<close>: a concrete event class must name its event.\<close>

definition event_class_ok :: "string \<Rightarrow> string \<Rightarrow> exn + unit" where
  "event_class_ok class_name event_name =
     (if class_name \<in> {''DomainEvent'', ''IntegrationEvent'', ''Notification''} then Inr ()
      else if event_name = [] then Inl (PyException ''TypeError'' class_name)
      else Inr ())"

section \<open>Entities\<close>

datatype sqlval =
    VNull | VUuid uuid | VInt int | VBool bool | VStr string | VTime instant | VJson json | VFloat rat

type_synonym row = "(string \<times> sqlval) list"

record entity =
  en_type :: string
  en_id :: uuid
  en_created_at :: instant
  en_updated_at :: "instant option"
  en_deleted_at :: "instant option"
  en_created_by :: "uuid option"
  en_updated_by :: "uuid option"
  en_deleted_by :: "uuid option"
  en_version :: int
  en_tenant_id :: "uuid option"
  en_fields :: row

record aggregate = entity +
  ar_pending :: "event list"

definition entity_is_deleted :: "'z entity_scheme \<Rightarrow> bool" where
  "entity_is_deleted e = (en_deleted_at e \<noteq> None)"

definition entity_mark_deleted ::
  "instant \<Rightarrow> uuid option \<Rightarrow> instant option \<Rightarrow> 'z entity_scheme \<Rightarrow> 'z entity_scheme" where
  "entity_mark_deleted now by_user when e =
     e\<lparr>en_deleted_at := Some (get_or when now), en_deleted_by := by_user\<rparr>"

definition entity_eq :: "'z entity_scheme \<Rightarrow> 'z entity_scheme \<Rightarrow> bool" where
  "entity_eq a b \<longleftrightarrow> en_type a = en_type b \<and> en_id a = en_id b"

definition aggregate_record_event :: "event \<Rightarrow> 'z aggregate_scheme \<Rightarrow> 'z aggregate_scheme" where
  "aggregate_record_event ev a = a\<lparr>ar_pending := ar_pending a @ [ev]\<rparr>"

definition aggregate_pull_events :: "('z aggregate_scheme, event list) eff" where
  "aggregate_pull_events a = (Inr (ar_pending a), a\<lparr>ar_pending := []\<rparr>)"

definition aggregate_has_pending_events :: "'z aggregate_scheme \<Rightarrow> bool" where
  "aggregate_has_pending_events a = (ar_pending a \<noteq> [])"

section \<open>Pagination\<close>

datatype sort_direction = Asc | Desc

datatype filter_op =
    OpEq | OpNeq | OpIn | OpNotIn | OpGt | OpGte | OpLt | OpLte | OpContains | OpStartsWith
  | OpEndsWith | OpIsNull | OpIsNotNull | OpOther string

record sort_spec =
  so_field :: string
  so_direction :: sort_direction

datatype filter_value = FvOne sqlval | FvMany "sqlval list"

record filter_spec =
  fi_field :: string
  fi_op :: filter_op
  fi_value :: filter_value

text \<open>The constraints of the pydantic fields: \<open>page \<ge> 1\<close>, \<open>1 \<le> page_size \<le> 200\<close>.\<close>

record offset_pagination =
  op_page :: nat
  op_page_size :: nat
  op_sort :: "sort_spec list"
  op_filters :: "filter_spec list"

definition offset_pagination_ok :: "offset_pagination \<Rightarrow> bool" where
  "offset_pagination_ok p \<longleftrightarrow> 1 \<le> op_page p \<and> 1 \<le> op_page_size p \<and> op_page_size p \<le> 200"

definition pagination_offset :: "offset_pagination \<Rightarrow> nat" where
  "pagination_offset p = (op_page p - 1) * op_page_size p"

record 'e offset_page =
  pg_items :: "'e list"
  pg_page :: nat
  pg_page_size :: nat
  pg_total :: nat

definition total_pages :: "'e offset_page \<Rightarrow> nat" where
  "total_pages p =
     (if pg_page_size p = 0 then 0 else (pg_total p + pg_page_size p - 1) div pg_page_size p)"

definition page_has_next :: "'e offset_page \<Rightarrow> bool" where
  "page_has_next p = (pg_page p < total_pages p)"

definition page_has_previous :: "'e offset_page \<Rightarrow> bool" where
  "page_has_previous p = (pg_page p > 1)"

record 'e cursor_page =
  cp_items :: "'e list"
  cp_next_cursor :: "string option"
  cp_has_next :: bool

lemma page_has_next_iff:
  assumes "1 \<le> pg_page_size p" "1 \<le> pg_page p"
  shows "page_has_next p \<longleftrightarrow> pg_page p * pg_page_size p < pg_total p"
proof -
  let ?s = "pg_page_size p" and ?n = "pg_page p" and ?t = "pg_total p"
  have "?n < (?t + ?s - 1) div ?s \<longleftrightarrow> Suc ?n \<le> (?t + ?s - 1) div ?s"
    by (rule less_eq_Suc_le)
  also have "\<dots> \<longleftrightarrow> Suc ?n * ?s \<le> ?t + ?s - 1"
    using assms(1) by (simp add: less_eq_div_iff_mult_less_eq)
  also have "\<dots> \<longleftrightarrow> ?n * ?s < ?t" using assms by auto
  finally show ?thesis using assms by (simp add: page_has_next_def total_pages_def)
qed

text \<open>Cutting a list into pages of one size loses and repeats nothing.\<close>

lemma pages_concat:
  assumes "0 < (n::nat)"
  shows "concat (map (\<lambda>i. take n (drop (i * n) xs)) [0..<(length xs + n - 1) div n]) = xs"
proof (induction "(length xs + n - 1) div n" arbitrary: xs)
  case 0
  then have "length xs + n - 1 < n" using assms by (simp add: div_eq_0_iff)
  then have "xs = []" using assms by (cases xs) auto
  then show ?case using assms by simp
next
  case (Suc m)
  then have ne: "n \<le> length xs + n - 1" using assms
    by (metis Zero_neq_Suc div_less not_less)
  have "(length (drop n xs) + n - 1) div n = m"
  proof (cases "n \<le> length xs")
    case True
    then have e: "length xs + n - 1 = (length (drop n xs) + n - 1) + n" using assms by simp
    have "(length xs + n - 1) div n = (length (drop n xs) + n - 1) div n + 1"
      unfolding e using assms by (intro div_add_self2) simp
    with Suc.hyps(2) show ?thesis by linarith
  next
    case False
    then have "(length xs + n - 1) div n = 1"
      using ne assms by (intro div_nat_eqI) auto
    with Suc.hyps(2) False assms show ?thesis by (simp add: div_eq_0_iff)
  qed
  from Suc.hyps(1) [OF this [symmetric]] this
  have IH: "concat (map (\<lambda>i. take n (drop (i * n) (drop n xs))) [0..<m]) = drop n xs" by simp
  have "[0..<Suc m] = 0 # map Suc [0..<m]" by (simp add: upt_conv_Cons map_Suc_upt)
  then have "concat (map (\<lambda>i. take n (drop (i * n) xs)) [0..<Suc m]) =
      take n xs @ concat (map (\<lambda>i. take n (drop (i * n) (drop n xs))) [0..<m])"
    by (simp add: o_def add.commute)
  with IH Suc.hyps(2) show ?case by simp
qed

text \<open>An event for the examples.\<close>

definition demo_event :: "event_kind \<Rightarrow> string \<Rightarrow> event" where
  "demo_event kind name =
     \<lparr>ev_id = 1, ev_type = name, ev_kind = kind, ev_name = name, ev_version = 1, ev_occurred_at = At 0,
      ev_correlation_id = None, ev_causation_id = None, ev_tenant_id = None, ev_actor_id = None,
      ev_body = []\<rparr>"

end
