(* ===== verification/Qx_Repository.thy ===== *)
theory Qx_Repository
  imports Qx_Domain Qx_Sql
begin

text \<open>
  The package \<open>qx-db\<close>, reads and writes: the generic repository (\<open>repository\<close>), keyset
  cursors (\<open>pagination\<close>). A table row maps column names to values; WHERE keeps the rows whose
  condition is true, so a comparison with NULL (which is unknown) drops the row. How two
  values compare under the database's collation is a parameter of the repository record.
\<close>

section \<open>Conditions\<close>

definition col :: "row \<Rightarrow> string \<Rightarrow> sqlval" where
  "col r c = (case map_of r c of None \<Rightarrow> VNull | Some v \<Rightarrow> v)"

definition ilike :: "sqlval \<Rightarrow> string \<Rightarrow> bool" where
  "ilike v pat = (case v of VStr s \<Rightarrow> like_match (py_lower pat) (py_lower s) | _ \<Rightarrow> False)"

text \<open>\<open>f"{value}"\<close> for the values a text filter is given.\<close>

definition value_text :: "filter_value \<Rightarrow> string" where
  "value_text v =
     (case v of
        FvOne (VStr s) \<Rightarrow> s
      | FvOne (VInt i) \<Rightarrow> str_of_int i
      | FvOne (VUuid u) \<Rightarrow> str_of_uuid u
      | FvOne VNull \<Rightarrow> ''None''
      | _ \<Rightarrow> [])"

text \<open>
  \<open>lt a b\<close> is the database's \<open><\<close> on two non-null values of one type. Comparing a column with
  \<open>None\<close> by \<open>==\<close> or \<open>!=\<close> becomes \<open>IS NULL\<close> and \<open>IS NOT NULL\<close> in SQLAlchemy.
\<close>

definition sql_less :: "(sqlval \<Rightarrow> sqlval \<Rightarrow> bool) \<Rightarrow> sqlval \<Rightarrow> sqlval \<Rightarrow> bool" where
  "sql_less lt a b = (a \<noteq> VNull \<and> b \<noteq> VNull \<and> lt a b)"

fun apply_op ::
  "(sqlval \<Rightarrow> sqlval \<Rightarrow> bool) \<Rightarrow> string \<Rightarrow> filter_op \<Rightarrow> filter_value \<Rightarrow> exn + (row \<Rightarrow> bool)" where
  "apply_op lt c OpEq (FvOne v) = Inr (\<lambda>r. col r c = v)"
| "apply_op lt c OpNeq (FvOne v) =
     Inr (\<lambda>r. if v = VNull then col r c \<noteq> VNull else col r c \<noteq> VNull \<and> col r c \<noteq> v)"
| "apply_op lt c OpIn (FvMany vs) = Inr (\<lambda>r. col r c \<noteq> VNull \<and> col r c \<in> set vs)"
| "apply_op lt c OpNotIn (FvMany vs) =
     Inr (\<lambda>r. vs = [] \<or> (col r c \<noteq> VNull \<and> VNull \<notin> set vs \<and> col r c \<notin> set vs))"
| "apply_op lt c OpGt (FvOne v) = Inr (\<lambda>r. sql_less lt v (col r c))"
| "apply_op lt c OpGte (FvOne v) =
     Inr (\<lambda>r. sql_less lt v (col r c) \<or> (v \<noteq> VNull \<and> col r c = v))"
| "apply_op lt c OpLt (FvOne v) = Inr (\<lambda>r. sql_less lt (col r c) v)"
| "apply_op lt c OpLte (FvOne v) =
     Inr (\<lambda>r. sql_less lt (col r c) v \<or> (v \<noteq> VNull \<and> col r c = v))"
| "apply_op lt c OpContains v = Inr (\<lambda>r. ilike (col r c) (''%'' @ value_text v @ ''%''))"
| "apply_op lt c OpStartsWith v = Inr (\<lambda>r. ilike (col r c) (value_text v @ ''%''))"
| "apply_op lt c OpEndsWith v = Inr (\<lambda>r. ilike (col r c) (''%'' @ value_text v))"
| "apply_op lt c OpIsNull v = Inr (\<lambda>r. col r c = VNull)"
| "apply_op lt c OpIsNotNull v = Inr (\<lambda>r. col r c \<noteq> VNull)"
| "apply_op lt c (OpOther s) v = Inl (PyException ''ValueError'' (''Unsupported filter op: '' @ s))"
| "apply_op lt c op v = Inl (PyException ''ArgumentError'' ''value does not fit the operator'')"

section \<open>The repository\<close>

text \<open>
  The class attributes of a repository, the methods a subclass may override
  (\<open>_row_to_entity\<close>, \<open>_entity_to_dict\<close>) and the table's columns.
\<close>

record ('db, 'e) repo =
  rp_table :: "('db, row) sql"
  rp_columns :: "string list"
  rp_name :: string
  rp_filterable :: "string list"
  rp_sortable :: "string list"
  rp_tenanted :: bool
  rp_less :: "sqlval \<Rightarrow> sqlval \<Rightarrow> bool"
  rp_from_row :: "row \<Rightarrow> exn + 'e"
  rp_to_dict :: "'e \<Rightarrow> row"
  rp_entity_id :: "'e \<Rightarrow> uuid"
  rp_version :: "'e \<Rightarrow> int"
  rp_set_version :: "int \<Rightarrow> 'e \<Rightarrow> 'e"

definition v_uuid :: "uuid option \<Rightarrow> sqlval" where
  "v_uuid u = (case u of None \<Rightarrow> VNull | Some x \<Rightarrow> VUuid x)"

definition v_time :: "instant option \<Rightarrow> sqlval" where
  "v_time t = (case t of None \<Rightarrow> VNull | Some x \<Rightarrow> VTime x)"

definition get_uuid :: "row \<Rightarrow> string \<Rightarrow> uuid option" where
  "get_uuid r c = (case col r c of VUuid u \<Rightarrow> Some u | _ \<Rightarrow> None)"

definition get_time :: "row \<Rightarrow> string \<Rightarrow> instant option" where
  "get_time r c = (case col r c of VTime t \<Rightarrow> Some t | _ \<Rightarrow> None)"

text \<open>\<open>vars(entity)\<close> without private names, in the order of the dataclass fields.\<close>

definition base_vars :: "'z entity_scheme \<Rightarrow> row" where
  "base_vars e =
     [(''id'', VUuid (en_id e)), (''created_at'', VTime (en_created_at e)),
      (''updated_at'', v_time (en_updated_at e)), (''deleted_at'', v_time (en_deleted_at e)),
      (''created_by'', v_uuid (en_created_by e)), (''updated_by'', v_uuid (en_updated_by e)),
      (''deleted_by'', v_uuid (en_deleted_by e)), (''version'', VInt (en_version e)),
      (''tenant_id'', v_uuid (en_tenant_id e))]"

definition base_names :: "string list" where
  "base_names = [''id'', ''created_at'', ''updated_at'', ''deleted_at'', ''created_by'',
     ''updated_by'', ''deleted_by'', ''version'', ''tenant_id'']"

definition entity_to_dict :: "'z entity_scheme \<Rightarrow> row" where
  "entity_to_dict e = base_vars e @ filter (\<lambda>(k, v). \<not> py_startswith k ''_'') (en_fields e)"

text \<open>
  \<open>entity_cls(**dict(row))\<close> for an entity class with the given extra fields, none of which
  has a default: an unknown column or a missing field is a \<open>TypeError\<close>; \<open>now\<close> is the default
  of \<open>created_at\<close>.
\<close>

definition row_to_entity :: "string \<Rightarrow> string list \<Rightarrow> instant \<Rightarrow> row \<Rightarrow> exn + entity" where
  "row_to_entity ty names now r =
     (if \<not> list_all (\<lambda>c. c \<in> set base_names \<or> c \<in> set names) (map fst r)
      then Inl (PyException ''TypeError'' ''unexpected keyword argument'')
      else if \<not> list_all (\<lambda>n. map_of r n \<noteq> None) (''id'' # names)
      then Inl (PyException ''TypeError'' ''missing keyword argument'')
      else Inr
        \<lparr>en_type = ty, en_id = get_or (get_uuid r ''id'') 0,
         en_created_at = get_or (get_time r ''created_at'') now,
         en_updated_at = get_time r ''updated_at'', en_deleted_at = get_time r ''deleted_at'',
         en_created_by = get_uuid r ''created_by'', en_updated_by = get_uuid r ''updated_by'',
         en_deleted_by = get_uuid r ''deleted_by'',
         en_version = (case col r ''version'' of VInt n \<Rightarrow> n | _ \<Rightarrow> 1),
         en_tenant_id = get_uuid r ''tenant_id'',
         en_fields = map (\<lambda>n. (n, col r n)) names\<rparr>)"

text \<open>\<open>_scope_query\<close>: hide deleted rows, and rows of other tenants when a tenant is set.\<close>

definition scope_query ::
  "('db, 'e) repo \<Rightarrow> 'a request_context \<Rightarrow> bool \<Rightarrow> row \<Rightarrow> bool" where
  "scope_query rp ctx include_deleted r \<longleftrightarrow>
     (\<not> include_deleted \<and> ''deleted_at'' \<in> set (rp_columns rp) \<longrightarrow> col r ''deleted_at'' = VNull) \<and>
     (rp_tenanted rp \<and> ''tenant_id'' \<in> set (rp_columns rp) \<longrightarrow>
        (case rc_tenant_id ctx of None \<Rightarrow> True | Some t \<Rightarrow> col r ''tenant_id'' = VUuid t))"

definition not_found :: "('db, 'e) repo \<Rightarrow> uuid \<Rightarrow> string \<Rightarrow> dict \<Rightarrow> error" where
  "not_found rp i suffix details =
     Error NotFoundError (py_lower (rp_name rp) @ ''.not_found'')
       (rp_name rp @ '' '' @ str_of_uuid i @ suffix) details None"

definition repo_get ::
  "('db, 'e) repo \<Rightarrow> 'a request_context \<Rightarrow> uuid \<Rightarrow> bool \<Rightarrow> ('db, 'e result) eff" where
  "repo_get rp ctx i include_deleted =
     ebind (sql_select (rp_table rp)
         (\<lambda>r. col r ''id'' = VUuid i \<and> scope_query rp ctx include_deleted r) no_order None)
       (\<lambda>rows.
         case rows of
           [] \<Rightarrow> eret (from_optional None
                   (not_found rp i '' not found'' [(''id'', JStr (str_of_uuid i))]) [])
         | r # _ \<Rightarrow>
             ebind (elift (rp_from_row rp r)) (\<lambda>e.
               eret (from_optional (Some e)
                 (not_found rp i '' not found'' [(''id'', JStr (str_of_uuid i))]) [])))"

definition repo_exists :: "('db, 'e) repo \<Rightarrow> 'a request_context \<Rightarrow> uuid \<Rightarrow> ('db, bool) eff" where
  "repo_exists rp ctx i =
     ebind (sql_count (rp_table rp) (\<lambda>r. col r ''id'' = VUuid i \<and> scope_query rp ctx False r))
       (\<lambda>n. eret (n > 0))"

fun apply_filters ::
  "('db, 'e) repo \<Rightarrow> filter_spec list \<Rightarrow> (row \<Rightarrow> bool) \<Rightarrow> exn + (row \<Rightarrow> bool)" where
  "apply_filters rp [] P = Inr P"
| "apply_filters rp (f # fs) P =
     (if fi_field f \<notin> set (rp_filterable rp)
      then Inl (PyException ''ValueError'' (''Field '' @ fi_field f @ '' is not filterable on '' @ rp_name rp))
      else if fi_field f \<notin> set (rp_columns rp) then Inl (PyException ''KeyError'' (fi_field f))
      else case apply_op (rp_less rp) (fi_field f) (fi_op f) (fi_value f) of
             Inl e \<Rightarrow> Inl e
           | Inr Q \<Rightarrow> apply_filters rp fs (\<lambda>r. P r \<and> Q r))"

fun sort_cols :: "('db, 'e) repo \<Rightarrow> sort_spec list \<Rightarrow> exn + (string \<times> sort_direction) list" where
  "sort_cols rp [] = Inr [(''id'', Asc)]"
| "sort_cols rp (s # ss) =
     (if so_field s \<notin> set (rp_sortable rp) \<and> so_field s \<noteq> ''created_at''
      then Inl (PyException ''ValueError'' (''Field '' @ so_field s @ '' is not sortable on '' @ rp_name rp))
      else if so_field s \<notin> set (rp_columns rp) then Inl (PyException ''KeyError'' (so_field s))
      else case sort_cols rp ss of
             Inl e \<Rightarrow> Inl e
           | Inr cs \<Rightarrow> Inr ((so_field s, so_direction s) # cs))"

text \<open>ORDER BY a list of columns: the first one on which the rows differ decides (NULLs are
  last ascending and first descending, as in PostgreSQL).\<close>

definition val_before :: "(sqlval \<Rightarrow> sqlval \<Rightarrow> bool) \<Rightarrow> sqlval \<Rightarrow> sqlval \<Rightarrow> bool" where
  "val_before lt a b = (if a = VNull then False else b = VNull \<or> lt a b)"

fun row_le ::
  "(sqlval \<Rightarrow> sqlval \<Rightarrow> bool) \<Rightarrow> (string \<times> sort_direction) list \<Rightarrow> row \<Rightarrow> row \<Rightarrow> bool" where
  "row_le lt [] r r' = True"
| "row_le lt ((c, d) # cs) r r' =
     (if col r c = col r' c then row_le lt cs r r'
      else case d of
             Asc \<Rightarrow> val_before lt (col r c) (col r' c)
           | Desc \<Rightarrow> val_before lt (col r' c) (col r c))"

definition repo_list ::
  "('db, 'e) repo \<Rightarrow> 'a request_context \<Rightarrow> offset_pagination \<Rightarrow> bool \<Rightarrow> ('db, 'e offset_page) eff" where
  "repo_list rp ctx p include_deleted =
     ebind (elift (apply_filters rp (op_filters p) (scope_query rp ctx include_deleted))) (\<lambda>P.
     ebind (elift (sort_cols rp (op_sort p))) (\<lambda>cs.
     ebind (sql_count (rp_table rp) P) (\<lambda>total_rows.
     ebind (sql_page (rp_table rp) P (row_le (rp_less rp) cs) (pagination_offset p) (op_page_size p))
       (\<lambda>rows.
     ebind (emap (\<lambda>r. elift (rp_from_row rp r)) rows) (\<lambda>items.
       eret \<lparr>pg_items = items, pg_page = op_page p, pg_page_size = op_page_size p,
             pg_total = total_rows\<rparr>)))))"

definition set_default :: "string \<Rightarrow> sqlval \<Rightarrow> row \<Rightarrow> row" where
  "set_default k v r = (if map_of r k = None then r @ [(k, v)] else r)"

definition repo_add ::
  "('db, 'e) repo \<Rightarrow> 'a request_context \<Rightarrow> instant \<Rightarrow> 'e \<Rightarrow> ('db, 'e result) eff" where
  "repo_add rp ctx now e =
     (let v1 = set_default ''created_at'' (VTime now) (rp_to_dict rp e);
          v2 = set_default ''created_by'' (v_uuid (rc_user_id ctx)) v1;
          v3 = (if rp_tenanted rp \<and> map_of v2 ''tenant_id'' = None
                then AList.update ''tenant_id'' (v_uuid (rc_tenant_id ctx)) v2 else v2);
          v4 = set_default ''version'' (VInt 1) v3
      in ebind (sql_insert (rp_table rp) [v4]) (\<lambda>_. eret (result_success e [])))"

definition set_cols :: "row \<Rightarrow> row \<Rightarrow> row" where
  "set_cols vs r = foldl (\<lambda>r (k, v). AList.update k v r) r vs"

definition version_conflict_error :: "('db, 'e) repo \<Rightarrow> 'e \<Rightarrow> error" where
  "version_conflict_error rp e =
     Error ConflictError (py_lower (rp_name rp) @ ''.version_conflict'')
       (rp_name rp @ '' '' @ str_of_uuid (rp_entity_id rp e) @
        '' was modified concurrently (expected version '' @ str_of_int (rp_version rp e) @ '').'')
       [(''id'', JStr (str_of_uuid (rp_entity_id rp e))), (''version'', JInt (rp_version rp e))] None"

text \<open>The entity is mutable: the result carries it with the version it has afterwards.\<close>

definition save_values :: "('db, 'e) repo \<Rightarrow> 'a request_context \<Rightarrow> instant \<Rightarrow> 'e \<Rightarrow> row" where
  "save_values rp ctx now e =
     AList.update ''updated_by'' (v_uuid (rc_user_id ctx))
       (AList.update ''updated_at'' (VTime now)
         (AList.update ''version'' (VInt (rp_version rp e + 1)) (rp_to_dict rp e)))"

definition repo_save ::
  "('db, 'e) repo \<Rightarrow> 'a request_context \<Rightarrow> instant \<Rightarrow> 'e \<Rightarrow> ('db, 'e result \<times> 'e) eff" where
  "repo_save rp ctx now e =
     (let current_version = rp_version rp e; vs = save_values rp ctx now e
      in ebind (sql_update (rp_table rp)
            (\<lambda>r. col r ''id'' = col vs ''id'' \<and> col r ''version'' = VInt current_version) (set_cols vs))
          (\<lambda>n. if n = 0 then eret (result_failure (version_conflict_error rp e) [], e)
               else (let e' = rp_set_version rp (current_version + 1) e
                     in eret (result_success e' [], e'))))"

definition repo_soft_delete ::
  "('db, 'e) repo \<Rightarrow> 'a request_context \<Rightarrow> instant \<Rightarrow> uuid \<Rightarrow> ('db, unit result) eff" where
  "repo_soft_delete rp ctx now i =
     ebind (sql_update (rp_table rp) (\<lambda>r. col r ''id'' = VUuid i \<and> col r ''deleted_at'' = VNull)
         (set_cols [(''deleted_at'', VTime now), (''deleted_by'', v_uuid (rc_user_id ctx))]))
       (\<lambda>n. if n = 0 then eret (result_failure (not_found rp i '' not found or already deleted'' []) [])
            else eret (result_success () []))"

definition repo_hard_delete :: "('db, 'e) repo \<Rightarrow> uuid \<Rightarrow> ('db, unit result) eff" where
  "repo_hard_delete rp i =
     ebind (sql_delete (rp_table rp) (\<lambda>r. col r ''id'' = VUuid i))
       (\<lambda>n. if n = 0 then eret (result_failure (not_found rp i '' not found'' []) [])
            else eret (result_success () []))"

section \<open>Keyset cursors\<close>

text \<open>\<open>encode\<close> is base64 of the JSON text without padding; \<open>attr\<close> is \<open>getattr(x, f, None)\<close>.\<close>

definition build_cursor_page ::
  "(dict \<Rightarrow> string) \<Rightarrow> ('e \<Rightarrow> string \<Rightarrow> json) \<Rightarrow> 'e list \<Rightarrow> nat \<Rightarrow> string list \<Rightarrow> 'e cursor_page" where
  "build_cursor_page encode attr items lmt cursor_fields =
     (let has_next = length items > lmt; yielded = take lmt items
      in \<lparr>cp_items = yielded,
          cp_next_cursor =
            (if has_next \<and> yielded \<noteq> []
             then Some (encode (map (\<lambda>f. (f, attr (last yielded) f)) cursor_fields)) else None),
          cp_has_next = has_next\<rparr>)"

section \<open>Rows and entities\<close>

lemma col_append: "map_of xs c = Some v \<Longrightarrow> col (xs @ ys) c = v"
  by (simp add: col_def)

text \<open>An entity of a class whose extra fields are the given names.\<close>

definition entity_ok :: "string \<Rightarrow> string list \<Rightarrow> entity \<Rightarrow> bool" where
  "entity_ok ty names e \<longleftrightarrow>
     en_type e = ty \<and> map fst (en_fields e) = names \<and> distinct names \<and>
     list_all (\<lambda>n. n \<notin> set base_names \<and> \<not> py_startswith n ''_'') names"

lemma entity_to_dict_ok:
  assumes "entity_ok ty names e"
  shows "entity_to_dict e = base_vars e @ en_fields e"
proof -
  have "filter (\<lambda>(k, v). \<not> py_startswith k ''_'') (en_fields e) = en_fields e"
    using assms by (force simp: filter_id_conv entity_ok_def list_all_iff)
  then show ?thesis by (simp add: entity_to_dict_def)
qed

lemma base_vars_cols:
  assumes "entity_ok ty names e"
  shows "col (entity_to_dict e) ''id'' = VUuid (en_id e)"
    and "col (entity_to_dict e) ''version'' = VInt (en_version e)"
    and "col (entity_to_dict e) ''tenant_id'' = v_uuid (en_tenant_id e)"
    and "col (entity_to_dict e) ''deleted_at'' = v_time (en_deleted_at e)"
    and "map_of (entity_to_dict e) ''created_at'' = Some (VTime (en_created_at e))"
    and "map_of (entity_to_dict e) ''created_by'' = Some (v_uuid (en_created_by e))"
    and "map_of (entity_to_dict e) ''version'' = Some (VInt (en_version e))"
    and "map_of (entity_to_dict e) ''tenant_id'' = Some (v_uuid (en_tenant_id e))"
  by (simp_all add: entity_to_dict_def base_vars_def col_def)

lemma v_uuid_null [simp]: "v_uuid u = VNull \<longleftrightarrow> u = None" "v_uuid u = VUuid x \<longleftrightarrow> u = Some x"
  by (auto simp: v_uuid_def split: option.splits)

lemma v_time_null [simp]: "v_time u = VNull \<longleftrightarrow> u = None"
  by (auto simp: v_time_def split: option.splits)

lemma row_to_entity_dict:
  assumes ok: "entity_ok ty names e"
  shows "row_to_entity ty names now (entity_to_dict e) = Inr e"
proof -
  let ?r = "entity_to_dict e"
  have r: "?r = base_vars e @ en_fields e" by (rule entity_to_dict_ok [OF ok])
  have names: "map fst (en_fields e) = names" "distinct names"
    and fresh: "\<And>n. n \<in> set names \<Longrightarrow> n \<notin> set base_names"
    using ok by (auto simp: entity_ok_def list_all_iff)
  have base: "map fst (base_vars e) = base_names" by (simp add: base_vars_def base_names_def)
  have mf: "map_of ?r n = map_of (en_fields e) n" if "n \<in> set names" for n
  proof -
    have "map_of (base_vars e) n = None"
      using fresh [OF that] base by (metis list.set_map map_of_eq_None_iff)
    then show ?thesis unfolding r by (simp add: map_add_def split: option.split)
  qed
  have cols: "map (\<lambda>n. (n, col ?r n)) names = en_fields e"
  proof -
    have "map (\<lambda>n. (n, col ?r n)) names = map (\<lambda>p. (fst p, col ?r (fst p))) (en_fields e)"
      unfolding names(1) [symmetric] by (simp add: o_def)
    also have "\<dots> = en_fields e"
    proof (rule map_idI)
      fix p assume p: "p \<in> set (en_fields e)"
      then have "fst p \<in> set names" using names(1) by (metis image_eqI list.set_map)
      moreover have "map_of (en_fields e) (fst p) = Some (snd p)"
        using p names by (simp add: map_of_is_SomeI)
      ultimately show "(fst p, col ?r (fst p)) = p" using mf by (simp add: col_def)
    qed
    finally show ?thesis .
  qed
  have known: "list_all (\<lambda>c. c \<in> set base_names \<or> c \<in> set names) (map fst ?r)"
    unfolding r by (simp add: list_all_iff names(1) base del: list.set_map flip: list.set_map)
  have "map_of ?r n \<noteq> None" if "n \<in> set names" for n
    using mf [OF that] that names(1) by (metis list.set_map map_of_eq_None_iff)
  moreover have "map_of ?r ''id'' \<noteq> None" by (simp add: r base_vars_def)
  ultimately have present: "list_all (\<lambda>n. map_of ?r n \<noteq> None) (''id'' # names)"
    by (simp add: list_all_iff)
  have get: "get_uuid ?r ''id'' = Some (en_id e)" "get_time ?r ''created_at'' = Some (en_created_at e)"
    "get_time ?r ''updated_at'' = en_updated_at e" "get_time ?r ''deleted_at'' = en_deleted_at e"
    "get_uuid ?r ''created_by'' = en_created_by e" "get_uuid ?r ''updated_by'' = en_updated_by e"
    "get_uuid ?r ''deleted_by'' = en_deleted_by e" "get_uuid ?r ''tenant_id'' = en_tenant_id e"
    "col ?r ''version'' = VInt (en_version e)"
    by (simp_all add: r base_vars_def get_uuid_def get_time_def col_def v_uuid_def v_time_def
        split: option.split)
  have ty: "en_type e = ty" using ok by (simp add: entity_ok_def)
  show ?thesis
    unfolding row_to_entity_def cols get using known present ty by simp
qed

text \<open>Every lifecycle column is already in \<open>vars(entity)\<close>, so the defaults of \<open>add\<close> never apply.\<close>

lemma set_default_present: "map_of r k \<noteq> None \<Longrightarrow> set_default k v r = r"
  by (simp add: set_default_def)

text \<open>The repository of such a class without overridden methods.\<close>

definition std_repo ::
  "('db, row) sql \<Rightarrow> string \<Rightarrow> string list \<Rightarrow> string list \<Rightarrow> string list
     \<Rightarrow> (sqlval \<Rightarrow> sqlval \<Rightarrow> bool) \<Rightarrow> instant \<Rightarrow> ('db, entity) repo" where
  "std_repo T ty names filterable sortable lt now =
     \<lparr>rp_table = T, rp_columns = base_names @ names, rp_name = ty, rp_filterable = filterable,
      rp_sortable = sortable, rp_tenanted = True, rp_less = lt,
      rp_from_row = row_to_entity ty names now, rp_to_dict = entity_to_dict,
      rp_entity_id = en_id, rp_version = en_version,
      rp_set_version = (\<lambda>n e. e\<lparr>en_version := n\<rparr>)\<rparr>"

definition row_clash :: "row \<Rightarrow> row \<Rightarrow> bool" where
  "row_clash r r' \<longleftrightarrow> col r ''id'' = col r' ''id''"

lemma repo_add_eq:
  assumes "entity_ok ty names e"
  shows "repo_add (std_repo T ty names fl so lt n) ctx now e =
    ebind (sql_insert T [entity_to_dict e]) (\<lambda>_. eret (Success e []))"
  using base_vars_cols [OF assms]
  by (simp add: repo_add_def std_repo_def set_default_present result_success_def Let_def)

text \<open>What the readers of one tenant see.\<close>

definition visible_to :: "'a request_context \<Rightarrow> entity \<Rightarrow> bool" where
  "visible_to ctx e \<longleftrightarrow>
     en_deleted_at e = None \<and>
     (case rc_tenant_id ctx of None \<Rightarrow> True | Some t \<Rightarrow> en_tenant_id e = Some t)"

lemma scope_query_entity:
  assumes "entity_ok ty names e"
  shows "scope_query (std_repo T ty names fl so lt n) ctx False (entity_to_dict e) = visible_to ctx e"
  using base_vars_cols [OF assms]
  by (auto simp: scope_query_def std_repo_def base_names_def visible_to_def split: option.split)

section \<open>Order and pages\<close>

definition strict_order :: "(sqlval \<Rightarrow> sqlval \<Rightarrow> bool) \<Rightarrow> bool" where
  "strict_order lt \<longleftrightarrow>
     (\<forall>a. \<not> lt a a) \<and> (\<forall>a b c. lt a b \<longrightarrow> lt b c \<longrightarrow> lt a c) \<and> (\<forall>a b. a \<noteq> b \<longrightarrow> lt a b \<or> lt b a)"

lemma val_before_strict:
  assumes "strict_order lt"
  shows "\<not> val_before lt a a" "val_before lt a b \<Longrightarrow> val_before lt b c \<Longrightarrow> val_before lt a c"
    "a \<noteq> b \<Longrightarrow> val_before lt a b \<or> val_before lt b a"
  using assms unfolding strict_order_def val_before_def by (auto split: if_splits)

lemma row_le_order:
  assumes "strict_order lt"
  shows "row_order (row_le lt cs)"
proof -
  note vb = val_before_strict [OF assms]
  have trans: "row_le lt cs a b \<Longrightarrow> row_le lt cs b c \<Longrightarrow> row_le lt cs a c" for a b c
  proof (induction cs)
    case (Cons p cs)
    obtain k d where p: "p = (k, d)" by (cases p)
    show ?case
      using Cons vb(1) vb(2) [of "col a k" "col b k" "col c k"] vb(2) [of "col c k" "col b k" "col a k"]
        vb(2) [of "col a k" "col b k" "col a k"] vb(2) [of "col b k" "col a k" "col b k"]
      by (auto simp: p split: if_splits sort_direction.splits)
  qed simp
  have tot: "row_le lt cs a b \<or> row_le lt cs b a" for a b
  proof (induction cs)
    case (Cons p cs)
    obtain k d where p: "p = (k, d)" by (cases p)
    show ?case using Cons vb(3) [of "col a k" "col b k"]
      by (auto simp: p split: if_splits sort_direction.splits)
  qed simp
  from trans tot show ?thesis unfolding row_order_def by blast
qed

lemma row_le_antisym:
  assumes "strict_order lt" "(''id'', d) \<in> set cs" "row_le lt cs a b" "row_le lt cs b a"
  shows "col a ''id'' = col b ''id''"
  using assms(2-4)
proof (induction cs)
  case (Cons p cs)
  obtain k d' where p: "p = (k, d')" by (cases p)
  note vb = val_before_strict [OF assms(1)]
  have "col a k = col b k"
    using Cons.prems(2,3) vb(1) vb(2) [of "col a k" "col b k" "col a k"]
      vb(2) [of "col b k" "col a k" "col b k"]
    by (auto simp: p split: if_splits sort_direction.splits)
  with Cons p show ?case by auto
qed simp

lemma sort_cols_id: "sort_cols rp ss = Inr cs \<Longrightarrow> (''id'', Asc) \<in> set cs"
  by (induction ss arbitrary: cs) (auto split: if_splits sum.splits)

section \<open>What a save writes\<close>

lemma set_cols_map_of:
  assumes "distinct (map fst vs)"
  shows "map_of (set_cols vs r) c = (case map_of vs c of None \<Rightarrow> map_of r c | Some v \<Rightarrow> Some v)"
  using assms
proof (induction vs arbitrary: r)
  case (Cons p vs)
  obtain k v where p: "p = (k, v)" by (cases p)
  have "set_cols (p # vs) r = set_cols vs (AList.update k v r)" by (simp add: set_cols_def p)
  moreover have "map_of vs k = None" using Cons.prems p by (simp add: map_of_eq_None_iff)
  ultimately show ?case using Cons p by (auto simp: update_conv' split: option.split)
qed (simp add: set_cols_def)

lemma set_cols_col:
  "distinct (map fst vs) \<Longrightarrow> col (set_cols vs r) c = (if map_of vs c = None then col r c else col vs c)"
  using set_cols_map_of [of vs r c] unfolding col_def by (cases "map_of vs c") simp_all

lemma std_repo_sel:
  assumes "rp = std_repo T ty names fl so lt n"
  shows "rp_table rp = T" "rp_version rp = en_version" "rp_set_version rp = (\<lambda>n e. e\<lparr>en_version := n\<rparr>)"
    "rp_to_dict rp = entity_to_dict" "rp_from_row rp = row_to_entity ty names n" "rp_tenanted rp"
    "rp_columns rp = base_names @ names"
  using assms by (simp_all add: std_repo_def)

lemma entity_keys:
  assumes "entity_ok ty names e"
  shows "map fst (entity_to_dict e) = base_names @ names" "distinct (map fst (entity_to_dict e))"
proof -
  show k: "map fst (entity_to_dict e) = base_names @ names"
    using entity_to_dict_ok [OF assms] assms by (simp add: base_vars_def base_names_def entity_ok_def)
  have "distinct (base_names @ names)"
    using assms by (auto simp: entity_ok_def list_all_iff) (simp add: base_names_def)
  with k show "distinct (map fst (entity_to_dict e))" by simp
qed

text \<open>\<open>save\<close> writes the entity with its version raised and the two columns of the update.\<close>

lemma save_values_dict:
  assumes "entity_ok ty names e" "rp = std_repo T ty names fl so lt n"
  shows "save_values rp ctx now e = entity_to_dict
    (e\<lparr>en_version := en_version e + 1, en_updated_at := Some now, en_updated_by := rc_user_id ctx\<rparr>)"
  using std_repo_sel [OF assms(2)] by (simp add: save_values_def entity_to_dict_def base_vars_def v_time_def)

lemma save_values_cols:
  assumes "entity_ok ty names e" "rp = std_repo T ty names fl so lt n"
  shows "col (save_values rp ctx now e) ''id'' = VUuid (en_id e)"
    and "col (save_values rp ctx now e) ''version'' = VInt (en_version e + 1)"
    and "distinct (map fst (save_values rp ctx now e))"
    and "map_of (save_values rp ctx now e) ''version'' \<noteq> None"
proof -
  let ?e = "e\<lparr>en_version := en_version e + 1, en_updated_at := Some now, en_updated_by := rc_user_id ctx\<rparr>"
  have ok: "entity_ok ty names ?e" using assms(1) by (simp add: entity_ok_def)
  from base_vars_cols [OF ok] entity_keys(2) [OF ok]
  show "col (save_values rp ctx now e) ''id'' = VUuid (en_id e)"
    "col (save_values rp ctx now e) ''version'' = VInt (en_version e + 1)"
    "distinct (map fst (save_values rp ctx now e))" "map_of (save_values rp ctx now e) ''version'' \<noteq> None"
    unfolding save_values_dict [OF assms] by simp_all
qed

text \<open>No update of the repository touches the column of the unique index.\<close>

lemma set_cols_keeps_keys:
  assumes "distinct (map fst vs)" "\<And>r. P r \<Longrightarrow> map_of vs ''id'' = None \<or> col vs ''id'' = col r ''id''"
  shows "keeps_keys row_clash P (set_cols vs)"
  using assms set_cols_col [OF assms(1)] by (auto simp: keeps_keys_def row_clash_def)

text \<open>A run of \<open>save\<close>.\<close>

lemma save_run:
  assumes "sql_up T rows row_clash rest" "entity_ok ty names e" "rp = std_repo T ty names fl so lt n"
  shows "\<exists>db1. repo_save rp ctx now e db =
      (if \<exists>r\<in>set (rows db). col r ''id'' = VUuid (en_id e) \<and> col r ''version'' = VInt (en_version e)
       then (Inr (Success (e\<lparr>en_version := en_version e + 1\<rparr>) [], e\<lparr>en_version := en_version e + 1\<rparr>), db1)
       else (Inr (Failure (version_conflict_error rp e) [], e), db1)) \<and>
    rows db1 = map (\<lambda>r. if col r ''id'' = VUuid (en_id e) \<and> col r ''version'' = VInt (en_version e)
      then set_cols (save_values rp ctx now e) r else r) (rows db)"
proof -
  note t = sql_up.axioms(1) [OF assms(1)]
  let ?vs = "save_values rp ctx now e"
  let ?P = "\<lambda>r. col r ''id'' = col ?vs ''id'' \<and> col r ''version'' = VInt (en_version e)"
  note rp = std_repo_sel [OF assms(3)] and va = save_values_cols [OF assms(2,3), of ctx now]
  have "keeps_keys row_clash ?P (set_cols ?vs)" by (rule set_cols_keeps_keys [OF va(3)]) simp
  then obtain m db1 where u: "sql_update T ?P (set_cols ?vs) db = (Inr m, db1)"
    using sql_up.update_up [OF assms(1)] by blast
  have "m \<noteq> 0 \<longleftrightarrow> (\<exists>r\<in>set (rows db). ?P r)"
    using sql_table.update_none(1) [OF t u] by blast
  moreover have "rows db1 = map (\<lambda>r. if ?P r then set_cols ?vs r else r) (rows db)"
    using sql_table.update_ok [OF t u] by simp
  ultimately show ?thesis
    using u va(1)
    by (intro exI [where x = db1], cases "m = 0")
      (auto simp add: repo_save_def rp ebind_Inr Let_def result_success_def result_failure_def)
qed

section \<open>An example repository\<close>

definition note_repo :: "(row list, entity) repo" where
  "note_repo = std_repo (list_sql (\<lambda>rs. rs) (\<lambda>rs _. rs) row_clash) ''Note'' [''title''] [''title''] [''title'']
     (\<lambda>a b. False) 0"

definition memo :: "uuid \<Rightarrow> uuid option \<Rightarrow> int \<Rightarrow> entity" where
  "memo i t v =
     \<lparr>en_type = ''Note'', en_id = i, en_created_at = 0, en_updated_at = None, en_deleted_at = None,
      en_created_by = None, en_updated_by = None, en_deleted_by = None, en_version = v,
      en_tenant_id = t, en_fields = [(''title'', VStr ''a'')]\<rparr>"

definition tenant_ctx :: "uuid option \<Rightarrow> nat request_context" where
  "tenant_ctx t =
     \<lparr>rc_request_id = 0, rc_correlation_id = 0, rc_trace_id = None, rc_span_id = None,
      rc_user_id = None, rc_tenant_id = t, rc_actor_kind = None, rc_attributes = []\<rparr>"

lemma note_ok: "entity_ok ''Note'' [''title''] (memo i t v)"
  by (simp add: entity_ok_def memo_def base_names_def)

lemma note_sel [simp]:
  "en_id (memo i t v) = i" "en_tenant_id (memo i t v) = t" "en_version (memo i t v) = v"
  "en_deleted_at (memo i t v) = None"
  by (simp_all add: memo_def)

lemma note_table: "sql_up (rp_table note_repo) (\<lambda>rs. rs) row_clash (\<lambda>_. ())"
  using list_table.sql_up_axioms by (simp add: note_repo_def std_repo_def)

lemma note_repo_eq:
  "note_repo = std_repo (rp_table note_repo) ''Note'' [''title''] [''title''] [''title''] (\<lambda>a b. False) 0"
  by (simp add: note_repo_def std_repo_def)

section \<open>Properties\<close>



text \<open>C13: Optimistic concurrency of \<open>save\<close>: it succeeds exactly when a stored row has the
  entity's id and the version the entity was read at, and returns a conflict otherwise. Only that
  row is written: it becomes \<open>vars(entity)\<close> with the version raised by one and the two audit
  columns of the update; every row of another id or another version, and every column the entity
  does not have, stays as it was. So of two entities read at the same version the second to be
  saved, by anyone and at any time, gets the conflict and writes nothing.\<close>

theorem repo_save_conflict:
  assumes "sql_up T rows row_clash rest" "entity_ok ty names e"
    and "unique_rows row_clash (rows db)" "rp = std_repo T ty names fl so lt n"
    and "stored = entity_to_dict
      (e\<lparr>en_version := en_version e + 1, en_updated_at := Some now, en_updated_by := rc_user_id ctx\<rparr>)"
    and "\<And>r. hit r \<longleftrightarrow> col r ''id'' = VUuid (en_id e) \<and> col r ''version'' = VInt (en_version e)"
  shows "\<exists>db1. repo_save rp ctx now e db =
      (if \<exists>r\<in>set (rows db). hit r
       then (Inr (Success (e\<lparr>en_version := en_version e + 1\<rparr>) [], e\<lparr>en_version := en_version e + 1\<rparr>), db1)
       else (Inr (Failure (version_conflict_error rp e) [], e), db1)) \<and>
    length (rows db1) = length (rows db) \<and>
    (\<forall>i<length (rows db).
       if hit (rows db ! i)
       then \<forall>c. col (rows db1 ! i) c = (if c \<in> set (map fst stored) then col stored c else col (rows db ! i) c)
       else rows db1 ! i = rows db ! i) \<and>
    ((\<exists>r\<in>set (rows db). hit r) \<longrightarrow>
       (\<forall>(ctx' :: 'r request_context) now' e'. entity_ok ty names e' \<longrightarrow> en_id e' = en_id e \<longrightarrow> en_version e' = en_version e \<longrightarrow>
          (\<exists>db2. repo_save rp ctx' now' e' db1 = (Inr (Failure (version_conflict_error rp e') [], e'), db2) \<and>
             rows db2 = rows db1)))"
proof -
  note t = sql_up.axioms(1) [OF assms(1)]
  let ?vs = "save_values rp ctx now e"
  note rp = std_repo_sel [OF assms(4)] and va = save_values_cols [OF assms(2,4), of ctx now]
  have vs: "?vs = stored" unfolding assms(5) by (rule save_values_dict [OF assms(2,4)])
  from save_run [OF assms(1,2,4), where db = db and ctx = ctx and now = now] obtain db1 where
    run: "repo_save rp ctx now e db =
      (if \<exists>r\<in>set (rows db). hit r
       then (Inr (Success (e\<lparr>en_version := en_version e + 1\<rparr>) [], e\<lparr>en_version := en_version e + 1\<rparr>), db1)
       else (Inr (Failure (version_conflict_error rp e) [], e), db1))"
    and rows1: "rows db1 = map (\<lambda>r. if hit r then set_cols ?vs r else r) (rows db)"
    unfolding assms(6) by blast
  have cells: "if hit (rows db ! i)
      then \<forall>c. col (rows db1 ! i) c = (if c \<in> set (map fst stored) then col stored c else col (rows db ! i) c)
      else rows db1 ! i = rows db ! i" if "i < length (rows db)" for i
    using that set_cols_col [OF va(3)] unfolding rows1 vs by (simp add: map_of_eq_None_iff)
  have stale: "\<exists>db2. repo_save rp ctx' now' e' db1 = (Inr (Failure (version_conflict_error rp e') [], e'), db2) \<and>
      rows db2 = rows db1"
    if h: "\<exists>r\<in>set (rows db). hit r" and e': "entity_ok ty names e'" "en_id e' = en_id e" "en_version e' = en_version e"
    for ctx' :: "'r request_context" and now' e'
  proof -
    from h obtain r where r: "r \<in> set (rows db)" "hit r" by blast
    have none: "\<not> hit r1" if r1: "r1 \<in> set (rows db1)" for r1
    proof -
      from r1 obtain r0 where r0: "r0 \<in> set (rows db)" and eq: "r1 = (if hit r0 then set_cols ?vs r0 else r0)"
        unfolding rows1 by auto
      show ?thesis
      proof (cases "hit r0")
        case True
        with eq set_cols_col [OF va(3), of r0 "''version''"] va(2,4) show ?thesis by (simp add: assms(6))
      next
        case False
        with eq show ?thesis by simp
      qed
    qed
    from save_run [OF assms(1) e'(1) assms(4), where db = db1 and ctx = ctx' and now = now'] e'(2,3) none
    obtain db2 where "repo_save rp ctx' now' e' db1 = (Inr (Failure (version_conflict_error rp e') [], e'), db2)"
      "rows db2 = map (\<lambda>r. if hit r then set_cols (save_values rp ctx' now' e') r else r) (rows db1)"
      unfolding assms(6) by auto
    moreover from this(2) none have "rows db2 = rows db1" by (simp add: map_idI)
    ultimately show ?thesis by blast
  qed
  show ?thesis
    using run cells stale arg_cong [OF rows1, of length]
    by - (rule exI [where x = db1], intro conjI allI impI, simp_all only: length_map, blast+)
qed

theorem repo_save_conflict_witness:
  "\<exists>db1. repo_save note_repo (tenant_ctx None) 5 (memo 5 None 1)
      [entity_to_dict (memo 5 None 1), entity_to_dict (memo 6 None 1)] =
      (Inr (Success (memo 5 None 2) [], memo 5 None 2), db1) \<and>
    db1 ! 1 = entity_to_dict (memo 6 None 1) \<and>
    (\<exists>db2. repo_save note_repo (tenant_ctx None) 6 (memo 5 None 1) db1 =
      (Inr (Failure (version_conflict_error note_repo (memo 5 None 1)) [], memo 5 None 1), db2) \<and> db2 = db1)"
proof -
  have v: "(memo 5 None 1)\<lparr>en_version := 2\<rparr> = memo 5 None 2" by (simp add: memo_def)
  let ?rows = "[entity_to_dict (memo 5 None 1), entity_to_dict (memo 6 None 1)]"
  let ?hit = "\<lambda>r. col r ''id'' = VUuid 5 \<and> col r ''version'' = VInt 1"
  note c = base_vars_cols(1,2) [OF note_ok]
  have u: "unique_rows row_clash ?rows" by (simp add: unique_rows_def row_clash_def c)
  from repo_save_conflict [where 'r = nat and db = ?rows and now = 5 and ctx = "tenant_ctx None" and e = "memo 5 None 1"
      and hit = ?hit, OF note_table note_ok u note_repo_eq refl]
  obtain db1 where s: "repo_save note_repo (tenant_ctx None) 5 (memo 5 None 1) ?rows =
      (Inr (Success (memo 5 None 2) [], memo 5 None 2), db1)"
    and o: "\<forall>i<2. if ?hit (?rows ! i) then True else db1 ! i = ?rows ! i"
    and l: "\<forall>ctx' :: nat request_context. \<forall>now' e'. entity_ok ''Note'' [''title''] e' \<longrightarrow> en_id e' = 5 \<longrightarrow> en_version e' = 1 \<longrightarrow>
          (\<exists>db2. repo_save note_repo ctx' now' e' db1 = (Inr (Failure (version_conflict_error note_repo e') [], e'), db2) \<and>
             db2 = db1)"
    by (auto simp: c v)
  from o have "db1 ! 1 = entity_to_dict (memo 6 None 1)" by (auto simp: c dest: spec [of _ 1])
  with s l note_ok [of 5 None 1] show ?thesis by (metis note_sel(1,3))
qed

lemma repo_get_success:
  assumes t: "sql_table (rp_table rp) rows clash rest"
    and g: "repo_get rp ctx i del db = (Inr (Success e md), db')"
  shows "\<exists>r\<in>set (rows db). col r ''id'' = VUuid i \<and> scope_query rp ctx del r \<and> rp_from_row rp r = Inr e"
proof -
  let ?P = "\<lambda>r. col r ''id'' = VUuid i \<and> scope_query rp ctx del r"
  obtain x db1 where q: "sql_select (rp_table rp) ?P no_order None db = (x, db1)"
    by (cases "sql_select (rp_table rp) ?P no_order None db")
  with g obtain r rs where x: "x = Inr (r # rs)"
    by (cases x) (auto simp: repo_get_def ebind_def from_optional_def result_failure_def split: list.splits)
  have "set (r # rs) = set (filter ?P (rows db))"
    by (rule sql_table.select_mset(2) [OF t]) (use q x in simp)
  then have "r \<in> set (rows db) \<and> ?P r" by auto
  moreover have "rp_from_row rp r = Inr e"
    using g q x by (auto simp: repo_get_def ebind_def from_optional_def result_success_def split: sum.splits)
  ultimately show ?thesis by blast
qed

lemma emap_Inr: "map f rs = map Inr ys \<Longrightarrow> emap (\<lambda>r. elift (f r)) rs s = (Inr ys, s)"
  by (induction rs arbitrary: ys) (auto simp: ebind_def Cons_eq_map_conv)

text \<open>Reads are isolated: when the context has a tenant, an entity returned by \<open>get\<close> comes from
  a stored row of that tenant, and without \<open>include_deleted\<close> from a row that is not deleted;
  soft deletion has no such test, so it succeeds on a live row of any tenant.\<close>

theorem repo_tenant_reads_not_writes:
  assumes "sql_up (rp_table rp) rows row_clash rest" "rp_tenanted rp"
    and "''tenant_id'' \<in> set (rp_columns rp)" "''deleted_at'' \<in> set (rp_columns rp)"
    and "rc_tenant_id ctx = Some t"
  shows "(\<forall>i e md db'. repo_get rp ctx i False db = (Inr (Success e md), db') \<longrightarrow>
      (\<exists>r\<in>set (rows db). rp_from_row rp r = Inr e \<and> col r ''id'' = VUuid i \<and>
        col r ''tenant_id'' = VUuid t \<and> col r ''deleted_at'' = VNull)) \<and>
    (\<forall>r\<in>set (rows db). \<forall>i. col r ''id'' = VUuid i \<and> col r ''deleted_at'' = VNull \<longrightarrow>
      (\<exists>db'. repo_soft_delete rp ctx now i db = (Inr (Success () []), db') \<and>
        rows db' = map (\<lambda>r. if col r ''id'' = VUuid i \<and> col r ''deleted_at'' = VNull
          then set_cols [(''deleted_at'', VTime now), (''deleted_by'', v_uuid (rc_user_id ctx))] r
          else r) (rows db)))"
proof (intro conjI allI impI ballI)
  note tb = sql_up.axioms(1) [OF assms(1)]
  fix i e md db'
  assume "repo_get rp ctx i False db = (Inr (Success e md), db')"
  from repo_get_success [OF tb this] obtain r where "r \<in> set (rows db)" "col r ''id'' = VUuid i"
    "scope_query rp ctx False r" "rp_from_row rp r = Inr e" by blast
  moreover from this(3) have "col r ''tenant_id'' = VUuid t \<and> col r ''deleted_at'' = VNull"
    using assms(2-5) by (simp add: scope_query_def)
  ultimately show "\<exists>r\<in>set (rows db). rp_from_row rp r = Inr e \<and> col r ''id'' = VUuid i \<and>
      col r ''tenant_id'' = VUuid t \<and> col r ''deleted_at'' = VNull" by blast
next
  note tb = sql_up.axioms(1) [OF assms(1)]
  fix r i
  assume r: "r \<in> set (rows db)" and c: "col r ''id'' = VUuid i \<and> col r ''deleted_at'' = VNull"
  let ?P = "\<lambda>r. col r ''id'' = VUuid i \<and> col r ''deleted_at'' = VNull"
  let ?f = "set_cols [(''deleted_at'', VTime now), (''deleted_by'', v_uuid (rc_user_id ctx))]"
  have "keeps_keys row_clash ?P ?f" by (rule set_cols_keeps_keys) simp_all
  then obtain m db' where u: "sql_update (rp_table rp) ?P ?f db = (Inr m, db')"
    using sql_up.update_up [OF assms(1)] by blast
  from sql_table.update_none(1) [OF tb u] r c have "m \<noteq> 0" by auto
  with u sql_table.update_ok [OF tb u]
  show "\<exists>db'. repo_soft_delete rp ctx now i db = (Inr (Success () []), db') \<and>
      rows db' = map (\<lambda>r. if ?P r then ?f r else r) (rows db)"
    by (intro exI [of _ db']) (simp add: repo_soft_delete_def ebind_Inr result_success_def)
qed

theorem repo_tenant_reads_not_writes_witness:
  "\<exists>db'. repo_soft_delete note_repo (tenant_ctx (Some 7)) 9 5 [entity_to_dict (memo 5 (Some 8) 1)] =
     (Inr (Success () []), db')"
proof -
  have c: "rp_tenanted note_repo" "''tenant_id'' \<in> set (rp_columns note_repo)"
    "''deleted_at'' \<in> set (rp_columns note_repo)" "rc_tenant_id (tenant_ctx (Some 7)) = Some 7"
    by (simp_all add: note_repo_def std_repo_def base_names_def tenant_ctx_def)
  from repo_tenant_reads_not_writes [OF note_table c, where db = "[entity_to_dict (memo 5 (Some 8) 1)]" and now = 9]
    base_vars_cols(1,4) [OF note_ok, of 5 "Some 8" 1]
  show ?thesis by (auto simp: v_time_def)
qed

text \<open>Pages partition the result: when every row can be read, the pages 1 to \<open>total_pages\<close> of
  one listing, in order, concatenate to all matching rows, each exactly once, in the order of
  the sort columns with the id as tiebreaker; every page carries the full count.\<close>

theorem repo_list_partition:
  assumes "sql_up (rp_table rp) rows row_clash rest" "strict_order (rp_less rp)"
    and "unique_rows row_clash (rows db)"
    and "apply_filters rp fs (scope_query rp ctx del) = Inr P" "sort_cols rp ss = Inr cs"
    and "0 < n" "map (rp_from_row rp) (order_rows (row_le (rp_less rp) cs) (filter P (rows db))) = map Inr es"
  shows "\<exists>pages. length pages = (length es + n - 1) div n \<and>
    (\<forall>i<length pages. repo_list rp ctx \<lparr>op_page = Suc i, op_page_size = n, op_sort = ss, op_filters = fs\<rparr> del db =
       (Inr (pages ! i), db) \<and> pg_total (pages ! i) = length es) \<and>
    concat (map pg_items pages) = es"
proof -
  note tb = sql_up.axioms(1) [OF assms(1)]
  let ?le = "row_le (rp_less rp) cs" and ?k = "(length es + n - 1) div n"
  let ?ord = "order_rows ?le (filter P (rows db))"
  note ro = row_le_order [OF assms(2), of cs]
  have lenes: "length es = length (filter P (rows db))"
    using arg_cong [OF assms(7), of length] by (metis length_map order_rows_mset size_mset)
  have anti: "a = b" if "a \<in> set ?ord" "b \<in> set ?ord" "?le a b" "?le b a" for a b
  proof -
    have "col a ''id'' = col b ''id''"
      by (rule row_le_antisym [OF assms(2) sort_cols_id [OF assms(5)] that(3,4)])
    moreover have "a \<in> set (rows db)" "b \<in> set (rows db)"
      using that(1,2) by (metis filter_is_subset order_rows_mset set_mset_mset subsetD)+
    ultimately show "a = b"
      using unique_rows_same [OF assms(3), of a b] by (simp add: row_clash_def)
  qed
  let ?page = "\<lambda>i. \<lparr>pg_items = take n (drop (i * n) es), pg_page = Suc i, pg_page_size = n,
      pg_total = length es\<rparr>"
  have page: "repo_list rp ctx \<lparr>op_page = Suc i, op_page_size = n, op_sort = ss, op_filters = fs\<rparr> del db =
      (Inr (?page i), db)" for i
  proof -
    obtain m db1 where c: "sql_count (rp_table rp) P db = (Inr m, db1)"
      using sql_up.count_up [OF assms(1)] by blast
    with sql_table.count_rows [OF tb c] lenes have m: "m = length es" "db1 = db" by auto
    obtain rs db2 where q: "sql_page (rp_table rp) P ?le (i * n) n db = (Inr rs, db2)"
      using sql_up.page_up [OF assms(1)] by blast
    have db2: "db2 = db" using sql_table.page_state [OF tb q] .
    from sql_table.page_rows [OF tb ro q] obtain ys where ys: "mset ys = mset (filter P (rows db))"
      "sorted_wrt ?le ys" "rs = take n (drop (i * n) ys)" by blast
    have "?ord = ys"
      by (rule sorted_wrt_unique [where le = ?le])
        (use ys order_rows_sorted [OF ro] anti in auto)
    then have "map (rp_from_row rp) rs = map Inr (take n (drop (i * n) es))"
      using ys(3) assms(7) by (simp flip: take_map drop_map)
    then have "emap (\<lambda>r. elift (rp_from_row rp r)) rs db = (Inr (take n (drop (i * n) es)), db)"
      by (rule emap_Inr)
    with assms(4,5) c m q db2 show ?thesis
      by (simp add: repo_list_def ebind_Inr pagination_offset_def)
  qed
  have "concat (map pg_items (map ?page [0..<?k])) = es"
    using pages_concat [OF assms(6), of es] by (simp add: o_def)
  then show ?thesis using page
    by (intro exI [of _ "map ?page [0..<?k]"]) simp
qed

lemma strict_order_exists: "\<exists>lt. strict_order lt"
proof -
  obtain R :: "sqlval rel" where "well_order_on UNIV R" using well_order_on by blast
  then have r: "refl_on UNIV R" "trans R" "antisym R" "total_on UNIV R"
    by (auto simp: well_order_on_def linear_order_on_def partial_order_on_def preorder_on_def)
  have "strict_order (\<lambda>a b. (a, b) \<in> R \<and> a \<noteq> b)"
    using r unfolding strict_order_def
    by (auto dest: antisymD transD simp: total_on_def)
  then show ?thesis by blast
qed

theorem repo_list_partition_witness:
  "\<exists>lt es pages. strict_order lt \<and> length es = 2 \<and> length pages = 2 \<and>
     repo_list (note_repo\<lparr>rp_less := lt\<rparr>) (tenant_ctx None)
       \<lparr>op_page = 1, op_page_size = 1, op_sort = [], op_filters = []\<rparr> False
       [entity_to_dict (memo 5 None 1), entity_to_dict (memo 6 None 1)] =
       (Inr (pages ! 0), [entity_to_dict (memo 5 None 1), entity_to_dict (memo 6 None 1)]) \<and>
     concat (map pg_items pages) = es"
proof -
  obtain lt where lt: "strict_order lt" using strict_order_exists by blast
  let ?rp = "note_repo\<lparr>rp_less := lt\<rparr>" and ?ctx = "tenant_ctx None"
  let ?db = "[entity_to_dict (memo 5 None 1), entity_to_dict (memo 6 None 1)]"
  let ?P = "scope_query ?rp ?ctx False"
  let ?ord = "order_rows (row_le (rp_less ?rp) [(''id'', Asc)]) (filter ?P ?db)"
  have c5: "col (entity_to_dict (memo 5 None 1)) ''id'' = VUuid 5"
    "col (entity_to_dict (memo 6 None 1)) ''id'' = VUuid 6"
    "col (entity_to_dict (memo i None 1)) ''deleted_at'' = VNull" for i
    using base_vars_cols(1,4) [OF note_ok] by (simp_all add: v_time_def)
  have P: "filter ?P ?db = ?db"
    by (simp add: scope_query_def note_repo_def std_repo_def c5 tenant_ctx_def)
  have dec: "rp_from_row ?rp (entity_to_dict (memo i None 1)) = Inr (memo i None 1)" for i
    using row_to_entity_dict [OF note_ok] by (simp add: note_repo_def std_repo_def)
  have set: "set ?ord = set ?db" unfolding P by (metis order_rows_mset set_mset_mset)
  have len: "length ?ord = 2" unfolding P by (metis order_rows_mset size_mset length_Cons list.size(3) numeral_2_eq_2)
  let ?es = "map (\<lambda>r. projr (rp_from_row ?rp r)) ?ord"
  have es: "map (rp_from_row ?rp) ?ord = map Inr ?es"
    using set dec by auto
  have tb: "sql_up (rp_table ?rp) (\<lambda>rs. rs) row_clash (\<lambda>_. ())" using note_table by simp
  have u: "unique_rows row_clash ?db" by (simp add: unique_rows_def row_clash_def c5)
  from repo_list_partition [OF tb _ u, where n = 1 and cs = "[(''id'', Asc)]" and fs = "[]" and ss = "[]"
      and ctx = ?ctx and del = False and es = ?es and P = ?P] lt es len
  obtain pages where "length pages = 2" "concat (map pg_items pages) = ?es"
    "\<forall>i<length pages. repo_list ?rp ?ctx \<lparr>op_page = Suc i, op_page_size = 1, op_sort = [], op_filters = []\<rparr> False ?db =
       (Inr (pages ! i), ?db)"
    by auto
  with lt len show ?thesis
    by (intro exI [of _ lt] exI [of _ ?es] exI [of _ pages]) auto
qed

end
