(* ===== verification/Qx_Uow.thy ===== *)
theory Qx_Uow
  imports Qx_Domain Qx_Sql
begin

text \<open>
  The package \<open>qx-db\<close>, transactions: the unit of work (\<open>uow\<close>) and the outbox recorder
  (\<open>outbox\<close>). Objects that several callers share live in the world and are named by
  references: the aggregates, and the unit-of-work objects themselves, whose sessions act on
  the database part of the world. What a session promises is the locale \<open>session_laws\<close>.
\<close>

section \<open>The world of one task\<close>

record uow =
  uw_open :: bool
  uw_tracked :: "nat list"
  uw_committed :: bool
  uw_rolled_back :: bool

definition uow_init :: uow where
  "uow_init = \<lparr>uw_open = False, uw_tracked = [], uw_committed = False, uw_rolled_back = False\<rparr>"

record ('d, 'a) world =
  w_db :: 'd
  w_heap :: "nat \<Rightarrow> aggregate"
  w_uows :: "uow list"
  w_active :: "nat option"
  w_ctx :: "'a request_context"

record 'd session_api =
  se_begin :: "nat \<Rightarrow> ('d, unit) eff"
  se_commit :: "nat \<Rightarrow> ('d, unit) eff"
  se_rollback :: "nat \<Rightarrow> ('d, unit) eff"
  se_close :: "nat \<Rightarrow> ('d, unit) eff"

text \<open>The constructor arguments of a unit of work.\<close>

record ('d, 'w) uow_env =
  ue_session :: "'d session_api"
  ue_dispatcher :: "(event \<Rightarrow> ('w, unit) eff) option"
  ue_outbox :: "(nat \<Rightarrow> event list \<Rightarrow> ('d, unit) eff) option"

definition on_db :: "('d, 'b) eff \<Rightarrow> (('d, 'a, 'z) world_scheme, 'b) eff" where
  "on_db m w = (case m (w_db w) of (r, d) \<Rightarrow> (r, w\<lparr>w_db := d\<rparr>))"

abbreviation uow_at :: "nat \<Rightarrow> ('d, 'a, 'z) world_scheme \<Rightarrow> uow" where
  "uow_at r w \<equiv> w_uows w ! r"

definition set_uow :: "nat \<Rightarrow> (uow \<Rightarrow> uow) \<Rightarrow> ('d, 'a, 'z) world_scheme \<Rightarrow> ('d, 'a, 'z) world_scheme" where
  "set_uow r f w = w\<lparr>w_uows := (w_uows w)[r := f (w_uows w ! r)]\<rparr>"

text \<open>\<open>UnitOfWork(...)\<close>: a new object; its reference is returned.\<close>

definition uow_new :: "(('d, 'a, 'z) world_scheme, nat) eff" where
  "uow_new w = (Inr (length (w_uows w)), w\<lparr>w_uows := w_uows w @ [uow_init]\<rparr>)"

section \<open>The outbox table\<close>

record outbox_row =
  ob_id :: uuid
  ob_event_name :: string
  ob_event_version :: int
  ob_payload :: dict
  ob_occurred_at :: instant
  ob_correlation_id :: "uuid option"
  ob_causation_id :: "uuid option"
  ob_tenant_id :: "uuid option"
  ob_published_at :: "instant option"
  ob_attempts :: int
  ob_last_error :: "string option"

definition ob_clash :: "outbox_row \<Rightarrow> outbox_row \<Rightarrow> bool" where
  "ob_clash a b \<longleftrightarrow> ob_id a = ob_id b"

definition outbox_row_of :: "(instant \<Rightarrow> string) \<Rightarrow> uuid \<Rightarrow> event \<Rightarrow> outbox_row" where
  "outbox_row_of iso_fmt new_id ev =
     \<lparr>ob_id = new_id, ob_event_name = ev_name ev, ob_event_version = ev_version ev,
      ob_payload = envelope_at (iso_fmt (stamp_instant (ev_occurred_at ev))) ev,
      ob_occurred_at = stamp_instant (ev_occurred_at ev),
      ob_correlation_id = ev_correlation_id ev, ob_causation_id = ev_causation_id ev,
      ob_tenant_id = ev_tenant_id ev, ob_published_at = None, ob_attempts = 0,
      ob_last_error = None\<rparr>"

text \<open>\<open>fresh i\<close> is the UUID of the i-th row.\<close>

definition outbox_rows :: "(instant \<Rightarrow> string) \<Rightarrow> (nat \<Rightarrow> uuid) \<Rightarrow> event list \<Rightarrow> outbox_row list" where
  "outbox_rows iso_fmt fresh evs = map (\<lambda>(i, ev). outbox_row_of iso_fmt (fresh i) ev) (enumerate 0 evs)"

definition outbox_record ::
  "('d, outbox_row) sql \<Rightarrow> (instant \<Rightarrow> string) \<Rightarrow> (nat \<Rightarrow> uuid) \<Rightarrow> nat \<Rightarrow> event list \<Rightarrow> ('d, unit) eff" where
  "outbox_record T iso_fmt fresh session evs =
     (if evs = [] then eret ()
      else if list_ex (is_text \<circ> ev_occurred_at) evs then eraise no_isoformat
      else sql_insert T (outbox_rows iso_fmt fresh evs))"

section \<open>The unit of work\<close>

text \<open>\<open>aggregate not in tracked\<close> compares by identity or \<open>__eq__\<close>, which is type and id.\<close>

definition uow_track :: "nat \<Rightarrow> nat \<Rightarrow> (('d, 'a, 'z) world_scheme, unit) eff" where
  "uow_track r agg w =
     (Inr (),
      if \<exists>t \<in> set (uw_tracked (uow_at r w)). t = agg \<or> entity_eq (w_heap w t) (w_heap w agg) then w
      else set_uow r (\<lambda>u. u\<lparr>uw_tracked := uw_tracked u @ [agg]\<rparr>) w)"

definition uow_session :: "nat \<Rightarrow> (('d, 'a, 'z) world_scheme, nat) eff" where
  "uow_session r w =
     (if uw_open (uow_at r w) then Inr r
      else Inl (PyException ''RuntimeError'' ''UnitOfWork session accessed outside of `async with` block''), w)"

definition enrich_event :: "'a request_context \<Rightarrow> event \<Rightarrow> event" where
  "enrich_event ctx ev =
     ev\<lparr>ev_correlation_id := or_else (ev_correlation_id ev) (Some (rc_correlation_id ctx)),
        ev_tenant_id := or_else (ev_tenant_id ev) (rc_tenant_id ctx),
        ev_actor_id := or_else (ev_actor_id ev) (rc_user_id ctx)\<rparr>"

fun drain_events ::
  "'a request_context \<Rightarrow> nat list \<Rightarrow> (nat \<Rightarrow> aggregate) \<Rightarrow> event list \<times> (nat \<Rightarrow> aggregate)" where
  "drain_events ctx [] h = ([], h)"
| "drain_events ctx (a # as) h =
     (case drain_events ctx as (h(a := (h a)\<lparr>ar_pending := []\<rparr>)) of
        (evs, h') \<Rightarrow> (map (enrich_event ctx) (ar_pending (h a)) @ evs, h'))"

definition integration_events :: "event list \<Rightarrow> event list" where
  "integration_events evs = filter (\<lambda>ev. ev_kind ev = IntegrationEvent) evs"

definition domain_events :: "event list \<Rightarrow> event list" where
  "domain_events evs = filter (\<lambda>ev. ev_kind ev = DomainEvent) evs"

definition uow_dispatch ::
  "('d, ('d, 'a, 'z) world_scheme) uow_env \<Rightarrow> nat \<Rightarrow> event list
     \<Rightarrow> (('d, 'a, 'z) world_scheme, unit) eff" where
  "uow_dispatch env r evs =
     ebind (case ue_dispatcher env of None \<Rightarrow> eret () | Some publish \<Rightarrow> efold publish (domain_events evs))
       (\<lambda>_. case ue_outbox env of
              None \<Rightarrow> eret ()
            | Some record_events \<Rightarrow>
                (if integration_events evs = [] then eret ()
                 else on_db (record_events r (integration_events evs))))"

definition uow_commit ::
  "('d, ('d, 'a, 'z) world_scheme) uow_env \<Rightarrow> nat \<Rightarrow> (('d, 'a, 'z) world_scheme, unit) eff" where
  "uow_commit env r w =
     (let u = uow_at r w
      in if \<not> uw_open u
         then (Inl (PyException ''RuntimeError'' ''UnitOfWork.commit called outside async with block''), w)
         else if uw_committed u \<or> uw_rolled_back u then (Inr (), w)
         else case drain_events (w_ctx w) (uw_tracked u) (w_heap w) of
           (evs, h) \<Rightarrow>
             ebind (uow_dispatch env r evs) (\<lambda>_.
             ebind (on_db (se_commit (ue_session env) r)) (\<lambda>_.
               emodify (set_uow r (\<lambda>u. u\<lparr>uw_committed := True\<rparr>)))) (w\<lparr>w_heap := h\<rparr>))"

definition uow_rollback ::
  "('d, ('d, 'a, 'z) world_scheme) uow_env \<Rightarrow> nat \<Rightarrow> (('d, 'a, 'z) world_scheme, unit) eff" where
  "uow_rollback env r w =
     (let u = uow_at r w
      in if \<not> uw_open u \<or> uw_rolled_back u \<or> uw_committed u then (Inr (), w)
         else ebind (on_db (se_rollback (ue_session env) r))
                (\<lambda>_. emodify (set_uow r (\<lambda>u. u\<lparr>uw_rolled_back := True\<rparr>))) w)"

definition uow_aenter ::
  "('d, ('d, 'a, 'z) world_scheme) uow_env \<Rightarrow> nat \<Rightarrow> (('d, 'a, 'z) world_scheme, unit) eff" where
  "uow_aenter env r =
     ebind (emodify (set_uow r (\<lambda>u. u\<lparr>uw_open := True\<rparr>))) (\<lambda>_. on_db (se_begin (ue_session env) r))"

definition uow_aexit ::
  "('d, ('d, 'a, 'z) world_scheme) uow_env \<Rightarrow> nat \<Rightarrow> exn option \<Rightarrow> (('d, 'a, 'z) world_scheme, unit) eff" where
  "uow_aexit env r exc =
     efinally
       (\<lambda>w. if exc \<noteq> None then uow_rollback env r w
            else if \<not> uw_committed (uow_at r w) \<and> \<not> uw_rolled_back (uow_at r w)
            then uow_rollback env r w else (Inr (), w))
       (\<lambda>w. if uw_open (uow_at r w)
            then ebind (on_db (se_close (ue_session env) r))
                   (\<lambda>_. emodify (set_uow r (\<lambda>u. u\<lparr>uw_open := False\<rparr>))) w
            else (Inr (), w))"

text \<open>\<open>async with uow: body\<close>; \<open>__aexit__\<close> returns \<open>None\<close>, so it never swallows an exception.\<close>

definition async_with :: "('s, unit) eff \<Rightarrow> (exn option \<Rightarrow> ('s, unit) eff) \<Rightarrow> ('s, 'b) eff \<Rightarrow> ('s, 'b) eff" where
  "async_with aenter aexit body =
     ebind aenter (\<lambda>_ s.
       case body s of
         (Inr x, s1) \<Rightarrow> ebind (aexit None) (\<lambda>_. eret x) s1
       | (Inl e, s1) \<Rightarrow> ebind (aexit (Some e)) (\<lambda>_. eraise e) s1)"

section \<open>What a session promises\<close>

text \<open>\<open>com\<close> is the durable state of the database, \<open>wrk\<close> what the open transaction sees.\<close>

locale session_laws =
  fixes S :: "'d session_api" and com :: "'d \<Rightarrow> 'c" and wrk :: "'d \<Rightarrow> 'c"
  assumes begin_com: "se_begin S r d = (x, d') \<Longrightarrow> com d' = com d"
    and begin_wrk: "se_begin S r d = (Inr u, d') \<Longrightarrow> wrk d' = com d"
    and commit_ok: "se_commit S r d = (Inr u, d') \<Longrightarrow> com d' = wrk d"
    and commit_failed: "se_commit S r d = (Inl e, d') \<Longrightarrow> com d' = com d"
    and rollback_com: "se_rollback S r d = (x, d') \<Longrightarrow> com d' = com d"
    and close_com: "se_close S r d = (x, d') \<Longrightarrow> com d' = com d"

text \<open>A transactional store: the durable value and the working copy.\<close>

definition tx_session :: "('c \<times> 'c) session_api" where
  "tx_session =
     \<lparr>se_begin = (\<lambda>r d. (Inr (), (fst d, fst d))), se_commit = (\<lambda>r d. (Inr (), (snd d, snd d))),
      se_rollback = (\<lambda>r d. (Inr (), (fst d, fst d))), se_close = (\<lambda>r d. (Inr (), (fst d, fst d)))\<rparr>"

interpretation tx: session_laws tx_session fst snd
  by unfold_locales (auto simp: tx_session_def)

text \<open>The part of a unit of work that says how it ended.\<close>

definition uow_phase :: "nat \<Rightarrow> ('d, 'a, 'z) world_scheme \<Rightarrow> bool \<times> bool \<times> bool \<times> bool" where
  "uow_phase r w =
     (r < length (w_uows w), uw_open (uow_at r w), uw_committed (uow_at r w), uw_rolled_back (uow_at r w))"

text \<open>Code that runs inside the transaction: it does not touch the durable state, does not end
  the unit of work itself, and keeps the constraints \<open>ok\<close> of the tables.\<close>

definition inside_tx ::
  "nat \<Rightarrow> ('d \<Rightarrow> 'c) \<Rightarrow> ('d \<Rightarrow> bool) \<Rightarrow> (('d, 'a, 'z) world_scheme, 'b) eff \<Rightarrow> bool" where
  "inside_tx r com ok body \<longleftrightarrow>
     (\<forall>w x w'. body w = (x, w') \<longrightarrow>
        com (w_db w') = com (w_db w) \<and> uow_phase r w' = uow_phase r w \<and> (ok (w_db w) \<longrightarrow> ok (w_db w')))"

lemma on_db_simps [simp]:
  "w_uows (snd (on_db m w)) = w_uows w" "w_db (snd (on_db m w)) = snd (m (w_db w))"
  "fst (on_db m w) = fst (m (w_db w))" "w_ctx (snd (on_db m w)) = w_ctx w"
  "w_active (snd (on_db m w)) = w_active w" "w_heap (snd (on_db m w)) = w_heap w"
  by (simp_all add: on_db_def split: prod.split)

lemma on_db_eq: "m (w_db w) = (x, d) \<Longrightarrow> on_db m w = (x, w\<lparr>w_db := d\<rparr>)"
  by (simp add: on_db_def)

lemma set_uow_simps [simp]:
  "w_db (set_uow r f w) = w_db w" "w_heap (set_uow r f w) = w_heap w"
  "w_ctx (set_uow r f w) = w_ctx w" "w_active (set_uow r f w) = w_active w"
  "length (w_uows (set_uow r f w)) = length (w_uows w)"
  "r < length (w_uows w) \<Longrightarrow> uow_at r (set_uow r f w) = f (uow_at r w)"
  by (simp_all add: set_uow_def)

lemma inside_txD:
  assumes "inside_tx r com ok body" "body w = (x, w')"
  shows "com (w_db w') = com (w_db w)" "uow_phase r w' = uow_phase r w" "ok (w_db w) \<Longrightarrow> ok (w_db w')"
  using assms unfolding inside_tx_def by blast+

lemma inside_tx_ret: "inside_tx r com ok (eret x)"
  by (auto simp: inside_tx_def)

lemma inside_tx_bind:
  assumes m: "inside_tx r com ok m" and f: "\<And>x. inside_tx r com ok (f x)"
  shows "inside_tx r com ok (ebind m f)"
  unfolding inside_tx_def
proof (intro allI impI)
  fix w x w' assume e: "ebind m f w = (x, w')"
  obtain y w1 where y: "m w = (y, w1)" by fastforce
  note d1 = inside_txD [OF m y]
  show "com (w_db w') = com (w_db w) \<and> uow_phase r w' = uow_phase r w \<and> (ok (w_db w) \<longrightarrow> ok (w_db w'))"
  proof (cases y)
    case (Inl ex)
    with e y have "w' = w1" by (simp add: ebind_def)
    with d1 show ?thesis by simp
  next
    case (Inr v)
    with e y have "f v w1 = (x, w')" by (simp add: ebind_def)
    from inside_txD [OF f this] d1 show ?thesis by simp
  qed
qed

lemma inside_tx_fold: "(\<And>x. inside_tx r com ok (f x)) \<Longrightarrow> inside_tx r com ok (efold f xs)"
  by (induction xs) (use inside_tx_ret [of r com ok "()"] in \<open>auto intro!: inside_tx_bind simp: eret_def [abs_def]\<close>)

section \<open>What commit does\<close>

text \<open>Draining reads every buffer once and leaves it empty.\<close>

lemma drain_events_spec:
  assumes "distinct as"
  shows "drain_events ctx as h =
    (concat (map (\<lambda>a. map (enrich_event ctx) (ar_pending (h a))) as),
     \<lambda>a. if a \<in> set as then (h a)\<lparr>ar_pending := []\<rparr> else h a)"
  using assms
proof (induction as arbitrary: h)
  case Nil
  then show ?case by simp
next
  case (Cons b bs)
  let ?h = "h(b := (h b)\<lparr>ar_pending := []\<rparr>)"
  have "drain_events ctx bs ?h =
    (concat (map (\<lambda>a. map (enrich_event ctx) (ar_pending (?h a))) bs),
     \<lambda>a. if a \<in> set bs then (?h a)\<lparr>ar_pending := []\<rparr> else ?h a)"
    using Cons.prems by (intro Cons.IH) simp
  moreover have "concat (map (\<lambda>a. map (enrich_event ctx) (ar_pending (?h a))) bs) =
      concat (map (\<lambda>a. map (enrich_event ctx) (ar_pending (h a))) bs)"
    using Cons.prems by (intro arg_cong [where f = concat] map_cong) auto
  moreover have "(\<lambda>a. if a \<in> set bs then (?h a)\<lparr>ar_pending := []\<rparr> else ?h a) =
      (\<lambda>a. if a \<in> set (b # bs) then (h a)\<lparr>ar_pending := []\<rparr> else h a)"
    by (auto simp: fun_eq_iff)
  ultimately show ?case by (simp only: drain_events.simps prod.case list.map concat.simps)
qed

text \<open>The rows the recorder writes carry the events, in order, and are all pending.\<close>

lemma outbox_rows_simps [simp]:
  "length (outbox_rows iso_fmt fresh evs) = length evs"
  "map ob_event_name (outbox_rows iso_fmt fresh evs) = map ev_name evs"
  by (simp_all add: outbox_rows_def enumerate_eq_zip outbox_row_of_def comp_def case_prod_beta'
      flip: map_map [of ev_name snd, unfolded comp_def])

lemma outbox_rows_nth:
  "i < length evs \<Longrightarrow> outbox_rows iso_fmt fresh evs ! i = outbox_row_of iso_fmt (fresh i) (evs ! i)"
  by (simp add: outbox_rows_def nth_enumerate_eq)

lemma outbox_rows_Nil [simp]: "outbox_rows iso_fmt fresh [] = []"
  by (simp add: outbox_rows_def)

text \<open>A unit of work that has ended ignores commit and rollback.\<close>

lemma uow_ended_inert:
  assumes "uw_committed (uow_at r w) \<or> uw_rolled_back (uow_at r w)"
  shows "uow_rollback env r w = (Inr (), w)"
    and "uw_open (uow_at r w) \<Longrightarrow> uow_commit env r w = (Inr (), w)"
  using assms by (auto simp: uow_rollback_def uow_commit_def Let_def)

lemma dispatch_domain_inside:
  assumes "\<And>publish ev. disp = Some publish \<Longrightarrow> inside_tx r com ok (publish ev)"
  shows "inside_tx r com ok (case disp of None \<Rightarrow> eret () | Some publish \<Rightarrow> efold publish evs)"
  using assms by (cases disp) (auto intro: inside_tx_fold inside_tx_ret)

definition dispatch_domain ::
  "('d, ('d, 'a, 'z) world_scheme) uow_env \<Rightarrow> event list \<Rightarrow> (('d, 'a, 'z) world_scheme, unit) eff" where
  "dispatch_domain env evs =
     (case ue_dispatcher env of None \<Rightarrow> eret () | Some publish \<Rightarrow> efold publish (domain_events evs))"

lemma uow_phase_on_db: "on_db m w = (x, w') \<Longrightarrow> uow_phase r w' = uow_phase r w"
  by (metis on_db_simps(1) snd_conv uow_phase_def)

lemma outbox_write:
  assumes T: "sql_table T rows ob_clash rest" and u: "unique_rows ob_clash (rows (w_db w))"
    and run: "(if evs = [] then eret () else on_db (outbox_record T iso_fmt fresh r evs)) w = (x, w')"
  shows "(x = Inr () \<longrightarrow> rows (w_db w') = rows (w_db w) @ outbox_rows iso_fmt fresh evs
            \<and> rest (w_db w') = rest (w_db w)) \<and>
         uow_phase r w' = uow_phase r w \<and> w_heap w' = w_heap w"
proof (cases "evs = []")
  case True
  with run show ?thesis by auto
next
  case False
  show ?thesis
  proof (cases "list_ex (is_text \<circ> ev_occurred_at) evs")
    case True
    with run False show ?thesis by (auto simp: outbox_record_def on_db_def)
  next
    case plain: False
  with run False have e: "on_db (sql_insert T (outbox_rows iso_fmt fresh evs)) w = (x, w')"
    by (simp add: outbox_record_def on_db_def)
  obtain d' where i: "sql_insert T (outbox_rows iso_fmt fresh evs) (w_db w) = (x, d')"
    and w': "w' = w\<lparr>w_db := d'\<rparr>"
    using e by (auto simp: on_db_def split: prod.splits)
  show ?thesis
    using sql_table.insert_ok [OF T, of "outbox_rows iso_fmt fresh evs" "w_db w" "()" d'] i u w'
    by (auto simp: uow_phase_def)
  qed
qed

text \<open>A statement does not touch the durable state; the dispatcher's handlers stay inside.\<close>

definition insert_not_durable :: "('d, 'r) sql \<Rightarrow> ('d \<Rightarrow> 'c) \<Rightarrow> bool" where
  "insert_not_durable T com \<longleftrightarrow> (\<forall>xs d. com (snd (sql_insert T xs d)) = com d)"

definition dispatcher_inside ::
  "('d, ('d, 'a, 'z) world_scheme) uow_env \<Rightarrow> nat \<Rightarrow> ('d \<Rightarrow> 'c) \<Rightarrow> ('d \<Rightarrow> bool) \<Rightarrow> bool" where
  "dispatcher_inside env r com ok \<longleftrightarrow>
     (\<forall>publish ev. ue_dispatcher env = Some publish \<longrightarrow> inside_tx r com ok (publish ev))"

text \<open>The states a commit goes through when it returns, and what is left when it raises.\<close>

lemma uow_commit_runs:
  assumes S: "session_laws S com wrk"
    and S_def: "ue_session env = S" "ue_outbox env = Some (outbox_record T iso_fmt fresh)"
    and T: "sql_table T rows ob_clash rest"
    and T_com: "insert_not_durable T com"
    and pub: "dispatcher_inside env r com (\<lambda>d. unique_rows ob_clash (rows d))"
    and u: "unique_rows ob_clash (rows (w_db w))"
    and ph: "uow_phase r w = (True, True, False, False)"
    and dr: "drain_events (w_ctx w) (uw_tracked (uow_at r w)) (w_heap w) = (evs, h)"
    and run: "uow_commit env r w = (x, w')"
  shows "case x of
     Inr _ \<Rightarrow> \<exists>w2. dispatch_domain env evs (w\<lparr>w_heap := h\<rparr>) = (Inr (), w2) \<and>
       (\<exists>d3. rows d3 = rows (w_db w2) @ outbox_rows iso_fmt fresh (integration_events evs) \<and>
             rest d3 = rest (w_db w2) \<and> com (w_db w') = wrk d3) \<and>
       uw_committed (uow_at r w')
   | Inl _ \<Rightarrow> com (w_db w') = com (w_db w) \<and> uow_phase r w' = uow_phase r w"
proof -
  let ?ok = "\<lambda>d. unique_rows ob_clash (rows d)" and ?w1 = "w\<lparr>w_heap := h\<rparr>"
  define wr where "wr = (\<lambda>w :: ('a, 'c, 'd) world_scheme.
    (if integration_events evs = [] then eret ()
     else on_db (outbox_record T iso_fmt fresh r (integration_events evs))) w)"
  define finish where "finish = ebind (on_db (se_commit S r))
    (\<lambda>_. emodify (set_uow r (\<lambda>u. u\<lparr>uw_committed := True\<rparr>)) :: (('a, 'c, 'd) world_scheme, unit) eff)"
  have open_: "uw_open (uow_at r w)" "\<not> uw_committed (uow_at r w)" "\<not> uw_rolled_back (uow_at r w)"
    "r < length (w_uows w)" using ph by (auto simp: uow_phase_def)
  have "uow_commit env r w =
      ebind (uow_dispatch env r evs) (\<lambda>_. finish) ?w1"
    using open_ by (simp add: uow_commit_def dr S_def finish_def)
  also have "\<dots> = ebind (dispatch_domain env evs) (\<lambda>_. ebind wr (\<lambda>_. finish)) ?w1"
    unfolding uow_dispatch_def dispatch_domain_def wr_def S_def(2) by (simp add: ebind_assoc)
  finally have run1: "ebind (dispatch_domain env evs) (\<lambda>_. ebind wr (\<lambda>_. finish)) ?w1 = (x, w')"
    using run by simp
  have inside: "inside_tx r com ?ok (dispatch_domain env evs)"
    unfolding dispatch_domain_def using pub unfolding dispatcher_inside_def
    by (intro dispatch_domain_inside) blast
  obtain y w2 where y: "dispatch_domain env evs ?w1 = (y, w2)" by fastforce
  note d2 = inside_txD [OF inside y]
  have w2: "com (w_db w2) = com (w_db w)" "uow_phase r w2 = uow_phase r w" "?ok (w_db w2)"
    using d2 u by (auto simp: uow_phase_def)
  show ?thesis
  proof (cases y)
    case (Inl e)
    with run1 y have "x = Inl e" "w' = w2" by (auto simp: ebind_def)
    with w2 show ?thesis by simp
  next
    case (Inr a)
    with run1 y have run2: "ebind wr (\<lambda>_. finish) w2 = (x, w')" by (simp add: ebind_def)
    obtain z w3 where z: "wr w2 = (z, w3)" by fastforce
    have o: "(z = Inr () \<longrightarrow> rows (w_db w3) = rows (w_db w2) @ outbox_rows iso_fmt fresh (integration_events evs)
            \<and> rest (w_db w3) = rest (w_db w2)) \<and> uow_phase r w3 = uow_phase r w2 \<and> w_heap w3 = w_heap w2"
      by (rule outbox_write [OF T w2(3)]) (use z in \<open>simp add: wr_def\<close>)
    have com3: "com (w_db w3) = com (w_db w2)"
      using z T_com unfolding wr_def outbox_record_def on_db_def insert_not_durable_def
      by (auto split: if_splits prod.splits) (metis snd_conv)
    show ?thesis
    proof (cases z)
      case (Inl e)
      with run2 z have "x = Inl e" "w' = w3" by (auto simp: ebind_def)
      with w2 o com3 show ?thesis by simp
    next
      case (Inr b)
      with run2 z have run3: "finish w3 = (x, w')" by (simp add: ebind_def)
      obtain v d4 where c: "se_commit S r (w_db w3) = (v, d4)" by fastforce
      show ?thesis
      proof (cases v)
        case (Inl e)
        with run3 c have "x = Inl e" "w' = w3\<lparr>w_db := d4\<rparr>"
          by (auto simp: finish_def ebind_def on_db_def)
        moreover have "com d4 = com (w_db w3)"
          using session_laws.commit_failed [OF S] c Inl by blast
        ultimately show ?thesis using w2 o com3 by (auto simp: uow_phase_def)
      next
        case (Inr q)
        with run3 c have xw: "x = Inr ()"
          "w' = set_uow r (\<lambda>u. u\<lparr>uw_committed := True\<rparr>) (w3\<lparr>w_db := d4\<rparr>)"
          by (auto simp: finish_def ebind_def on_db_def)
        have "com d4 = wrk (w_db w3)"
          using session_laws.commit_ok [OF S] c Inr by blast
        moreover have "r < length (w_uows w3)"
          using o w2 ph by (auto simp: uow_phase_def)
        ultimately show ?thesis using xw y \<open>y = Inr a\<close> o \<open>z = Inr b\<close> by auto
      qed
    qed
  qed
qed

text \<open>C5: Commit is atomic. If it returns, the durable state is what the transaction had
  written when the domain handlers finished, plus exactly one outbox row per integration event
  drained from the tracked aggregates, in order; if it raises, nothing of the transaction is
  durable and the unit of work is still open to be rolled back.\<close>

theorem uow_commit_atomic:
  assumes "session_laws S com (\<lambda>d. (rows d, rest d))"
    and "ue_session env = S" "ue_outbox env = Some (outbox_record T iso_fmt fresh)"
    and "sql_table T rows ob_clash rest"
    and "insert_not_durable T com"
    and "dispatcher_inside env r com (\<lambda>d. unique_rows ob_clash (rows d))"
    and "unique_rows ob_clash (rows (w_db w))"
    and "uow_phase r w = (True, True, False, False)"
    and "distinct (uw_tracked (uow_at r w))"
    and "evs = concat (map (\<lambda>a. map (enrich_event (w_ctx w)) (ar_pending (w_heap w a)))
                (uw_tracked (uow_at r w)))"
    and "uow_commit env r w = (x, w')"
  shows "case x of
     Inr _ \<Rightarrow> uw_committed (uow_at r w') \<and>
       (\<exists>w2. dispatch_domain env evs
           (w\<lparr>w_heap := \<lambda>a. if a \<in> set (uw_tracked (uow_at r w)) then (w_heap w a)\<lparr>ar_pending := []\<rparr>
                           else w_heap w a\<rparr>) = (Inr (), w2) \<and>
         com (w_db w') =
           (rows (w_db w2) @ outbox_rows iso_fmt fresh (integration_events evs), rest (w_db w2)))
   | Inl _ \<Rightarrow> com (w_db w') = com (w_db w) \<and> uow_phase r w' = (True, True, False, False)"
proof -
  note dr = drain_events_spec [OF assms(9), of "w_ctx w" "w_heap w", folded assms(10)]
  from uow_commit_runs [where rows = rows and rest = rest and com = com and
      wrk = "\<lambda>d. (rows d, rest d)" and S = S and env = env and T = T and r = r and w = w,
      OF assms(1-8) dr assms(11)] assms(8)
  show ?thesis by (auto split: sum.splits)
qed

text \<open>The outbox of a database that consists of a durable and a working copy.\<close>

definition tx_outbox :: "((outbox_row list \<times> 'o) \<times> (outbox_row list \<times> 'o), outbox_row) sql" where
  "tx_outbox = list_sql (\<lambda>d. fst (snd d)) (\<lambda>xs d. (fst d, (xs, snd (snd d)))) ob_clash"

interpretation tx_slot: table_slot "\<lambda>d. fst (snd d)" "\<lambda>xs d. (fst d, (xs, snd (snd d)))"
    "\<lambda>d. snd (snd d)"
  by unfold_locales simp_all

lemma tx_outbox_table: "sql_table tx_outbox (\<lambda>d. fst (snd d)) ob_clash (\<lambda>d. snd (snd d))"
  unfolding tx_outbox_def by (rule tx_slot.list_sql_table)

lemma tx_outbox_com: "insert_not_durable tx_outbox fst"
  by (simp add: insert_not_durable_def tx_outbox_def)

lemma tx_session_laws: "session_laws tx_session fst (\<lambda>d. (fst (snd d), snd (snd d)))"
  using tx.session_laws_axioms by simp

text \<open>An aggregate with a domain event and an integration event, committed.\<close>

definition demo_aggregate :: "uuid \<Rightarrow> event list \<Rightarrow> aggregate" where
  "demo_aggregate u evs =
     \<lparr>en_type = ''User'', en_id = u, en_created_at = 0, en_updated_at = None, en_deleted_at = None,
      en_created_by = None, en_updated_by = None, en_deleted_by = None, en_version = 0,
      en_tenant_id = None, en_fields = [], ar_pending = evs\<rparr>"

definition demo_ctx :: "unit request_context" where
  "demo_ctx = \<lparr>rc_request_id = 7, rc_correlation_id = 8, rc_trace_id = None, rc_span_id = None,
     rc_user_id = None, rc_tenant_id = Some 9, rc_actor_kind = None, rc_attributes = []\<rparr>"

type_synonym demo_db = "(outbox_row list \<times> unit) \<times> (outbox_row list \<times> unit)"

definition demo_world :: "(demo_db, unit) world" where
  "demo_world =
     \<lparr>w_db = (([], ()), ([], ())),
      w_heap = (\<lambda>a. demo_aggregate a
                 (if a = 0 then [demo_event DomainEvent ''d'', demo_event IntegrationEvent ''user.registered'']
                  else [])),
      w_uows = [\<lparr>uw_open = True, uw_tracked = [0, 2], uw_committed = False, uw_rolled_back = False\<rparr>],
      w_active = None, w_ctx = demo_ctx\<rparr>"

definition demo_env :: "(demo_db, (demo_db, unit) world) uow_env" where
  "demo_env =
     \<lparr>ue_session = tx_session, ue_dispatcher = Some (\<lambda>ev. eret ()),
      ue_outbox = Some (outbox_record tx_outbox (\<lambda>t. ''t'') (\<lambda>i. i))\<rparr>"

lemma uow_commit_atomic_witness:
  "map ob_event_name (fst (fst (w_db (snd (uow_commit demo_env 0 demo_world))))) = [''user.registered'']"
proof -
  let ?evs = "concat (map (\<lambda>a. map (enrich_event (w_ctx demo_world)) (ar_pending (w_heap demo_world a)))
    (uw_tracked (uow_at 0 demo_world)))"
  obtain x w' where run: "uow_commit demo_env 0 demo_world = (x, w')" by fastforce
  have ie: "map ev_name (integration_events ?evs) = [''user.registered'']"
    by (simp add: demo_world_def demo_aggregate_def demo_event_def integration_events_def enrich_event_def)
  have x: "x = Inr ()"
    using run by (simp add: uow_commit_def demo_world_def demo_env_def demo_aggregate_def demo_event_def
        integration_events_def enrich_event_def uow_dispatch_def domain_events_def tx_session_def
        tx_outbox_def outbox_record_def is_text_def on_db_def outbox_rows_def unique_rows_def ebind_def Let_def
        eret_def [abs_def] emodify_def [abs_def])
  from uow_commit_atomic [where S = tx_session and com = fst and rows = "\<lambda>d. fst (snd d)"
      and rest = "\<lambda>d. snd (snd d)" and env = demo_env and T = tx_outbox
      and iso_fmt = "\<lambda>t. ''t''" and fresh = "\<lambda>i. i" and r = 0 and w = demo_world
      and evs = ?evs and x = x and w' = w', OF tx_session_laws _ _ tx_outbox_table tx_outbox_com _ _ _ _ refl run]
  have "\<exists>w2. dispatch_domain demo_env ?evs
      (demo_world\<lparr>w_heap := \<lambda>a. if a \<in> set (uw_tracked (uow_at 0 demo_world))
          then (w_heap demo_world a)\<lparr>ar_pending := []\<rparr> else w_heap demo_world a\<rparr>) = (Inr (), w2) \<and>
      fst (w_db w') = (fst (snd (w_db w2)) @
        outbox_rows (\<lambda>t. ''t'') (\<lambda>i. i) (integration_events ?evs), snd (snd (w_db w2)))"
    using x by (auto simp: demo_env_def uow_phase_def demo_world_def unique_rows_def inside_tx_def dispatcher_inside_def)
  then obtain w2 where w2: "dispatch_domain demo_env ?evs
      (demo_world\<lparr>w_heap := \<lambda>a. if a \<in> set (uw_tracked (uow_at 0 demo_world))
          then (w_heap demo_world a)\<lparr>ar_pending := []\<rparr> else w_heap demo_world a\<rparr>) = (Inr (), w2)"
    and c: "fst (w_db w') = (fst (snd (w_db w2)) @
        outbox_rows (\<lambda>t. ''t'') (\<lambda>i. i) (integration_events ?evs), snd (snd (w_db w2)))"
    by blast
  have ret: "efold (\<lambda>ev. eret ()) es s = (Inr (), s)" for es :: "event list" and s :: "(demo_db, unit) world"
    by (induction es) auto
  have "fst (snd (w_db w2)) = []"
    using w2 ret by (auto simp: dispatch_domain_def demo_env_def demo_world_def eret_def [abs_def])
  with c ie run show ?thesis by simp
qed

section \<open>The async with block\<close>

lemma ekeeps_on_db: "ekeeps com m \<Longrightarrow> ekeeps (\<lambda>w. com (w_db w)) (on_db m)"
  by (simp add: ekeeps_def)

lemma ekeeps_set_uow: "ekeeps (\<lambda>w. com (w_db w)) (emodify (set_uow r f))"
  by (rule ekeeps_modify) simp

lemma session_keeps:
  assumes "session_laws S com wrk"
  shows "ekeeps com (se_begin S r)" "ekeeps com (se_rollback S r)" "ekeeps com (se_close S r)"
  unfolding ekeeps_def
  by (metis assms prod.collapse session_laws.begin_com session_laws.rollback_com session_laws.close_com)+

lemma uow_aexit_com:
  assumes "session_laws (ue_session env) com wrk" "uow_aexit env r exc w = (x, w')"
  shows "com (w_db w') = com (w_db w)"
proof -
  note keeps = session_keeps [OF assms(1), THEN ekeeps_on_db] ekeeps_set_uow
  have "ekeeps (\<lambda>w. com (w_db w)) (uow_rollback env r)"
    unfolding uow_rollback_def Let_def by (intro ekeeps_rules keeps)
  then have "ekeeps (\<lambda>w. com (w_db w)) (uow_aexit env r exc)"
    unfolding uow_aexit_def by (intro ekeeps_rules keeps)
  then show ?thesis using assms(2) by (rule ekeepsD)
qed

lemma uow_aenter_com:
  assumes "session_laws (ue_session env) com wrk" "uow_aenter env r w = (x, w')"
  shows "com (w_db w') = com (w_db w)"
    and "r < length (w_uows w) \<Longrightarrow> uow_phase r w' =
      (True, True, uw_committed (uow_at r w), uw_rolled_back (uow_at r w))"
    and "x = Inr u \<Longrightarrow> wrk (w_db w') = com (w_db w)"
    and "w_active w' = w_active w"
proof -
  let ?w = "set_uow r (\<lambda>u. u\<lparr>uw_open := True\<rparr>) w"
  obtain y d where y: "se_begin (ue_session env) r (w_db w) = (y, d)" by fastforce
  with assms(2) have e: "x = y" "w' = ?w\<lparr>w_db := d\<rparr>"
    by (auto simp: uow_aenter_def on_db_def emodify_def [abs_def] ebind_def)
  show "com (w_db w') = com (w_db w)"
    using session_laws.begin_com [OF assms(1) y] e by simp
  show "r < length (w_uows w) \<Longrightarrow> uow_phase r w' =
      (True, True, uw_committed (uow_at r w), uw_rolled_back (uow_at r w))"
    using e by (simp add: uow_phase_def set_uow_def)
  show "x = Inr u \<Longrightarrow> wrk (w_db w') = com (w_db w)"
    using session_laws.begin_wrk [OF assms(1)] y e by auto
  show "w_active w' = w_active w" using e by simp
qed

text \<open>The durable state after the block is the one after the body.\<close>

lemma uow_block_com:
  assumes S: "session_laws (ue_session env) com wrk"
    and run: "async_with (uow_aenter env r) (uow_aexit env r) body w = (x, w')"
  obtains (not_entered) e where "x = Inl e" "com (w_db w') = com (w_db w)"
  | (entered) w1 y w2 where "uow_aenter env r w = (Inr (), w1)" "body w1 = (y, w2)"
      "com (w_db w') = com (w_db w2)" "x = y \<or> (\<exists>e. x = Inl e)"
proof -
  obtain a w1 where a: "uow_aenter env r w = (a, w1)" by fastforce
  show thesis
  proof (cases a)
    case (Inl e)
    with a run uow_aenter_com(1) [OF S a] show thesis
      by (intro not_entered [of e]) (auto simp: async_with_def ebind_def)
  next
    case (Inr u)
    obtain y w2 where y: "body w1 = (y, w2)" by fastforce
    obtain z w3 where z: "uow_aexit env r (case y of Inl e \<Rightarrow> Some e | Inr _ \<Rightarrow> None) w2 = (z, w3)"
      by fastforce
    have "w' = w3" "x = y \<or> (\<exists>e. x = Inl e)"
      using run a Inr y z by (auto simp: async_with_def ebind_def split: sum.splits)
    with uow_aexit_com [OF S z] a Inr y show thesis by (intro entered) auto
  qed
qed

text \<open>There are no silent commits: a block whose body stays inside the transaction and never
  commits leaves the durable state as it was, whether it returns or raises.\<close>

theorem uow_no_silent_commit:
  assumes "session_laws (ue_session env) com wrk" "inside_tx r com ok body"
    and "async_with (uow_aenter env r) (uow_aexit env r) body w = (x, w')"
  shows "com (w_db w') = com (w_db w)"
  using uow_aenter_com(1) [OF assms(1)] inside_txD(1) [OF assms(2)]
  by (rule_tac uow_block_com [OF assms(1,3)]) auto

lemma uow_no_silent_commit_witness:
  "fst (w_db (snd (async_with (uow_aenter demo_env 0) (uow_aexit demo_env 0)
     (on_db (sql_insert tx_outbox (outbox_rows (\<lambda>t. ''t'') (\<lambda>i. i) [demo_event IntegrationEvent ''x''])))
     demo_world))) = ([], ())"
proof -
  let ?body = "on_db (sql_insert tx_outbox
      (outbox_rows (\<lambda>t. ''t'') (\<lambda>i. i) [demo_event IntegrationEvent ''x''])) :: ((demo_db, unit) world, unit) eff"
  have "inside_tx 0 fst (\<lambda>d. True) ?body"
    by (auto simp: inside_tx_def on_db_def tx_outbox_def uow_phase_def split: if_splits)
  from uow_no_silent_commit [where env = demo_env and x = "fst (async_with (uow_aenter demo_env 0)
      (uow_aexit demo_env 0) ?body demo_world)", OF _ this surjective_pairing]
    tx.session_laws_axioms
  show ?thesis by (simp add: demo_env_def demo_world_def)
qed

end
