(* ===== verification/Qx_Pipeline.thy ===== *)
theory Qx_Pipeline
  imports Qx_Uow
begin

text \<open>
  The package \<open>qx-cqrs\<close>, the behaviour pipeline (\<open>messages\<close>, \<open>pipeline\<close>): the chain, and the
  behaviours for logging, exception translation, validation, transactions, retry, idempotency
  and authorization. A behaviour is a function of the message and the rest of the chain; the
  state \<open>'s\<close> is whatever the handlers and stores below it change. What the idempotency
  behaviour relies on is the locale \<open>idempotency_store\<close>.
\<close>

section \<open>Messages and the chain\<close>

datatype message_kind = CommandMsg | QueryMsg | NotificationMsg | OtherMsg

record message =
  ms_class :: string
  ms_kind :: message_kind
  ms_fields :: dict

text \<open>\<open>envelope\<close> is \<open>model_dump(mode="json")\<close>: the fields.\<close>

definition message_envelope :: "message \<Rightarrow> dict" where
  "message_envelope m = ms_fields m"

type_synonym ('m, 's, 'v) next_fn = "'m \<Rightarrow> ('s, 'v result) eff"

type_synonym ('m, 's, 'v) behavior = "'m \<Rightarrow> ('m, 's, 'v) next_fn \<Rightarrow> ('s, 'v result) eff"

definition import_error :: "exn \<Rightarrow> bool" where
  "import_error e \<longleftrightarrow> exn_class e \<in> {''ImportError'', ''ModuleNotFoundError''}"

text \<open>
  One link of the chain. With tracing on, the span's context manager lets every exception
  through, and \<open>except ImportError\<close> covers the wrapped call as well as the import.
\<close>

definition run_behavior ::
  "bool \<Rightarrow> bool \<Rightarrow> ('m, 's, 'v) behavior \<Rightarrow> ('m, 's, 'v) next_fn \<Rightarrow> ('m, 's, 'v) next_fn" where
  "run_behavior trace_behaviors otel_installed b n msg s =
     (if \<not> trace_behaviors then b msg n s
      else if \<not> otel_installed then b msg n s
      else case b msg n s of
             (Inl e, s') \<Rightarrow> (if import_error e then b msg n s' else (Inl e, s'))
           | (Inr r, s') \<Rightarrow> (Inr r, s'))"

definition chain_execute ::
  "bool \<Rightarrow> bool \<Rightarrow> ('m, 's, 'v) behavior list \<Rightarrow> ('m, 's, 'v) next_fn \<Rightarrow> ('m, 's, 'v) next_fn" where
  "chain_execute trace_behaviors otel_installed behaviors terminal =
     foldl (\<lambda>n b. run_behavior trace_behaviors otel_installed b n) terminal (rev behaviors)"

definition compose_chain ::
  "bool \<Rightarrow> bool \<Rightarrow> ('m, 's, 'v) behavior list \<Rightarrow> ('m, 's, 'v) next_fn \<Rightarrow> ('m, 's, 'v) next_fn" where
  "compose_chain trace_behaviors otel_installed behaviors terminal =
     chain_execute trace_behaviors otel_installed behaviors terminal"

section \<open>Logging\<close>

record log_record =
  lg_level :: string
  lg_message_type :: string
  lg_error_code :: "string option"
  lg_error_category :: "string option"
  lg_correlation_id :: uuid
  lg_duration_ms :: rat

definition log_failure_level :: "error \<Rightarrow> string" where
  "log_failure_level err =
     (if error_isinstance (err_class err) DomainError then ''warning'' else ''error'')"

definition logging_handle ::
  "(log_record \<Rightarrow> ('s, unit) eff) \<Rightarrow> ('s, rat) eff \<Rightarrow> ('s \<Rightarrow> 'a request_context)
     \<Rightarrow> (message, 's, 'v) behavior" where
  "logging_handle emit perf_counter rc msg nxt s0 =
     (let cid = rc_correlation_id (rc s0);
          entry = (\<lambda>level code cat t. \<lparr>lg_level = level, lg_message_type = ms_class msg,
             lg_error_code = code, lg_error_category = cat, lg_correlation_id = cid,
             lg_duration_ms = t * 1000\<rparr>)
      in ebind perf_counter (\<lambda>start.
         ebind (etry_all (nxt msg)
                  (\<lambda>e. ebind perf_counter (\<lambda>now.
                       ebind (emit (entry ''exception'' None None (now - start))) (\<lambda>_. eraise e))))
           (\<lambda>result. ebind perf_counter (\<lambda>now.
              ebind (case result of
                       Success v md \<Rightarrow> emit (entry ''info'' None None (now - start))
                     | Failure err md \<Rightarrow>
                         emit (entry (log_failure_level err) (Some (err_code err))
                                (Some (category (err_class err))) (now - start)))
                (\<lambda>_. eret result)))) s0)"

section \<open>Exception translation\<close>

text \<open>\<open>isinstance(exc, Error)\<close> is false for every exception: \<open>Error\<close> is a dataclass, and what
  is thrown is the wrapper \<open>ErrorException\<close>.\<close>

definition is_error_instance :: "exn \<Rightarrow> error option" where
  "is_error_instance e = None"

definition translate_exception :: "exn \<Rightarrow> error" where
  "translate_exception e =
     (case is_error_instance e of
        Some err \<Rightarrow> err
      | None \<Rightarrow> Error InfrastructureError ''handler.unexpected_exception''
                 (''unexpected '' @ exn_class e @ '': '' @ exn_str e) [] (Some e))"

definition exception_translation_handle :: "('m, 's, 'v) behavior" where
  "exception_translation_handle msg nxt =
     etry_all (nxt msg) (\<lambda>e. eret (result_failure (translate_exception e) []))"

section \<open>Validation\<close>

text \<open>A validator's answer is a \<open>Result\<close> or something else, which counts as no objection.\<close>

type_synonym ('m, 's) validator = "'m \<Rightarrow> ('s, unit result option) eff"

definition objection :: "unit result option \<Rightarrow> (error \<times> dict) option" where
  "objection out = (case out of Some (Failure e md) \<Rightarrow> Some (e, md) | _ \<Rightarrow> None)"

fun run_validators ::
  "('m, 's) validator list \<Rightarrow> 'm \<Rightarrow> ('s, 'v result) eff \<Rightarrow> ('s, 'v result) eff" where
  "run_validators [] msg continue = continue"
| "run_validators (v # vs) msg continue =
     ebind (v msg) (\<lambda>out. case objection out of
        Some (e, md) \<Rightarrow> eret (Failure e md)
      | None \<Rightarrow> run_validators vs msg continue)"

text \<open>\<open>hook msg\<close> is the message's \<open>validate_business\<close>, when it has one.\<close>

definition validation_handle ::
  "('m \<Rightarrow> ('s, unit result option) eff option) \<Rightarrow> ('m, 's) validator list \<Rightarrow> ('m, 's, 'v) behavior" where
  "validation_handle hook extras msg nxt =
     (case hook msg of
        None \<Rightarrow> run_validators extras msg (nxt msg)
      | Some validate \<Rightarrow>
          ebind validate (\<lambda>out. case objection out of
             Some (e, md) \<Rightarrow> eret (Failure e md)
           | None \<Rightarrow> run_validators extras msg (nxt msg)))"

section \<open>Transactions\<close>

definition get_current_uow :: "(('d, 'a, 'z) world_scheme, nat) eff" where
  "get_current_uow w =
     (case w_active w of
        None \<Rightarrow> (Inl (PyException ''RuntimeError'' ''No active unit-of-work''), w)
      | Some r \<Rightarrow> (Inr r, w))"

abbreviation set_active :: "nat option \<Rightarrow> ('d, 'a, 'z) world_scheme \<Rightarrow> ('d, 'a, 'z) world_scheme" where
  "set_active v w \<equiv> w\<lparr>w_active := v\<rparr>"

definition transaction_body ::
  "('d, ('d, 'a, 'z) world_scheme) uow_env \<Rightarrow> nat \<Rightarrow> (('d, 'a, 'z) world_scheme, 'v result) eff
     \<Rightarrow> (('d, 'a, 'z) world_scheme, 'v result) eff" where
  "transaction_body env r continue =
     ebind continue (\<lambda>result.
       if is_success result then ebind (uow_commit env r) (\<lambda>_. eret result) else eret result)"

definition transaction_handle ::
  "('d, ('d, 'a, 'z) world_scheme) uow_env \<Rightarrow> (message, ('d, 'a, 'z) world_scheme, 'v) behavior" where
  "transaction_handle env msg nxt =
     (if ms_kind msg \<noteq> CommandMsg then nxt msg
      else ebind uow_new (\<lambda>r.
        scoped_var w_active set_active (Some r)
          (async_with (uow_aenter env r) (uow_aexit env r)
             (transaction_body env r (nxt msg)))))"

interpretation active_uow: context_var w_active set_active
  by unfold_locales simp

section \<open>Retry\<close>

record retry_config =
  rt_max :: nat
  rt_base :: rat
  rt_max_delay :: rat
  rt_codes :: "string set option"

definition retry_init :: "int \<Rightarrow> rat \<Rightarrow> rat \<Rightarrow> string set option \<Rightarrow> exn + retry_config" where
  "retry_init max_attempts base_delay max_delay codes =
     (if max_attempts < 1 then Inl (PyException ''ValueError'' ''max_attempts must be >= 1'')
      else Inr \<lparr>rt_max = nat max_attempts, rt_base = base_delay, rt_max_delay = max_delay,
                rt_codes = codes\<rparr>)"

definition should_retry :: "retry_config \<Rightarrow> 'v result \<Rightarrow> bool" where
  "should_retry cfg res =
     (case res of
        Success v md \<Rightarrow> False
      | Failure err md \<Rightarrow>
          (if \<not> (error_isinstance (err_class err) InfrastructureError \<or>
                 error_isinstance (err_class err) TimeoutError) then False
           else \<not> (\<exists>codes. rt_codes cfg = Some codes \<and> err_code err \<notin> codes)))"

text \<open>\<open>u\<close> is the number \<open>random.uniform(0, jitter)\<close> returned.\<close>

definition retry_delay :: "retry_config \<Rightarrow> nat \<Rightarrow> rat \<Rightarrow> rat" where
  "retry_delay cfg attempt u = min (rt_base cfg * 2 ^ attempt + u) (rt_max_delay cfg)"

text \<open>\<open>left\<close> attempts of the loop over \<open>range(max)\<close> remain.\<close>

fun retry_loop ::
  "retry_config \<Rightarrow> ('s, rat) eff \<Rightarrow> (rat \<Rightarrow> ('s, unit) eff) \<Rightarrow> ('s, 'v result) eff
     \<Rightarrow> nat \<Rightarrow> 'v result option \<Rightarrow> ('s, 'v result) eff" where
  "retry_loop cfg uniform sleep call 0 prev =
     (case prev of None \<Rightarrow> eraise (PyException ''AssertionError'' []) | Some r \<Rightarrow> eret r)"
| "retry_loop cfg uniform sleep call (Suc left) prev =
     ebind call (\<lambda>result.
       if \<not> should_retry cfg result then eret result
       else ebind (if rt_max cfg - Suc left < rt_max cfg - 1
                   then ebind uniform (\<lambda>u. sleep (retry_delay cfg (rt_max cfg - Suc left) u))
                   else eret ())
              (\<lambda>_. retry_loop cfg uniform sleep call left (Some result)))"

definition retry_handle ::
  "retry_config \<Rightarrow> ('s, rat) eff \<Rightarrow> (rat \<Rightarrow> ('s, unit) eff) \<Rightarrow> ('m, 's, 'v) behavior" where
  "retry_handle cfg uniform sleep msg nxt =
     retry_loop cfg uniform sleep (nxt msg) (rt_max cfg) None"

section \<open>Idempotency\<close>

text \<open>The store's \<open>begin\<close> and \<open>complete\<close>; \<open>None\<close> inside a success is Python's \<open>None\<close>.\<close>

record ('s, 'v) idem_store =
  is_begin :: "string \<Rightarrow> string \<Rightarrow> dict \<Rightarrow> ('s, 'v option result) eff"
  is_complete :: "string \<Rightarrow> string \<Rightarrow> 'v \<Rightarrow> ('s, unit) eff"

definition idempotency_key :: "message \<Rightarrow> string option" where
  "idempotency_key msg =
     (case map_of (ms_fields msg) ''idempotency_key'' of
        Some (JStr k) \<Rightarrow> if k = [] then None else Some k
      | _ \<Rightarrow> None)"

definition tenant_of :: "'a request_context \<Rightarrow> string" where
  "tenant_of ctx =
     (case rc_tenant_id ctx of None \<Rightarrow> ''global'' | Some t \<Rightarrow> str_of_uuid t)"

definition idempotency_handle ::
  "('s, 'v) idem_store \<Rightarrow> ('s \<Rightarrow> 'a request_context) \<Rightarrow> (message, 's, 'v) behavior" where
  "idempotency_handle store rc msg nxt s =
     (if ms_kind msg \<noteq> CommandMsg then nxt msg s
      else case idempotency_key msg of
        None \<Rightarrow> nxt msg s
      | Some key \<Rightarrow>
          let tenant = tenant_of (rc s)
          in ebind (is_begin store tenant key (message_envelope msg)) (\<lambda>claim.
               case claim of
                 Failure e md \<Rightarrow> eret (Failure e md)
               | Success (Some stored) md \<Rightarrow> eret (result_success stored [])
               | Success None md \<Rightarrow>
                   ebind (nxt msg) (\<lambda>result.
                     case result of
                       Failure e md \<Rightarrow> eret (Failure e md)
                     | Success v md \<Rightarrow>
                         ebind (etry (is_complete store tenant key v) (\<lambda>_. eret ()))
                           (\<lambda>_. eret (Success v md)))) s)"

section \<open>Authorization\<close>

text \<open>The attributes of a policy result that the behaviour reads: \<open>decision\<close> and \<open>reason\<close>.\<close>

record policy_answer =
  pa_decision :: "string option"
  pa_reason :: "string option"

text \<open>The shapes a policy object can have, tried in this order.\<close>

datatype ('m, 's, 'p) policy =
    EvaluatePolicy "'p \<Rightarrow> 'm \<Rightarrow> ('s, unit result) eff"
  | RulePolicy "string option" "'p \<Rightarrow> 'm \<Rightarrow> ('s, policy_answer) eff"
  | CallablePolicy "'p \<Rightarrow> 'm \<Rightarrow> ('s, unit result option) eff"
  | OtherPolicy

definition forbidden_by :: "string option \<Rightarrow> policy_answer \<Rightarrow> error" where
  "forbidden_by name ans =
     Error ForbiddenError ''authz.denied''
       (case pa_reason ans of None \<Rightarrow> ''Denied.'' | Some r \<Rightarrow> if r = [] then ''Denied.'' else r)
       [(''policy'', JStr (case name of None \<Rightarrow> ''unnamed-policy'' | Some n \<Rightarrow> n))] None"

fun evaluate_one :: "('m, 's, 'p) policy \<Rightarrow> 'p \<Rightarrow> 'm \<Rightarrow> ('s, unit result) eff" where
  "evaluate_one (EvaluatePolicy f) subj msg = f subj msg"
| "evaluate_one (RulePolicy name f) subj msg =
     ebind (f subj msg) (\<lambda>ans.
       if py_lower (case pa_decision ans of None \<Rightarrow> ''None'' | Some d \<Rightarrow> d) = ''deny''
       then eret (result_failure (forbidden_by name ans) [])
       else eret (result_success () []))"
| "evaluate_one (CallablePolicy f) subj msg =
     ebind (f subj msg) (\<lambda>out.
       case out of Some r \<Rightarrow> eret r | None \<Rightarrow> eret (result_success () []))"
| "evaluate_one OtherPolicy subj msg = eret (result_success () [])"

fun authorize_all ::
  "('m, 's, 'p) policy list \<Rightarrow> 'p \<Rightarrow> 'm \<Rightarrow> ('s, 'v result) eff \<Rightarrow> ('s, 'v result) eff" where
  "authorize_all [] subj msg continue = continue"
| "authorize_all (p # ps) subj msg continue =
     ebind (evaluate_one p subj msg) (\<lambda>outcome.
       case outcome of
         Failure e md \<Rightarrow> eret (Failure e md)
       | Success u md \<Rightarrow> authorize_all ps subj msg continue)"

definition not_authenticated :: error where
  "not_authenticated =
     mk_error UnauthorizedError ''authz.not_authenticated'' ''This operation requires authentication.''"

text \<open>\<open>requires msg\<close> is \<open>__qx_policies__\<close>, the policies the message's class declares.\<close>

definition authorization_handle ::
  "('m, 's, 'p) policy list \<Rightarrow> string \<Rightarrow> ('m \<Rightarrow> ('m, 's, 'p) policy list)
     \<Rightarrow> ('s \<Rightarrow> 'p request_context) \<Rightarrow> ('m, 's, 'v) behavior" where
  "authorization_handle policies principal_key requires rc msg nxt s =
     (let all_policies = policies @ requires msg
      in if all_policies = [] then nxt msg s
         else case map_of (rc_attributes (rc s)) principal_key of
                None \<Rightarrow> (Inr (result_failure not_authenticated []), s)
              | Some subj \<Rightarrow> authorize_all all_policies subj msg (nxt msg) s)"

section \<open>The chain\<close>

text \<open>Without tracing the chain nests its behaviours in order, the first outermost.\<close>

lemma chain_execute_foldr:
  "chain_execute False otel bs t = foldr (\<lambda>b n msg. b msg n) bs t"
  unfolding chain_execute_def foldl_conv_foldr rev_rev_ident
  by (rule arg_cong2 [where f = "\<lambda>f bs. foldr f bs t"]) (auto simp: run_behavior_def fun_eq_iff)

lemma chain_execute_Nil [simp]: "chain_execute tr otel [] t = t"
  by (simp add: chain_execute_def)

lemma chain_execute_Cons [simp]:
  "chain_execute tr otel (b # bs) t = run_behavior tr otel b (chain_execute tr otel bs t)"
  by (simp add: chain_execute_def)

text \<open>The behaviour that only passes the message on, and a handler that counts its calls and
  always raises \<open>ImportError\<close>.\<close>

definition pass_through :: "('m, 's, 'v) behavior" where
  "pass_through msg nxt = nxt msg"

definition failing_import :: "('m, nat, 'v) next_fn" where
  "failing_import msg s = (Inl (PyException ''ImportError'' ''no module''), s + 1)"

text \<open>With \<open>trace_behaviors=True\<close> every link of the chain repeats the call below it when that
  raises \<open>ImportError\<close>: a handler with a missing lazy import below \<open>n\<close> behaviours runs
  \<open>2 ^ n\<close> times for one dispatch.\<close>

theorem traced_import_error_repeats:
  "chain_execute True True (replicate n pass_through) failing_import msg s =
     (Inl (PyException ''ImportError'' ''no module''), s + 2 ^ n)"
  by (induction n arbitrary: s)
    (simp_all add: run_behavior_def pass_through_def failing_import_def import_error_def)

section \<open>Transactions\<close>

lemma uow_new_fresh:
  assumes "uow_new w = (x, w')"
  shows "x = Inr (length (w_uows w))" "w_db w' = w_db w" "w_active w' = w_active w"
    "w_ctx w' = w_ctx w" "w_heap w' = w_heap w"
    "uow_phase (length (w_uows w)) w' = (True, False, False, False)"
  using assms by (auto simp: uow_new_def uow_phase_def uow_init_def nth_append)

text \<open>What a session owes a block that is left: closing it does not raise.\<close>

definition quiet_close :: "'d session_api \<Rightarrow> bool" where
  "quiet_close S \<longleftrightarrow> (\<forall>r d. \<exists>d'. se_close S r d = (Inr (), d'))"

lemma aexit_after_commit:
  assumes "quiet_close (ue_session env)" "uw_committed (uow_at r w)"
  shows "\<exists>w'. uow_aexit env r None w = (Inr (), w')"
proof -
  obtain d' where "se_close (ue_session env) r (w_db w) = (Inr (), d')"
    using assms(1) by (auto simp: quiet_close_def)
  with assms(2) show ?thesis
    by (cases "uw_open (uow_at r w)")
      (auto simp: uow_aexit_def efinally_def ebind_def on_db_def emodify_def split: prod.splits)
qed

text \<open>The body of the transaction: what a success and a failure leave behind.\<close>

lemma transaction_body_spec:
  assumes S: "session_laws S com (\<lambda>d. (rows d, rest d))"
    and env: "ue_session env = S" "ue_outbox env = Some (outbox_record T iso_fmt fresh)"
    and T: "sql_table T rows ob_clash rest" "insert_not_durable T com"
    and pub: "dispatcher_inside env r com (\<lambda>d. unique_rows ob_clash (rows d))"
    and nx: "inside_tx r com (\<lambda>d. unique_rows ob_clash (rows d)) continue"
    and u: "unique_rows ob_clash (rows (w_db w))"
    and ph: "uow_phase r w = (True, True, False, False)"
    and run: "transaction_body env r continue w = (y, w')"
  shows "(\<exists>res w1 w2 evs h. continue w = (Inr res, w1) \<and> is_success res \<and> y = Inr res \<and>
        uw_committed (uow_at r w') \<and>
        drain_events (w_ctx w1) (uw_tracked (uow_at r w1)) (w_heap w1) = (evs, h) \<and>
        dispatch_domain env evs (w1\<lparr>w_heap := h\<rparr>) = (Inr (), w2) \<and>
        com (w_db w') =
          (rows (w_db w2) @ outbox_rows iso_fmt fresh (integration_events evs), rest (w_db w2))) \<or>
     ((\<forall>res. y = Inr res \<longrightarrow> \<not> is_success res) \<and> com (w_db w') = com (w_db w))"
proof -
  obtain z w1 where z: "continue w = (z, w1)" by fastforce
  note d1 = inside_txD [OF nx z]
  show ?thesis
  proof (cases "\<exists>res. z = Inr res \<and> is_success res")
    case False
    with run z have "y = z" "w' = w1"
      by (auto simp: transaction_body_def ebind_def split: sum.splits if_splits)
    with False d1 show ?thesis by auto
  next
    case True
    then obtain res where res: "z = Inr res" "is_success res" by blast
    obtain c w2 where c: "uow_commit env r w1 = (c, w2)" by fastforce
    have yw: "w' = w2" "y = (case c of Inl e \<Rightarrow> Inl e | Inr _ \<Rightarrow> Inr res)"
      using run z res c by (auto simp: transaction_body_def ebind_def split: sum.splits)
    obtain evs h where dr: "drain_events (w_ctx w1) (uw_tracked (uow_at r w1)) (w_heap w1) = (evs, h)"
      by fastforce
    have "uow_phase r w1 = (True, True, False, False)" "unique_rows ob_clash (rows (w_db w1))"
      using d1 ph u by simp_all
    from uow_commit_runs [where rows = rows and rest = rest and com = com and
        wrk = "\<lambda>d. (rows d, rest d)" and S = S and env = env and T = T and r = r and w = w1,
        OF S env T pub this(2,1) dr c] yw z res dr d1
    show ?thesis by (cases c) auto
  qed
qed

text \<open>The block around the body: a commit that returned is the last word on the durable state.\<close>

lemma transaction_block_spec:
  assumes S: "session_laws S com (\<lambda>d. (rows d, rest d))" "quiet_close S"
    and env: "ue_session env = S" "ue_outbox env = Some (outbox_record T iso_fmt fresh)"
    and T: "sql_table T rows ob_clash rest" "insert_not_durable T com"
    and pub: "dispatcher_inside env r com (\<lambda>d. unique_rows ob_clash (rows d))"
    and nx: "inside_tx r com (\<lambda>d. unique_rows ob_clash (rows d)) continue"
    and u: "unique_rows ob_clash (fst (com (w_db w)))"
    and ph: "uow_phase r w = (True, False, False, False)"
    and run: "async_with (uow_aenter env r) (uow_aexit env r) (transaction_body env r continue) w = (x, w')"
  shows "(\<exists>res w0 w1 w2 evs h. x = Inr res \<and> is_success res \<and>
        uow_aenter env r w = (Inr (), w0) \<and> continue w0 = (Inr res, w1) \<and>
        (rows (w_db w0), rest (w_db w0)) = com (w_db w) \<and>
        drain_events (w_ctx w1) (uw_tracked (uow_at r w1)) (w_heap w1) = (evs, h) \<and>
        dispatch_domain env evs (w1\<lparr>w_heap := h\<rparr>) = (Inr (), w2) \<and>
        com (w_db w') =
          (rows (w_db w2) @ outbox_rows iso_fmt fresh (integration_events evs), rest (w_db w2))) \<or>
     ((\<forall>res. x = Inr res \<longrightarrow> \<not> is_success res) \<and> com (w_db w') = com (w_db w))"
proof -
  have S': "session_laws (ue_session env) com (\<lambda>d. (rows d, rest d))" using S env by simp
  show ?thesis
  proof (cases rule: uow_block_com [OF S' run])
    case (1 e)
    then show ?thesis by simp
  next
    case (2 w0 y w3)
    note e0 = uow_aenter_com [OF S' 2(1)]
    have ph0: "uow_phase r w0 = (True, True, False, False)" "(rows (w_db w0), rest (w_db w0)) = com (w_db w)"
      using e0 ph by (auto simp: uow_phase_def)
    then have "unique_rows ob_clash (rows (w_db w0))" using u by (metis fst_conv)
    from transaction_body_spec [where rows = rows and rest = rest and com = com and S = S and env = env
        and T = T and r = r and w = w0, OF S(1) env T pub nx this ph0(1) 2(2)]
    show ?thesis
    proof (elim disjE conjE exE)
      fix res w1 w2 evs h
      assume a: "continue w0 = (Inr res, w1)" "is_success res" "y = Inr res" "uw_committed (uow_at r w3)"
        "drain_events (w_ctx w1) (uw_tracked (uow_at r w1)) (w_heap w1) = (evs, h)"
        "dispatch_domain env evs (w1\<lparr>w_heap := h\<rparr>) = (Inr (), w2)"
        "com (w_db w3) =
          (rows (w_db w2) @ outbox_rows iso_fmt fresh (integration_events evs), rest (w_db w2))"
      have "\<exists>w4. uow_aexit env r None w3 = (Inr (), w4)"
        by (rule aexit_after_commit) (use S env a in simp_all)
      with run 2(1,2) a(3) have "x = Inr res" by (auto simp: async_with_def ebind_def)
      with a 2 ph0(2) show ?thesis by auto
    next
      assume "\<forall>res. y = Inr res \<longrightarrow> \<not> is_success res" "com (w_db w3) = com (w_db w0)"
      with 2 e0 show ?thesis by auto
    qed
  qed
qed

text \<open>C2: The transaction behaviour commits exactly the commands that succeed. When it returns
  a success, the durable state is what the handler and the domain handlers wrote, plus the
  outbox rows of the integration events; when it returns a failure or raises, at whatever
  point, nothing of the command is durable. The active unit of work of the caller is restored
  in every case.\<close>

theorem transaction_atomic:
  assumes "session_laws S com (\<lambda>d. (rows d, rest d))" "quiet_close S"
    and "ue_session env = S" "ue_outbox env = Some (outbox_record T iso_fmt fresh)"
    and "sql_table T rows ob_clash rest" "insert_not_durable T com"
    and "dispatcher_inside env (length (w_uows w)) com (\<lambda>d. unique_rows ob_clash (rows d))"
    and "inside_tx (length (w_uows w)) com (\<lambda>d. unique_rows ob_clash (rows d)) (nxt msg)"
    and "unique_rows ob_clash (fst (com (w_db w)))"
    and "ms_kind msg = CommandMsg"
    and "transaction_handle env msg nxt w = (x, w')"
  shows "w_active w' = w_active w \<and> (case x of
      Inr res \<Rightarrow>
        (if is_success res
         then \<exists>w0 w1 w2 evs h. nxt msg w0 = (Inr res, w1) \<and> w_active w0 = Some (length (w_uows w)) \<and>
            (rows (w_db w0), rest (w_db w0)) = com (w_db w) \<and>
            drain_events (w_ctx w1) (uw_tracked (uow_at (length (w_uows w)) w1)) (w_heap w1) = (evs, h) \<and>
            dispatch_domain env evs (w1\<lparr>w_heap := h\<rparr>) = (Inr (), w2) \<and>
            com (w_db w') = (rows (w_db w2) @ outbox_rows iso_fmt fresh (integration_events evs),
                             rest (w_db w2))
         else com (w_db w') = com (w_db w))
    | Inl e \<Rightarrow> com (w_db w') = com (w_db w))"
proof -
  let ?r = "length (w_uows w)"
  obtain w1 where n: "uow_new w = (Inr ?r, w1)" by (auto simp: uow_new_def)
  note fresh = uow_new_fresh [OF n]
  let ?block = "async_with (uow_aenter env ?r) (uow_aexit env ?r) (transaction_body env ?r (nxt msg))"
  let ?wa = "set_active (Some ?r) w1"
  obtain y w3 where b: "?block ?wa = (y, w3)" by fastforce
  have x: "x = y" "w' = set_active (w_active w) w3"
    using assms(10,11) n fresh(3) active_uow.scoped_runs_inside
      [where body = ?block and v = "Some ?r" and s = w1, OF b]
    by (auto simp: transaction_handle_def ebind_def)
  have ph: "uow_phase ?r ?wa = (True, False, False, False)"
    using fresh(6) by (simp add: uow_phase_def)
  have u: "unique_rows ob_clash (fst (com (w_db ?wa)))" using assms(9) fresh(2) by simp
  have S': "session_laws (ue_session env) com (\<lambda>d. (rows d, rest d))" using assms(1,3) by simp
  from transaction_block_spec [where rows = rows and rest = rest and com = com and S = S and env = env
      and T = T and r = ?r and w = ?wa, OF assms(1-8) u ph b]
  show ?thesis
  proof (elim disjE exE conjE)
    fix res w0 w4 w2 evs h
    assume a: "y = Inr res" "is_success res" "uow_aenter env ?r ?wa = (Inr (), w0)"
      and more: "nxt msg w0 = (Inr res, w4)" "(rows (w_db w0), rest (w_db w0)) = com (w_db ?wa)"
        "drain_events (w_ctx w4) (uw_tracked (uow_at ?r w4)) (w_heap w4) = (evs, h)"
        "dispatch_domain env evs (w4\<lparr>w_heap := h\<rparr>) = (Inr (), w2)"
        "com (w_db w3) =
          (rows (w_db w2) @ outbox_rows iso_fmt fresh (integration_events evs), rest (w_db w2))"
    have "w_active w0 = Some ?r" using uow_aenter_com(4) [OF S' a(3)] by simp
    with more fresh(2) have "\<exists>w0 w1 w2 evs h. nxt msg w0 = (Inr res, w1) \<and>
        w_active w0 = Some ?r \<and> (rows (w_db w0), rest (w_db w0)) = com (w_db w) \<and>
        drain_events (w_ctx w1) (uw_tracked (uow_at ?r w1)) (w_heap w1) = (evs, h) \<and>
        dispatch_domain env evs (w1\<lparr>w_heap := h\<rparr>) = (Inr (), w2) \<and>
        com (w_db w3) = (rows (w_db w2) @ outbox_rows iso_fmt fresh (integration_events evs),
                         rest (w_db w2))"
      by (intro exI [of _ w0] exI [of _ w4] exI [of _ w2] exI [of _ evs] exI [of _ h] conjI) simp_all
    with a x show ?thesis by simp
  next
    assume "\<forall>res. y = Inr res \<longrightarrow> \<not> is_success res" "com (w_db w3) = com (w_db ?wa)"
    with x fresh(2) show ?thesis by (auto split: sum.splits)
  qed
qed

text \<open>What handlers call inside a transaction stays inside it.\<close>

lemma inside_tx_get_current: "inside_tx r com ok get_current_uow"
  by (auto simp: inside_tx_def get_current_uow_def split: option.splits)

lemma uow_phase_track [simp]:
  "uow_phase r (set_uow q (\<lambda>u. u\<lparr>uw_tracked := f u\<rparr>) w) = uow_phase r w"
  by (cases "q < length (w_uows w)"; cases "q = r")
    (auto simp: uow_phase_def set_uow_def list_update_beyond)

lemma inside_tx_track: "inside_tx r com ok (uow_track q agg)"
  by (auto simp: inside_tx_def uow_track_def)

lemma inside_tx_insert:
  assumes "sql_table T rows clash rest" "insert_not_durable T com"
  shows "inside_tx r com (\<lambda>d. unique_rows clash (rows d)) (on_db (sql_insert T xs))"
  unfolding inside_tx_def
proof (intro allI impI)
  fix w :: "('a, 'e, 'f) world_scheme" and x w'
  assume e: "on_db (sql_insert T xs) w = (x, w')"
  obtain y d where y: "sql_insert T xs (w_db w) = (y, d)" by fastforce
  with e have x: "x = y" "w' = w\<lparr>w_db := d\<rparr>" by (auto simp: on_db_def)
  have "com d = com (w_db w)" using assms(2) y by (metis insert_not_durable_def snd_conv)
  moreover have "unique_rows clash (rows (w_db w)) \<Longrightarrow> unique_rows clash (rows d)"
    using sql_table.insert_ok [OF assms(1), of xs "w_db w" _ d] y
      sql_table.insert_failed [OF assms(1), of xs "w_db w" _ d] by (cases y) auto
  ultimately show "com (w_db w') = com (w_db w) \<and> uow_phase r w' = uow_phase r w \<and>
      (unique_rows clash (rows (w_db w)) \<longrightarrow> unique_rows clash (rows (w_db w')))"
    using x by (simp add: uow_phase_def)
qed

text \<open>A command whose handler writes a row and then fails.\<close>

definition demo_command :: message where
  "demo_command = \<lparr>ms_class = ''RegisterUser'', ms_kind = CommandMsg, ms_fields = []\<rparr>"

definition demo_failing :: "(message, (demo_db, unit) world, unit) next_fn" where
  "demo_failing msg =
     ebind (on_db (sql_insert tx_outbox (outbox_rows (\<lambda>t. ''t'') (\<lambda>i. i) [demo_event IntegrationEvent ''x''])))
       (\<lambda>_. eret (Failure (mk_error DomainError ''no'' ''no'') []))"

lemma transaction_atomic_witness:
  "fst (w_db (snd (transaction_handle demo_env demo_command demo_failing demo_world))) = ([], ())"
proof -
  obtain x w' where run: "transaction_handle demo_env demo_command demo_failing demo_world = (x, w')"
    by fastforce
  have x: "x = Inr (Failure (mk_error DomainError ''no'' ''no'') [])"
    using run by (simp add: transaction_handle_def transaction_body_def demo_command_def demo_failing_def
      demo_env_def demo_world_def uow_new_def uow_init_def scoped_var_def efinally_def async_with_def
      uow_aenter_def uow_aexit_def uow_rollback_def tx_session_def tx_outbox_def on_db_def set_uow_def
      outbox_rows_def unique_rows_def ebind_def Let_def eret_def [abs_def] emodify_def [abs_def] nth_append)
  have "inside_tx 1 fst (\<lambda>d. unique_rows ob_clash (fst (snd d))) (demo_failing demo_command)"
    unfolding demo_failing_def
    by (intro inside_tx_bind inside_tx_ret inside_tx_insert [OF tx_outbox_table tx_outbox_com])
  from transaction_atomic [where S = tx_session and com = fst and rows = "\<lambda>d. fst (snd d)"
      and rest = "\<lambda>d. snd (snd d)" and env = demo_env and T = tx_outbox
      and iso_fmt = "\<lambda>t. ''t''" and fresh = "\<lambda>i. i" and nxt = demo_failing and msg = demo_command
      and w = demo_world and x = x and w' = w',
      OF tx_session_laws _ _ _ tx_outbox_table tx_outbox_com _ _ _ _ run] this x
  have "fst (w_db w') = fst (w_db demo_world)"
    by (auto simp: quiet_close_def demo_env_def demo_world_def demo_command_def tx_session_def
        dispatcher_inside_def inside_tx_def unique_rows_def)
  then show ?thesis using run by (simp add: demo_world_def)
qed

section \<open>Retry\<close>

text \<open>A call answers its \<open>n\<close>-th invocation with \<open>script n\<close>; \<open>calls\<close> counts them and sleeping
  does not.\<close>

definition scripted :: "('s \<Rightarrow> nat) \<Rightarrow> (nat \<Rightarrow> 'v result) \<Rightarrow> ('s, 'v result) eff \<Rightarrow> bool" where
  "scripted calls script call \<longleftrightarrow>
     (\<forall>s. \<exists>s'. call s = (Inr (script (calls s)), s') \<and> calls s' = Suc (calls s))"

definition uncounted :: "('s \<Rightarrow> nat) \<Rightarrow> ('s, 'b) eff \<Rightarrow> bool" where
  "uncounted calls m \<longleftrightarrow> (\<forall>s. \<exists>x s'. m s = (Inr x, s') \<and> calls s' = calls s)"

lemma retry_loop_spec:
  assumes call: "scripted calls script call"
    and quiet: "uncounted calls uniform" "\<And>d. uncounted calls (sleep d)"
    and more: "0 < n" "n \<le> rt_max cfg"
  shows "\<exists>m s'. retry_loop cfg uniform sleep call n prev s = (Inr (script (calls s + m)), s') \<and>
     m < n \<and> calls s' = calls s + Suc m \<and> (\<forall>i<m. should_retry cfg (script (calls s + i))) \<and>
     (should_retry cfg (script (calls s + m)) \<longrightarrow> Suc m = n)"
  using more
proof (induction n arbitrary: s prev)
  case 0
  then show ?case by simp
next
  case (Suc n)
  obtain s1 where c: "call s = (Inr (script (calls s)), s1)" "calls s1 = Suc (calls s)"
    using call unfolding scripted_def by blast
  show ?case
  proof (cases "should_retry cfg (script (calls s))")
    case False
    with c show ?thesis by (intro exI [of _ 0]) (auto simp: ebind_Inr)
  next
    case retry: True
    define pause where "pause = (if rt_max cfg - Suc n < rt_max cfg - 1
                   then ebind uniform (\<lambda>u. sleep (retry_delay cfg (rt_max cfg - Suc n) u))
                   else eret ())"
    have p: "\<exists>s2. pause s1 = (Inr (), s2) \<and> calls s2 = calls s1"
    proof (cases "rt_max cfg - Suc n < rt_max cfg - 1")
      case True
      obtain u s2 where u: "uniform s1 = (Inr u, s2)" "calls s2 = calls s1"
        using quiet(1) unfolding uncounted_def by blast
      obtain v s3 where "sleep (retry_delay cfg (rt_max cfg - Suc n) u) s2 = (Inr v, s3)" "calls s3 = calls s2"
        using quiet(2) unfolding uncounted_def by blast
      with u True show ?thesis by (auto simp: pause_def ebind_Inr)
    qed (auto simp: pause_def)
    then obtain s2 where s2: "pause s1 = (Inr (), s2)" "calls s2 = calls s1" by blast
    have "retry_loop cfg uniform sleep call (Suc n) prev =
        ebind call (\<lambda>result. if \<not> should_retry cfg result then eret result
          else ebind (if rt_max cfg - Suc n < rt_max cfg - 1
                   then ebind uniform (\<lambda>u. sleep (retry_delay cfg (rt_max cfg - Suc n) u))
                   else eret ()) (\<lambda>_. retry_loop cfg uniform sleep call n (Some result)))"
      by (rule retry_loop.simps(2))
    from this [folded pause_def]
    have step: "retry_loop cfg uniform sleep call (Suc n) prev s =
        retry_loop cfg uniform sleep call n (Some (script (calls s))) s2"
      using c retry s2 by (simp add: ebind_Inr)
    show ?thesis
    proof (cases n)
      case 0
      with step retry c s2 show ?thesis by (intro exI [of _ 0]) auto
    next
      case (Suc k)
      with Suc.IH [of "Some (script (calls s))" s2] Suc.prems obtain m s' where
        m: "retry_loop cfg uniform sleep call n (Some (script (calls s))) s2 = (Inr (script (calls s2 + m)), s')"
          "m < n" "calls s' = calls s2 + Suc m" "\<forall>i<m. should_retry cfg (script (calls s2 + i))"
          "should_retry cfg (script (calls s2 + m)) \<longrightarrow> Suc m = n" by auto
      have "\<forall>i<Suc m. should_retry cfg (script (calls s + i))"
        using m(4) c s2 retry by (auto simp: less_Suc_eq_0_disj)
      with m step c s2 show ?thesis by (intro exI [of _ "Suc m"]) auto
    qed
  qed
qed

text \<open>C18: Retry calls the handler until a result is not retryable, at most \<open>max_attempts\<close> times,
  and returns the result of its last call; every earlier result was a transient failure.\<close>

theorem retry_last_attempt:
  assumes "retry_init max_attempts base max_delay codes = Inr cfg"
    and "scripted calls script (nxt msg)"
    and "uncounted calls uniform" "\<forall>d. uncounted calls (sleep d)"
  shows "\<exists>m s'. retry_handle cfg uniform sleep msg nxt s = (Inr (script (calls s + m)), s') \<and>
     int m < max_attempts \<and> calls s' = calls s + Suc m \<and>
     (\<forall>i<m. should_retry cfg (script (calls s + i))) \<and>
     (should_retry cfg (script (calls s + m)) \<longrightarrow> int (Suc m) = max_attempts)"
proof -
  have r: "0 < rt_max cfg" "int (rt_max cfg) = max_attempts"
    using assms(1) by (auto simp: retry_init_def split: if_splits)
  from retry_loop_spec [OF assms(2,3), of sleep "rt_max cfg" cfg None s] assms(4) r
  show ?thesis unfolding retry_handle_def
    by (metis (no_types, lifting) less_or_eq_imp_le of_nat_less_iff order_refl)
qed

lemma retry_last_attempt_witness:
  "\<exists>s'. retry_handle \<lparr>rt_max = 3, rt_base = 1, rt_max_delay = 5, rt_codes = None\<rparr>
      (\<lambda>s. (Inr 0, s)) (\<lambda>d s. (Inr (), s)) ()
      (\<lambda>msg n. (Inr (if n < 2 then Failure (mk_error TimeoutError ''t'' ''t'') [] else Success () []), n + 1))
      (0::nat) = (Inr (Success () []), s')"
proof -
  let ?script = "\<lambda>n::nat. if n < 2 then Failure (mk_error TimeoutError ''t'' ''t'') [] else Success () []"
  let ?cfg = "\<lparr>rt_max = 3, rt_base = 1, rt_max_delay = 5, rt_codes = None\<rparr>"
  have "retry_init 3 1 5 None = Inr ?cfg" by (simp add: retry_init_def)
  from retry_last_attempt [OF this, where calls = "\<lambda>n. n" and script = ?script and msg = "()"
      and nxt = "\<lambda>msg n. (Inr (?script n), n + 1)" and uniform = "\<lambda>s. (Inr 0, s)"
      and sleep = "\<lambda>d s. (Inr (), s)" and s = 0]
  have "\<exists>m s'. retry_handle ?cfg (\<lambda>s. (Inr 0, s)) (\<lambda>d s. (Inr (), s)) () (\<lambda>msg n. (Inr (?script n), n + 1)) 0
        = (Inr (?script (0 + m)), s') \<and>
    int m < 3 \<and> s' = 0 + Suc m \<and> (\<forall>i<m. should_retry ?cfg (?script (0 + i))) \<and>
    (should_retry ?cfg (?script (0 + m)) \<longrightarrow> int (Suc m) = 3)"
    by (simp add: scripted_def uncounted_def)
  then obtain m s' where
    m: "retry_handle ?cfg (\<lambda>s. (Inr 0, s)) (\<lambda>d s. (Inr (), s)) () (\<lambda>msg n. (Inr (?script n), n + 1)) 0
        = (Inr (?script (0 + m)), s')"
    "int m < 3" "s' = 0 + Suc m" "\<forall>i<m. should_retry ?cfg (?script (0 + i))"
    "should_retry ?cfg (?script (0 + m)) \<longrightarrow> int (Suc m) = 3"
    by blast
  have "m = 2" using m(2,5) by (auto simp: should_retry_def error_isinstance_def split: if_splits)
  with m(1) show ?thesis by simp
qed

section \<open>Idempotency\<close>

text \<open>
  What the behaviour relies on. \<open>slot s t k\<close> is the entry of a tenant's key: the fingerprint of
  the claimed payload and, once completed, what reading the stored response back gives
  (\<open>None\<close> for a response that reads back as Python's \<open>None\<close>).
\<close>

locale idempotency_store =
  fixes store :: "('s, 'v) idem_store"
    and slot :: "'s \<Rightarrow> string \<Rightarrow> string \<Rightarrow> ('f \<times> 'v option option) option"
    and fp :: "dict \<Rightarrow> 'f"
    and readback :: "'v \<Rightarrow> 'v option"
  assumes begin_claim: "is_begin store t k p s = (Inr (Success None md), s') \<Longrightarrow>
      (slot s t k = None \<and> slot s' t k = Some (fp p, None)) \<or>
      (slot s t k = Some (fp p, Some None) \<and> slot s' t k = slot s t k)"
    and begin_replay: "is_begin store t k p s = (Inr (Success (Some v) md), s') \<Longrightarrow>
      slot s t k = Some (fp p, Some (Some v))"
    and begin_completed: "is_begin store t k p s = (Inr c, s') \<Longrightarrow>
      slot s t k = Some (fp p, Some (Some v)) \<Longrightarrow> is_failure c \<or> c = Success (Some v) []"
    and complete_ok: "is_complete store t k v s = (Inr u, s') \<Longrightarrow> slot s t k = Some (f, x) \<Longrightarrow>
      slot s' t k = Some (f, Some (readback v))"
begin

text \<open>A claimed key keeps the handler from running: the outcome does not depend on it.\<close>

lemma handler_not_run:
  assumes "ms_kind msg = CommandMsg" "idempotency_key msg = Some k"
    and "slot s (tenant_of (rc s)) k = Some (f, c)" "\<not> (f = fp (message_envelope msg) \<and> c = Some None)"
  shows "idempotency_handle store rc msg n1 s = idempotency_handle store rc msg n2 s"
proof -
  obtain y s1 where y: "is_begin store (tenant_of (rc s)) k (message_envelope msg) s = (y, s1)"
    by fastforce
  show ?thesis
  proof (cases y)
    case (Inl e)
    with assms(1,2) y show ?thesis by (simp add: idempotency_handle_def ebind_def Let_def)
  next
    case (Inr claim)
    have "claim \<noteq> Success None md" for md
      using begin_claim y Inr assms(3,4) by force
    with assms(1,2) y Inr show ?thesis
      by (auto simp: idempotency_handle_def ebind_def Let_def split: result.split option.split)
  qed
qed

text \<open>A first run that succeeds leaves the response in the slot.\<close>

lemma first_run_completes:
  assumes "ms_kind msg = CommandMsg" "idempotency_key msg = Some k"
    and free: "slot s (tenant_of (rc s)) k = None"
    and keeps: "\<And>s r s'. nxt msg s = (r, s') \<Longrightarrow> slot s' (tenant_of (rc s0)) k = slot s (tenant_of (rc s0)) k"
    and s0: "s0 = s"
    and quiet: "\<And>v s. \<exists>s'. is_complete store (tenant_of (rc s0)) k v s = (Inr (), s')"
    and run: "idempotency_handle store rc msg nxt s = (Inr (Success v md), s')"
  shows "slot s' (tenant_of (rc s0)) k = Some (fp (message_envelope msg), Some (readback v))"
proof -
  let ?t = "tenant_of (rc s)"
  obtain y s1 where y: "is_begin store ?t k (message_envelope msg) s = (y, s1)" by fastforce
  from run y assms(1,2) obtain claim where claim: "y = Inr claim"
    by (cases y) (auto simp: idempotency_handle_def ebind_def Let_def)
  show ?thesis
  proof (cases claim)
    case (Failure e m)
    with run y claim assms(1,2) show ?thesis by (simp add: idempotency_handle_def ebind_def Let_def)
  next
    case (Success w m)
    show ?thesis
    proof (cases w)
      case (Some v')
      with begin_replay [of ?t k "message_envelope msg" s v' m s1] y claim Success free show ?thesis by simp
    next
      case None
      with begin_claim [of ?t k "message_envelope msg" s m s1] y claim Success free
      have s1: "slot s1 ?t k = Some (fp (message_envelope msg), None)" by auto
      obtain z s2 where z: "nxt msg s1 = (z, s2)" by fastforce
      obtain s3 where c: "is_complete store ?t k v s2 = (Inr (), s3)" using quiet s0 by blast
      have e: "idempotency_handle store rc msg nxt s =
          ebind (nxt msg) (\<lambda>result. case result of
              Failure e md \<Rightarrow> eret (Failure e md)
            | Success v md \<Rightarrow> ebind (etry (is_complete store ?t k v) (\<lambda>_. eret ()))
                (\<lambda>_. eret (Success v md))) s1"
        using y claim Success None assms(1,2) by (simp add: idempotency_handle_def ebind_Inr Let_def)
      have "z = Inr (Success v md)"
      proof (cases z)
        case (Inl e')
        with e z run show ?thesis by (simp add: ebind_def)
      next
        case (Inr res)
        with e z run show ?thesis
          by (cases res) (auto simp: ebind_def split: sum.splits prod.splits)
      qed
      moreover from this have "s' = s3"
        using e z run c s0 by (simp add: ebind_def etry_def)
      ultimately show ?thesis using complete_ok [OF c] keeps [OF z] s1 s0 by simp
    qed
  qed
qed

end

section \<open>Authorization\<close>

text \<open>The policies, evaluated in order, all let the subject pass.\<close>

fun policies_allow :: "('m, 's, 'p) policy list \<Rightarrow> 'p \<Rightarrow> 'm \<Rightarrow> 's \<Rightarrow> bool" where
  "policies_allow [] p msg s = True"
| "policies_allow (q # qs) p msg s =
     (case evaluate_one q p msg s of
        (Inr (Success u md), s') \<Rightarrow> policies_allow qs p msg s'
      | _ \<Rightarrow> False)"

lemma authorize_all_denied:
  "\<not> policies_allow qs p msg s \<Longrightarrow>
     authorize_all qs p msg c1 s = authorize_all qs p msg c2 s \<and>
     (\<forall>r. fst (authorize_all qs p msg c1 s) = Inr r \<longrightarrow> is_failure r)"
proof (induction qs arbitrary: s)
  case Nil
  then show ?case by simp
next
  case (Cons q qs)
  obtain y s1 where y: "evaluate_one q p msg s = (y, s1)" by fastforce
  show ?case
  proof (cases y)
    case (Inl e)
    with y show ?thesis by (simp add: ebind_def)
  next
    case (Inr out)
    show ?thesis
    proof (cases out)
      case (Success u md)
      with Cons Inr y show ?thesis by (simp add: ebind_def)
    next
      case (Failure e md)
      with Inr y show ?thesis by (simp add: ebind_def)
    qed
  qed
qed

lemma authorize_all_allowed:
  "policies_allow qs p msg s \<Longrightarrow> \<exists>s'. \<forall>c. authorize_all qs p msg c s = c s'"
proof (induction qs arbitrary: s)
  case Nil
  then show ?case by auto
next
  case (Cons q qs)
  then obtain u md s1 where "evaluate_one q p msg s = (Inr (Success u md), s1)" "policies_allow qs p msg s1"
    by (auto split: prod.splits sum.splits result.splits)
  with Cons.IH [of s1] show ?case by (simp add: ebind_def)
qed


lemma lower_deny [simp]: "py_lower ''Deny'' = ''deny''"
  by code_simp


section \<open>Exception translation and retry\<close>

text \<open>Below the translation behaviour no exception of the handler survives, cancellation
  included: it becomes a failure that the retry behaviour takes for transient, so with no list of
  codes every exception, a programming error too, is retried.\<close>

theorem translated_exceptions_are_retried:
  assumes "nxt msg s = (y :: exn + 'v result, s')"
  shows "case y of
      Inr r \<Rightarrow> exception_translation_handle msg nxt s = (Inr r, s')
    | Inl e \<Rightarrow> exception_translation_handle msg nxt s = (Inr (Failure (translate_exception e) []), s') \<and>
        (rt_codes cfg = None \<longrightarrow> should_retry cfg (Failure (translate_exception e) [] :: 'v result))"
  using assms
  by (auto simp: exception_translation_handle_def etry_all_def result_failure_def should_retry_def
      translate_exception_def is_error_instance_def error_isinstance_def split: sum.splits)

lemma translated_exceptions_are_retried_witness:
  "should_retry \<lparr>rt_max = 3, rt_base = 1, rt_max_delay = 5, rt_codes = None\<rparr>
     (Failure (translate_exception (PyBaseException ''CancelledError'' [])) [] :: unit result)"
  using translated_exceptions_are_retried
    [where nxt = "\<lambda>(m::unit) s. (Inl (PyBaseException ''CancelledError'' []), s)" and msg = "()"
      and s = "0::nat" and y = "Inl (PyBaseException ''CancelledError'' []) :: exn + unit result" and s' = 0
      and cfg = "\<lparr>rt_max = 3, rt_base = 1, rt_max_delay = 5, rt_codes = None\<rparr>"]
  by simp

section \<open>How many units of work a retried command opens\<close>

abbreviation uow_count :: "('d, 'a, 'z) world_scheme \<Rightarrow> nat" where
  "uow_count w \<equiv> length (w_uows w)"

lemma keeps_count_on_db: "ekeeps uow_count (on_db m)"
  by (simp add: ekeeps_def)

lemma keeps_count_set_uow: "ekeeps uow_count (emodify (set_uow r f))"
  by (rule ekeeps_modify) simp

lemmas keeps_count = keeps_count_on_db keeps_count_set_uow

lemma keeps_count_uow:
  "ekeeps uow_count (uow_aenter env r)" "ekeeps uow_count (uow_aexit env r exc)"
proof -
  have rb: "ekeeps uow_count (uow_rollback env r)"
    unfolding uow_rollback_def Let_def by (intro ekeeps_rules keeps_count)
  show "ekeeps uow_count (uow_aenter env r)"
    unfolding uow_aenter_def by (intro ekeeps_rules keeps_count)
  show "ekeeps uow_count (uow_aexit env r exc)"
    unfolding uow_aexit_def by (intro ekeeps_rules keeps_count rb)
qed

lemma keeps_count_commit:
  assumes "\<And>publish ev. ue_dispatcher env = Some publish \<Longrightarrow> ekeeps uow_count (publish ev)"
  shows "ekeeps uow_count (uow_commit env r)"
proof -
  have d: "ekeeps uow_count (uow_dispatch env r evs)" for evs
    unfolding uow_dispatch_def using assms
    by (auto intro!: ekeeps_bind ekeeps_efold keeps_count_on_db split: option.split)
  have "ekeeps uow_count (ebind (uow_dispatch env r evs) (\<lambda>_.
             ebind (on_db (se_commit (ue_session env) r)) (\<lambda>_.
               emodify (set_uow r (\<lambda>u. u\<lparr>uw_committed := True\<rparr>)))))" for evs
    by (intro ekeeps_bind keeps_count d)
  then show ?thesis
    unfolding uow_commit_def Let_def ekeeps_def by (auto split: prod.splits)
qed

lemma ekeeps_case:
  assumes "ekeeps obs m" "\<And>x. ekeeps obs (f x)" "\<And>e. ekeeps obs (h e)"
  shows "ekeeps obs (\<lambda>s. case m s of (Inr x, s1) \<Rightarrow> f x s1 | (Inl e, s1) \<Rightarrow> h e s1)"
  unfolding ekeeps_def
proof
  fix s
  obtain y s1 where "m s = (y, s1)" by fastforce
  with assms ekeepsD [OF assms(1) this]
  show "obs (snd (case m s of (Inr x, s1) \<Rightarrow> f x s1 | (Inl e, s1) \<Rightarrow> h e s1)) = obs s"
    by (auto simp: ekeeps_def split: sum.splits)
qed

lemma keeps_async_with:
  assumes "ekeeps obs en" "\<And>e. ekeeps obs (ex e)" "ekeeps obs body"
  shows "ekeeps obs (async_with en ex body)"
  unfolding async_with_def by (intro ekeeps_bind ekeeps_case ekeeps_rules assms)

lemma keeps_scoped:
  assumes "\<And>v s. obs (put v s) = obs s" "ekeeps obs body"
  shows "ekeeps obs (scoped_var get put v body)"
proof -
  have "ekeeps obs (efinally body (emodify (put old)))" for old
    by (intro ekeeps_rules assms)
  then show ?thesis using assms(1) by (simp add: ekeeps_def scoped_var_def Let_def)
qed

lemma keeps_retry_loop:
  assumes "ekeeps obs uniform" "\<And>d. ekeeps obs (sleep d)" "ekeeps obs call"
  shows "ekeeps obs (retry_loop cfg uniform sleep call n prev)"
  by (induction n arbitrary: prev) (auto intro!: ekeeps_bind assms split: option.split)

text \<open>In the documented order (transaction, retry, exception translation) all attempts of a
  command share one unit of work: dispatching it opens exactly one, whatever number of times the
  handler is retried.\<close>

theorem retry_shares_transaction:
  assumes "ms_kind msg = CommandMsg"
    and "ekeeps uow_count uniform" "\<forall>d. ekeeps uow_count (sleep d)" "ekeeps uow_count (handler msg)"
    and "\<forall>publish ev. ue_dispatcher env = Some publish \<longrightarrow> ekeeps uow_count (publish ev)"
    and "chain_execute False otel
           [transaction_handle env, retry_handle cfg uniform sleep, exception_translation_handle]
           handler msg w = (x, w')"
  shows "uow_count w' = Suc (uow_count w)"
proof -
  let ?r = "uow_count w"
  have inner: "ekeeps uow_count (retry_handle cfg uniform sleep msg (\<lambda>m. exception_translation_handle m handler))"
    unfolding retry_handle_def exception_translation_handle_def
    using assms(2,3,4) by (intro keeps_retry_loop ekeeps_try_all ekeeps_rules) auto
  have "ekeeps uow_count (transaction_body env ?r
      (retry_handle cfg uniform sleep msg (\<lambda>m. exception_translation_handle m handler)))"
    unfolding transaction_body_def using assms(5)
    by (auto intro!: ekeeps_bind inner keeps_count_commit)
  then have "ekeeps uow_count (scoped_var w_active set_active (Some ?r)
      (async_with (uow_aenter env ?r) (uow_aexit env ?r) (transaction_body env ?r
      (retry_handle cfg uniform sleep msg (\<lambda>m. exception_translation_handle m handler)))))"
    by (intro keeps_scoped keeps_async_with keeps_count_uow) simp_all
  from ekeepsD [OF this, of "w\<lparr>w_uows := w_uows w @ [uow_init]\<rparr>" x w'] assms(1,6)
  show ?thesis unfolding chain_execute_foldr
    by (auto simp: transaction_handle_def uow_new_def ebind_def)
qed

lemma retry_shares_transaction_witness:
  "uow_count (snd (chain_execute False False
     [transaction_handle demo_env,
      retry_handle \<lparr>rt_max = 3, rt_base = 1, rt_max_delay = 5, rt_codes = None\<rparr>
        (\<lambda>s. (Inr 0, s)) (\<lambda>d s. (Inr (), s)), exception_translation_handle]
     (\<lambda>m w. (Inl (PyException ''OSError'' []), w) :: (exn + unit result) \<times> _) demo_command demo_world)) = 2"
  by (subst retry_shares_transaction [where env = demo_env and otel = False and w = demo_world
        and cfg = "\<lparr>rt_max = 3, rt_base = 1, rt_max_delay = 5, rt_codes = None\<rparr>"
        and uniform = "\<lambda>s. (Inr 0, s)" and sleep = "\<lambda>d s. (Inr (), s)" and msg = demo_command
        and handler = "\<lambda>m w. (Inl (PyException ''OSError'' []), w)", OF _ _ _ _ _ surjective_pairing])
    (simp_all add: demo_command_def demo_env_def demo_world_def)

end
