(* ===== verification/Qx_Cache.thy ===== *)
theory Qx_Cache
  imports Qx_Pipeline
begin

text \<open>
  The package \<open>qx-cache\<close>: the \<open>Cache\<close> facade (\<open>client\<close>), the idempotency store
  (\<open>idempotency\<close>) and the distributed lock (\<open>distributed_lock\<close>). Redis is not part of the
  repository: its commands are the fields of a parameter of type \<open>'r redis\<close>, and what the code
  relies on is the locale \<open>redis_server\<close>, interpreted on a keyspace held in a function. The
  Lua scripts are in the sources, so they are translated: a script is a sequence of commands
  that \<open>EVAL\<close> runs as one step. The store is an interpretation of \<open>idempotency_store\<close>.
\<close>

section \<open>Redis\<close>

text \<open>A stored string, where one that \<open>json.dumps\<close> made is represented by the value it encodes.\<close>

datatype rtext = Text string | JsonText json

datatype rentry = RString rtext | RHash "(string \<times> rtext) list"

datatype lua = LuaNil | LuaInt int | LuaText rtext | LuaList "lua list"

record 'r redis =
  rd_get :: "string \<Rightarrow> ('r, rtext option) eff"
  rd_set :: "string \<Rightarrow> rtext \<Rightarrow> bool \<Rightarrow> int option \<Rightarrow> ('r, bool) eff"
  rd_del :: "string \<Rightarrow> ('r, int) eff"
  rd_exists :: "string \<Rightarrow> ('r, int) eff"
  rd_expire :: "string \<Rightarrow> int \<Rightarrow> ('r, bool) eff"
  rd_incrby :: "string \<Rightarrow> int \<Rightarrow> ('r, int) eff"
  rd_hset :: "string \<Rightarrow> (string \<times> rtext) list \<Rightarrow> ('r, unit) eff"
  rd_hget :: "string \<Rightarrow> string \<Rightarrow> ('r, rtext option) eff"
  rd_eval :: "('r, lua) eff \<Rightarrow> ('r, lua) eff"

definition hash_set :: "(string \<times> rtext) list \<Rightarrow> rentry option \<Rightarrow> rentry" where
  "hash_set fs e =
     RHash (fold (\<lambda>(f, v) h. AList.update f v h) fs (case e of Some (RHash h) \<Rightarrow> h | _ \<Rightarrow> []))"

locale redis_server =
  fixes R :: "'r redis" and kv :: "'r \<Rightarrow> string \<Rightarrow> rentry option"
  assumes get_ok: "rd_get R k s = (Inr v, s') \<Longrightarrow> kv s' = kv s \<and> kv s k = map_option RString v"
    and get_err: "rd_get R k s = (Inl e, s') \<Longrightarrow> kv s' = kv s"
    and set_ok: "rd_set R k t nx ex s = (Inr b, s') \<Longrightarrow>
      b = (\<not> nx \<or> kv s k = None) \<and> kv s' = (if b then (kv s)(k := Some (RString t)) else kv s)"
    and set_err: "rd_set R k t nx ex s = (Inl e, s') \<Longrightarrow>
      kv s' = kv s \<or> ((\<not> nx \<or> kv s k = None) \<and> kv s' = (kv s)(k := Some (RString t)))"
    and del_err: "rd_del R k s = (Inl e, s') \<Longrightarrow> kv s' = kv s \<or> kv s' = (kv s)(k := None)"
    and expire_err: "rd_expire R k ttl s = (Inl e, s') \<Longrightarrow> 0 < ttl \<Longrightarrow> kv s' = kv s"
    and del_ok: "rd_del R k s = (Inr n, s') \<Longrightarrow> kv s' = (kv s)(k := None) \<and> (n = 0 \<longleftrightarrow> kv s k = None)"
    and exists_ok: "rd_exists R k s = (Inr n, s') \<Longrightarrow> kv s' = kv s \<and> (n = 0 \<longleftrightarrow> kv s k = None)"
    and expire_ok: "rd_expire R k ttl s = (Inr c, s') \<Longrightarrow> 0 < ttl \<Longrightarrow> kv s' = kv s \<and> (c \<longleftrightarrow> kv s k \<noteq> None)"
    and hset_ok: "rd_hset R k fs s = (Inr u, s') \<Longrightarrow>
      kv s' = (kv s)(k := Some (hash_set fs (kv s k))) \<and> (\<forall>x. kv s k \<noteq> Some (RString x))"
    and hget_ok: "rd_hget R k f s = (Inr v, s') \<Longrightarrow> kv s' = kv s \<and>
      (case kv s k of None \<Rightarrow> v = None | Some (RHash h) \<Rightarrow> v = map_of h f | Some (RString x) \<Rightarrow> False)"
    and hset_err: "rd_hset R k fs s = (Inl e, s') \<Longrightarrow>
      kv s' = kv s \<or> kv s' = (kv s)(k := Some (hash_set fs (kv s k)))"
    and hget_err: "rd_hget R k f s = (Inl e, s') \<Longrightarrow> kv s' = kv s"
    and eval_ok: "rd_eval R m s = (Inr w, s') \<Longrightarrow> m s = (Inr w, s')"
    and eval_err: "rd_eval R m s = (Inl e, s') \<Longrightarrow> s' = s \<or> s' = snd (m s)"

definition wrong_type :: exn where
  "wrong_type = PyException ''ResponseError'' ''WRONGTYPE Operation against a key holding the wrong kind of value''"

text \<open>A keyspace in a function. Expiry is a step of its own, so \<open>EXPIRE\<close> only answers.\<close>

type_synonym keyspace = "string \<Rightarrow> rentry option"

definition map_redis :: "keyspace redis" where
  "map_redis =
     \<lparr> rd_get = (\<lambda>k s. (case s k of None \<Rightarrow> Inr None | Some (RString x) \<Rightarrow> Inr (Some x) | Some (RHash h) \<Rightarrow> Inl wrong_type, s)),
       rd_set = (\<lambda>k v nx ex s. if nx \<and> s k \<noteq> None then (Inr False, s) else (Inr True, s(k := Some (RString v)))),
       rd_del = (\<lambda>k s. (Inr (if s k = None then 0 else 1), s(k := None))),
       rd_exists = (\<lambda>k s. (Inr (if s k = None then 0 else 1), s)),
       rd_expire = (\<lambda>k ttl s. (Inr (s k \<noteq> None), s)),
       rd_incrby = (\<lambda>k n s.
         let m = (case s k of Some (RString (JsonText (JInt i))) \<Rightarrow> i | _ \<Rightarrow> 0) + n
         in (Inr m, s(k := Some (RString (JsonText (JInt m)))))),
       rd_hset = (\<lambda>k fs s. (case s k of Some (RString x) \<Rightarrow> (Inl wrong_type, s) | _ \<Rightarrow> (Inr (), s(k := Some (hash_set fs (s k)))))),
       rd_hget = (\<lambda>k f s. (case s k of None \<Rightarrow> Inr None | Some (RHash h) \<Rightarrow> Inr (map_of h f) | Some (RString x) \<Rightarrow> Inl wrong_type, s)),
       rd_eval = (\<lambda>m. m) \<rparr>"

lemma map_redis_sel [simp]:
  "rd_get map_redis k s = (case s k of None \<Rightarrow> Inr None | Some (RString x) \<Rightarrow> Inr (Some x) | Some (RHash h) \<Rightarrow> Inl wrong_type, s)"
  "rd_set map_redis k v nx ex s =
     (if nx \<and> s k \<noteq> None then (Inr False, s) else (Inr True, s(k := Some (RString v))))"
  "rd_del map_redis k s = (Inr (if s k = None then 0 else 1), s(k := None))"
  "rd_exists map_redis k s = (Inr (if s k = None then 0 else 1), s)"
  "rd_expire map_redis k ttl s = (Inr (s k \<noteq> None), s)"
  "rd_hset map_redis k fs s = (case s k of Some (RString x) \<Rightarrow> (Inl wrong_type, s) | _ \<Rightarrow> (Inr (), s(k := Some (hash_set fs (s k)))))"
  "rd_hget map_redis k f s = (case s k of None \<Rightarrow> Inr None | Some (RHash h) \<Rightarrow> Inr (map_of h f) | Some (RString x) \<Rightarrow> Inl wrong_type, s)"
  "rd_eval map_redis m = m"
  by (simp_all add: map_redis_def)

interpretation keyspace: redis_server map_redis "\<lambda>s. s"
  by unfold_locales (auto split: if_splits option.splits rentry.splits)

section \<open>The cache facade\<close>

definition cache_key :: "string \<Rightarrow> string list \<Rightarrow> string" where
  "cache_key ns parts = py_join '':'' (ns # parts)"

text \<open>\<open>json.loads\<close> of a text that is no JSON raises.\<close>

fun json_loads :: "rtext \<Rightarrow> exn + json" where
  "json_loads (JsonText v) = Inr v"
| "json_loads (Text s) = Inl (PyException ''JSONDecodeError'' s)"

definition cache_get_json :: "'r redis \<Rightarrow> string \<Rightarrow> ('r, json option) eff" where
  "cache_get_json R key =
     ebind (rd_get R key) (\<lambda>raw. case raw of
       None \<Rightarrow> eret None
     | Some t \<Rightarrow> ebind (elift (json_loads t)) (\<lambda>v. eret (if v = JNull then None else Some v)))"

definition cache_set_json :: "'r redis \<Rightarrow> string \<Rightarrow> json \<Rightarrow> int option \<Rightarrow> ('r, unit) eff" where
  "cache_set_json R key v ttl = ebind (rd_set R key (JsonText v) False ttl) (\<lambda>_. eret ())"

definition cache_delete :: "'r redis \<Rightarrow> string \<Rightarrow> ('r, bool) eff" where
  "cache_delete R key = ebind (rd_del R key) (\<lambda>n. eret (n \<noteq> 0))"

definition cache_incr :: "'r redis \<Rightarrow> string \<Rightarrow> int \<Rightarrow> ('r, int) eff" where
  "cache_incr R key n = rd_incrby R key n"

definition cache_expire :: "'r redis \<Rightarrow> string \<Rightarrow> int \<Rightarrow> ('r, bool) eff" where
  "cache_expire R key seconds = rd_expire R key seconds"

definition cache_exists :: "'r redis \<Rightarrow> string \<Rightarrow> ('r, bool) eff" where
  "cache_exists R key = ebind (rd_exists R key) (\<lambda>n. eret (n \<noteq> 0))"

section \<open>The idempotency store\<close>

text \<open>
  \<open>sha\<close> is the SHA-256 of the canonical JSON text, \<open>now\<close> the time text; the store's settings
  are its namespace and its default lifetime.
\<close>

record idem_config =
  ic_namespace :: string
  ic_ttl :: int

definition idem_key :: "idem_config \<Rightarrow> string \<Rightarrow> string \<Rightarrow> string" where
  "idem_key cfg tenant key = py_join '':'' [ic_namespace cfg, tenant, key]"

definition idem_fingerprint :: "(json \<Rightarrow> string) \<Rightarrow> dict \<Rightarrow> rtext" where
  "idem_fingerprint sha payload = Text (sha (JObj payload))"

definition lua_text :: "rtext option \<Rightarrow> lua" where
  "lua_text v = (case v of None \<Rightarrow> LuaNil | Some t \<Rightarrow> LuaText t)"

definition begin_script :: "'r redis \<Rightarrow> string \<Rightarrow> rtext \<Rightarrow> rtext \<Rightarrow> int \<Rightarrow> ('r, lua) eff" where
  "begin_script R key fp created ttl =
     ebind (rd_exists R key) (\<lambda>n.
       if n = 0 then
         ebind (rd_hset R key [(''status'', Text ''in_progress''), (''request_fp'', fp), (''created_at'', created)])
           (\<lambda>_. ebind (rd_expire R key ttl) (\<lambda>_. eret (LuaText (Text ''claim''))))
       else ebind (rd_hget R key ''request_fp'') (\<lambda>stored_fp.
         if stored_fp \<noteq> Some fp then eret (LuaText (Text ''conflict''))
         else ebind (rd_hget R key ''status'') (\<lambda>status.
           if status = Some (Text ''completed'')
           then ebind (rd_hget R key ''response'') (\<lambda>response. eret (lua_text response))
           else eret (LuaText (Text ''in_progress'')))))"

definition store_unavailable :: "exn \<Rightarrow> error" where
  "store_unavailable e =
     Error InfrastructureError ''idempotency.store_unavailable''
       (''idempotency store error: '' @ exn_str e) [] (Some e)"

definition payload_mismatch :: error where
  "payload_mismatch =
     mk_error IdempotencyConflictError ''idempotency.payload_mismatch''
       ''Idempotency-Key already in use with a different request payload. Use a new key for a different request.''"

definition in_progress :: error where
  "in_progress =
     mk_error ConflictError ''idempotency.in_progress''
       ''A request with this Idempotency-Key is already in progress. Retry shortly.''"

definition idem_answer :: "lua \<Rightarrow> exn + json option result" where
  "idem_answer res =
     (case res of
        LuaText (Text t) \<Rightarrow>
          (if t = ''claim'' then Inr (result_success None [])
           else if t = ''conflict'' then Inr (result_failure payload_mismatch [])
           else if t = ''in_progress'' then Inr (result_failure in_progress [])
           else Inl (PyException ''JSONDecodeError'' t))
      | LuaText (JsonText v) \<Rightarrow> Inr (result_success (if v = JNull then None else Some v) [])
      | _ \<Rightarrow> Inl (PyException ''AttributeError'' ''encode''))"

definition idem_begin ::
  "'r redis \<Rightarrow> idem_config \<Rightarrow> (json \<Rightarrow> string) \<Rightarrow> string \<Rightarrow> int option \<Rightarrow> string \<Rightarrow> string \<Rightarrow> dict
     \<Rightarrow> ('r, json option result) eff" where
  "idem_begin R cfg sha now ttl_seconds tenant key payload s =
     (let ttl = (case ttl_seconds of None \<Rightarrow> ic_ttl cfg | Some t \<Rightarrow> if t = 0 then ic_ttl cfg else t)
      in case rd_eval R (begin_script R (idem_key cfg tenant key) (idem_fingerprint sha payload)
                 (Text now) ttl) s of
           (Inl e, s') \<Rightarrow>
             (if is_exception e then (Inr (result_failure (store_unavailable e) []), s') else (Inl e, s'))
         | (Inr res, s') \<Rightarrow> (idem_answer res, s'))"

definition idem_complete ::
  "'r redis \<Rightarrow> idem_config \<Rightarrow> int option \<Rightarrow> string \<Rightarrow> string \<Rightarrow> json \<Rightarrow> ('r, unit) eff" where
  "idem_complete R cfg ttl_seconds tenant key response =
     (let ttl = (case ttl_seconds of None \<Rightarrow> ic_ttl cfg | Some t \<Rightarrow> if t = 0 then ic_ttl cfg else t)
      in ebind (rd_hset R (idem_key cfg tenant key)
                  [(''status'', Text ''completed''), (''response'', JsonText response)])
           (\<lambda>_. ebind (rd_expire R (idem_key cfg tenant key) ttl) (\<lambda>_. eret ())))"

definition redis_idem_store ::
  "'r redis \<Rightarrow> idem_config \<Rightarrow> (json \<Rightarrow> string) \<Rightarrow> string \<Rightarrow> int option \<Rightarrow> ('r, json) idem_store" where
  "redis_idem_store R cfg sha now ttl =
     \<lparr>is_begin = idem_begin R cfg sha now ttl, is_complete = idem_complete R cfg ttl\<rparr>"

section \<open>The distributed lock\<close>

record dlock =
  dl_name :: string
  dl_token :: "uuid option"

definition token_text :: "uuid \<Rightarrow> rtext" where
  "token_text t = Text (str_of_uuid t)"

text \<open>The lock object and the server are one state; \<open>token\<close> is the fresh UUID.\<close>

definition lock_acquire :: "'r redis \<Rightarrow> uuid \<Rightarrow> int \<Rightarrow> (dlock \<times> 'r, bool) eff" where
  "lock_acquire R token ttl st =
     ebind (on_snd (rd_set R (dl_name (fst st)) (token_text token) True (Some ttl))) (\<lambda>ok.
       if ok then ebind (on_fst (emodify (\<lambda>l. l\<lparr>dl_token := Some token\<rparr>))) (\<lambda>_. eret True)
       else eret False) st"

definition renew_script :: "'r redis \<Rightarrow> string \<Rightarrow> rtext \<Rightarrow> int \<Rightarrow> ('r, lua) eff" where
  "renew_script R key tok ttl =
     ebind (rd_get R key) (\<lambda>v.
       if v = Some tok then ebind (rd_expire R key ttl) (\<lambda>b. eret (LuaInt (if b then 1 else 0)))
       else eret (LuaInt 0))"

definition lock_renew :: "'r redis \<Rightarrow> int \<Rightarrow> (dlock \<times> 'r, bool) eff" where
  "lock_renew R ttl st =
     (case dl_token (fst st) of
        None \<Rightarrow> (Inr False, st)
      | Some t \<Rightarrow>
          ebind (on_snd (rd_eval R (renew_script R (dl_name (fst st)) (token_text t) ttl)))
            (\<lambda>res. eret (res \<noteq> LuaNil \<and> res \<noteq> LuaInt 0)) st)"

definition release_script :: "'r redis \<Rightarrow> string \<Rightarrow> rtext \<Rightarrow> ('r, lua) eff" where
  "release_script R key tok =
     ebind (rd_get R key) (\<lambda>v.
       if v = Some tok then ebind (rd_del R key) (\<lambda>n. eret (LuaInt n)) else eret (LuaInt 0))"

definition lock_release :: "'r redis \<Rightarrow> (dlock \<times> 'r, unit) eff" where
  "lock_release R st =
     (case dl_token (fst st) of
        None \<Rightarrow> (Inr (), st)
      | Some t \<Rightarrow>
          ebind (on_snd (rd_eval R (release_script R (dl_name (fst st)) (token_text t))))
            (\<lambda>_. on_fst (emodify (\<lambda>l. l\<lparr>dl_token := None\<rparr>))) st)"

definition lock_acquired ::
  "'r redis \<Rightarrow> uuid \<Rightarrow> int \<Rightarrow> (bool \<Rightarrow> (dlock \<times> 'r, 'b) eff) \<Rightarrow> (dlock \<times> 'r, 'b) eff" where
  "lock_acquired R token ttl body =
     ebind (lock_acquire R token ttl) (\<lambda>ok.
       efinally (body ok) (if ok then lock_release R else eret ()))"

section \<open>The store keeps the behaviour's contract\<close>

definition idem_readback :: "json \<Rightarrow> json option" where
  "idem_readback v = (if v = JNull then None else Some v)"

text \<open>The entry of a tenant's key in a keyspace.\<close>

definition idem_slot ::
  "idem_config \<Rightarrow> keyspace \<Rightarrow> string \<Rightarrow> string \<Rightarrow> (rtext option \<times> json option option) option" where
  "idem_slot cfg ks tenant key =
     (case ks (idem_key cfg tenant key) of
        Some (RHash h) \<Rightarrow>
          Some (map_of h ''request_fp'',
                if map_of h ''status'' = Some (Text ''completed'')
                then Some (case map_of h ''response'' of Some (JsonText v) \<Rightarrow> idem_readback v | _ \<Rightarrow> None)
                else None)
      | _ \<Rightarrow> None)"

lemma hash_set_claim [simp]:
  "hash_set [(''status'', a), (''request_fp'', b), (''created_at'', c)] None =
     RHash [(''status'', a), (''request_fp'', b), (''created_at'', c)]"
  by (simp add: hash_set_def)

lemma hash_set_complete:
  "\<exists>h'. hash_set [(''status'', a), (''response'', b)] (Some (RHash h)) = RHash h' \<and>
     map_of h' = (map_of h)(''status'' \<mapsto> a, ''response'' \<mapsto> b)"
  by (simp add: hash_set_def update_conv')

context redis_server
begin

text \<open>What the claiming script answers.\<close>

lemma begin_script_ok:
  assumes "begin_script R key fp created ttl s = (Inr w, s')" "0 < ttl"
  shows "case kv s key of
      None \<Rightarrow> w = LuaText (Text ''claim'') \<and> kv s' = (kv s)(key := Some (RHash
        [(''status'', Text ''in_progress''), (''request_fp'', fp), (''created_at'', created)]))
    | Some (RString x) \<Rightarrow> False
    | Some (RHash h) \<Rightarrow> kv s' = kv s \<and> w =
        (if map_of h ''request_fp'' \<noteq> Some fp then LuaText (Text ''conflict'')
         else if map_of h ''status'' = Some (Text ''completed'') then lua_text (map_of h ''response'')
         else LuaText (Text ''in_progress''))"
proof (cases "kv s key")
  case None
  with assms show ?thesis unfolding begin_script_def
    by (auto simp: ebind_eq_Inr dest!: exists_ok hset_ok expire_ok split: if_splits)
next
  case (Some e)
  with assms(1) obtain n s1 v s2 where
    e: "rd_exists R key s = (Inr n, s1)" "rd_hget R key ''request_fp'' s1 = (Inr v, s2)"
    unfolding begin_script_def by (auto simp: ebind_eq_Inr dest: exists_ok split: if_splits)
  with Some have n: "n \<noteq> 0" "kv s1 = kv s" "kv s2 = kv s" using exists_ok hget_ok by fastforce+
  with hget_ok [OF e(2)] Some obtain h where h: "e = RHash h" "v = map_of h ''request_fp''"
    by (cases e) auto
  show ?thesis
  proof (cases "v = Some fp")
    case False
    with assms(1) e n h Some show ?thesis unfolding begin_script_def by (auto simp: ebind_def)
  next
    case True
    with assms(1) e n obtain st s3 where st: "rd_hget R key ''status'' s2 = (Inr st, s3)"
      unfolding begin_script_def by (auto simp: ebind_eq_Inr)
    with hget_ok [OF st] n Some h have hs: "st = map_of h ''status''" "kv s3 = kv s" by auto
    show ?thesis
    proof (cases "st = Some (Text ''completed'')")
      case False
      with assms(1) e n h Some True st hs show ?thesis unfolding begin_script_def by (auto simp: ebind_def)
    next
      case done_: True
      with assms(1) e n True st obtain rsp s4 where
        r: "rd_hget R key ''response'' s3 = (Inr rsp, s4)" "w = lua_text rsp" "s' = s4"
        unfolding begin_script_def by (auto simp: ebind_eq_Inr)
      with hget_ok [OF r(1)] hs Some h True done_ show ?thesis by auto
    qed
  qed
qed

lemma idem_begin_ok:
  assumes "idem_begin R cfg sha now ttl t k p s = (Inr c, s')"
    and "0 < ic_ttl cfg" "\<And>x. ttl = Some x \<Longrightarrow> 0 \<le> x"
  shows "(\<exists>e. c = Failure (store_unavailable e) []) \<or>
    (case kv s (idem_key cfg t k) of
       None \<Rightarrow> c = Success None [] \<and> idem_slot cfg (kv s') t k = Some (Some (idem_fingerprint sha p), None)
     | Some (RString x) \<Rightarrow> False
     | Some (RHash h) \<Rightarrow> kv s' = kv s \<and>
         (if map_of h ''request_fp'' \<noteq> Some (idem_fingerprint sha p) then c = Failure payload_mismatch []
          else if map_of h ''status'' \<noteq> Some (Text ''completed'') then c = Failure in_progress []
          else idem_answer (lua_text (map_of h ''response'')) = Inr c))"
proof -
  let ?ttl = "case ttl of None \<Rightarrow> ic_ttl cfg | Some t \<Rightarrow> if t = 0 then ic_ttl cfg else t"
  let ?script = "begin_script R (idem_key cfg t k) (idem_fingerprint sha p) (Text now) ?ttl"
  obtain w s1 where w: "rd_eval R ?script s = (w, s1)" by fastforce
  have pos: "0 < ?ttl" using assms(2) assms(3) by (force split: option.split)
  show ?thesis
  proof (cases w)
    case (Inl e)
    with assms(1) w show ?thesis
      by (auto simp: idem_begin_def Let_def result_failure_def split: if_splits)
  next
    case (Inr a)
    with assms(1) w have c: "s' = s1" "idem_answer a = Inr c" by (auto simp: idem_begin_def Let_def)
    have "?script s = (Inr a, s1)" using eval_ok w Inr by blast
    from begin_script_ok [OF this pos] c show ?thesis
      by (auto simp: idem_answer_def idem_slot_def result_success_def result_failure_def
          split: option.splits rentry.splits if_splits)
  qed
qed

lemma redis_idem_store_laws:
  assumes "0 < ic_ttl cfg" "\<And>x. ttl = Some x \<Longrightarrow> 0 \<le> x"
  shows "idempotency_store (redis_idem_store R cfg sha now ttl) (\<lambda>s. idem_slot cfg (kv s))
     (\<lambda>p. Some (idem_fingerprint sha p)) idem_readback"
proof unfold_locales
  fix t k p s md s'
  assume "is_begin (redis_idem_store R cfg sha now ttl) t k p s = (Inr (Success None md), s')"
  then have "idem_begin R cfg sha now ttl t k p s = (Inr (Success None md), s')"
    by (simp add: redis_idem_store_def)
  from idem_begin_ok [OF this assms]
  show "idem_slot cfg (kv s) t k = None \<and>
      idem_slot cfg (kv s') t k = Some (Some (idem_fingerprint sha p), None) \<or>
    idem_slot cfg (kv s) t k = Some (Some (idem_fingerprint sha p), Some None) \<and>
      idem_slot cfg (kv s') t k = idem_slot cfg (kv s) t k"
    by (auto simp: idem_slot_def idem_answer_def lua_text_def idem_readback_def result_success_def
        split: option.splits rentry.splits if_splits rtext.splits)
next
  fix t k p s v md s'
  assume "is_begin (redis_idem_store R cfg sha now ttl) t k p s = (Inr (Success (Some v) md), s')"
  then have "idem_begin R cfg sha now ttl t k p s = (Inr (Success (Some v) md), s')"
    by (simp add: redis_idem_store_def)
  from idem_begin_ok [OF this assms]
  show "idem_slot cfg (kv s) t k = Some (Some (idem_fingerprint sha p), Some (Some v))"
    by (auto simp: idem_slot_def idem_answer_def lua_text_def idem_readback_def result_success_def
        result_failure_def split: option.splits rentry.splits if_splits rtext.splits)
next
  fix t k p s c s' v
  assume "is_begin (redis_idem_store R cfg sha now ttl) t k p s = (Inr c, s')"
    and slot: "idem_slot cfg (kv s) t k = Some (Some (idem_fingerprint sha p), Some (Some v))"
  then have "idem_begin R cfg sha now ttl t k p s = (Inr c, s')" by (simp add: redis_idem_store_def)
  from idem_begin_ok [OF this assms] slot show "is_failure c \<or> c = Success (Some v) []"
    by (auto simp: idem_slot_def idem_answer_def lua_text_def idem_readback_def result_success_def
        split: option.splits rentry.splits if_splits rtext.splits)
next
  fix t k v s u s' f x
  assume "is_complete (redis_idem_store R cfg sha now ttl) t k v s = (Inr u, s')"
    and slot: "idem_slot cfg (kv s) t k = Some (f, x)"
  let ?key = "idem_key cfg t k"
  let ?ttl = "case ttl of None \<Rightarrow> ic_ttl cfg | Some t \<Rightarrow> if t = 0 then ic_ttl cfg else t"
  have pos: "0 < ?ttl" using assms(1) assms(2) by (force split: option.split)
  from slot obtain h where h: "kv s ?key = Some (RHash h)" "f = map_of h ''request_fp''"
    by (auto simp: idem_slot_def split: option.splits rentry.splits)
  from \<open>is_complete _ t k v s = _\<close> obtain s1 b where
    hs: "rd_hset R ?key [(''status'', Text ''completed''), (''response'', JsonText v)] s = (Inr (), s1)"
    and ex: "rd_expire R ?key ?ttl s1 = (Inr b, s')"
    by (auto simp: redis_idem_store_def idem_complete_def Let_def ebind_eq_Inr)
  obtain h' where "hash_set [(''status'', Text ''completed''), (''response'', JsonText v)] (Some (RHash h)) = RHash h'"
    "map_of h' = (map_of h)(''status'' \<mapsto> Text ''completed'', ''response'' \<mapsto> JsonText v)"
    using hash_set_complete by blast
  with hset_ok [OF hs] expire_ok [OF ex pos] h
  show "idem_slot cfg (kv s') t k = Some (f, Some (idem_readback v))"
    by (simp add: idem_slot_def)
qed

end

interpretation map_idem: idempotency_store
  "redis_idem_store map_redis \<lparr>ic_namespace = ns, ic_ttl = 86400\<rparr> sha now None"
  "idem_slot \<lparr>ic_namespace = ns, ic_ttl = 86400\<rparr>" "\<lambda>p. Some (idem_fingerprint sha p)" idem_readback
  for ns sha now
  using keyspace.redis_idem_store_laws [of "\<lparr>ic_namespace = ns, ic_ttl = 86400\<rparr>" None] by simp

text \<open>What the entry of a tenant's key says: nothing, a run in progress, or a finished run with
  its response; and a run that holds the claim.\<close>

datatype idem_state = IdemFree | IdemClaimed rtext | IdemCompleted rtext json

definition idem_holds :: "idem_config \<Rightarrow> keyspace \<Rightarrow> string \<Rightarrow> string \<Rightarrow> idem_state \<Rightarrow> bool" where
  "idem_holds cfg ks tenant key st =
     (case st of
        IdemFree \<Rightarrow> ks (idem_key cfg tenant key) = None
      | IdemClaimed f \<Rightarrow> (\<exists>h. ks (idem_key cfg tenant key) = Some (RHash h) \<and>
          map_of h ''request_fp'' = Some f \<and> map_of h ''status'' = Some (Text ''in_progress''))
      | IdemCompleted f v \<Rightarrow> (\<exists>h. ks (idem_key cfg tenant key) = Some (RHash h) \<and>
          map_of h ''request_fp'' = Some f \<and> map_of h ''status'' = Some (Text ''completed'') \<and>
          map_of h ''response'' = Some (JsonText v)))"

definition idem_run ::
  "('r, json) idem_store \<Rightarrow> string \<Rightarrow> string \<Rightarrow> ('r, json result) eff \<Rightarrow> ('r, json result) eff" where
  "idem_run store tenant key handler =
     ebind handler (\<lambda>result. case result of
        Failure e md \<Rightarrow> eret (Failure e md)
      | Success v md \<Rightarrow>
          ebind (etry (is_complete store tenant key v) (\<lambda>_. eret ())) (\<lambda>_. eret (Success v md)))"

context redis_server
begin

lemma idem_begin_all:
  assumes "0 < ic_ttl cfg" "\<And>x. ttl = Some x \<Longrightarrow> 0 \<le> x"
    and holds: "idem_holds cfg (kv s) t k st" and b: "idem_begin R cfg sha now ttl t k p s = (r, s')"
  shows "(\<exists>e. r = Inl e \<and> \<not> is_exception e \<or> r = Inr (Failure (store_unavailable e) [])) \<or>
    (case st of
       IdemFree \<Rightarrow> r = Inr (Success None []) \<and> idem_holds cfg (kv s') t k (IdemClaimed (idem_fingerprint sha p))
     | IdemClaimed f \<Rightarrow> kv s' = kv s \<and>
         r = Inr (Failure (if f = idem_fingerprint sha p then in_progress else payload_mismatch) [])
     | IdemCompleted f v \<Rightarrow> kv s' = kv s \<and>
         r = Inr (if f = idem_fingerprint sha p then Success (idem_readback v) [] else Failure payload_mismatch []))"
proof -
  let ?ttl = "case ttl of None \<Rightarrow> ic_ttl cfg | Some t \<Rightarrow> if t = 0 then ic_ttl cfg else t"
  let ?script = "begin_script R (idem_key cfg t k) (idem_fingerprint sha p) (Text now) ?ttl"
  obtain w s1 where w: "rd_eval R ?script s = (w, s1)" by fastforce
  have pos: "0 < ?ttl" using assms(1,2) by (force split: option.split)
  show ?thesis
  proof (cases w)
    case (Inl e)
    with b w show ?thesis by (auto simp: idem_begin_def Let_def result_failure_def split: if_splits)
  next
    case (Inr a)
    with b w have c: "s' = s1" "r = idem_answer a" by (auto simp: idem_begin_def Let_def)
    have "?script s = (Inr a, s1)" using eval_ok w Inr by blast
    note ok = begin_script_ok [OF this pos]
    show ?thesis
    proof (cases st)
      case IdemFree
      with ok holds c show ?thesis
        by (simp add: idem_holds_def idem_answer_def result_success_def)
    next
      case (IdemClaimed f)
      with ok holds c show ?thesis
        by (auto simp: idem_holds_def idem_answer_def result_failure_def)
    next
      case (IdemCompleted f v)
      with ok holds c show ?thesis
        by (auto simp: idem_holds_def idem_answer_def result_failure_def result_success_def lua_text_def
            idem_readback_def)
    qed
  qed
qed

lemma idem_complete_holds:
  assumes "0 < ic_ttl cfg" "\<And>x. ttl = Some x \<Longrightarrow> 0 \<le> x"
    and holds: "idem_holds cfg (kv s) t k (IdemClaimed f)"
    and run: "idem_complete R cfg ttl t k v s = (Inr (), s')"
  shows "idem_holds cfg (kv s') t k (IdemCompleted f v)"
proof -
  let ?key = "idem_key cfg t k"
  let ?ttl = "case ttl of None \<Rightarrow> ic_ttl cfg | Some t \<Rightarrow> if t = 0 then ic_ttl cfg else t"
  have pos: "0 < ?ttl" using assms(1,2) by (force split: option.split)
  from holds obtain h where h: "kv s ?key = Some (RHash h)" "map_of h ''request_fp'' = Some f"
    by (auto simp: idem_holds_def)
  from run obtain s1 b where
    hs: "rd_hset R ?key [(''status'', Text ''completed''), (''response'', JsonText v)] s = (Inr (), s1)"
    and ex: "rd_expire R ?key ?ttl s1 = (Inr b, s')"
    by (auto simp: idem_complete_def Let_def ebind_eq_Inr)
  obtain h' where "hash_set [(''status'', Text ''completed''), (''response'', JsonText v)] (Some (RHash h)) = RHash h'"
    "map_of h' = (map_of h)(''status'' \<mapsto> Text ''completed'', ''response'' \<mapsto> JsonText v)"
    using hash_set_complete by blast
  with hset_ok [OF hs] expire_ok [OF ex pos] h show ?thesis by (simp add: idem_holds_def)
qed

end

text \<open>C10: Whether a dispatched command with an idempotency key runs its handler is decided by
  the entry of its tenant and key, on any Redis. Either the store cannot be read, and the dispatch fails or raises
  without the handler; or, when there is no entry, the entry is claimed and the handler runs; while the entry is
  claimed no handler runs, the dispatch fails with \<open>in_progress\<close>, or with \<open>payload_mismatch\<close> when
  the payload is another one; when the run is over, the stored response is the result and no handler runs, except that a
  stored \<open>null\<close> cannot be told from a fresh claim, so that the handler runs again. A response that is
  stored under a claim makes its entry a finished one. The entries are those the store writes.\<close>

theorem idempotent_command_runs_once:
  assumes "redis_server R kv" "0 < ic_ttl cfg" "\<forall>x. ttl = Some x \<longrightarrow> 0 \<le> x"
    and "ms_kind msg = CommandMsg" "idempotency_key msg = Some key"
    and "store = redis_idem_store R cfg sha now ttl" "t = tenant_of (rc s)"
    and "fp = idem_fingerprint sha (message_envelope msg)"
    and "idem_holds cfg (kv s) t key st"
  shows "((\<exists>e r s1. (r = Inl e \<and> \<not> is_exception e \<or> r = Inr (Failure (store_unavailable e) [])) \<and>
        (\<forall>nxt. idempotency_handle store rc msg nxt s = (r, s1))) \<or>
      (\<exists>s1. case st of
         IdemFree \<Rightarrow> idem_holds cfg (kv s1) t key (IdemClaimed fp) \<and>
           (\<forall>nxt. idempotency_handle store rc msg nxt s = idem_run store t key (nxt msg) s1)
       | IdemClaimed f \<Rightarrow> kv s1 = kv s \<and>
           (\<forall>nxt. idempotency_handle store rc msg nxt s =
              (Inr (Failure (if f = fp then in_progress else payload_mismatch) []), s1))
       | IdemCompleted f v \<Rightarrow> kv s1 = kv s \<and>
           (\<forall>nxt. idempotency_handle store rc msg nxt s =
              (if f \<noteq> fp then (Inr (Failure payload_mismatch []), s1)
               else if v = JNull then idem_run store t key (nxt msg) s1
               else (Inr (Success v []), s1))))) \<and>
    (\<forall>s2 s3 v. idem_holds cfg (kv s2) t key (IdemClaimed fp) \<and> is_complete store t key v s2 = (Inr (), s3) \<longrightarrow>
      idem_holds cfg (kv s3) t key (IdemCompleted fp v))"
proof -
  have ttl: "\<And>x. ttl = Some x \<Longrightarrow> 0 \<le> x" using assms(3) by blast
  obtain r s1 where b: "idem_begin R cfg sha now ttl t key (message_envelope msg) s = (r, s1)" by (rule prod.exhaust)
  have sel: "is_begin store = idem_begin R cfg sha now ttl" by (simp add: assms(6) redis_idem_store_def)
  have handle: "idempotency_handle store rc msg nxt s =
      (case r of Inl e \<Rightarrow> (Inl e, s1) | Inr (Failure e md) \<Rightarrow> (Inr (Failure e md), s1)
       | Inr (Success (Some v) md) \<Rightarrow> (Inr (Success v []), s1)
       | Inr (Success None md) \<Rightarrow> idem_run store t key (nxt msg) s1)" for nxt
    using b [folded sel] assms(4,5,7)
    by (auto simp: idempotency_handle_def ebind_def idem_run_def eret_def Let_def
        result_success_def split: sum.split result.split option.split)
  from redis_server.idem_begin_all [OF assms(1,2) ttl assms(9) b]
  consider e where "r = Inl e \<and> \<not> is_exception e \<or> r = Inr (Failure (store_unavailable e) [])"
    | "case st of
       IdemFree \<Rightarrow> r = Inr (Success None []) \<and> idem_holds cfg (kv s1) t key (IdemClaimed fp)
     | IdemClaimed f \<Rightarrow> kv s1 = kv s \<and> r = Inr (Failure (if f = fp then in_progress else payload_mismatch) [])
     | IdemCompleted f v \<Rightarrow> kv s1 = kv s \<and>
         r = Inr (if f = fp then Success (idem_readback v) [] else Failure payload_mismatch [])"
    unfolding assms(8) by blast
  moreover have done_: "is_complete store t key v s2 = (Inr (), s3) \<Longrightarrow> idem_holds cfg (kv s2) t key (IdemClaimed fp) \<Longrightarrow>
      idem_holds cfg (kv s3) t key (IdemCompleted fp v)" for s2 s3 v
    using redis_server.idem_complete_holds [OF assms(1,2) ttl] assms(6) by (simp add: redis_idem_store_def)
  ultimately show ?thesis
  proof cases
    case (1 e)
    let ?r = "case r of Inl e \<Rightarrow> Inl e | Inr x \<Rightarrow> Inr (Failure (store_unavailable e) [])"
    have "?r = Inl e \<and> \<not> is_exception e \<or> ?r = Inr (Failure (store_unavailable e) [])"
      "\<forall>nxt. idempotency_handle store rc msg nxt s = (?r, s1)" using 1 handle by auto
    with done_ show ?thesis by blast
  next
    case 2
    let ?runs = "case st of
         IdemFree \<Rightarrow> idem_holds cfg (kv s1) t key (IdemClaimed fp) \<and>
           (\<forall>nxt. idempotency_handle store rc msg nxt s = idem_run store t key (nxt msg) s1)
       | IdemClaimed f \<Rightarrow> kv s1 = kv s \<and>
           (\<forall>nxt. idempotency_handle store rc msg nxt s =
              (Inr (Failure (if f = fp then in_progress else payload_mismatch) []), s1))
       | IdemCompleted f v \<Rightarrow> kv s1 = kv s \<and>
           (\<forall>nxt. idempotency_handle store rc msg nxt s =
              (if f \<noteq> fp then (Inr (Failure payload_mismatch []), s1)
               else if v = JNull then idem_run store t key (nxt msg) s1
               else (Inr (Success v []), s1)))"
    have ?runs using 2 handle by (cases st) (auto simp: idem_readback_def)
    with done_ show ?thesis by blast
  qed
qed

definition demo_idem_command :: message where
  "demo_idem_command =
     \<lparr>ms_class = ''Pay'', ms_kind = CommandMsg, ms_fields = [(''idempotency_key'', JStr ''abc'')]\<rparr>"

abbreviation demo_idem_cfg :: idem_config where
  "demo_idem_cfg \<equiv> \<lparr>ic_namespace = ''qx:idem'', ic_ttl = 86400\<rparr>"

lemma idempotent_command_runs_once_witness:
  "\<exists>s1. \<forall>nxt. idempotency_handle (redis_idem_store map_redis demo_idem_cfg (\<lambda>j. ''fp'') ''now'' None) (\<lambda>s. demo_ctx)
     demo_idem_command nxt
     ((\<lambda>k. None)(idem_key demo_idem_cfg (str_of_uuid 9) ''abc'' :=
        Some (RHash [(''status'', Text ''in_progress''), (''request_fp'', Text ''fp'')]))) =
     (Inr (Failure in_progress []), s1)"
proof -
  let ?ks = "(\<lambda>k. None)(idem_key demo_idem_cfg (str_of_uuid 9) ''abc'' :=
        Some (RHash [(''status'', Text ''in_progress''), (''request_fp'', Text ''fp'')]))"
  let ?h = "\<lambda>nxt. idempotency_handle (redis_idem_store map_redis demo_idem_cfg (\<lambda>j. ''fp'') ''now'' None)
     (\<lambda>s. demo_ctx) demo_idem_command nxt ?ks"
  have run: "?h (\<lambda>m s. (Inr (Success (JInt 1) []), s)) = (Inr (Failure in_progress []), ?ks)"
    by (simp add: idempotency_handle_def redis_idem_store_def idem_begin_def begin_script_def idem_answer_def
        demo_idem_command_def demo_ctx_def tenant_of_def idempotency_key_def idem_fingerprint_def ebind_def eret_def
        Let_def result_failure_def)
  from idempotent_command_runs_once [where kv = "\<lambda>s. s" and key = "''abc''" and st = "IdemClaimed (Text ''fp'')"
      and s = ?ks and msg = demo_idem_command and cfg = demo_idem_cfg and ttl = None and rc = "\<lambda>s. demo_ctx",
      OF keyspace.redis_server_axioms _ _ _ _ refl refl refl, of "\<lambda>j. ''fp''" "''now''"]
  have "(\<exists>e r s1. (r = Inl e \<and> \<not> is_exception e \<or> r = Inr (Failure (store_unavailable e) [])) \<and> (\<forall>nxt. ?h nxt = (r, s1))) \<or>
     (\<exists>s1. \<forall>nxt. ?h nxt = (Inr (Failure in_progress []), s1))"
    by (auto simp: demo_idem_command_def demo_ctx_def tenant_of_def idempotency_key_def idem_holds_def
        idem_fingerprint_def)
  moreover have "in_progress \<noteq> store_unavailable e" for e
    by (simp add: in_progress_def store_unavailable_def)
  ultimately show ?thesis using run by force
qed

text \<open>A response that is null does not protect its command: after a successful run whose value
  is \<open>None\<close> the store answers the same as for a free key, so the next dispatch with the key runs
  the handler again.\<close>

theorem idempotent_null_runs_again:
  assumes "ms_kind msg = CommandMsg" "idempotency_key msg = Some key"
    and "store = redis_idem_store map_redis \<lparr>ic_namespace = ns, ic_ttl = 86400\<rparr> sha now None"
    and "idempotency_handle store (\<lambda>s. ctx) msg (\<lambda>m. eret (Success JNull [])) (\<lambda>k. None) = (r, s1)"
  shows "r = Inr (Success JNull []) \<and>
    idempotency_handle store (\<lambda>s. ctx) msg (\<lambda>m s. (Inl e, s)) s1 = (Inl e, s1)"
proof -
  have "hash_set [(''status'', Text ''completed''), (''response'', JsonText JNull)] (Some (RHash
      [(''status'', Text ''in_progress''), (''request_fp'', f), (''created_at'', c)])) = RHash
      [(''status'', Text ''completed''), (''request_fp'', f), (''created_at'', c), (''response'', JsonText JNull)]"
    for f c by (simp add: hash_set_def)
  with assms show ?thesis
    by (auto simp: idempotency_handle_def redis_idem_store_def idem_begin_def begin_script_def
        idem_complete_def idem_answer_def lua_text_def ebind_def etry_def Let_def result_success_def
        eret_def [abs_def])
qed

lemma idempotent_null_runs_again_witness:
  "fst (idempotency_handle (redis_idem_store map_redis demo_idem_cfg (\<lambda>j. ''fp'') ''now'' None) (\<lambda>s. demo_ctx)
     demo_idem_command (\<lambda>m. eret (Success JNull [])) (\<lambda>k. None)) = Inr (Success JNull [])"
  using idempotent_null_runs_again [where msg = demo_idem_command and key = "''abc''" and ns = "''qx:idem''"
      and sha = "\<lambda>j. ''fp''" and now = "''now''" and ctx = demo_ctx, OF _ _ refl surjective_pairing]
  by (simp add: demo_idem_command_def idempotency_key_def)

section \<open>The lock under many clients\<close>

text \<open>The clients share a server; \<open>lw_used\<close> are the tokens drawn so far. A key also disappears
  when its time is up, and other keys change at any time.\<close>

record 'r lock_world =
  lw_redis :: 'r
  lw_locks :: "nat \<Rightarrow> dlock"
  lw_used :: "uuid set"

inductive lock_step ::
  "'r redis \<Rightarrow> ('r \<Rightarrow> keyspace) \<Rightarrow> string \<Rightarrow> 'r lock_world \<Rightarrow> 'r lock_world \<Rightarrow> bool"
  for R kv name where
  acquire: "token \<notin> lw_used w \<Longrightarrow> token < 2 ^ 128 \<Longrightarrow>
    lock_acquire R token ttl (lw_locks w i, lw_redis w) = (x, (l, r)) \<Longrightarrow>
    lock_step R kv name w
      \<lparr>lw_redis = r, lw_locks = (lw_locks w)(i := l), lw_used = insert token (lw_used w)\<rparr>"
| renew: "0 < ttl \<Longrightarrow> lock_renew R ttl (lw_locks w i, lw_redis w) = (x, (l, r)) \<Longrightarrow>
    lock_step R kv name w (w\<lparr>lw_redis := r, lw_locks := (lw_locks w)(i := l)\<rparr>)"
| release: "lock_release R (lw_locks w i, lw_redis w) = (x, (l, r)) \<Longrightarrow>
    lock_step R kv name w (w\<lparr>lw_redis := r, lw_locks := (lw_locks w)(i := l)\<rparr>)"
| expire: "kv r name = None \<Longrightarrow> lock_step R kv name w (w\<lparr>lw_redis := r\<rparr>)"
| elsewhere: "kv r name = kv (lw_redis w) name \<Longrightarrow> lock_step R kv name w (w\<lparr>lw_redis := r\<rparr>)"

definition lock_start :: "('r \<Rightarrow> keyspace) \<Rightarrow> string \<Rightarrow> 'r lock_world \<Rightarrow> bool" where
  "lock_start kv name w \<longleftrightarrow>
     lw_locks w = (\<lambda>i. \<lparr>dl_name = name, dl_token = None\<rparr>) \<and> kv (lw_redis w) name = None \<and> lw_used w = {}"

definition lock_reach ::
  "'r redis \<Rightarrow> ('r \<Rightarrow> keyspace) \<Rightarrow> string \<Rightarrow> 'r lock_world \<Rightarrow> bool" where
  "lock_reach R kv name w \<longleftrightarrow> (\<exists>w0. lock_start kv name w0 \<and> (lock_step R kv name)\<^sup>*\<^sup>* w0 w)"

text \<open>Client \<open>i\<close> holds the lock: the server's key carries its token.\<close>

definition lock_holds :: "('r \<Rightarrow> keyspace) \<Rightarrow> string \<Rightarrow> 'r lock_world \<Rightarrow> nat \<Rightarrow> bool" where
  "lock_holds kv name w i \<longleftrightarrow>
     (\<exists>t. dl_token (lw_locks w i) = Some t \<and> kv (lw_redis w) name = Some (RString (token_text t)))"

definition lock_inv :: "('r \<Rightarrow> keyspace) \<Rightarrow> string \<Rightarrow> 'r lock_world \<Rightarrow> bool" where
  "lock_inv kv name w \<longleftrightarrow>
     (\<forall>i. dl_name (lw_locks w i) = name) \<and>
     (\<forall>i t. dl_token (lw_locks w i) = Some t \<longrightarrow> t \<in> lw_used w) \<and>
     (\<forall>i j t. dl_token (lw_locks w i) = Some t \<longrightarrow> dl_token (lw_locks w j) = Some t \<longrightarrow> i = j) \<and>
     (\<forall>t \<in> lw_used w. t < 2 ^ 128) \<and>
     (kv (lw_redis w) name = None \<or>
      (\<exists>t \<in> lw_used w. kv (lw_redis w) name = Some (RString (token_text t))))"

lemma token_text_inj: "a < 2 ^ 128 \<Longrightarrow> b < 2 ^ 128 \<Longrightarrow> token_text a = token_text b \<Longrightarrow> a = b"
  by (metis parse_str_of_uuid rtext.inject(1) token_text_def option.inject)

context redis_server
begin

text \<open>The three operations, as what they do to the lock object and to the lock's key.\<close>

lemma lock_acquire_cases:
  assumes "lock_acquire R token ttl (l, s) = (x, (l', s'))"
  shows "(l' = l \<and> kv s' = kv s) \<or>
    (l' \<in> {l, l\<lparr>dl_token := Some token\<rparr>} \<and> kv s (dl_name l) = None \<and>
      kv s' = (kv s)(dl_name l := Some (RString (token_text token))))"
proof -
  obtain y s1 where y: "rd_set R (dl_name l) (token_text token) True (Some ttl) s = (y, s1)" by fastforce
  with assms set_ok [of "dl_name l" "token_text token" True "Some ttl" s _ s1]
    set_err [of "dl_name l" "token_text token" True "Some ttl" s _ s1]
  show ?thesis
    by (cases y) (auto simp: lock_acquire_def ebind_def emodify_def [abs_def] eret_def [abs_def]
        split: if_splits)
qed

lemma lock_acquire_held:
  assumes "lock_acquire R token ttl (l, s) = (x, (l', s'))" "kv s (dl_name l) \<noteq> None"
  shows "x \<noteq> Inr True"
proof
  assume "x = Inr True"
  with assms(1) obtain s1 where "rd_set R (dl_name l) (token_text token) True (Some ttl) s = (Inr True, s1)"
    by (auto simp: lock_acquire_def ebind_eq_Inr on_snd_def split: if_splits prod.splits)
  from set_ok [OF this] assms(2) show False by simp
qed

lemma rd_get_keeps: "rd_get R k s = (x, s') \<Longrightarrow> kv s' = kv s"
  using get_ok get_err by (cases x) blast+

lemma rd_expire_keeps: "rd_expire R k ttl s = (x, s') \<Longrightarrow> 0 < ttl \<Longrightarrow> kv s' = kv s"
  using expire_ok expire_err by (cases x) blast+

lemma renew_script_keeps: "renew_script R k tok ttl s = (x, s') \<Longrightarrow> 0 < ttl \<Longrightarrow> kv s' = kv s"
  unfolding renew_script_def ebind_def
  by (auto split: prod.splits sum.splits if_splits dest!: rd_get_keeps rd_expire_keeps)

lemma release_script_cases:
  assumes "release_script R k tok s = (x, s')"
  shows "kv s' = kv s \<or> (kv s k = Some (RString tok) \<and> kv s' = (kv s)(k := None))"
proof -
  obtain y s1 where y: "rd_get R k s = (y, s1)" by fastforce
  show ?thesis
  proof (cases "y = Inr (Some tok)")
    case False
    with assms y rd_get_keeps [OF y] show ?thesis
      by (cases y) (auto simp: release_script_def ebind_def)
  next
    case True
    obtain z s2 where z: "rd_del R k s1 = (z, s2)" by fastforce
    with assms y True have "s' = s2"
      by (cases z) (auto simp: release_script_def ebind_def)
    moreover have "kv s2 = kv s1 \<or> kv s2 = (kv s1)(k := None)"
      using z del_ok del_err by (cases z) blast+
    ultimately show ?thesis using get_ok y True by fastforce
  qed
qed

lemma rd_eval_cases:
  assumes "rd_eval R m s = (x, s')"
  shows "s' = s \<or> (\<exists>y. m s = (y, s'))"
  using assms eval_ok eval_err by (cases x) (metis prod.collapse)+

lemma lock_renew_keeps:
  assumes "lock_renew R ttl (l, s) = (x, (l', s'))" "0 < ttl"
  shows "l' = l \<and> kv s' = kv s"
proof (cases "dl_token l")
  case None
  with assms show ?thesis by (simp add: lock_renew_def)
next
  case (Some t)
  obtain y s1 where y: "rd_eval R (renew_script R (dl_name l) (token_text t) ttl) s = (y, s1)" by fastforce
  with assms Some have "l' = l" "s' = s1"
    by (auto simp: lock_renew_def ebind_def split: sum.splits)
  with rd_eval_cases [OF y] renew_script_keeps assms(2) show ?thesis by blast
qed

lemma lock_release_cases:
  assumes "lock_release R (l, s) = (x, (l', s'))"
  shows "l' \<in> {l, l\<lparr>dl_token := None\<rparr>} \<and>
    (kv s' = kv s \<or> (\<exists>t. dl_token l = Some t \<and> kv s (dl_name l) = Some (RString (token_text t)) \<and>
        kv s' = (kv s)(dl_name l := None)))"
proof (cases "dl_token l")
  case None
  with assms show ?thesis by (simp add: lock_release_def)
next
  case (Some t)
  obtain y s1 where y: "rd_eval R (release_script R (dl_name l) (token_text t)) s = (y, s1)" by fastforce
  with assms Some have "l' \<in> {l, l\<lparr>dl_token := None\<rparr>}" "s' = s1"
    by (auto simp: lock_release_def ebind_def emodify_def [abs_def] split: sum.splits)
  with rd_eval_cases [OF y] release_script_cases Some show ?thesis by blast
qed

text \<open>The invariant and what a step does to a client that holds the lock.\<close>

lemma lock_step_inv:
  assumes "lock_step R kv name w w'" "lock_inv kv name w"
  shows "lock_inv kv name w'"
  using assms
proof (induction rule: lock_step.induct)
  case (acquire token w ttl i x l r)
  note c = lock_acquire_cases [of token ttl "lw_locks w i" "lw_redis w" x l r]
  from acquire c show ?case unfolding lock_inv_def by auto
next
  case (renew ttl w i x l r)
  then show ?case using lock_renew_keeps [of ttl "lw_locks w i" "lw_redis w" x l r]
    by (simp add: lock_inv_def)
next
  case (release w i x l r)
  then show ?case using lock_release_cases [of "lw_locks w i" "lw_redis w" x l r]
    unfolding lock_inv_def by auto
qed (auto simp: lock_inv_def)

lemma lock_reach_inv: "lock_reach R kv name w \<Longrightarrow> lock_inv kv name w"
proof -
  assume "lock_reach R kv name w"
  then obtain w0 where "lock_start kv name w0" "(lock_step R kv name)\<^sup>*\<^sup>* w0 w"
    by (auto simp: lock_reach_def)
  from this(2,1) show ?thesis
  proof (induction rule: rtranclp_induct)
    case base
    then show ?case by (auto simp: lock_start_def lock_inv_def)
  next
    case (step y z)
    then show ?case by (blast intro: lock_step_inv)
  qed
qed

end

text \<open>C7: In every run at most one client holds the lock, and no client takes it from another: a
  release or a renewal by a client that does not hold it, for instance because its time ran out
  and somebody else acquired it, leaves the holder in place, and acquiring it then fails.\<close>

theorem lock_exclusive:
  assumes "redis_server R kv" "lock_reach R kv name w" "lock_holds kv name w i"
  shows "(\<forall>j. lock_holds kv name w j \<longrightarrow> j = i) \<and>
    (\<forall>j x l r. j \<noteq> i \<longrightarrow> lock_release R (lw_locks w j, lw_redis w) = (x, (l, r)) \<longrightarrow>
        lock_holds kv name (w\<lparr>lw_redis := r, lw_locks := (lw_locks w)(j := l)\<rparr>) i) \<and>
    (\<forall>j t ttl x l r. j \<noteq> i \<longrightarrow> lock_acquire R t ttl (lw_locks w j, lw_redis w) = (x, (l, r)) \<longrightarrow>
        x \<noteq> Inr True \<and> lock_holds kv name (w\<lparr>lw_redis := r, lw_locks := (lw_locks w)(j := l)\<rparr>) i)"
proof -
  note inv = redis_server.lock_reach_inv [OF assms(1,2)]
  from assms(3) obtain t where t: "dl_token (lw_locks w i) = Some t"
    "kv (lw_redis w) name = Some (RString (token_text t))" by (auto simp: lock_holds_def)
  have bound: "u < 2 ^ 128" if "dl_token (lw_locks w j) = Some u" for j u
    using inv that by (auto simp: lock_inv_def)
  have same: "j = i" if "dl_token (lw_locks w j) = Some u" "token_text u = token_text t" for j u
    using inv that t bound [OF that(1)] bound [OF t(1)] token_text_inj unfolding lock_inv_def by metis
  have name: "dl_name (lw_locks w j) = name" for j using inv by (auto simp: lock_inv_def)
  have "j = i" if "lock_holds kv name w j" for j
  proof -
    from that obtain u where u: "dl_token (lw_locks w j) = Some u"
      "kv (lw_redis w) name = Some (RString (token_text u))" by (auto simp: lock_holds_def)
    then have "token_text u = token_text t" using t(2) by (metis option.inject rentry.inject(1))
    with u(1) show ?thesis by (rule same)
  qed
  moreover have "lock_holds kv name (w\<lparr>lw_redis := r, lw_locks := (lw_locks w)(j := l)\<rparr>) i"
    if "j \<noteq> i" "lock_release R (lw_locks w j, lw_redis w) = (x, (l, r))" for j x l r
  proof -
    have "\<not> (\<exists>u. dl_token (lw_locks w j) = Some u \<and> kv (lw_redis w) name = Some (RString (token_text u)))"
    proof
      assume "\<exists>u. dl_token (lw_locks w j) = Some u \<and> kv (lw_redis w) name = Some (RString (token_text u))"
      then obtain u where u: "dl_token (lw_locks w j) = Some u"
        "kv (lw_redis w) name = Some (RString (token_text u))" by blast
      then have "token_text u = token_text t" using t(2) by (metis option.inject rentry.inject(1))
      with same u(1) that(1) show False by blast
    qed
    with redis_server.lock_release_cases [OF assms(1) that(2)] name [of j]
    have "kv r = kv (lw_redis w)" by metis
    with t that(1) show ?thesis by (simp add: lock_holds_def)
  qed
  moreover have "x \<noteq> Inr True \<and> lock_holds kv name (w\<lparr>lw_redis := r, lw_locks := (lw_locks w)(j := l)\<rparr>) i"
    if "j \<noteq> i" "lock_acquire R tok ttl (lw_locks w j, lw_redis w) = (x, (l, r))" for j tok ttl x l r
  proof -
    have "kv (lw_redis w) (dl_name (lw_locks w j)) \<noteq> None" using t name by simp
    with redis_server.lock_acquire_cases [OF assms(1) that(2)] t that(1)
      redis_server.lock_acquire_held [OF assms(1) that(2)]
    show ?thesis by (auto simp: lock_holds_def)
  qed
  ultimately show ?thesis by blast
qed

lemma lock_exclusive_witness:
  "lock_acquire map_redis 2 30 (\<lparr>dl_name = ''leader'', dl_token = None\<rparr>,
      [''leader'' \<mapsto> RString (token_text 5)]) \<noteq>
    (Inr True, (\<lparr>dl_name = ''leader'', dl_token = Some 2\<rparr>, [''leader'' \<mapsto> RString (token_text 2)]))"
proof -
  let ?l = "\<lparr>dl_name = ''leader'', dl_token = None\<rparr>"
  let ?start = "\<lparr>lw_redis = (\<lambda>k. None), lw_locks = (\<lambda>i. ?l), lw_used = {}\<rparr> :: keyspace lock_world"
  let ?w = "\<lparr>lw_redis = [''leader'' \<mapsto> RString (token_text 5)],
      lw_locks = (\<lambda>i. ?l)(0 := ?l\<lparr>dl_token := Some 5\<rparr>), lw_used = {5}\<rparr> :: keyspace lock_world"
  have "lock_step map_redis (\<lambda>s. s) ''leader'' ?start
      \<lparr>lw_redis = [''leader'' \<mapsto> RString (token_text 5)],
       lw_locks = (lw_locks ?start)(0 := ?l\<lparr>dl_token := Some 5\<rparr>), lw_used = insert 5 (lw_used ?start)\<rparr>"
    by (rule lock_step.acquire [where ttl = 30 and x = "Inr True" and token = 5 and i = 0 and w = ?start])
      (simp_all add: lock_acquire_def ebind_def on_snd_def on_fst_def emodify_def eret_def)
  then have "lock_reach map_redis (\<lambda>s. s) ''leader'' ?w"
    unfolding lock_reach_def by (intro exI [of _ ?start]) (auto simp: lock_start_def)
  moreover have "lock_holds (\<lambda>s. s) ''leader'' ?w 0" by (simp add: lock_holds_def)
  ultimately have "\<forall>j t ttl x l r. j \<noteq> 0 \<longrightarrow> lock_acquire map_redis t ttl (lw_locks ?w j, lw_redis ?w) = (x, (l, r)) \<longrightarrow>
      x \<noteq> Inr True"
    using lock_exclusive [OF keyspace.redis_server_axioms, of "''leader''" ?w 0] by blast
  from this [rule_format, of 7 2 30] show ?thesis by auto
qed

end
