(* ===== verification/Qx_Saga.thy ===== *)
theory Qx_Saga
  imports Qx_Domain Qx_Sql
begin

text \<open>
  The package \<open>qx-saga\<close>: the class tables a saga is built from (\<open>saga.py\<close>, \<open>decorators.py\<close>),
  the store of saga instances (\<open>store.py\<close>, \<open>table.py\<close>) and the manager that routes integration
  events and timeouts to instances (\<open>manager.py\<close>). The last part is the store under any number
  of managers, as an inductive step relation with its invariant.
\<close>

section \<open>Saga classes\<close>

text \<open>The object a handler works on: its state and the two signals it can set.\<close>

record saga =
  so_state :: dict
  so_completed :: bool
  so_failed :: bool

type_synonym 's saga_handler = "event \<Rightarrow> (saga \<times> 's, unit) eff"

type_synonym 's saga_hook = "(saga \<times> 's, unit) eff"

definition mark_complete :: "saga \<Rightarrow> saga" where
  "mark_complete sg = sg\<lparr>so_completed := True\<rparr>"

definition mark_failed :: "saga \<Rightarrow> saga" where
  "mark_failed sg = sg\<lparr>so_failed := True\<rparr>"

text \<open>An attribute of a class body, with the marks \<open>@on\<close> and \<open>@on_timeout\<close> left on it.\<close>

record 's saga_attr =
  sa_on :: "string option"
  sa_timeout :: "int option"
  sa_handler :: "'s saga_handler"
  sa_hook :: "'s saga_hook"

definition saga_on :: "string \<Rightarrow> 's saga_attr \<Rightarrow> 's saga_attr" where
  "saga_on event_type fn = fn\<lparr>sa_on := Some event_type\<rparr>"

definition saga_on_timeout :: "int \<Rightarrow> 's saga_attr \<Rightarrow> 's saga_attr" where
  "saga_on_timeout after fn = fn\<lparr>sa_timeout := Some after\<rparr>"

text \<open>\<open>sg_initial\<close> is \<open>state_type().model_dump()\<close>, \<open>sg_validate\<close> is \<open>state_type.model_validate\<close>;
  times are in microseconds.\<close>

record 's saga_class =
  sg_key :: string
  sg_handlers :: "(string \<times> 's saga_handler) list"
  sg_timeout_handler :: "'s saga_hook option"
  sg_timeout_after :: "int option"
  sg_initial :: dict
  sg_validate :: "dict \<Rightarrow> exn + dict"
  sg_compensate :: "'s saga_hook"

fun own_handlers ::
  "'s saga_attr list \<Rightarrow> (string \<times> 's saga_handler) list \<Rightarrow> (string \<times> 's saga_handler) list" where
  "own_handlers [] hs = hs"
| "own_handlers (a # as) hs =
     own_handlers as (case sa_on a of None \<Rightarrow> hs | Some et \<Rightarrow> AList.update et (sa_handler a) hs)"

fun own_timeout :: "'s saga_attr list \<Rightarrow> ('s saga_hook \<times> int) option \<Rightarrow> ('s saga_hook \<times> int) option" where
  "own_timeout [] t = t"
| "own_timeout (a # as) t =
     own_timeout as (case sa_timeout a of None \<Rightarrow> t | Some after \<Rightarrow> Some (sa_hook a, after))"

fun set_defaults :: "('k \<times> 'v) list \<Rightarrow> ('k \<times> 'v) list \<Rightarrow> ('k \<times> 'v) list" where
  "set_defaults [] hs = hs"
| "set_defaults ((k, v) # kvs) hs =
     set_defaults kvs (case map_of hs k of None \<Rightarrow> AList.update k v hs | Some w \<Rightarrow> hs)"

text \<open>\<open>SagaMeta.__new__\<close>: own handlers first, then those of the bases in order.\<close>

definition saga_meta ::
  "'s saga_attr list \<Rightarrow> 's saga_class list
     \<Rightarrow> (string \<times> 's saga_handler) list \<times> 's saga_hook option \<times> int option" where
  "saga_meta attrs bases =
     (let own = own_timeout attrs None
      in fold (\<lambda>b (hs, th, ta).
            (set_defaults (sg_handlers b) hs,
             (case th of None \<Rightarrow> sg_timeout_handler b | Some h \<Rightarrow> th),
             (case th of None \<Rightarrow> sg_timeout_after b | Some h \<Rightarrow> ta)))
          bases (own_handlers attrs [], map_option fst own, map_option snd own))"

definition saga_handles :: "'s saga_class \<Rightarrow> string \<Rightarrow> bool" where
  "saga_handles cls event_type = (map_of (sg_handlers cls) event_type \<noteq> None)"

definition saga_handle :: "'s saga_class \<Rightarrow> 's saga_handler" where
  "saga_handle cls ev =
     (case map_of (sg_handlers cls) (ev_type ev) of None \<Rightarrow> eret () | Some h \<Rightarrow> h ev)"

section \<open>The store\<close>

definition st_running :: string where "st_running = ''running''"
definition st_completed :: string where "st_completed = ''completed''"
definition st_failed :: string where "st_failed = ''failed''"
definition st_compensated :: string where "st_compensated = ''compensated''"

lemmas status_defs = st_running_def st_completed_def st_failed_def st_compensated_def

text \<open>The version is kept in a text column.\<close>

record saga_row =
  sr_id :: uuid
  sr_type :: string
  sr_key :: string
  sr_status :: string
  sr_state :: json
  sr_version :: string
  sr_created :: instant
  sr_updated :: instant

definition saga_clash :: "saga_row \<Rightarrow> saga_row \<Rightarrow> bool" where
  "saga_clash a b \<longleftrightarrow> sr_id a = sr_id b \<or> (sr_type a = sr_type b \<and> sr_key a = sr_key b)"

record saga_instance =
  si_id :: uuid
  si_type :: string
  si_key :: string
  si_status :: string
  si_state :: dict
  si_version :: int
  si_created :: instant
  si_updated :: instant

definition is_terminal :: "saga_instance \<Rightarrow> bool" where
  "is_terminal i \<longleftrightarrow> si_status i \<in> {st_completed, st_failed, st_compensated}"

definition saga_from_row :: "saga_row \<Rightarrow> exn + saga_instance" where
  "saga_from_row r =
     (case py_int (sr_version r) of
        None \<Rightarrow> Inl (PyException ''ValueError'' (sr_version r))
      | Some v \<Rightarrow> Inr \<lparr>si_id = sr_id r, si_type = sr_type r, si_key = sr_key r, si_status = sr_status r,
          si_state = (case sr_state r of JObj d \<Rightarrow> d | _ \<Rightarrow> []), si_version = v,
          si_created = sr_created r, si_updated = sr_updated r\<rparr>)"

definition saga_load ::
  "('s, saga_row) sql \<Rightarrow> string \<Rightarrow> string \<Rightarrow> ('s, saga_instance option result) eff" where
  "saga_load T ty key =
     ebind (sql_select T (\<lambda>r. sr_type r = ty \<and> sr_key r = key) no_order None) (\<lambda>rs.
       case rs of
         [] \<Rightarrow> eret (result_success None [])
       | r # _ \<Rightarrow> ebind (elift (saga_from_row r)) (\<lambda>i. eret (result_success (Some i) [])))"

definition new_instance :: "uuid \<Rightarrow> instant \<Rightarrow> instant \<Rightarrow> string \<Rightarrow> string \<Rightarrow> dict \<Rightarrow> saga_instance" where
  "new_instance new_id now now' ty key state_data =
     \<lparr>si_id = new_id, si_type = ty, si_key = key, si_status = st_running, si_state = state_data,
      si_version = 0, si_created = now, si_updated = now'\<rparr>"

definition instance_row :: "saga_instance \<Rightarrow> saga_row" where
  "instance_row i =
     \<lparr>sr_id = si_id i, sr_type = si_type i, sr_key = si_key i, sr_status = si_status i,
      sr_state = JObj (si_state i), sr_version = str_of_int (si_version i),
      sr_created = si_created i, sr_updated = si_updated i\<rparr>"

definition already_exists :: "string \<Rightarrow> string \<Rightarrow> error" where
  "already_exists ty key =
     mk_error ConflictError ''saga.already_exists'' (''saga '' @ ty @ '':'' @ key @ '' already exists'')"

definition saga_create ::
  "('s, saga_row) sql \<Rightarrow> uuid \<Rightarrow> instant \<Rightarrow> instant \<Rightarrow> string \<Rightarrow> string \<Rightarrow> dict
     \<Rightarrow> ('s, saga_instance result) eff" where
  "saga_create T new_id now now' ty key state_data s =
     (let i = new_instance new_id now now' ty key state_data
      in case sql_insert T [instance_row i] s of
           (Inl e, s') \<Rightarrow>
             (if is_exception e \<and> unique_violation e
              then (Inr (result_failure (already_exists ty key) []), s') else (Inl e, s'))
         | (Inr u, s') \<Rightarrow> (Inr (result_success i []), s'))"

definition saga_conflict :: "saga_instance \<Rightarrow> error" where
  "saga_conflict i =
     mk_error ConflictError ''saga.version_conflict''
       (''saga '' @ str_of_uuid (si_id i) @ '' was modified concurrently'')"

definition save_row :: "dict \<Rightarrow> string \<Rightarrow> int \<Rightarrow> instant \<Rightarrow> saga_row \<Rightarrow> saga_row" where
  "save_row state status version now r =
     r\<lparr>sr_state := JObj state, sr_status := status, sr_version := str_of_int version, sr_updated := now\<rparr>"

text \<open>The instance object is updated in place when the row was; it is returned.\<close>

definition saga_save ::
  "('s, saga_row) sql \<Rightarrow> instant \<Rightarrow> saga_instance \<Rightarrow> dict \<Rightarrow> string
     \<Rightarrow> ('s, unit result \<times> saga_instance) eff" where
  "saga_save T now i new_state new_status =
     ebind (sql_update T (\<lambda>r. sr_id r = si_id i \<and> sr_version r = str_of_int (si_version i))
              (save_row new_state new_status (si_version i + 1) now)) (\<lambda>n.
       if n = 0 then eret (result_failure (saga_conflict i) [], i)
       else eret (result_success () [],
         i\<lparr>si_state := new_state, si_status := new_status, si_version := si_version i + 1\<rparr>))"

definition load_timed_out ::
  "('s, saga_row) sql \<Rightarrow> string \<Rightarrow> instant \<Rightarrow> ('s, saga_instance list) eff" where
  "load_timed_out T ty threshold =
     ebind (sql_select T (\<lambda>r. sr_type r = ty \<and> sr_status r = st_running \<and> sr_updated r < threshold)
              no_order None)
       (emap (\<lambda>r. elift (saga_from_row r)))"

section \<open>The manager\<close>

text \<open>\<open>fresh\<close>, \<open>now\<close> and \<open>u\<close> (the jitter) are drawn from the outside; \<open>sm_lock\<close> is the guard a
  lock factory gives a body that receives whether the lock was acquired.\<close>

record 's saga_manager =
  sm_table :: "('s, saga_row) sql"
  sm_registrations :: "('s saga_class \<times> (event \<Rightarrow> string option)) list"
  sm_lock :: "(string \<Rightarrow> (bool \<Rightarrow> ('s, unit) eff) \<Rightarrow> ('s, unit) eff) option"
  sm_max_attempts :: nat
  sm_base_delay :: rat
  sm_sleep :: "rat \<Rightarrow> ('s, unit) eff"
  sm_jitter :: rat

definition saga_register ::
  "'s saga_class \<Rightarrow> (event \<Rightarrow> string option) \<Rightarrow> 's saga_manager \<Rightarrow> 's saga_manager" where
  "saga_register cls key m = m\<lparr>sm_registrations := sm_registrations m @ [(cls, key)]\<rparr>"

definition hydrate :: "'s saga_class \<Rightarrow> dict \<Rightarrow> exn + saga" where
  "hydrate cls state_data =
     (case sg_validate cls state_data of
        Inl e \<Rightarrow> Inl e
      | Inr st \<Rightarrow> Inr \<lparr>so_state = st, so_completed = False, so_failed = False\<rparr>)"

text \<open>\<open>left\<close> attempts remain; after the last failure the error is only logged.\<close>

fun compensate_with_retry ::
  "'s saga_manager \<Rightarrow> 's saga_hook \<Rightarrow> nat \<Rightarrow> (saga \<times> 's, unit) eff" where
  "compensate_with_retry m hook 0 = eret ()"
| "compensate_with_retry m hook (Suc left) =
     (\<lambda>st. case hook st of
        (Inr u, st') \<Rightarrow> (Inr (), st')
      | (Inl e, st') \<Rightarrow>
          (if \<not> is_exception e then (Inl e, st')
           else let attempt = sm_max_attempts m - Suc left
                in ebind (if attempt < sm_max_attempts m - 1
                          then on_snd (sm_sleep m (sm_base_delay m * 2 ^ attempt + sm_jitter m))
                          else eret ())
                     (\<lambda>_. compensate_with_retry m hook left) st'))"

definition saga_compensate :: "'s saga_manager \<Rightarrow> 's saga_class \<Rightarrow> (saga \<times> 's, unit) eff" where
  "saga_compensate m cls = compensate_with_retry m (sg_compensate cls) (sm_max_attempts m)"

text \<open>The \<open>try\<close> of \<open>_dispatch_to\<close>: the handler, and the status it leads to.\<close>

definition run_handler ::
  "'s saga_manager \<Rightarrow> 's saga_class \<Rightarrow> event \<Rightarrow> (saga \<times> 's, string) eff" where
  "run_handler m cls ev =
     etry (ebind (saga_handle cls ev) (\<lambda>_ st.
             if so_failed (fst st)
             then ebind (saga_compensate m cls) (\<lambda>_. eret st_compensated) st
             else if so_completed (fst st) then (Inr st_completed, st)
             else (Inr st_running, st)))
       (\<lambda>e. ebind (saga_compensate m cls) (\<lambda>_. eret st_compensated))"

text \<open>Run on a hydrated saga, then save; the result of \<open>save\<close> is not looked at.\<close>

definition run_and_save ::
  "'s saga_manager \<Rightarrow> instant \<Rightarrow> saga_instance \<Rightarrow> saga \<Rightarrow> (saga \<times> 's, string) eff \<Rightarrow> ('s, unit) eff" where
  "run_and_save m now i sg body s =
     (case body (sg, s) of
        (Inl e, (sg', s')) \<Rightarrow> (Inl e, s')
      | (Inr status, (sg', s')) \<Rightarrow>
          ebind (saga_save (sm_table m) now i (so_state sg') status) (\<lambda>_. eret ()) s')"

definition dispatch_instance ::
  "'s saga_manager \<Rightarrow> 's saga_class \<Rightarrow> event \<Rightarrow> instant \<Rightarrow> saga_instance \<Rightarrow> ('s, unit) eff" where
  "dispatch_instance m cls ev now i =
     (if is_terminal i then eret ()
      else ebind (elift (hydrate cls (si_state i)))
             (\<lambda>sg. run_and_save m now i sg (run_handler m cls ev)))"

definition dispatch_to ::
  "'s saga_manager \<Rightarrow> 's saga_class \<Rightarrow> string \<Rightarrow> event \<Rightarrow> uuid \<Rightarrow> instant \<Rightarrow> ('s, unit) eff" where
  "dispatch_to m cls key ev new_id now =
     ebind (saga_load (sm_table m) (sg_key cls) key) (\<lambda>res.
       case res of
         Failure e md \<Rightarrow> eret ()
       | Success (Some i) md \<Rightarrow> dispatch_instance m cls ev now i
       | Success None md \<Rightarrow>
           ebind (saga_create (sm_table m) new_id now now (sg_key cls) key (sg_initial cls)) (\<lambda>created.
             case created of
               Failure e md \<Rightarrow> eret ()
             | Success i md \<Rightarrow> dispatch_instance m cls ev now i))"

definition manager_handle ::
  "'s saga_manager \<Rightarrow> event \<Rightarrow> (nat \<Rightarrow> uuid) \<Rightarrow> instant \<Rightarrow> ('s, unit) eff" where
  "manager_handle m ev fresh now =
     efold (\<lambda>(n, cls, key_fn).
         if \<not> saga_handles cls (ev_type ev) then eret ()
         else case key_fn ev of
                None \<Rightarrow> eret ()
              | Some key \<Rightarrow> dispatch_to m cls key ev (fresh n) now)
       (enumerate 0 (sm_registrations m))"

definition run_timeout_handler ::
  "'s saga_manager \<Rightarrow> 's saga_class \<Rightarrow> 's saga_hook \<Rightarrow> (saga \<times> 's, string) eff" where
  "run_timeout_handler m cls hook =
     etry (ebind hook (\<lambda>_ st.
             (Inr (if so_completed (fst st) then st_completed
                   else if so_failed (fst st) then st_compensated else st_running), st)))
       (\<lambda>e. ebind (saga_compensate m cls) (\<lambda>_. eret st_compensated))"

definition run_timeout ::
  "'s saga_manager \<Rightarrow> 's saga_class \<Rightarrow> instant \<Rightarrow> saga_instance \<Rightarrow> ('s, unit) eff" where
  "run_timeout m cls now i =
     ebind (elift (hydrate cls (si_state i))) (\<lambda>sg.
       case sg_timeout_handler cls of
         None \<Rightarrow> eraise (PyException ''AssertionError''
           ''_run_timeout called without a registered timeout handler'')
       | Some hook \<Rightarrow> run_and_save m now i sg (run_timeout_handler m cls hook))"

definition fire_timeout ::
  "'s saga_manager \<Rightarrow> 's saga_class \<Rightarrow> instant \<Rightarrow> saga_instance \<Rightarrow> ('s, unit) eff" where
  "fire_timeout m cls now i =
     (case sm_lock m of
        None \<Rightarrow> run_timeout m cls now i
      | Some guarded \<Rightarrow>
          guarded (''qx:saga:timeout:'' @ str_of_uuid (si_id i))
            (\<lambda>held. if \<not> held then eret () else run_timeout m cls now i))"

definition tick_timeouts :: "'s saga_manager \<Rightarrow> instant \<Rightarrow> ('s, unit) eff" where
  "tick_timeouts m now =
     efold (\<lambda>(cls, key_fn).
         case (sg_timeout_after cls, sg_timeout_handler cls) of
           (Some after, Some hook) \<Rightarrow>
             ebind (load_timed_out (sm_table m) (sg_key cls) (now - after))
               (efold (fire_timeout m cls now))
         | _ \<Rightarrow> eret ())
       (sm_registrations m)"

section \<open>The store under many managers\<close>

text \<open>
  Client \<open>k\<close> holds the instance that a manager has loaded, created or been given by
  \<open>load_timed_out\<close> (then with the flag), until the manager has run it: any manager on the table,
  with any class and event, runs the part of \<open>_dispatch_to\<close> after the load, or \<open>_run_timeout\<close> on
  an instance of \<open>load_timed_out\<close>. Other clients may step in between, so what is held may be
  outdated. The user's handlers and the sleep of the backoff leave the table of sagas alone.
\<close>

type_synonym 's saga_world = "'s \<times> (nat \<rightharpoonup> bool \<times> saga_instance)"

definition row_quiet :: "('s \<Rightarrow> 'c) \<Rightarrow> ('g \<times> 's, 'a) eff \<Rightarrow> bool" where
  "row_quiet rows hook \<longleftrightarrow> (\<forall>st. rows (snd (snd (hook st))) = rows (snd st))"

definition quiet_class :: "('s \<Rightarrow> saga_row list) \<Rightarrow> 's saga_manager \<Rightarrow> 's saga_class \<Rightarrow> bool" where
  "quiet_class rows m cls \<longleftrightarrow>
     (\<forall>ev. row_quiet rows (saga_handle cls ev)) \<and> row_quiet rows (sg_compensate cls) \<and>
     (\<forall>hook. sg_timeout_handler cls = Some hook \<longrightarrow> row_quiet rows hook) \<and>
     (\<forall>d s. rows (snd (sm_sleep m d s)) = rows s)"

inductive saga_step ::
  "('s, saga_row) sql \<Rightarrow> ('s \<Rightarrow> saga_row list) \<Rightarrow> 's saga_world \<Rightarrow> 's saga_world \<Rightarrow> bool"
  for T rows where
  saga_step_load: "saga_load T ty key s = (Inr (Success (Some i) md), s') \<Longrightarrow>
    saga_step T rows (s, c) (s', c(k \<mapsto> (False, i)))"
| saga_step_timed_out: "load_timed_out T ty threshold s = (Inr is, s') \<Longrightarrow> i \<in> set is \<Longrightarrow>
    saga_step T rows (s, c) (s', c(k \<mapsto> (True, i)))"
| saga_step_create: "saga_create T new_id now now' ty key d s = (x, s') \<Longrightarrow>
    saga_step T rows (s, c) (s', c(k := (case x of Inr (Success i md) \<Rightarrow> Some (False, i) | _ \<Rightarrow> None)))"
| saga_step_dispatch: "c k = Some (b, i) \<Longrightarrow> sm_table m = T \<Longrightarrow> quiet_class rows m cls \<Longrightarrow>
    dispatch_instance m cls ev now i s = (x, s') \<Longrightarrow> saga_step T rows (s, c) (s', c(k := None))"
| saga_step_timeout: "c k = Some (True, i) \<Longrightarrow> sm_table m = T \<Longrightarrow> quiet_class rows m cls \<Longrightarrow>
    run_timeout m cls now i s = (x, s') \<Longrightarrow> saga_step T rows (s, c) (s', c(k := None))"
| saga_step_other: "rows s' = rows s \<Longrightarrow> saga_step T rows (s, c) (s', c)"

definition saga_reach ::
  "('s, saga_row) sql \<Rightarrow> ('s \<Rightarrow> saga_row list) \<Rightarrow> 's saga_world \<Rightarrow> bool" where
  "saga_reach T rows w \<longleftrightarrow>
     (\<exists>s. rows s = [] \<and> (saga_step T rows)\<^sup>*\<^sup>* (s, Map.empty) w)"

definition manager_statuses :: "string set" where
  "manager_statuses = {st_running, st_completed, st_compensated}"

text \<open>A held instance is a version of a row; at the current version the status agrees.\<close>

definition held_ok :: "saga_row list \<Rightarrow> saga_instance \<Rightarrow> bool" where
  "held_ok rs i \<longleftrightarrow>
     (\<exists>r \<in> set rs. \<exists>v. sr_id r = si_id i \<and> sr_version r = str_of_int v \<and> si_version i \<le> v \<and>
        (v = si_version i \<longrightarrow> sr_status r = si_status i))"

definition saga_row_ok :: "saga_row \<Rightarrow> bool" where
  "saga_row_ok r \<longleftrightarrow> (\<exists>v \<ge> 0. sr_version r = str_of_int v) \<and> sr_status r \<in> manager_statuses"

definition saga_inv :: "('s \<Rightarrow> saga_row list) \<Rightarrow> 's saga_world \<Rightarrow> bool" where
  "saga_inv rows w \<longleftrightarrow>
     unique_rows saga_clash (rows (fst w)) \<and> (\<forall>r \<in> set (rows (fst w)). saga_row_ok r) \<and>
     (\<forall>k b i. snd w k = Some (b, i) \<longrightarrow>
        held_ok (rows (fst w)) i \<and> (b \<longrightarrow> si_status i = st_running))"

text \<open>How a row may move on: it keeps its identity, and it is the same row while its version is.\<close>

definition row_moves :: "saga_row \<Rightarrow> saga_row \<Rightarrow> bool" where
  "row_moves r r' \<longleftrightarrow>
     sr_id r' = sr_id r \<and> sr_type r' = sr_type r \<and> sr_key r' = sr_key r \<and> sr_created r' = sr_created r \<and>
     (\<exists>v v'. sr_version r = str_of_int v \<and> sr_version r' = str_of_int v' \<and> v \<le> v' \<and>
        (v = v' \<longrightarrow> r' = r))"

lemma row_moves_refl: "saga_row_ok r \<Longrightarrow> row_moves r r"
  by (auto simp: row_moves_def saga_row_ok_def)

lemma row_moves_trans:
  assumes "row_moves a b" "row_moves b c"
  shows "row_moves a c"
proof -
  from assms(1) obtain u v where uv: "sr_version a = str_of_int u" "sr_version b = str_of_int v" "u \<le> v"
    "u = v \<longrightarrow> b = a" unfolding row_moves_def by blast
  from assms(2) obtain v' w where w: "sr_version b = str_of_int v'" "sr_version c = str_of_int w" "v' \<le> w"
    "v' = w \<longrightarrow> c = b" unfolding row_moves_def by blast
  from uv(2) w(1) have "v' = v" by (simp add: str_of_int_inj)
  with uv w have "u \<le> w" "u = w \<longrightarrow> c = a" by auto
  with assms uv(1) w(2) show ?thesis unfolding row_moves_def by auto
qed

text \<open>What a save does to the rows.\<close>

definition saved_rows ::
  "saga_instance \<Rightarrow> dict \<Rightarrow> string \<Rightarrow> instant \<Rightarrow> saga_row list \<Rightarrow> saga_row list" where
  "saved_rows i d status now =
     map (\<lambda>r. if sr_id r = si_id i \<and> sr_version r = str_of_int (si_version i)
        then save_row d status (si_version i + 1) now r else r)"

definition row_terminal :: "saga_row \<Rightarrow> bool" where
  "row_terminal r \<longleftrightarrow> sr_status r \<in> {st_completed, st_failed, st_compensated}"

lemma from_row_held:
  "saga_from_row r = Inr i \<Longrightarrow> r \<in> set rs \<Longrightarrow> saga_row_ok r \<Longrightarrow> held_ok rs i"
  by (force simp: saga_from_row_def held_ok_def saga_row_ok_def)

lemma same_id_same_row:
  "unique_rows saga_clash rs \<Longrightarrow> r \<in> set rs \<Longrightarrow> q \<in> set rs \<Longrightarrow> sr_id r = sr_id q \<Longrightarrow> r = q"
  by (rule unique_rows_same [where clash = saga_clash]) (auto simp: saga_clash_def)

lemma save_row_simps [simp]:
  "sr_id (save_row st status v now r) = sr_id r" "sr_type (save_row st status v now r) = sr_type r"
  "sr_key (save_row st status v now r) = sr_key r"
  "sr_status (save_row st status v now r) = status" "sr_created (save_row st status v now r) = sr_created r"
  "sr_version (save_row st status v now r) = str_of_int v"
  by (simp_all add: save_row_def)

lemma unique_rows_map:
  assumes "unique_rows saga_clash rs" "\<And>r. sr_id (f r) = sr_id r" "\<And>r. sr_type (f r) = sr_type r"
    "\<And>r. sr_key (f r) = sr_key r"
  shows "unique_rows saga_clash (map f rs)"
  using assms by (simp add: unique_rows_def sorted_wrt_map saga_clash_def)

lemma emap_elift_mem:
  assumes "emap f rs s = (Inr is, s')" "\<And>r s. f r s = (g r, s)"
  shows "s' = s \<and> (\<forall>i \<in> set is. \<exists>r \<in> set rs. g r = Inr i)"
  using assms(1)
proof (induction rs arbitrary: "is" s)
  case (Cons r rs)
  from Cons.prems obtain i s1 js where fr: "f r s = (Inr i, s1)"
    and js: "emap f rs s1 = (Inr js, s')" and "is = i # js"
    by (auto simp: ebind_eq_Inr)
  moreover from fr assms(2) have "s1 = s" "g r = Inr i" by auto
  ultimately show ?case using Cons.IH by auto
qed auto

lemma row_quiet_rows: "row_quiet rows f \<Longrightarrow> rows (snd (snd (f st))) = rows (snd st)"
  by (simp only: row_quiet_def)

lemma row_quiet_eret: "row_quiet rows (eret x)"
  by (simp add: row_quiet_def eret_def)

lemma row_quiet_ebind:
  assumes "row_quiet rows f" "\<And>x. row_quiet rows (g x)"
  shows "row_quiet rows (ebind f g)"
  unfolding row_quiet_def
proof
  fix st
  obtain x st1 where f: "f st = (x, st1)" by (rule prod.exhaust)
  with assms(1) have "rows (snd st1) = rows (snd st)" unfolding row_quiet_def by (metis snd_conv)
  with f assms(2) show "rows (snd (snd (ebind f g st))) = rows (snd st)"
    by (cases x) (simp_all add: ebind_def row_quiet_rows)
qed

lemma row_quiet_etry:
  assumes "row_quiet rows f" "\<And>x. row_quiet rows (g x)"
  shows "row_quiet rows (etry f g)"
  unfolding row_quiet_def
proof
  fix st
  obtain x st1 where f: "f st = (x, st1)" by (rule prod.exhaust)
  with assms(1) have "rows (snd st1) = rows (snd st)" unfolding row_quiet_def by (metis snd_conv)
  with f assms(2) show "rows (snd (snd (etry f g st))) = rows (snd st)"
    by (cases x) (simp_all add: etry_def row_quiet_rows)
qed

text \<open>The statuses a run leads to.\<close>

lemma run_handler_status:
  "run_handler m cls ev st = (Inr status, st') \<Longrightarrow> status \<in> manager_statuses"
  by (auto simp: run_handler_def etry_def ebind_def eret_def manager_statuses_def
      split: sum.splits prod.splits if_splits)

lemma run_timeout_handler_status:
  "run_timeout_handler m cls hook st = (Inr status, st') \<Longrightarrow> status \<in> manager_statuses"
  by (auto simp: run_timeout_handler_def etry_def ebind_def eret_def manager_statuses_def
      split: sum.splits prod.splits if_splits)

text \<open>The table of saga instances.\<close>

locale saga_table = sql_table T rows saga_clash rest
  for T :: "('db, saga_row) sql" and rows :: "'db \<Rightarrow> saga_row list" and rest :: "'db \<Rightarrow> 'o"
begin

lemma saga_load_row:
  assumes "saga_load T ty key s = (Inr (Success (Some i) md), s')"
  shows "rows s' = rows s \<and> (\<exists>r \<in> set (rows s). sr_type r = ty \<and> sr_key r = key \<and> saga_from_row r = Inr i)"
proof -
  from assms obtain rs s1 where
    sel: "sql_select T (\<lambda>r. sr_type r = ty \<and> sr_key r = key) no_order None s = (Inr rs, s1)"
    and rest: "(case rs of [] \<Rightarrow> eret (result_success None [])
       | r # _ \<Rightarrow> ebind (elift (saga_from_row r)) (\<lambda>i. eret (result_success (Some i) []))) s1 =
       (Inr (Success (Some i) md), s')"
    unfolding saga_load_def ebind_eq_Inr by blast
  then obtain r rs' where "rs = r # rs'" "s1 = s'" and i: "saga_from_row r = Inr i"
    by (cases rs) (auto simp: ebind_eq_Inr result_success_def)
  with sel have "sql_select T (\<lambda>r. sr_type r = ty \<and> sr_key r = key) no_order None s = (Inr (r # rs'), s')"
    by simp
  from select_mset(2) [OF this(1)] select_state [OF this(1)] i show ?thesis by auto
qed

lemma load_timed_out_row:
  assumes "load_timed_out T ty threshold s = (Inr is, s')" "i \<in> set is"
  shows "rows s' = rows s \<and> (\<exists>r \<in> set (rows s). saga_from_row r = Inr i \<and> sr_status r = st_running)"
proof -
  from assms(1) obtain rs where
    sel: "sql_select T (\<lambda>r. sr_type r = ty \<and> sr_status r = st_running \<and> sr_updated r < threshold)
        no_order None s = (Inr rs, s)" and "emap (\<lambda>r. elift (saga_from_row r)) rs s = (Inr is, s')"
    unfolding load_timed_out_def by (auto simp: ebind_eq_Inr dest: select_state)
  with emap_elift_mem [OF this(2), of saga_from_row] assms(2) select_mset(2) [OF sel] show ?thesis by auto
qed

lemma saga_create_rows:
  assumes "saga_create T new_id now now' ty key d s = (x, s')" "unique_rows saga_clash (rows s)"
  shows "(rows s' = rows s \<and> (\<forall>i md. x \<noteq> Inr (Success i md))) \<or>
    (x = Inr (Success (new_instance new_id now now' ty key d) []) \<and>
     rows s' = rows s @ [instance_row (new_instance new_id now now' ty key d)] \<and>
     unique_rows saga_clash (rows s'))"
proof -
  obtain y s1 where y: "sql_insert T [instance_row (new_instance new_id now now' ty key d)] s = (y, s1)"
    by fastforce
  with insert_ok [OF _ assms(2)] insert_failed assms(1) show ?thesis
    by (cases y) (fastforce simp: saga_create_def Let_def result_failure_def result_success_def
        split: if_splits)+
qed

lemma saga_save_rows:
  assumes "saga_save T now i d status s = (x, s')"
  shows "rows s' = rows s \<or> rows s' = saved_rows i d status now (rows s)"
proof -
  obtain y s1 where y: "sql_update T (\<lambda>r. sr_id r = si_id i \<and> sr_version r = str_of_int (si_version i))
      (save_row d status (si_version i + 1) now) s = (y, s1)" by fastforce
  with update_ok update_failed assms show ?thesis
    by (cases y) (fastforce simp: saga_save_def ebind_def saved_rows_def split: if_splits)+
qed

text \<open>A manager that runs on an instance does one save, with a status of the manager's, or none.\<close>

lemma run_and_save_rows:
  assumes m: "sm_table m = T" and run: "run_and_save m now i sg body s = (x, s')"
    and body: "\<And>y st. body (sg, s) = (y, st) \<Longrightarrow>
      rows (snd st) = rows s \<and> (\<forall>status. y = Inr status \<longrightarrow> status \<in> manager_statuses)"
  shows "rows s' = rows s \<or> (\<exists>d. \<exists>status\<in>manager_statuses. rows s' = saved_rows i d status now (rows s))"
proof -
  obtain y sg' s1 where y: "body (sg, s) = (y, (sg', s1))" by (metis prod.exhaust)
  note b = body [OF y]
  show ?thesis
  proof (cases y)
    case (Inl e)
    with run y b show ?thesis by (simp add: run_and_save_def)
  next
    case (Inr status)
    obtain z s2 where z: "saga_save T now i (so_state sg') status s1 = (z, s2)" by (rule prod.exhaust)
    have "s' = s2" using run y Inr z m by (cases z) (simp_all add: run_and_save_def ebind_def)
    with saga_save_rows [OF z] b Inr show ?thesis by auto
  qed
qed

lemma held_ok_mono:
  assumes "held_ok rs i" "set rs \<subseteq> set rs'"
  shows "held_ok rs' i"
  using assms unfolding held_ok_def by blast

text \<open>A save by the holder of \<open>i\<close>: rows stay well-formed, other holders stay versions of rows.\<close>

lemma held_ok_save:
  assumes h: "held_ok rs j" and i: "held_ok rs i" and u: "unique_rows saga_clash rs"
  shows "held_ok (saved_rows i d status now rs) j"
proof -
  from h obtain r v where r: "r \<in> set rs" "sr_id r = si_id j" "sr_version r = str_of_int v"
    "si_version j \<le> v" "v = si_version j \<longrightarrow> sr_status r = si_status j" by (auto simp: held_ok_def)
  show ?thesis
  proof (cases "sr_id r = si_id i \<and> v = si_version i")
    case True
    let ?r = "save_row d status (si_version i + 1) now r"
    have "?r \<in> set (map (\<lambda>r. if sr_id r = si_id i \<and> sr_version r = str_of_int (si_version i)
        then save_row d status (si_version i + 1) now r else r) rs)"
      using True r by (auto intro!: image_eqI [of _ _ r])
    then show ?thesis unfolding held_ok_def saved_rows_def
      by (rule bexI [rotated]) (rule exI [of _ "v + 1"], use True r in auto)
  next
    case False
    then have "r \<in> set (map (\<lambda>r. if sr_id r = si_id i \<and> sr_version r = str_of_int (si_version i)
        then save_row d status (si_version i + 1) now r else r) rs)"
      using r by (auto simp: str_of_int_inj intro!: image_eqI [of _ _ r])
    then show ?thesis unfolding held_ok_def saved_rows_def using r by blast
  qed
qed

lemma compensate_quiet:
  assumes "quiet_class rows m cls"
  shows "row_quiet rows (compensate_with_retry m (sg_compensate cls) left)"
proof (induction left)
  case (Suc left)
  have h: "row_quiet rows (sg_compensate cls)" and sl: "row_quiet rows (on_snd (sm_sleep m d))" for d
    using assms by (auto simp: quiet_class_def row_quiet_def on_snd_def split: prod.split) (metis snd_conv)
  have retry: "row_quiet rows (ebind (if b then on_snd (sm_sleep m d) else eret ())
      (\<lambda>_. compensate_with_retry m (sg_compensate cls) left))" for b d
    by (intro row_quiet_ebind Suc.IH) (simp add: sl row_quiet_eret)
  show ?case
    unfolding row_quiet_def
  proof
    fix st
    obtain x st1 where c: "sg_compensate cls st = (x, st1)" by (rule prod.exhaust)
    from h c have "rows (snd st1) = rows (snd st)" unfolding row_quiet_def by (metis snd_conv)
    with c retry show "rows (snd (snd (compensate_with_retry m (sg_compensate cls) (Suc left) st))) = rows (snd st)"
      by (cases x) (simp_all add: row_quiet_rows [OF retry] Let_def)
  qed
qed (simp add: row_quiet_def eret_def)

lemma run_handler_quiet:
  assumes "quiet_class rows m cls"
  shows "row_quiet rows (run_handler m cls ev)"
proof -
  have c: "row_quiet rows (ebind (saga_compensate m cls) (\<lambda>_. eret st))" for st :: string
    unfolding saga_compensate_def by (intro row_quiet_ebind compensate_quiet [OF assms] row_quiet_eret)
  have h: "row_quiet rows (saga_handle cls ev)" using assms by (simp add: quiet_class_def)
  show ?thesis
    unfolding run_handler_def
    by (intro row_quiet_etry row_quiet_ebind h c) (use c in \<open>auto simp: row_quiet_def\<close>)
qed

lemma run_timeout_handler_quiet:
  assumes "quiet_class rows m cls" "sg_timeout_handler cls = Some hook"
  shows "row_quiet rows (run_timeout_handler m cls hook)"
proof -
  have c: "row_quiet rows (ebind (saga_compensate m cls) (\<lambda>_. eret st))" for st :: string
    unfolding saga_compensate_def by (intro row_quiet_ebind compensate_quiet [OF assms(1)] row_quiet_eret)
  have h: "row_quiet rows hook" using assms by (simp add: quiet_class_def)
  show ?thesis
    unfolding run_timeout_handler_def
    by (intro row_quiet_etry row_quiet_ebind h c) (simp add: row_quiet_def)
qed

lemma dispatch_rows:
  assumes m: "sm_table m = T" and q: "quiet_class rows m cls"
    and r: "dispatch_instance m cls ev now i s = (x, s')"
  shows "rows s' = rows s \<or> (\<not> is_terminal i \<and>
    (\<exists>d. \<exists>status\<in>manager_statuses. rows s' = saved_rows i d status now (rows s)))"
proof (cases "is_terminal i \<or> (\<exists>e. hydrate cls (si_state i) = Inl e)")
  case True
  with r show ?thesis by (auto simp: dispatch_instance_def ebind_def eret_def split: if_splits)
next
  case False
  then obtain sg where run: "run_and_save m now i sg (run_handler m cls ev) s = (x, s')"
    using r by (cases "hydrate cls (si_state i)") (auto simp: dispatch_instance_def ebind_def)
  have "rows (snd st) = rows s \<and> (\<forall>status. y = Inr status \<longrightarrow> status \<in> manager_statuses)"
    if y: "run_handler m cls ev (sg, s) = (y, st)" for y st
    using run_handler_quiet [OF q, of ev] run_handler_status y unfolding row_quiet_def by (metis snd_conv)
  from run_and_save_rows [OF m run this] False show ?thesis by blast
qed

lemma timeout_rows:
  assumes m: "sm_table m = T" and q: "quiet_class rows m cls" and r: "run_timeout m cls now i s = (x, s')"
  shows "rows s' = rows s \<or> (\<exists>d. \<exists>status\<in>manager_statuses. rows s' = saved_rows i d status now (rows s))"
proof (cases "sg_timeout_handler cls = None \<or> (\<exists>e. hydrate cls (si_state i) = Inl e)")
  case True
  with r show ?thesis
    by (cases "hydrate cls (si_state i)") (auto simp: run_timeout_def ebind_def eraise_def)
next
  case False
  then obtain hook sg where hook: "sg_timeout_handler cls = Some hook"
    and run: "run_and_save m now i sg (run_timeout_handler m cls hook) s = (x, s')"
    using r by (cases "hydrate cls (si_state i)") (auto simp: run_timeout_def ebind_def)
  have "rows (snd st) = rows s \<and> (\<forall>status. y = Inr status \<longrightarrow> status \<in> manager_statuses)"
    if y: "run_timeout_handler m cls hook (sg, s) = (y, st)" for y st
    using run_timeout_handler_quiet [OF q hook] run_timeout_handler_status y unfolding row_quiet_def by (metis snd_conv)
  from run_and_save_rows [OF m run this] show ?thesis by blast
qed

text \<open>A save by a holder whose instance was not terminal.\<close>

lemma save_keeps:
  assumes inv: "saga_inv rows (s, c)" and c: "c k = Some (b, i)" and nt: "\<not> is_terminal i"
    and st: "status \<in> manager_statuses" and s': "rows s' = saved_rows i d status now (rows s)"
  shows "saga_inv rows (s', c(k := None)) \<and> (\<forall>r \<in> set (rows s). row_terminal r \<longrightarrow> r \<in> set (rows s')) \<and>
    (\<forall>r \<in> set (rows s). \<exists>r' \<in> set (rows s'). row_moves r r')"
proof -
  let ?f = "\<lambda>r. if sr_id r = si_id i \<and> sr_version r = str_of_int (si_version i)
        then save_row d status (si_version i + 1) now r else r"
  have i: "unique_rows saga_clash (rows s)" "\<forall>r \<in> set (rows s). saga_row_ok r" "held_ok (rows s) i"
    "\<forall>k b i. c k = Some (b, i) \<longrightarrow> held_ok (rows s) i \<and> (b \<longrightarrow> si_status i = st_running)"
    using inv c by (auto simp: saga_inv_def)
  have map: "rows s' = map ?f (rows s)" using s' by (simp add: saved_rows_def)
  have u: "unique_rows saga_clash (map ?f (rows s))"
    by (rule unique_rows_map [OF i(1)]) auto
  have ok: "saga_row_ok (?f r) \<and> row_moves r (?f r)" if r: "r \<in> set (rows s)" for r
  proof -
    from i(2) r obtain v where v: "v \<ge> 0" "sr_version r = str_of_int v" by (auto simp: saga_row_ok_def)
    show ?thesis
    proof (cases "sr_id r = si_id i \<and> v = si_version i")
      case True
      then have f: "?f r = save_row d status (v + 1) now r" using v by simp
      from v have "0 \<le> v + 1" by simp
      with st have "saga_row_ok (?f r)" unfolding f saga_row_ok_def by auto
      moreover have "row_moves r (?f r)"
        unfolding f row_moves_def using v
        by (intro conjI exI [where x = v] exI [where x = "v + 1"]) simp_all
      ultimately show ?thesis ..
    next
      case False
      then have "?f r = r" using v by (auto simp: str_of_int_inj)
      with i(2) r row_moves_refl show ?thesis by simp
    qed
  qed
  have same: "?f r = r" if r: "r \<in> set (rows s)" "row_terminal r" for r
  proof (rule ccontr)
    assume "?f r \<noteq> r"
    then have m: "sr_id r = si_id i" "sr_version r = str_of_int (si_version i)"
      by (auto split: if_splits)
    from i(3) obtain q v where q: "q \<in> set (rows s)" "sr_id q = si_id i" "sr_version q = str_of_int v"
      "v = si_version i \<longrightarrow> sr_status q = si_status i" by (auto simp: held_ok_def)
    have "q = r" using same_id_same_row [OF i(1) q(1) r(1)] q(2) m by simp
    with q m have "sr_status r = si_status i" by (auto simp: str_of_int_inj)
    with r(2) nt show False by (simp add: row_terminal_def is_terminal_def)
  qed
  have held: "held_ok (rows s') j \<and> (b' \<longrightarrow> si_status j = st_running)"
    if "(c(k := None)) k' = Some (b', j)" for k' b' j
    using that i(4) held_ok_save [OF _ i(3,1), of j d status now] s' by (auto split: if_splits)
  have "r \<in> set (rows s')" if "r \<in> set (rows s)" "row_terminal r" for r
  proof -
    from that(1) have "?f r \<in> set (map ?f (rows s))" by (simp only: set_map image_eqI)
    then show ?thesis unfolding map same [OF that] .
  qed
  moreover have "\<exists>r' \<in> set (rows s'). row_moves r r'" if "r \<in> set (rows s)" for r
  proof -
    from that have "?f r \<in> set (map ?f (rows s))" by (simp only: set_map image_eqI)
    with ok [OF that] show ?thesis unfolding map by blast
  qed
  moreover have "\<forall>r \<in> set (rows s'). saga_row_ok r"
    unfolding map set_map ball_simps using ok by blast
  ultimately show ?thesis using u held unfolding saga_inv_def fst_conv snd_conv map by blast
qed

lemma quiet_same:
  assumes "saga_inv rows (s, c)" "rows s' = rows s" "\<And>k' x. c' k' = Some x \<Longrightarrow> c k' = Some x"
  shows "saga_inv rows (s', c') \<and> (\<forall>r \<in> set (rows s). row_terminal r \<longrightarrow> r \<in> set (rows s')) \<and>
    (\<forall>r \<in> set (rows s). \<exists>r' \<in> set (rows s'). row_moves r r')"
  using assms row_moves_refl by (fastforce simp: saga_inv_def)

lemma saga_step_keeps:
  assumes "saga_step T rows w w'" "saga_inv rows w"
  shows "saga_inv rows w' \<and> (\<forall>r \<in> set (rows (fst w)). row_terminal r \<longrightarrow> r \<in> set (rows (fst w'))) \<and>
    (\<forall>r \<in> set (rows (fst w)). \<exists>r' \<in> set (rows (fst w')). row_moves r r')"
  using assms
proof (induction rule: saga_step.induct)
  case (saga_step_load ty key s i md s' c k)
  from saga_load_row [OF this(1)] saga_step_load.prems row_moves_refl show ?case
    by (fastforce simp: saga_inv_def intro: from_row_held)
next
  case (saga_step_timed_out ty threshold s "is" s' i c k)
  from load_timed_out_row [OF this(1,2)] obtain r where same: "rows s' = rows s"
    and r: "r \<in> set (rows s)" "saga_from_row r = Inr i" "sr_status r = st_running" by blast
  have "si_status i = st_running" using r(2,3) by (auto simp: saga_from_row_def split: option.splits)
  moreover have "held_ok (rows s) i"
    using saga_step_timed_out.prems r by (auto simp: saga_inv_def intro: from_row_held)
  ultimately show ?case using saga_step_timed_out.prems same row_moves_refl by (fastforce simp: saga_inv_def)
next
  case (saga_step_create new_id now now' ty key d s x s' c k)
  let ?i = "new_instance new_id now now' ty key d"
  have u: "unique_rows saga_clash (rows s)" using saga_step_create.prems by (simp add: saga_inv_def)
  from saga_create_rows [OF saga_step_create.hyps u] show ?case
  proof (elim disjE conjE)
    assume "rows s' = rows s" "\<forall>i md. x \<noteq> Inr (Success i md)"
    then show ?thesis unfolding fst_conv
      by (intro quiet_same [OF saga_step_create.prems])
        (auto split: sum.splits result.splits if_splits)
  next
    assume a: "x = Inr (Success ?i [])" "rows s' = rows s @ [instance_row ?i]"
      "unique_rows saga_clash (rows s')"
    have "held_ok (rows s') ?i"
      unfolding a held_ok_def by (auto simp: instance_row_def new_instance_def)
    moreover have "saga_row_ok (instance_row ?i)"
      by (auto simp: saga_row_ok_def instance_row_def new_instance_def manager_statuses_def intro: exI [of _ 0])
    moreover have "held_ok (rows s') j" if "held_ok (rows s) j" for j
      using that by (rule held_ok_mono) (auto simp: a)
    ultimately show ?thesis using saga_step_create.prems a row_moves_refl by (fastforce simp: saga_inv_def)
  qed
next
  case (saga_step_dispatch c k b i m cls ev now s x s')
  from dispatch_rows [OF saga_step_dispatch.hyps(2-4)] show ?case
  proof (elim disjE exE bexE conjE)
    fix d status assume "\<not> is_terminal i" "status \<in> manager_statuses" "rows s' = saved_rows i d status now (rows s)"
    with save_keeps [OF saga_step_dispatch.prems saga_step_dispatch.hyps(1)] show ?thesis by simp
  qed (unfold fst_conv, rule quiet_same [OF saga_step_dispatch.prems], auto split: if_splits)
next
  case (saga_step_timeout c k i m cls now s x s')
  have "\<not> is_terminal i"
    using saga_step_timeout.prems saga_step_timeout.hyps(1) by (auto simp: saga_inv_def is_terminal_def status_defs)
  with timeout_rows [OF saga_step_timeout.hyps(2-4)] show ?case
  proof (elim disjE exE bexE conjE)
    fix d status assume "\<not> is_terminal i" "status \<in> manager_statuses" "rows s' = saved_rows i d status now (rows s)"
    with save_keeps [OF saga_step_timeout.prems saga_step_timeout.hyps(1)] show ?thesis by simp
  qed (unfold fst_conv, rule quiet_same [OF saga_step_timeout.prems], auto split: if_splits)
next
  case (saga_step_other s' s c)
  then show ?case unfolding fst_conv by (intro quiet_same [OF saga_step_other.prems]) auto
qed

end

interpretation list_saga: saga_table "list_sql (\<lambda>rs. rs) (\<lambda>rs _. rs) saga_clash" "\<lambda>rs. rs" "\<lambda>_. ()"
  by (intro saga_table.intro whole_table.list_sql_table)

lemma saga_steps_keep:
  assumes "saga_table T rows rest" "(saga_step T rows)\<^sup>*\<^sup>* w w'" "saga_inv rows w"
  shows "saga_inv rows w' \<and> (\<forall>r \<in> set (rows (fst w)). row_terminal r \<longrightarrow> r \<in> set (rows (fst w'))) \<and>
    (\<forall>r \<in> set (rows (fst w)). \<exists>r' \<in> set (rows (fst w')). row_moves r r')"
  using assms(2,3)
proof (induction rule: rtranclp_induct)
  case base
  then show ?case by (auto simp: saga_inv_def intro: row_moves_refl)
next
  case (step y z)
  note k = saga_table.saga_step_keeps [OF assms(1) step.hyps(2)]
  from step.IH [OF step.prems] k show ?case by (blast intro: row_moves_trans)
qed

lemma saga_reach_inv:
  assumes "saga_table T rows rest" "saga_reach T rows w"
  shows "saga_inv rows w"
proof -
  from assms(2) obtain s where s: "rows s = []" "(saga_step T rows)\<^sup>*\<^sup>* (s, Map.empty) w"
    by (auto simp: saga_reach_def)
  moreover have "saga_inv rows (s, Map.empty)" using s(1) by (simp add: saga_inv_def unique_rows_def)
  ultimately show ?thesis using saga_steps_keep [OF assms(1)] by blast
qed

section \<open>One dispatch\<close>

text \<open>A hook that only raises exceptions of Python's \<open>Exception\<close> kind, and never touches the rows.\<close>

definition tame :: "('s \<Rightarrow> 'c) \<Rightarrow> 's saga_hook \<Rightarrow> bool" where
  "tame view hook \<longleftrightarrow> (\<forall>st x st'. hook st = (x, st') \<longrightarrow> view (snd st') = view (snd st) \<and>
     (\<forall>e. x = Inl e \<longrightarrow> is_exception e))"

definition quiet_sleep :: "('s \<Rightarrow> 'c) \<Rightarrow> 's saga_manager \<Rightarrow> bool" where
  "quiet_sleep view m \<longleftrightarrow> (\<forall>d s. \<exists>s'. sm_sleep m d s = (Inr (), s') \<and> view s' = view s)"

lemma tameD:
  assumes "tame view hook" "hook st = (x, st')"
  shows "view (snd st') = view (snd st)" "x = Inl e \<Longrightarrow> is_exception e"
  using assms unfolding tame_def by blast+

lemma quiet_sleepE:
  assumes "quiet_sleep view m"
  obtains st' where "on_snd (sm_sleep m d) st = (Inr (), st')" "view (snd st') = view (snd st)"
    "fst st' = fst st"
proof -
  from assms obtain s' where "sm_sleep m d (snd st) = (Inr (), s')" "view s' = view (snd st)"
    unfolding quiet_sleep_def by blast
  then show thesis by (intro that [of "(fst st, s')"]) (simp_all add: on_snd_def)
qed

lemma compensate_returns:
  assumes "tame view hook" "quiet_sleep view m"
  shows "\<exists>st'. compensate_with_retry m hook left st = (Inr (), st') \<and> view (snd st') = view (snd st)"
proof (induction left arbitrary: st)
  case (Suc left)
  obtain x st1 where h: "hook st = (x, st1)" by (rule prod.exhaust)
  show ?case
  proof (cases x)
    case (Inl e)
    let ?k = "sm_max_attempts m - Suc left"
    obtain st2 where sl: "on_snd (sm_sleep m (sm_base_delay m * 2 ^ ?k + sm_jitter m)) st1 = (Inr (), st2)"
      "view (snd st2) = view (snd st1)" using quiet_sleepE [OF assms(2)] by blast
    from Suc.IH [of st1] Suc.IH [of st2] sl h Inl tameD [OF assms(1) h] show ?thesis
      by (auto simp: Let_def ebind_def)
  qed (use h tameD [OF assms(1) h] in auto)
qed simp

text \<open>The outcome of the event handler that calls for compensation.\<close>

definition handler_bad :: "exn + unit \<Rightarrow> saga \<Rightarrow> bool" where
  "handler_bad x sg \<longleftrightarrow> (case x of Inl e \<Rightarrow> True | Inr u \<Rightarrow> so_failed sg)"

definition dispatch_status :: "exn + unit \<Rightarrow> saga \<Rightarrow> string" where
  "dispatch_status x sg =
     (if handler_bad x sg then st_compensated else if so_completed sg then st_completed else st_running)"

lemma run_handler_outcome:
  assumes "tame view (saga_handle cls ev)" "tame view (sg_compensate cls)" "quiet_sleep view m"
    and h: "saga_handle cls ev st = (x, st1)"
  shows "\<exists>st2. run_handler m cls ev st = (Inr (dispatch_status x (fst st1)), st2) \<and>
    view (snd st2) = view (snd st) \<and>
    (if handler_bad x (fst st1) then saga_compensate m cls st1 = (Inr (), st2) else st2 = st1)"
proof -
  obtain st2 where c: "saga_compensate m cls st1 = (Inr (), st2)" "view (snd st2) = view (snd st1)"
    using compensate_returns [OF assms(2,3)] unfolding saga_compensate_def by blast
  have v: "view (snd st1) = view (snd st)" and e: "\<And>e. x = Inl e \<Longrightarrow> is_exception e"
    using tameD [OF assms(1) h] by auto
  show ?thesis
  proof (cases x)
    case (Inl e')
    with h c v e [of e'] show ?thesis
      by (simp add: run_handler_def etry_def ebind_def handler_bad_def dispatch_status_def)
  next
    case (Inr u)
    with h c v show ?thesis
      by (cases "so_failed (fst st1)"; intro exI [of _ "if so_failed (fst st1) then st2 else st1"])
        (simp_all add: run_handler_def etry_def ebind_def handler_bad_def dispatch_status_def)
  qed
qed

section \<open>Properties\<close>

text \<open>Two managers on a list table, and a saga whose handler marks it complete.\<close>

definition demo_saga_sql :: "(saga_row list, saga_row) sql" where
  "demo_saga_sql = list_sql (\<lambda>rs. rs) (\<lambda>rs _. rs) saga_clash"

definition demo_saga_class :: "(saga \<times> 's, unit) eff \<Rightarrow> 's saga_class" where
  "demo_saga_class body =
     \<lparr>sg_key = ''shop.OrderSaga'', sg_handlers = [(''order.paid'', \<lambda>ev. body)],
      sg_timeout_handler = Some body, sg_timeout_after = Some 60, sg_initial = [],
      sg_validate = Inr, sg_compensate = eret ()\<rparr>"

definition demo_manager :: "saga_row list saga_manager" where
  "demo_manager =
     \<lparr>sm_table = demo_saga_sql, sm_registrations = [], sm_lock = None, sm_max_attempts = 3,
      sm_base_delay = 1 / 10, sm_sleep = (\<lambda>d. eret ()), sm_jitter = 0\<rparr>"

definition demo_instance :: saga_instance where
  "demo_instance = new_instance 7 100 100 ''shop.OrderSaga'' ''o-1'' []"

lemma demo_saga_table: "saga_table demo_saga_sql (\<lambda>rs. rs) (\<lambda>_. ())"
  unfolding demo_saga_sql_def by (rule list_saga.saga_table_axioms)

lemma demo_saga_up: "sql_up demo_saga_sql (\<lambda>rs. rs) saga_clash (\<lambda>_. ())"
  unfolding demo_saga_sql_def by (rule list_table.sql_up_axioms)

text \<open>Client 0 creates, client 1 loads, client 0 completes, client 1 saves its old version.\<close>

definition demo_done :: saga_row where
  "demo_done = save_row [] st_completed 1 101 (instance_row demo_instance)"

lemma demo_saga_run:
  "saga_create demo_saga_sql 7 100 100 ''shop.OrderSaga'' ''o-1'' [] [] =
     (Inr (Success demo_instance []), [instance_row demo_instance])"
  "saga_load demo_saga_sql ''shop.OrderSaga'' ''o-1'' [instance_row demo_instance] =
     (Inr (Success (Some demo_instance) []), [instance_row demo_instance])"
  "snd (saga_save demo_saga_sql 101 demo_instance [] st_completed [instance_row demo_instance]) = [demo_done]"
  "snd (saga_save demo_saga_sql 102 demo_instance [] st_running [demo_done]) = [demo_done]"
  by code_simp+

text \<open>A handler that only sets a signal, in a class no hook of which touches the table.\<close>

definition demo_body :: "bool \<Rightarrow> (saga \<times> saga_row list, unit) eff" where
  "demo_body failed = (\<lambda>(sg, s). (Inr (), if failed then mark_failed sg else mark_complete sg, s))"

definition demo_paid :: event where
  "demo_paid = demo_event IntegrationEvent ''order.paid''"

lemma demo_quiet: "quiet_class (\<lambda>rs. rs) demo_manager (demo_saga_class (demo_body failed))"
  by (auto simp: quiet_class_def row_quiet_def saga_handle_def demo_saga_class_def demo_body_def demo_manager_def
      eret_def)

lemma demo_manager_table: "sm_table demo_manager = demo_saga_sql"
  by (simp add: demo_manager_def)

lemma demo_runs:
  "dispatch_instance demo_manager (demo_saga_class (demo_body False)) demo_paid 101 demo_instance
     [instance_row demo_instance] = (Inr (), [demo_done])"
  "dispatch_instance demo_manager (demo_saga_class (demo_body True)) demo_paid 102 demo_instance
     [demo_done] = (Inr (), [demo_done])"
  by code_simp+

lemma demo_saga_reach:
  "saga_reach demo_saga_sql (\<lambda>rs. rs) ([demo_done], [1 \<mapsto> (False, demo_instance)])"
proof -
  let ?S = "saga_step demo_saga_sql (\<lambda>rs. rs)"
  let ?r = "[instance_row demo_instance]" and ?i = "(False, demo_instance)"
  have a: "?S ([], Map.empty) (?r, [0 \<mapsto> ?i])"
    using saga_step_create [of demo_saga_sql, OF demo_saga_run(1), of "\<lambda>rs. rs" Map.empty 0] by simp
  have b: "?S (?r, [0 \<mapsto> ?i]) (?r, [0 \<mapsto> ?i, 1 \<mapsto> ?i])"
    by (rule saga_step_load [OF demo_saga_run(2)])
  have "?S (?r, [0 \<mapsto> ?i, 1 \<mapsto> ?i]) ([demo_done], [0 \<mapsto> ?i, 1 \<mapsto> ?i](0 := None))"
    by (rule saga_step_dispatch [OF _ demo_manager_table demo_quiet demo_runs(1), where b = False]) simp
  then have c: "?S (?r, [0 \<mapsto> ?i, 1 \<mapsto> ?i]) ([demo_done], [1 \<mapsto> ?i])"
    by (simp add: fun_upd_twist map_upd_eqD1)
  from a b c show ?thesis unfolding saga_reach_def
    by (intro exI [of _ "[]"]) (auto intro: converse_rtranclp_into_rtranclp)
qed

text \<open>The failing dispatch of an outdated instance.\<close>

lemma demo_stale_save:
  "saga_step demo_saga_sql (\<lambda>rs. rs) ([demo_done], [1 \<mapsto> (False, demo_instance)]) ([demo_done], Map.empty)"
  using saga_step_dispatch [of "[1 \<mapsto> (False, demo_instance)]" 1 False demo_instance,
      OF _ demo_manager_table demo_quiet [where failed = True] demo_runs(2)] by simp

text \<open>C6: Whatever any number of managers do with one table of sagas, in any interleaving of their
  loads and creations, the dispatches of events and the runs of timeouts, with any handlers that
  leave the table alone: a saga that has reached a terminal status is never written again, its row
  stays as it is. A dispatch skips a terminal instance, a timeout run only gets instances that were
  running when loaded, and a manager that still holds an older version loses the version check.\<close>

theorem saga_terminal_final:
  assumes "saga_table T rows rest" "saga_reach T rows w" "(saga_step T rows)\<^sup>*\<^sup>* w w'"
    and "r \<in> set (rows (fst w))" "row_terminal r"
  shows "r \<in> set (rows (fst w'))"
  using saga_steps_keep [OF assms(1,3) saga_reach_inv [OF assms(1,2)]] assms(4,5) by blast

lemma saga_terminal_final_witness:
  "demo_done \<in> set (fst ([demo_done], Map.empty :: nat \<rightharpoonup> bool \<times> saga_instance)) \<and>
   sr_status demo_done = ''completed''"
  using saga_terminal_final [OF demo_saga_table demo_saga_reach
      r_into_rtranclp [of "saga_step demo_saga_sql (\<lambda>rs. rs)", OF demo_stale_save], of demo_done]
  by (simp add: row_terminal_def demo_done_def status_defs)

text \<open>C36: In the same use a saga is never lost and its row only moves on: each row of a reachable
  state is found in every later state under its id, class and key, with a version that is not
  lower, and at the same version it is the same row, state and status included. Managers only
  store the statuses running, completed and compensated, never \<open>failed\<close>, and versions that read
  as numbers, and no two rows share a class and key.\<close>

theorem saga_rows_sound:
  assumes "saga_table T rows rest" "saga_reach T rows w" "(saga_step T rows)\<^sup>*\<^sup>* w w'"
  shows "(\<forall>r \<in> set (rows (fst w)). \<exists>r' \<in> set (rows (fst w')).
      sr_id r' = sr_id r \<and> sr_type r' = sr_type r \<and> sr_key r' = sr_key r \<and>
      (\<exists>v v'. sr_version r = str_of_int v \<and> sr_version r' = str_of_int v' \<and> 0 \<le> v \<and> v \<le> v' \<and>
         (v = v' \<longrightarrow> r' = r))) \<and>
    unique_rows saga_clash (rows (fst w')) \<and>
    (\<forall>r \<in> set (rows (fst w')). sr_status r \<in> {st_running, st_completed, st_compensated})"
proof -
  note inv = saga_reach_inv [OF assms(1,2)]
  note k = saga_steps_keep [OF assms(1,3) inv]
  have "\<exists>r' \<in> set (rows (fst w')). sr_id r' = sr_id r \<and> sr_type r' = sr_type r \<and> sr_key r' = sr_key r \<and>
      (\<exists>v v'. sr_version r = str_of_int v \<and> sr_version r' = str_of_int v' \<and> 0 \<le> v \<and> v \<le> v' \<and>
         (v = v' \<longrightarrow> r' = r))" if r: "r \<in> set (rows (fst w))" for r
  proof -
    from k r obtain r' where r': "r' \<in> set (rows (fst w'))" "row_moves r r'" by blast
    from inv r obtain v where v: "0 \<le> v" "sr_version r = str_of_int v"
      by (auto simp: saga_inv_def saga_row_ok_def)
    from r'(2) v obtain v' where "sr_version r' = str_of_int v'" "v \<le> v'" "v = v' \<longrightarrow> r' = r"
      by (auto simp: row_moves_def str_of_int_inj)
    with r' v show ?thesis unfolding row_moves_def by blast
  qed
  then show ?thesis using k by (auto simp: saga_inv_def saga_row_ok_def manager_statuses_def)
qed

lemma saga_rows_sound_witness:
  "sr_status demo_done \<in> {st_running, st_completed, st_compensated} \<and> sr_version demo_done = ''1''"
proof -
  have "sr_version demo_done = ''1''" by code_simp
  with saga_rows_sound [OF demo_saga_table demo_saga_reach
      r_into_rtranclp [of "saga_step demo_saga_sql (\<lambda>rs. rs)", OF demo_stale_save]]
  show ?thesis by simp
qed

lemma save_up:
  assumes "sql_up T rows saga_clash rest"
  shows "\<exists>x j s'. saga_save T now i d status s = (Inr (x, j), s') \<and>
    rows s' = saved_rows i d status now (rows s)"
proof -
  have "keeps_keys saga_clash (\<lambda>r. sr_id r = si_id i \<and> sr_version r = str_of_int (si_version i))
      (save_row d status (si_version i + 1) now)"
    by (simp add: keeps_keys_def saga_clash_def)
  then obtain n s' where "sql_update T (\<lambda>r. sr_id r = si_id i \<and> sr_version r = str_of_int (si_version i))
      (save_row d status (si_version i + 1) now) s = (Inr n, s')"
    using sql_up.update_up [OF assms] by blast
  moreover from sql_table.update_ok [OF sql_up.axioms(1) [OF assms] this]
  have "rows s' = saved_rows i d status now (rows s)" by (simp add: saved_rows_def)
  ultimately show ?thesis by (simp add: saga_save_def ebind_def)
qed

lemma dispatch_settles:
  assumes "sql_up (sm_table m) rows saga_clash rest" "tame rows (saga_handle cls ev)"
    "tame rows (sg_compensate cls)" "quiet_sleep rows m" "\<not> is_terminal i"
    "hydrate cls (si_state i) = Inr sg" "saga_handle cls ev (sg, s) = (x, (sg1, s1))"
  shows "\<exists>sg2 s2 s'. dispatch_instance m cls ev now i s = (Inr (), s') \<and>
    (if handler_bad x sg1 then saga_compensate m cls (sg1, s1) = (Inr (), (sg2, s2))
     else (sg2, s2) = (sg1, s1)) \<and>
    rows s' = saved_rows i (so_state sg2) (dispatch_status x sg1) now (rows s)"
proof -
  obtain sg2 s2 where r: "run_handler m cls ev (sg, s) = (Inr (dispatch_status x sg1), (sg2, s2))"
    "rows s2 = rows s" and c: "if handler_bad x sg1 then saga_compensate m cls (sg1, s1) = (Inr (), (sg2, s2))
     else (sg2, s2) = (sg1, s1)"
    using run_handler_outcome [OF assms(2-4,7)] by fastforce
  obtain y j s' where s': "saga_save (sm_table m) now i (so_state sg2) (dispatch_status x sg1) s2 = (Inr (y, j), s')"
    "rows s' = saved_rows i (so_state sg2) (dispatch_status x sg1) now (rows s2)"
    using save_up [OF assms(1)] by blast
  have "dispatch_instance m cls ev now i s = (Inr (), s')"
    using assms(5,6) r(1) s'(1) by (simp add: dispatch_instance_def run_and_save_def ebind_def)
  with c r(2) s'(2) show ?thesis by (intro exI [of _ sg2] exI [of _ s2] exI [of _ s']) simp
qed


lemma demo_dispatch:
  "sql_up (sm_table demo_manager) (\<lambda>rs. rs) saga_clash (\<lambda>_. ())"
  "tame (\<lambda>rs. rs) (saga_handle (demo_saga_class (demo_body failed)) demo_paid)"
  "tame (\<lambda>rs. rs) (sg_compensate (demo_saga_class (demo_body failed)))"
  "quiet_sleep (\<lambda>rs. rs) demo_manager" "\<not> is_terminal demo_instance"
  "hydrate (demo_saga_class (demo_body failed)) (si_state demo_instance) =
     Inr \<lparr>so_state = [], so_completed = False, so_failed = False\<rparr>"
  "saga_handle (demo_saga_class (demo_body False)) demo_paid
     (\<lparr>so_state = [], so_completed = False, so_failed = False\<rparr>, s) =
     (Inr (), \<lparr>so_state = [], so_completed = True, so_failed = False\<rparr>, s)"
  by (simp_all add: demo_manager_def demo_saga_up tame_def saga_handle_def demo_saga_class_def
      demo_body_def quiet_sleep_def eret_def demo_instance_def new_instance_def is_terminal_def
      status_defs hydrate_def demo_paid_def demo_event_def mark_complete_def split: prod.splits)


text \<open>A dispatch whose instance was modified in the meantime ends like one that was stored:
  the handler has run and the dispatch returns normally, but no row changes. The failed result of
  \<open>save\<close> is dropped by the manager, so nothing reloads the instance and retries.\<close>

theorem saga_conflict_ignored:
  assumes "sql_up (sm_table m) rows saga_clash rest" "tame rows (saga_handle cls ev)"
    "tame rows (sg_compensate cls)" "quiet_sleep rows m" "\<not> is_terminal i"
    "hydrate cls (si_state i) = Inr sg" "saga_handle cls ev (sg, s) = (x, (sg1, s1))"
    "\<And>r. r \<in> set (rows s) \<Longrightarrow> sr_id r = si_id i \<Longrightarrow> sr_version r \<noteq> str_of_int (si_version i)"
  shows "\<exists>s'. dispatch_instance m cls ev now i s = (Inr (), s') \<and> rows s' = rows s"
proof -
  have "saved_rows i d status now (rows s) = rows s" for d status
    unfolding saved_rows_def using assms(8) by (intro map_idI) auto
  then show ?thesis using dispatch_settles [OF assms(1-7), of now] by metis
qed

lemma saga_conflict_ignored_witness:
  "dispatch_instance demo_manager (demo_saga_class (demo_body False)) demo_paid 102 demo_instance
     [demo_done] = (Inr (), [demo_done])"
proof -
  have "sr_version demo_done \<noteq> str_of_int (si_version demo_instance)" by code_simp
  with saga_conflict_ignored [OF demo_dispatch(1-6) demo_dispatch(7) [of "[demo_done]"], of 102] show ?thesis by auto
qed

text \<open>A timeout handler that marks its saga failed, without raising, leaves it stored as
  compensated though no compensation ran: the save follows the handler at once.\<close>

theorem saga_timeout_uncompensated:
  assumes "sql_up (sm_table m) rows saga_clash rest" "sg_timeout_handler cls = Some hook"
    "hydrate cls (si_state i) = Inr sg" "hook (sg, s) = (Inr (), (sg1, s1))"
    "so_failed sg1" "\<not> so_completed sg1"
  shows "\<exists>y s'. run_timeout m cls now i s = (Inr (), s') \<and>
    saga_save (sm_table m) now i (so_state sg1) st_compensated s1 = (Inr y, s') \<and>
    rows s' = saved_rows i (so_state sg1) st_compensated now (rows s1)"
proof -
  obtain y j s' where s': "saga_save (sm_table m) now i (so_state sg1) st_compensated s1 = (Inr (y, j), s')"
    "rows s' = saved_rows i (so_state sg1) st_compensated now (rows s1)"
    using save_up [OF assms(1)] by blast
  then have "run_timeout m cls now i s = (Inr (), s')"
    using assms(2-6)
    by (simp add: run_timeout_def run_and_save_def run_timeout_handler_def etry_def ebind_def)
  with s' show ?thesis by blast
qed

lemma saga_timeout_uncompensated_witness:
  "\<exists>s'. run_timeout demo_manager (demo_saga_class (demo_body True)) 200 demo_instance
      [instance_row demo_instance] = (Inr (), s') \<and> map sr_status s' = [''compensated'']"
proof -
  have "demo_body True (\<lparr>so_state = [], so_completed = False, so_failed = False\<rparr>, s) =
      (Inr (), \<lparr>so_state = [], so_completed = False, so_failed = True\<rparr>, s)" for s
    by (simp add: demo_body_def mark_failed_def)
  moreover have "sg_timeout_handler (demo_saga_class (demo_body True)) = Some (demo_body True)"
    by (simp add: demo_saga_class_def)
  moreover have "map sr_status (saved_rows demo_instance [] st_compensated 200 [instance_row demo_instance]) =
      [''compensated'']"
    by code_simp
  ultimately show ?thesis
    using saga_timeout_uncompensated [OF demo_dispatch(1) _ demo_dispatch(6) [of True], of "demo_body True"
        "[instance_row demo_instance]" "\<lparr>so_state = [], so_completed = False, so_failed = True\<rparr>"
        "[instance_row demo_instance]" 200]
    by auto
qed

text \<open>\<open>runs\<close> counts calls of the hook and \<open>sleeps\<close> counts pauses.\<close>

definition counted ::
  "(saga \<times> 's \<Rightarrow> nat) \<Rightarrow> (saga \<times> 's \<Rightarrow> nat) \<Rightarrow> 's saga_manager \<Rightarrow> 's saga_hook \<Rightarrow> bool" where
  "counted runs sleeps m hook \<longleftrightarrow>
     (\<forall>st. runs (snd (hook st)) = Suc (runs st) \<and> sleeps (snd (hook st)) = sleeps st) \<and>
     (\<forall>d st. \<exists>st'. on_snd (sm_sleep m d) st = (Inr (), st') \<and>
        runs st' = runs st \<and> sleeps st' = Suc (sleeps st))"

definition always_fails :: "'s saga_hook \<Rightarrow> bool" where
  "always_fails hook \<longleftrightarrow> (\<forall>st. \<exists>e. fst (hook st) = Inl e \<and> is_exception e)"

lemma compensate_counts:
  assumes c: "counted runs sleeps m hook" and "left \<le> sm_max_attempts m"
    and "compensate_with_retry m hook left st = (x, st')"
  shows "runs st' \<le> runs st + left \<and> sleeps st' \<le> sleeps st + (left - 1) \<and>
    (always_fails hook \<longrightarrow> x = Inr () \<and> runs st' = runs st + left \<and> sleeps st' = sleeps st + (left - 1))"
  using assms(2,3)
proof (induction left arbitrary: st)
  case (Suc left)
  let ?k = "sm_max_attempts m - Suc left"
  obtain y st1 where h: "hook st = (y, st1)" by (rule prod.exhaust)
  with c have n: "runs st1 = Suc (runs st)" "sleeps st1 = sleeps st"
    by (metis counted_def snd_conv)+
  show ?case
  proof (cases "\<exists>e. y = Inl e \<and> is_exception e")
    case False
    then have "\<not> always_fails hook" using h unfolding always_fails_def by (metis fst_conv)
    moreover have "st' = st1" using Suc.prems(2) h False by (cases y) auto
    ultimately show ?thesis using n by simp
  next
    case True
    obtain st2 where sl: "on_snd (sm_sleep m (sm_base_delay m * 2 ^ ?k + sm_jitter m)) st1 = (Inr (), st2)"
      "runs st2 = runs st1" "sleeps st2 = Suc (sleeps st1)" using c unfolding counted_def by blast
    show ?thesis
    proof (cases "left = 0")
      case False
      then have "?k < sm_max_attempts m - 1" using Suc.prems(1) by arith
      with Suc.prems h True sl have "compensate_with_retry m hook left st2 = (x, st')"
        by (auto simp: Let_def ebind_def)
      with Suc.IH [of st2] Suc.prems(1) n sl False show ?thesis by auto
    qed (use Suc.prems h True n in \<open>auto simp: Let_def ebind_def\<close>)
  qed
qed simp

text \<open>Compensation is attempted at most \<open>compensate_max_attempts\<close> times with a pause between
  two attempts only, and a compensation that fails every time is attempted exactly that often and
  then given up without an error.\<close>

theorem compensation_bounded:
  assumes "counted runs sleeps m (sg_compensate cls)" "saga_compensate m cls st = (x, st')"
  shows "runs st' \<le> runs st + sm_max_attempts m \<and>
    sleeps st' \<le> sleeps st + (sm_max_attempts m - 1) \<and>
    (always_fails (sg_compensate cls) \<longrightarrow> x = Inr () \<and> runs st' = runs st + sm_max_attempts m \<and>
       sleeps st' = sleeps st + (sm_max_attempts m - 1))"
  using compensate_counts [OF assms(1) order_refl] assms(2) by (simp add: saga_compensate_def)

text \<open>A manager on a state that counts, with a compensation that never succeeds.\<close>

definition demo_counter_manager :: "(nat \<times> nat) saga_manager" where
  "demo_counter_manager =
     \<lparr>sm_table = list_sql (\<lambda>_. []) (\<lambda>_ s. s) saga_clash, sm_registrations = [], sm_lock = None,
      sm_max_attempts = 3, sm_base_delay = 1 / 10, sm_sleep = (\<lambda>d (a, b). (Inr (), (a, Suc b))), sm_jitter = 0\<rparr>"

definition demo_counter_class :: "(nat \<times> nat) saga_class" where
  "demo_counter_class =
     \<lparr>sg_key = ''shop.OrderSaga'', sg_handlers = [], sg_timeout_handler = None, sg_timeout_after = None,
      sg_initial = [], sg_validate = Inr,
      sg_compensate = (\<lambda>(sg, a, b). (Inl (PyException ''RuntimeError'' ''down''), (sg, Suc a, b)))\<rparr>"

lemma compensation_bounded_witness:
  "\<exists>sg. saga_compensate demo_counter_manager demo_counter_class
     (\<lparr>so_state = [], so_completed = False, so_failed = False\<rparr>, 0, 0) = (Inr (), (sg, 3, 2))"
proof -
  let ?sg = "\<lparr>so_state = [], so_completed = False, so_failed = False\<rparr>"
  have c: "counted (fst \<circ> snd) (snd \<circ> snd) demo_counter_manager (sg_compensate demo_counter_class)"
    by (auto simp: counted_def demo_counter_manager_def demo_counter_class_def on_snd_def split: prod.splits)
  have f: "always_fails (sg_compensate demo_counter_class)"
    by (auto simp: always_fails_def demo_counter_class_def)
  obtain x sg a b where r: "saga_compensate demo_counter_manager demo_counter_class (?sg, 0, 0) = (x, (sg, a, b))"
    by (metis prod.exhaust)
  from compensation_bounded [OF c r] f r show ?thesis by (simp add: demo_counter_manager_def)
qed

end
