(* ===== verification/Qx_Events.thy ===== *)
theory Qx_Events
  imports Qx_Uow
begin

text \<open>
  The package \<open>qx-events\<close>: the registry of integration events (\<open>registry\<close>), the NATS publisher
  and consumer (\<open>nats\<close>) and the outbox relay (\<open>outbox_relay\<close>), with many relays on one outbox
  as an inductive step relation. JetStream, PostgreSQL's \<open>HASHTEXT\<close>, pydantic and the leader lock
  are arguments.
\<close>

section \<open>The registry\<close>

text \<open>An event class: \<open>ec_validate\<close> is \<open>model_validate\<close> of pydantic.\<close>

record event_class =
  ec_name :: string
  ec_event_name :: string
  ec_event_version :: int
  ec_validate :: "dict \<Rightarrow> exn + event"

type_synonym event_registry = "((string \<times> int) \<times> event_class) list"

definition registry_register ::
  "event_class \<Rightarrow> event_registry \<Rightarrow> exn + event_registry" where
  "registry_register cls reg =
     (if ec_event_name cls = []
      then Inl (PyException ''ValueError'' (ec_name cls @ '' has no event_name; cannot register''))
      else let key = (ec_event_name cls, ec_event_version cls)
           in case map_of reg key of
                Some existing \<Rightarrow>
                  (if ec_name existing \<noteq> ec_name cls
                   then Inl (PyException ''ValueError'' (''event_name already registered to '' @ ec_name existing))
                   else Inr (AList.update key cls reg))
              | None \<Rightarrow> Inr (AList.update key cls reg))"

definition not_registered :: "string \<Rightarrow> int \<Rightarrow> exn" where
  "not_registered name version =
     PyException ''EventTypeNotRegistered'' (''No event registered for '' @ name @ '' v'' @ str_of_int version)"

definition registry_lookup :: "event_registry \<Rightarrow> string \<Rightarrow> int \<Rightarrow> exn + event_class" where
  "registry_lookup reg name version =
     (case map_of reg (name, version) of
        Some cls \<Rightarrow> Inr cls | None \<Rightarrow> Inl (not_registered name version))"

definition registry_len :: "event_registry \<Rightarrow> nat" where
  "registry_len reg = length reg"

text \<open>\<open>string_le\<close> is the order of strings by code points.\<close>

fun string_le :: "string \<Rightarrow> string \<Rightarrow> bool" where
  "string_le [] t = True"
| "string_le (c # s) [] = False"
| "string_le (c # s) (d # t) =
     ((of_char c :: nat) < of_char d \<or> (of_char c :: nat) = of_char d \<and> string_le s t)"

definition known_event_names :: "event_registry \<Rightarrow> string list" where
  "known_event_names reg = order_rows string_le (remdups (map (fst \<circ> fst) reg))"

section \<open>NATS\<close>

text \<open>The bytes of a message: JSON, or something that is not.\<close>

datatype wire = Wire json | Bytes string

definition wire_loads :: "wire \<Rightarrow> exn + json" where
  "wire_loads w = (case w of Wire j \<Rightarrow> Inr j | Bytes s \<Rightarrow> Inl (PyException ''JSONDecodeError'' s))"

type_synonym headers = "(string \<times> string) list"

record 'b publisher =
  pb_publish :: "string \<Rightarrow> wire \<Rightarrow> headers \<Rightarrow> ('b, unit) eff"
  pb_prefix :: string

definition nats_subject :: "'b publisher \<Rightarrow> string \<Rightarrow> string" where
  "nats_subject p event_name = pb_prefix p @ ''.'' @ event_name"

definition uuid_header :: "string \<Rightarrow> uuid option \<Rightarrow> headers" where
  "uuid_header name u = (case u of None \<Rightarrow> [] | Some x \<Rightarrow> [(name, str_of_uuid x)])"

definition nats_publish :: "(instant \<Rightarrow> string) \<Rightarrow> 'b publisher \<Rightarrow> event \<Rightarrow> ('b, unit) eff" where
  "nats_publish iso_fmt p ev =
     ebind (elift (event_envelope iso_fmt ev)) (\<lambda>envelope.
     pb_publish p (nats_subject p (ev_name ev)) (Wire (JObj envelope))
       ([(''qx.event_name'', ev_name ev), (''qx.event_version'', str_of_int (ev_version ev)),
         (''qx.event_id'', str_of_uuid (ev_id ev))]
        @ uuid_header ''qx.correlation_id'' (ev_correlation_id ev)
        @ uuid_header ''qx.tenant_id'' (ev_tenant_id ev)))"

definition publish_raw :: "'b publisher \<Rightarrow> string \<Rightarrow> dict \<Rightarrow> headers \<Rightarrow> ('b, unit) eff" where
  "publish_raw p event_name envelope hdrs =
     pb_publish p (nats_subject p event_name) (Wire (JObj envelope))
       (case map_of hdrs ''qx.event_name'' of
          None \<Rightarrow> hdrs @ [(''qx.event_name'', event_name)] | Some v \<Rightarrow> hdrs)"

text \<open>A received message, with what the client library exposes of it.\<close>

record nats_msg =
  nm_data :: wire
  nm_headers :: "headers option"
  nm_subject :: "string option"
  nm_num_delivered :: "nat option"

definition msg_header :: "nats_msg \<Rightarrow> string \<Rightarrow> string option" where
  "msg_header msg name = map_of (get_or (nm_headers msg) []) name"

text \<open>\<open>int\<close> of a JSON value.\<close>

definition json_int :: "json \<Rightarrow> exn + int" where
  "json_int j = (case j of
     JInt n \<Rightarrow> Inr n
   | JBool b \<Rightarrow> Inr (if b then 1 else 0)
   | JFloat q \<Rightarrow> Inr (if 0 \<le> q then \<lfloor>q\<rfloor> else \<lceil>q\<rceil>)
   | JStr s \<Rightarrow> (case py_int s of Some n \<Rightarrow> Inr n | None \<Rightarrow> Inl (PyException ''ValueError'' s))
   | _ \<Rightarrow> Inl (PyException ''TypeError'' ''int() argument''))"

definition json_or_null :: "dict \<Rightarrow> string \<Rightarrow> json" where
  "json_or_null d k = get_or (map_of d k) JNull"

text \<open>The dict display \<open>{**payload, ...}\<close>: the named entries win.\<close>

definition event_fields :: "dict \<Rightarrow> dict \<Rightarrow> dict" where
  "event_fields payload envelope =
     fold (\<lambda>k d. AList.update k (json_or_null envelope k) d)
       [''event_id'', ''occurred_at'', ''correlation_id'', ''causation_id'', ''tenant_id'', ''actor_id'']
       payload"

text \<open>The name the envelope or the header gives; a name that is no string is in no registry.\<close>

definition envelope_name :: "nats_msg \<Rightarrow> dict \<Rightarrow> json" where
  "envelope_name msg envelope =
     (let name = json_or_null envelope ''event_name''
      in if json_truthy name then name
         else JStr (get_or (msg_header msg ''qx.event_name'') []))"

definition lookup_json :: "event_registry \<Rightarrow> json \<Rightarrow> int \<Rightarrow> exn + event_class" where
  "lookup_json reg name version = (case name of
     JStr s \<Rightarrow> registry_lookup reg s version
   | JList l \<Rightarrow> Inl (PyException ''TypeError'' ''unhashable type'')
   | JObj d \<Rightarrow> Inl (PyException ''TypeError'' ''unhashable type'')
   | _ \<Rightarrow> Inl (not_registered ''?'' version))"

definition parse_message :: "event_registry \<Rightarrow> nats_msg \<Rightarrow> exn + event" where
  "parse_message reg msg =
     (case wire_loads (nm_data msg) of
        Inl e \<Rightarrow> Inl e
      | Inr (JObj envelope) \<Rightarrow>
          (case json_int (get_or (map_of envelope ''event_version'') (JInt 1)) of
             Inl e \<Rightarrow> Inl e
           | Inr version \<Rightarrow>
               (case lookup_json reg (envelope_name msg envelope) version of
                  Inl e \<Rightarrow> Inl e
                | Inr cls \<Rightarrow>
                    (case get_or (map_of envelope ''payload'') (JObj []) of
                       JObj payload \<Rightarrow> ec_validate cls (event_fields payload envelope)
                     | _ \<Rightarrow> Inl (PyException ''TypeError'' ''argument after ** must be a mapping''))))
      | Inr _ \<Rightarrow> Inl (PyException ''AttributeError'' ''get''))"

text \<open>The consumer: \<open>cn_info\<close> is the server's answer to \<open>consumer_info\<close>, once connected.\<close>

record consumer =
  cn_registry :: event_registry
  cn_stream :: string
  cn_durable :: string
  cn_subject_filter :: string
  cn_max_deliver :: nat
  cn_ack_wait :: nat
  cn_connected :: bool

definition num_pending :: "consumer \<Rightarrow> ('b, int) eff \<Rightarrow> ('b, int option) eff" where
  "num_pending cn info =
     (if \<not> cn_connected cn then eret None
      else etry (ebind info (\<lambda>n. eret (Some n))) (\<lambda>e. eret None))"

text \<open>\<open>consumer_config\<close> lists what \<open>_ensure_consumer\<close> asks the server for; \<open>add\<close> and
  \<open>subscribe\<close> are the two calls.\<close>

record consumer_config =
  cc_durable_name :: string
  cc_filter_subject :: string
  cc_ack_explicit :: bool
  cc_deliver_all :: bool
  cc_max_deliver :: nat
  cc_ack_wait :: nat

definition consumer_config_of :: "consumer \<Rightarrow> consumer_config" where
  "consumer_config_of cn =
     \<lparr>cc_durable_name = cn_durable cn, cc_filter_subject = cn_subject_filter cn, cc_ack_explicit = True,
      cc_deliver_all = True, cc_max_deliver = cn_max_deliver cn, cc_ack_wait = cn_ack_wait cn\<rparr>"

definition ensure_consumer ::
  "(string \<Rightarrow> consumer_config \<Rightarrow> ('b, unit) eff) \<Rightarrow> (string \<Rightarrow> string \<Rightarrow> string \<Rightarrow> ('b, 'sub) eff)
     \<Rightarrow> (consumer \<times> 'b, 'sub) eff" where
  "ensure_consumer add subscribe st =
     ebind (on_fst (emodify (\<lambda>cn. cn\<lparr>cn_connected := True\<rparr>))) (\<lambda>_.
     ebind (on_snd (add (cn_stream (fst st)) (consumer_config_of (fst st)))) (\<lambda>_.
       on_snd (subscribe (cn_subject_filter (fst st)) (cn_durable (fst st)) (cn_stream (fst st))))) st"

definition consumer_messages ::
  "(string \<Rightarrow> consumer_config \<Rightarrow> ('b, unit) eff) \<Rightarrow> (string \<Rightarrow> string \<Rightarrow> string \<Rightarrow> ('b, 'sub) eff)
     \<Rightarrow> ('sub \<Rightarrow> ('b, unit) eff) \<Rightarrow> ('sub \<Rightarrow> (consumer \<times> 'b, 'a) eff) \<Rightarrow> (consumer \<times> 'b, 'a) eff" where
  "consumer_messages add subscribe unsubscribe body =
     ebind (ensure_consumer add subscribe) (\<lambda>sub. efinally (body sub) (on_snd (unsubscribe sub)))"

section \<open>The outbox relay\<close>

text \<open>
  The database and the broker are one state. \<open>rl_locked\<close> tells which rows other transactions
  hold locks on (\<open>SKIP LOCKED\<close>), \<open>rl_commit\<close> whether the commit fails, \<open>rl_wait\<close> is
  \<open>wait_for(stop.wait(), t)\<close>, and the flag beside the state is the stop event. A loop that has not
  ended within the passes given to it is \<open>None\<close>.
\<close>

type_synonym ('d, 'b) relay_state = "('d \<times> 'b) \<times> bool"

type_synonym 's passes = "'s \<Rightarrow> ((exn + unit) \<times> 's) option"

record ('d, 'b) relay =
  rl_table :: "('d, outbox_row) sql"
  rl_publisher :: "'b publisher"
  rl_shard_id :: int
  rl_shard_count :: int
  rl_batch :: nat
  rl_poll :: rat
  rl_idle_poll :: rat
  rl_max_attempts :: int
  rl_hashtext :: "string \<Rightarrow> int"
  rl_locked :: "'d \<Rightarrow> uuid \<Rightarrow> bool"
  rl_now :: "'d \<times> 'b \<Rightarrow> instant"
  rl_commit :: "'d \<Rightarrow> exn option"
  rl_wait :: "rat \<Rightarrow> (('d, 'b) relay_state, unit) eff"
  rl_lock :: "((bool \<Rightarrow> ('d, 'b) relay_state passes) \<Rightarrow> ('d, 'b) relay_state passes) option"

definition relay_init :: "('d, 'b) relay \<Rightarrow> exn + ('d, 'b) relay" where
  "relay_init rl =
     (if rl_shard_count rl < 1
      then Inl (PyException ''ValueError'' (''shard_count must be >= 1, got '' @ str_of_int (rl_shard_count rl)))
      else if \<not> (0 \<le> rl_shard_id rl \<and> rl_shard_id rl < rl_shard_count rl)
      then Inl (PyException ''ValueError'' (''shard_id must be in [0, shard_count), got shard_id='' @
        str_of_int (rl_shard_id rl) @ '', shard_count='' @ str_of_int (rl_shard_count rl)))
      else Inr rl)"

definition shard_clause :: "('d, 'b) relay \<Rightarrow> outbox_row \<Rightarrow> bool" where
  "shard_clause rl r \<longleftrightarrow> rl_shard_count rl = 1 \<or>
     \<bar>rl_hashtext rl (str_of_uuid (ob_id r))\<bar> mod rl_shard_count rl = rl_shard_id rl"

definition row_pending :: "('d, 'b) relay \<Rightarrow> outbox_row \<Rightarrow> bool" where
  "row_pending rl r \<longleftrightarrow> ob_published_at r = None \<and> ob_attempts r < rl_max_attempts rl \<and> shard_clause rl r"

definition relay_select :: "('d, 'b) relay \<Rightarrow> ('d, outbox_row list) eff" where
  "relay_select rl d =
     sql_select (rl_table rl) (\<lambda>r. row_pending rl r \<and> \<not> rl_locked rl d (ob_id r)) (\<lambda>r. (ob_occurred_at r, 0))
       (Some (rl_batch rl)) d"

definition row_headers :: "outbox_row \<Rightarrow> headers" where
  "row_headers r = [(''qx.event_name'', ob_event_name r)]
     @ uuid_header ''qx.correlation_id'' (ob_correlation_id r)
     @ uuid_header ''qx.tenant_id'' (ob_tenant_id r)"

text \<open>\<open>None\<close> when the row was published, else the text of the error.\<close>

definition relay_attempt :: "('d, 'b) relay \<Rightarrow> outbox_row \<Rightarrow> ('b, string option) eff" where
  "relay_attempt rl r =
     etry (ebind (publish_raw (rl_publisher rl) (ob_event_name r) (ob_payload r) (row_headers r))
             (\<lambda>_. eret None))
       (\<lambda>e. eret (Some (exn_class e @ '': '' @ exn_str e)))"

fun publish_rows ::
  "('d, 'b) relay \<Rightarrow> outbox_row list \<Rightarrow> ('b, uuid list \<times> (uuid \<times> string) list) eff" where
  "publish_rows rl [] = eret ([], [])"
| "publish_rows rl (r # rs) =
     ebind (relay_attempt rl r) (\<lambda>out. ebind (publish_rows rl rs) (\<lambda>(ok, bad).
       eret (case out of
               None \<Rightarrow> (ob_id r # ok, bad)
             | Some err \<Rightarrow> (ok, (ob_id r, err) # bad))))"

definition mark_published :: "instant \<Rightarrow> outbox_row \<Rightarrow> outbox_row" where
  "mark_published now r = r\<lparr>ob_published_at := Some now\<rparr>"

definition mark_failed_attempt :: "string \<Rightarrow> outbox_row \<Rightarrow> outbox_row" where
  "mark_failed_attempt err r = r\<lparr>ob_attempts := ob_attempts r + 1, ob_last_error := Some (take 2000 err)\<rparr>"

definition record_failure :: "('d, 'b) relay \<Rightarrow> uuid \<times> string \<Rightarrow> ('d, unit) eff" where
  "record_failure rl f =
     ebind (sql_update (rl_table rl) (\<lambda>r. ob_id r = fst f) (mark_failed_attempt (snd f))) (\<lambda>_. eret ())"

definition relay_mark ::
  "('d, 'b) relay \<Rightarrow> instant \<Rightarrow> uuid list \<Rightarrow> (uuid \<times> string) list \<Rightarrow> ('d, unit) eff" where
  "relay_mark rl now ok bad =
     ebind (if ok = [] then eret 0
            else sql_update (rl_table rl) (\<lambda>r. ob_id r \<in> set ok) (mark_published now)) (\<lambda>_.
       efold (record_failure rl) bad)"

definition process_one_batch :: "('d, 'b) relay \<Rightarrow> ('d \<times> 'b, nat) eff" where
  "process_one_batch rl =
     engine_begin (rl_commit rl)
       (ebind (on_fst (relay_select rl)) (\<lambda>rows.
          if rows = [] then eret 0
          else ebind (on_snd (publish_rows rl rows)) (\<lambda>(ok, bad) st.
            ebind (on_fst (relay_mark rl (rl_now rl st) ok bad)) (\<lambda>_. eret (length ok)) st)))"

definition relay_stop :: "(('d, 'b) relay_state, unit) eff" where
  "relay_stop = on_snd (emodify (\<lambda>_. True))"

definition relay_sleep :: "('d, 'b) relay \<Rightarrow> rat \<Rightarrow> (('d, 'b) relay_state, unit) eff" where
  "relay_sleep rl seconds =
     etry (rl_wait rl seconds) (\<lambda>e. if exn_class e = ''TimeoutError'' then eret () else eraise e)"

fun drain_loop :: "('d, 'b) relay \<Rightarrow> nat \<Rightarrow> ('d, 'b) relay_state passes" where
  "drain_loop rl 0 w = None"
| "drain_loop rl (Suc n) w =
     (if snd w then Some (Inr (), w)
      else case ebind (on_fst (process_one_batch rl)) (\<lambda>published.
               relay_sleep rl (if published = 0 then rl_idle_poll rl else rl_poll rl)) w of
             (Inl e, w') \<Rightarrow> Some (Inl e, w')
           | (Inr u, w') \<Rightarrow> drain_loop rl n w')"

definition relay_once :: "('d, 'b) relay \<Rightarrow> nat \<Rightarrow> ('d, 'b) relay_state passes" where
  "relay_once rl n =
     (case rl_lock rl of
        None \<Rightarrow> drain_loop rl n
      | Some acquired \<Rightarrow>
          acquired (\<lambda>got. if \<not> got then Some \<circ> relay_sleep rl 2 else drain_loop rl n))"

fun relay_run :: "('d, 'b) relay \<Rightarrow> nat \<Rightarrow> ('d, 'b) relay_state passes" where
  "relay_run rl 0 w = None"
| "relay_run rl (Suc n) w =
     (if snd w then Some (Inr (), w)
      else case relay_once rl n w of
             None \<Rightarrow> None
           | Some (Inr u, w') \<Rightarrow> relay_run rl n w'
           | Some (Inl e, w') \<Rightarrow>
               (if \<not> is_exception e then Some (Inl e, w')
                else case relay_sleep rl 2 w' of
                       (Inl e', w'') \<Rightarrow> Some (Inl e', w'')
                     | (Inr u, w'') \<Rightarrow> relay_run rl n w''))"

section \<open>Many relays on one outbox\<close>

text \<open>What relay \<open>k\<close> is doing: the rows it still has to publish and its two lists.\<close>

record claimed =
  cl_todo :: "outbox_row list"
  cl_ok :: "uuid list"
  cl_bad :: "(uuid \<times> string) list"

definition claim_ids :: "claimed \<Rightarrow> uuid set" where
  "claim_ids c = set (map ob_id (cl_todo c)) \<union> set (cl_ok c) \<union> fst ` set (cl_bad c)"

record ('d, 'b) relay_world =
  rw_db :: 'd
  rw_broker :: 'b
  rw_held :: "nat \<rightharpoonup> claimed"

text \<open>A transaction locks the rows it selected until it ends, so relay \<open>k\<close> skips them.\<close>

definition held_ids :: "(nat \<rightharpoonup> claimed) \<Rightarrow> uuid \<Rightarrow> bool" where
  "held_ids h u \<longleftrightarrow> (\<exists>k c. h k = Some c \<and> u \<in> claim_ids c)"

inductive relay_step ::
  "(nat \<Rightarrow> ('d, 'b) relay) \<Rightarrow> ('d, 'b) relay_world \<Rightarrow> ('d, 'b) relay_world \<Rightarrow> bool"
  for relays where
  relay_claim: "rw_held w k = None \<Longrightarrow>
    relay_select ((relays k)\<lparr>rl_locked := \<lambda>_. held_ids (rw_held w)\<rparr>) (rw_db w) = (Inr rs, d) \<Longrightarrow>
    relay_step relays w (w\<lparr>rw_db := d,
      rw_held := (rw_held w)(k \<mapsto> \<lparr>cl_todo = rs, cl_ok = [], cl_bad = []\<rparr>)\<rparr>)"
| relay_sent: "rw_held w k = Some \<lparr>cl_todo = r # rs, cl_ok = ok, cl_bad = bad\<rparr> \<Longrightarrow>
    relay_attempt (relays k) r (rw_broker w) = (Inr None, b) \<Longrightarrow>
    relay_step relays w (w\<lparr>rw_broker := b,
      rw_held := (rw_held w)(k \<mapsto> \<lparr>cl_todo = rs, cl_ok = ok @ [ob_id r], cl_bad = bad\<rparr>)\<rparr>)"
| relay_refused: "rw_held w k = Some \<lparr>cl_todo = r # rs, cl_ok = ok, cl_bad = bad\<rparr> \<Longrightarrow>
    relay_attempt (relays k) r (rw_broker w) = (Inr (Some err), b) \<Longrightarrow>
    relay_step relays w (w\<lparr>rw_broker := b,
      rw_held := (rw_held w)(k \<mapsto> \<lparr>cl_todo = rs, cl_ok = ok, cl_bad = bad @ [(ob_id r, err)]\<rparr>)\<rparr>)"
| relay_commit: "rw_held w k = Some \<lparr>cl_todo = [], cl_ok = ok, cl_bad = bad\<rparr> \<Longrightarrow>
    relay_mark (relays k) now ok bad (rw_db w) = (Inr (), d) \<Longrightarrow>
    relay_step relays w (w\<lparr>rw_db := d, rw_held := (rw_held w)(k := None)\<rparr>)"
| relay_lost: "relay_step relays w (w\<lparr>rw_held := (rw_held w)(k := None)\<rparr>)"
| relay_recorded: "outbox_record (rl_table (relays k)) iso_fmt fresh session evs (rw_db w) = (Inr (), d) \<Longrightarrow>
    relay_step relays w (w\<lparr>rw_db := d\<rparr>)"

text \<open>The message of a row; a publisher stores what it acknowledges and forgets nothing.\<close>

type_synonym bus_message = "string \<times> wire \<times> headers"

definition row_message :: "'b publisher \<Rightarrow> outbox_row \<Rightarrow> bus_message" where
  "row_message p r = (nats_subject p (ob_event_name r), Wire (JObj (ob_payload r)), row_headers r)"

lemma publish_row:
  "publish_raw p (ob_event_name r) (ob_payload r) (row_headers r) =
     (case row_message p r of (s, d, h) \<Rightarrow> pb_publish p s d h)"
  by (simp add: publish_raw_def row_message_def row_headers_def)

locale jetstream =
  fixes P :: "'b publisher" and sent :: "'b \<Rightarrow> bus_message set"
  assumes keeps: "pb_publish P subj data hdrs b = (x, b') \<Longrightarrow> sent b \<subseteq> sent b'"
    and stored: "pb_publish P subj data hdrs b = (Inr u, b') \<Longrightarrow> (subj, data, hdrs) \<in> sent b'"
begin

lemma attempt_sent:
  assumes "relay_attempt rl r b = (x, b')" "rl_publisher rl = P"
  shows "sent b \<subseteq> sent b' \<and> (x = Inr None \<longrightarrow> row_message P r \<in> sent b')"
proof -
  obtain s d h where m: "row_message P r = (s, d, h)" by (rule prod.exhaust) (metis prod.exhaust)
  obtain y b1 where y: "pb_publish P s d h b = (y, b1)" by (rule prod.exhaust)
  with keeps [OF y] stored [of s d h b "()" b1] assms m show ?thesis
    by (cases y) (auto simp: relay_attempt_def publish_row etry_def ebind_def split: if_splits)
qed

end

text \<open>A broker that is the list of its messages.\<close>

definition list_publisher :: "string \<Rightarrow> bus_message list publisher" where
  "list_publisher prefix = \<lparr>pb_publish = (\<lambda>s d h b. (Inr (), b @ [(s, d, h)])), pb_prefix = prefix\<rparr>"

interpretation list_bus: jetstream "list_publisher prefix" set for prefix
  by unfold_locales (auto simp: list_publisher_def)

definition bump :: "uuid \<times> string \<Rightarrow> outbox_row \<Rightarrow> outbox_row" where
  "bump f r = (if ob_id r = fst f then mark_failed_attempt (snd f) r else r)"

definition marked :: "instant \<Rightarrow> uuid list \<Rightarrow> (uuid \<times> string) list \<Rightarrow> outbox_row \<Rightarrow> outbox_row" where
  "marked now ok bad r =
     fold bump bad (if ob_id r \<in> set ok then mark_published now r else r)"

lemma mark_simps [simp]:
  "ob_id (mark_published now r) = ob_id r" "row_message P (mark_published now r) = row_message P r"
  "ob_published_at (mark_published now r) = Some now"
  "ob_id (mark_failed_attempt err r) = ob_id r" "row_message P (mark_failed_attempt err r) = row_message P r"
  "ob_published_at (mark_failed_attempt err r) = ob_published_at r"
  by (simp_all add: mark_published_def mark_failed_attempt_def row_message_def row_headers_def)

lemma fold_bad_simps:
  "ob_id (fold bump bad r) = ob_id r" "row_message P (fold bump bad r) = row_message P r"
  "ob_published_at (fold bump bad r) = ob_published_at r"
  by (induction bad arbitrary: r) (auto simp: bump_def)

lemma marked_simps [simp]:
  "ob_id (marked now ok bad r) = ob_id r" "row_message P (marked now ok bad r) = row_message P r"
  "ob_published_at (marked now ok bad r) =
     (if ob_id r \<in> set ok then Some now else ob_published_at r)"
  by (simp_all add: marked_def fold_bad_simps)

lemma marked_none [simp]: "marked now [] [] = (\<lambda>r. r)"
  by (rule ext) (simp add: marked_def)

lemma unique_ids: "unique_rows ob_clash rs \<longleftrightarrow> distinct (map ob_id rs)"
  by (induction rs) (auto simp: unique_rows_def ob_clash_def)

locale outbox_table = sql_table T rows ob_clash rest
  for T :: "('db, outbox_row) sql" and rows :: "'db \<Rightarrow> outbox_row list" and rest :: "'db \<Rightarrow> 'o"
begin

lemma relay_select_rows:
  assumes "relay_select rl d = (Inr rs, d')" "rl_table rl = T"
  shows "d' = d" and "length rs = min (rl_batch rl)
      (length (filter (\<lambda>r. row_pending rl r \<and> \<not> rl_locked rl d (ob_id r)) (rows d)))"
    and "distinct (rows d) \<Longrightarrow> distinct rs"
    and "set rs \<subseteq> {r \<in> set (rows d). row_pending rl r \<and> \<not> rl_locked rl d (ob_id r)}"
proof -
  let ?P = "\<lambda>r. row_pending rl r \<and> \<not> rl_locked rl d (ob_id r)"
  have s: "sql_select T ?P (\<lambda>r. (ob_occurred_at r, 0)) (Some (rl_batch rl)) d = (Inr rs, d')"
    using assms by (simp add: relay_select_def)
  then show "d' = d" by (rule select_state)
  from select_rows [OF s] obtain ys where ys: "mset ys = mset (filter ?P (rows d))"
    "rs = take (rl_batch rl) ys" by auto
  then have "length ys = length (filter ?P (rows d))" by (metis size_mset)
  with ys show "length rs = min (rl_batch rl) (length (filter ?P (rows d)))" by simp
  have "set rs \<subseteq> set ys" unfolding ys(2) by (rule set_take_subset)
  then show "set rs \<subseteq> {r \<in> set (rows d). ?P r}" using ys(1) by (metis set_filter set_mset_mset)
  assume "distinct (rows d)"
  then have "distinct ys" using mset_eq_imp_distinct_iff [OF ys(1)] by simp
  then show "distinct rs" unfolding ys(2) by (rule distinct_take)
qed

lemma efold_bad_rows:
  assumes "efold (record_failure rl) bad d = (Inr u, d')" "rl_table rl = T"
  shows "rows d' = map (fold bump bad) (rows d)"
  using assms(1)
proof (induction bad arbitrary: d)
  case (Cons f bad)
  from Cons.prems obtain d1 where f: "record_failure rl f d = (Inr (), d1)"
    and r: "efold (record_failure rl) bad d1 = (Inr u, d')" by (auto simp: ebind_eq_Inr)
  from f obtain n where u: "sql_update T (\<lambda>r. ob_id r = fst f) (mark_failed_attempt (snd f)) d = (Inr n, d1)"
    unfolding record_failure_def assms(2) ebind_eq_Inr by auto
  have "rows d1 = map (bump f) (rows d)" using update_ok [OF u] by (simp add: bump_def)
  with Cons.IH [OF r] show ?case by (simp add: comp_def)
qed simp

lemma relay_mark_rows:
  assumes "relay_mark rl now ok bad d = (Inr u, d')" "rl_table rl = T"
  shows "rows d' = map (marked now ok bad) (rows d)"
proof -
  from assms obtain n d1 where f: "(if ok = [] then eret 0
      else sql_update T (\<lambda>r. ob_id r \<in> set ok) (mark_published now)) d = (Inr n, d1)"
    and b: "efold (record_failure rl) bad d1 = (Inr u, d')" by (auto simp: relay_mark_def ebind_eq_Inr)
  from f have "rows d1 = map (\<lambda>r. if ob_id r \<in> set ok then mark_published now r else r) (rows d)"
    by (cases "ok = []") (auto dest: update_ok)
  with efold_bad_rows [OF b assms(2)] show ?thesis by (simp add: marked_def comp_def)
qed

end

interpretation list_outbox: outbox_table "list_sql (\<lambda>rs. rs) (\<lambda>rs _. rs) ob_clash" "\<lambda>rs. rs" "\<lambda>_. ()"
  by (intro outbox_table.intro whole_table.list_sql_table)

definition same_outbox ::
  "(nat \<Rightarrow> ('d, 'b) relay) \<Rightarrow> ('d, outbox_row) sql \<Rightarrow> 'b publisher \<Rightarrow> bool" where
  "same_outbox relays T P \<longleftrightarrow> (\<forall>k. rl_table (relays k) = T \<and> rl_publisher (relays k) = P)"

definition held_sound ::
  "'b publisher \<Rightarrow> outbox_row list \<Rightarrow> bus_message set \<Rightarrow> claimed \<Rightarrow> bool" where
  "held_sound P rs msgs c \<longleftrightarrow>
     (\<forall>r \<in> set (cl_todo c). \<exists>q \<in> set rs. ob_id q = ob_id r \<and> row_message P q = row_message P r) \<and>
     (\<forall>u \<in> set (cl_ok c). \<exists>q \<in> set rs. ob_id q = u \<and> row_message P q \<in> msgs)"

definition marks_sound :: "'b publisher \<Rightarrow> outbox_row list \<Rightarrow> bus_message set \<Rightarrow> bool" where
  "marks_sound P rs msgs \<longleftrightarrow>
     (\<forall>r \<in> set rs. ob_published_at r \<noteq> None \<longrightarrow> row_message P r \<in> msgs)"

definition claims_apart :: "(nat \<rightharpoonup> claimed) \<Rightarrow> bool" where
  "claims_apart h \<longleftrightarrow>
     (\<forall>j k c c'. j \<noteq> k \<longrightarrow> h j = Some c \<longrightarrow> h k = Some c' \<longrightarrow> claim_ids c \<inter> claim_ids c' = {})"

definition relay_inv ::
  "'b publisher \<Rightarrow> ('d \<Rightarrow> outbox_row list) \<Rightarrow> ('b \<Rightarrow> bus_message set) \<Rightarrow> ('d, 'b) relay_world \<Rightarrow> bool" where
  "relay_inv P rows sent w \<longleftrightarrow>
     unique_rows ob_clash (rows (rw_db w)) \<and> marks_sound P (rows (rw_db w)) (sent (rw_broker w)) \<and>
     (\<forall>k c. rw_held w k = Some c \<longrightarrow> held_sound P (rows (rw_db w)) (sent (rw_broker w)) c) \<and>
     claims_apart (rw_held w)"

lemma held_sound_mono:
  assumes "held_sound P rs msgs c" "msgs \<subseteq> msgs'"
    and "\<And>r. r \<in> set rs \<Longrightarrow> \<exists>q \<in> set rs'. ob_id q = ob_id r \<and> row_message P q = row_message P r"
  shows "held_sound P rs' msgs' c"
proof -
  have "\<exists>q \<in> set rs'. ob_id q = ob_id r \<and> row_message P q = row_message P r" if "r \<in> set (cl_todo c)" for r
    using assms(1,3) that unfolding held_sound_def by metis
  moreover have "\<exists>q \<in> set rs'. ob_id q = u \<and> row_message P q \<in> msgs'" if "u \<in> set (cl_ok c)" for u
    using assms that unfolding held_sound_def by (metis subsetD)
  ultimately show ?thesis unfolding held_sound_def by blast
qed

lemma claims_apartD:
  "claims_apart h \<Longrightarrow> j \<noteq> k \<Longrightarrow> h j = Some c \<Longrightarrow> h k = Some c' \<Longrightarrow> claim_ids c \<inter> claim_ids c' = {}"
  unfolding claims_apart_def by blast

lemma claims_apart_upd:
  assumes "claims_apart h" "\<And>j c'. j \<noteq> k \<Longrightarrow> h j = Some c' \<Longrightarrow> claim_ids c \<inter> claim_ids c' = {}"
  shows "claims_apart (h(k \<mapsto> c))"
  unfolding claims_apart_def
proof (intro allI impI)
  fix i j d d' assume n: "i \<noteq> j" and i: "(h(k \<mapsto> c)) i = Some d" and j: "(h(k \<mapsto> c)) j = Some d'"
  consider "i = k" | "j = k" | "i \<noteq> k" "j \<noteq> k" by blast
  then show "claim_ids d \<inter> claim_ids d' = {}"
  proof cases
    case 1
    with n i j show ?thesis using assms(2) [of j d'] by simp
  next
    case 2
    with n i j have "claim_ids c \<inter> claim_ids d = {}" using assms(2) [of i d] by simp
    with 2 j show ?thesis by (simp add: Int_commute)
  next
    case 3
    with n i j show ?thesis using claims_apartD [OF assms(1) n] by simp
  qed
qed

lemma claims_apart_drop: "claims_apart h \<Longrightarrow> claims_apart (h(k := None))"
  unfolding claims_apart_def by auto

lemma claims_apart_same:
  assumes "claims_apart h" "h k = Some c" "claim_ids c' = claim_ids c"
  shows "claims_apart (h(k \<mapsto> c'))"
  using assms(1) by (rule claims_apart_upd) (use assms claims_apartD in metis)

lemma marks_sound_marked:
  assumes "marks_sound P rs msgs" "unique_rows ob_clash rs" "held_sound P rs msgs c"
  shows "marks_sound P (map (marked now (cl_ok c) (cl_bad c)) rs) msgs"
proof -
  have "row_message P r \<in> msgs" if r: "r \<in> set rs" "ob_id r \<in> set (cl_ok c)" for r
  proof -
    from assms(3) r obtain q where q: "q \<in> set rs" "ob_id q = ob_id r" "row_message P q \<in> msgs"
      unfolding held_sound_def by metis
    have "q = r" by (rule unique_rows_same [OF assms(2) q(1) r(1)]) (simp_all add: ob_clash_def q)
    with q show ?thesis by simp
  qed
  with assms(1) show ?thesis unfolding marks_sound_def by auto
qed

lemma unique_marked: "unique_rows ob_clash rs \<Longrightarrow> unique_rows ob_clash (map (marked now ok bad) rs)"
  by (simp add: unique_ids comp_def)

text \<open>The outbox and the stream together.\<close>

locale outbox_stream = outbox_table T rows rest + jetstream P sent
  for T :: "('db, outbox_row) sql" and rows :: "'db \<Rightarrow> outbox_row list" and rest :: "'db \<Rightarrow> 'o"
    and P :: "'b publisher" and sent :: "'b \<Rightarrow> bus_message set"
begin

lemma relay_step_inv:
  assumes "relay_step relays w w'" "same_outbox relays T P" "relay_inv P rows sent w"
  shows "relay_inv P rows sent w'"
  using assms
proof (induction rule: relay_step.induct)
  case (relay_claim w k rs d)
  let ?rl = "(relays k)\<lparr>rl_locked := \<lambda>_. held_ids (rw_held w)\<rparr>"
  let ?c = "\<lparr>cl_todo = rs, cl_ok = [], cl_bad = []\<rparr>"
  have T: "rl_table ?rl = T" using relay_claim.prems(1) by (simp add: same_outbox_def)
  note sel = relay_select_rows [OF relay_claim.hyps(2) T]
  have inv: "claims_apart (rw_held w)" using relay_claim.prems(2) by (simp add: relay_inv_def)
  have "claim_ids ?c \<inter> claim_ids c' = {}" if "j \<noteq> k" "rw_held w j = Some c'" for j c'
  proof -
    have "ob_id r \<notin> claim_ids c'" if "r \<in> set rs" for r
      using sel(4) that \<open>rw_held w j = Some c'\<close> by (auto simp: held_ids_def)
    then show ?thesis by (auto simp: claim_ids_def [of ?c])
  qed
  then have "claims_apart ((rw_held w)(k \<mapsto> ?c))" by (rule claims_apart_upd [OF inv])
  moreover have "held_sound P (rows (rw_db w)) (sent (rw_broker w)) ?c"
    using sel(4) by (auto simp: held_sound_def)
  ultimately show ?case using relay_claim.prems(2) sel(1) by (auto simp: relay_inv_def)
next
  case (relay_sent w k r rs ok bad b)
  let ?c = "\<lparr>cl_todo = r # rs, cl_ok = ok, cl_bad = bad\<rparr>"
  let ?c' = "\<lparr>cl_todo = rs, cl_ok = ok @ [ob_id r], cl_bad = bad\<rparr>"
  have "rl_publisher (relays k) = P" using relay_sent.prems(1) by (simp add: same_outbox_def)
  from attempt_sent [OF relay_sent.hyps(2) this]
  have b: "sent (rw_broker w) \<subseteq> sent b" "row_message P r \<in> sent b" by auto
  have inv: "marks_sound P (rows (rw_db w)) (sent (rw_broker w))" "claims_apart (rw_held w)"
    "\<And>j c. rw_held w j = Some c \<Longrightarrow> held_sound P (rows (rw_db w)) (sent (rw_broker w)) c"
    using relay_sent.prems(2) by (auto simp: relay_inv_def)
  have "claims_apart ((rw_held w)(k \<mapsto> ?c'))"
    by (rule claims_apart_same [OF inv(2) relay_sent.hyps(1)]) (auto simp: claim_ids_def)
  moreover have h: "held_sound P (rows (rw_db w)) (sent b) c" if "rw_held w j = Some c" for j c
    by (rule held_sound_mono [OF inv(3) [OF that] b(1)]) blast
  moreover have "held_sound P (rows (rw_db w)) (sent b) ?c'"
    using h [OF relay_sent.hyps(1)] b(2) unfolding held_sound_def by fastforce
  moreover have "marks_sound P (rows (rw_db w)) (sent b)"
    using inv(1) b(1) unfolding marks_sound_def by blast
  ultimately show ?case using relay_sent.prems(2) by (auto simp: relay_inv_def)
next
  case (relay_refused w k r rs ok bad err b)
  let ?c' = "\<lparr>cl_todo = rs, cl_ok = ok, cl_bad = bad @ [(ob_id r, err)]\<rparr>"
  have "rl_publisher (relays k) = P" using relay_refused.prems(1) by (simp add: same_outbox_def)
  from attempt_sent [OF relay_refused.hyps(2) this] have b: "sent (rw_broker w) \<subseteq> sent b" by auto
  have inv: "marks_sound P (rows (rw_db w)) (sent (rw_broker w))" "claims_apart (rw_held w)"
    "\<And>j c. rw_held w j = Some c \<Longrightarrow> held_sound P (rows (rw_db w)) (sent (rw_broker w)) c"
    using relay_refused.prems(2) by (auto simp: relay_inv_def)
  have "claims_apart ((rw_held w)(k \<mapsto> ?c'))"
    by (rule claims_apart_same [OF inv(2) relay_refused.hyps(1)]) (auto simp: claim_ids_def)
  moreover have h: "held_sound P (rows (rw_db w)) (sent b) c" if "rw_held w j = Some c" for j c
    by (rule held_sound_mono [OF inv(3) [OF that] b]) blast
  moreover have "held_sound P (rows (rw_db w)) (sent b) ?c'"
    using h [OF relay_refused.hyps(1)] by (simp add: held_sound_def)
  moreover have "marks_sound P (rows (rw_db w)) (sent b)"
    using inv(1) b unfolding marks_sound_def by blast
  ultimately show ?case using relay_refused.prems(2) by (auto simp: relay_inv_def)
next
  case (relay_commit w k ok bad now d)
  let ?c = "\<lparr>cl_todo = [], cl_ok = ok, cl_bad = bad\<rparr>"
  have "rl_table (relays k) = T" using relay_commit.prems(1) by (simp add: same_outbox_def)
  from relay_mark_rows [OF relay_commit.hyps(2) this]
  have d: "rows d = map (marked now ok bad) (rows (rw_db w))" .
  have inv: "unique_rows ob_clash (rows (rw_db w))" "marks_sound P (rows (rw_db w)) (sent (rw_broker w))"
    "claims_apart (rw_held w)"
    "\<And>j c. rw_held w j = Some c \<Longrightarrow> held_sound P (rows (rw_db w)) (sent (rw_broker w)) c"
    using relay_commit.prems(2) by (auto simp: relay_inv_def)
  have "marks_sound P (rows d) (sent (rw_broker w))"
    using marks_sound_marked [OF inv(2,1) inv(4) [OF relay_commit.hyps(1)]] d by simp
  moreover have "held_sound P (rows d) (sent (rw_broker w)) c" if "rw_held w j = Some c" for j c
    by (rule held_sound_mono [OF inv(4) [OF that] order_refl]) (auto simp: d)
  ultimately show ?case
    using unique_marked [OF inv(1)] claims_apart_drop [OF inv(3)] d by (auto simp: relay_inv_def)
next
  case (relay_lost w k)
  then show ?case using claims_apart_drop by (auto simp: relay_inv_def)
next
  case (relay_recorded k iso_fmt fresh session evs w d)
  have T: "rl_table (relays k) = T" using relay_recorded.prems(1) by (simp add: same_outbox_def)
  have inv: "unique_rows ob_clash (rows (rw_db w))" "marks_sound P (rows (rw_db w)) (sent (rw_broker w))"
    "\<And>j c. rw_held w j = Some c \<Longrightarrow> held_sound P (rows (rw_db w)) (sent (rw_broker w)) c"
    using relay_recorded.prems(2) by (auto simp: relay_inv_def)
  have d: "rows d = rows (rw_db w) @ outbox_rows iso_fmt fresh evs \<and> unique_rows ob_clash (rows d)"
    using relay_recorded.hyps T insert_ok [OF _ inv(1)] inv(1)
    by (auto simp: outbox_record_def split: if_splits)
  have new: "ob_published_at r = None" if "r \<in> set (outbox_rows iso_fmt fresh evs)" for r
    using that by (auto simp: outbox_rows_def outbox_row_of_def)
  have "marks_sound P (rows d) (sent (rw_broker w))"
    using inv(2) d new unfolding marks_sound_def by auto
  moreover have "held_sound P (rows d) (sent (rw_broker w)) c" if "rw_held w j = Some c" for j c
    by (rule held_sound_mono [OF inv(3) [OF that] order_refl]) (use d in auto)
  ultimately show ?case using relay_recorded.prems(2) d by (auto simp: relay_inv_def)
qed

end

interpretation list_relays: outbox_stream "list_sql (\<lambda>rs. rs) (\<lambda>rs _. rs) ob_clash" "\<lambda>rs. rs" "\<lambda>_. ()"
    "list_publisher prefix" set for prefix
  by unfold_locales

section \<open>One relay that works\<close>

definition publisher_up :: "'b publisher \<Rightarrow> bool" where
  "publisher_up P \<longleftrightarrow> (\<forall>s m h b. \<exists>b'. pb_publish P s m h b = (Inr (), b'))"

definition relay_alone :: "('d, 'b) relay \<Rightarrow> bool" where
  "relay_alone rl \<longleftrightarrow> rl_locked rl = (\<lambda>_ _. False) \<and> rl_commit rl = (\<lambda>_. None) \<and>
     publisher_up (rl_publisher rl)"

definition relay_pass :: "('d, 'b) relay \<Rightarrow> 'd \<times> 'b \<Rightarrow> 'd \<times> 'b" where
  "relay_pass rl st = snd (process_one_batch rl st)"

definition pending_count :: "('d, 'b) relay \<Rightarrow> outbox_row list \<Rightarrow> nat" where
  "pending_count rl rs = length (filter (row_pending rl) rs)"

lemma publish_rows_up:
  assumes "publisher_up (rl_publisher rl)"
  shows "\<exists>b'. publish_rows rl rs b = (Inr (map ob_id rs, []), b')"
proof (induction rs arbitrary: b)
  case (Cons r rs)
  obtain s m h where m: "row_message (rl_publisher rl) r = (s, m, h)" by (rule prod.exhaust) (metis prod.exhaust)
  from assms obtain b1 where "pb_publish (rl_publisher rl) s m h b = (Inr (), b1)"
    unfolding publisher_up_def by blast
  then have "relay_attempt rl r b = (Inr None, b1)"
    using m by (simp add: relay_attempt_def publish_row etry_def ebind_def)
  with Cons.IH [of b1] show ?case by (auto simp: ebind_def)
qed simp

lemma pending_after:
  assumes u: "unique_rows ob_clash rs" and "set sel \<subseteq> {r \<in> set rs. row_pending rl r}" "distinct sel"
  shows "pending_count rl (map (marked now (map ob_id sel) []) rs) = pending_count rl rs - length sel"
proof -
  have d: "distinct rs" using u by (simp add: unique_ids distinct_map)
  have inj: "r = q" if "r \<in> set rs" "q \<in> set rs" "ob_id r = ob_id q" for r q
    by (rule unique_rows_same [OF u that(1,2)]) (simp_all add: ob_clash_def that)
  have m: "row_pending rl (marked now (map ob_id sel) [] r) \<longleftrightarrow> row_pending rl r \<and> r \<notin> set sel"
    if r: "r \<in> set rs" for r
  proof -
    have "ob_id r \<in> ob_id ` set sel \<longleftrightarrow> r \<in> set sel" using inj [OF r] assms(2) by auto
    then show ?thesis by (auto simp: row_pending_def marked_def mark_published_def)
  qed
  have "pending_count rl (map (marked now (map ob_id sel) []) rs) =
      length (filter (\<lambda>r. row_pending rl r \<and> r \<notin> set sel) rs)"
    by (simp add: pending_count_def filter_map comp_def m cong: filter_cong)
  also have "\<dots> = card ({r \<in> set rs. row_pending rl r} - set sel)"
    using d by (simp add: distinct_length_filter Int_def set_diff_eq conj_ac)
  also have "\<dots> = card {r \<in> set rs. row_pending rl r} - length sel"
    using assms(2,3) by (simp add: card_Diff_subset distinct_card)
  also have "card {r \<in> set rs. row_pending rl r} = pending_count rl rs"
    using d by (simp add: pending_count_def distinct_length_filter Int_def conj_commute)
  finally show ?thesis .
qed

context outbox_table
begin

lemma batch_marks:
  assumes up: "sql_up T rows ob_clash rest" and T: "rl_table rl = T" and a: "relay_alone rl"
    and u: "unique_rows ob_clash (rows d)"
  shows "\<exists>sel d' b' now. process_one_batch rl (d, b) = (Inr (length sel), (d', b')) \<and>
    rows d' = map (marked now (map ob_id sel) []) (rows d) \<and>
    length sel = min (rl_batch rl) (pending_count rl (rows d)) \<and>
    set sel \<subseteq> {r \<in> set (rows d). row_pending rl r} \<and> distinct sel"
proof -
  have free: "rl_locked rl = (\<lambda>_ _. False)" "rl_commit rl = (\<lambda>_. None)" "publisher_up (rl_publisher rl)"
    using a by (simp_all add: relay_alone_def)
  obtain sel d1 where s: "relay_select rl d = (Inr sel, d1)"
    using sql_up.select_up [OF up] unfolding relay_select_def T by blast
  note sel = relay_select_rows [OF s T, unfolded free(1)]
  have sound: "length sel = min (rl_batch rl) (pending_count rl (rows d))"
    "set sel \<subseteq> {r \<in> set (rows d). row_pending rl r}"
    using sel(2,4) by (auto simp: pending_count_def)
  have dist: "distinct sel" using u by (intro sel(3)) (simp add: unique_ids distinct_map)
  show ?thesis
  proof (cases "sel = []")
    case True
    with s sel(1) free sound show ?thesis
      by (intro exI [of _ "[]"] exI [of _ d] exI [of _ b])
        (simp add: process_one_batch_def engine_begin_def ebind_def)
  next
    case False
    obtain b' where p: "publish_rows rl sel b = (Inr (map ob_id sel, []), b')"
      using publish_rows_up [OF free(3)] by blast
    let ?now = "rl_now rl (d, b')"
    have "keeps_keys ob_clash (\<lambda>r. ob_id r \<in> set (map ob_id sel)) (mark_published ?now)"
      by (simp add: keeps_keys_def ob_clash_def mark_published_def)
    then obtain n d' where "sql_update T (\<lambda>r. ob_id r \<in> set (map ob_id sel)) (mark_published ?now) d = (Inr n, d')"
      using sql_up.update_up [OF up] by blast
    then have m: "relay_mark rl ?now (map ob_id sel) [] d = (Inr (), d')"
      using False by (simp add: relay_mark_def T ebind_def)
    from s p m sel(1) False free sound dist relay_mark_rows [OF m T] show ?thesis
      by (intro exI [of _ sel] exI [of _ d'] exI [of _ b'] exI [of _ ?now])
        (simp add: process_one_batch_def engine_begin_def ebind_def)
  qed
qed

lemma batches_drain:
  assumes "sql_up T rows ob_clash rest" "rl_table rl = T" "relay_alone rl"
    "unique_rows ob_clash (rows (fst st))"
  shows "unique_rows ob_clash (rows (fst ((relay_pass rl ^^ n) st))) \<and>
    pending_count rl (rows (fst ((relay_pass rl ^^ n) st))) =
      pending_count rl (rows (fst st)) - n * rl_batch rl"
proof (induction n)
  case (Suc n)
  let ?st = "(relay_pass rl ^^ n) st"
  have u: "unique_rows ob_clash (rows (fst ?st))" using Suc.IH ..
  obtain sel d' b' now where b: "process_one_batch rl ?st = (Inr (length sel), (d', b'))"
    "rows d' = map (marked now (map ob_id sel) []) (rows (fst ?st))"
    "length sel = min (rl_batch rl) (pending_count rl (rows (fst ?st)))"
    "set sel \<subseteq> {r \<in> set (rows (fst ?st)). row_pending rl r}" "distinct sel"
    using batch_marks [OF assms(1-3) u, of "snd ?st", unfolded prod.collapse] by blast
  have "pending_count rl (rows d') = pending_count rl (rows (fst ?st)) - rl_batch rl"
    using pending_after [OF u b(4,5)] b(2,3) by simp
  moreover have "(relay_pass rl ^^ Suc n) st = (d', b')"
    using b(1) by (simp add: relay_pass_def [of rl ?st])
  moreover have "unique_rows ob_clash (rows d')" using unique_marked [OF u] b(2) by simp
  ultimately show ?case using Suc.IH by (simp add: diff_diff_left add.commute)
qed (use assms(4) in simp)

end

section \<open>From the unit of work to the consumer\<close>

text \<open>
  pydantic's validation of the fields an integration event class declares: UUIDs are read from
  their text forms, the time has the type \<open>Any\<close> and stays the text it is, the rest is the body.
\<close>

definition json_uuid_of :: "json \<Rightarrow> uuid option option" where
  "json_uuid_of j = (case j of
     JNull \<Rightarrow> Some None
   | JStr s \<Rightarrow> (case parse_uuid s of Some u \<Rightarrow> Some (Some u) | None \<Rightarrow> None)
   | _ \<Rightarrow> None)"

definition meta_keys :: "string list" where
  "meta_keys = [''event_id'', ''occurred_at'', ''correlation_id'', ''causation_id'', ''tenant_id'', ''actor_id'']"

text \<open>
  \<open>names\<close> are the fields the class declares and \<open>dumps\<close> the payloads \<open>model_dump\<close> gives of its
  instances. A dict with any other key is refused (\<open>extra="forbid"\<close>); one with the meta fields
  and such a payload is read back into the instance that has this payload.
\<close>

definition reads_fields :: "string \<Rightarrow> string list \<Rightarrow> (dict \<Rightarrow> bool) \<Rightarrow> event_class \<Rightarrow> bool" where
  "reads_fields type_name names dumps cls \<longleftrightarrow>
     set names \<inter> set meta_keys = {} \<and> (\<forall>body. dumps body \<longrightarrow> map fst body = names) \<and>
     (\<forall>d. \<not> fst ` set d \<subseteq> set names \<union> set meta_keys \<longrightarrow> (\<exists>e. ec_validate cls d = Inl e)) \<and>
     (\<forall>d s t u cor cau ten act.
        dumps (filter (\<lambda>(k, v). k \<notin> set meta_keys) d) \<longrightarrow>
        json_or_null d ''event_id'' = JStr s \<longrightarrow> parse_uuid s = Some u \<longrightarrow>
        json_or_null d ''occurred_at'' = JStr t \<longrightarrow>
        json_uuid_of (json_or_null d ''correlation_id'') = Some cor \<longrightarrow>
        json_uuid_of (json_or_null d ''causation_id'') = Some cau \<longrightarrow>
        json_uuid_of (json_or_null d ''tenant_id'') = Some ten \<longrightarrow>
        json_uuid_of (json_or_null d ''actor_id'') = Some act \<longrightarrow>
        ec_validate cls d = Inr
          \<lparr>ev_id = u, ev_type = type_name, ev_kind = IntegrationEvent, ev_name = ec_event_name cls,
           ev_version = ec_event_version cls, ev_occurred_at = AtText t,
           ev_correlation_id = cor, ev_causation_id = cau, ev_tenant_id = ten, ev_actor_id = act,
           ev_body = filter (\<lambda>(k, v). k \<notin> set meta_keys) d\<rparr>)"

text \<open>A well-formed event: UUIDs of 128 bits and a name.\<close>

definition uuid_ok :: "uuid option \<Rightarrow> bool" where
  "uuid_ok u \<longleftrightarrow> (case u of None \<Rightarrow> True | Some x \<Rightarrow> x < 2 ^ 128)"

definition event_ok :: "event \<Rightarrow> bool" where
  "event_ok ev \<longleftrightarrow> ev_kind ev = IntegrationEvent \<and> ev_name ev \<noteq> [] \<and> ev_id ev < 2 ^ 128 \<and>
     uuid_ok (ev_correlation_id ev) \<and> uuid_ok (ev_causation_id ev) \<and> uuid_ok (ev_tenant_id ev) \<and>
     uuid_ok (ev_actor_id ev)"

lemma json_uuid_roundtrip: "uuid_ok u \<Longrightarrow> json_uuid_of (json_uuid u) = Some u"
  by (cases u) (simp_all add: json_uuid_of_def json_uuid_def uuid_ok_def parse_str_of_uuid)

lemma map_of_fresh: "k \<notin> fst ` set al \<Longrightarrow> map_of al k = None"
  by (simp add: map_of_eq_None_iff)

lemma event_fields_envelope:
  assumes "fst ` set (ev_body ev) \<inter> set meta_keys = {}"
  shows "event_fields (ev_body ev) (envelope_at occurred ev) = ev_body ev @
    [(''event_id'', JStr (str_of_uuid (ev_id ev))), (''occurred_at'', JStr occurred),
     (''correlation_id'', json_uuid (ev_correlation_id ev)), (''causation_id'', json_uuid (ev_causation_id ev)),
     (''tenant_id'', json_uuid (ev_tenant_id ev)), (''actor_id'', json_uuid (ev_actor_id ev))]"
proof -
  have f: "k \<notin> fst ` set (ev_body ev)" if "k \<in> set meta_keys" for k using assms that by blast
  show ?thesis
    using f [of "''event_id''"] f [of "''occurred_at''"] f [of "''correlation_id''"]
      f [of "''causation_id''"] f [of "''tenant_id''"] f [of "''actor_id''"]
    by (simp add: event_fields_def json_or_null_def envelope_at_def meta_keys_def update_fresh)
qed

lemma reads_envelope:
  assumes "reads_fields (ev_type ev) names dumps cls" "event_ok ev" "dumps (ev_body ev)"
    "ec_event_name cls = ev_name ev" "ec_event_version cls = ev_version ev"
  shows "ec_validate cls (event_fields (ev_body ev) (envelope_at occurred ev)) = Inr (ev\<lparr>ev_occurred_at := AtText occurred\<rparr>)"
proof -
  have "map fst (ev_body ev) = names" "set names \<inter> set meta_keys = {}"
    using assms(1,3) by (auto simp: reads_fields_def)
  then have b: "fst ` set (ev_body ev) \<inter> set meta_keys = {}" by (metis list.set_map)
  let ?d = "event_fields (ev_body ev) (envelope_at occurred ev)"
  have n: "map_of (ev_body ev) k = None" if "k \<in> set meta_keys" for k
    using b that by (intro map_of_fresh) blast
  note n' = n [of "''event_id''"] n [of "''occurred_at''"] n [of "''correlation_id''"]
    n [of "''causation_id''"] n [of "''tenant_id''"] n [of "''actor_id''"]
  have look: "json_or_null ?d ''event_id'' = JStr (str_of_uuid (ev_id ev))"
    "json_or_null ?d ''occurred_at'' = JStr occurred"
    "json_or_null ?d ''correlation_id'' = json_uuid (ev_correlation_id ev)"
    "json_or_null ?d ''causation_id'' = json_uuid (ev_causation_id ev)"
    "json_or_null ?d ''tenant_id'' = json_uuid (ev_tenant_id ev)"
    "json_or_null ?d ''actor_id'' = json_uuid (ev_actor_id ev)"
    using n' by (simp_all add: event_fields_envelope [OF b] json_or_null_def meta_keys_def map_add_def)
  have body: "filter (\<lambda>(k, v). k \<notin> set meta_keys) ?d = ev_body ev"
  proof -
    have "filter (\<lambda>(k, v). k \<notin> set meta_keys) (ev_body ev) = ev_body ev"
      unfolding filter_id_conv using b by force
    then show ?thesis unfolding event_fields_envelope [OF b] filter_append by (simp add: meta_keys_def)
  qed
  have ids: "parse_uuid (str_of_uuid (ev_id ev)) = Some (ev_id ev)"
    using assms(2) by (simp add: event_ok_def parse_str_of_uuid)
  have opt: "json_uuid_of (json_uuid (ev_correlation_id ev)) = Some (ev_correlation_id ev)"
    "json_uuid_of (json_uuid (ev_causation_id ev)) = Some (ev_causation_id ev)"
    "json_uuid_of (json_uuid (ev_tenant_id ev)) = Some (ev_tenant_id ev)"
    "json_uuid_of (json_uuid (ev_actor_id ev)) = Some (ev_actor_id ev)"
    using assms(2) by (simp_all add: event_ok_def json_uuid_roundtrip)
  have "ec_validate cls ?d = Inr
          \<lparr>ev_id = ev_id ev, ev_type = ev_type ev, ev_kind = IntegrationEvent, ev_name = ec_event_name cls,
           ev_version = ec_event_version cls,
           ev_occurred_at = AtText occurred,
           ev_correlation_id = ev_correlation_id ev, ev_causation_id = ev_causation_id ev,
           ev_tenant_id = ev_tenant_id ev, ev_actor_id = ev_actor_id ev,
           ev_body = filter (\<lambda>(k, v). k \<notin> set meta_keys) ?d\<rparr>"
    using assms(1) [unfolded reads_fields_def, THEN conjunct2, THEN conjunct2, THEN conjunct2, rule_format]
      look ids opt body assms(3) by metis
  then show ?thesis using body assms(2,4,5) by (simp add: event_ok_def)
qed

lemma parse_envelope:
  assumes "ev_name ev \<noteq> []"
  shows "parse_message reg \<lparr>nm_data = Wire (JObj (envelope_at occurred ev)), nm_headers = h,
      nm_subject = s, nm_num_delivered = n\<rparr> =
    (case registry_lookup reg (ev_name ev) (ev_version ev) of
       Inl e \<Rightarrow> Inl e
     | Inr cls \<Rightarrow> ec_validate cls (event_fields (ev_body ev) (envelope_at occurred ev)))"
  using assms
  by (simp add: parse_message_def wire_loads_def envelope_at_def envelope_name_def json_or_null_def
      json_truthy_def json_int_def lookup_json_def split: sum.split)

section \<open>Properties\<close>

definition relay_reach ::
  "(nat \<Rightarrow> ('d, 'b) relay) \<Rightarrow> ('d \<Rightarrow> outbox_row list) \<Rightarrow> ('d, 'b) relay_world \<Rightarrow> bool" where
  "relay_reach relays rows w \<longleftrightarrow>
     (\<exists>w0. rows (rw_db w0) = [] \<and> rw_held w0 = Map.empty \<and> (relay_step relays)\<^sup>*\<^sup>* w0 w)"

lemma relay_reach_inv:
  assumes T: "sql_table T rows ob_clash rest" and P: "jetstream P sent" and "same_outbox relays T P"
    and "relay_reach relays rows w"
  shows "relay_inv P rows sent w"
proof -
  have l: "outbox_stream T rows rest P sent"
    by (intro outbox_stream.intro outbox_table.intro T P)
  from assms(4) obtain i where i: "rows (rw_db i) = []" "rw_held i = Map.empty"
    "(relay_step relays)\<^sup>*\<^sup>* i w" by (auto simp: relay_reach_def)
  from i(3) show ?thesis
  proof (induction rule: rtranclp_induct)
    case base
    from i(1,2) show ?case by (simp add: relay_inv_def unique_rows_def marks_sound_def claims_apart_def)
  next
    case (step y z)
    then show ?case using outbox_stream.relay_step_inv [OF l] assms(3) by blast
  qed
qed

text \<open>C4: The relays deliver at least once and claim disjoint work. Whatever any number of relays
  do on one outbox, with any shards, in any interleaving, with refused publishes and with relays
  that die at any point, a row is marked as published only when the stream has its message, and
  no row is being worked on by two relays.\<close>

theorem relay_at_least_once:
  assumes "sql_table T rows ob_clash rest" "jetstream P sent" "same_outbox relays T P"
    "relay_reach relays rows w"
  shows "(\<forall>r \<in> set (rows (rw_db w)). ob_published_at r \<noteq> None \<longrightarrow> row_message P r \<in> sent (rw_broker w)) \<and>
    (\<forall>j k c c'. j \<noteq> k \<longrightarrow> rw_held w j = Some c \<longrightarrow> rw_held w k = Some c' \<longrightarrow> claim_ids c \<inter> claim_ids c' = {})"
  using relay_reach_inv [OF assms] unfolding relay_inv_def marks_sound_def claims_apart_def by blast

text \<open>A relay on a list, one recorded event.\<close>

definition demo_relay :: "(outbox_row list, bus_message list) relay" where
  "demo_relay =
     \<lparr>rl_table = list_sql (\<lambda>rs. rs) (\<lambda>rs _. rs) ob_clash, rl_publisher = list_publisher ''shop'',
      rl_shard_id = 0, rl_shard_count = 1, rl_batch = 100, rl_poll = 1 / 2, rl_idle_poll = 2,
      rl_max_attempts = 10, rl_hashtext = (\<lambda>s. 0), rl_locked = (\<lambda>d u. False), rl_now = (\<lambda>st. 50),
      rl_commit = (\<lambda>d. None), rl_wait = (\<lambda>t. eret ()), rl_lock = None\<rparr>"

definition demo_iso :: "instant \<Rightarrow> string" where
  "demo_iso t = str_of_int t"

definition demo_row :: outbox_row where
  "demo_row = outbox_row_of demo_iso 9 (demo_event IntegrationEvent ''order.paid'')"

definition demo_sent :: "(outbox_row list, bus_message list) relay_world" where
  "demo_sent = \<lparr>rw_db = [mark_published 50 demo_row],
     rw_broker = [row_message (list_publisher ''shop'') demo_row], rw_held = Map.empty\<rparr>"

lemma demo_relay_pending: "row_pending (demo_relay\<lparr>rl_locked := l\<rparr>) demo_row"
  by (simp add: row_pending_def demo_relay_def demo_row_def outbox_row_of_def shard_clause_def)

lemma demo_relay_attempt:
  "relay_attempt demo_relay demo_row [] = (Inr None, [row_message (list_publisher ''shop'') demo_row])"
  by (simp add: relay_attempt_def demo_relay_def publish_row row_message_def list_publisher_def etry_def ebind_def)

lemma demo_relay_reach: "relay_reach (\<lambda>_. demo_relay) (\<lambda>rs. rs) demo_sent"
proof -
  let ?S = "relay_step (\<lambda>_. demo_relay)"
  let ?c = "\<lparr>cl_todo = [demo_row], cl_ok = [], cl_bad = []\<rparr>"
  let ?d = "\<lparr>cl_todo = [], cl_ok = [ob_id demo_row], cl_bad = []\<rparr>"
  let ?m = "row_message (list_publisher ''shop'') demo_row"
  let ?a = "\<lparr>rw_db = [], rw_broker = [], rw_held = Map.empty\<rparr>"
  let ?b = "\<lparr>rw_db = [demo_row], rw_broker = [], rw_held = Map.empty\<rparr>"
  have "outbox_record (rl_table demo_relay) demo_iso (\<lambda>_. 9) 0 [demo_event IntegrationEvent ''order.paid''] [] =
      (Inr (), [demo_row])"
    by (simp add: outbox_record_def demo_relay_def outbox_rows_def unique_rows_def demo_row_def is_text_def demo_event_def)
  then have 1: "?S ?a ?b" using relay_recorded [of "\<lambda>_. demo_relay" 0 _ _ _ _ ?a] by simp
  have "relay_select (demo_relay\<lparr>rl_locked := \<lambda>_. held_ids Map.empty\<rparr>) [demo_row] = (Inr [demo_row], [demo_row])"
    using demo_relay_pending by (simp add: relay_select_def held_ids_def) (simp add: demo_relay_def)
  then have 2: "?S ?b (?b\<lparr>rw_held := [0 \<mapsto> ?c]\<rparr>)"
    using relay_claim [of ?b 0 "\<lambda>_. demo_relay" "[demo_row]" "[demo_row]"] by simp
  have 3: "?S (?b\<lparr>rw_held := [0 \<mapsto> ?c]\<rparr>) (?b\<lparr>rw_broker := [?m], rw_held := [0 \<mapsto> ?d]\<rparr>)"
    using relay_sent [of "?b\<lparr>rw_held := [0 \<mapsto> ?c]\<rparr>" 0 demo_row "[]" "[]" "[]" "\<lambda>_. demo_relay" "[?m]"]
      demo_relay_attempt by simp
  have "relay_mark demo_relay 50 [ob_id demo_row] [] [demo_row] = (Inr (), [mark_published 50 demo_row])"
    by (simp add: relay_mark_def demo_relay_def ebind_def unique_rows_def)
  then have 4: "?S (?b\<lparr>rw_broker := [?m], rw_held := [0 \<mapsto> ?d]\<rparr>) demo_sent"
    using relay_commit [of "?b\<lparr>rw_broker := [?m], rw_held := [0 \<mapsto> ?d]\<rparr>" 0 "[ob_id demo_row]" "[]"
        "\<lambda>_. demo_relay" 50 "[mark_published 50 demo_row]"] by (simp add: demo_sent_def)
  have "?S\<^sup>*\<^sup>* ?a demo_sent"
    using 1 2 3 4 by (meson converse_rtranclp_into_rtranclp r_into_rtranclp)
  then show ?thesis unfolding relay_reach_def by (intro exI [of _ ?a]) simp
qed

lemma demo_relay_up: "sql_up (rl_table demo_relay) (\<lambda>rs. rs) ob_clash (\<lambda>_. ())"
  unfolding demo_relay_def by simp (rule list_table.sql_up_axioms)

lemma relay_at_least_once_witness:
  "row_message (list_publisher ''shop'') (mark_published 50 demo_row) \<in> set (rw_broker demo_sent)"
proof -
  have "same_outbox (\<lambda>_. demo_relay) (rl_table demo_relay) (list_publisher ''shop'')"
    by (simp add: same_outbox_def demo_relay_def)
  from relay_at_least_once [OF sql_up.axioms(1) [OF demo_relay_up] list_bus.jetstream_axioms this demo_relay_reach]
  show ?thesis by (simp add: demo_sent_def)
qed

text \<open>C23: A relay makes progress: when the stream accepts messages and nobody else holds rows, each
  batch settles as many pending rows as its size allows, so enough batches leave no pending row of
  its shard.\<close>

theorem relay_drains:
  assumes "sql_up (rl_table rl) rows ob_clash rest" "relay_alone rl" "unique_rows ob_clash (rows (fst st))"
    "pending_count rl (rows (fst st)) \<le> n * rl_batch rl"
  shows "\<forall>r \<in> set (rows (fst ((relay_pass rl ^^ n) st))). \<not> row_pending rl r"
proof -
  have l: "outbox_table (rl_table rl) rows rest"
    by (intro outbox_table.intro sql_up.axioms(1) [OF assms(1)])
  from outbox_table.batches_drain [OF l assms(1) refl assms(2,3), of n] assms(4)
  have "pending_count rl (rows (fst ((relay_pass rl ^^ n) st))) = 0" by simp
  then show ?thesis by (auto simp: pending_count_def filter_empty_conv)
qed

lemma relay_drains_witness:
  "\<not> row_pending demo_relay (hd (fst ((relay_pass demo_relay ^^ 1) ([demo_row], []))))"
proof -
  have a: "relay_alone demo_relay"
    by (simp add: relay_alone_def demo_relay_def publisher_up_def list_publisher_def)
  have u: "unique_rows ob_clash (fst ([demo_row], []))" by (simp add: unique_rows_def)
  have p: "pending_count demo_relay (fst ([demo_row], [])) \<le> 1 * rl_batch demo_relay"
    by (simp add: pending_count_def demo_relay_def)
  have "fst ((relay_pass demo_relay ^^ 1) ([demo_row], [])) \<noteq> []"
    using demo_relay_pending [of "rl_locked demo_relay"] demo_relay_attempt
    by (simp add: relay_pass_def process_one_batch_def relay_select_def engine_begin_def ebind_def)
      (simp add: demo_relay_def relay_mark_def ebind_def)
  then have "hd (fst ((relay_pass demo_relay ^^ 1) ([demo_row], []))) \<in>
      set (fst ((relay_pass demo_relay ^^ 1) ([demo_row], [])))" by simp
  with relay_drains [OF demo_relay_up a u p] show ?thesis by blast
qed

text \<open>Sharded relays split the outbox: every row belongs to exactly one of the shards
  \<open>0 .. shard_count - 1\<close>, whatever the hash function returns.\<close>

theorem shards_partition:
  assumes "0 < n"
  shows "\<exists>!i. 0 \<le> i \<and> i < n \<and> shard_clause (rl\<lparr>rl_shard_id := i, rl_shard_count := n\<rparr>) r"
proof (cases "n = 1")
  case True
  then show ?thesis by (intro ex1I [of _ 0]) (auto simp: shard_clause_def)
next
  case False
  with assms show ?thesis
    by (intro ex1I [of _ "\<bar>rl_hashtext rl (str_of_uuid (ob_id r))\<bar> mod n"]) (auto simp: shard_clause_def)
qed

lemma shards_partition_witness:
  "\<exists>!i. 0 \<le> i \<and> i < (3::int) \<and>
     shard_clause (demo_relay\<lparr>rl_hashtext := \<lambda>s. -2147483648, rl_shard_id := i, rl_shard_count := 3\<rparr>) demo_row"
  using shards_partition [of 3 "demo_relay\<lparr>rl_hashtext := \<lambda>s. -2147483648\<rparr>" demo_row] by simp


text \<open>A class without fields of its own that validates as pydantic does, and its registry.\<close>

definition demo_class :: event_class where
  "demo_class =
     \<lparr>ec_name = ''OrderPaid'', ec_event_name = ''order.paid'', ec_event_version = 1,
      ec_validate = (\<lambda>d.
        if \<not> list_all (\<lambda>(k, v). k \<in> set meta_keys) d
        then Inl (PyException ''ValidationError'' ''Extra inputs are not permitted'')
        else case (json_or_null d ''event_id'', json_or_null d ''occurred_at'') of
          (JStr s, JStr t) \<Rightarrow>
            (case (parse_uuid s, json_uuid_of (json_or_null d ''correlation_id''),
                   json_uuid_of (json_or_null d ''causation_id''), json_uuid_of (json_or_null d ''tenant_id''),
                   json_uuid_of (json_or_null d ''actor_id'')) of
               (Some u, Some cor, Some cau, Some ten, Some act) \<Rightarrow>
                 Inr \<lparr>ev_id = u, ev_type = ''order.paid'', ev_kind = IntegrationEvent, ev_name = ''order.paid'',
                   ev_version = 1, ev_occurred_at = AtText t, ev_correlation_id = cor, ev_causation_id = cau,
                   ev_tenant_id = ten, ev_actor_id = act, ev_body = []\<rparr>
             | _ \<Rightarrow> Inl (PyException ''ValidationError'' ''order.paid''))
        | _ \<Rightarrow> Inl (PyException ''ValidationError'' ''order.paid''))\<rparr>"

lemma demo_reads_fields: "reads_fields ''order.paid'' [] (\<lambda>b. b = []) demo_class"
proof -
  have "ec_validate demo_class d = Inl (PyException ''ValidationError'' ''Extra inputs are not permitted'')"
    if "\<not> fst ` set d \<subseteq> set meta_keys" for d
    using that by (auto simp: demo_class_def list_all_iff)
  moreover have "list_all (\<lambda>(k, v). k \<in> set meta_keys) d"
    if "filter (\<lambda>(k, v). k \<notin> set meta_keys) d = []" for d :: dict
    using that by (auto simp: filter_empty_conv list_all_iff)
  ultimately show ?thesis
    unfolding reads_fields_def by (auto simp: demo_class_def)
qed

lemma demo_event_ok: "event_ok (demo_event IntegrationEvent ''order.paid'')"
  by (simp add: event_ok_def demo_event_def uuid_ok_def)


end
