(* ===== verification/Qx_Mediator.thy ===== *)
theory Qx_Mediator
  imports Qx_Pipeline Qx_Di
begin

text \<open>
  The package \<open>qx-cqrs\<close>, the mediator (\<open>mediator\<close>, \<open>decorators\<close>): the registries of handler
  classes, the three ways to fill them, and the dispatch of requests, in-process events and
  integration events. Message and handler classes are named by strings. Registration works on
  the mediator and its container (\<open>Qx_Di\<close>); dispatch takes the container's \<open>resolve\<close> and the
  handlers' \<open>handle\<close> methods as arguments.
\<close>

section \<open>Decorators\<close>

text \<open>What the decorators leave on a class.\<close>

record ('m, 's, 'p) class_attrs =
  ca_handler :: "(string \<times> string) option"
  ca_lifetime :: "lifetime option"
  ca_policies :: "('m, 's, 'p) policy list"

definition stamp ::
  "string \<Rightarrow> string \<Rightarrow> lifetime \<Rightarrow> ('m, 's, 'p) class_attrs \<Rightarrow> ('m, 's, 'p) class_attrs" where
  "stamp target kind lt cls = cls\<lparr>ca_handler := Some (kind, target), ca_lifetime := Some lt\<rparr>"

definition command_handler where "command_handler t lt cls = stamp t ''command'' lt cls"
definition query_handler where "query_handler t lt cls = stamp t ''query'' lt cls"
definition event_handler where "event_handler t lt cls = stamp t ''event'' lt cls"
definition integration_event_handler where
  "integration_event_handler t lt cls = stamp t ''integration'' lt cls"
definition notification_handler where
  "notification_handler t lt cls = stamp t ''notification'' lt cls"

definition requires ::
  "('m, 's, 'p) policy list \<Rightarrow> ('m, 's, 'p) class_attrs \<Rightarrow> ('m, 's, 'p) class_attrs" where
  "requires policies cls = cls\<lparr>ca_policies := ca_policies cls @ policies\<rparr>"

section \<open>Registries\<close>

record mediator =
  md_commands :: "(string \<times> string) list"
  md_queries :: "(string \<times> string) list"
  md_events :: "(string \<times> string list) list"
  md_integrations :: "(string \<times> string list) list"
  md_notifications :: "(string \<times> string list) list"

definition mediator_init :: mediator where
  "mediator_init = \<lparr>md_commands = [], md_queries = [], md_events = [], md_integrations = [],
     md_notifications = []\<rparr>"

type_synonym ('s, 'v) mstate = "mediator \<times> ('s, 'v) container"

definition mediator_error :: "string \<Rightarrow> exn" where
  "mediator_error msg = PyException ''MediatorError'' msg"

text \<open>\<open>registry.setdefault(k, []).append(h)\<close>.\<close>

definition add_handler :: "string \<Rightarrow> string \<Rightarrow> (string \<times> string list) list \<Rightarrow> (string \<times> string list) list" where
  "add_handler k h reg = AList.update k (get_or (map_of reg k) [] @ [h]) reg"

text \<open>A handler class unknown to the container itself becomes a transient of it.\<close>

definition ensure_provider ::
  "(string \<Rightarrow> ('s, 'v) factory) \<Rightarrow> string \<Rightarrow> (('s, 'v) mstate, unit) eff" where
  "ensure_provider cls h st =
     (case map_of (ct_providers (snd st)) (KClass h) of
        Some p \<Rightarrow> (Inr (), st)
      | None \<Rightarrow>
          (case register_transient (KClass h) (ImplCallable (cls h)) [] (snd st) of
             Inl e \<Rightarrow> (Inl e, st)
           | Inr c \<Rightarrow> (Inr (), (fst st, c))))"

definition register_command ::
  "(string \<Rightarrow> ('s, 'v) factory) \<Rightarrow> string \<Rightarrow> string \<Rightarrow> (('s, 'v) mstate, unit) eff" where
  "register_command cls msg h st =
     (case map_of (md_commands (fst st)) msg of
        Some old \<Rightarrow> (Inl (mediator_error (''Command '' @ msg @ '' already has handler '' @ old)), st)
      | None \<Rightarrow>
          ensure_provider cls h
            ((fst st)\<lparr>md_commands := AList.update msg h (md_commands (fst st))\<rparr>, snd st))"

definition register_query ::
  "(string \<Rightarrow> ('s, 'v) factory) \<Rightarrow> string \<Rightarrow> string \<Rightarrow> (('s, 'v) mstate, unit) eff" where
  "register_query cls msg h st =
     (case map_of (md_queries (fst st)) msg of
        Some old \<Rightarrow> (Inl (mediator_error (''Query '' @ msg @ '' already has handler '' @ old)), st)
      | None \<Rightarrow>
          ensure_provider cls h
            ((fst st)\<lparr>md_queries := AList.update msg h (md_queries (fst st))\<rparr>, snd st))"

definition register_event ::
  "(string \<Rightarrow> ('s, 'v) factory) \<Rightarrow> string \<Rightarrow> string \<Rightarrow> (('s, 'v) mstate, unit) eff" where
  "register_event cls ev h st =
     ensure_provider cls h ((fst st)\<lparr>md_events := add_handler ev h (md_events (fst st))\<rparr>, snd st)"

definition register_integration ::
  "(string \<Rightarrow> ('s, 'v) factory) \<Rightarrow> string \<Rightarrow> string \<Rightarrow> (('s, 'v) mstate, unit) eff" where
  "register_integration cls ev h st =
     ensure_provider cls h
       ((fst st)\<lparr>md_integrations := add_handler ev h (md_integrations (fst st))\<rparr>, snd st)"

definition register_notification ::
  "(string \<Rightarrow> ('s, 'v) factory) \<Rightarrow> string \<Rightarrow> string \<Rightarrow> (('s, 'v) mstate, unit) eff" where
  "register_notification cls ev h st =
     ensure_provider cls h
       ((fst st)\<lparr>md_notifications := add_handler ev h (md_notifications (fst st))\<rparr>, snd st)"

text \<open>The dispatch on the kind that the two scanning functions share.\<close>

definition register_kind ::
  "(string \<Rightarrow> ('s, 'v) factory) \<Rightarrow> string \<Rightarrow> string \<Rightarrow> string \<Rightarrow> (('s, 'v) mstate, unit) eff" where
  "register_kind cls kind target h =
     (if kind = ''command'' then register_command cls target h
      else if kind = ''query'' then register_query cls target h
      else if kind = ''event'' then register_event cls target h
      else if kind = ''integration'' then register_integration cls target h
      else if kind = ''notification'' then register_notification cls target h
      else eraise (mediator_error (''Unknown handler kind: '' @ kind)))"

text \<open>A module is its name and its class members with the module each is defined in.\<close>

datatype scanned = ScanClass string | ScanModule string "(string \<times> string) list" | ScanOther

fun scan_classes :: "scanned \<Rightarrow> string list" where
  "scan_classes (ScanClass c) = [c]"
| "scan_classes (ScanModule name members) = map fst (filter (\<lambda>(c, m). m = name) members)"
| "scan_classes ScanOther = []"

text \<open>\<open>seen\<close> are the classes processed so far, \<open>n\<close> the registrations made. \<open>stamps c\<close> is the
  class's own marker.\<close>

fun process_classes ::
  "(string \<Rightarrow> ('s, 'v) factory) \<Rightarrow> (string \<Rightarrow> (string \<times> string) option) \<Rightarrow> string list \<Rightarrow> string list
     \<Rightarrow> nat \<Rightarrow> (('s, 'v) mstate, nat) eff" where
  "process_classes cls stamps [] seen n = eret n"
| "process_classes cls stamps (c # cs) seen n =
     (if c \<in> set seen then process_classes cls stamps cs seen n
      else case stamps c of
        None \<Rightarrow> process_classes cls stamps cs (c # seen) n
      | Some (kind, target) \<Rightarrow>
          ebind (register_kind cls kind target c)
            (\<lambda>_. process_classes cls stamps cs (c # seen) (n + 1)))"

definition register_decorated ::
  "(string \<Rightarrow> ('s, 'v) factory) \<Rightarrow> (string \<Rightarrow> (string \<times> string) option) \<Rightarrow> scanned list
     \<Rightarrow> (('s, 'v) mstate, nat) eff" where
  "register_decorated cls stamps objs =
     process_classes cls stamps (concat (map scan_classes objs)) [] 0"

text \<open>\<open>__orig_bases__\<close>: the origin of each generic base and its type arguments.\<close>

fun inspect_handler :: "(string option \<times> string list) list \<Rightarrow> (string \<times> string) option" where
  "inspect_handler [] = None"
| "inspect_handler ((origin, args) # bases) =
     (case (origin, args) of
        (Some base, a # _) \<Rightarrow>
          (if base = ''CommandHandler'' then Some (''command'', a)
           else if base = ''QueryHandler'' then Some (''query'', a)
           else if base = ''EventHandler'' then Some (''event'', a)
           else if base = ''IntegrationEventHandler'' then Some (''integration'', a)
           else if base = ''NotificationHandler'' then Some (''notification'', a)
           else inspect_handler bases)
      | _ \<Rightarrow> inspect_handler bases)"

fun register_typed ::
  "(string \<Rightarrow> ('s, 'v) factory) \<Rightarrow> (string \<Rightarrow> (string option \<times> string list) list) \<Rightarrow> string list
     \<Rightarrow> nat \<Rightarrow> (('s, 'v) mstate, nat) eff" where
  "register_typed cls bases [] n = eret n"
| "register_typed cls bases (c # cs) n =
     (case inspect_handler (bases c) of
        None \<Rightarrow> eraise (mediator_error (c @ '' does not declare a handler protocol''))
      | Some (kind, target) \<Rightarrow>
          ebind (register_kind cls kind target c) (\<lambda>_. register_typed cls bases cs (n + 1)))"

section \<open>Dispatch\<close>

definition dispatch_request ::
  "(string \<times> string) list \<Rightarrow> (message, 's, 'v) behavior list \<Rightarrow> bool \<Rightarrow> bool
     \<Rightarrow> (string \<Rightarrow> ('s, 'h) eff) \<Rightarrow> ('h \<Rightarrow> message \<Rightarrow> ('s, 'v result) eff) \<Rightarrow> string
     \<Rightarrow> message \<Rightarrow> ('s, 'v result) eff" where
  "dispatch_request registry behaviors trace_behaviors otel resolve handle kind msg =
     (case map_of registry (ms_class msg) of
        None \<Rightarrow> eraise (mediator_error
          (''No '' @ kind @ '' handler registered for '' @ ms_class msg))
      | Some handler_type \<Rightarrow>
          compose_chain trace_behaviors otel behaviors
            (\<lambda>m. ebind (resolve handler_type) (\<lambda>h. handle h m)) msg)"

definition mediator_send ::
  "mediator \<Rightarrow> (message, 's, 'v) behavior list \<Rightarrow> (message, 's, 'v) behavior list \<Rightarrow> bool \<Rightarrow> bool
     \<Rightarrow> (string \<Rightarrow> ('s, 'h) eff) \<Rightarrow> ('h \<Rightarrow> message \<Rightarrow> ('s, 'v result) eff)
     \<Rightarrow> message \<Rightarrow> ('s, 'v result) eff" where
  "mediator_send md command_behaviors query_behaviors trace_behaviors otel resolve handle msg =
     (if ms_kind msg = CommandMsg
      then dispatch_request (md_commands md) command_behaviors trace_behaviors otel resolve handle ''command'' msg
      else if ms_kind msg = QueryMsg
      then dispatch_request (md_queries md) query_behaviors trace_behaviors otel resolve handle ''query'' msg
      else eraise (mediator_error (''send() requires a Command or Query, got '' @ ms_class msg)))"

text \<open>An exception of \<open>resolve\<close> is not caught and ends the loop; those of the handlers are kept.\<close>

fun publish_domain ::
  "(string \<Rightarrow> ('s, 'h) eff) \<Rightarrow> ('h \<Rightarrow> event \<Rightarrow> ('s, unit) eff) \<Rightarrow> event \<Rightarrow> string list \<Rightarrow> exn list
     \<Rightarrow> ('s, exn list) eff" where
  "publish_domain resolve handle ev [] errs = eret errs"
| "publish_domain resolve handle ev (ht # hts) errs =
     ebind (resolve ht) (\<lambda>h s.
       case handle h ev s of
         (Inr u, s') \<Rightarrow> publish_domain resolve handle ev hts errs s'
       | (Inl e, s') \<Rightarrow> publish_domain resolve handle ev hts (errs @ [e]) s')"

text \<open>\<open>warn ht e\<close> is the log entry of a failed notification handler.\<close>

fun publish_notification ::
  "(string \<Rightarrow> exn \<Rightarrow> 's \<Rightarrow> 's) \<Rightarrow> (string \<Rightarrow> ('s, 'h) eff) \<Rightarrow> ('h \<Rightarrow> event \<Rightarrow> ('s, unit) eff) \<Rightarrow> event
     \<Rightarrow> string list \<Rightarrow> ('s, unit) eff" where
  "publish_notification warn resolve handle ev [] = eret ()"
| "publish_notification warn resolve handle ev (ht # hts) =
     ebind (etry_all (ebind (resolve ht) (\<lambda>h. handle h ev)) (\<lambda>e. emodify (warn ht e)))
       (\<lambda>_. publish_notification warn resolve handle ev hts)"

definition mediator_publish ::
  "mediator \<Rightarrow> (string \<Rightarrow> exn \<Rightarrow> 's \<Rightarrow> 's) \<Rightarrow> (string \<Rightarrow> ('s, 'h) eff) \<Rightarrow> ('h \<Rightarrow> event \<Rightarrow> ('s, unit) eff)
     \<Rightarrow> event \<Rightarrow> ('s, unit) eff" where
  "mediator_publish md warn resolve handle ev =
     (if ev_kind ev = DomainEvent then
        ebind (publish_domain resolve handle ev (get_or (map_of (md_events md) (ev_type ev)) []) [])
          (\<lambda>errs. if errs \<noteq> []
                  then eraise (ExceptionGroup
                    (str_of_nat (length errs) @ '' handler(s) failed for '' @ ev_type ev) errs)
                  else eret ())
      else if ev_kind ev = Notification then
        publish_notification warn resolve handle ev
          (get_or (map_of (md_notifications md) (ev_type ev)) [])
      else eraise (mediator_error
        (''publish() requires DomainEvent or Notification, got '' @ ev_type ev)))"

text \<open>\<open>MediatorEventDispatcher\<close> of the package \<open>qx-events\<close>: what a unit of work publishes to.\<close>

definition mediator_event_dispatcher ::
  "mediator \<Rightarrow> (string \<Rightarrow> exn \<Rightarrow> 's \<Rightarrow> 's) \<Rightarrow> (string \<Rightarrow> ('s, 'h) eff) \<Rightarrow> ('h \<Rightarrow> event \<Rightarrow> ('s, unit) eff)
     \<Rightarrow> event \<Rightarrow> ('s, unit) eff" where
  "mediator_event_dispatcher md warn resolve handle ev = mediator_publish md warn resolve handle ev"

definition consume_integration ::
  "mediator \<Rightarrow> (string \<Rightarrow> ('s, 'h) eff) \<Rightarrow> ('h \<Rightarrow> event \<Rightarrow> ('s, unit) eff) \<Rightarrow> event \<Rightarrow> ('s, unit) eff" where
  "consume_integration md resolve handle ev =
     (let handlers = get_or (map_of (md_integrations md) (ev_type ev)) []
      in if handlers = []
         then eraise (mediator_error (''No integration handler registered for '' @ ev_type ev))
         else efold (\<lambda>ht. ebind (resolve ht) (\<lambda>h. handle h ev)) handlers)"

definition registered_commands where "registered_commands md = map fst (md_commands md)"
definition registered_queries where "registered_queries md = map fst (md_queries md)"
definition registered_events where "registered_events md = map fst (md_events md)"
definition registered_integrations where "registered_integrations md = map fst (md_integrations md)"
definition registered_notifications where "registered_notifications md = map fst (md_notifications md)"

section \<open>Publishing\<close>

text \<open>A mediator without event and notification handlers leaves the state alone.\<close>

lemma dispatcher_without_handlers:
  assumes "md_events md = []" "md_notifications md = []"
  shows "\<exists>x. mediator_event_dispatcher md warn resolve handle ev s = (x, s) \<and>
    (ev_kind ev = DomainEvent \<longrightarrow> x = Inr ())"
  using assms by (simp add: mediator_event_dispatcher_def mediator_publish_def eret_def eraise_def)


text \<open>One handler of the fan-out, with the errors so far.\<close>

definition run_event_handler ::
  "(string \<Rightarrow> ('s, 'h) eff) \<Rightarrow> ('h \<Rightarrow> event \<Rightarrow> ('s, unit) eff) \<Rightarrow> event \<Rightarrow> string
     \<Rightarrow> exn list \<times> 's \<Rightarrow> exn list \<times> 's" where
  "run_event_handler resolve handle ev ht st =
     (case resolve ht (snd st) of
        (Inl e, s1) \<Rightarrow> (fst st, s1)
      | (Inr h, s1) \<Rightarrow>
          (case handle h ev s1 of
             (Inr u, s2) \<Rightarrow> (fst st, s2)
           | (Inl e, s2) \<Rightarrow> (fst st @ [e], s2)))"

lemma publish_domain_fold:
  assumes "\<forall>ht s. \<exists>h s'. resolve ht s = (Inr h, s')"
  shows "publish_domain resolve handle ev hts errs s =
    (case fold (run_event_handler resolve handle ev) hts (errs, s) of (es, s') \<Rightarrow> (Inr es, s'))"
proof (induction hts arbitrary: errs s)
  case Nil
  then show ?case by simp
next
  case (Cons ht hts)
  obtain h s1 where r: "resolve ht s = (Inr h, s1)" using assms by blast
  obtain y s2 where y: "handle h ev s1 = (y, s2)" by fastforce
  show ?case
    using r y Cons.IH by (cases y) (simp_all add: ebind_Inr run_event_handler_def)
qed

text \<open>A domain event reaches every registered handler, in registration order, whatever the
  earlier ones raise; the publisher gets all their exceptions, in that order, as one group, and
  no exception if none failed.\<close>

theorem publish_runs_every_handler:
  assumes "\<forall>ht s. \<exists>h s'. resolve ht s = (Inr h, s')" "ev_kind ev = DomainEvent"
    and "fold (run_event_handler resolve handle ev)
           (get_or (map_of (md_events md) (ev_type ev)) []) ([], s) = (es, s')"
  shows "mediator_publish md warn resolve handle ev s =
     (if es = [] then Inr ()
      else Inl (ExceptionGroup (str_of_nat (length es) @ '' handler(s) failed for '' @ ev_type ev) es), s')"
  using assms(2,3) publish_domain_fold [OF assms(1), of handle ev
      "get_or (map_of (md_events md) (ev_type ev)) []" "[]" s]
  by (auto simp: mediator_publish_def ebind_Inr)

lemma publish_runs_every_handler_witness:
  "mediator_publish (mediator_init\<lparr>md_events := [(''e'', [''A'', ''B''])]\<rparr>) (\<lambda>ht e s. s)
     (\<lambda>ht s. (Inr ht, s)) (\<lambda>h ev s. (if h = ''A'' then Inl (PyException ''E'' h) else Inr (), s @ [h]))
     (demo_event DomainEvent ''e'') [] =
   (Inl (ExceptionGroup (str_of_nat (Suc 0) @ '' handler(s) failed for e'') [PyException ''E'' ''A'']),
    [''A'', ''B''])"
  using publish_runs_every_handler [where md = "mediator_init\<lparr>md_events := [(''e'', [''A'', ''B''])]\<rparr>"
      and resolve = "\<lambda>ht s. (Inr ht, s)" and warn = "\<lambda>ht e s. s" and s = "[]"
      and handle = "\<lambda>h ev s. (if h = ''A'' then Inl (PyException ''E'' h) else Inr (), s @ [h])"
      and ev = "demo_event DomainEvent ''e''"]
  by (simp add: demo_event_def run_event_handler_def)

lemma publish_notification_returns:
  "fst (publish_notification warn resolve handle ev hts s) = Inr ()"
proof (induction hts arbitrary: s)
  case Nil
  then show ?case by simp
next
  case (Cons ht hts)
  obtain y s1 where y: "ebind (resolve ht) (\<lambda>h. handle h ev) s = (y, s1)" by fastforce
  then have "\<exists>s2. etry_all (ebind (resolve ht) (\<lambda>h. handle h ev)) (\<lambda>e. emodify (warn ht e)) s = (Inr (), s2)"
    by (cases y) (auto simp: etry_all_def emodify_def)
  with Cons.IH show ?case by (auto simp: ebind_Inr)
qed

text \<open>A notification never breaks its publisher: publishing one returns, whatever resolving or
  running its handlers raises, cancellation included.\<close>

theorem notifications_never_raise:
  assumes "ev_kind ev = Notification"
  shows "fst (mediator_publish md warn resolve handle ev s) = Inr ()"
  using assms publish_notification_returns by (simp add: mediator_publish_def)

lemma notifications_never_raise_witness:
  "fst (mediator_publish (mediator_init\<lparr>md_notifications := [(''n'', [''A'', ''B''])]\<rparr>) (\<lambda>ht e s. s)
     (\<lambda>ht s. (Inl (PyBaseException ''CancelledError'' ht), s)) (\<lambda>h ev s. (Inr (), s))
     (demo_event Notification ''n'') (0::nat)) = Inr ()"
  by (rule notifications_never_raise) (simp add: demo_event_def)

section \<open>Registration\<close>

text \<open>The handler classes of all registries, and the well-formedness of a mediator with its
  container.\<close>

definition handler_set :: "(string \<times> string list) list \<Rightarrow> string set" where
  "handler_set reg = \<Union> (set ` snd ` set reg)"

definition handlers_of :: "mediator \<Rightarrow> string set" where
  "handlers_of md = snd ` set (md_commands md) \<union> snd ` set (md_queries md)
     \<union> handler_set (md_events md) \<union> handler_set (md_integrations md)
     \<union> handler_set (md_notifications md)"

definition mediator_inv :: "('s, 'v) mstate \<Rightarrow> bool" where
  "mediator_inv st \<longleftrightarrow>
     distinct (map fst (md_commands (fst st))) \<and> distinct (map fst (md_queries (fst st))) \<and>
     (\<forall>h \<in> handlers_of (fst st). map_of (ct_providers (snd st)) (KClass h) \<noteq> None)"

text \<open>Any registration, whether it returns or raises.\<close>

inductive mediator_step ::
  "(string \<Rightarrow> ('s, 'v) factory) \<Rightarrow> ('s, 'v) mstate \<Rightarrow> ('s, 'v) mstate \<Rightarrow> bool" for cls where
  "register_command cls msg h st = (x, st') \<Longrightarrow> mediator_step cls st st'"
| "register_query cls msg h st = (x, st') \<Longrightarrow> mediator_step cls st st'"
| "register_event cls ev h st = (x, st') \<Longrightarrow> mediator_step cls st st'"
| "register_integration cls ev h st = (x, st') \<Longrightarrow> mediator_step cls st st'"
| "register_notification cls ev h st = (x, st') \<Longrightarrow> mediator_step cls st st'"

lemma ensure_provider_spec:
  "ensure_provider cls h (md, c) = (x, (md', c')) \<Longrightarrow>
     x = Inr () \<and> md' = md \<and> map_of (ct_providers c') (KClass h) \<noteq> None \<and>
     (\<forall>k p. map_of (ct_providers c) k = Some p \<longrightarrow> map_of (ct_providers c') k = Some p)"
  by (auto simp: ensure_provider_def register_transient_def di_register_def make_provider_def
      update_conv' split: option.splits sum.splits)

lemma set_update_sub: "set (AList.update k v al) \<subseteq> insert (k, v) (set al)"
  by (induction al) auto

lemma snd_update_sub: "snd ` set (AList.update k v al) \<subseteq> insert v (snd ` set al)"
  by (induction al) auto

lemma set_add_handler:
  "handler_set (add_handler k h reg) \<subseteq> insert h (handler_set reg)"
proof -
  have "set (get_or (map_of reg k) []) \<subseteq> \<Union> (set ` snd ` set reg)"
    by (cases "map_of reg k") (auto dest: map_of_SomeD)
  then show ?thesis
    using set_update_sub [of k "get_or (map_of reg k) [] @ [h]" reg] 
    unfolding handler_set_def add_handler_def by force
qed

lemma Un_insert_mono:
  "A \<subseteq> insert h A' \<Longrightarrow> A \<union> B \<union> C \<union> D \<union> E \<subseteq> insert h (A' \<union> B \<union> C \<union> D \<union> E)"
  "B \<subseteq> insert h B' \<Longrightarrow> A \<union> B \<union> C \<union> D \<union> E \<subseteq> insert h (A \<union> B' \<union> C \<union> D \<union> E)"
  "C \<subseteq> insert h C' \<Longrightarrow> A \<union> B \<union> C \<union> D \<union> E \<subseteq> insert h (A \<union> B \<union> C' \<union> D \<union> E)"
  "D \<subseteq> insert h D' \<Longrightarrow> A \<union> B \<union> C \<union> D \<union> E \<subseteq> insert h (A \<union> B \<union> C \<union> D' \<union> E)"
  "E \<subseteq> insert h E' \<Longrightarrow> A \<union> B \<union> C \<union> D \<union> E \<subseteq> insert h (A \<union> B \<union> C \<union> D \<union> E')"
  by blast+

lemma handlers_of_register:
  "handlers_of (md\<lparr>md_commands := AList.update k h (md_commands md)\<rparr>) \<subseteq> insert h (handlers_of md)"
  "handlers_of (md\<lparr>md_queries := AList.update k h (md_queries md)\<rparr>) \<subseteq> insert h (handlers_of md)"
  "handlers_of (md\<lparr>md_events := add_handler k h (md_events md)\<rparr>) \<subseteq> insert h (handlers_of md)"
  "handlers_of (md\<lparr>md_integrations := add_handler k h (md_integrations md)\<rparr>) \<subseteq> insert h (handlers_of md)"
  "handlers_of (md\<lparr>md_notifications := add_handler k h (md_notifications md)\<rparr>) \<subseteq> insert h (handlers_of md)"
  using Un_insert_mono(1) [OF snd_update_sub [of k h "md_commands md"]]
    Un_insert_mono(2) [OF snd_update_sub [of k h "md_queries md"]]
    Un_insert_mono(3) [OF set_add_handler [of k h "md_events md"]]
    Un_insert_mono(4) [OF set_add_handler [of k h "md_integrations md"]]
    Un_insert_mono(5) [OF set_add_handler [of k h "md_notifications md"]]
  unfolding handlers_of_def mediator.select_convs mediator.update_convs
  by (cases md; simp only: mediator.select_convs mediator.update_convs)+

text \<open>A registration ends with \<open>ensure_provider\<close> on a mediator with one more handler.\<close>

lemma ensure_provider_inv:
  assumes "ensure_provider cls h (md', c) = (x, st')" "mediator_inv (md, c)"
    and "handlers_of md' \<subseteq> insert h (handlers_of md)"
    and "distinct (map fst (md_commands md'))" "distinct (map fst (md_queries md'))"
  shows "mediator_inv st' \<and> fst st' = md'"
proof -
  obtain md2 c2 where st': "st' = (md2, c2)" by fastforce
  from ensure_provider_spec [OF assms(1) [unfolded st']] assms(2-5) show ?thesis
    unfolding st' mediator_inv_def by fastforce
qed

lemma mediator_step_inv:
  assumes "mediator_step cls st st'" "mediator_inv st"
  shows "mediator_inv st' \<and>
    (\<forall>m h. map_of (md_commands (fst st)) m = Some h \<longrightarrow> map_of (md_commands (fst st')) m = Some h) \<and>
    (\<forall>m h. map_of (md_queries (fst st)) m = Some h \<longrightarrow> map_of (md_queries (fst st')) m = Some h)"
proof -
  obtain md c where st: "st = (md, c)" by fastforce
  have d: "distinct (map fst (md_commands md))" "distinct (map fst (md_queries md))"
    using assms(2) st by (auto simp: mediator_inv_def)
  note reg = ensure_provider_inv [OF _ assms(2) [unfolded st]] handlers_of_register [of _ _ md]
  show ?thesis
    using assms(1) [unfolded st]
  proof cases
    case (1 m h x)
    show ?thesis
    proof (cases "map_of (md_commands md) m")
      case None
      with 1 have "ensure_provider cls h (md\<lparr>md_commands := AList.update m h (md_commands md)\<rparr>, c) = (x, st')"
        by (simp add: register_command_def)
      from reg(1) [OF this] reg(2) d show ?thesis using None
        by (auto simp: st distinct_update update_conv')
    qed (use 1 assms(2) st in \<open>auto simp: register_command_def\<close>)
  next
    case (2 m h x)
    show ?thesis
    proof (cases "map_of (md_queries md) m")
      case None
      with 2 have "ensure_provider cls h (md\<lparr>md_queries := AList.update m h (md_queries md)\<rparr>, c) = (x, st')"
        by (simp add: register_query_def)
      from reg(1) [OF this] reg(3) d show ?thesis using None
        by (auto simp: st distinct_update update_conv')
    qed (use 2 assms(2) st in \<open>auto simp: register_query_def\<close>)
  next
    case (3 ev h x)
    then have "ensure_provider cls h (md\<lparr>md_events := add_handler ev h (md_events md)\<rparr>, c) = (x, st')"
      by (simp add: register_event_def)
    from reg(1) [OF this] reg(4) d show ?thesis by (auto simp: st)
  next
    case (4 ev h x)
    then have "ensure_provider cls h (md\<lparr>md_integrations := add_handler ev h (md_integrations md)\<rparr>, c) = (x, st')"
      by (simp add: register_integration_def)
    from reg(1) [OF this] reg(5) d show ?thesis by (auto simp: st)
  next
    case (5 ev h x)
    then have "ensure_provider cls h (md\<lparr>md_notifications := add_handler ev h (md_notifications md)\<rparr>, c) = (x, st')"
      by (simp add: register_notification_def)
    from reg(1) [OF this] reg(6) d show ?thesis by (auto simp: st)
  qed
qed

text \<open>However the registries are filled, every registered handler class can be found by the
  container, and the handler of a command or query is fixed by its first registration: a later
  one raises and changes nothing.\<close>

theorem mediator_registries_sound:
  assumes "(mediator_step cls)\<^sup>*\<^sup>* (mediator_init, c0) st" "(mediator_step cls)\<^sup>*\<^sup>* st st'"
  shows "(\<forall>h \<in> handlers_of (fst st). find_provider_with_owner (snd st # chain) (KClass h) \<noteq> None) \<and>
    (\<forall>m h. map_of (md_commands (fst st)) m = Some h \<longrightarrow> map_of (md_commands (fst st')) m = Some h) \<and>
    (\<forall>m h. map_of (md_queries (fst st)) m = Some h \<longrightarrow> map_of (md_queries (fst st')) m = Some h)"
proof -
  have inv: "mediator_inv st"
    using assms(1)
  proof (induction rule: rtranclp_induct)
    case base
    show ?case by (simp add: mediator_inv_def mediator_init_def handlers_of_def handler_set_def)
  next
    case (step y z)
    then show ?case using mediator_step_inv by blast
  qed
  have "mediator_inv st' \<and>
    (\<forall>m h. map_of (md_commands (fst st)) m = Some h \<longrightarrow> map_of (md_commands (fst st')) m = Some h) \<and>
    (\<forall>m h. map_of (md_queries (fst st)) m = Some h \<longrightarrow> map_of (md_queries (fst st')) m = Some h)"
    using assms(2)
  proof (induction rule: rtranclp_induct)
    case base
    show ?case using inv by simp
  next
    case (step y z)
    then show ?case using mediator_step_inv [of cls y z] by blast
  qed
  moreover have "\<forall>h \<in> handlers_of (fst st). find_provider_with_owner (snd st # chain) (KClass h) \<noteq> None"
    using inv by (auto simp: mediator_inv_def find_provider_with_owner_def split: option.split)
  ultimately show ?thesis by blast
qed

definition demo_factory :: "string \<Rightarrow> (unit, string) factory" where
  "demo_factory h = \<lparr>fa_sig = Some [], fa_async = False, fa_call = (\<lambda>kw s. (Inr (Some h), s))\<rparr>"

lemma mediator_registries_sound_witness:
  "find_provider_with_owner
     [snd (snd (register_command demo_factory ''Pay'' ''PayHandler'' (mediator_init, container_new ''root'')))]
     (KClass ''PayHandler'') \<noteq> None"
proof -
  obtain x st where run:
    "register_command demo_factory ''Pay'' ''PayHandler'' (mediator_init, container_new ''root'') = (x, st)"
    by (rule prod.exhaust)
  have "mediator_step demo_factory (mediator_init, container_new ''root'') st"
    using run by (rule mediator_step.intros(1))
  then have "(mediator_step demo_factory)\<^sup>*\<^sup>* (mediator_init, container_new ''root'') st" by blast
  from mediator_registries_sound [OF this rtranclp.rtrancl_refl, of "[]"]
  have "\<forall>h \<in> handlers_of (fst st). find_provider_with_owner [snd st] (KClass h) \<noteq> None" by blast
  moreover have "''PayHandler'' \<in> handlers_of (fst st)"
    using run by (auto simp: register_command_def ensure_provider_def mediator_init_def handlers_of_def
        register_transient_def di_register_def make_provider_def container_new_def)
  ultimately show ?thesis using run by auto
qed

text \<open>The lifetime given to a handler decorator has no effect on what the mediator registers: a
  stamped class that the container does not know yet becomes a transient, so a handler declared
  \<open>SINGLETON\<close> is created anew for every dispatch.\<close>

theorem decorated_lifetime_ignored:
  assumes "ca_handler (command_handler target lt attrs) = stamps h"
    and "map_of (md_commands md) target = None" "map_of (ct_providers c) (KClass h) = None"
    and "register_decorated cls stamps [ScanClass h] (md, c) = (x, (md', c'))"
  shows "x = Inr 1 \<and> map_of (md_commands md') target = Some h \<and>
    (\<exists>p. map_of (ct_providers c') (KClass h) = Some p \<and> prov_lifetime p = TRANSIENT)"
  using assms
  by (auto simp: command_handler_def stamp_def register_decorated_def register_kind_def
      register_command_def ensure_provider_def register_transient_def di_register_def
      make_provider_def ebind_def update_conv' dest!: sym [of "Some _"])

lemma decorated_lifetime_ignored_witness:
  "\<exists>p. map_of (ct_providers (snd (snd (register_decorated demo_factory
       (\<lambda>h. Some (''command'', ''Pay'')) [ScanClass ''PayHandler''] (mediator_init, container_new ''root'')))))
     (KClass ''PayHandler'') = Some p \<and> prov_lifetime p = TRANSIENT"
proof -
  obtain x md' c' where run: "register_decorated demo_factory (\<lambda>h. Some (''command'', ''Pay''))
      [ScanClass ''PayHandler''] (mediator_init, container_new ''root'') = (x, (md', c'))"
    by (metis prod.exhaust)
  from decorated_lifetime_ignored [OF _ _ _ this, of "''Pay''" SINGLETON]
  have "\<exists>p. map_of (ct_providers c') (KClass ''PayHandler'') = Some p \<and> prov_lifetime p = TRANSIENT"
    by (simp add: command_handler_def stamp_def mediator_init_def container_new_def)
  with run show ?thesis by simp
qed

end
