(* ===== verification/Qx_Worker.thy ===== *)
theory Qx_Worker
  imports Qx_Events Qx_Mediator
begin

text \<open>
  The package \<open>qx-worker\<close>: the liveness probe (\<open>health.py\<close>), the dead letter store (\<open>dlq\<close>) with
  the replay command of \<open>qx-cli\<close> (\<open>commands/dlq.py\<close>), and the runtime that hands messages of a
  durable consumer to the mediator (\<open>runtime\<close>). Acknowledging a message, the metrics and the
  handlers are arguments.
\<close>

section \<open>Liveness\<close>

text \<open>Times are in microseconds.\<close>

record worker_health =
  wh_stall :: int
  wh_running :: bool
  wh_last :: "instant option"

definition is_healthy :: "instant \<Rightarrow> worker_health \<Rightarrow> bool" where
  "is_healthy now h =
     (if \<not> wh_running h then False
      else case wh_last h of None \<Rightarrow> True | Some t \<Rightarrow> now - t < wh_stall h)"

definition health_touch :: "instant \<Rightarrow> worker_health \<Rightarrow> worker_health" where
  "health_touch now h = h\<lparr>wh_last := Some now\<rparr>"

definition mark_started :: "instant \<Rightarrow> worker_health \<Rightarrow> worker_health" where
  "mark_started now h = health_touch now (h\<lparr>wh_running := True\<rparr>)"

definition mark_stopped :: "worker_health \<Rightarrow> worker_health" where
  "mark_stopped h = h\<lparr>wh_running := False\<rparr>"

definition mark_activity :: "instant \<Rightarrow> worker_health \<Rightarrow> worker_health" where
  "mark_activity now h = health_touch now h"

section \<open>Dead letters\<close>

record dead_letter =
  dl_id :: uuid
  dl_event_name :: string
  dl_event_version :: int
  dl_payload :: json
  dl_headers :: headers
  dl_subject :: string
  dl_correlation_id :: "uuid option"
  dl_tenant_id :: "uuid option"
  dl_delivered_count :: nat
  dl_last_error :: string
  dl_failed_at :: instant

definition dl_clash :: "dead_letter \<Rightarrow> dead_letter \<Rightarrow> bool" where
  "dl_clash a b \<longleftrightarrow> dl_id a = dl_id b"

text \<open>\<open>ds_commit\<close> tells whether the commit of the session fails; \<open>ds_js\<close> is the JetStream
  context, if there is one.\<close>

record ('d, 'b) dlq_store =
  ds_table :: "('d, dead_letter) sql"
  ds_commit :: "'d \<Rightarrow> exn option"
  ds_js :: "(string \<Rightarrow> wire \<Rightarrow> headers \<Rightarrow> ('b, unit) eff) option"
  ds_prefix :: string

definition num_delivered :: "nats_msg \<Rightarrow> nat" where
  "num_delivered msg = get_or (nm_num_delivered msg) 1"

text \<open>\<open>bytes.hex\<close>, and the envelope: bytes that are no JSON are kept as hexadecimal text.\<close>

definition bytes_hex :: "string \<Rightarrow> string" where
  "bytes_hex s = concat (map (\<lambda>c. hex_digits 2 (of_char c)) s)"

definition dead_payload :: "wire \<Rightarrow> json" where
  "dead_payload w = (case w of Wire j \<Rightarrow> j | Bytes s \<Rightarrow> JObj [(''raw'', JStr (bytes_hex s))])"

text \<open>A header bound to a UUID column: the driver refuses other text.\<close>

definition uuid_column :: "string option \<Rightarrow> exn + uuid option" where
  "uuid_column v = (case v of
     None \<Rightarrow> Inr None
   | Some s \<Rightarrow> (case parse_uuid s of
       Some u \<Rightarrow> Inr (Some u) | None \<Rightarrow> Inl (PyException ''DBAPIError'' s)))"

definition dead_letter_of ::
  "uuid \<Rightarrow> instant \<Rightarrow> nats_msg \<Rightarrow> string option \<Rightarrow> int \<Rightarrow> uuid option \<Rightarrow> uuid option \<Rightarrow> dead_letter" where
  "dead_letter_of row_id now msg error version correlation tenant =
     \<lparr>dl_id = row_id, dl_event_name = get_or (msg_header msg ''qx.event_name'') ''<unknown>'',
      dl_event_version = version, dl_payload = dead_payload (nm_data msg),
      dl_headers = get_or (nm_headers msg) [], dl_subject = get_or (nm_subject msg) [],
      dl_correlation_id = correlation, dl_tenant_id = tenant,
      dl_delivered_count = num_delivered msg, dl_last_error = take 2048 (get_or error []),
      dl_failed_at = now\<rparr>"

definition publish_notification_dlq ::
  "(instant \<Rightarrow> string) \<Rightarrow> string \<Rightarrow> (string \<Rightarrow> wire \<Rightarrow> headers \<Rightarrow> ('b, unit) eff) \<Rightarrow> string option
     \<Rightarrow> dead_letter \<Rightarrow> ('b, unit) eff" where
  "publish_notification_dlq iso_fmt prefix js error r =
     etry (js (prefix @ ''.'' @ dl_event_name r)
        (Wire (JObj [(''id'', JStr (str_of_uuid (dl_id r))), (''event_name'', JStr (dl_event_name r)),
           (''subject'', JStr (dl_subject r)), (''failed_at'', JStr (iso_fmt (dl_failed_at r))),
           (''last_error'', case error of None \<Rightarrow> JNull | Some e \<Rightarrow> JStr e)])) [])
       (\<lambda>e. eret ())"

text \<open>\<open>fresh\<close> is the id of the row, \<open>now\<close> the time of the failure.\<close>

definition dlq_persist ::
  "(instant \<Rightarrow> string) \<Rightarrow> uuid \<Rightarrow> instant \<Rightarrow> ('d, 'b) dlq_store \<Rightarrow> nats_msg \<Rightarrow> string option
     \<Rightarrow> ('d \<times> 'b, unit) eff" where
  "dlq_persist iso_fmt fresh now ds msg error =
     (case (case msg_header msg ''qx.event_version'' of None \<Rightarrow> Some 1 | Some s \<Rightarrow> py_int s) of
        None \<Rightarrow> eraise (PyException ''ValueError'' ''invalid literal for int() with base 10'')
      | Some version \<Rightarrow>
          ebind (engine_begin (ds_commit ds)
            (ebind (elift (uuid_column (msg_header msg ''qx.correlation_id''))) (\<lambda>correlation.
             ebind (elift (uuid_column (msg_header msg ''qx.tenant_id''))) (\<lambda>tenant.
               let r = dead_letter_of fresh now msg error version correlation tenant
               in ebind (on_fst (sql_insert (ds_table ds) [r])) (\<lambda>_. eret r))))) (\<lambda>r.
          case ds_js ds of
            None \<Rightarrow> eret ()
          | Some js \<Rightarrow> on_snd (publish_notification_dlq iso_fmt (ds_prefix ds) js error r)))"

section \<open>Inspecting and replaying dead letters\<close>

definition dlq_list ::
  "('d, dead_letter) sql \<Rightarrow> nat \<Rightarrow> string option \<Rightarrow> ('d, dead_letter list) eff" where
  "dlq_list T lmt event_name =
     sql_select T
       (\<lambda>r. case event_name of
              None \<Rightarrow> True
            | Some s \<Rightarrow> s = [] \<or> like_match (py_lower (''%'' @ s @ ''%'')) (py_lower (dl_event_name r)))
       (\<lambda>r. (- dl_failed_at r, 0)) (Some lmt)"

text \<open>\<open>js\<close> publishes; \<open>confirmed\<close> is the answer to the prompt.\<close>

definition dlq_replay ::
  "('d, dead_letter) sql \<Rightarrow> (string \<Rightarrow> wire \<Rightarrow> headers \<Rightarrow> ('b, unit) eff) \<Rightarrow> uuid \<Rightarrow> string option
     \<Rightarrow> bool \<Rightarrow> bool \<Rightarrow> ('d \<times> 'b, unit) eff" where
  "dlq_replay T js row_id subject_override yes confirmed =
     ebind (on_fst (sql_select T (\<lambda>r. dl_id r = row_id) no_order None)) (\<lambda>rs.
       case rs of
         [] \<Rightarrow> eraise (PyException ''Exit'' ''1'')
       | r # _ \<Rightarrow>
           (let target = (case subject_override of
                            Some s \<Rightarrow> (if s \<noteq> [] then s else dl_subject r) | None \<Rightarrow> dl_subject r)
            in if target = [] then eraise (PyException ''Exit'' ''1'')
               else if \<not> yes \<and> \<not> confirmed then eraise (PyException ''Abort'' '''')
               else on_snd (js target (Wire (dl_payload r)) (dl_headers r))))"

section \<open>The runtime\<close>

text \<open>
  \<open>wk_ack\<close> and \<open>wk_nak\<close> settle a message; \<open>wk_gauge\<close> and \<open>wk_count\<close> are the metrics. Handlers run
  in a worker scope of the container, with the request context set.
\<close>

record ('s, 'v, 'h) worker =
  wk_consumer :: consumer
  wk_dlq :: "(nats_msg \<Rightarrow> string \<Rightarrow> ('s, unit) eff) option"
  wk_ack :: "nats_msg \<Rightarrow> ('s, unit) eff"
  wk_nak :: "nats_msg \<Rightarrow> ('s, unit) eff"
  wk_mediator :: mediator
  wk_resolve :: "string \<Rightarrow> ('s \<times> ('s, 'v) scope, 'h) eff"
  wk_handle :: "'h \<Rightarrow> event \<Rightarrow> ('s \<times> ('s, 'v) scope, unit) eff"
  wk_get_ctx :: "'s \<Rightarrow> string request_context"
  wk_put_ctx :: "string request_context \<Rightarrow> 's \<Rightarrow> 's"
  wk_gauge :: "int \<Rightarrow> 's \<Rightarrow> 's"
  wk_count :: "string \<Rightarrow> string \<Rightarrow> 's \<Rightarrow> 's"

definition is_last_attempt :: "nats_msg \<Rightarrow> consumer \<Rightarrow> bool" where
  "is_last_attempt msg cn \<longleftrightarrow>
     0 < cn_max_deliver cn \<and> cn_max_deliver cn \<le> get_or (nm_num_delivered msg) 0"

definition header_uuid :: "uuid \<Rightarrow> string option \<Rightarrow> uuid" where
  "header_uuid fresh v = (case v of
     None \<Rightarrow> fresh
   | Some s \<Rightarrow> (if s = [] then fresh else get_or (parse_uuid s) fresh))"

definition header_tenant :: "string option \<Rightarrow> exn + uuid option" where
  "header_tenant v = (case v of
     None \<Rightarrow> Inr None
   | Some s \<Rightarrow> (if s = [] then Inr None
               else case parse_uuid s of
                      Some u \<Rightarrow> Inr (Some u)
                    | None \<Rightarrow> Inl (PyException ''ValueError'' ''badly formed hexadecimal UUID string'')))"

text \<open>\<open>fresh 0\<close> and \<open>fresh 1\<close> are the generated request and correlation ids.\<close>

definition worker_context ::
  "(nat \<Rightarrow> uuid) \<Rightarrow> nats_msg \<Rightarrow> string \<Rightarrow> exn + string request_context" where
  "worker_context fresh msg event_name =
     (case header_tenant (msg_header msg ''qx.tenant_id'') of
        Inl e \<Rightarrow> Inl e
      | Inr tenant \<Rightarrow> Inr
          \<lparr>rc_request_id = fresh 0, rc_correlation_id = header_uuid (fresh 1) (msg_header msg ''qx.correlation_id''),
           rc_trace_id = None, rc_span_id = None, rc_user_id = None, rc_tenant_id = tenant,
           rc_actor_kind = Some ''system'', rc_attributes = [(''event_name'', event_name)]\<rparr>)"

definition with_scope :: "string \<Rightarrow> ('s \<times> ('s, 'v) scope, 'a) eff \<Rightarrow> ('s, 'a) eff" where
  "with_scope name body s =
     (case efinally body scope_aexit (s, scope_new name) of (x, (s', sc)) \<Rightarrow> (x, s'))"

definition worker_dispatch :: "('s, 'v, 'h) worker \<Rightarrow> event \<Rightarrow> ('s, unit) eff" where
  "worker_dispatch wk ev =
     with_scope ''worker'' (consume_integration (wk_mediator wk) (wk_resolve wk) (wk_handle wk) ev)"

definition settle_failure :: "('s, 'v, 'h) worker \<Rightarrow> nats_msg \<Rightarrow> exn \<Rightarrow> ('s, string) eff" where
  "settle_failure wk msg e =
     (if exn_class e = ''PermanentWorkerError'' then ebind (wk_ack wk msg) (\<lambda>_. eret ''drop'')
      else case wk_dlq wk of
             Some persist \<Rightarrow>
               (if is_last_attempt msg (wk_consumer wk)
                then ebind (etry (persist msg (exn_str e)) (\<lambda>_. eret ())) (\<lambda>_.
                     ebind (wk_ack wk msg) (\<lambda>_. eret ''dlq''))
                else ebind (wk_nak wk msg) (\<lambda>_. eret ''nak''))
           | None \<Rightarrow> ebind (wk_nak wk msg) (\<lambda>_. eret ''nak''))"

definition worker_process ::
  "('s, 'v, 'h) worker \<Rightarrow> (nat \<Rightarrow> uuid) \<Rightarrow> nats_msg \<Rightarrow> string \<Rightarrow> ('s, string) eff" where
  "worker_process wk fresh msg event_name =
     (case parse_message (cn_registry (wk_consumer wk)) msg of
        Inl e \<Rightarrow>
          (if exn_class e = ''EventTypeNotRegistered'' then ebind (wk_ack wk msg) (\<lambda>_. eret ''drop'')
           else if is_exception e then ebind (wk_nak wk msg) (\<lambda>_. eret ''nak'')
           else eraise e)
      | Inr ev \<Rightarrow>
          ebind (elift (worker_context fresh msg event_name)) (\<lambda>ctx.
            request_scope (wk_get_ctx wk) (wk_put_ctx wk) (fresh 2) (Some ctx) None (\<lambda>_.
              etry (ebind (worker_dispatch wk ev) (\<lambda>_. ebind (wk_ack wk msg) (\<lambda>_. eret ''ack'')))
                (settle_failure wk msg))))"

definition handle_one ::
  "('s, 'v, 'h) worker \<Rightarrow> (nat \<Rightarrow> uuid) \<Rightarrow> nats_msg \<Rightarrow> ('s, unit) eff" where
  "handle_one wk fresh msg =
     (let event_name = get_or (msg_header msg ''qx.event_name'') ''<unknown>''
      in ebind (emodify (wk_gauge wk 1)) (\<lambda>_.
         ebind (efinally (worker_process wk fresh msg event_name) (emodify (wk_gauge wk (- 1)))) (\<lambda>result.
           emodify (wk_count wk event_name result))))"

section \<open>The run loop\<close>

text \<open>
  \<open>lp_running\<close> are the messages whose task has not ended, \<open>lp_asked\<close> is a fetch under way and its
  size; \<open>lp_fetched\<close> and \<open>lp_handled\<close> only record what happened. A fetch that times out or fails
  brings no message; a failed one is no activity.
\<close>

record 'm loop =
  lp_running :: "'m list"
  lp_asked :: "nat option"
  lp_stop :: bool
  lp_returned :: bool
  lp_health :: worker_health
  lp_fetched :: "'m list"
  lp_handled :: "'m list"

definition loop_start :: "instant \<Rightarrow> worker_health \<Rightarrow> 'm loop" where
  "loop_start now h =
     \<lparr>lp_running = [], lp_asked = None, lp_stop = False, lp_returned = False,
      lp_health = mark_started now h, lp_fetched = [], lp_handled = []\<rparr>"

inductive worker_step :: "nat \<Rightarrow> 'm loop \<Rightarrow> 'm loop \<Rightarrow> bool" for concurrency where
  worker_ask: "\<not> lp_stop l \<Longrightarrow> \<not> lp_returned l \<Longrightarrow> lp_asked l = None \<Longrightarrow>
    length (lp_running l) < concurrency \<Longrightarrow>
    worker_step concurrency l (l\<lparr>lp_asked := Some (concurrency - length (lp_running l))\<rparr>)"
| worker_batch: "lp_asked l = Some n \<Longrightarrow> length ms \<le> n \<Longrightarrow>
    worker_step concurrency l (l\<lparr>lp_asked := None, lp_running := lp_running l @ ms,
      lp_fetched := lp_fetched l @ ms, lp_health := mark_activity now (lp_health l)\<rparr>)"
| worker_fetch_failed: "lp_asked l = Some n \<Longrightarrow> worker_step concurrency l (l\<lparr>lp_asked := None\<rparr>)"
| worker_finish: "lp_running l = xs @ m # ys \<Longrightarrow>
    worker_step concurrency l (l\<lparr>lp_running := xs @ ys, lp_handled := lp_handled l @ [m]\<rparr>)"
| worker_stop: "worker_step concurrency l (l\<lparr>lp_stop := True\<rparr>)"
| worker_leave: "lp_stop l \<Longrightarrow> lp_asked l = None \<Longrightarrow> lp_running l = [] \<Longrightarrow>
    worker_step concurrency l (l\<lparr>lp_returned := True, lp_health := mark_stopped (lp_health l)\<rparr>)"

definition loop_inv :: "nat \<Rightarrow> 'm loop \<Rightarrow> bool" where
  "loop_inv concurrency l \<longleftrightarrow>
     length (lp_running l) + get_or (lp_asked l) 0 \<le> concurrency \<and>
     mset (lp_fetched l) = mset (lp_handled l) + mset (lp_running l) \<and>
     (lp_returned l \<longrightarrow> lp_running l = [] \<and> lp_asked l = None \<and> \<not> wh_running (lp_health l))"

lemma loop_step_inv: "worker_step concurrency l l' \<Longrightarrow> loop_inv concurrency l \<Longrightarrow> loop_inv concurrency l'"
  by (induction rule: worker_step.induct)
    (auto simp: loop_inv_def mark_activity_def health_touch_def mark_stopped_def)

section \<open>Settling a message\<close>

text \<open>
  \<open>settled\<close> counts acknowledgements and negative ones together. Nothing but the two calls counts,
  and what the handlers and the dead letter store raise are ordinary exceptions.
\<close>

definition settling :: "('s \<Rightarrow> nat) \<Rightarrow> ('s, 'v, 'h) worker \<Rightarrow> bool" where
  "settling settled wk \<longleftrightarrow>
     (\<forall>msg s. \<exists>s'. wk_ack wk msg s = (Inr (), s') \<and> settled s' = Suc (settled s)) \<and>
     (\<forall>msg s. \<exists>s'. wk_nak wk msg s = (Inr (), s') \<and> settled s' = Suc (settled s)) \<and>
     (\<forall>c s. settled (wk_put_ctx wk c s) = settled s)"

definition plain_failures :: "('s \<Rightarrow> nat) \<Rightarrow> ('s, 'a) eff \<Rightarrow> bool" where
  "plain_failures settled m \<longleftrightarrow>
     (\<forall>s x s'. m s = (x, s') \<longrightarrow> settled s' = settled s \<and> (\<forall>e. x = Inl e \<longrightarrow> is_exception e))"

definition orderly :: "('s \<Rightarrow> nat) \<Rightarrow> ('s, 'v, 'h) worker \<Rightarrow> bool" where
  "orderly settled wk \<longleftrightarrow> settling settled wk \<and> (\<forall>ev. plain_failures settled (worker_dispatch wk ev)) \<and>
     (\<forall>persist msg err. wk_dlq wk = Some persist \<longrightarrow> plain_failures settled (persist msg err))"

definition results :: "string set" where
  "results = {''ack'', ''nak'', ''drop'', ''dlq''}"

text \<open>An effect that returns one of the results having settled the message once.\<close>

definition settles :: "('s \<Rightarrow> nat) \<Rightarrow> ('s, string) eff \<Rightarrow> bool" where
  "settles settled m \<longleftrightarrow>
     (\<forall>s. \<exists>r s'. m s = (Inr r, s') \<and> r \<in> results \<and> settled s' = Suc (settled s))"

lemma settles_ack:
  assumes "settling settled wk" "r \<in> results"
  shows "settles settled (ebind (wk_ack wk msg) (\<lambda>_. eret r))"
    and "settles settled (ebind (wk_nak wk msg) (\<lambda>_. eret r))"
  using assms unfolding settles_def settling_def by (metis ebind_Inr eret_apply)+

lemma settles_at: "settles settled m \<Longrightarrow> \<exists>r s'. m s = (Inr r, s') \<and> r \<in> results \<and> settled s' = Suc (settled s)"
  by (simp add: settles_def)

lemma settles_after:
  assumes "plain_failures settled m" "\<And>e. settles settled (h e)" "\<And>x. settles settled (f x)"
  shows "settles settled (etry (ebind m f) h)"
  unfolding settles_def
proof (intro allI)
  fix s
  obtain x s1 where m: "m s = (x, s1)" by (rule prod.exhaust)
  with assms(1) have k: "settled s1 = settled s" "\<And>e. x = Inl e \<Longrightarrow> is_exception e"
    unfolding plain_failures_def by blast+
  show "\<exists>r s'. etry (ebind m f) h s = (Inr r, s') \<and> r \<in> results \<and> settled s' = Suc (settled s)"
  proof (cases x)
    case (Inl e)
    with m k settles_at [OF assms(2), of e s1] show ?thesis by (simp add: etry_def ebind_def)
  next
    case (Inr y)
    with m k(1) settles_at [OF assms(3), of y s1] show ?thesis by (auto simp: etry_def ebind_def)
  qed
qed

lemma settles_tried:
  assumes "plain_failures settled m" "\<And>x. settles settled (f x)"
  shows "settles settled (ebind (etry m (\<lambda>e. eret d)) f)"
  unfolding settles_def
proof (intro allI)
  fix s
  obtain x s1 where m: "m s = (x, s1)" by (rule prod.exhaust)
  with assms(1) have k: "settled s1 = settled s" "\<And>e. x = Inl e \<Longrightarrow> is_exception e"
    unfolding plain_failures_def by blast+
  then obtain y where "etry m (\<lambda>e. eret d) s = (Inr y, s1)"
    using m by (cases x) (auto simp: etry_def)
  with k(1) settles_at [OF assms(2), of y s1]
  show "\<exists>r s'. ebind (etry m (\<lambda>e. eret d)) f s = (Inr r, s') \<and> r \<in> results \<and> settled s' = Suc (settled s)"
    by (simp add: ebind_Inr)
qed

lemma settle_failure_settles:
  assumes "orderly settled wk"
  shows "settles settled (settle_failure wk msg e)"
proof -
  have s: "settling settled wk" and d: "\<And>persist err. wk_dlq wk = Some persist \<Longrightarrow>
      plain_failures settled (persist msg err)" using assms by (simp_all add: orderly_def)
  have r: "''drop'' \<in> results" "''nak'' \<in> results" "''dlq'' \<in> results" by (simp_all add: results_def)
  show ?thesis
    unfolding settle_failure_def using settles_ack [OF s] settles_tried [OF d] r
    by (auto split: option.split)
qed

lemma settles_request_scope:
  assumes "settling settled wk" "settles settled (body ctx)"
  shows "settles settled (request_scope (wk_get_ctx wk) (wk_put_ctx wk) u (Some ctx) None body)"
proof -
  have p: "settled (wk_put_ctx wk c s) = settled s" for c s using assms(1) by (simp add: settling_def)
  show ?thesis unfolding settles_def
  proof
    fix s
    from settles_at [OF assms(2), of "wk_put_ctx wk ctx s"] obtain r s'
      where "body ctx (wk_put_ctx wk ctx s) = (Inr r, s')" "r \<in> results" "settled s' = Suc (settled s)"
      by (auto simp: p)
    then show "\<exists>r s'. request_scope (wk_get_ctx wk) (wk_put_ctx wk) u (Some ctx) None body s = (Inr r, s') \<and>
        r \<in> results \<and> settled s' = Suc (settled s)"
      by (simp add: request_scope_def scoped_var_def efinally_def Let_def p)
  qed
qed

lemma process_settles:
  assumes o: "orderly settled wk"
    and p: "\<And>e. parse_message (cn_registry (wk_consumer wk)) msg = Inl e \<Longrightarrow> is_exception e"
    and t: "\<And>ev. parse_message (cn_registry (wk_consumer wk)) msg = Inr ev \<Longrightarrow>
      \<exists>tenant. header_tenant (msg_header msg ''qx.tenant_id'') = Inr tenant"
  shows "settles settled (worker_process wk fresh msg event_name)"
proof -
  have s: "settling settled wk" and d: "\<And>ev. plain_failures settled (worker_dispatch wk ev)"
    using o by (simp_all add: orderly_def)
  have r: "''drop'' \<in> results" "''nak'' \<in> results" "''ack'' \<in> results" by (simp_all add: results_def)
  show ?thesis
  proof (cases "parse_message (cn_registry (wk_consumer wk)) msg")
    case (Inl e)
    with p settles_ack [OF s] r show ?thesis by (simp add: worker_process_def)
  next
    case (Inr ev)
    obtain ctx where c: "worker_context fresh msg event_name = Inr ctx"
      using t [OF Inr] by (auto simp: worker_context_def)
    have "settles settled (etry (ebind (worker_dispatch wk ev) (\<lambda>_. ebind (wk_ack wk msg) (\<lambda>_. eret ''ack'')))
        (settle_failure wk msg))"
      by (intro settles_after d settle_failure_settles o settles_ack s r)
    then show ?thesis using Inr c
      by (simp add: worker_process_def elift_def [abs_def] settles_request_scope [OF s])
  qed
qed

section \<open>What the store keeps of a dead message\<close>

text \<open>A session that can commit, a message whose headers fit the columns.\<close>

definition storable :: "nats_msg \<Rightarrow> bool" where
  "storable msg \<longleftrightarrow>
     (\<forall>s. msg_header msg ''qx.event_version'' = Some s \<longrightarrow> py_int s \<noteq> None) \<and>
     (\<forall>s. msg_header msg ''qx.correlation_id'' = Some s \<longrightarrow> parse_uuid s \<noteq> None) \<and>
     (\<forall>s. msg_header msg ''qx.tenant_id'' = Some s \<longrightarrow> parse_uuid s \<noteq> None)"

lemma uuid_column_ok:
  "(\<forall>s. v = Some s \<longrightarrow> parse_uuid s \<noteq> None) \<Longrightarrow> \<exists>u. uuid_column v = Inr u"
  by (cases v) (auto simp: uuid_column_def split: option.splits)

lemma persist_stores:
  assumes "sql_up (ds_table ds) rows dl_clash rest" "ds_commit ds = (\<lambda>_. None)" "storable msg"
    "unique_rows dl_clash (rows d)" "\<forall>r \<in> set (rows d). dl_id r \<noteq> fresh"
    "dlq_persist iso_fmt fresh now ds msg error (d, b) = (x, (d', b'))"
  shows "\<exists>v cor ten. rows d' = rows d @ [dead_letter_of fresh now msg error v cor ten]"
proof -
  obtain v where v: "(case msg_header msg ''qx.event_version'' of None \<Rightarrow> Some 1 | Some s \<Rightarrow> py_int s) = Some v"
    using assms(3) by (cases "msg_header msg ''qx.event_version''") (auto simp: storable_def)
  obtain cor ten where c: "uuid_column (msg_header msg ''qx.correlation_id'') = Inr cor"
    "uuid_column (msg_header msg ''qx.tenant_id'') = Inr ten"
    using assms(3) uuid_column_ok unfolding storable_def by metis
  let ?r = "dead_letter_of fresh now msg error v cor ten"
  have u: "unique_rows dl_clash (rows d @ [?r])"
  proof -
    have "unique_rows dl_clash [?r]" by (simp add: unique_rows_def)
    with assms(4,5) show ?thesis by (auto simp: unique_rows_append dl_clash_def dead_letter_of_def)
  qed
  obtain d1 where i: "sql_insert (ds_table ds) [?r] d = (Inr (), d1)"
    using sql_up.insert_up [OF assms(1) u] by blast
  have "rows d1 = rows d @ [?r]"
    using sql_table.insert_ok [OF sql_up.axioms(1) [OF assms(1)] i assms(4)] by simp
  moreover have "d' = d1"
    using assms(2,6) v c i
    by (auto simp: dlq_persist_def engine_begin_def ebind_def Let_def publish_notification_dlq_def etry_def
        split: option.splits prod.splits sum.splits if_splits)
  ultimately show ?thesis by blast
qed

section \<open>Properties\<close>

text \<open>A worker on a counter, whose handlers fail, and a message for it.\<close>

definition demo_msg :: nats_msg where
  "demo_msg =
     \<lparr>nm_data = Wire (JObj (envelope_at ''0'' (demo_event IntegrationEvent ''order.paid''))),
      nm_headers = Some [(''qx.event_name'', ''order.paid'')], nm_subject = Some ''shop.order.paid'',
      nm_num_delivered = Some 5\<rparr>"

definition demo_worker :: "(string request_context \<times> nat, unit, unit) worker" where
  "demo_worker =
     \<lparr>wk_consumer = \<lparr>cn_registry = [((''order.paid'', 1), demo_class)], cn_stream = ''shop'',
        cn_durable = ''worker'', cn_subject_filter = ''shop.*'', cn_max_deliver = 5, cn_ack_wait = 30,
        cn_connected = True\<rparr>,
      wk_dlq = Some (\<lambda>m e. eret ()), wk_ack = (\<lambda>m (c, n). (Inr (), (c, Suc n))),
      wk_nak = (\<lambda>m (c, n). (Inr (), (c, Suc n))),
      wk_mediator = mediator_init\<lparr>md_integrations := [(''order.paid'', [''H''])]\<rparr>,
      wk_resolve = (\<lambda>h. eret ()), wk_handle = (\<lambda>h ev. eraise (PyException ''RuntimeError'' ''down'')),
      wk_get_ctx = fst, wk_put_ctx = (\<lambda>c (d, n). (c, n)), wk_gauge = (\<lambda>n s. s), wk_count = (\<lambda>e r s. s)\<rparr>"

definition demo_received :: event where
  "demo_received = (demo_event IntegrationEvent ''order.paid'')\<lparr>ev_occurred_at := AtText ''0''\<rparr>"

lemma demo_parsed:
  "parse_message (cn_registry (wk_consumer demo_worker))
     \<lparr>nm_data = nm_data demo_msg, nm_headers = h, nm_subject = s, nm_num_delivered = n\<rparr> = Inr demo_received"
proof -
  let ?ev = "demo_event IntegrationEvent ''order.paid''"
  have "ec_validate demo_class (event_fields (ev_body ?ev) (envelope_at ''0'' ?ev)) = Inr demo_received"
    unfolding demo_received_def
    by (rule reads_envelope [where names = "[]" and dumps = "\<lambda>b. b = []", OF _ demo_event_ok])
      (use demo_reads_fields in \<open>simp_all add: demo_event_def demo_class_def\<close>)
  then show ?thesis
    using parse_envelope [of ?ev]
    by (simp add: demo_worker_def demo_msg_def registry_lookup_def) (simp add: demo_event_def)
qed

lemma demo_msg_parsed:
  "parse_message (cn_registry (wk_consumer demo_worker)) demo_msg = Inr demo_received"
  using demo_parsed [of "nm_headers demo_msg" "nm_subject demo_msg" "nm_num_delivered demo_msg"] by (simp add: demo_msg_def)

lemma demo_worker_orderly: "orderly snd demo_worker"
proof -
  have "worker_dispatch demo_worker ev s = (if ev_type ev = ''order.paid''
      then Inl (PyException ''RuntimeError'' ''down'')
      else Inl (mediator_error (''No integration handler registered for '' @ ev_type ev)), s)" for ev s
    by (simp add: worker_dispatch_def with_scope_def consume_integration_def demo_worker_def
        mediator_init_def efinally_def ebind_def scope_aexit_def scope_close_def scope_new_def etry_all_def)
  then show ?thesis
    by (auto simp: orderly_def settling_def plain_failures_def mediator_error_def split: if_splits)
      (auto simp: demo_worker_def)
qed



text \<open>A message with an unreadable tenant header is not settled at all: processing raises before
  any handler, and neither acknowledges it nor moves it to the dead letter store, however often it
  is delivered.\<close>

theorem worker_bad_tenant_unsettled:
  assumes "parse_message (cn_registry (wk_consumer wk)) msg = Inr ev"
    "header_tenant (msg_header msg ''qx.tenant_id'') = Inl e"
  shows "worker_process wk fresh msg event_name s = (Inl e, s)"
  using assms by (simp add: worker_process_def worker_context_def ebind_Inl elift_def)

lemma worker_bad_tenant_unsettled_witness:
  "\<exists>e. worker_process demo_worker id
     (demo_msg\<lparr>nm_headers := Some [(''qx.tenant_id'', ''acme'')]\<rparr>) ''order.paid'' (undefined, 0) =
     (Inl e, (undefined, 0))"
proof -
  let ?m = "demo_msg\<lparr>nm_headers := Some [(''qx.tenant_id'', ''acme'')]\<rparr>"
  have "parse_uuid ''acme'' = None" by code_simp
  then have h: "header_tenant (msg_header ?m ''qx.tenant_id'') =
      Inl (PyException ''ValueError'' ''badly formed hexadecimal UUID string'')"
    by (simp add: msg_header_def header_tenant_def)
  have p: "parse_message (cn_registry (wk_consumer demo_worker)) ?m =
      Inr demo_received"
    using demo_parsed [of "nm_headers ?m" "nm_subject demo_msg" "nm_num_delivered demo_msg"] by (simp add: demo_msg_def)
  show ?thesis using worker_bad_tenant_unsettled [OF p h] by blast
qed

text \<open>C31: The run loop never has more tasks than its concurrency, handles no message it did not
  fetch, and does not return before every message it fetched has been handled once.\<close>

theorem worker_bounded_and_drained:
  assumes "(worker_step concurrency)\<^sup>*\<^sup>* (loop_start now h) l"
  shows "length (lp_running l) \<le> concurrency \<and> mset (lp_handled l) \<subseteq># mset (lp_fetched l) \<and>
    (lp_returned l \<longrightarrow> mset (lp_handled l) = mset (lp_fetched l) \<and> \<not> is_healthy t (lp_health l))"
proof -
  from assms have "loop_inv concurrency l"
    by (induction rule: rtranclp_induct) (simp add: loop_inv_def loop_start_def, rule loop_step_inv)
  then show ?thesis by (auto simp: loop_inv_def is_healthy_def)
qed

lemma worker_bounded_and_drained_witness:
  "\<exists>l. lp_running l = [''a''] \<and> length (lp_running l) \<le> 1 \<and> (worker_step 1)\<^sup>*\<^sup>*
     (loop_start 0 \<lparr>wh_stall = 30, wh_running = False, wh_last = None\<rparr>) l"
proof -
  let ?h = "\<lparr>wh_stall = 30, wh_running = False, wh_last = None\<rparr>"
  let ?s = "loop_start 0 ?h :: string loop"
  let ?l = "?s\<lparr>lp_asked := None, lp_running := [''a''], lp_fetched := [''a''],
    lp_health := mark_activity 5 (lp_health ?s)\<rparr>"
  have a: "worker_step 1 ?s (?s\<lparr>lp_asked := Some 1\<rparr>)"
    using worker_ask [of ?s 1] by (simp add: loop_start_def)
  have b: "worker_step 1 (?s\<lparr>lp_asked := Some 1\<rparr>) ?l"
    using worker_batch [of "?s\<lparr>lp_asked := Some 1\<rparr>" 1 "[''a'']" 1 5] by (simp add: loop_start_def)
  have r: "(worker_step 1)\<^sup>*\<^sup>* ?s ?l" using a b by (meson converse_rtranclp_into_rtranclp r_into_rtranclp)
  have "length (lp_running ?l) \<le> 1" using worker_bounded_and_drained [OF r] by blast
  with r show ?thesis by (intro exI [of _ ?l]) simp
qed

text \<open>Replaying a dead letter publishes the message again as it was: for a JSON message with a
  subject and readable headers, persisting it and replaying the stored row sends the same bytes
  with the same headers to the same subject.\<close>

theorem dlq_replay_restores:
  assumes "sql_up (ds_table ds) rows dl_clash rest" "ds_commit ds = (\<lambda>_. None)" "storable msg"
    "unique_rows dl_clash (rows d)" "\<forall>r \<in> set (rows d). dl_id r \<noteq> fresh"
    "dlq_persist iso_fmt fresh now ds msg error (d, b) = (x, (d', b'))"
    "nm_data msg = Wire j" "nm_subject msg = Some subj" "subj \<noteq> []"
  shows "dlq_replay (ds_table ds) js fresh None True c (d', b'') =
    on_snd (js subj (Wire j) (get_or (nm_headers msg) [])) (d', b'')"
proof -
  obtain v cor ten where r: "rows d' = rows d @ [dead_letter_of fresh now msg error v cor ten]"
    using persist_stores [OF assms(1-6)] by blast
  let ?r = "dead_letter_of fresh now msg error v cor ten"
  have f: "filter (\<lambda>r. dl_id r = fresh) (rows d') = [?r]"
    using assms(5) r by (simp add: dead_letter_of_def filter_empty_conv)
  obtain rs d1 where s: "sql_select (ds_table ds) (\<lambda>r. dl_id r = fresh) no_order None d' = (Inr rs, d1)"
    using sql_up.select_up [OF assms(1)] by blast
  note t = sql_up.axioms(1) [OF assms(1)]
  have "mset rs = {#?r#}" using sql_table.select_mset(1) [OF t s] f by simp
  then have "rs = [?r]" by simp
  with s sql_table.select_state [OF t s] show ?thesis
    using assms(7-9) by (simp add: dlq_replay_def ebind_def Let_def dead_letter_of_def dead_payload_def)
qed

definition demo_dlq :: "(dead_letter list, bus_message list) dlq_store" where
  "demo_dlq = \<lparr>ds_table = list_sql (\<lambda>rs. rs) (\<lambda>rs _. rs) dl_clash, ds_commit = (\<lambda>d. None),
     ds_js = None, ds_prefix = ''qx_dlq''\<rparr>"

lemma dlq_replay_restores_witness:
  "\<exists>d'. dlq_replay (ds_table demo_dlq) (\<lambda>s m h b. (Inr (), b @ [(s, m, h)])) 9 None True False (d', []) =
     (Inr (), (d', [(''shop.order.paid'', nm_data demo_msg, [(''qx.event_name'', ''order.paid'')])]))"
proof -
  obtain x d' b' where p: "dlq_persist demo_iso 9 50 demo_dlq demo_msg (Some ''down'') ([], []) = (x, (d', b'))"
    by (metis prod.exhaust)
  have up: "sql_up (ds_table demo_dlq) (\<lambda>rs. rs) dl_clash (\<lambda>_. ())"
    unfolding demo_dlq_def by simp (rule list_table.sql_up_axioms)
  have c: "ds_commit demo_dlq = (\<lambda>_. None)" by (simp add: demo_dlq_def)
  have s: "storable demo_msg" by (simp add: storable_def msg_header_def demo_msg_def)
  have m: "nm_data demo_msg = Wire (JObj (envelope_at ''0'' (demo_event IntegrationEvent ''order.paid'')))"
    "nm_subject demo_msg = Some ''shop.order.paid''" by (simp_all add: demo_msg_def)
  have u: "unique_rows dl_clash []" "\<forall>r \<in> set []. dl_id r \<noteq> 9" by (simp_all add: unique_rows_def)
  from dlq_replay_restores [OF up c s u p m, of "\<lambda>s m h b. (Inr (), b @ [(s, m, h)])" False "[]"]
  show ?thesis by (auto simp: demo_msg_def)
qed

end
