(* ===== verification/Qx_Auth.thy ===== *)
theory Qx_Auth
  imports Qx_Cache "HOL-Library.Sublist"
begin

text \<open>
  The package \<open>qx-auth\<close> without its rate limiter: permissions (\<open>rbac\<close>), policies (\<open>policy\<close>), the
  validation of tokens (\<open>jwt\<close>) with the revocation store (\<open>revocation\<close>), discovery (\<open>oidc\<close>) and
  the HTTP middleware with its two dependencies (\<open>http\<close>). The token library and the HTTP client
  are arguments.
\<close>

section \<open>Permissions\<close>

text \<open>\<open>g.endswith(".*")\<close> and the test of the prefix before it.\<close>

definition wildcard_covers :: "string \<Rightarrow> string \<Rightarrow> bool" where
  "wildcard_covers name g \<longleftrightarrow> py_endswith g ''.*'' \<and>
     (let prefix = take (length g - 2) g in name = prefix \<or> py_startswith name (prefix @ ''.''))"

definition perm_matches :: "string \<Rightarrow> string list \<Rightarrow> bool" where
  "perm_matches name granted \<longleftrightarrow>
     name \<in> set granted \<or> list_ex (\<lambda>g. wildcard_covers name g \<or> g = ''*'') granted"

section \<open>Policies\<close>

text \<open>Sets of names are lists.\<close>

record auth_principal =
  ap_subject :: uuid
  ap_issuer :: json
  ap_tenant_id :: "uuid option"
  ap_email :: "json option"
  ap_name :: "json option"
  ap_roles :: "string list"
  ap_permissions :: "string list"
  ap_scopes :: "string list"
  ap_raw_claims :: dict

definition has_role :: "auth_principal \<Rightarrow> string \<Rightarrow> bool" where
  "has_role p role \<longleftrightarrow> role \<in> set (ap_roles p)"

definition has_permission :: "auth_principal \<Rightarrow> string \<Rightarrow> bool" where
  "has_permission p permission \<longleftrightarrow> permission \<in> set (ap_permissions p)"

definition has_scope :: "auth_principal \<Rightarrow> string \<Rightarrow> bool" where
  "has_scope p scope \<longleftrightarrow> scope \<in> set (ap_scopes p)"

datatype decision = Allow | Deny | NotApplicable

record policy_result =
  pr_decision :: decision
  pr_reason :: "string option"

record ('q, 's) auth_policy =
  po_name :: string
  po_rule :: "auth_principal \<Rightarrow> 'q \<Rightarrow> ('s, policy_result) eff"

abbreviation allow_result :: policy_result where
  "allow_result \<equiv> \<lparr>pr_decision = Allow, pr_reason = None\<rparr>"

definition deny_result :: "string \<Rightarrow> policy_result" where
  "deny_result reason = \<lparr>pr_decision = Deny, pr_reason = Some reason\<rparr>"

definition require_permission :: "string \<Rightarrow> ('q, 's) auth_policy" where
  "require_permission permission =
     \<lparr>po_name = ''require_permission('' @ permission @ '')'',
      po_rule = (\<lambda>p resource. eret
        (if perm_matches permission (ap_permissions p) then allow_result
         else deny_result (''missing required permission: '' @ permission)))\<rparr>"

text \<open>The text of a tuple of names without quotes.\<close>

definition repr_name :: "string \<Rightarrow> string" where
  "repr_name s = CHR 0x27 # s @ [CHR 0x27]"

definition repr_tuple :: "string list \<Rightarrow> string" where
  "repr_tuple xs =
     ''('' @ py_join '', '' (map repr_name xs) @ (if length xs = 1 then '','' else []) @ '')''"

definition require_any_permission :: "string list \<Rightarrow> ('q, 's) auth_policy" where
  "require_any_permission permissions =
     \<lparr>po_name = ''require_any('' @ repr_tuple permissions @ '')'',
      po_rule = (\<lambda>p resource. eret
        (if list_ex (\<lambda>q. perm_matches q (ap_permissions p)) permissions then allow_result
         else deny_result (''missing any of: '' @ py_join '', '' permissions)))\<rparr>"

definition require_all_permissions :: "string list \<Rightarrow> ('q, 's) auth_policy" where
  "require_all_permissions permissions =
     \<lparr>po_name = ''require_all('' @ repr_tuple permissions @ '')'',
      po_rule = (\<lambda>p resource. eret
        (let missing = filter (\<lambda>q. \<not> perm_matches q (ap_permissions p)) permissions
         in if missing \<noteq> [] then deny_result (''missing required permissions: '' @ py_join '', '' missing)
            else allow_result))\<rparr>"

definition policy_denied :: "('q, 's) auth_policy \<Rightarrow> policy_result \<Rightarrow> error" where
  "policy_denied policy outcome =
     Error ForbiddenError ''authz.denied''
       (case pr_reason outcome of
          Some r \<Rightarrow> (if r = [] then ''denied by '' @ po_name policy else r)
        | None \<Rightarrow> ''denied by '' @ po_name policy)
       [(''policy'', JStr (po_name policy))] None"

fun evaluate_policies ::
  "('q, 's) auth_policy list \<Rightarrow> auth_principal \<Rightarrow> 'q \<Rightarrow> ('s, unit result) eff" where
  "evaluate_policies [] p resource = eret (result_success () [])"
| "evaluate_policies (policy # policies) p resource =
     ebind (po_rule policy p resource) (\<lambda>outcome.
       if pr_decision outcome = Deny then eret (result_failure (policy_denied policy outcome) [])
       else evaluate_policies policies p resource)"

section \<open>Tokens\<close>

record jwt_settings =
  js_issuer :: string
  js_jwks_uri :: "string option"
  js_audience :: string
  js_algorithms :: "string list"
  js_leeway :: int

text \<open>
  The token library: the key for a token, the checked decoding, \<open>isinstance\<close> for its exception
  classes and the text of a claim.
\<close>

record jwt_lib =
  jl_key :: "string \<Rightarrow> exn + string"
  jl_decode :: "string \<Rightarrow> string \<Rightarrow> string list \<Rightarrow> string \<Rightarrow> string \<Rightarrow> int \<Rightarrow> string list \<Rightarrow> exn + dict"
  jl_instance :: "exn \<Rightarrow> string \<Rightarrow> bool"
  jl_str :: "json \<Rightarrow> string"

fun py_rstrip :: "char \<Rightarrow> string \<Rightarrow> string" where
  "py_rstrip c s = rev (dropWhile (\<lambda>x. x = c) (rev s))"

definition jwks_uri :: "jwt_settings \<Rightarrow> string" where
  "jwks_uri st = (case js_jwks_uri st of
     Some u \<Rightarrow> (if u \<noteq> [] then u else py_rstrip CHR ''/'' (js_issuer st) @ ''/.well-known/jwks.json'')
   | None \<Rightarrow> py_rstrip CHR ''/'' (js_issuer st) @ ''/.well-known/jwks.json'')"

definition required_claims :: "string list" where
  "required_claims = [''exp'', ''iat'', ''iss'', ''aud'', ''sub'']"

abbreviation unauthorized :: "string \<Rightarrow> string \<Rightarrow> exn option \<Rightarrow> 'a result" where
  "unauthorized code msg cause \<equiv> result_failure (Error UnauthorizedError code msg [] cause) []"

abbreviation infrastructure :: "string \<Rightarrow> string \<Rightarrow> exn option \<Rightarrow> 'a result" where
  "infrastructure code msg cause \<equiv> result_failure (Error InfrastructureError code msg [] cause) []"

definition decode_failure :: "jwt_lib \<Rightarrow> exn \<Rightarrow> auth_principal result option" where
  "decode_failure lib e =
     (if jl_instance lib e ''ExpiredSignatureError''
      then Some (unauthorized ''auth.token_expired'' ''token expired'' (Some e))
      else if jl_instance lib e ''InvalidAudienceError''
      then Some (unauthorized ''auth.invalid_audience'' ''token audience does not include this service'' (Some e))
      else if jl_instance lib e ''InvalidIssuerError''
      then Some (unauthorized ''auth.invalid_issuer'' ''token issuer is not trusted'' (Some e))
      else if jl_instance lib e ''InvalidTokenError''
      then Some (unauthorized ''auth.invalid_token'' (''token rejected: '' @ exn_str e) (Some e))
      else None)"

text \<open>\<open>a or b\<close> on claims.\<close>

definition truthy_claim :: "dict \<Rightarrow> string \<Rightarrow> json option" where
  "truthy_claim claims k = (case map_of claims k of
     Some j \<Rightarrow> (if json_truthy j then Some j else None)
   | None \<Rightarrow> None)"

text \<open>\<open>UUID(v)\<close>: text that is no UUID is a \<open>ValueError\<close>, anything but text an \<open>AttributeError\<close>.\<close>

datatype uuid_claim = UuidOk uuid | UuidValueError exn | UuidRaises exn

definition claim_uuid :: "json \<Rightarrow> uuid_claim" where
  "claim_uuid j = (case j of
     JStr s \<Rightarrow> (case parse_uuid s of
       Some u \<Rightarrow> UuidOk u
     | None \<Rightarrow> UuidValueError (PyException ''ValueError'' ''badly formed hexadecimal UUID string''))
   | JNull \<Rightarrow> UuidRaises (PyException ''TypeError'' ''one of the hex arguments must be given'')
   | _ \<Rightarrow> UuidRaises (PyException ''AttributeError'' ''replace''))"

text \<open>The names in a claim; entries of a list that are no text are left out.\<close>

definition claim_names :: "json option \<Rightarrow> exn + string list" where
  "claim_names v = (case v of
     None \<Rightarrow> Inr []
   | Some (JList l) \<Rightarrow> Inr (concat (map (\<lambda>j. case j of JStr s \<Rightarrow> [s] | _ \<Rightarrow> []) l))
   | Some (JStr s) \<Rightarrow> Inr (map (\<lambda>c. [c]) s)
   | Some (JObj d) \<Rightarrow> Inr (map fst d)
   | Some _ \<Rightarrow> Inl (PyException ''TypeError'' ''object is not iterable''))"

fun words_acc :: "string \<Rightarrow> string \<Rightarrow> string list" where
  "words_acc w [] = (if w = [] then [] else [w])"
| "words_acc w (c # cs) =
     (if is_space c then (if w = [] then words_acc [] cs else w # words_acc [] cs)
      else words_acc (w @ [c]) cs)"

definition claim_scopes :: "json option \<Rightarrow> exn + string list" where
  "claim_scopes v = (case v of Some (JStr s) \<Rightarrow> Inr (words_acc [] s) | _ \<Rightarrow> claim_names v)"

definition principal_of ::
  "dict \<Rightarrow> uuid \<Rightarrow> uuid option \<Rightarrow> exn + auth_principal" where
  "principal_of claims sub tenant =
     (case (claim_scopes (or_else (truthy_claim claims ''scope'') (truthy_claim claims ''scp'')),
            map_of claims ''iss'',
            claim_names (or_else (truthy_claim claims ''qx:roles'') (truthy_claim claims ''roles'')),
            claim_names (or_else (truthy_claim claims ''qx:permissions'') (truthy_claim claims ''permissions''))) of
        (Inr scopes, Some iss, Inr roles, Inr permissions) \<Rightarrow> Inr
          \<lparr>ap_subject = sub, ap_issuer = iss, ap_tenant_id = tenant, ap_email = map_of claims ''email'',
           ap_name = or_else (truthy_claim claims ''name'') (map_of claims ''preferred_username''),
           ap_roles = roles, ap_permissions = permissions, ap_scopes = scopes, ap_raw_claims = claims\<rparr>
      | (Inl e, _, _, _) \<Rightarrow> Inl e
      | (_, None, _, _) \<Rightarrow> Inl (PyException ''KeyError'' (repr_name ''iss''))
      | (_, _, Inl e, _) \<Rightarrow> Inl e
      | (_, _, _, Inl e) \<Rightarrow> Inl e)"

text \<open>The part of \<open>validate\<close> after the revocation hook.\<close>

definition claims_to_result :: "dict \<Rightarrow> exn + auth_principal result" where
  "claims_to_result claims =
     (case (case map_of claims ''sub'' of
              None \<Rightarrow> UuidValueError (PyException ''KeyError'' (repr_name ''sub'')) | Some j \<Rightarrow> claim_uuid j) of
        UuidRaises e \<Rightarrow> Inl e
      | UuidValueError e \<Rightarrow> Inr (unauthorized ''auth.invalid_subject'' ''sub claim is missing or not a UUID'' (Some e))
      | UuidOk sub \<Rightarrow>
          (case or_else (truthy_claim claims ''qx:tenant'') (truthy_claim claims ''tenant_id'') of
             None \<Rightarrow> map_sum id (\<lambda>p. result_success p []) (principal_of claims sub None)
           | Some raw \<Rightarrow>
               (case claim_uuid raw of
                  UuidRaises e \<Rightarrow> Inl e
                | UuidValueError e \<Rightarrow> Inr (unauthorized ''auth.invalid_tenant'' ''tenant_id claim is malformed'' None)
                | UuidOk t \<Rightarrow> map_sum id (\<lambda>p. result_success p []) (principal_of claims sub (Some t)))))"

definition revocation_hook ::
  "(string \<Rightarrow> ('s, bool) eff) option \<Rightarrow> jwt_lib \<Rightarrow> dict \<Rightarrow> ('s, auth_principal result option) eff" where
  "revocation_hook check lib claims =
     (case (truthy_claim claims ''jti'', check) of
        (Some jti, Some revoked) \<Rightarrow>
          etry (ebind (revoked (jl_str lib jti)) (\<lambda>b. eret
                 (if b then Some (unauthorized ''auth.token_revoked'' ''token has been revoked'' None) else None)))
            (\<lambda>e. eret (Some (infrastructure ''auth.revocation_check_failed''
               (''revocation check failed: '' @ exn_str e) (Some e))))
      | _ \<Rightarrow> eret None)"

definition jwt_validate ::
  "jwt_settings \<Rightarrow> jwt_lib \<Rightarrow> (string \<Rightarrow> ('s, bool) eff) option \<Rightarrow> string
     \<Rightarrow> ('s, auth_principal result) eff" where
  "jwt_validate st lib check token =
     (case jl_key lib token of
        Inl e \<Rightarrow>
          (if jl_instance lib e ''PyJWKClientError''
           then eret (infrastructure ''auth.jwks_unavailable'' (''could not fetch signing key: '' @ exn_str e) (Some e))
           else if is_exception e
           then eret (unauthorized ''auth.invalid_token'' ''token signature could not be verified'' (Some e))
           else eraise e)
      | Inr key \<Rightarrow>
          (case jl_decode lib token key (js_algorithms st) (js_audience st) (js_issuer st) (js_leeway st)
                  required_claims of
             Inl e \<Rightarrow> (case decode_failure lib e of Some r \<Rightarrow> eret r | None \<Rightarrow> eraise e)
           | Inr claims \<Rightarrow>
               ebind (revocation_hook check lib claims) (\<lambda>refused.
                 case refused of
                   Some r \<Rightarrow> eret r
                 | None \<Rightarrow> elift (claims_to_result claims))))"

section \<open>Revocation\<close>

definition revocation_key :: "string \<Rightarrow> string \<Rightarrow> string" where
  "revocation_key ns jti = ns @ '':'' @ jti"

definition revoke_token :: "'r redis \<Rightarrow> string \<Rightarrow> string \<Rightarrow> int \<Rightarrow> ('r, unit) eff" where
  "revoke_token R ns jti ttl =
     cache_set_json R (revocation_key ns jti) (JObj [(''revoked'', JBool True)]) (Some ttl)"

definition is_revoked :: "'r redis \<Rightarrow> string \<Rightarrow> string \<Rightarrow> ('r, bool) eff" where
  "is_revoked R ns jti =
     ebind (cache_get_json R (revocation_key ns jti)) (\<lambda>v. eret (v \<noteq> None))"

section \<open>Discovery\<close>

record oidc_config =
  oc_issuer :: json
  oc_authorization_endpoint :: "json option"
  oc_token_endpoint :: "json option"
  oc_userinfo_endpoint :: "json option"
  oc_jwks_uri :: json
  oc_end_session_endpoint :: "json option"
  oc_introspection_endpoint :: "json option"
  oc_raw :: dict

type_synonym oidc_cache = "string \<rightharpoonup> rat \<times> oidc_config"

text \<open>\<open>Inl\<close> is the missing key.\<close>

definition oidc_config_of :: "dict \<Rightarrow> string + oidc_config" where
  "oidc_config_of d =
     (case (map_of d ''issuer'', map_of d ''jwks_uri'') of
        (Some iss, Some uri) \<Rightarrow> Inr
          \<lparr>oc_issuer = iss, oc_authorization_endpoint = map_of d ''authorization_endpoint'',
           oc_token_endpoint = map_of d ''token_endpoint'', oc_userinfo_endpoint = map_of d ''userinfo_endpoint'',
           oc_jwks_uri = uri, oc_end_session_endpoint = map_of d ''end_session_endpoint'',
           oc_introspection_endpoint = map_of d ''introspection_endpoint'', oc_raw = d\<rparr>
      | (None, _) \<Rightarrow> Inl ''issuer''
      | (Some iss, None) \<Rightarrow> Inl ''jwks_uri'')"

definition fresh_config :: "rat \<Rightarrow> rat \<Rightarrow> oidc_cache \<Rightarrow> string \<Rightarrow> oidc_config option" where
  "fresh_config ttl now cache issuer =
     (case cache issuer of
        Some (t, c) \<Rightarrow> (if now - t < ttl then Some c else None) | None \<Rightarrow> None)"

text \<open>\<open>get\<close> is the request with its status check, \<open>body\<close> what \<open>resp.json()\<close> gives; the lock is
  held by nobody else when one coroutine runs.\<close>

definition oidc_fetch ::
  "(string \<Rightarrow> ('s, 'resp) eff) \<Rightarrow> ('resp \<Rightarrow> exn + dict) \<Rightarrow> rat \<Rightarrow> rat \<Rightarrow> string
     \<Rightarrow> (oidc_cache \<times> 's, oidc_config result) eff" where
  "oidc_fetch get body ttl now issuer st =
     (case fresh_config ttl now (fst st) issuer of
        Some c \<Rightarrow> (Inr (result_success c []), st)
      | None \<Rightarrow>
          (let url = py_rstrip CHR ''/'' issuer @ ''/.well-known/openid-configuration''
           in case on_snd (get url) st of
                (Inl e, st') \<Rightarrow>
                  (if is_exception e
                   then (Inr (infrastructure ''oidc.discovery_failed''
                          (''could not fetch '' @ url @ '': '' @ exn_str e) (Some e)), st')
                   else (Inl e, st'))
              | (Inr resp, st') \<Rightarrow>
                  (case body resp of
                     Inl e \<Rightarrow> (Inl e, st')
                   | Inr d \<Rightarrow>
                       (case oidc_config_of d of
                          Inl k \<Rightarrow> (Inr (infrastructure ''oidc.malformed_discovery''
                            (''required discovery field missing: '' @ repr_name k)
                            (Some (PyException ''KeyError'' (repr_name k)))), st')
                        | Inr c \<Rightarrow> (Inr (result_success c []), ((fst st')(issuer \<mapsto> (now, c)), snd st'))))))"

section \<open>The middleware\<close>

text \<open>The state is the current request context and the rest of the world. An attribute of the context
  is a plain value or a principal.\<close>

datatype attribute = AttrValue json | AttrPrincipal auth_principal

type_synonym 's http_state = "attribute request_context \<times> 's"

definition extract_bearer :: "(string \<times> string) list \<Rightarrow> string option" where
  "extract_bearer headers =
     (let header = get_or (map_of headers ''authorization'') []
      in if py_startswith (py_lower header) ''bearer ''
         then (let token = py_strip (drop 7 header) in if token = [] then None else Some token)
         else None)"

definition store_principal ::
  "string \<Rightarrow> auth_principal \<Rightarrow> ('s http_state, unit) eff" where
  "store_principal key p =
     on_fst (emodify (\<lambda>ctx. ctx\<lparr>rc_attributes := AList.update key (AttrPrincipal p) (rc_attributes ctx)\<rparr>))"

definition jwt_dispatch ::
  "string \<Rightarrow> (string \<Rightarrow> ('s, auth_principal result) eff) \<Rightarrow> (string \<times> string) list
     \<Rightarrow> ('s http_state, 'resp) eff \<Rightarrow> ('s http_state, 'resp) eff" where
  "jwt_dispatch key validate headers call_next =
     (case extract_bearer headers of
        None \<Rightarrow> call_next
      | Some token \<Rightarrow>
          ebind (on_snd (validate token)) (\<lambda>res.
            case res of
              Success p md \<Rightarrow> ebind (store_principal key p) (\<lambda>_. call_next)
            | Failure e md \<Rightarrow> call_next))"

definition get_current_principal :: "string \<Rightarrow> ('s http_state, attribute option) eff" where
  "get_current_principal key st =
     (Inr (case map_of (rc_attributes (fst st)) key of
             Some (AttrValue JNull) \<Rightarrow> None | found \<Rightarrow> found), st)"

definition not_authenticated_exn :: exn where
  "not_authenticated_exn =
     as_exception (mk_error UnauthorizedError ''auth.not_authenticated'' ''This endpoint requires authentication.'')"

definition require_auth :: "string \<Rightarrow> ('s http_state, attribute) eff" where
  "require_auth key =
     ebind (get_current_principal key) (\<lambda>p.
       case p of None \<Rightarrow> eraise not_authenticated_exn | Some x \<Rightarrow> eret x)"

section \<open>Permissions by segments\<close>

text \<open>The reading of a permission as dotted segments.\<close>

fun segments :: "string \<Rightarrow> string list" where
  "segments [] = [[]]"
| "segments (c # cs) =
     (if c = CHR ''.'' then [] # segments cs
      else (case segments cs of w # ws \<Rightarrow> (c # w) # ws | [] \<Rightarrow> [[c]]))"

definition covers :: "string \<Rightarrow> string \<Rightarrow> bool" where
  "covers name g \<longleftrightarrow> g = name \<or> g = ''*'' \<or>
     (\<exists>q. q \<noteq> [] \<and> segments g = q @ [''*''] \<and> prefix q (segments name))"

lemma segments_nonempty [simp]: "segments s \<noteq> []"
  by (induction s rule: segments.induct) (auto split: list.split)

lemma segments_dot: "segments (a @ ''.'' @ b) = segments a @ segments b"
proof (induction a)
  case (Cons c a)
  then show ?case by (cases "segments a") auto
qed simp

lemma py_join_append:
  "xs \<noteq> [] \<Longrightarrow> ys \<noteq> [] \<Longrightarrow> py_join sep (xs @ ys) = py_join sep xs @ sep @ py_join sep ys"
proof (induction xs)
  case (Cons x xs)
  then show ?case by (cases xs; cases ys) auto
qed simp

lemma py_join_cons_char: "py_join sep ((c # w) # ws) = c # py_join sep (w # ws)"
  by (cases ws) auto

lemma join_segments: "py_join ''.'' (segments s) = s"
proof (induction s)
  case (Cons c s)
  then show ?case by (cases "segments s") (auto simp: py_join_cons_char)
qed simp

lemma segments_star: "segments (p @ ''.*'') = segments p @ [''*'']"
  using segments_dot [of p "''*''"] by simp

lemma prefix_segments:
  "prefix (segments p) (segments n) \<longleftrightarrow> n = p \<or> (\<exists>r. n = p @ ''.'' @ r)"
proof
  assume "prefix (segments p) (segments n)"
  then obtain rest where r: "segments n = segments p @ rest" by (auto simp: prefix_def)
  show "n = p \<or> (\<exists>r. n = p @ ''.'' @ r)"
  proof (cases "rest = []")
    case True
    with r have "segments n = segments p" by simp
    then have "n = p" by (metis join_segments)
    then show ?thesis by simp
  next
    case False
    then have "py_join ''.'' (segments n) = p @ ''.'' @ py_join ''.'' rest"
      by (simp add: r py_join_append join_segments)
    then have "n = p @ ''.'' @ py_join ''.'' rest" unfolding join_segments .
    then show ?thesis by blast
  qed
next
  assume "n = p \<or> (\<exists>r. n = p @ ''.'' @ r)"
  then show "prefix (segments p) (segments n)" using segments_dot [of p] by auto
qed

lemma wildcard_covers_iff:
  "wildcard_covers name g \<longleftrightarrow>
     (\<exists>q. q \<noteq> [] \<and> segments g = q @ [''*''] \<and> prefix q (segments name))"
proof
  assume "wildcard_covers name g"
  then obtain p where g: "g = p @ ''.*''" and n: "name = p \<or> (\<exists>r. name = p @ ''.'' @ r)"
    by (auto simp: wildcard_covers_def py_endswith_iff py_startswith_iff)
  then have "prefix (segments p) (segments name)" by (simp add: prefix_segments)
  with g show "\<exists>q. q \<noteq> [] \<and> segments g = q @ [''*''] \<and> prefix q (segments name)"
    by (intro exI [of _ "segments p"]) (simp add: segments_star)
next
  assume "\<exists>q. q \<noteq> [] \<and> segments g = q @ [''*''] \<and> prefix q (segments name)"
  then obtain q where q: "q \<noteq> []" "segments g = q @ [''*'']" "prefix q (segments name)" by blast
  then have "py_join ''.'' (segments g) = py_join ''.'' q @ ''.*''" by (simp add: py_join_append)
  then have g: "g = py_join ''.'' q @ ''.*''" unfolding join_segments .
  then have "q = segments (py_join ''.'' q)" using q(2) segments_star by (metis append_same_eq)
  with q(3) have "name = py_join ''.'' q \<or> (\<exists>r. name = py_join ''.'' q @ ''.'' @ r)"
    using prefix_segments by metis
  with g show "wildcard_covers name g"
    by (auto simp: wildcard_covers_def py_endswith_iff py_startswith_iff)
qed

section \<open>What an accepted token went through\<close>

lemma claim_uuid_ok: "claim_uuid j = UuidOk u \<Longrightarrow> \<exists>t. j = JStr t \<and> parse_uuid t = Some u"
  by (auto simp: claim_uuid_def split: json.splits option.splits)

lemma principal_of_sound:
  "principal_of claims sub tenant = Inr p \<Longrightarrow> ap_subject p = sub \<and> ap_tenant_id p = tenant"
  by (auto simp: principal_of_def split: sum.splits option.splits)

lemma map_sum_eq_Inr: "map_sum f g r = Inr y \<longleftrightarrow> (\<exists>x. r = Inr x \<and> y = g x)"
  by (cases r) auto

lemma claims_to_result_sound:
  assumes "claims_to_result claims = Inr (Success p md)"
  shows "(\<exists>j. map_of claims ''sub'' = Some (JStr j) \<and> parse_uuid j = Some (ap_subject p)) \<and>
    (case or_else (truthy_claim claims ''qx:tenant'') (truthy_claim claims ''tenant_id'') of
       None \<Rightarrow> ap_tenant_id p = None
     | Some raw \<Rightarrow> \<exists>t. raw = JStr t \<and> parse_uuid t = ap_tenant_id p \<and> ap_tenant_id p \<noteq> None)"
  using assms
  by (auto simp: claims_to_result_def result_failure_def result_success_def map_sum_eq_Inr
      split: option.splits uuid_claim.splits dest!: claim_uuid_ok principal_of_sound)

lemma revocation_hook_failure:
  "revocation_hook check lib claims s = (Inr (Some r), s') \<Longrightarrow> \<exists>e. r = Failure e []"
  by (auto simp: revocation_hook_def etry_def ebind_def eret_def result_failure_def
      split: option.splits prod.splits sum.splits if_splits)

lemma hook_passes:
  "revocation_hook (Some revoked) lib claims s = (Inr None, s') \<Longrightarrow> truthy_claim claims ''jti'' = Some jti
     \<Longrightarrow> fst (revoked (jl_str lib jti) s) = Inr False"
  by (auto simp: revocation_hook_def etry_def ebind_def eret_def result_failure_def
      split: option.splits prod.splits sum.splits if_splits)

context redis_server
begin

lemma revoke_stores:
  assumes "revoke_token R ns jti ttl s = (Inr (), s')"
  shows "kv s' (revocation_key ns jti) = Some (RString (JsonText (JObj [(''revoked'', JBool True)])))"
  using assms by (auto simp: revoke_token_def cache_set_json_def ebind_eq_Inr dest!: set_ok)

lemma is_revoked_finds:
  assumes "kv s (revocation_key ns jti) = Some (RString (JsonText (JObj d)))"
    and "is_revoked R ns jti s = (r, s')"
  shows "kv s' = kv s \<and> (r = Inr True \<or> (\<exists>e. r = Inl e))"
proof -
  obtain x s1 where g: "rd_get R (revocation_key ns jti) s = (x, s1)" by (rule prod.exhaust)
  show ?thesis
  proof (cases x)
    case (Inl e)
    with g assms(2) get_err show ?thesis
      by (auto simp: is_revoked_def cache_get_json_def ebind_def)
  next
    case (Inr v)
    with g get_ok [of "revocation_key ns jti" s v s1] assms(1)
    have "v = Some (JsonText (JObj d))" "kv s1 = kv s" by (cases v; simp)+
    with g Inr assms(2) show ?thesis
      by (auto simp: is_revoked_def cache_get_json_def ebind_def)
  qed
qed

text \<open>A revoked token gives a failure, or the exception of a dying task, and no principal.\<close>

lemma validate_revoked:
  assumes stored: "kv s (revocation_key ns jti) = Some (RString (JsonText (JObj d)))"
    and dec: "jl_key lib token = Inr k"
      "jl_decode lib token k (js_algorithms st) (js_audience st) (js_issuer st) (js_leeway st)
         required_claims = Inr claims"
    and jti: "truthy_claim claims ''jti'' = Some j" "jl_str lib j = jti"
  shows "\<exists>r s'. jwt_validate st lib (Some (is_revoked R ns)) token s = (r, s') \<and> kv s' = kv s \<and>
    ((\<exists>e. r = Inr (Failure e [])) \<or> (\<exists>x. r = Inl x \<and> \<not> is_exception x))"
proof -
  obtain b s1 where b: "is_revoked R ns jti s = (b, s1)" by (rule prod.exhaust)
  from is_revoked_finds [OF stored b] have kv: "kv s1 = kv s" and "b = Inr True \<or> (\<exists>e. b = Inl e)"
    by auto
  then show ?thesis
  proof (elim disjE exE)
    assume "b = Inr True"
    with b kv dec jti show ?thesis
      by (simp add: jwt_validate_def revocation_hook_def etry_def ebind_def result_failure_def)
  next
    fix e
    assume "b = Inl e"
    with b kv dec jti show ?thesis
      by (cases "is_exception e")
        (simp_all add: jwt_validate_def revocation_hook_def etry_def ebind_def result_failure_def)
  qed
qed

end

section \<open>Properties\<close>

text \<open>A permission check is the check by segments: a required permission is granted exactly when
  the set has it, has the star, or has a pattern that ends in a star segment and whose other
  segments are a prefix of the segments of the permission. A star elsewhere is an ordinary name.\<close>

theorem permission_by_segments:
  "perm_matches name granted \<longleftrightarrow> (\<exists>g \<in> set granted. covers name g)"
  unfolding perm_matches_def covers_def list_ex_iff wildcard_covers_iff by blast

text \<open>C27: A token becomes a principal only after every check: an accepted token was decoded with its
  own key under the configured algorithms, audience, issuer and leeway and with all required
  claims, its id, if it has one, was not revoked, and the subject and tenant of the principal are
  those of its claims.\<close>

theorem jwt_accepts_only_checked:
  assumes "jwt_validate st lib check token s = (Inr (Success p md), s')"
  shows "\<exists>key claims. jl_key lib token = Inr key \<and>
    jl_decode lib token key (js_algorithms st) (js_audience st) (js_issuer st) (js_leeway st)
      required_claims = Inr claims \<and>
    (\<forall>revoked jti. check = Some revoked \<longrightarrow> truthy_claim claims ''jti'' = Some jti \<longrightarrow>
       fst (revoked (jl_str lib jti) s) = Inr False) \<and>
    (\<exists>j. map_of claims ''sub'' = Some (JStr j) \<and> parse_uuid j = Some (ap_subject p)) \<and>
    (case or_else (truthy_claim claims ''qx:tenant'') (truthy_claim claims ''tenant_id'') of
       None \<Rightarrow> ap_tenant_id p = None
     | Some raw \<Rightarrow> \<exists>t. raw = JStr t \<and> parse_uuid t = ap_tenant_id p \<and> ap_tenant_id p \<noteq> None)"
proof -
  obtain key where key: "jl_key lib token = Inr key"
    using assms
    by (cases "jl_key lib token") (auto simp: jwt_validate_def result_failure_def split: if_splits)
  obtain claims where claims: "jl_decode lib token key (js_algorithms st) (js_audience st)
      (js_issuer st) (js_leeway st) required_claims = Inr claims"
    using assms key
    by (cases "jl_decode lib token key (js_algorithms st) (js_audience st) (js_issuer st)
        (js_leeway st) required_claims")
      (auto simp: jwt_validate_def decode_failure_def result_failure_def split: if_splits option.splits)
  obtain refused s1 where hook: "revocation_hook check lib claims s = (Inr refused, s1)"
    and rest: "(case refused of Some r \<Rightarrow> eret r | None \<Rightarrow> elift (claims_to_result claims)) s1 =
      (Inr (Success p md), s')"
    using assms key claims by (auto simp: jwt_validate_def ebind_eq_Inr)
  then have passed: "refused = None"
    by (cases refused) (auto dest: revocation_hook_failure)
  with rest have res: "claims_to_result claims = Inr (Success p md)" by simp
  have hook: "revocation_hook check lib claims s = (Inr None, s1)" using hook passed by simp
  have "\<forall>revoked jti. check = Some revoked \<longrightarrow> truthy_claim claims ''jti'' = Some jti \<longrightarrow>
      fst (revoked (jl_str lib jti) s) = Inr False"
    using hook by (auto intro: hook_passes)
  with key claims claims_to_result_sound [OF res] show ?thesis by blast
qed

definition demo_lib :: jwt_lib where
  "demo_lib = \<lparr>jl_key = (\<lambda>token. if token = ''t'' then Inr ''k'' else Inl (PyException ''PyJWKClientError'' ''no key'')),
     jl_decode = (\<lambda>token key algorithms audience issuer leeway claims.
       Inr [(''sub'', JStr ''00000000-0000-0000-0000-000000000005''), (''iss'', JStr ''idp''), (''jti'', JStr ''j'')]),
     jl_instance = (\<lambda>e c. exn_class e = c),
     jl_str = (\<lambda>j. case j of JStr s \<Rightarrow> s | _ \<Rightarrow> [])\<rparr>"

definition demo_settings :: jwt_settings where
  "demo_settings = \<lparr>js_issuer = ''https://idp/'', js_jwks_uri = None, js_audience = ''api'',
     js_algorithms = [''RS256''], js_leeway = 30\<rparr>"

lemma demo_sub: "parse_uuid ''00000000-0000-0000-0000-000000000005'' = Some 5"
  by code_simp

lemma jwt_accepts_only_checked_witness:
  "\<exists>p s'. jwt_validate demo_settings demo_lib (Some (is_revoked map_redis ''qx:revoked'')) ''t''
      (Map.empty :: keyspace) = (Inr (Success p []), s') \<and>
    (\<exists>j. map_of [(''sub'', JStr ''00000000-0000-0000-0000-000000000005''), (''iss'', JStr ''idp''), (''jti'', JStr ''j'')] ''sub'' = Some (JStr j) \<and>
       parse_uuid j = Some (ap_subject p))"
proof -
  let ?c = "[(''sub'', JStr ''00000000-0000-0000-0000-000000000005''), (''iss'', JStr ''idp''), (''jti'', JStr ''j'')]"
  let ?p = "\<lparr>ap_subject = 5, ap_issuer = JStr ''idp'', ap_tenant_id = None, ap_email = None, ap_name = None,
      ap_roles = [], ap_permissions = [], ap_scopes = [], ap_raw_claims = ?c\<rparr>"
  have run: "jwt_validate demo_settings demo_lib (Some (is_revoked map_redis ''qx:revoked'')) ''t''
      Map.empty = (Inr (Success ?p []), (Map.empty :: keyspace))"
    by (simp add: jwt_validate_def demo_lib_def revocation_hook_def truthy_claim_def json_truthy_def
        is_revoked_def cache_get_json_def map_redis_def etry_def ebind_def claims_to_result_def
        claim_uuid_def demo_sub principal_of_def claim_names_def claim_scopes_def result_success_def)
  from jwt_accepts_only_checked [OF run] show ?thesis
    using run by (intro exI [of _ ?p] exI conjI) (auto simp: demo_lib_def)
qed

text \<open>C19: A revoked token is shut out: while its revocation entry is in Redis, a request with it never
  reaches the body of an endpoint that requires authentication, also when Redis fails, and the
  context stays without a principal.\<close>

theorem revoked_token_shut_out:
  assumes redis: "redis_server R kv"
    and revoked: "revoke_token R ns jti ttl s0 = (Inr (), s1)"
    and kept: "kv s (revocation_key ns jti) = kv s1 (revocation_key ns jti)"
    and dec: "jl_key lib token = Inr k"
      "jl_decode lib token k (js_algorithms st) (js_audience st) (js_issuer st) (js_leeway st)
         required_claims = Inr claims"
    and jti: "truthy_claim claims ''jti'' = Some j" "jl_str lib j = jti"
    and bearer: "extract_bearer headers = Some token"
    and fresh: "map_of (rc_attributes ctx) key = None"
  shows "\<exists>e s'. (e = not_authenticated_exn \<or> \<not> is_exception e) \<and>
    (\<forall>endpoint. jwt_dispatch key (jwt_validate st lib (Some (is_revoked R ns))) headers
       (ebind (require_auth key) endpoint) (ctx, s) = (Inl e, (ctx, s')))"
proof -
  from redis_server.revoke_stores [OF redis revoked] kept
  have "kv s (revocation_key ns jti) = Some (RString (JsonText (JObj [(''revoked'', JBool True)])))"
    by simp
  from redis_server.validate_revoked [OF redis this dec jti] obtain r s' where
    v: "jwt_validate st lib (Some (is_revoked R ns)) token s = (r, s')"
    and r: "(\<exists>e. r = Inr (Failure e [])) \<or> (\<exists>x. r = Inl x \<and> \<not> is_exception x)" by blast
  from r show ?thesis
  proof (elim disjE exE conjE)
    fix e assume "r = Inr (Failure e [])"
    with v bearer fresh show ?thesis
      by (intro exI [of _ not_authenticated_exn] exI [of _ s'])
        (simp add: jwt_dispatch_def ebind_def require_auth_def get_current_principal_def)
  next
    fix x assume "r = Inl x" "\<not> is_exception x"
    with v bearer show ?thesis
      by (intro exI [of _ x] exI [of _ s']) (simp add: jwt_dispatch_def ebind_def)
  qed
qed

definition demo_context :: "attribute request_context" where
  "demo_context = \<lparr>rc_request_id = 1, rc_correlation_id = 2, rc_trace_id = None, rc_span_id = None,
     rc_user_id = None, rc_tenant_id = None, rc_actor_kind = None, rc_attributes = []\<rparr>"

lemma revoked_token_shut_out_witness:
  "\<exists>s e s'. revoke_token map_redis ''qx:revoked'' ''j'' 60 Map.empty = (Inr (), s) \<and>
    (e = not_authenticated_exn \<or> \<not> is_exception e) \<and>
    (\<forall>endpoint :: attribute \<Rightarrow> (keyspace http_state, nat) eff.
       jwt_dispatch ''principal'' (jwt_validate demo_settings demo_lib (Some (is_revoked map_redis ''qx:revoked'')))
         [(''authorization'', ''Bearer t'')] (ebind (require_auth ''principal'') endpoint) (demo_context, s) =
         (Inl e, (demo_context, s')))"
proof -
  let ?s = "[revocation_key ''qx:revoked'' ''j'' \<mapsto> RString (JsonText (JObj [(''revoked'', JBool True)]))]"
  let ?c = "[(''sub'', JStr ''00000000-0000-0000-0000-000000000005''), (''iss'', JStr ''idp''), (''jti'', JStr ''j'')]"
  have rev: "revoke_token map_redis ''qx:revoked'' ''j'' 60 Map.empty = (Inr (), ?s)"
    by (simp add: revoke_token_def cache_set_json_def map_redis_def ebind_def)
  have key: "jl_key demo_lib ''t'' = Inr ''k''" by (simp add: demo_lib_def)
  have dec: "jl_decode demo_lib ''t'' ''k'' (js_algorithms demo_settings) (js_audience demo_settings)
      (js_issuer demo_settings) (js_leeway demo_settings) required_claims = Inr ?c"
    by (simp add: demo_lib_def)
  have jti: "truthy_claim ?c ''jti'' = Some (JStr ''j'')" by (simp add: truthy_claim_def json_truthy_def)
  have str: "jl_str demo_lib (JStr ''j'') = ''j''" by (simp add: demo_lib_def)
  have bearer: "extract_bearer [(''authorization'', ''Bearer t'')] = Some ''t''" by code_simp
  have fresh: "map_of (rc_attributes demo_context) ''principal'' = None" by (simp add: demo_context_def)
  from revoked_token_shut_out [where kv = "\<lambda>s. s" and s = ?s and R = map_redis and st = demo_settings
      and ctx = demo_context and key = "''principal''" and 'b = nat,
      OF keyspace.redis_server_axioms rev refl key dec jti str bearer fresh] rev
  show ?thesis by blast
qed

end
