(* ===== verification/Qx_Ratelimit.thy ===== *)
theory Qx_Ratelimit
  imports Qx_Cache
begin

text \<open>
  The token bucket of \<open>qx-auth\<close> (\<open>rate_limit\<close>) with its Lua script, and the HTTP middleware that
  applies it (\<open>http\<close>, \<open>RateLimitMiddleware\<close>). The last part is one bucket under any number of
  clients and under the expiry of its key. Times are in seconds.
\<close>

section \<open>The bucket\<close>

text \<open>A number in Redis is the text of it; \<open>tonumber\<close> of anything else is \<open>nil\<close>.\<close>

definition num_text :: "rat \<Rightarrow> rtext" where
  "num_text q = JsonText (JFloat q)"

definition lua_tonumber :: "rtext option \<Rightarrow> rat option" where
  "lua_tonumber v = (case v of
     Some (JsonText (JFloat q)) \<Rightarrow> Some q
   | Some (JsonText (JInt n)) \<Rightarrow> Some (of_int n)
   | _ \<Rightarrow> None)"

text \<open>A number a script returns loses its fraction.\<close>

definition lua_int :: "rat \<Rightarrow> lua" where
  "lua_int q = LuaInt (if 0 \<le> q then \<lfloor>q\<rfloor> else \<lceil>q\<rceil>)"

definition nil_arith :: exn where
  "nil_arith = PyException ''ResponseError'' ''attempt to perform arithmetic on a nil value''"

definition refilled :: "rat \<Rightarrow> rat \<Rightarrow> rat \<Rightarrow> rat \<times> rat \<Rightarrow> rat" where
  "refilled capacity refill now held =
     (let elapsed = now - snd held
      in if 0 < elapsed then min capacity (fst held + elapsed * refill) else fst held)"

definition after_take :: "rat \<Rightarrow> rat \<Rightarrow> rat" where
  "after_take filled tokens = (if tokens \<le> filled then filled - tokens else filled)"

definition take_store ::
  "'r redis \<Rightarrow> string \<Rightarrow> rat \<Rightarrow> rat \<Rightarrow> int \<Rightarrow> rat \<Rightarrow> ('r, lua) eff" where
  "take_store R key now tokens ttl filled =
     ebind (rd_hset R key [(''count'', num_text (after_take filled tokens)), (''last'', num_text now)]) (\<lambda>_.
     ebind (rd_expire R key ttl) (\<lambda>_.
       eret (LuaList [LuaInt (if tokens \<le> filled then 1 else 0), lua_int (after_take filled tokens)])))"

definition take_script ::
  "'r redis \<Rightarrow> string \<Rightarrow> rat \<Rightarrow> rat \<Rightarrow> rat \<Rightarrow> rat \<Rightarrow> int \<Rightarrow> ('r, lua) eff" where
  "take_script R key capacity refill now tokens ttl =
     ebind (rd_hget R key ''count'') (\<lambda>c. ebind (rd_hget R key ''last'') (\<lambda>l.
       case (case lua_tonumber c of
               None \<Rightarrow> Some (capacity, now)
             | Some cnt \<Rightarrow> map_option (\<lambda>x. (cnt, x)) (lua_tonumber l)) of
         None \<Rightarrow> eraise nil_arith
       | Some held \<Rightarrow> take_store R key now tokens ttl (refilled capacity refill now held)))"

record bucket_config =
  bk_scope :: string
  bk_capacity :: int
  bk_refill :: rat
  bk_namespace :: string

definition bucket_key :: "bucket_config \<Rightarrow> string \<Rightarrow> string" where
  "bucket_key cfg key = py_join '':'' [bk_namespace cfg, bk_scope cfg, key]"

definition bucket_ttl :: "bucket_config \<Rightarrow> int" where
  "bucket_ttl cfg = max \<lfloor>(of_int (bk_capacity cfg) / max (bk_refill cfg) (1 / 1000)) * 2\<rfloor> 60"

record bucket_result =
  br_allowed :: bool
  br_remaining :: rat

definition bucket_take ::
  "'r redis \<Rightarrow> bucket_config \<Rightarrow> rat \<Rightarrow> string \<Rightarrow> int \<Rightarrow> ('r, bucket_result) eff" where
  "bucket_take R cfg now key tokens =
     ebind (rd_eval R (take_script R (bucket_key cfg key) (of_int (bk_capacity cfg)) (bk_refill cfg) now
              (of_int tokens) (bucket_ttl cfg))) (\<lambda>res.
       case res of
         LuaList [LuaInt a, LuaInt n] \<Rightarrow> eret \<lparr>br_allowed = (a \<noteq> 0), br_remaining = of_int n\<rparr>
       | _ \<Rightarrow> eraise (PyException ''TypeError'' ''unexpected script result''))"

definition rate_limited :: "bucket_config \<Rightarrow> string \<Rightarrow> rat \<Rightarrow> error" where
  "rate_limited cfg key remaining =
     Error RateLimitedError ''rate_limit.exceeded''
       (''rate limit exceeded for '' @ bk_scope cfg @ '':'' @ key)
       [(''scope'', JStr (bk_scope cfg)), (''remaining'', JFloat remaining),
        (''capacity'', JInt (bk_capacity cfg)), (''refill_per_second'', JFloat (bk_refill cfg))] None"

definition bucket_check ::
  "'r redis \<Rightarrow> bucket_config \<Rightarrow> rat \<Rightarrow> string \<Rightarrow> int \<Rightarrow> ('r, unit result) eff" where
  "bucket_check R cfg now key tokens =
     ebind (bucket_take R cfg now key tokens) (\<lambda>outcome.
       eret (if br_allowed outcome then result_success () []
             else result_failure (rate_limited cfg key (br_remaining outcome)) []))"

section \<open>The middleware\<close>

record http_response =
  hr_status :: int
  hr_headers :: "(string \<times> string) list"
  hr_body :: rtext

text \<open>\<open>value\<close> of the result is \<open>None\<close> for every allowed request, so the header says zero.\<close>

definition rate_limit_dispatch ::
  "'r redis \<Rightarrow> bucket_config \<Rightarrow> (string \<times> 'q \<Rightarrow> string option) \<Rightarrow> string list \<Rightarrow> rat \<Rightarrow> string \<times> 'q
     \<Rightarrow> (string \<times> 'q \<Rightarrow> ('r, http_response) eff) \<Rightarrow> ('r, http_response) eff" where
  "rate_limit_dispatch R cfg key_fn skip now request call_next =
     (if list_ex (\<lambda>p. py_startswith (fst request) p) skip then call_next request
      else case key_fn request of
             None \<Rightarrow> call_next request
           | Some key \<Rightarrow>
               ebind (bucket_check R cfg now key 1) (\<lambda>res.
                 if is_failure res
                 then eret \<lparr>hr_status = 429,
                        hr_headers = [(''Content-Type'', ''application/json''),
                          (''Retry-After'', str_of_int \<lfloor>1 / max (bk_refill cfg) (1 / 1000)\<rfloor>),
                          (''X-RateLimit-Remaining'', ''0'')],
                        hr_body = Text ''{\"detail\":\"rate limit exceeded\"}''\<rparr>
                 else ebind (call_next request) (\<lambda>response.
                        eret (response\<lparr>hr_headers :=
                          AList.update ''X-RateLimit-Remaining'' ''0'' (hr_headers response)\<rparr>))))"

section \<open>One bucket under many clients\<close>

text \<open>The tokens and the time of the last visit that a key holds.\<close>

definition bucket_of :: "rentry option \<Rightarrow> (rat \<times> rat) option" where
  "bucket_of e = (case e of
     Some (RHash h) \<Rightarrow>
       (case (lua_tonumber (map_of h ''count''), lua_tonumber (map_of h ''last'')) of
          (Some c, Some l) \<Rightarrow> Some (c, l) | _ \<Rightarrow> None)
   | _ \<Rightarrow> None)"

record 'r bucket_world =
  bw_redis :: 'r
  bw_clock :: rat
  bw_granted :: rat
  bw_refilled :: rat

text \<open>How far the time stored in a bucket moves forward.\<close>

definition moved :: "rentry option \<Rightarrow> rentry option \<Rightarrow> rat" where
  "moved e e' = (case (bucket_of e, bucket_of e') of
     (Some (c, l), Some (c', l')) \<Rightarrow> max 0 (l' - l) | _ \<Rightarrow> 0)"

text \<open>
  Each visit brings the time its client reads, \<open>bw_clock\<close> is the last one read. The clients'
  clocks are arbitrary, unless \<open>agree\<close> says that they agree and do not go back. The key expires
  when the server has not seen a visit for \<open>bucket_ttl\<close> seconds. \<open>bw_granted\<close> counts the
  tokens granted so far, \<open>bw_refilled\<close> the time the bucket has been refilled for.
\<close>

inductive bucket_step ::
  "'r redis \<Rightarrow> ('r \<Rightarrow> keyspace) \<Rightarrow> bucket_config \<Rightarrow> string \<Rightarrow> bool \<Rightarrow> 'r bucket_world \<Rightarrow> 'r bucket_world \<Rightarrow> bool"
  for R kv cfg key agree where
  bucket_visit: "(agree \<longrightarrow> bw_clock w \<le> now) \<Longrightarrow> 0 \<le> tokens \<Longrightarrow>
    bucket_take R cfg now key tokens (bw_redis w) = (x, r) \<Longrightarrow>
    bucket_step R kv cfg key agree w \<lparr>bw_redis = r, bw_clock = now,
      bw_granted = bw_granted w + (case x of
        Inr res \<Rightarrow> (if br_allowed res then of_int tokens else 0) | Inl e \<Rightarrow> 0),
      bw_refilled = bw_refilled w + moved (kv (bw_redis w) (bucket_key cfg key)) (kv r (bucket_key cfg key))\<rparr>"
| bucket_expiry: "of_int (bucket_ttl cfg) \<le> idle \<Longrightarrow>
    (agree \<longrightarrow> bw_clock w \<le> now \<and>
      (\<forall>c l. bucket_of (kv (bw_redis w) (bucket_key cfg key)) = Some (c, l) \<longrightarrow> l + idle \<le> now)) \<Longrightarrow>
    kv r = (kv (bw_redis w))(bucket_key cfg key := None) \<Longrightarrow>
    bucket_step R kv cfg key agree w (w\<lparr>bw_redis := r, bw_clock := now, bw_refilled := bw_refilled w + idle\<rparr>)"
| bucket_elsewhere: "kv r (bucket_key cfg key) = kv (bw_redis w) (bucket_key cfg key) \<Longrightarrow>
    bucket_step R kv cfg key agree w (w\<lparr>bw_redis := r\<rparr>)"

text \<open>The tokens the bucket would hold now.\<close>

definition level :: "bucket_config \<Rightarrow> rat \<Rightarrow> rentry option \<Rightarrow> rat" where
  "level cfg now e = (case bucket_of e of
     None \<Rightarrow> of_int (bk_capacity cfg)
   | Some (c, l) \<Rightarrow> min (of_int (bk_capacity cfg)) (c + (now - l) * bk_refill cfg))"

text \<open>What a visit leaves, and whether it was granted.\<close>

definition bucket_wf :: "rat \<Rightarrow> rentry option \<Rightarrow> bool" where
  "bucket_wf capacity e \<longleftrightarrow> e = None \<or> (\<exists>c l. bucket_of e = Some (c, l) \<and> 0 \<le> c \<and> c \<le> capacity)"

definition granted :: "exn + bucket_result \<Rightarrow> bool" where
  "granted x = (case x of Inr res \<Rightarrow> br_allowed res | Inl e \<Rightarrow> False)"

lemma bucket_of_set:
  "bucket_of (Some (hash_set [(''count'', num_text a), (''last'', num_text b)] e)) = Some (a, b)"
  by (simp add: hash_set_def bucket_of_def update_conv' lua_tonumber_def num_text_def)

lemma bucket_ttl_pos: "0 < bucket_ttl cfg"
  by (simp add: bucket_ttl_def)

lemma twice_floor:
  assumes "60 \<le> x"
  shows "x \<le> of_int \<lfloor>(x :: rat) * 2\<rfloor>"
proof -
  have "x * 2 < of_int \<lfloor>x * 2\<rfloor> + 1" using floor_correct [of "x * 2"] by simp
  with assms show ?thesis by linarith
qed

text \<open>The key is only deleted when the bucket would be full again.\<close>

lemma ttl_refills:
  assumes "1 / 1000 \<le> bk_refill cfg"
  shows "of_int (bk_capacity cfg) \<le> of_int (bucket_ttl cfg) * bk_refill cfg"
proof -
  let ?x = "of_int (bk_capacity cfg) / bk_refill cfg"
  have pos: "0 < bk_refill cfg" using assms by linarith
  have "max (bk_refill cfg) (1 / 1000) = bk_refill cfg" using assms by (rule max_absorb1)
  then have ttl: "bucket_ttl cfg = max \<lfloor>?x * 2\<rfloor> 60" by (simp only: bucket_ttl_def)
  have "?x \<le> of_int (bucket_ttl cfg)"
  proof (cases "?x \<le> 60")
    case True
    then show ?thesis unfolding ttl by (simp add: le_max_iff_disj)
  next
    case False
    then have "?x \<le> of_int \<lfloor>?x * 2\<rfloor>" by (intro twice_floor) simp
    then show ?thesis unfolding ttl by (simp add: le_max_iff_disj)
  qed
  with pos show ?thesis by (simp add: field_simps)
qed

context redis_server
begin

lemma take_script_effect:
  assumes run: "take_script R key cap refill now tokens ttl s = (w, s')" and ttl: "0 < ttl"
    and wf: "bucket_wf cap (kv s key)"
  defines "start \<equiv> (case bucket_of (kv s key) of None \<Rightarrow> (cap, now) | Some p \<Rightarrow> p)"
  defines "filled \<equiv> refilled cap refill now start"
  shows "(\<forall>k. k \<noteq> key \<longrightarrow> kv s' k = kv s k) \<and>
    ((kv s' key = kv s key \<and> (\<exists>e. w = Inl e)) \<or>
     (bucket_of (kv s' key) = Some (after_take filled tokens, now) \<and>
      (\<forall>v. w = Inr v \<longrightarrow> v = LuaList [LuaInt (if tokens \<le> filled then 1 else 0), lua_int (after_take filled tokens)])))"
proof -
  obtain c s1 where c: "rd_hget R key ''count'' s = (c, s1)" by (rule prod.exhaust)
  show ?thesis
  proof (cases c)
    case (Inl e)
    with run c have "w = Inl e" "s' = s1" by (simp_all add: take_script_def ebind_def)
    with hget_err [of key "''count''" s e s1] c Inl show ?thesis by simp
  next
    case (Inr cv)
    obtain l s2 where l: "rd_hget R key ''last'' s1 = (l, s2)" by (rule prod.exhaust)
    have k1: "kv s1 = kv s" using hget_ok [of key "''count''" s cv s1] c Inr by simp
    show ?thesis
    proof (cases l)
      case (Inl e)
      with run c \<open>c = Inr cv\<close> l have "w = Inl e" "s' = s2" by (simp_all add: take_script_def ebind_def)
      with hget_err [of key "''last''" s1 e s2] l Inl k1 show ?thesis by simp
    next
      case (Inr lv)
      have k2: "kv s2 = kv s" using hget_ok [of key "''last''" s1 lv s2] l Inr k1 by simp
      have read: "(case lua_tonumber cv of None \<Rightarrow> Some (cap, now)
          | Some cnt \<Rightarrow> map_option (\<lambda>x. (cnt, x)) (lua_tonumber lv)) = Some start"
        using hget_ok [of key "''count''" s cv s1] hget_ok [of key "''last''" s1 lv s2] c l
          \<open>c = Inr cv\<close> \<open>l = Inr lv\<close> k1 wf
        by (auto simp: start_def bucket_wf_def bucket_of_def lua_tonumber_def
            split: option.splits rentry.splits rtext.splits json.splits)
      let ?left = "after_take filled tokens"
      let ?f = "[(''count'', num_text ?left), (''last'', num_text now)]"
      obtain h s3 where h: "rd_hset R key ?f s2 = (h, s3)" by (rule prod.exhaust)
      have "take_store R key now tokens ttl filled s2 = (w, s')"
        using run c l \<open>c = Inr cv\<close> \<open>l = Inr lv\<close> read by (simp add: take_script_def ebind_Inr filled_def)
      then have run2: "ebind (rd_hset R key ?f) (\<lambda>_. ebind (rd_expire R key ttl) (\<lambda>_.
          eret (LuaList [LuaInt (if tokens \<le> filled then 1 else 0), lua_int ?left]))) s2 = (w, s')"
        unfolding take_store_def .
      have stored: "bucket_of (Some (hash_set ?f e)) = Some (?left, now)" for e by (rule bucket_of_set)
      show ?thesis
      proof (cases h)
        case (Inl e)
        with run2 h have "w = Inl e" "s' = s3" by (simp_all add: ebind_def)
        with hset_err [of key ?f s2 e s3] h Inl k2 stored show ?thesis by auto
      next
        case (Inr u)
        have k3: "kv s3 = (kv s)(key := Some (hash_set ?f (kv s key)))"
          using hset_ok [of key ?f s2 u s3] h Inr k2 by simp
        obtain b s4 where b: "rd_expire R key ttl s3 = (b, s4)" by (rule prod.exhaust)
        have "kv s4 = kv s3" using expire_ok [of key ttl s3] expire_err [of key ttl s3] b ttl by (cases b) auto
        moreover have "s' = s4 \<and>
            (\<forall>v. w = Inr v \<longrightarrow> v = LuaList [LuaInt (if tokens \<le> filled then 1 else 0), lua_int ?left])"
          using run2 h \<open>h = Inr u\<close> b by (cases b) (auto simp: ebind_def)
        ultimately show ?thesis using k3 stored by simp
      qed
    qed
  qed
qed

end

definition held_at :: "bucket_config \<Rightarrow> rat \<Rightarrow> rentry option \<Rightarrow> rat \<times> rat" where
  "held_at cfg now e = (case bucket_of e of None \<Rightarrow> (of_int (bk_capacity cfg), now) | Some p \<Rightarrow> p)"

text \<open>The last visit is not in the future.\<close>

definition visited_by :: "rat \<Rightarrow> rentry option \<Rightarrow> bool" where
  "visited_by now e \<longleftrightarrow> (\<forall>c l. bucket_of e = Some (c, l) \<longrightarrow> l \<le> now)"

text \<open>What is granted since \<open>g0\<close> tokens were granted at time \<open>start\<close>, when the clocks agree.\<close>

definition bucket_inv ::
  "('r \<Rightarrow> keyspace) \<Rightarrow> bucket_config \<Rightarrow> string \<Rightarrow> rat \<Rightarrow> rat \<Rightarrow> 'r bucket_world \<Rightarrow> bool" where
  "bucket_inv kv cfg key start g0 w \<longleftrightarrow>
     bucket_wf (of_int (bk_capacity cfg)) (kv (bw_redis w) (bucket_key cfg key)) \<and>
     visited_by (bw_clock w) (kv (bw_redis w) (bucket_key cfg key)) \<and>
     start \<le> bw_clock w \<and>
     bw_granted w - g0 + level cfg (bw_clock w) (kv (bw_redis w) (bucket_key cfg key)) \<le>
       of_int (bk_capacity cfg) + (bw_clock w - start) * bk_refill cfg"

text \<open>The same on any clocks: the tokens held, and the time refilled since \<open>f0\<close>.\<close>

definition stored :: "bucket_config \<Rightarrow> rentry option \<Rightarrow> rat" where
  "stored cfg e = (case bucket_of e of None \<Rightarrow> of_int (bk_capacity cfg) | Some (c, l) \<Rightarrow> c)"

definition refill_inv ::
  "('r \<Rightarrow> keyspace) \<Rightarrow> bucket_config \<Rightarrow> string \<Rightarrow> rat \<Rightarrow> rat \<Rightarrow> 'r bucket_world \<Rightarrow> bool" where
  "refill_inv kv cfg key f0 g0 w \<longleftrightarrow>
     bucket_wf (of_int (bk_capacity cfg)) (kv (bw_redis w) (bucket_key cfg key)) \<and>
     bw_granted w - g0 + stored cfg (kv (bw_redis w) (bucket_key cfg key)) \<le>
       of_int (bk_capacity cfg) + (bw_refilled w - f0) * bk_refill cfg"

lemma stored_bounds:
  "bucket_wf (of_int (bk_capacity cfg)) e \<Longrightarrow> 0 \<le> bk_capacity cfg \<Longrightarrow>
    0 \<le> stored cfg e \<and> stored cfg e \<le> of_int (bk_capacity cfg)"
  by (auto simp: bucket_wf_def stored_def bucket_of_def)

text \<open>A refill stays under the capacity and follows the time stored in the bucket.\<close>

lemma refilled_bounds:
  assumes wf: "bucket_wf (of_int (bk_capacity cfg)) e" and r: "0 \<le> bk_refill cfg" and c: "0 \<le> bk_capacity cfg"
    and e': "bucket_of e' = Some (c', now)"
  defines "filled \<equiv> refilled (of_int (bk_capacity cfg)) (bk_refill cfg) now (held_at cfg now e)"
  shows "0 \<le> filled" "filled \<le> of_int (bk_capacity cfg)" "filled \<le> stored cfg e + moved e e' * bk_refill cfg"
proof -
  show "0 \<le> filled" "filled \<le> of_int (bk_capacity cfg)"
    using wf c r by (auto simp: filled_def refilled_def held_at_def bucket_wf_def Let_def bucket_of_def min_def
        split: option.split)
  show "filled \<le> stored cfg e + moved e e' * bk_refill cfg"
  proof (cases "bucket_of e")
    case None
    then show ?thesis by (simp add: filled_def refilled_def held_at_def stored_def moved_def)
  next
    case (Some p)
    obtain c0 l where p: "p = (c0, l)" by (rule prod.exhaust)
    with Some e' show ?thesis
      by (simp add: filled_def refilled_def held_at_def stored_def moved_def Let_def max_def min_def)
  qed
qed

lemma refilled_level:
  assumes "bucket_wf (of_int (bk_capacity cfg)) e" "visited_by now e"
  shows "refilled (of_int (bk_capacity cfg)) (bk_refill cfg) now (held_at cfg now e) = level cfg now e"
  using assms
  by (cases "bucket_of e") (auto simp: bucket_wf_def visited_by_def refilled_def held_at_def level_def Let_def
      min_def not_less bucket_of_def)

lemma level_bounds:
  assumes "bucket_wf (of_int (bk_capacity cfg)) e" "visited_by now e" "0 \<le> bk_refill cfg" "0 \<le> bk_capacity cfg"
  shows "0 \<le> level cfg now e \<and> level cfg now e \<le> of_int (bk_capacity cfg)"
  using assms
  by (cases "bucket_of e") (auto simp: bucket_wf_def visited_by_def level_def bucket_of_def)

lemma level_later:
  assumes "clock \<le> now" "0 \<le> bk_refill cfg"
  shows "level cfg now e \<le> level cfg clock e + (now - clock) * bk_refill cfg"
proof (cases "bucket_of e")
  case None
  with assms show ?thesis by (simp add: level_def)
next
  case (Some p)
  obtain c l where p: "p = (c, l)" by (rule prod.exhaust)
  have "0 \<le> (now - clock) * bk_refill cfg" using assms by simp
  moreover have "(now - l) * bk_refill cfg = (clock - l) * bk_refill cfg + (now - clock) * bk_refill cfg"
    by (simp add: algebra_simps)
  ultimately show ?thesis using Some p by (simp add: level_def min_def)
qed

context redis_server
begin

lemma bucket_take_effect:
  assumes run: "bucket_take R cfg now key tokens s = (x, s')"
    and wf: "bucket_wf (of_int (bk_capacity cfg)) (kv s (bucket_key cfg key))"
  defines "filled \<equiv> refilled (of_int (bk_capacity cfg)) (bk_refill cfg) now (held_at cfg now (kv s (bucket_key cfg key)))"
  shows "(kv s' (bucket_key cfg key) = kv s (bucket_key cfg key) \<and> \<not> granted x) \<or>
    (bucket_of (kv s' (bucket_key cfg key)) = Some (after_take filled (of_int tokens), now) \<and>
     (granted x \<longrightarrow> of_int tokens \<le> filled))"
proof -
  let ?m = "take_script R (bucket_key cfg key) (of_int (bk_capacity cfg)) (bk_refill cfg) now
      (of_int tokens) (bucket_ttl cfg)"
  obtain w s1 where m: "?m s = (w, s1)" by (rule prod.exhaust)
  note eff = take_script_effect [OF m bucket_ttl_pos wf, folded held_at_def, folded filled_def]
  obtain v s2 where v: "rd_eval R ?m s = (v, s2)" by (rule prod.exhaust)
  show ?thesis
  proof (cases v)
    case (Inl e)
    with run v have x: "x = Inl e" "s' = s2" by (simp_all add: bucket_take_def ebind_def)
    from eval_err [of ?m s e s2] v Inl m have "s2 = s \<or> s2 = s1" by simp
    with eff x show ?thesis by (auto simp: granted_def)
  next
    case (Inr u)
    from eval_ok [of ?m s u s2] v Inr m have w: "w = Inr u" "s1 = s2" by simp_all
    with eff have e: "bucket_of (kv s2 (bucket_key cfg key)) = Some (after_take filled (of_int tokens), now)"
      "u = LuaList [LuaInt (if of_int tokens \<le> filled then 1 else 0), lua_int (after_take filled (of_int tokens))]"
      by auto
    have "s' = s2" "granted x \<longrightarrow> of_int tokens \<le> filled"
      using run v Inr e(2) by (auto simp: bucket_take_def ebind_def granted_def lua_int_def split: if_splits)
    with e(1) show ?thesis by simp
  qed
qed

lemma visit_effect:
  assumes run: "bucket_take R cfg now key tokens s = (x, s')" and t: "0 \<le> tokens"
    and wf: "bucket_wf (of_int (bk_capacity cfg)) (kv s (bucket_key cfg key))"
    and r: "0 \<le> bk_refill cfg" and c: "0 \<le> bk_capacity cfg"
  defines "g \<equiv> case x of Inr res \<Rightarrow> (if br_allowed res then rat_of_int tokens else 0) | Inl e \<Rightarrow> 0"
    and "e \<equiv> kv s (bucket_key cfg key)" and "e' \<equiv> kv s' (bucket_key cfg key)"
  obtains (kept) "e' = e" "g = 0" "moved e e' = 0"
  | (left) left where "bucket_of e' = Some (left, now)" "0 \<le> left" "left \<le> of_int (bk_capacity cfg)"
      "g + left \<le> refilled (of_int (bk_capacity cfg)) (bk_refill cfg) now (held_at cfg now e)"
      "refilled (of_int (bk_capacity cfg)) (bk_refill cfg) now (held_at cfg now e) \<le>
        stored cfg e + moved e e' * bk_refill cfg"
proof -
  let ?filled = "refilled (of_int (bk_capacity cfg)) (bk_refill cfg) now (held_at cfg now e)"
  have grant: "g = (if granted x then of_int tokens else 0)" by (simp add: g_def granted_def split: sum.split)
  from bucket_take_effect [OF run wf]
  have "(e' = e \<and> \<not> granted x) \<or> (bucket_of e' = Some (after_take ?filled (of_int tokens), now) \<and>
      (granted x \<longrightarrow> of_int tokens \<le> ?filled))"
    unfolding e_def e'_def by simp
  then show thesis
  proof (elim disjE conjE)
    assume "e' = e" "\<not> granted x"
    then show thesis using kept grant by (simp add: moved_def split: option.split prod.split)
  next
    assume e': "bucket_of e' = Some (after_take ?filled (of_int tokens), now)"
      and ok: "granted x \<longrightarrow> of_int tokens \<le> ?filled"
    note b = refilled_bounds [OF wf [folded e_def] r c e']
    show thesis
      by (rule left [OF e']) (use b t ok in \<open>auto simp: grant after_take_def\<close>)
  qed
qed

lemma bucket_wf_left: "bucket_of e = Some (c, l) \<Longrightarrow> 0 \<le> c \<Longrightarrow> c \<le> cap \<Longrightarrow> bucket_wf cap e"
  by (simp add: bucket_wf_def)

lemma refill_step_inv:
  assumes "bucket_step R kv cfg key agree w w'" "refill_inv kv cfg key f0 g0 w"
    and cap: "0 \<le> bk_capacity cfg" and refill: "1 / 1000 \<le> bk_refill cfg"
  shows "refill_inv kv cfg key f0 g0 w'"
  using assms(1,2)
proof (induction rule: bucket_step.induct)
  case (bucket_visit w now tokens x r)
  have r0: "0 \<le> bk_refill cfg" using refill by linarith
  have wf: "bucket_wf (of_int (bk_capacity cfg)) (kv (bw_redis w) (bucket_key cfg key))"
    using bucket_visit.prems by (simp add: refill_inv_def)
  from bucket_visit.hyps(3,2) wf r0 cap show ?case
  proof (cases rule: visit_effect)
    case kept
    with bucket_visit.prems show ?thesis by (simp add: refill_inv_def)
  next
    case (left rest)
    then have "stored cfg (kv r (bucket_key cfg key)) = rest" by (simp add: stored_def)
    with left bucket_visit.prems show ?thesis
      by (simp add: refill_inv_def bucket_wf_left algebra_simps)
  qed
next
  case (bucket_expiry idle w now r)
  let ?e = "kv (bw_redis w) (bucket_key cfg key)"
  have inv: "bucket_wf (of_int (bk_capacity cfg)) ?e"
    "bw_granted w - g0 + stored cfg ?e \<le> of_int (bk_capacity cfg) + (bw_refilled w - f0) * bk_refill cfg"
    using bucket_expiry.prems by (simp_all add: refill_inv_def)
  have "of_int (bucket_ttl cfg) * bk_refill cfg \<le> idle * bk_refill cfg"
    using bucket_expiry.hyps(1) refill by (intro mult_right_mono) linarith+
  with ttl_refills [OF refill] have "of_int (bk_capacity cfg) \<le> idle * bk_refill cfg" by linarith
  with inv stored_bounds [OF inv(1) cap]
  have "bw_granted w - g0 + of_int (bk_capacity cfg) \<le>
      of_int (bk_capacity cfg) + (bw_refilled w + idle - f0) * bk_refill cfg"
    by (simp add: algebra_simps)
  then show ?case using bucket_expiry.hyps(3)
    by (simp add: refill_inv_def bucket_wf_def stored_def bucket_of_def)
next
  case (bucket_elsewhere r w)
  then show ?case by (simp add: refill_inv_def)
qed

lemma bucket_step_inv:
  assumes "bucket_step R kv cfg key True w w'" "bucket_inv kv cfg key start g0 w"
    and cap: "0 \<le> bk_capacity cfg" and refill: "1 / 1000 \<le> bk_refill cfg"
  shows "bucket_inv kv cfg key start g0 w'"
  using assms(1,2)
proof (induction rule: bucket_step.induct)
  case (bucket_visit w now tokens x r)
  let ?cap = "of_int (bk_capacity cfg)"
  let ?e = "kv (bw_redis w) (bucket_key cfg key)"
  have r0: "0 \<le> bk_refill cfg" using refill by linarith
  have now: "bw_clock w \<le> now" using bucket_visit.hyps(1) by simp
  have inv: "bucket_wf ?cap ?e" "visited_by (bw_clock w) ?e" "start \<le> bw_clock w"
    "bw_granted w - g0 + level cfg (bw_clock w) ?e \<le> ?cap + (bw_clock w - start) * bk_refill cfg"
    using bucket_visit.prems by (simp_all add: bucket_inv_def)
  have vis: "visited_by now ?e" using inv(2) now by (force simp: visited_by_def)
  note filled = refilled_level [OF inv(1) vis]
  have later: "bw_granted w - g0 + level cfg now ?e \<le> ?cap + (now - start) * bk_refill cfg"
    using level_later [OF now r0, of ?e] inv(4) by (simp add: algebra_simps)
  from bucket_visit.hyps(3,2) inv(1) r0 cap show ?case
  proof (cases rule: visit_effect)
    case kept
    with inv vis later now show ?thesis by (simp add: bucket_inv_def)
  next
    case (left rest)
    have "level cfg now (kv r (bucket_key cfg key)) = rest" using left(1,3) by (simp add: level_def)
    moreover have "visited_by now (kv r (bucket_key cfg key))" using left(1) by (simp add: visited_by_def)
    ultimately show ?thesis using left(4) later inv(3) now bucket_wf_left [OF left(1-3)]
      by (simp add: bucket_inv_def filled)
  qed
next
  case (bucket_expiry idle w now r)
  let ?cap = "of_int (bk_capacity cfg)"
  let ?e = "kv (bw_redis w) (bucket_key cfg key)"
  have r0: "0 \<le> bk_refill cfg" using refill by linarith
  have now: "bw_clock w \<le> now" using bucket_expiry.hyps(2) by simp
  have inv: "bucket_wf ?cap ?e" "visited_by (bw_clock w) ?e" "start \<le> bw_clock w"
    "bw_granted w - g0 + level cfg (bw_clock w) ?e \<le> ?cap + (bw_clock w - start) * bk_refill cfg"
    using bucket_expiry.prems by (simp_all add: bucket_inv_def)
  have "level cfg now ?e = ?cap"
  proof (cases "bucket_of ?e")
    case (Some p)
    obtain c l where p: "p = (c, l)" by (rule prod.exhaust)
    with Some inv(1) have "0 \<le> c" by (auto simp: bucket_wf_def bucket_of_def)
    moreover have "l + idle \<le> now" using bucket_expiry.hyps(2) Some p by blast
    then have "of_int (bucket_ttl cfg) * bk_refill cfg \<le> (now - l) * bk_refill cfg"
      using bucket_expiry.hyps(1) r0 by (intro mult_right_mono) auto
    ultimately show ?thesis using ttl_refills [OF refill] Some p by (simp add: level_def min_def)
  qed (simp add: level_def)
  then have "bw_granted w - g0 + ?cap \<le> ?cap + (now - start) * bk_refill cfg"
    using level_later [OF now r0, of ?e] inv(4) by (simp add: algebra_simps)
  then show ?case using now bucket_expiry.hyps(3) inv(3)
    by (simp add: bucket_inv_def level_def bucket_wf_def visited_by_def bucket_of_def)
next
  case (bucket_elsewhere r w)
  then show ?case by (simp add: bucket_inv_def)
qed

end

section \<open>Properties\<close>

text \<open>C15: The rate limit is a rate limit, over any span of time. Take a bucket that began without a key, any
  number of clients that use it, its key expiring now and then, and any later span: the tokens granted
  within the span are at most the capacity plus what is refilled in it. On arbitrary client clocks the
  time refilled is how far the time stored in the bucket is moved forward in the span, plus the idle times that let the key
  expire; when the clients' clocks agree and do not go back, the bound holds with the length of the
  span itself. Clients ask for no negative number of tokens, and the refill rate is at least one token in a thousand seconds, below
  which the expiry of the key refills faster than the rate.\<close>

theorem rate_limit_bound:
  assumes "redis_server R kv" "0 \<le> bk_capacity cfg" "1 / 1000 \<le> bk_refill cfg"
    "kv r (bucket_key cfg key) = None"
    "(bucket_step R kv cfg key agree)\<^sup>*\<^sup>* \<lparr>bw_redis = r, bw_clock = start, bw_granted = 0, bw_refilled = 0\<rparr> w"
    "(bucket_step R kv cfg key agree)\<^sup>*\<^sup>* w w'"
  shows "bw_granted w' - bw_granted w \<le>
      of_int (bk_capacity cfg) + (bw_refilled w' - bw_refilled w) * bk_refill cfg \<and>
    (agree \<longrightarrow> bw_granted w' - bw_granted w \<le>
      of_int (bk_capacity cfg) + (bw_clock w' - bw_clock w) * bk_refill cfg)"
proof -
  let ?e = "\<lambda>w. kv (bw_redis w) (bucket_key cfg key)"
  have r0: "0 \<le> bk_refill cfg" using assms(3) by linarith
  note st = redis_server.refill_step_inv [OF assms(1) _ _ assms(2,3)]
  note at = redis_server.bucket_step_inv [OF assms(1) _ _ assms(2,3)]
  have any: "refill_inv kv cfg key f0 g0 y" if "(bucket_step R kv cfg key agree)\<^sup>*\<^sup>* x y" "refill_inv kv cfg key f0 g0 x"
    for x y f0 g0 using that by (induction rule: rtranclp_induct) (blast intro: st)+
  have same: "bucket_inv kv cfg key s0 g0 y" if "(bucket_step R kv cfg key True)\<^sup>*\<^sup>* x y" "bucket_inv kv cfg key s0 g0 x"
    for x y s0 g0 using that by (induction rule: rtranclp_induct) (blast intro: at)+
  have "refill_inv kv cfg key 0 0 w"
    by (rule any [OF assms(5)]) (simp add: assms(4) refill_inv_def bucket_wf_def stored_def bucket_of_def)
  then have wf: "bucket_wf (of_int (bk_capacity cfg)) (?e w)" by (simp add: refill_inv_def)
  have "refill_inv kv cfg key (bw_refilled w) (bw_granted w) w'"
    by (rule any [OF assms(6)]) (use wf stored_bounds [OF wf assms(2)] in \<open>simp add: refill_inv_def\<close>)
  then have a: "bw_granted w' - bw_granted w \<le>
      of_int (bk_capacity cfg) + (bw_refilled w' - bw_refilled w) * bk_refill cfg"
    using stored_bounds [of cfg "?e w'"] assms(2) by (simp add: refill_inv_def)
  have "bw_granted w' - bw_granted w \<le> of_int (bk_capacity cfg) + (bw_clock w' - bw_clock w) * bk_refill cfg" if agree
  proof -
    from that have agree: "agree = True" by simp
    have "bucket_inv kv cfg key start 0 w"
      by (rule same [OF assms(5) [unfolded agree]])
        (simp add: assms(4) bucket_inv_def bucket_wf_def visited_by_def level_def bucket_of_def)
    then have vis: "visited_by (bw_clock w) (?e w)" by (simp add: bucket_inv_def)
    have "bucket_inv kv cfg key (bw_clock w) (bw_granted w) w'"
      by (rule same [OF assms(6) [unfolded agree]])
        (use wf vis level_bounds [OF wf vis r0 assms(2)] in \<open>simp add: bucket_inv_def\<close>)
    then show ?thesis using level_bounds [of cfg "?e w'" "bw_clock w'"] r0 assms(2) by (simp add: bucket_inv_def)
  qed
  with a show ?thesis by blast
qed

text \<open>A bucket of two tokens on an empty keyspace, and one visit.\<close>

definition demo_bucket :: bucket_config where
  "demo_bucket = \<lparr>bk_scope = ''api'', bk_capacity = 2, bk_refill = 1 / 2, bk_namespace = ''qx:rl''\<rparr>"

lemma rate_limit_bound_witness:
  "\<exists>w w'. (bucket_step map_redis (\<lambda>s. s) demo_bucket ''u1'' True)\<^sup>*\<^sup>* w w' \<and>
    bw_clock w = 11 \<and> bw_granted w = 2 \<and> bw_clock w' = 13 \<and> bw_granted w' = 3 \<and>
    bw_granted w' - bw_granted w \<le> 2 + (13 - 11) * (1 / 2)"
proof -
  let ?u = "\<lparr>bw_redis = Map.empty, bw_clock = 10, bw_granted = 0, bw_refilled = 0\<rparr> :: keyspace bucket_world"
  let ?k = "bucket_key demo_bucket ''u1''"
  let ?r = "\<lambda>c t. (Map.empty :: keyspace)(?k := Some (RHash [(''count'', num_text c), (''last'', num_text t)]))"
  have t1: "bucket_take map_redis demo_bucket 11 ''u1'' 2 Map.empty = (Inr \<lparr>br_allowed = True, br_remaining = 0\<rparr>, ?r 0 11)"
    by (simp add: bucket_take_def take_script_def take_store_def refilled_def after_take_def demo_bucket_def
        lua_tonumber_def lua_int_def ebind_def eret_def Let_def hash_set_def)
  have t2: "bucket_take map_redis demo_bucket 13 ''u1'' 1 (?r 0 11) = (Inr \<lparr>br_allowed = True, br_remaining = 0\<rparr>, ?r 0 13)"
    by (simp add: bucket_take_def take_script_def take_store_def refilled_def after_take_def demo_bucket_def
        lua_tonumber_def lua_int_def ebind_def eret_def Let_def hash_set_def num_text_def)
  let ?m = "\<lambda>e e'. moved e e'"
  let ?w = "\<lparr>bw_redis = ?r 0 11, bw_clock = 11, bw_granted = 2, bw_refilled = ?m None (?r 0 11 ?k)\<rparr>"
  let ?w' = "\<lparr>bw_redis = ?r 0 13, bw_clock = 13, bw_granted = 3,
    bw_refilled = ?m None (?r 0 11 ?k) + ?m (?r 0 11 ?k) (?r 0 13 ?k)\<rparr>"
  have "bucket_step map_redis (\<lambda>s. s) demo_bucket ''u1'' True ?u ?w"
    using bucket_visit [of True ?u 11 2 map_redis demo_bucket "''u1''" _ "?r 0 11" "\<lambda>s. s"] t1 by simp
  then have s1: "(bucket_step map_redis (\<lambda>s. s) demo_bucket ''u1'' True)\<^sup>*\<^sup>* ?u ?w" by (rule r_into_rtranclp)
  have "bucket_step map_redis (\<lambda>s. s) demo_bucket ''u1'' True ?w ?w'"
    using bucket_visit [of True ?w 13 1 map_redis demo_bucket "''u1''" _ "?r 0 13" "\<lambda>s. s"] t2 by simp
  then have s2: "(bucket_step map_redis (\<lambda>s. s) demo_bucket ''u1'' True)\<^sup>*\<^sup>* ?w ?w'" by (rule r_into_rtranclp)
  from rate_limit_bound [OF keyspace.redis_server_axioms _ _ _ s1 s2]
  have "bw_granted ?w' - bw_granted ?w \<le> of_int (bk_capacity demo_bucket) + (bw_clock ?w' - bw_clock ?w) * bk_refill demo_bucket"
    by (simp add: demo_bucket_def)
  with s2 show ?thesis by (intro exI [of _ ?w] exI [of _ ?w']) (simp add: demo_bucket_def)
qed

text \<open>A visit writes the time its client reads even when that is before the stored one, so a slow clock
  refills the bucket a second time for the same seconds: a bucket of two tokens grants four at time 10.\<close>

lemma slow_clock_refills_again:
  defines "visit \<equiv> \<lambda>now s. bucket_take map_redis (demo_bucket\<lparr>bk_refill := 1\<rparr>) now ''u1'' 2 s"
  shows "\<exists>s1 s2 s3. visit 10 Map.empty = (Inr \<lparr>br_allowed = True, br_remaining = 0\<rparr>, s1) \<and>
    visit 8 s1 = (Inr \<lparr>br_allowed = False, br_remaining = 0\<rparr>, s2) \<and>
    visit 10 s2 = (Inr \<lparr>br_allowed = True, br_remaining = 0\<rparr>, s3)"
  by (simp add: visit_def bucket_take_def take_script_def take_store_def refilled_def after_take_def demo_bucket_def
      lua_tonumber_def lua_int_def ebind_def eret_def Let_def hash_set_def num_text_def)

end
