(* ===== verification/Qx_Regions.thy ===== *)
theory Qx_Regions
  imports Qx_Events
begin

text \<open>
  The package \<open>qx-regions\<close>: the replicator that forwards published outbox rows to the broker of
  another region (\<open>replicator\<close>), the two resolvers of a tenant's home region (\<open>resolver\<close>) and the
  router (\<open>router\<close>). The two tables and the broker are arguments. The middleware that uses the
  router is in \<open>Qx_Http\<close>.
\<close>

section \<open>Comparing UUIDs as text\<close>

text \<open>The order of \<open>id::text\<close>, by character codes.\<close>

fun str_less :: "string \<Rightarrow> string \<Rightarrow> bool" where
  "str_less xs [] = False"
| "str_less [] (y # ys) = True"
| "str_less (x # xs) (y # ys) =
     ((of_char x :: nat) < of_char y \<or> (x = y \<and> str_less xs ys))"

lemma str_less_append:
  "length a = length b \<Longrightarrow> str_less (a @ x) (b @ y) \<longleftrightarrow> str_less a b \<or> (a = b \<and> str_less x y)"
  by (induction a b rule: list_induct2) auto

lemma str_less_irrefl [simp]: "\<not> str_less a a"
  by (induction a) auto

lemma hex_char_code: "d < 16 \<Longrightarrow> (of_char (hex_char d) :: nat) = (if d < 10 then 48 + d else 87 + d)"
  by (simp add: hex_char_def)

lemma hex_char_less:
  "d < 16 \<Longrightarrow> e < 16 \<Longrightarrow> (of_char (hex_char d) :: nat) < of_char (hex_char e) \<longleftrightarrow> d < e"
  by (simp add: hex_char_code)

lemma base_less: "b < 16 \<Longrightarrow> d < 16 \<Longrightarrow> 16 * a + b < 16 * c + d \<longleftrightarrow> a < c \<or> (a = c \<and> b < d)" for a :: nat
  by (rule linorder_cases [of a c]) auto

lemma base_eq: "b < 16 \<Longrightarrow> d < 16 \<Longrightarrow> 16 * a + b = 16 * c + d \<longleftrightarrow> a = c \<and> b = d" for a :: nat
  by (rule linorder_cases [of a c]) auto

lemma hex_digits_eq: "hex_digits n u = hex_digits n v \<longleftrightarrow> u mod 16 ^ n = v mod 16 ^ n"
proof
  assume "hex_digits n u = hex_digits n v"
  then have "hex_read 0 (hex_digits n u) = hex_read 0 (hex_digits n v)" by simp
  then show "u mod 16 ^ n = v mod 16 ^ n" by (simp add: hex_read_digits)
next
  show "u mod 16 ^ n = v mod 16 ^ n \<Longrightarrow> hex_digits n u = hex_digits n v"
  proof (induction n arbitrary: u v)
    case (Suc n)
    have s: "w mod 16 ^ Suc n = 16 * (w div 16 mod 16 ^ n) + w mod 16" for w :: nat
      by (simp add: mod_mult2_eq)
    from Suc.prems have "u div 16 mod 16 ^ n = v div 16 mod 16 ^ n" "u mod 16 = v mod 16"
      by (simp_all only: s base_eq mod_less_divisor zero_less_numeral)
    with Suc.IH [of "u div 16" "v div 16"] show ?case by simp
  qed simp
qed

lemma hex_digits_less: "str_less (hex_digits n u) (hex_digits n v) \<longleftrightarrow> u mod 16 ^ n < v mod 16 ^ n"
proof (induction n arbitrary: u v)
  case (Suc n)
  have s: "w mod 16 ^ Suc n = 16 * (w div 16 mod 16 ^ n) + w mod 16" for w :: nat
    by (simp add: mod_mult2_eq)
  have "str_less (hex_digits (Suc n) u) (hex_digits (Suc n) v) \<longleftrightarrow>
      u div 16 mod 16 ^ n < v div 16 mod 16 ^ n \<or>
      (u div 16 mod 16 ^ n = v div 16 mod 16 ^ n \<and> u mod 16 < v mod 16)"
    by (simp add: str_less_append Suc.IH hex_digits_eq hex_char_less)
  also have "\<dots> \<longleftrightarrow> u mod 16 ^ Suc n < v mod 16 ^ Suc n"
    by (simp only: s base_less mod_less_divisor zero_less_numeral)
  finally show ?case .
qed simp

text \<open>The five groups of the text of a UUID.\<close>

definition uuid_groups :: "uuid \<Rightarrow> string \<times> string \<times> string \<times> string \<times> string" where
  "uuid_groups u =
     (let h = hex_digits 32 u
      in (take 8 h, take 4 (drop 8 h), take 4 (drop 12 h), take 4 (drop 16 h), drop 20 h))"

lemma uuid_groups_spec:
  assumes "uuid_groups u = (a, b, c, d, e)"
  shows "str_of_uuid u = a @ ''-'' @ b @ ''-'' @ c @ ''-'' @ d @ ''-'' @ e"
    and "hex_digits 32 u = a @ b @ c @ d @ e"
    and "length a = 8" "length b = 4" "length c = 4" "length d = 4" "length e = 12"
proof -
  let ?h = "hex_digits 32 u"
  have split: "take m (drop k ?h) @ drop (k + m) ?h = drop k ?h" for k m
    using append_take_drop_id [of m "drop k ?h"] by (simp add: add.commute)
  from assms have g: "a = take 8 ?h" "b = take 4 (drop 8 ?h)" "c = take 4 (drop 12 ?h)"
    "d = take 4 (drop 16 ?h)" "e = drop 20 ?h"
    by (auto simp: uuid_groups_def Let_def simp del: hex_digits.simps)
  then show "str_of_uuid u = a @ ''-'' @ b @ ''-'' @ c @ ''-'' @ d @ ''-'' @ e"
    by (simp add: str_of_uuid_def Let_def del: hex_digits.simps)
  show "hex_digits 32 u = a @ b @ c @ d @ e"
    unfolding g using split [of 4 16] split [of 4 12] split [of 4 8] append_take_drop_id [of 8 ?h]
    by (simp del: hex_digits.simps append_take_drop_id)
  show "length a = 8" "length b = 4" "length c = 4" "length d = 4" "length e = 12"
    by (simp_all add: g del: hex_digits.simps)
qed

lemma uuid_text_less:
  assumes "u < 2 ^ 128" "v < 2 ^ 128"
  shows "str_less (str_of_uuid u) (str_of_uuid v) \<longleftrightarrow> u < v"
proof -
  obtain a b c d e where u: "uuid_groups u = (a, b, c, d, e)" by (metis prod.exhaust)
  obtain a' b' c' d' e' where v: "uuid_groups v = (a', b', c', d', e')" by (metis prod.exhaust)
  note gu = uuid_groups_spec [OF u] and gv = uuid_groups_spec [OF v]
  have "str_less (str_of_uuid u) (str_of_uuid v) \<longleftrightarrow> str_less (hex_digits 32 u) (hex_digits 32 v)"
    unfolding gu(1,2) gv(1,2) using gu(3-) gv(3-) by (simp add: str_less_append)
  also have "\<dots> \<longleftrightarrow> u < v" using assms by (simp add: hex_digits_less)
  finally show ?thesis .
qed

section \<open>The replicator\<close>

text \<open>
  A position in the outbox is the pair of a time and an id, both absent at the start. The database
  and the remote broker are one state, as in the relay.
\<close>

record region_checkpoint =
  ck_target :: string
  ck_occurred_at :: "instant option"
  ck_event_id :: "uuid option"
  ck_updated_at :: instant

type_synonym position = "instant option \<times> uuid option"

definition region_ck_clash :: "region_checkpoint \<Rightarrow> region_checkpoint \<Rightarrow> bool" where
  "region_ck_clash a b \<longleftrightarrow> ck_target a = ck_target b"

record ('d, 'b) replicator =
  rp_events :: "('d, outbox_row) sql"
  rp_checkpoints :: "('d, region_checkpoint) sql"
  rp_publisher :: "'b publisher"
  rp_target :: string
  rp_batch :: nat
  rp_poll :: rat
  rp_idle_poll :: rat
  rp_now :: "'d \<Rightarrow> instant"
  rp_commit :: "'d \<Rightarrow> exn option"
  rp_wait :: "rat \<Rightarrow> (('d, 'b) relay_state, unit) eff"

definition load_checkpoint :: "('d, 'b) replicator \<Rightarrow> ('d, position) eff" where
  "load_checkpoint rp =
     ebind (sql_select (rp_checkpoints rp) (\<lambda>c. ck_target c = rp_target rp) no_order None) (\<lambda>found.
       eret (case found of [] \<Rightarrow> (None, None) | c # _ \<Rightarrow> (ck_occurred_at c, ck_event_id c)))"

definition save_checkpoint :: "('d, 'b) replicator \<Rightarrow> position \<Rightarrow> ('d, unit) eff" where
  "save_checkpoint rp pos d =
     sql_upsert (rp_checkpoints rp)
       \<lparr>ck_target = rp_target rp, ck_occurred_at = fst pos, ck_event_id = snd pos, ck_updated_at = rp_now rp d\<rparr>
       (\<lambda>c. c\<lparr>ck_occurred_at := fst pos, ck_event_id := snd pos, ck_updated_at := rp_now rp d\<rparr>) d"

definition after_position :: "position \<Rightarrow> outbox_row \<Rightarrow> bool" where
  "after_position pos r \<longleftrightarrow>
     (case pos of
        (Some t, Some u) \<Rightarrow> t < ob_occurred_at r \<or>
          (ob_occurred_at r = t \<and> str_less (str_of_uuid u) (str_of_uuid (ob_id r)))
      | _ \<Rightarrow> True)"

definition replica_key :: "outbox_row \<Rightarrow> int \<times> int" where
  "replica_key r = (ob_occurred_at r, int (ob_id r))"

definition replica_due :: "position \<Rightarrow> outbox_row \<Rightarrow> bool" where
  "replica_due pos r \<longleftrightarrow> ob_published_at r \<noteq> None \<and> after_position pos r"

definition replica_headers :: "('d, 'b) replicator \<Rightarrow> outbox_row \<Rightarrow> headers" where
  "replica_headers rp r =
     [(''qx.event_name'', ob_event_name r), (''qx.source_region'', rp_target rp)]
     @ uuid_header ''qx.correlation_id'' (ob_correlation_id r)
     @ uuid_header ''qx.tenant_id'' (ob_tenant_id r)"

text \<open>Whether the publisher took the row; a row it refuses ends the batch.\<close>

definition forward_row :: "('d, 'b) replicator \<Rightarrow> outbox_row \<Rightarrow> ('b, bool) eff" where
  "forward_row rp r =
     etry (ebind (publish_raw (rp_publisher rp) (ob_event_name r) (ob_payload r) (replica_headers rp r))
             (\<lambda>_. eret True))
       (\<lambda>e. eret False)"

fun forward_rows ::
  "('d, 'b) replicator \<Rightarrow> outbox_row list \<Rightarrow> nat \<Rightarrow> position \<Rightarrow> ('b, nat \<times> position) eff" where
  "forward_rows rp [] n pos = eret (n, pos)"
| "forward_rows rp (r # rs) n pos =
     ebind (forward_row rp r) (\<lambda>sent.
       if sent then forward_rows rp rs (n + 1) (Some (ob_occurred_at r), Some (ob_id r))
       else eret (n, pos))"

definition replicate_batch :: "('d, 'b) replicator \<Rightarrow> ('d \<times> 'b, nat) eff" where
  "replicate_batch rp =
     engine_begin (rp_commit rp)
       (ebind (on_fst (load_checkpoint rp)) (\<lambda>pos.
        ebind (on_fst (sql_select (rp_events rp) (replica_due pos) replica_key (Some (rp_batch rp)))) (\<lambda>rows.
          if rows = [] then eret 0
          else ebind (on_snd (forward_rows rp rows 0 pos)) (\<lambda>(n, upto).
               ebind (if 0 < n then on_fst (save_checkpoint rp upto) else eret ()) (\<lambda>_.
                 eret n)))))"

definition replicator_stop :: "(('d, 'b) relay_state, unit) eff" where
  "replicator_stop = on_snd (emodify (\<lambda>_. True))"

definition replicator_sleep :: "('d, 'b) replicator \<Rightarrow> rat \<Rightarrow> (('d, 'b) relay_state, unit) eff" where
  "replicator_sleep rp seconds =
     etry (rp_wait rp seconds) (\<lambda>e. if exn_class e = ''TimeoutError'' then eret () else eraise e)"

definition replicate_pass :: "('d, 'b) replicator \<Rightarrow> (('d, 'b) relay_state, unit) eff" where
  "replicate_pass rp =
     etry (ebind (on_fst (replicate_batch rp)) (\<lambda>forwarded.
             replicator_sleep rp (if 0 < forwarded then rp_poll rp else rp_idle_poll rp)))
       (\<lambda>e. replicator_sleep rp (rp_idle_poll rp))"

fun replicator_run :: "('d, 'b) replicator \<Rightarrow> nat \<Rightarrow> ('d, 'b) relay_state passes" where
  "replicator_run rp 0 w = None"
| "replicator_run rp (Suc n) w =
     (if snd w then Some (Inr (), w)
      else case replicate_pass rp w of
             (Inl e, w') \<Rightarrow> Some (Inl e, w')
           | (Inr u, w') \<Rightarrow> replicator_run rp n w')"

section \<open>What a batch does\<close>

text \<open>The two tables, each leaving the other alone, and a broker that keeps its messages in order.\<close>

locale replica_tables =
  ev: sql_table E erows ob_clash crows + ck: sql_table C crows region_ck_clash erows
  for E :: "('db, outbox_row) sql" and erows :: "'db \<Rightarrow> outbox_row list"
    and C :: "('db, region_checkpoint) sql" and crows :: "'db \<Rightarrow> region_checkpoint list"

locale remote_bus =
  fixes P :: "'b publisher" and messages :: "'b \<Rightarrow> bus_message list"
  assumes taken: "pb_publish P s m h b = (Inr u, b') \<Longrightarrow> messages b' = messages b @ [(s, m, h)]"
    and refused: "pb_publish P s m h b = (Inl e, b') \<Longrightarrow>
      messages b' = messages b \<or> messages b' = messages b @ [(s, m, h)]"

interpretation list_remote: remote_bus "list_publisher prefix" "\<lambda>b. b" for prefix
  by unfold_locales (auto simp: list_publisher_def)

definition replica_message :: "('d, 'b) replicator \<Rightarrow> outbox_row \<Rightarrow> bus_message" where
  "replica_message rp r =
     (nats_subject (rp_publisher rp) (ob_event_name r), Wire (JObj (ob_payload r)), replica_headers rp r)"

definition row_position :: "outbox_row \<Rightarrow> position" where
  "row_position r = (Some (ob_occurred_at r), Some (ob_id r))"

text \<open>The position stored for a target.\<close>

definition stored_position :: "string \<Rightarrow> region_checkpoint list \<Rightarrow> position" where
  "stored_position target cs =
     (case filter (\<lambda>c. ck_target c = target) cs of
        [] \<Rightarrow> (None, None) | c # _ \<Rightarrow> (ck_occurred_at c, ck_event_id c))"

definition uuid_rows :: "outbox_row list \<Rightarrow> bool" where
  "uuid_rows rs \<longleftrightarrow> unique_rows ob_clash rs \<and> (\<forall>r \<in> set rs. ob_id r < 2 ^ 128)"

lemma replica_publish:
  "publish_raw (rp_publisher rp) (ob_event_name r) (ob_payload r) (replica_headers rp r) =
     (case replica_message rp r of (s, d, h) \<Rightarrow> pb_publish (rp_publisher rp) s d h)"
  by (simp add: publish_raw_def replica_message_def replica_headers_def)

lemma after_row:
  "ob_id q < 2 ^ 128 \<Longrightarrow> ob_id r < 2 ^ 128 \<Longrightarrow>
     after_position (row_position q) r \<longleftrightarrow> replica_key q < replica_key r"
  by (auto simp: after_position_def row_position_def replica_key_def uuid_text_less less_prod_def)

lemma replica_key_inj: "unique_rows ob_clash rs \<Longrightarrow> inj_on replica_key (set rs)"
  by (rule inj_onI) (auto simp: replica_key_def ob_clash_def intro: unique_rows_same)

lemma one_checkpoint:
  assumes "unique_rows region_ck_clash cs"
  shows "filter (\<lambda>c. ck_target c = t) cs = [] \<or> (\<exists>c. filter (\<lambda>c. ck_target c = t) cs = [c])"
  using assms by (induction cs) (auto simp: unique_rows_def region_ck_clash_def filter_empty_conv)

lemma stored_position_upsert:
  fixes t :: string and pos :: position and now :: instant
  assumes "unique_rows region_ck_clash cs"
  defines "c \<equiv> \<lparr>ck_target = t, ck_occurred_at = fst pos, ck_event_id = snd pos, ck_updated_at = now\<rparr>"
    and "f \<equiv> \<lambda>c. c\<lparr>ck_occurred_at := fst pos, ck_event_id := snd pos, ck_updated_at := now\<rparr>"
  shows "stored_position t (upsert_rows region_ck_clash c f cs) = pos"
    and "unique_rows region_ck_clash (upsert_rows region_ck_clash c f cs)"
proof -
  have "ck_target (f x) = ck_target x" for x by (simp add: f_def)
  then have keep: "filter (\<lambda>c. ck_target c = t) (map (\<lambda>x. if region_ck_clash x c then f x else x) cs) =
      map f (filter (\<lambda>c. ck_target c = t) cs)"
    by (induction cs) (auto simp: region_ck_clash_def c_def)
  show "stored_position t (upsert_rows region_ck_clash c f cs) = pos"
  proof (cases "\<exists>x \<in> set cs. region_ck_clash x c")
    case True
    then have "filter (\<lambda>c. ck_target c = t) cs \<noteq> []"
      by (auto simp: filter_empty_conv region_ck_clash_def c_def)
    with one_checkpoint [OF assms(1), of t] obtain x where "filter (\<lambda>c. ck_target c = t) cs = [x]" by blast
    then have "stored_position t (upsert_rows region_ck_clash c f cs) = (ck_occurred_at (f x), ck_event_id (f x))"
      using True by (simp add: stored_position_def upsert_rows_def keep)
    then show ?thesis by (simp add: f_def)
  next
    case False
    then have "filter (\<lambda>c. ck_target c = t) cs = []" by (auto simp: filter_empty_conv region_ck_clash_def c_def)
    with False show ?thesis by (simp add: stored_position_def upsert_rows_def c_def)
  qed
  have same: "map ck_target (map (\<lambda>x. if region_ck_clash x c then f x else x) cs) = map ck_target cs"
    by (simp add: f_def)
  have names: "unique_rows region_ck_clash xs \<longleftrightarrow> distinct (map ck_target xs)" for xs
    by (induction xs) (auto simp: unique_rows_def region_ck_clash_def)
  show "unique_rows region_ck_clash (upsert_rows region_ck_clash c f cs)"
  proof (cases "\<exists>x \<in> set cs. region_ck_clash x c")
    case True
    then show ?thesis using assms(1) unfolding names upsert_rows_def by (simp only: same if_True)
  next
    case False
    then show ?thesis using assms(1) by (simp add: names upsert_rows_def) (auto simp: region_ck_clash_def c_def)
  qed
qed

context remote_bus
begin

lemma forward_row_messages:
  assumes "forward_row rp r b = (x, b')" "rp_publisher rp = P"
  shows "(x = Inr True \<and> messages b' = messages b @ [replica_message rp r]) \<or>
    (x \<noteq> Inr True \<and> (messages b' = messages b \<or> messages b' = messages b @ [replica_message rp r]))"
proof -
  obtain s m h where m: "replica_message rp r = (s, m, h)" by (rule prod.exhaust) (metis prod.exhaust)
  obtain y b1 where y: "pb_publish P s m h b = (y, b1)" by (rule prod.exhaust)
  with taken [of s m h b "()" b1] refused [of s m h b _ b1] assms m show ?thesis
    by (cases y) (auto simp: forward_row_def replica_publish etry_def ebind_def split: if_splits)
qed

text \<open>The rows taken are a prefix; the position is that of the last of them.\<close>

lemma forward_rows_messages:
  assumes "forward_rows rp rs n pos b = (x, b')" "rp_publisher rp = P"
  shows "set (messages b) \<subseteq> set (messages b') \<and>
    (\<forall>m reached. x = Inr (m, reached) \<longrightarrow>
       (\<exists>sent rest. rs = sent @ rest \<and> m = n + length sent \<and>
          replica_message rp ` set sent \<subseteq> set (messages b') \<and>
          reached = (if sent = [] then pos else row_position (last sent))))"
  using assms(1)
proof (induction rs arbitrary: n pos b)
  case (Cons r rs)
  obtain y b1 where y: "forward_row rp r b = (y, b1)" by (rule prod.exhaust)
  note one = forward_row_messages [OF y assms(2)]
  show ?case
  proof (cases "y = Inr True")
    case True
    with Cons.prems y have run: "forward_rows rp rs (n + 1) (row_position r) b1 = (x, b')"
      by (simp add: ebind_def row_position_def)
    note ih = Cons.IH [OF run]
    have b1: "set (messages b) \<subseteq> set (messages b1)" "replica_message rp r \<in> set (messages b1)"
      using one True by auto
    show ?thesis
    proof (intro conjI allI impI)
      show "set (messages b) \<subseteq> set (messages b')" using ih b1 by blast
      fix m reached assume "x = Inr (m, reached)"
      with ih obtain sent rest where s: "rs = sent @ rest" "m = n + 1 + length sent"
        "replica_message rp ` set sent \<subseteq> set (messages b')"
        "reached = (if sent = [] then row_position r else row_position (last sent))" by blast
      then show "\<exists>sent rest. r # rs = sent @ rest \<and> m = n + length sent \<and>
          replica_message rp ` set sent \<subseteq> set (messages b') \<and>
          reached = (if sent = [] then pos else row_position (last sent))"
        using b1(2) ih by (intro exI [of _ "r # sent"] exI [of _ rest]) auto
    qed
  next
    case False
    with Cons.prems y one show ?thesis
      by (cases y) (auto simp: ebind_def intro: exI [of _ "[]"])
  qed
qed auto

end

section \<open>No gap\<close>

text \<open>
  The replicator and the local region: batches with any outcome, and local commits that publish
  rows behind the stored position only.
\<close>

inductive replica_step ::
  "('d, 'b) replicator \<Rightarrow> ('d \<Rightarrow> outbox_row list) \<Rightarrow> ('d \<Rightarrow> region_checkpoint list)
     \<Rightarrow> 'd \<times> 'b \<Rightarrow> 'd \<times> 'b \<Rightarrow> bool"
  for rp erows crows where
  replica_batch: "replicate_batch rp st = (x, st') \<Longrightarrow> replica_step rp erows crows st st'"
| replica_local: "uuid_rows (erows d') \<Longrightarrow> unique_rows region_ck_clash (crows d') \<Longrightarrow>
    stored_position (rp_target rp) (crows d') = stored_position (rp_target rp) (crows d) \<Longrightarrow>
    (\<forall>r \<in> set (erows d'). ob_published_at r \<noteq> None \<longrightarrow>
       after_position (stored_position (rp_target rp) (crows d)) r \<or>
       (\<exists>q \<in> set (erows d). ob_published_at q \<noteq> None \<and> replica_key q = replica_key r \<and>
          replica_message rp q = replica_message rp r)) \<Longrightarrow>
    replica_step rp erows crows (d, b) (d', b)"

definition replica_inv ::
  "('d, 'b) replicator \<Rightarrow> ('d \<Rightarrow> outbox_row list) \<Rightarrow> ('d \<Rightarrow> region_checkpoint list)
     \<Rightarrow> ('b \<Rightarrow> bus_message list) \<Rightarrow> 'd \<times> 'b \<Rightarrow> bool" where
  "replica_inv rp erows crows messages st \<longleftrightarrow>
     uuid_rows (erows (fst st)) \<and> unique_rows region_ck_clash (crows (fst st)) \<and>
     (\<forall>r \<in> set (erows (fst st)). ob_published_at r \<noteq> None \<longrightarrow>
        \<not> after_position (stored_position (rp_target rp) (crows (fst st))) r \<longrightarrow>
        replica_message rp r \<in> set (messages (snd st)))"

lemma after_position_key:
  "replica_key q = replica_key r \<Longrightarrow> after_position pos q = after_position pos r"
  by (auto simp: after_position_def replica_key_def split: prod.splits option.splits)

lemma sorted_prefix_member:
  fixes k :: "'r \<Rightarrow> 'k::linorder"
  assumes "sorted (map k (xs @ ys))" "inj_on k (set (xs @ ys))" "xs \<noteq> []" "r \<in> set (xs @ ys)"
    and "k r \<le> k (last xs)"
  shows "r \<in> set xs"
proof (rule ccontr)
  assume "r \<notin> set xs"
  with assms(4) have r: "r \<in> set ys" by simp
  have "last xs \<in> set xs" using assms(3) by simp
  with r assms(1) have "k (last xs) \<le> k r" by (auto simp: sorted_append)
  with assms(5) have "k r = k (last xs)" by simp
  with assms(2) r \<open>last xs \<in> set xs\<close> have "r = last xs" by (metis Un_iff inj_onD set_append)
  with \<open>last xs \<in> set xs\<close> \<open>r \<notin> set xs\<close> show False by simp
qed

locale replica = replica_tables E erows C crows + remote_bus P messages
  for E :: "('db, outbox_row) sql" and erows :: "'db \<Rightarrow> outbox_row list"
    and C :: "('db, region_checkpoint) sql" and crows :: "'db \<Rightarrow> region_checkpoint list"
    and P :: "'b publisher" and messages :: "'b \<Rightarrow> bus_message list"
begin

definition wired :: "('db, 'b) replicator \<Rightarrow> bool" where
  "wired rp \<longleftrightarrow> rp_events rp = E \<and> rp_checkpoints rp = C \<and> rp_publisher rp = P"

abbreviation at_target :: "('db, 'b) replicator \<Rightarrow> 'db \<Rightarrow> position" where
  "at_target rp d \<equiv> stored_position (rp_target rp) (crows d)"

lemma load_ok:
  assumes "load_checkpoint rp d = (Inr pos, d')" "wired rp" "unique_rows region_ck_clash (crows d)"
  shows "d' = d \<and> pos = at_target rp d"
proof -
  from assms obtain found where f: "sql_select C (\<lambda>c. ck_target c = rp_target rp) no_order None d = (Inr found, d')"
    and pos: "pos = (case found of [] \<Rightarrow> (None, None) | c # _ \<Rightarrow> (ck_occurred_at c, ck_event_id c))"
    by (auto simp: load_checkpoint_def wired_def ebind_eq_Inr)
  have m: "mset found = mset (filter (\<lambda>c. ck_target c = rp_target rp) (crows d))"
    by (rule ck.select_mset(1) [OF f])
  have "found = filter (\<lambda>c. ck_target c = rp_target rp) (crows d)"
    using one_checkpoint [OF assms(3), of "rp_target rp"] m by (auto simp del: mset_filter)
  with pos ck.select_state [OF f] show ?thesis by (simp add: stored_position_def)
qed

lemma save_ok:
  assumes "save_checkpoint rp pos d = (Inr u, d')" "wired rp" "unique_rows region_ck_clash (crows d)"
  shows "at_target rp d' = pos \<and> unique_rows region_ck_clash (crows d') \<and> erows d' = erows d"
  using assms ck.upsert_ok stored_position_upsert [OF assms(3)]
  by (auto simp: save_checkpoint_def wired_def)

lemma due_rows:
  assumes "sql_select E (replica_due pos) replica_key (Some n) d = (Inr rs, d')"
    and "unique_rows ob_clash (erows d)"
  shows "d' = d" and "rs = take n (sort_key replica_key (filter (replica_due pos) (erows d)))"
proof -
  show "d' = d" by (rule ev.select_state [OF assms(1)])
  from ev.select_rows [OF assms(1)] obtain ys where
    ys: "mset ys = mset (filter (replica_due pos) (erows d))" "sorted (map replica_key ys)"
    "rs = take n ys" by auto
  have set: "set ys \<subseteq> set (erows d)" using ys(1) by (metis filter_is_subset set_mset_mset)
  have "distinct (erows d)" using assms(2) by (simp add: unique_ids distinct_map)
  then have dist: "distinct ys" using mset_eq_imp_distinct_iff [OF ys(1)] by simp
  have inj: "inj_on replica_key (set ys)" by (rule inj_on_subset [OF replica_key_inj [OF assms(2)] set])
  have "sort_key replica_key (filter (replica_due pos) (erows d)) = ys"
    by (rule sorted_key_unique [where f = replica_key]) (use ys inj dist in auto)
  with ys(3) show "rs = take n (sort_key replica_key (filter (replica_due pos) (erows d)))" by simp
qed

text \<open>One batch, whatever happens in it.\<close>

lemma batch_effect:
  assumes run: "replicate_batch rp (d, b) = (x, (d', b'))" and w: "wired rp"
    and u: "uuid_rows (erows d)" "unique_rows region_ck_clash (crows d)"
  shows "set (messages b) \<subseteq> set (messages b') \<and> (d' = d \<or>
    (\<exists>sent rest. sort_key replica_key (filter (replica_due (at_target rp d)) (erows d)) = sent @ rest \<and>
       sent \<noteq> [] \<and> replica_message rp ` set sent \<subseteq> set (messages b') \<and>
       at_target rp d' = row_position (last sent) \<and> erows d' = erows d \<and> unique_rows region_ck_clash (crows d')))"
proof -
  have ub: "unique_rows ob_clash (erows d)" using u(1) by (simp add: uuid_rows_def)
  have fields: "rp_events rp = E" "rp_publisher rp = P" using w by (simp_all add: wired_def)
  obtain p d1 where p: "load_checkpoint rp d = (p, d1)" by (rule prod.exhaust)
  show ?thesis
  proof (cases p)
    case (Inl e)
    with run p show ?thesis by (simp add: replicate_batch_def engine_begin_def ebind_def)
  next
    case (Inr pos)
    with load_ok [of rp d pos d1] p w u(2) have pos: "d1 = d" "pos = at_target rp d" by auto
    obtain q d2 where q: "sql_select E (replica_due pos) replica_key (Some (rp_batch rp)) d = (q, d2)"
      by (rule prod.exhaust)
    show ?thesis
    proof (cases q)
      case (Inl e)
      with run p \<open>p = Inr pos\<close> q pos show ?thesis
        by (simp add: replicate_batch_def engine_begin_def ebind_def fields)
    next
      case (Inr rs)
      note due = due_rows [OF q [unfolded Inr] ub]
      obtain y b1 where y: "forward_rows rp rs 0 pos b = (y, b1)" by (rule prod.exhaust)
      note sent = forward_rows_messages [OF y fields(2)]
      show ?thesis
      proof (cases "rs = []")
        case True
        with run p q \<open>p = Inr pos\<close> Inr pos due(1) show ?thesis
          by (simp add: replicate_batch_def engine_begin_def ebind_def fields split: option.splits)
      next
        case rs: False
        show ?thesis
        proof (cases y)
          case (Inl e)
          with run p q \<open>p = Inr pos\<close> \<open>q = Inr rs\<close> pos due(1) y rs sent show ?thesis
            by (simp add: replicate_batch_def engine_begin_def ebind_def fields)
        next
          case (Inr mr)
          obtain m reached where mr: "mr = (m, reached)" by (rule prod.exhaust)
          obtain z d3 where z: "save_checkpoint rp reached d = (z, d3)" by (rule prod.exhaust)
          have "\<exists>sn rest. rs = sn @ rest \<and> m = length sn \<and>
              replica_message rp ` set sn \<subseteq> set (messages b1) \<and>
              reached = (if sn = [] then pos else row_position (last sn))"
            using conjunct2 [OF sent, THEN spec, THEN spec, THEN mp, OF Inr [unfolded mr]] by simp
          then obtain sn rest where sn: "rs = sn @ rest" "m = length sn"
            "replica_message rp ` set sn \<subseteq> set (messages b1)"
            "reached = (if sn = [] then pos else row_position (last sn))" by blast
          have b': "b' = b1" and d': "d' = d \<or> (d' = d3 \<and> sn \<noteq> [] \<and> z = Inr ())"
            using run p q \<open>p = Inr pos\<close> \<open>q = Inr rs\<close> pos due(1) y rs Inr mr z sn(2)
            by (auto simp: replicate_batch_def engine_begin_def ebind_def fields
                split: option.splits if_splits sum.splits)
          show ?thesis
          proof (cases "d' = d")
            case True
            with sent b' show ?thesis by blast
          next
            case False
            with d' have "sn \<noteq> []" "save_checkpoint rp reached d = (Inr (), d')" using z by auto
            with save_ok [of rp reached d "()" d'] w u(2) sn(4)
            have "at_target rp d' = row_position (last sn)" "unique_rows region_ck_clash (crows d')" "erows d' = erows d"
              by auto
            moreover have "sort_key replica_key (filter (replica_due (at_target rp d)) (erows d)) =
                sn @ (rest @ drop (rp_batch rp) (sort_key replica_key (filter (replica_due pos) (erows d))))"
              using due(2) sn(1) pos(2) by (metis append.assoc append_take_drop_id)
            ultimately show ?thesis using sent b' sn(3) \<open>sn \<noteq> []\<close> by blast
          qed
        qed
      qed
    qed
  qed
qed

lemma replica_step_inv:
  assumes "replica_step rp erows crows st st'" "wired rp" "replica_inv rp erows crows messages st"
  shows "replica_inv rp erows crows messages st'"
  using assms
proof (induction rule: replica_step.induct)
  case (replica_batch st x st')
  obtain d b where st: "st = (d, b)" by (rule prod.exhaust)
  obtain d' b' where st': "st' = (d', b')" by (rule prod.exhaust)
  have inv: "uuid_rows (erows d)" "unique_rows region_ck_clash (crows d)"
    "\<And>r. r \<in> set (erows d) \<Longrightarrow> ob_published_at r \<noteq> None \<Longrightarrow> \<not> after_position (at_target rp d) r \<Longrightarrow>
       replica_message rp r \<in> set (messages b)"
    using replica_batch.prems(2) by (auto simp: replica_inv_def st)
  note eff = batch_effect [OF replica_batch.hyps [unfolded st st'] replica_batch.prems(1) inv(1,2)]
  show ?case
  proof (cases "d' = d")
    case True
    with eff inv show ?thesis by (auto simp: replica_inv_def st')
  next
    case False
    let ?L = "sort_key replica_key (filter (replica_due (at_target rp d)) (erows d))"
    from eff False obtain sent rest where L: "?L = sent @ rest" "sent \<noteq> []"
      and m: "set (messages b) \<subseteq> set (messages b')" "replica_message rp ` set sent \<subseteq> set (messages b')"
      and d': "at_target rp d' = row_position (last sent)" "erows d' = erows d" "unique_rows region_ck_clash (crows d')"
      by auto
    have sub: "set (sent @ rest) \<subseteq> set (erows d)" unfolding L(1) [symmetric] by auto
    have ub: "unique_rows ob_clash (erows d)" using inv(1) by (simp add: uuid_rows_def)
    have "replica_message rp r \<in> set (messages b')"
      if r: "r \<in> set (erows d)" "ob_published_at r \<noteq> None" "\<not> after_position (row_position (last sent)) r" for r
    proof (cases "after_position (at_target rp d) r")
      case True
      with r have mem: "r \<in> set (sent @ rest)" unfolding L(1) [symmetric] by (simp add: replica_due_def)
      have "last sent \<in> set (erows d)" using sub L(2) by auto
      with r inv(1) have "replica_key r \<le> replica_key (last sent)"
        using after_row [of "last sent" r] by (auto simp: uuid_rows_def)
      moreover have "sorted (map replica_key (sent @ rest))" unfolding L(1) [symmetric] by simp
      ultimately have "r \<in> set sent"
        using sorted_prefix_member [of replica_key sent rest r] L(2) mem
          inj_on_subset [OF replica_key_inj [OF ub] sub] by blast
      with m(2) show ?thesis by blast
    next
      case False
      with inv(3) [OF r(1,2)] m(1) show ?thesis by blast
    qed
    with d' inv(1) show ?thesis by (auto simp: replica_inv_def st')
  qed
next
  case (replica_local d' d b)
  let ?pos = "at_target rp d"
  have "replica_message rp r \<in> set (messages b)"
    if r: "r \<in> set (erows d')" "ob_published_at r \<noteq> None" "\<not> after_position ?pos r" for r
  proof -
    from replica_local.hyps(4) r obtain q where q: "q \<in> set (erows d)" "ob_published_at q \<noteq> None"
      "replica_key q = replica_key r" "replica_message rp q = replica_message rp r" by blast
    with r(3) have "\<not> after_position ?pos q" using after_position_key [OF q(3)] by simp
    with q replica_local.prems(2) show ?thesis by (fastforce simp: replica_inv_def)
  qed
  with replica_local.hyps(1-3) show ?case by (simp add: replica_inv_def)
qed

lemma replica_reachable_inv:
  assumes "(replica_step rp erows crows)\<^sup>*\<^sup>* st st'" "wired rp" "replica_inv rp erows crows messages st"
  shows "replica_inv rp erows crows messages st'"
  using assms(1) by induction (use assms replica_step_inv in auto)

end

section \<open>All rows, once and in order\<close>

definition replica_pass :: "('d, 'b) replicator \<Rightarrow> 'd \<times> 'b \<Rightarrow> 'd \<times> 'b" where
  "replica_pass rp st = snd (replicate_batch rp st)"

definition uuid_position :: "position \<Rightarrow> bool" where
  "uuid_position pos \<longleftrightarrow> (\<forall>u. snd pos = Some u \<longrightarrow> u < 2 ^ 128)"

definition replica_queue :: "position \<Rightarrow> outbox_row list \<Rightarrow> outbox_row list" where
  "replica_queue pos rs = sort_key replica_key (filter (replica_due pos) rs)"

lemma after_position_trans:
  assumes "uuid_position pos" "ob_id q < 2 ^ 128" "ob_id r < 2 ^ 128"
    and "after_position pos q" "after_position (row_position q) r"
  shows "after_position pos r"
  using assms
  by (auto simp: after_position_def row_position_def uuid_position_def uuid_text_less
      split: prod.splits option.splits)

lemma strictly_sorted_split:
  fixes k :: "'r \<Rightarrow> 'k::linorder"
  assumes "sorted (map k (xs @ ys))" "distinct (map k (xs @ ys))" "xs \<noteq> []"
  shows "filter (\<lambda>r. k (last xs) < k r) (xs @ ys) = ys"
proof -
  obtain zs z where xs: "xs = zs @ [z]" using assms(3) by (cases xs rule: rev_exhaust) auto
  have "filter (\<lambda>r. k (last xs) < k r) xs = []"
    using assms(1) by (auto simp: xs sorted_append filter_empty_conv not_less)
  moreover have "k (last xs) < k r" if "r \<in> set ys" for r
    using assms(1,2) that by (force simp: xs sorted_append order_less_le)
  ultimately show ?thesis by simp
qed

text \<open>What is left to forward after a prefix of the queue.\<close>

lemma replica_queue_step:
  assumes rows: "uuid_rows rs" and pos: "uuid_position pos"
    and q: "replica_queue pos rs = sent @ rest" "sent \<noteq> []"
  shows "replica_queue (row_position (last sent)) rs = rest"
proof -
  let ?q = "last sent"
  have u: "unique_rows ob_clash rs" using rows by (simp add: uuid_rows_def)
  have sub: "set (sent @ rest) = {r \<in> set rs. replica_due pos r}"
    unfolding q(1) [symmetric] by (auto simp: replica_queue_def)
  have "?q \<in> set (sent @ rest)" using q(2) by simp
  then have mem: "?q \<in> set rs" "replica_due pos ?q" unfolding sub by simp_all
  have due: "replica_due (row_position ?q) r \<longleftrightarrow> replica_due pos r \<and> replica_key ?q < replica_key r"
    if r: "r \<in> set rs" for r
  proof -
    have b: "ob_id ?q < 2 ^ 128" "ob_id r < 2 ^ 128" using rows mem(1) r by (auto simp: uuid_rows_def)
    have "after_position pos ?q" using mem(2) by (simp add: replica_due_def)
    with after_position_trans [OF pos b] after_row [OF b] show ?thesis
      unfolding replica_due_def by blast
  qed
  have "replica_queue (row_position ?q) rs =
      filter (\<lambda>r. replica_key ?q < replica_key r) (replica_queue pos rs)"
  proof -
    have "filter (replica_due (row_position ?q)) rs =
        filter (\<lambda>r. replica_key ?q < replica_key r) (filter (replica_due pos) rs)"
      unfolding filter_filter by (rule filter_cong [OF refl]) (rule due)
    then show ?thesis by (simp only: replica_queue_def filter_sort)
  qed
  also have "\<dots> = rest"
    unfolding q(1)
  proof (rule strictly_sorted_split [OF _ _ q(2)])
    show "sorted (map replica_key (sent @ rest))" unfolding q(1) [symmetric] by (simp add: replica_queue_def)
    have "distinct (replica_queue pos rs)"
      using u by (simp add: replica_queue_def unique_ids distinct_map)
    then show "distinct (map replica_key (sent @ rest))"
      unfolding distinct_map q(1) using inj_on_subset [OF replica_key_inj [OF u]] sub by auto
  qed
  finally show ?thesis .
qed

context replica
begin

lemma forward_rows_up:
  assumes "publisher_up P" "rp_publisher rp = P"
  shows "\<exists>b'. forward_rows rp rs n pos b =
      (Inr (n + length rs, if rs = [] then pos else row_position (last rs)), b') \<and>
    messages b' = messages b @ map (replica_message rp) rs"
proof (induction rs arbitrary: n pos b)
  case (Cons r rs)
  obtain s m h where m: "replica_message rp r = (s, m, h)" by (rule prod.exhaust) (metis prod.exhaust)
  obtain b1 where b1: "pb_publish P s m h b = (Inr (), b1)" using assms(1) unfolding publisher_up_def by blast
  then have "publish_raw (rp_publisher rp) (ob_event_name r) (ob_payload r) (replica_headers rp r) b = (Inr (), b1)"
    using replica_publish [of rp r] m assms(2) by simp
  then have f: "forward_row rp r b = (Inr True, b1)"
    by (simp add: forward_row_def etry_def ebind_def)
  have "messages b1 = messages b @ [replica_message rp r]" using taken [OF b1] m by simp
  with f Cons.IH [of "n + 1" "row_position r" b1] show ?case
    by (auto simp: ebind_def row_position_def)
qed simp

lemma batch_up:
  assumes w: "wired rp" "rp_commit rp = (\<lambda>_. None)" "publisher_up P"
    and up: "sql_up E erows ob_clash crows" "sql_up C crows region_ck_clash erows"
    and u: "uuid_rows (erows d)" "unique_rows region_ck_clash (crows d)" "uuid_position (at_target rp d)"
  shows "\<exists>d' b'. replicate_batch rp (d, b) = (Inr (min (rp_batch rp) (length (replica_queue (at_target rp d) (erows d)))), (d', b')) \<and>
    messages b' = messages b @
      map (replica_message rp) (take (rp_batch rp) (replica_queue (at_target rp d) (erows d))) \<and>
    replica_queue (at_target rp d') (erows d') = drop (rp_batch rp) (replica_queue (at_target rp d) (erows d)) \<and>
    erows d' = erows d \<and> unique_rows region_ck_clash (crows d') \<and> uuid_position (at_target rp d')"
proof -
  let ?pos = "at_target rp d" and ?Q = "replica_queue (at_target rp d) (erows d)"
  let ?sent = "take (rp_batch rp) ?Q"
  have ub: "unique_rows ob_clash (erows d)" using u(1) by (simp add: uuid_rows_def)
  have fields: "rp_events rp = E" "rp_checkpoints rp = C" "rp_publisher rp = P" using w(1) by (simp_all add: wired_def)
  obtain found d0 where "sql_select C (\<lambda>c. ck_target c = rp_target rp) no_order None d = (Inr found, d0)"
    using sql_up.select_up [OF up(2)] by blast
  then have "\<exists>pos. load_checkpoint rp d = (Inr pos, d0)" by (simp add: load_checkpoint_def fields ebind_def)
  with load_ok w(1) u(2) have l: "load_checkpoint rp d = (Inr ?pos, d)" by metis
  obtain rs d1 where s: "sql_select E (replica_due ?pos) replica_key (Some (rp_batch rp)) d = (Inr rs, d1)"
    using sql_up.select_up [OF up(1)] by blast
  have rs: "d1 = d" "rs = ?sent" using due_rows [OF s ub] by (simp_all add: replica_queue_def)
  obtain b' where f: "forward_rows rp ?sent 0 ?pos b =
      (Inr (length ?sent, if ?sent = [] then ?pos else row_position (last ?sent)), b')"
    "messages b' = messages b @ map (replica_message rp) ?sent"
    using forward_rows_up [OF w(3) fields(3), of ?sent 0 ?pos b] by auto
  show ?thesis
  proof (cases "?sent = []")
    case True
    then have "rp_batch rp = 0 \<or> ?Q = []" by simp
    with True l s rs w(2) u show ?thesis
      by (intro exI [of _ d] exI [of _ b])
        (auto simp: replicate_batch_def engine_begin_def ebind_def fields)
  next
    case False
    obtain d' where v: "save_checkpoint rp (row_position (last ?sent)) d = (Inr (), d')"
      using sql_up.upsert_up [OF up(2)] unfolding save_checkpoint_def fields by blast
    note sv = save_ok [OF v w(1) u(2)]
    have split: "?Q = ?sent @ drop (rp_batch rp) ?Q" by simp
    have "last ?sent \<in> set ?Q" using False by (metis in_set_takeD last_in_set)
    then have "last ?sent \<in> set (erows d)" by (simp add: replica_queue_def)
    with u(1) have "uuid_position (row_position (last ?sent))"
      by (auto simp: uuid_position_def row_position_def uuid_rows_def)
    moreover have "replica_queue (row_position (last ?sent)) (erows d) = drop (rp_batch rp) ?Q"
      by (rule replica_queue_step [OF u(1,3) split False])
    moreover have "replicate_batch rp (d, b) = (Inr (length ?sent), (d', b'))"
      using l s rs f(1) v w(2) False by (simp add: replicate_batch_def engine_begin_def ebind_def fields)
    ultimately show ?thesis using sv f(2) by (intro exI [of _ d'] exI [of _ b']) (simp add: min.commute)
  qed
qed

lemma passes_up:
  assumes "wired rp" "rp_commit rp = (\<lambda>_. None)" "publisher_up P"
    and "sql_up E erows ob_clash crows" "sql_up C crows region_ck_clash erows"
    and "uuid_rows (erows d)" "unique_rows region_ck_clash (crows d)" "uuid_position (at_target rp d)"
  shows "messages (snd ((replica_pass rp ^^ n) (d, b))) = messages b @
    map (replica_message rp) (take (n * rp_batch rp) (replica_queue (at_target rp d) (erows d)))"
  using assms(6-8)
proof (induction n arbitrary: d b)
  case (Suc n)
  let ?Q = "replica_queue (at_target rp d) (erows d)"
  from batch_up [OF assms(1-5) Suc.prems, of b] obtain d' b' where
    r: "replica_pass rp (d, b) = (d', b')"
    and b': "messages b' = messages b @ map (replica_message rp) (take (rp_batch rp) ?Q)"
    and d': "replica_queue (at_target rp d') (erows d') = drop (rp_batch rp) ?Q" "erows d' = erows d"
      "unique_rows region_ck_clash (crows d')" "uuid_position (at_target rp d')"
    unfolding replica_pass_def by (metis snd_conv)
  have "messages (snd ((replica_pass rp ^^ Suc n) (d, b))) = messages (snd ((replica_pass rp ^^ n) (d', b')))"
    unfolding funpow_Suc_right comp_def r ..
  also have "\<dots> = messages b' @ map (replica_message rp) (take (n * rp_batch rp) (drop (rp_batch rp) ?Q))"
    using Suc.IH [of d' b'] Suc.prems(1) d' by simp
  also have "\<dots> = messages b @ map (replica_message rp) (take (Suc n * rp_batch rp) ?Q)"
    by (simp add: b' take_add add.commute)
  finally show ?case .
qed simp

end

section \<open>Two tables in one database\<close>

type_synonym region_db = "outbox_row list \<times> region_checkpoint list"

abbreviation region_events :: "(region_db, outbox_row) sql" where
  "region_events \<equiv> list_sql fst (\<lambda>rs d. (rs, snd d)) ob_clash"

abbreviation region_checkpoints :: "(region_db, region_checkpoint) sql" where
  "region_checkpoints \<equiv> list_sql snd (\<lambda>cs d. (fst d, cs)) region_ck_clash"

interpretation events_slot: table_slot fst "\<lambda>rs d. (rs, snd d)" "snd :: region_db \<Rightarrow> region_checkpoint list"
  by unfold_locales auto

interpretation checkpoints_slot: table_slot snd "\<lambda>cs d. (fst d, cs)" "fst :: region_db \<Rightarrow> outbox_row list"
  by unfold_locales auto

interpretation list_replica: replica region_events fst region_checkpoints snd "list_publisher prefix" "\<lambda>b. b"
  for prefix
  by (intro replica.intro replica_tables.intro events_slot.list_sql_table checkpoints_slot.list_sql_table
      list_remote.remote_bus_axioms)

section \<open>Resolvers and the router\<close>

record tenant_region =
  tr_tenant_id :: uuid
  tr_home_region :: string

record region_config =
  rg_name :: string
  rg_urls :: "(string \<times> string) list"

definition region_not_found :: "string \<Rightarrow> uuid \<Rightarrow> exn" where
  "region_not_found msg tenant =
     as_exception (Error NotFoundError ''region.not_found'' (msg @ str_of_uuid tenant)
       [(''tenant_id'', JStr (str_of_uuid tenant))] None)"

definition static_resolve ::
  "(string \<times> string) list \<Rightarrow> string option \<Rightarrow> uuid \<Rightarrow> ('s, string) eff" where
  "static_resolve mapping fallback tenant =
     (case map_of mapping (str_of_uuid tenant) of
        Some region \<Rightarrow> eret region
      | None \<Rightarrow> (case fallback of
          Some region \<Rightarrow> eret region
        | None \<Rightarrow> eraise (region_not_found ''No home region for tenant '' tenant)))"

definition db_resolve ::
  "('d, tenant_region) sql \<Rightarrow> string option \<Rightarrow> uuid \<Rightarrow> ('d, string) eff" where
  "db_resolve T fallback tenant =
     ebind (sql_select T (\<lambda>r. tr_tenant_id r = tenant) no_order None) (\<lambda>found.
       case found of
         r # _ \<Rightarrow> eret (tr_home_region r)
       | [] \<Rightarrow> (case fallback of
           Some region \<Rightarrow> eret region
         | None \<Rightarrow> eraise (region_not_found ''No home region registered for tenant '' tenant)))"

definition strip_slash :: "string \<Rightarrow> string" where
  "strip_slash s = rev (dropWhile (\<lambda>c. c = CHR ''/'') (rev s))"

definition is_home_region :: "region_config \<Rightarrow> string \<Rightarrow> bool" where
  "is_home_region cfg region \<longleftrightarrow> region = rg_name cfg"

definition get_redirect_url ::
  "(uuid \<Rightarrow> ('s, string) eff) \<Rightarrow> region_config \<Rightarrow> uuid \<Rightarrow> string \<Rightarrow> ('s, string option) eff" where
  "get_redirect_url resolve cfg tenant path =
     ebind (resolve tenant) (\<lambda>home. eret
       (if home = rg_name cfg then None
        else map_option (\<lambda>base. strip_slash base @ path) (map_of (rg_urls cfg) home)))"

text \<open>The two resolvers agree where their data do.\<close>

lemma resolvers_agree:
  assumes "sql_up T rows clash rest" "unique_rows (\<lambda>a b. tr_tenant_id a = tr_tenant_id b) (rows d)"
    and "\<And>t h. map_of mapping (str_of_uuid t) = Some h \<longleftrightarrow>
      (\<exists>r \<in> set (rows d). tr_tenant_id r = t \<and> tr_home_region r = h)"
    and "fallback \<noteq> None \<or> (\<exists>r \<in> set (rows d). tr_tenant_id r = t)"
  shows "fst (db_resolve T fallback t d) = fst (static_resolve mapping fallback t d)"
proof -
  obtain found d' where f: "sql_select T (\<lambda>r. tr_tenant_id r = t) no_order None d = (Inr found, d')"
    using sql_up.select_up [OF assms(1)] by blast
  have s: "set found = set (filter (\<lambda>r. tr_tenant_id r = t) (rows d))"
    by (rule sql_table.select_mset(2) [OF sql_up.axioms(1) [OF assms(1)] f])
  show ?thesis
  proof (cases found)
    case Nil
    with s have none: "\<not> (\<exists>r \<in> set (rows d). tr_tenant_id r = t)" by (auto simp: filter_empty_conv)
    with assms(3) [of t] have "map_of mapping (str_of_uuid t) = None"
      by (metis not_None_eq)
    with f Nil none assms(4) show ?thesis
      by (auto simp: db_resolve_def static_resolve_def ebind_def)
  next
    case (Cons r xs)
    with s have "r \<in> set (rows d)" "tr_tenant_id r = t" by auto
    with assms(3) [of t] have "map_of mapping (str_of_uuid t) = Some (tr_home_region r)" by auto
    with f Cons show ?thesis by (simp add: db_resolve_def static_resolve_def ebind_def)
  qed
qed

section \<open>Properties\<close>

text \<open>The replicator forwards in order, once, and everything: with statements, commits and the remote
  broker working, any number of batches sends exactly the published rows behind the stored position,
  in the order of time and id, as many as the batches hold, although the query compares ids as text.\<close>

theorem replicator_in_order:
  assumes tables: "replica E erows C crows P messages"
    and up: "sql_up E erows ob_clash crows" "sql_up C crows region_ck_clash erows" "publisher_up P"
    and rp: "rp_events rp = E" "rp_checkpoints rp = C" "rp_publisher rp = P" "rp_commit rp = (\<lambda>_. None)"
    and d: "uuid_rows (erows d)" "unique_rows region_ck_clash (crows d)"
    and pos: "stored_position (rp_target rp) (crows d) = pos" "uuid_position pos"
  shows "messages (snd ((replica_pass rp ^^ n) (d, b))) = messages b @
    map (replica_message rp) (take (n * rp_batch rp)
      (sort_key replica_key (filter (replica_due pos) (erows d))))"
proof -
  have "replica.wired E C P rp" unfolding replica.wired_def [OF tables] using rp by simp
  from replica.passes_up [OF tables this rp(4) up(3,1,2) d] pos
  show ?thesis unfolding replica_queue_def by simp
qed

definition demo_replica_row :: "uuid \<Rightarrow> instant \<Rightarrow> outbox_row" where
  "demo_replica_row u t =
     \<lparr>ob_id = u, ob_event_name = ''order.placed'', ob_event_version = 1, ob_payload = [(''n'', JInt (int u))],
      ob_occurred_at = t, ob_correlation_id = None, ob_causation_id = None, ob_tenant_id = None,
      ob_published_at = Some 90, ob_attempts = 0, ob_last_error = None\<rparr>"

definition demo_replicator :: "(region_db, bus_message list) replicator" where
  "demo_replicator =
     \<lparr>rp_events = region_events, rp_checkpoints = region_checkpoints, rp_publisher = list_publisher ''qx'',
      rp_target = ''eu-west-1'', rp_batch = 2, rp_poll = 1, rp_idle_poll = 5, rp_now = (\<lambda>_. 100),
      rp_commit = (\<lambda>_. None), rp_wait = (\<lambda>_. eret ())\<rparr>"

lemma demo_rows: "uuid_rows [demo_replica_row 7 20, demo_replica_row 3 20, demo_replica_row 9 10]"
  by (simp add: uuid_rows_def unique_rows_def ob_clash_def demo_replica_row_def)

lemma list_publisher_up: "publisher_up (list_publisher prefix)"
  by (simp add: publisher_up_def list_publisher_def)

lemma replicator_in_order_witness:
  "snd ((replica_pass demo_replicator ^^ 2) (([demo_replica_row 7 20, demo_replica_row 3 20, demo_replica_row 9 10], []), [])) =
     map (replica_message demo_replicator) [demo_replica_row 9 10, demo_replica_row 3 20, demo_replica_row 7 20]"
proof -
  let ?rows = "[demo_replica_row 7 20, demo_replica_row 3 20, demo_replica_row 9 10]"
  have due: "filter (replica_due (None, None)) ?rows = ?rows"
    by (simp add: replica_due_def after_position_def demo_replica_row_def)
  have s: "sort_key replica_key ?rows = [demo_replica_row 9 10, demo_replica_row 3 20, demo_replica_row 7 20]"
    by (simp add: replica_key_def demo_replica_row_def less_prod_def less_eq_prod_def)
  have "snd ((replica_pass demo_replicator ^^ 2) ((?rows, []), [])) = [] @
      map (replica_message demo_replicator) (take (2 * rp_batch demo_replicator)
        (sort_key replica_key (filter (replica_due (None, None)) (fst (?rows, [] :: region_checkpoint list)))))"
    by (rule replicator_in_order [OF list_replica.replica_axioms events_slot.list_sql_up
          checkpoints_slot.list_sql_up list_publisher_up])
      (simp_all add: demo_replicator_def demo_rows unique_rows_def stored_position_def uuid_position_def)
  then show ?thesis unfolding fst_conv due s by (simp add: demo_replicator_def)
qed

text \<open>C22: The replicator leaves no gap: whatever fails in its batches, every published row up to the
  stored position is at the remote broker, as long as the region publishes its rows in the order of
  their time and id.\<close>

theorem replicator_no_gap:
  assumes tables: "replica E erows C crows P messages"
    and rp: "rp_events rp = E" "rp_checkpoints rp = C" "rp_publisher rp = P"
    and init: "uuid_rows (erows d0)" "unique_rows region_ck_clash (crows d0)"
      "stored_position (rp_target rp) (crows d0) = (None, None)"
    and run: "(replica_step rp erows crows)\<^sup>*\<^sup>* (d0, b0) (d, b)"
    and r: "r \<in> set (erows d)" "ob_published_at r \<noteq> None"
      "\<not> after_position (stored_position (rp_target rp) (crows d)) r"
  shows "replica_message rp r \<in> set (messages b)"
proof -
  have w: "replica.wired E C P rp" unfolding replica.wired_def [OF tables] using rp by simp
  have "replica_inv rp erows crows messages (d0, b0)"
    using init by (simp add: replica_inv_def after_position_def)
  from replica.replica_reachable_inv [OF tables run w this] r show ?thesis
    unfolding replica_inv_def by simp
qed

lemma replicator_no_gap_witness:
  "\<exists>d b. (replica_step demo_replicator fst snd)\<^sup>*\<^sup>* (([demo_replica_row 3 20, demo_replica_row 9 10], []), []) (d, b) \<and>
     stored_position ''eu-west-1'' (snd d) = (Some 20, Some 3) \<and>
     replica_message demo_replicator (demo_replica_row 9 10) \<in> set b"
proof -
  let ?d = "([demo_replica_row 3 20, demo_replica_row 9 10], []) :: region_db"
  let ?k = "\<lparr>ck_target = ''eu-west-1'', ck_occurred_at = Some 20, ck_event_id = Some 3, ck_updated_at = 100\<rparr>"
  let ?d' = "([demo_replica_row 3 20, demo_replica_row 9 10], [?k]) :: region_db"
  obtain x b where b: "replicate_batch demo_replicator (?d, []) = (x, (?d', b))"
    by (simp add: replicate_batch_def engine_begin_def load_checkpoint_def save_checkpoint_def
        demo_replicator_def ebind_def replica_due_def after_position_def replica_key_def demo_replica_row_def
        less_prod_def less_eq_prod_def forward_row_def publish_raw_def list_publisher_def
        nats_subject_def etry_def upsert_rows_def region_ck_clash_def)
  then have run: "(replica_step demo_replicator fst snd)\<^sup>*\<^sup>* (?d, []) (?d', b)"
    by (intro r_into_rtranclp replica_batch)
  have "replica_message demo_replicator (demo_replica_row 9 10) \<in> set b"
    by (rule replicator_no_gap [OF list_replica.replica_axioms _ _ _ _ _ _ run])
      (simp_all add: demo_replicator_def uuid_rows_def unique_rows_def ob_clash_def stored_position_def
        after_position_def demo_replica_row_def)
  with run show ?thesis by (intro exI [of _ ?d'] exI [of _ b]) (simp add: stored_position_def)
qed

text \<open>
  Without that order a row is lost: a row published at or before the stored position is in no
  batch any more.
\<close>

lemma late_row_skipped:
  assumes "replica E erows C crows P messages" "sql_up E erows ob_clash crows" "sql_up C crows region_ck_clash erows"
    "publisher_up P" "replica.wired E C P rp" "rp_commit rp = (\<lambda>_. None)"
    and d: "uuid_rows (erows d)" "unique_rows region_ck_clash (crows d)"
      "uuid_position (stored_position (rp_target rp) (crows d))"
    and late: "\<not> after_position (stored_position (rp_target rp) (crows d)) r"
      "replica_message rp r \<notin> set (messages b)"
      "\<And>q. q \<in> set (erows d) \<Longrightarrow> replica_message rp q = replica_message rp r \<Longrightarrow> q = r"
  shows "replica_message rp r \<notin> set (messages (snd ((replica_pass rp ^^ n) (d, b))))"
proof -
  let ?Q = "replica_queue (stored_position (rp_target rp) (crows d)) (erows d)"
  have "replica_message rp r \<notin> replica_message rp ` set ?Q"
    using late(1,3) by (auto simp: replica_queue_def replica_due_def)
  moreover have "set (take m ?Q) \<subseteq> set ?Q" for m by (rule set_take_subset)
  ultimately have "replica_message rp r \<notin> set (map (replica_message rp) (take m ?Q))" for m
    unfolding list.set_map by (meson image_mono subsetD)
  then show ?thesis
    using replica.passes_up [OF assms(1,5,6,4,2,3) d, of n b] late(2) by simp
qed

end
