(* ===== verification/Qx_Http.thy ===== *)
theory Qx_Http
  imports Qx_Regions Qx_Auth Qx_Ratelimit
begin

text \<open>
  The package \<open>qx-http\<close>: the response envelope (\<open>responses\<close>), the exception handlers
  (\<open>exceptions\<close>), the three middlewares (\<open>middleware\<close>) and the probes (\<open>probes\<close>) with the
  health registry of \<open>qx-observability\<close> (\<open>health\<close>). FastAPI is an argument: the routes are an
  effect that returns a response or raises.
\<close>

section \<open>Envelopes\<close>

record api_paging =
  pg_page :: "int option"
  pg_page_size :: "int option"
  pg_total :: "int option"
  pg_next_cursor :: "string option"

abbreviation no_paging :: api_paging where
  "no_paging \<equiv> \<lparr>pg_page = None, pg_page_size = None, pg_total = None, pg_next_cursor = None\<rparr>"

definition json_opt :: "('a \<Rightarrow> json) \<Rightarrow> 'a option \<Rightarrow> json" where
  "json_opt f v = (case v of None \<Rightarrow> JNull | Some x \<Rightarrow> f x)"

definition api_meta :: "attribute request_context \<Rightarrow> api_paging \<Rightarrow> dict" where
  "api_meta ctx pg =
     [(''request_id'', JStr (str_of_uuid (rc_request_id ctx))),
      (''correlation_id'', JStr (str_of_uuid (rc_correlation_id ctx))),
      (''trace_id'', json_opt JStr (rc_trace_id ctx)),
      (''page'', json_opt JInt (pg_page pg)), (''page_size'', json_opt JInt (pg_page_size pg)),
      (''total'', json_opt JInt (pg_total pg)), (''next_cursor'', json_opt JStr (pg_next_cursor pg))]"

definition envelope_success :: "attribute request_context \<Rightarrow> json \<Rightarrow> api_paging \<Rightarrow> dict" where
  "envelope_success ctx data pg =
     [(''success'', JBool True), (''data'', data), (''error'', JNull), (''metadata'', JObj (api_meta ctx pg))]"

definition envelope_failure ::
  "attribute request_context \<Rightarrow> string \<Rightarrow> string \<Rightarrow> dict \<Rightarrow> api_paging \<Rightarrow> dict" where
  "envelope_failure ctx code msg details pg =
     [(''success'', JBool False), (''data'', JNull),
      (''error'', JObj [(''code'', JStr code), (''message'', JStr msg), (''details'', JObj details)]),
      (''metadata'', JObj (api_meta ctx pg))]"

section \<open>Exception handlers\<close>

text \<open>An entry of \<open>exc.errors()\<close>: the location, the type and the message.\<close>

datatype location = LocName string | LocIndex int

record field_error =
  fe_loc :: "location list"
  fe_type :: string
  fe_msg :: string

fun location_text :: "location \<Rightarrow> string" where
  "location_text (LocName s) = s"
| "location_text (LocIndex i) = str_of_int i"

definition field_json :: "location list \<Rightarrow> field_error \<Rightarrow> json" where
  "field_json loc e =
     JObj [(''path'', JStr (py_join ''.'' (map location_text loc))), (''code'', JStr (fe_type e)),
           (''message'', JStr (fe_msg e))]"

definition json_response :: "int \<Rightarrow> dict \<Rightarrow> http_response" where
  "json_response status body =
     \<lparr>hr_status = status, hr_headers = [(''content-type'', ''application/json'')], hr_body = JsonText (JObj body)\<rparr>"

definition handle_qx_error :: "attribute request_context \<Rightarrow> error \<Rightarrow> http_response" where
  "handle_qx_error ctx err =
     json_response (http_status (err_class err))
       (envelope_failure ctx (err_code err) (err_message err) (err_details err) no_paging)"

definition handle_request_validation ::
  "attribute request_context \<Rightarrow> field_error list \<Rightarrow> http_response" where
  "handle_request_validation ctx errs =
     json_response (http_status ValidationError)
       (envelope_failure ctx ''request.validation_failed'' ''One or more fields failed validation.''
         [(''fields'', JList (map (\<lambda>e. field_json (filter (\<lambda>p. p \<noteq> LocName ''body'') (fe_loc e)) e) errs))] no_paging)"

definition handle_pydantic_validation ::
  "attribute request_context \<Rightarrow> field_error list \<Rightarrow> http_response" where
  "handle_pydantic_validation ctx errs =
     json_response (http_status ValidationError)
       (envelope_failure ctx ''model.validation_failed'' ''Internal model validation failed.''
         [(''fields'', JList (map (\<lambda>e. field_json (fe_loc e) e) errs))] no_paging)"

definition handle_unknown :: "attribute request_context \<Rightarrow> http_response" where
  "handle_unknown ctx =
     json_response 500
       (envelope_failure ctx ''server.internal_error'' ''An unexpected error occurred.'' [] no_paging)"

text \<open>\<open>isinstance\<close> with the error list for the two validation exceptions is an argument.\<close>

record validation_errors =
  ve_request :: "exn \<Rightarrow> field_error list option"
  ve_model :: "exn \<Rightarrow> field_error list option"

definition installed_handler ::
  "validation_errors \<Rightarrow> attribute request_context \<Rightarrow> exn \<Rightarrow> http_response option" where
  "installed_handler V ctx e =
     (case e of
        ErrorException err \<Rightarrow> Some (handle_qx_error ctx err)
      | _ \<Rightarrow> (case ve_request V e of
          Some errs \<Rightarrow> Some (handle_request_validation ctx errs)
        | None \<Rightarrow> map_option (handle_pydantic_validation ctx) (ve_model V e)))"

section \<open>Middleware\<close>

record http_request =
  hq_method :: string
  hq_path :: string
  hq_query :: string
  hq_headers :: "(string \<times> string) list"
  hq_client :: "string option"
  hq_route :: "string option"

definition try_uuid :: "string option \<Rightarrow> uuid option" where
  "try_uuid v = (case v of
     None \<Rightarrow> None | Some s \<Rightarrow> (if s = [] then None else parse_uuid s))"

text \<open>The two generated ids and the trace id of the span are arguments; the span is left out.\<close>

definition request_context_of ::
  "uuid \<Rightarrow> uuid \<Rightarrow> string option \<Rightarrow> http_request \<Rightarrow> attribute request_context" where
  "request_context_of fresh_cor fresh_req trace q =
     \<lparr>rc_request_id = get_or (try_uuid (map_of (hq_headers q) ''x-request-id'')) fresh_req,
      rc_correlation_id = get_or (try_uuid (map_of (hq_headers q) ''x-correlation-id'')) fresh_cor,
      rc_trace_id = trace, rc_span_id = None, rc_user_id = None,
      rc_tenant_id = try_uuid (map_of (hq_headers q) ''x-tenant-id''), rc_actor_kind = None,
      rc_attributes = [(''http.method'', AttrValue (JStr (hq_method q))),
        (''http.path'', AttrValue (JStr (hq_path q))), (''http.client'', AttrValue (json_opt JStr (hq_client q)))]\<rparr>"

definition set_header :: "string \<Rightarrow> string \<Rightarrow> http_response \<Rightarrow> http_response" where
  "set_header k v r = r\<lparr>hr_headers := AList.update k v (hr_headers r)\<rparr>"

definition request_context_dispatch ::
  "uuid \<Rightarrow> uuid \<Rightarrow> string option \<Rightarrow> http_request \<Rightarrow> ('s http_state, http_response) eff
     \<Rightarrow> ('s http_state, http_response) eff" where
  "request_context_dispatch fresh_cor fresh_req trace q call_next =
     (let ctx = request_context_of fresh_cor fresh_req trace q
      in ebind (request_scope fst (\<lambda>c st. (c, snd st)) fresh_req (Some ctx) None (\<lambda>_. call_next)) (\<lambda>response.
           eret (set_header ''x-request-id'' (str_of_uuid (rc_request_id ctx))
             (set_header ''x-correlation-id'' (str_of_uuid (rc_correlation_id ctx)) response))))"

definition record_request ::
  "(string \<Rightarrow> string \<Rightarrow> string \<Rightarrow> ('s, unit) eff) \<Rightarrow> http_request \<Rightarrow> http_response option
     \<Rightarrow> ('s, unit) eff" where
  "record_request observe q response =
     etry (observe (hq_method q) (get_or (hq_route q) (hq_path q))
             (str_of_int (case response of Some r \<Rightarrow> hr_status r | None \<Rightarrow> 500)))
       (\<lambda>e. eret ())"

definition metrics_dispatch ::
  "(string \<Rightarrow> string \<Rightarrow> string \<Rightarrow> ('s, unit) eff) \<Rightarrow> http_request \<Rightarrow> ('s, http_response) eff
     \<Rightarrow> ('s, http_response) eff" where
  "metrics_dispatch observe q call_next s =
     (case call_next s of
        (Inr r, s1) \<Rightarrow> ebind (record_request observe q (Some r)) (\<lambda>_. eret r) s1
      | (Inl e, s1) \<Rightarrow> ebind (record_request observe q None) (\<lambda>_. eraise e) s1)"

definition write_methods :: "string list" where
  "write_methods = [''DELETE'', ''PATCH'', ''POST'', ''PUT'']"

definition infra_prefixes :: "string list" where
  "infra_prefixes = [''/healthz'', ''/metrics'', ''/readyz'']"

definition redirect_response :: "string \<Rightarrow> http_response" where
  "redirect_response url = \<lparr>hr_status = 307, hr_headers = [(''Location'', url)], hr_body = Text []\<rparr>"

definition region_redirect_dispatch ::
  "(uuid \<Rightarrow> ('s, string) eff) \<Rightarrow> region_config \<Rightarrow> string list \<Rightarrow> string list \<Rightarrow> http_request
     \<Rightarrow> ('s http_state, http_response) eff \<Rightarrow> ('s http_state, http_response) eff" where
  "region_redirect_dispatch resolve cfg methods skip q call_next st =
     (if hq_method q \<notin> set methods then call_next st
      else if list_ex (py_startswith (hq_path q)) skip then call_next st
      else case rc_tenant_id (fst st) of
             None \<Rightarrow> call_next st
           | Some tenant \<Rightarrow>
               ebind (on_snd (get_redirect_url resolve cfg tenant (hq_path q))) (\<lambda>url.
                 case url of
                   None \<Rightarrow> call_next
                 | Some u \<Rightarrow> eret (redirect_response
                     (if hq_query q \<noteq> [] then u @ ''?'' @ hq_query q else u))) st)"

text \<open>The stack \<open>setup_qx_app\<close> builds around the routes; the region router is optional.\<close>

definition qx_stack ::
  "(uuid \<times> uuid) \<Rightarrow> string option \<Rightarrow> ((uuid \<Rightarrow> ('s, string) eff) \<times> region_config) option
     \<Rightarrow> (string \<Rightarrow> string \<Rightarrow> string \<Rightarrow> ('s http_state, unit) eff) \<Rightarrow> http_request
     \<Rightarrow> ('s http_state, http_response) eff \<Rightarrow> ('s http_state, http_response) eff" where
  "qx_stack fresh trace router observe q routes =
     (let inner = metrics_dispatch observe q routes
      in request_context_dispatch (fst fresh) (snd fresh) trace q
           (case router of
              None \<Rightarrow> inner
            | Some (resolve, cfg) \<Rightarrow>
                region_redirect_dispatch resolve cfg write_methods infra_prefixes q inner))"

definition unwrap :: "'a result \<Rightarrow> ('s, 'a) eff" where
  "unwrap r = elift (unwrap_or_raise r)"

section \<open>Health\<close>

datatype health_status = Healthy | Degraded | Unhealthy

text \<open>The order of severity.\<close>

instantiation health_status :: linorder
begin

definition severity :: "health_status \<Rightarrow> nat" where
  "severity h = (case h of Healthy \<Rightarrow> 0 | Degraded \<Rightarrow> 1 | Unhealthy \<Rightarrow> 2)"

definition less_eq_health_status :: "health_status \<Rightarrow> health_status \<Rightarrow> bool" where
  "a \<le> b \<longleftrightarrow> severity a \<le> severity b"

definition less_health_status :: "health_status \<Rightarrow> health_status \<Rightarrow> bool" where
  "a < b \<longleftrightarrow> severity a < severity b"

instance
  by intro_classes
    (auto simp: less_eq_health_status_def less_health_status_def severity_def split: health_status.splits)

end

fun status_value :: "health_status \<Rightarrow> string" where
  "status_value Healthy = ''healthy''"
| "status_value Degraded = ''degraded''"
| "status_value Unhealthy = ''unhealthy''"

record check_result =
  ch_name :: string
  ch_status :: health_status
  ch_message :: "string option"
  ch_duration_ms :: rat
  ch_details :: dict

record aggregate_result =
  ag_status :: health_status
  ag_checks :: "check_result list"

text \<open>
  A check that runs out of its time ends with \<open>TimeoutError\<close>. The timeout is kept as its text.
\<close>

type_synonym 's check_fn = "('s, check_result option) eff"

record 's health_registry =
  hl_liveness :: "(string \<times> 's check_fn) list"
  hl_readiness :: "(string \<times> 's check_fn) list"
  hl_timeout :: string

definition add_liveness :: "string \<Rightarrow> 's check_fn \<Rightarrow> 's health_registry \<Rightarrow> 's health_registry" where
  "add_liveness name check h = h\<lparr>hl_liveness := AList.update name check (hl_liveness h)\<rparr>"

definition add_readiness :: "string \<Rightarrow> 's check_fn \<Rightarrow> 's health_registry \<Rightarrow> 's health_registry" where
  "add_readiness name check h = h\<lparr>hl_readiness := AList.update name check (hl_readiness h)\<rparr>"

definition check_outcome :: "string \<Rightarrow> string \<Rightarrow> rat \<Rightarrow> exn + check_result option \<Rightarrow> check_result" where
  "check_outcome timeout name ms out =
     (case out of
        Inl e \<Rightarrow>
          \<lparr>ch_name = name, ch_status = Unhealthy,
           ch_message = Some (if exn_class e = ''TimeoutError'' then ''timed out after '' @ timeout @ ''s''
             else exn_class e @ '': '' @ exn_str e), ch_duration_ms = ms, ch_details = []\<rparr>
      | Inr None \<Rightarrow>
          \<lparr>ch_name = name, ch_status = Healthy, ch_message = None, ch_duration_ms = ms, ch_details = []\<rparr>
      | Inr (Some r) \<Rightarrow> (if ch_duration_ms r = 0 then r\<lparr>ch_duration_ms := ms\<rparr> else r))"

text \<open>The clock is read again only where the source reads it; a reading changes nothing.\<close>

definition run_one :: "('s \<Rightarrow> rat) \<Rightarrow> string \<Rightarrow> string \<times> 's check_fn \<Rightarrow> ('s, check_result) eff" where
  "run_one clock timeout c s =
     (let start = clock s
      in ebind (etry (ebind (snd c) (\<lambda>r. eret (Inr r))) (\<lambda>e. eret (Inl e))) (\<lambda>out s'.
           (Inr (check_outcome timeout (fst c) ((clock s' - start) * 1000) out), s')) s)"

fun worst_status :: "health_status \<Rightarrow> check_result list \<Rightarrow> health_status" where
  "worst_status worst [] = worst"
| "worst_status worst (r # rs) =
     (if ch_status r = Unhealthy then Unhealthy
      else worst_status (if ch_status r = Degraded \<and> worst = Healthy then Degraded else worst) rs)"

text \<open>\<open>gather\<close> starts the checks in order; here each runs to its end.\<close>

definition run_all ::
  "('s \<Rightarrow> rat) \<Rightarrow> string \<Rightarrow> (string \<times> 's check_fn) list \<Rightarrow> ('s, aggregate_result) eff" where
  "run_all clock timeout checks =
     ebind (emap (run_one clock timeout) checks) (\<lambda>results.
       eret \<lparr>ag_status = worst_status Healthy results, ag_checks = results\<rparr>)"

definition liveness :: "('s \<Rightarrow> rat) \<Rightarrow> 's health_registry \<Rightarrow> ('s, aggregate_result) eff" where
  "liveness clock h = run_all clock (hl_timeout h) (hl_liveness h)"

definition readiness :: "('s \<Rightarrow> rat) \<Rightarrow> 's health_registry \<Rightarrow> ('s, aggregate_result) eff" where
  "readiness clock h = run_all clock (hl_timeout h) (hl_readiness h)"

section \<open>Probes\<close>

text \<open>\<open>two_places\<close> is \<open>round(x, 2)\<close>.\<close>

definition check_to_dict :: "(rat \<Rightarrow> rat) \<Rightarrow> check_result \<Rightarrow> json" where
  "check_to_dict two_places c =
     JObj [(''name'', JStr (ch_name c)), (''status'', JStr (status_value (ch_status c))),
           (''message'', json_opt JStr (ch_message c)), (''duration_ms'', JFloat (two_places (ch_duration_ms c))),
           (''details'', JObj (ch_details c))]"

definition probe_body :: "(rat \<Rightarrow> rat) \<Rightarrow> aggregate_result \<Rightarrow> dict" where
  "probe_body two_places res =
     [(''status'', JStr (status_value (ag_status res))),
      (''checks'', JList (map (check_to_dict two_places) (ag_checks res)))]"

definition healthz ::
  "(rat \<Rightarrow> rat) \<Rightarrow> ('s \<Rightarrow> rat) \<Rightarrow> 's health_registry \<Rightarrow> ('s, http_response) eff" where
  "healthz two_places clock h =
     ebind (liveness clock h) (\<lambda>res. eret (json_response 200 (probe_body two_places res)))"

definition readyz ::
  "(rat \<Rightarrow> rat) \<Rightarrow> ('s \<Rightarrow> rat) \<Rightarrow> 's health_registry \<Rightarrow> ('s, http_response) eff" where
  "readyz two_places clock h =
     ebind (readiness clock h) (\<lambda>res. eret
       (json_response (if ag_status res = Healthy then 200 else if ag_status res = Unhealthy then 503 else 200)
         (probe_body two_places res)))"

lemma status_bounds [simp]: "Healthy \<le> h" "h \<le> Unhealthy"
  by (cases h; simp add: less_eq_health_status_def severity_def)+

lemma worst_status_max:
  "worst \<noteq> Unhealthy \<Longrightarrow> worst_status worst rs = fold (\<lambda>r. max (ch_status r)) rs worst"
proof (induction rs arbitrary: worst)
  case (Cons r rs)
  have top: "fold (\<lambda>r. max (ch_status r)) rs Unhealthy = Unhealthy" for rs
    by (induction rs) (auto simp: max_absorb2)
  have d: "max Degraded Healthy = Degraded" by (simp add: max_absorb1)
  have dd: "max Degraded w = (if w = Unhealthy then Unhealthy else Degraded)" for w
    by (cases w) (auto simp: max_absorb1 max_absorb2)
  show ?case
  proof (cases "ch_status r")
    case Healthy
    with Cons show ?thesis by (simp add: max_absorb2)
  next
    case Degraded
    with Cons.prems Cons.IH [of Degraded] show ?thesis by (cases worst) (simp_all add: dd)
  next
    case Unhealthy
    then show ?thesis by (simp add: max_absorb1 top)
  qed
qed simp

text \<open>What a check says, as a status.\<close>

definition verdict_of :: "exn + check_result option \<Rightarrow> health_status" where
  "verdict_of out = (case out of Inl e \<Rightarrow> Unhealthy | Inr None \<Rightarrow> Healthy | Inr (Some r) \<Rightarrow> ch_status r)"

lemma check_outcome_status: "ch_status (check_outcome timeout name ms out) = verdict_of out"
  by (auto simp: check_outcome_def verdict_of_def split: sum.splits option.splits)

definition check_says :: "'s check_fn \<Rightarrow> health_status \<Rightarrow> bool" where
  "check_says fn h \<longleftrightarrow> (\<forall>s. verdict_of (fst (fn s)) = h \<and> (\<forall>e. fst (fn s) = Inl e \<longrightarrow> is_exception e))"

lemma run_one_says:
  assumes "check_says (snd c) h"
  shows "\<exists>r s'. run_one clock timeout c s = (Inr r, s') \<and> ch_status r = h"
proof -
  obtain out s1 where o: "snd c s = (out, s1)" by (rule prod.exhaust)
  with assms have "verdict_of out = h" "\<forall>e. out = Inl e \<longrightarrow> is_exception e"
    by (auto simp: check_says_def) (metis fst_conv)+
  with o show ?thesis
    by (cases out) (auto simp: run_one_def Let_def ebind_def etry_def check_outcome_status)
qed

lemma run_checks_say:
  assumes "list_all (\<lambda>c. check_says (snd c) (says (fst c))) checks"
  shows "\<exists>rs s'. emap (run_one clock timeout) checks s = (Inr rs, s') \<and>
    map ch_status rs = map (\<lambda>c. says (fst c)) checks"
  using assms
proof (induction checks arbitrary: s)
  case (Cons c cs)
  then obtain r s1 where r: "run_one clock timeout c s = (Inr r, s1)" "ch_status r = says (fst c)"
    using run_one_says [of c "says (fst c)"] by fastforce
  from Cons obtain rs s2 where "emap (run_one clock timeout) cs s1 = (Inr rs, s2)"
    "map ch_status rs = map (\<lambda>c. says (fst c)) cs" by fastforce
  with r show ?case by (auto simp: ebind_def)
qed simp

lemma worst_status_unhealthy:
  "worst \<noteq> Unhealthy \<Longrightarrow> worst_status worst rs = Unhealthy \<longleftrightarrow> Unhealthy \<in> set (map ch_status rs)"
  by (induction rs arbitrary: worst) auto

section \<open>The stack\<close>

text \<open>The context is put back, and an answer carries the ids of the request.\<close>

definition answer_for :: "uuid \<Rightarrow> uuid \<Rightarrow> http_response \<Rightarrow> http_response" where
  "answer_for cor req r =
     set_header ''x-request-id'' (str_of_uuid req) (set_header ''x-correlation-id'' (str_of_uuid cor) r)"

lemma answer_for_simps [simp]:
  "hr_status (answer_for cor req r) = hr_status r" "hr_body (answer_for cor req r) = hr_body r"
  "map_of (hr_headers (answer_for cor req r)) ''x-correlation-id'' = Some (str_of_uuid cor)"
  "map_of (hr_headers (answer_for cor req r)) ''x-request-id'' = Some (str_of_uuid req)"
  by (simp_all add: answer_for_def set_header_def update_conv')

lemma request_context_dispatch_run:
  assumes "call_next (request_context_of cor req trace q, s) = (x, (c1, s1))"
  shows "request_context_dispatch cor req trace q call_next (c0, s) =
    (case x of
       Inl e \<Rightarrow> (Inl e, (c0, s1))
     | Inr r \<Rightarrow> (Inr (answer_for (rc_correlation_id (request_context_of cor req trace q))
         (rc_request_id (request_context_of cor req trace q)) r), (c0, s1)))"
  using assms
  by (auto simp: request_context_dispatch_def request_scope_def scoped_var_def efinally_def Let_def
      ebind_def answer_for_def split: sum.splits)

text \<open>Metrics that fail at most with an exception change neither the answer nor the context.\<close>

definition quiet_metrics :: "(string \<Rightarrow> string \<Rightarrow> string \<Rightarrow> ('s http_state, unit) eff) \<Rightarrow> bool" where
  "quiet_metrics observe \<longleftrightarrow>
     (\<forall>m r st. ekeeps fst (observe m r st)) \<and>
     (\<forall>m r st s e. fst (observe m r st s) = Inl e \<longrightarrow> is_exception e)"

lemma record_request_quiet:
  assumes "quiet_metrics observe"
  shows "\<exists>s'. record_request observe q resp (c, s) = (Inr (), (c, s'))"
proof -
  let ?m = "observe (hq_method q) (get_or (hq_route q) (hq_path q))
      (str_of_int (case resp of Some r \<Rightarrow> hr_status r | None \<Rightarrow> 500))"
  obtain x st where o: "?m (c, s) = (x, st)" by (rule prod.exhaust)
  with assms have "fst st = c" unfolding quiet_metrics_def ekeeps_def by (metis fst_conv snd_conv)
  moreover have "x = Inl e \<Longrightarrow> is_exception e" for e
    using assms o unfolding quiet_metrics_def by (metis fst_conv)
  ultimately show ?thesis using o by (cases x; cases st) (auto simp: record_request_def etry_def)
qed

lemma metrics_dispatch_run:
  assumes "quiet_metrics observe" "routes (c, s) = (x, (c1, s1))"
  shows "\<exists>s2. metrics_dispatch observe q routes (c, s) = (x, (c1, s2))"
proof (cases x)
  case (Inl e)
  obtain s2 where "record_request observe q None (c1, s1) = (Inr (), (c1, s2))"
    using record_request_quiet [OF assms(1)] by blast
  with assms(2) Inl show ?thesis by (simp add: metrics_dispatch_def ebind_def)
next
  case (Inr r)
  obtain s2 where "record_request observe q (Some r) (c1, s1) = (Inr (), (c1, s2))"
    using record_request_quiet [OF assms(1)] by blast
  with assms(2) Inr show ?thesis by (simp add: metrics_dispatch_def ebind_def)
qed

definition same_ids :: "attribute request_context \<Rightarrow> attribute request_context \<Rightarrow> bool" where
  "same_ids a b \<longleftrightarrow> rc_request_id a = rc_request_id b \<and> rc_correlation_id a = rc_correlation_id b \<and>
     rc_trace_id a = rc_trace_id b"

lemma failure_same_ids:
  "same_ids a b \<Longrightarrow> handle_qx_error a err = handle_qx_error b err"
  by (simp add: handle_qx_error_def envelope_failure_def api_meta_def same_ids_def)

section \<open>Properties\<close>

text \<open>C24: An error that an endpoint raises reaches the client as it is: status of its class, its code,
  message and details but not its cause, and in header and envelope the correlation id of the
  request (the given one when it is a UUID, else a fresh one). The context of the request is gone
  afterwards.\<close>

theorem error_reaches_client:
  assumes routes: "\<And>st. routes st = (case endpoint st of
      (Inr r, st') \<Rightarrow> (Inr r, st')
    | (Inl e, st') \<Rightarrow> (case installed_handler V (fst st') e of
        Some r \<Rightarrow> (Inr r, st') | None \<Rightarrow> (Inl e, st')))"
    and raised: "endpoint (request_context_of cor req trace q, s) = (Inl (as_exception err), (c, s1))"
    and ids: "same_ids c (request_context_of cor req trace q)"
    and quiet: "quiet_metrics observe"
  shows "\<exists>resp s2. qx_stack (cor, req) trace None observe q routes (c0, s) = (Inr resp, (c0, s2)) \<and>
    hr_status resp = http_status (err_class err) \<and>
    hr_body resp = JsonText (JObj (envelope_failure (request_context_of cor req trace q)
      (err_code err) (err_message err) (err_details err) no_paging)) \<and>
    map_of (hr_headers resp) ''x-correlation-id'' =
      Some (str_of_uuid (get_or (try_uuid (map_of (hq_headers q) ''x-correlation-id'')) cor))"
proof -
  let ?ctx = "request_context_of cor req trace q"
  have "routes (?ctx, s) = (Inr (handle_qx_error ?ctx err), (c, s1))"
    unfolding routes raised
    by (simp add: as_exception_def installed_handler_def failure_same_ids [OF ids])
  from metrics_dispatch_run [where routes = routes and q = q, OF quiet this] obtain s2 where
    m: "metrics_dispatch observe q routes (?ctx, s) = (Inr (handle_qx_error ?ctx err), (c, s2))" by blast
  show ?thesis
    using request_context_dispatch_run [where call_next = "metrics_dispatch observe q routes", OF m, of c0]
    by (simp add: qx_stack_def Let_def handle_qx_error_def json_response_def)
      (simp add: request_context_of_def)
qed

definition demo_request :: http_request where
  "demo_request =
     \<lparr>hq_method = ''POST'', hq_path = ''/orders'', hq_query = ''dry=1'',
      hq_headers = [(''x-correlation-id'', ''00000000-0000-0000-0000-00000000000a''),
        (''x-tenant-id'', ''00000000-0000-0000-0000-000000000005'')],
      hq_client = None, hq_route = Some ''/orders''\<rparr>"

definition no_validation :: validation_errors where
  "no_validation = \<lparr>ve_request = (\<lambda>e. None), ve_model = (\<lambda>e. None)\<rparr>"

definition demo_routes :: "('s http_state, http_response) eff \<Rightarrow> ('s http_state, http_response) eff" where
  "demo_routes endpoint st = (case endpoint st of
      (Inr r, st') \<Rightarrow> (Inr r, st')
    | (Inl e, st') \<Rightarrow> (case installed_handler no_validation (fst st') e of
        Some r \<Rightarrow> (Inr r, st') | None \<Rightarrow> (Inl e, st')))"

lemma demo_ids:
  "parse_uuid ''00000000-0000-0000-0000-00000000000a'' = Some 10"
  "parse_uuid ''00000000-0000-0000-0000-000000000005'' = Some 5"
  by code_simp+

lemma error_reaches_client_witness:
  "\<exists>resp s2. qx_stack (1, 2) None None (\<lambda>m r st. eret ()) demo_request
      (demo_routes (unwrap (Failure (mk_error ConflictError ''order.exists'' ''exists'') []))) (demo_context, 0 :: nat) =
      (Inr resp, (demo_context, s2)) \<and> hr_status resp = 409 \<and>
    map_of (hr_headers resp) ''x-correlation-id'' = Some (str_of_uuid 10)"
proof -
  let ?err = "mk_error ConflictError ''order.exists'' ''exists''"
  let ?ctx = "request_context_of 1 2 None demo_request"
  have quiet: "quiet_metrics (\<lambda>m r st. eret ())" by (simp add: quiet_metrics_def ekeeps_def)
  have ids: "same_ids ?ctx ?ctx" by (simp add: same_ids_def)
  have raised: "unwrap (Failure ?err []) (?ctx, 0 :: nat) =
      (Inl (as_exception ?err) :: exn + http_response, (?ctx, 0))" by (simp add: unwrap_def)
  note out = error_reaches_client [where routes = "demo_routes (unwrap (Failure ?err []))" and q = demo_request
      and endpoint = "unwrap (Failure ?err [])" and V = no_validation, OF demo_routes_def raised ids quiet,
      of demo_context]
  have "try_uuid (map_of (hq_headers demo_request) ''x-correlation-id'') = Some 10"
    by (simp add: demo_request_def try_uuid_def demo_ids)
  with out show ?thesis by (elim exE) (intro exI, force)
qed



text \<open>The readiness probe tells the truth: it answers 503 exactly when some check reports unhealthy,
  raises or runs out of its time, and it raises never.\<close>

theorem readyz_reflects_checks:
  assumes "\<And>name fn. (name, fn) \<in> set (hl_readiness h) \<Longrightarrow> check_says fn (says name)"
  shows "\<exists>resp s'. readyz two_places clock h s = (Inr resp, s') \<and>
    hr_status resp = (if Unhealthy \<in> says ` fst ` set (hl_readiness h) then 503 else 200)"
proof -
  have "list_all (\<lambda>c. check_says (snd c) (says (fst c))) (hl_readiness h)"
    using assms by (auto simp: list_all_iff)
  from run_checks_say [OF this] obtain rs s' where
    r: "emap (run_one clock (hl_timeout h)) (hl_readiness h) s = (Inr rs, s')"
    "map ch_status rs = map (\<lambda>c. says (fst c)) (hl_readiness h)" by blast
  have "worst_status Healthy rs = Unhealthy \<longleftrightarrow> Unhealthy \<in> says ` fst ` set (hl_readiness h)"
    unfolding worst_status_unhealthy [OF health_status.distinct(3)] r(2) by auto
  with r(1) show ?thesis
    by (auto simp: readyz_def readiness_def run_all_def ebind_def json_response_def)
qed

definition demo_health :: "unit health_registry" where
  "demo_health = \<lparr>hl_liveness = [],
     hl_readiness = [(''db'', eret None), (''cache'', eraise (PyException ''ConnectionError'' ''refused''))],
     hl_timeout = ''2.0''\<rparr>"

lemma readyz_reflects_checks_witness:
  "\<exists>resp s'. readyz (\<lambda>x. x) (\<lambda>_. 0) demo_health () = (Inr resp, s') \<and> hr_status resp = 503"
proof -
  let ?says = "\<lambda>n. if n = ''cache'' then Unhealthy else Healthy"
  have says: "check_says fn (?says n)" if "(n, fn) \<in> set (hl_readiness demo_health)" for n fn
    using that by (auto simp: demo_health_def check_says_def verdict_of_def)
  have "Unhealthy \<in> ?says ` fst ` set (hl_readiness demo_health)" by (simp add: demo_health_def)
  moreover have "\<exists>resp s'. readyz (\<lambda>x. x) (\<lambda>_. 0) demo_health () = (Inr resp, s') \<and>
      hr_status resp = (if Unhealthy \<in> ?says ` fst ` set (hl_readiness demo_health) then 503 else 200)"
    by (rule readyz_reflects_checks) (rule says)
  ultimately show ?thesis by simp
qed

end
