(* ===== verification/Qx_Grpc.thy ===== *)
theory Qx_Grpc
  imports Qx_Http
begin

text \<open>
  The package \<open>qx-grpc\<close>: statuses of errors (\<open>errors\<close>), the four server interceptors
  (\<open>interceptors\<close>) and the chain the server factory builds (\<open>server\<close>). gRPC is an argument: the
  numbers of its codes, and the servicer context with its calls. A response stream is a body that is
  given the \<open>yield\<close> of its consumer.
\<close>

section \<open>Statuses\<close>

definition status_names :: "string list" where
  "status_names =
     [''OK'', ''CANCELLED'', ''UNKNOWN'', ''INVALID_ARGUMENT'', ''DEADLINE_EXCEEDED'', ''NOT_FOUND'',
      ''ALREADY_EXISTS'', ''PERMISSION_DENIED'', ''RESOURCE_EXHAUSTED'', ''FAILED_PRECONDITION'', ''ABORTED'',
      ''OUT_OF_RANGE'', ''UNIMPLEMENTED'', ''INTERNAL'', ''UNAVAILABLE'', ''DATA_LOSS'', ''UNAUTHENTICATED'']"

text \<open>The constants of \<open>code_pb2\<close>, the members of \<open>grpc.StatusCode\<close> in their order and \<open>str\<close>.\<close>

record grpc_lib =
  gl_pb2 :: "string \<Rightarrow> int option"
  gl_unknown :: int
  gl_codes :: "(string \<times> int) list"
  gl_str :: "json \<Rightarrow> string"

record rpc_status =
  st_code :: int
  st_message :: string
  st_reason :: string
  st_domain :: string
  st_metadata :: "(string \<times> string) list"

definition grpc_code_by_name :: "grpc_lib \<Rightarrow> string \<Rightarrow> int option" where
  "grpc_code_by_name G name = (if name \<in> set status_names then gl_pb2 G name else None)"

definition status_from_error :: "grpc_lib \<Rightarrow> error \<Rightarrow> rpc_status" where
  "status_from_error G err =
     \<lparr>st_code = get_or (grpc_code_by_name G (grpc_code (err_class err))) (gl_unknown G),
      st_message = err_message err, st_reason = err_code err, st_domain = ''qx'',
      st_metadata = map (\<lambda>(k, v). (k, gl_str G v)) (err_details err)\<rparr>"

definition proxy_code :: "grpc_lib \<Rightarrow> rpc_status \<Rightarrow> string" where
  "proxy_code G st =
     (case find (\<lambda>c. snd c = st_code st) (gl_codes G) of Some c \<Rightarrow> fst c | None \<Rightarrow> ''UNKNOWN'')"

section \<open>Handlers\<close>

record 's servicer =
  sv_metadata :: "(string \<times> string) list"
  sv_remaining :: rat
  sv_set_trailing :: "(string \<times> string) list \<Rightarrow> ('s, unit) eff"
  sv_abort :: "string \<Rightarrow> string \<Rightarrow> ('s, unit) eff"

type_synonym ('q, 'r, 's) answers = "'q \<Rightarrow> 's servicer \<Rightarrow> ('s, 'r option) eff"
type_synonym ('q, 'r, 's) streams = "'q \<Rightarrow> 's servicer \<Rightarrow> ('r \<Rightarrow> ('s, unit) eff) \<Rightarrow> ('s, unit) eff"

datatype ('q, 'r, 's) rpc_fn = Answers "('q, 'r, 's) answers" | Streams "('q, 'r, 's) streams"

text \<open>\<open>rh_codec\<close> is the pair of deserializer and serializer.\<close>

record ('q, 'r, 's, 'c) rpc_handler =
  rh_unary_unary :: "('q, 'r, 's) answers option"
  rh_unary_stream :: "('q, 'r, 's) streams option"
  rh_stream_unary :: "('q, 'r, 's) answers option"
  rh_stream_stream :: "('q, 'r, 's) streams option"
  rh_codec :: 'c

definition rpc_shape :: "('q, 'r, 's, 'c) rpc_handler \<Rightarrow> (('q, 'r, 's) rpc_fn \<times> bool) option" where
  "rpc_shape h =
     (case rh_unary_unary h of Some f \<Rightarrow> Some (Answers f, False)
      | None \<Rightarrow> (case rh_unary_stream h of Some f \<Rightarrow> Some (Streams f, False)
      | None \<Rightarrow> (case rh_stream_unary h of Some f \<Rightarrow> Some (Answers f, True)
      | None \<Rightarrow> (case rh_stream_stream h of Some f \<Rightarrow> Some (Streams f, True) | None \<Rightarrow> None))))"

definition rpc_rebuild ::
  "('q, 'r, 's, 'c) rpc_handler \<Rightarrow> ('q, 'r, 's) rpc_fn \<Rightarrow> bool \<Rightarrow> ('q, 'r, 's, 'c) rpc_handler" where
  "rpc_rebuild h new_fn req_stream =
     (let none = \<lparr>rh_unary_unary = None, rh_unary_stream = None, rh_stream_unary = None,
        rh_stream_stream = None, rh_codec = rh_codec h\<rparr>
      in case new_fn of
           Answers f \<Rightarrow> (if req_stream then none\<lparr>rh_stream_unary := Some f\<rparr> else none\<lparr>rh_unary_unary := Some f\<rparr>)
         | Streams f \<Rightarrow> (if req_stream then none\<lparr>rh_stream_stream := Some f\<rparr> else none\<lparr>rh_unary_stream := Some f\<rparr>))"

text \<open>
  Every interceptor wraps the function of the handler in the same way for all shapes: \<open>wrap\<close> gets
  the servicer, the value an aborted call returns and the call.
\<close>

definition intercept ::
  "('s servicer \<Rightarrow> ('s, 'r option) eff \<Rightarrow> ('s, 'r option) eff) \<Rightarrow>
   ('s servicer \<Rightarrow> ('s, unit) eff \<Rightarrow> ('s, unit) eff) \<Rightarrow>
   ('q, 'r, 's, 'c) rpc_handler option \<Rightarrow> ('q, 'r, 's, 'c) rpc_handler option" where
  "intercept unary stream handler =
     (case handler of
        None \<Rightarrow> None
      | Some h \<Rightarrow> (case rpc_shape h of
          None \<Rightarrow> Some h
        | Some (Answers f, rs) \<Rightarrow> Some (rpc_rebuild h (Answers (\<lambda>q sv. unary sv (f q sv))) rs)
        | Some (Streams f, rs) \<Rightarrow> Some (rpc_rebuild h (Streams (\<lambda>q sv yld. stream sv (f q sv yld))) rs)))"

section \<open>The request context\<close>

fun extract_metadata :: "(string \<times> string) list \<Rightarrow> string \<Rightarrow> string option" where
  "extract_metadata [] key = None"
| "extract_metadata ((k, v) # rest) key =
     (if py_lower k = key then Some v else extract_metadata rest key)"

definition build_request_ctx ::
  "uuid \<Rightarrow> uuid \<Rightarrow> string \<Rightarrow> 's servicer \<Rightarrow> attribute request_context" where
  "build_request_ctx fresh_cor fresh_req rpc_method sv =
     \<lparr>rc_request_id = get_or (try_uuid (extract_metadata (sv_metadata sv) ''qx-request-id'')) fresh_req,
      rc_correlation_id = get_or (try_uuid (extract_metadata (sv_metadata sv) ''qx-correlation-id'')) fresh_cor,
      rc_trace_id = None, rc_span_id = None, rc_user_id = None,
      rc_tenant_id = try_uuid (extract_metadata (sv_metadata sv) ''qx-tenant-id''), rc_actor_kind = None,
      rc_attributes = (''rpc.method'', AttrValue (JStr rpc_method)) #
        (if sv_remaining sv < 1000000000 then [(''rpc.deadline_seconds'', AttrValue (JFloat (sv_remaining sv)))] else [])\<rparr>"

definition context_call ::
  "uuid \<times> uuid \<Rightarrow> string \<Rightarrow> ('s http_state) servicer \<Rightarrow> ('s http_state, 'x) eff \<Rightarrow> ('s http_state, 'x) eff" where
  "context_call fresh rpc_method sv call =
     (let ctx = build_request_ctx (fst fresh) (snd fresh) rpc_method sv
      in request_scope fst (\<lambda>c st. (c, snd st)) (snd fresh) (Some ctx) None (\<lambda>_.
           ebind (sv_set_trailing sv
             [(''qx-correlation-id'', str_of_uuid (rc_correlation_id ctx)),
              (''qx-request-id'', str_of_uuid (rc_request_id ctx))]) (\<lambda>_. call)))"

section \<open>Errors\<close>

definition abort_with_status :: "grpc_lib \<Rightarrow> 's servicer \<Rightarrow> rpc_status \<Rightarrow> ('s, unit) eff" where
  "abort_with_status G sv st = sv_abort sv (proxy_code G st) (st_message st)"

definition exception_call ::
  "grpc_lib \<Rightarrow> 'x \<Rightarrow> 's servicer \<Rightarrow> ('s, 'x) eff \<Rightarrow> ('s, 'x) eff" where
  "exception_call G none sv call s =
     (case call s of
        (Inr x, s1) \<Rightarrow> (Inr x, s1)
      | (Inl e, s1) \<Rightarrow>
          (if exn_class e = ''CancelledError'' then (Inl e, s1)
           else case e of
             ErrorException err \<Rightarrow>
               ebind (abort_with_status G sv (status_from_error G err)) (\<lambda>_. eret none) s1
           | _ \<Rightarrow>
               (if is_exception e then ebind (sv_abort sv ''UNKNOWN'' ''internal error'') (\<lambda>_. eret none) s1
                else (Inl e, s1))))"

section \<open>Metrics\<close>

text \<open>
  The state beside the world is the dictionary of histograms by method. \<open>mx_count\<close> is the counter,
  \<open>mx_make\<close> creates a histogram, \<open>mx_observe\<close> records in the given or the shared histogram.
\<close>

record ('h, 's) metrics =
  mx_buckets :: "string \<Rightarrow> bool"
  mx_make :: "string \<Rightarrow> ('s, 'h) eff"
  mx_count :: "string \<Rightarrow> string \<Rightarrow> ('s, unit) eff"
  mx_observe :: "string \<Rightarrow> 'h option \<Rightarrow> rat \<Rightarrow> ('s, unit) eff"
  mx_get :: "'s \<Rightarrow> (string \<rightharpoonup> 'h option)"
  mx_put :: "(string \<rightharpoonup> 'h option) \<Rightarrow> 's \<Rightarrow> 's"
  mx_clock :: "'s \<Rightarrow> rat"

definition latency_histogram :: "('h, 's) metrics \<Rightarrow> string \<Rightarrow> ('s, 'h option) eff" where
  "latency_histogram M rpc_method s =
     (case mx_get M s rpc_method of
        Some hist \<Rightarrow> (Inr hist, s)
      | None \<Rightarrow>
          (if mx_buckets M rpc_method
           then ebind (etry (ebind (mx_make M rpc_method) (\<lambda>h. eret (Some h))) (\<lambda>e. eret None)) (\<lambda>hist s1.
                  (Inr hist, mx_put M ((mx_get M s1)(rpc_method \<mapsto> hist)) s1)) s
           else (Inr None, s)))"

definition record_metrics :: "('h, 's) metrics \<Rightarrow> string \<Rightarrow> string \<Rightarrow> rat \<Rightarrow> ('s, unit) eff" where
  "record_metrics M rpc_method outcome duration =
     etry (ebind (mx_count M rpc_method outcome) (\<lambda>_.
           ebind (latency_histogram M rpc_method) (\<lambda>hist. mx_observe M rpc_method hist duration)))
       (\<lambda>e. eret ())"

definition metrics_call :: "('h, 's) metrics \<Rightarrow> string \<Rightarrow> ('s, 'x) eff \<Rightarrow> ('s, 'x) eff" where
  "metrics_call M rpc_method call s =
     (let start = mx_clock M s
      in case call s of
           (Inr x, s1) \<Rightarrow>
             ebind (record_metrics M rpc_method ''success'' (mx_clock M s1 - start)) (\<lambda>_. eret x) s1
         | (Inl e, s1) \<Rightarrow>
             ebind (record_metrics M rpc_method (if is_exception e then ''failure'' else ''success'')
               (mx_clock M s1 - start)) (\<lambda>_. eraise e) s1)"

section \<open>Authentication\<close>

definition bearer_token :: "(string \<times> string) list \<Rightarrow> string option" where
  "bearer_token metadata =
     (case extract_metadata metadata ''authorization'' of
        None \<Rightarrow> None
      | Some auth \<Rightarrow>
          (if py_startswith (py_lower auth) ''bearer ''
           then (let token = py_strip (drop 7 auth) in if token = [] then None else Some token)
           else None))"

definition inject_principal ::
  "(string \<Rightarrow> ('s, auth_principal result) eff) \<Rightarrow> string \<Rightarrow> ('s http_state) servicer \<Rightarrow> ('s http_state, unit) eff" where
  "inject_principal validate key sv =
     (case bearer_token (sv_metadata sv) of
        None \<Rightarrow> eret ()
      | Some token \<Rightarrow>
          etry (ebind (on_snd (validate token)) (\<lambda>res.
                  case res of Success p md \<Rightarrow> store_principal key p | Failure e md \<Rightarrow> eret ()))
            (\<lambda>e. eret ()))"

definition auth_call ::
  "(string \<Rightarrow> ('s, auth_principal result) eff) \<Rightarrow> string \<Rightarrow> ('s http_state) servicer
     \<Rightarrow> ('s http_state, 'x) eff \<Rightarrow> ('s http_state, 'x) eff" where
  "auth_call validate key sv call = ebind (inject_principal validate key sv) (\<lambda>_. call)"

section \<open>The chain\<close>

definition context_interceptor ::
  "uuid \<times> uuid \<Rightarrow> string \<Rightarrow> ('q, 'r, 's http_state, 'c) rpc_handler option
     \<Rightarrow> ('q, 'r, 's http_state, 'c) rpc_handler option" where
  "context_interceptor fresh rpc_method =
     intercept (context_call fresh rpc_method) (context_call fresh rpc_method)"

definition exception_interceptor ::
  "grpc_lib \<Rightarrow> ('q, 'r, 's, 'c) rpc_handler option \<Rightarrow> ('q, 'r, 's, 'c) rpc_handler option" where
  "exception_interceptor G = intercept (exception_call G None) (exception_call G ())"

definition metrics_interceptor ::
  "('h, 's) metrics \<Rightarrow> string \<Rightarrow> ('q, 'r, 's, 'c) rpc_handler option \<Rightarrow> ('q, 'r, 's, 'c) rpc_handler option" where
  "metrics_interceptor M rpc_method =
     intercept (\<lambda>sv. metrics_call M rpc_method) (\<lambda>sv. metrics_call M rpc_method)"

definition jwt_interceptor ::
  "(string \<Rightarrow> ('s, auth_principal result) eff) \<Rightarrow> string \<Rightarrow> ('q, 'r, 's http_state, 'c) rpc_handler option
     \<Rightarrow> ('q, 'r, 's http_state, 'c) rpc_handler option" where
  "jwt_interceptor validate key = intercept (auth_call validate key) (auth_call validate key)"

text \<open>\<open>create_grpc_server\<close>: the first interceptor of the list is the outermost.\<close>

definition grpc_chain ::
  "uuid \<times> uuid \<Rightarrow> ('h, 's http_state) metrics \<Rightarrow> grpc_lib
     \<Rightarrow> (('q, 'r, 's http_state, 'c) rpc_handler option \<Rightarrow> ('q, 'r, 's http_state, 'c) rpc_handler option) list
     \<Rightarrow> string \<Rightarrow> ('q, 'r, 's http_state, 'c) rpc_handler option \<Rightarrow> ('q, 'r, 's http_state, 'c) rpc_handler option" where
  "grpc_chain fresh M G extra rpc_method handler =
     foldr (\<lambda>i h. i h)
       ([context_interceptor fresh rpc_method, metrics_interceptor M rpc_method, exception_interceptor G] @ extra)
       handler"

section \<open>What the client is told\<close>

text \<open>The code and message of the ending of a call; a cancelled call is told nothing.\<close>

definition told :: "exn + 'x \<Rightarrow> (string \<times> string) list" where
  "told y = (case y of
     Inr x \<Rightarrow> []
   | Inl e \<Rightarrow>
       (if exn_class e = ''CancelledError'' then []
        else case e of
          ErrorException err \<Rightarrow> [(grpc_code (err_class err), err_message err)]
        | _ \<Rightarrow> (if is_exception e then [(''UNKNOWN'', ''internal error'')] else [])))"

text \<open>The two tables of codes agree.\<close>

locale status_tables =
  fixes G :: grpc_lib
  assumes codes_agree: "name \<in> set status_names \<Longrightarrow>
    \<exists>n. gl_pb2 G name = Some n \<and> find (\<lambda>c. snd c = n) (gl_codes G) = Some (name, n)"
begin

lemma grpc_code_named: "grpc_code c \<in> set status_names"
  by (cases c) (simp_all add: status_names_def)

lemma proxy_code_of_error: "proxy_code G (status_from_error G err) = grpc_code (err_class err)"
  using codes_agree [OF grpc_code_named, of "err_class err"] grpc_code_named [of "err_class err"]
  by (auto simp: proxy_code_def status_from_error_def grpc_code_by_name_def)

end

definition standard_codes :: "(string \<times> int) list" where
  "standard_codes = zip status_names [0..16]"

definition standard_lib :: "(json \<Rightarrow> string) \<Rightarrow> grpc_lib" where
  "standard_lib str = \<lparr>gl_pb2 = map_of standard_codes, gl_unknown = 2, gl_codes = standard_codes, gl_str = str\<rparr>"

lemma standard_codes_agree:
  "list_all (\<lambda>name. \<exists>n. map_of standard_codes name = Some n \<and>
     find (\<lambda>c. snd c = n) standard_codes = Some (name, n)) status_names"
  by (simp add: standard_codes_def status_names_def upto.simps)

interpretation standard: status_tables "standard_lib str" for str
  using standard_codes_agree by unfold_locales (auto simp: standard_lib_def list_all_iff)

text \<open>A call that keeps an observation and raises at most exceptions.\<close>

definition tame_eff :: "('s \<Rightarrow> 'o) \<Rightarrow> ('s, 'a) eff \<Rightarrow> bool" where
  "tame_eff obs m \<longleftrightarrow> ekeeps obs m \<and> (\<forall>s e. fst (m s) = Inl e \<longrightarrow> is_exception e)"

lemma tame_bind: "tame_eff obs m \<Longrightarrow> (\<And>x. tame_eff obs (f x)) \<Longrightarrow> tame_eff obs (ebind m f)"
  unfolding tame_eff_def using ekeeps_bind [of obs m f]
  by (auto simp: ebind_def split: prod.splits sum.splits) (metis fst_conv)+

lemma tame_eret [simp]: "tame_eff obs (eret x)" "tame_eff obs (Pair (Inr x))"
  by (simp_all add: tame_eff_def)

lemma tame_caught:
  assumes "tame_eff obs m"
  shows "\<exists>x s'. etry m (\<lambda>e. eret d) s = (Inr x, s') \<and> obs s' = obs s"
proof -
  obtain y s1 where y: "m s = (y, s1)" by (rule prod.exhaust)
  from assms have k: "obs (snd (m s)) = obs s" and r: "\<forall>e. fst (m s) = Inl e \<longrightarrow> is_exception e"
    unfolding tame_eff_def ekeeps_def by blast+
  with y show ?thesis by (cases y) (auto simp: etry_def)
qed

lemma tame_etry: "tame_eff obs m \<Longrightarrow> tame_eff obs (etry m (\<lambda>e. eret d))"
proof -
  assume m: "tame_eff obs m"
  have "obs (snd (etry m (\<lambda>e. eret d) s)) = obs s \<and> (\<exists>x. fst (etry m (\<lambda>e. eret d) s) = Inr x)" for s
    using tame_caught [OF m, of d s] by auto
  then have "obs (snd (etry m (\<lambda>e. eret d) s)) = obs s" "fst (etry m (\<lambda>e. eret d) s) \<noteq> Inl e" for s e
    by (metis sum.distinct(1))+
  then show ?thesis unfolding tame_eff_def ekeeps_def by blast
qed

text \<open>
  The surroundings of a call: aborts are recorded and raise, trailing metadata and metrics leave
  the context and the aborts alone.
\<close>

locale grpc_env = status_tables G
  for G :: grpc_lib +
  fixes M :: "('h, 's http_state) metrics" and sv :: "('s http_state) servicer"
    and aborts :: "'s \<Rightarrow> (string \<times> string) list" and abort_exn :: exn
  assumes abort_raises: "\<exists>s'. sv_abort sv code msg (c, s) = (Inl abort_exn, (c, s')) \<and>
      aborts s' = aborts s @ [(code, msg)]"
    and trailing: "\<exists>s'. sv_set_trailing sv kvs (c, s) = (Inr (), (c, s')) \<and> aborts s' = aborts s"
    and counts: "tame_eff (\<lambda>st. (fst st, aborts (snd st))) (mx_count M meth outcome)"
    and makes: "tame_eff (\<lambda>st. (fst st, aborts (snd st))) (mx_make M meth)"
    and observes: "tame_eff (\<lambda>st. (fst st, aborts (snd st))) (mx_observe M meth hist dur)"
    and puts: "fst (mx_put M hs st) = fst st \<and> aborts (snd (mx_put M hs st)) = aborts (snd st)"
begin

abbreviation view :: "'s http_state \<Rightarrow> attribute request_context \<times> (string \<times> string) list" where
  "view st \<equiv> (fst st, aborts (snd st))"

lemma histogram_tame: "tame_eff view (latency_histogram M meth)"
proof -
  have m: "tame_eff view (etry (ebind (mx_make M meth) (\<lambda>h. eret (Some h))) (\<lambda>e. eret None))"
    by (intro tame_etry tame_bind makes tame_eret)
  have p: "tame_eff view (\<lambda>s1. (Inr hist, mx_put M ((mx_get M s1)(meth \<mapsto> hist)) s1))" for hist
    using puts by (simp add: tame_eff_def ekeeps_def)
  have "tame_eff view (\<lambda>s. (Inr hist, s))" for hist :: "'h option"
    by (simp add: tame_eff_def ekeeps_def)
  with tame_bind [OF m p] show ?thesis
    unfolding tame_eff_def ekeeps_def latency_histogram_def by (auto split: option.split)
qed

lemma record_metrics_ok:
  "\<exists>s'. record_metrics M meth outcome d (c, s) = (Inr (), (c, s')) \<and> aborts s' = aborts s"
proof -
  have "tame_eff view (ebind (mx_count M meth outcome) (\<lambda>_. ebind (latency_histogram M meth) (\<lambda>h. mx_observe M meth h d)))"
    by (intro tame_bind counts histogram_tame observes)
  from tame_caught [OF this, of "()" "(c, s)"] obtain st where
    "record_metrics M meth outcome d (c, s) = (Inr (), st)" "view st = (c, aborts s)"
    unfolding record_metrics_def by auto
  then show ?thesis by (cases st) auto
qed

lemma metrics_call_ok:
  assumes "call (c, s) = (x, (c1, s1))"
  shows "\<exists>s2. metrics_call M meth call (c, s) = (x, (c1, s2)) \<and> aborts s2 = aborts s1"
proof (cases x)
  case (Inl e)
  obtain s2 where "record_metrics M meth (if is_exception e then ''failure'' else ''success'')
      (mx_clock M (c1, s1) - mx_clock M (c, s)) (c1, s1) = (Inr (), (c1, s2))" "aborts s2 = aborts s1"
    using record_metrics_ok by blast
  with assms Inl show ?thesis by (simp add: metrics_call_def ebind_def Let_def)
next
  case (Inr r)
  obtain s2 where "record_metrics M meth ''success'' (mx_clock M (c1, s1) - mx_clock M (c, s)) (c1, s1) =
      (Inr (), (c1, s2))" "aborts s2 = aborts s1" using record_metrics_ok by blast
  with assms Inr show ?thesis by (simp add: metrics_call_def ebind_def Let_def)
qed

lemma exception_call_tells:
  assumes "call (c, s) = (y, (c1, s1))"
  shows "\<exists>x s2. exception_call G none sv call (c, s) = (x, (c1, s2)) \<and> aborts s2 = aborts s1 @ told y \<and>
    (\<forall>r. y = Inr r \<longleftrightarrow> x = Inr r)"
proof (cases y)
  case (Inr r)
  with assms show ?thesis by (simp add: exception_call_def told_def)
next
  case (Inl e)
  obtain s2 where a: "sv_abort sv ''UNKNOWN'' ''internal error'' (c1, s1) = (Inl abort_exn, (c1, s2))"
    "aborts s2 = aborts s1 @ [(''UNKNOWN'', ''internal error'')]" using abort_raises by blast
  show ?thesis
  proof (cases e)
    case (ErrorException err)
    obtain s3 where "sv_abort sv (grpc_code (err_class err)) (err_message err) (c1, s1) = (Inl abort_exn, (c1, s3))"
      "aborts s3 = aborts s1 @ [(grpc_code (err_class err), err_message err)]" using abort_raises by blast
    with assms Inl ErrorException show ?thesis
      by (simp add: exception_call_def told_def abort_with_status_def proxy_code_of_error ebind_def)
        (simp add: status_from_error_def)
  qed (use assms Inl a in \<open>auto simp: exception_call_def told_def ebind_def\<close>)
qed

end

lemma shape_rebuild [simp]:
  "rpc_shape (rpc_rebuild h (Answers f) rs) = Some (Answers f, rs)"
  "rpc_shape (rpc_rebuild h (Streams g) rs) = Some (Streams g, rs)"
  by (simp_all add: rpc_shape_def rpc_rebuild_def Let_def)

lemma intercept_shape:
  "rpc_shape h = Some (Answers f, rs) \<Longrightarrow>
     intercept unary stream (Some h) = Some (rpc_rebuild h (Answers (\<lambda>q sv. unary sv (f q sv))) rs)"
  "rpc_shape h = Some (Streams g, rs) \<Longrightarrow>
     intercept unary stream (Some h) = Some (rpc_rebuild h (Streams (\<lambda>q sv yld. stream sv (g q sv yld))) rs)"
  by (simp_all add: intercept_def)

text \<open>What the three framework interceptors make of one call.\<close>

definition chain_call ::
  "uuid \<times> uuid \<Rightarrow> ('h, 's http_state) metrics \<Rightarrow> grpc_lib \<Rightarrow> string \<Rightarrow> 'x \<Rightarrow> ('s http_state) servicer
     \<Rightarrow> ('s http_state, 'x) eff \<Rightarrow> ('s http_state, 'x) eff" where
  "chain_call fresh M G rpc_method none sv call =
     context_call fresh rpc_method sv (metrics_call M rpc_method (exception_call G none sv call))"

lemma grpc_chain_shape:
  "rpc_shape h = Some (Answers f, rs) \<Longrightarrow> \<exists>h'. grpc_chain fresh M G [] meth (Some h) = Some h' \<and>
     rpc_shape h' = Some (Answers (\<lambda>q sv. chain_call fresh M G meth None sv (f q sv)), rs)"
  "rpc_shape h = Some (Streams g, rs) \<Longrightarrow> \<exists>h'. grpc_chain fresh M G [] meth (Some h) = Some h' \<and>
     rpc_shape h' = Some (Streams (\<lambda>q sv yld. chain_call fresh M G meth () sv (g q sv yld)), rs)"
  by (simp_all add: grpc_chain_def context_interceptor_def metrics_interceptor_def exception_interceptor_def
      intercept_shape chain_call_def)

context grpc_env
begin

lemma chain_call_tells:
  assumes "ekeeps (\<lambda>st. aborts (snd st)) call"
  shows "\<exists>s1 y c2 s2 x s3. call (build_request_ctx (fst fresh) (snd fresh) meth sv, s1) = (y, (c2, s2)) \<and>
    chain_call fresh M G meth none sv call (c, s) = (x, (c, s3)) \<and>
    aborts s3 = aborts s @ told y \<and> (\<forall>r. y = Inr r \<longleftrightarrow> x = Inr r)"
proof -
  let ?ctx = "build_request_ctx (fst fresh) (snd fresh) meth sv"
  obtain s1 where t: "sv_set_trailing sv
      [(''qx-correlation-id'', str_of_uuid (rc_correlation_id ?ctx)),
       (''qx-request-id'', str_of_uuid (rc_request_id ?ctx))] (?ctx, s) = (Inr (), (?ctx, s1))"
    "aborts s1 = aborts s" using trailing by blast
  obtain y c2 s2 where y: "call (?ctx, s1) = (y, (c2, s2))" by (metis prod.exhaust)
  have a: "aborts s2 = aborts s1" using ekeepsD [OF assms y] by simp
  obtain x s3 where x: "exception_call G none sv call (?ctx, s1) = (x, (c2, s3))"
    "aborts s3 = aborts s2 @ told y" "\<forall>r. y = Inr r \<longleftrightarrow> x = Inr r"
    using exception_call_tells [where call = call and none = none, OF y] by blast
  obtain s4 where m: "metrics_call M meth (exception_call G none sv call) (?ctx, s1) = (x, (c2, s4))"
    "aborts s4 = aborts s3"
    using metrics_call_ok [where call = "exception_call G none sv call", OF x(1)] by blast
  have "chain_call fresh M G meth none sv call (c, s) = (x, (c, s4))"
    using t(1) m(1)
    by (simp add: chain_call_def context_call_def request_scope_def scoped_var_def efinally_def Let_def ebind_Inr)
  with y x(2,3) a t(2) m(2) show ?thesis by (metis (no_types, lifting))
qed

end

section \<open>Properties\<close>

text \<open>C25: The gRPC server tells a client of every shape of call how it ended, once and without internals:
  an answer passes unchanged and aborts nothing, an error aborts with the code of its class and its
  message, any other exception with UNKNOWN and a fixed text, a cancellation with nothing; the
  request context is closed in every case.\<close>

theorem grpc_call_tells:
  assumes env: "grpc_env G M sv aborts abort_exn"
    and h: "rpc_shape h = Some (fn, rs)"
    and body: "case fn of
        Answers f \<Rightarrow> ekeeps (\<lambda>st. aborts (snd st)) (f q sv)
      | Streams g \<Rightarrow> ekeeps (\<lambda>st. aborts (snd st)) (g q sv yld)"
  shows "\<exists>h' fn'. grpc_chain fresh M G [] meth (Some h) = Some h' \<and> rpc_shape h' = Some (fn', rs) \<and>
    (case (fn, fn') of
       (Answers f, Answers f') \<Rightarrow>
         (\<exists>s1 y c2 s2 x s3. f q sv (build_request_ctx (fst fresh) (snd fresh) meth sv, s1) = (y, (c2, s2)) \<and>
            f' q sv (c, s) = (x, (c, s3)) \<and> aborts s3 = aborts s @ told y \<and> (\<forall>r. y = Inr r \<longleftrightarrow> x = Inr r))
     | (Streams g, Streams g') \<Rightarrow>
         (\<exists>s1 y c2 s2 x s3. g q sv yld (build_request_ctx (fst fresh) (snd fresh) meth sv, s1) = (y, (c2, s2)) \<and>
            g' q sv yld (c, s) = (x, (c, s3)) \<and> aborts s3 = aborts s @ told y \<and> (\<forall>r. y = Inr r \<longleftrightarrow> x = Inr r))
     | _ \<Rightarrow> False)"
proof (cases fn)
  case (Answers f)
  with body have k: "ekeeps (\<lambda>st. aborts (snd st)) (f q sv)" by simp
  from grpc_chain_shape(1) [OF h [unfolded Answers]] grpc_env.chain_call_tells [OF env k, of fresh meth None c s]
  show ?thesis unfolding Answers by fastforce
next
  case (Streams g)
  with body have k: "ekeeps (\<lambda>st. aborts (snd st)) (g q sv yld)" by simp
  from grpc_chain_shape(2) [OF h [unfolded Streams]] grpc_env.chain_call_tells [OF env k, of fresh meth "()" c s]
  show ?thesis unfolding Streams by fastforce
qed

text \<open>A servicer whose world is the list of its aborts.\<close>

type_synonym abort_log = "(string \<times> string) list"

definition demo_servicer :: "(abort_log http_state) servicer" where
  "demo_servicer =
     \<lparr>sv_metadata = [(''Qx-Tenant-Id'', ''00000000-0000-0000-0000-000000000005'')], sv_remaining = 3,
      sv_set_trailing = (\<lambda>_. eret ()),
      sv_abort = (\<lambda>code msg st. (Inl (PyException ''AbortError'' ''aborted''), (fst st, snd st @ [(code, msg)])))\<rparr>"

definition demo_metrics :: "(unit, abort_log http_state) metrics" where
  "demo_metrics =
     \<lparr>mx_buckets = (\<lambda>_. False), mx_make = (\<lambda>_. eret ()), mx_count = (\<lambda>_ _. eret ()),
      mx_observe = (\<lambda>_ _ _. eret ()), mx_get = (\<lambda>_. Map.empty), mx_put = (\<lambda>_ st. st), mx_clock = (\<lambda>_. 0)\<rparr>"

interpretation demo_env: grpc_env "standard_lib str" demo_metrics demo_servicer "\<lambda>s. s"
    "PyException ''AbortError'' ''aborted''" for str
  by unfold_locales (auto simp: demo_servicer_def demo_metrics_def)

definition demo_handler :: "(nat, nat, abort_log http_state, unit) rpc_handler" where
  "demo_handler =
     \<lparr>rh_unary_unary = Some (\<lambda>q sv. eraise (as_exception (mk_error NotFoundError ''order.not_found'' ''no order''))),
      rh_unary_stream = None, rh_stream_unary = None, rh_stream_stream = None, rh_codec = ()\<rparr>"

lemma grpc_call_tells_witness:
  "\<exists>h' f' x. grpc_chain (1, 2) demo_metrics (standard_lib (\<lambda>_. ''?'')) [] ''/Order/Get'' (Some demo_handler) = Some h' \<and>
     rpc_shape h' = Some (Answers f', False) \<and>
     f' 7 demo_servicer (demo_context, []) = (x, (demo_context, [(''NOT_FOUND'', ''no order'')]))"
proof -
  let ?f = "\<lambda>(q :: nat) sv. eraise (as_exception (mk_error NotFoundError ''order.not_found'' ''no order''))
     :: (abort_log http_state, nat option) eff"
  have h: "rpc_shape demo_handler = Some (Answers ?f, False)"
    by (simp add: rpc_shape_def demo_handler_def)
  have k: "case Answers ?f of
        Answers f \<Rightarrow> ekeeps (\<lambda>st. snd st) (f 7 demo_servicer)
      | Streams g \<Rightarrow> ekeeps (\<lambda>st. snd st) (g 7 demo_servicer (\<lambda>_. eret ()))"
    by (simp add: ekeeps_def)
  from grpc_call_tells [where G = "standard_lib (\<lambda>_. ''?'')", OF demo_env.grpc_env_axioms h k, where s = "[]" and c = demo_context
      and fresh = "(1, 2)" and meth = "''/Order/Get''"]
  show ?thesis
    apply (elim exE)
    subgoal for h' fn' by (cases fn') (auto simp: told_def as_exception_def)
    done
qed

end
