(* ===== verification/Qx_Search.thy ===== *)
theory Qx_Search
  imports Qx_Core
begin

text \<open>
  The package \<open>qx-search\<close> (\<open>repository\<close>, \<open>indexing\<close>) and its in-memory double in \<open>qx-testing\<close>
  (\<open>doubles\<close>, \<open>InMemorySearchRepository\<close>). The OpenSearch client is an argument. An asynchronous
  generator is a loop that is given the \<open>yield\<close> of its consumer; closing the generator is a raise of
  that \<open>yield\<close>. The loops that wait for an empty page take the passes they may do.
\<close>

section \<open>Queries and results\<close>

record search_query =
  sq_text :: "string option"
  sq_filters :: dict
  sq_page :: int
  sq_page_size :: int
  sq_sort :: "(string \<times> string) list"

record 'd search_hit =
  sh_doc :: 'd
  sh_score :: rat
  sh_source :: dict

record bulk_index_error =
  be_doc_id :: string
  be_error :: string

record bulk_index_result =
  bx_indexed :: nat
  bx_failed :: nat
  bx_errors :: "bulk_index_error list"

definition is_partial_failure :: "bulk_index_result \<Rightarrow> bool" where
  "is_partial_failure r \<longleftrightarrow> 0 < bx_failed r"

definition search_text :: "search_query \<Rightarrow> string option" where
  "search_text q = (case sq_text q of Some t \<Rightarrow> (if t = [] then None else Some t) | None \<Rightarrow> None)"

definition build_dsl :: "search_query \<Rightarrow> dict" where
  "build_dsl q =
     (let must = (case search_text q of
            Some t \<Rightarrow> [JObj [(''multi_match'', JObj [(''query'', JStr t), (''type'', JStr ''best_fields'')])]]
          | None \<Rightarrow> []);
          filters = map (\<lambda>(f, v). JObj [(''term'', JObj [(f, v)])]) (sq_filters q);
          clause = (if must \<noteq> [] then [(''must'', JList must)] else [])
            @ (if filters \<noteq> [] then [(''filter'', JList filters)] else []);
          query = (if must \<noteq> [] \<or> filters \<noteq> [] then JObj [(''bool'', JObj clause)]
            else JObj [(''match_all'', JObj [])])
      in (''query'', query) #
         (if sq_sort q \<noteq> []
          then [(''sort'', JList (map (\<lambda>(f, dir). JObj [(f, JObj [(''order'', JStr dir)])]) (sq_sort q)))]
          else []))"

section \<open>The base class\<close>

text \<open>The two operations a backend defines; the other two have a default.\<close>

record ('d, 's) search_backend =
  bk_index :: "string \<Rightarrow> 'd \<Rightarrow> ('s, unit result) eff"
  bk_search :: "search_query \<Rightarrow> ('s, ('d search_hit list \<times> nat) result) eff"

fun bulk_index_each ::
  "('d, 's) search_backend \<Rightarrow> (string \<times> 'd) list \<Rightarrow> nat \<Rightarrow> bulk_index_error list
     \<Rightarrow> ('s, bulk_index_result result) eff" where
  "bulk_index_each B [] indexed errors =
     eret (result_success \<lparr>bx_indexed = indexed, bx_failed = length errors, bx_errors = errors\<rparr> [])"
| "bulk_index_each B ((doc_id, document) # rest) indexed errors =
     ebind (bk_index B doc_id document) (\<lambda>result.
       case result of
         Failure e md \<Rightarrow>
           bulk_index_each B rest indexed (errors @ [\<lparr>be_doc_id = doc_id, be_error = err_message e\<rparr>])
       | Success u md \<Rightarrow> bulk_index_each B rest (indexed + 1) errors)"

definition bulk_index_default ::
  "('d, 's) search_backend \<Rightarrow> (string \<times> 'd) list \<Rightarrow> ('s, bulk_index_result result) eff" where
  "bulk_index_default B docs = bulk_index_each B docs 0 []"

type_synonym ('s, 'a) bounded = "'s \<Rightarrow> ((exn + 'a) \<times> 's) option"

fun scroll_pages ::
  "('d, 's) search_backend \<Rightarrow> search_query \<Rightarrow> int \<Rightarrow> ('d search_hit list \<Rightarrow> ('s, unit) eff)
     \<Rightarrow> nat \<Rightarrow> int \<Rightarrow> ('s, unit) bounded" where
  "scroll_pages B q per_page yld 0 page s = None"
| "scroll_pages B q per_page yld (Suc n) page s =
     (case bk_search B (q\<lparr>sq_page := page, sq_page_size := per_page\<rparr>) s of
        (Inl e, s1) \<Rightarrow> Some (Inl e, s1)
      | (Inr (Failure e md), s1) \<Rightarrow> Some (Inl (as_exception e), s1)
      | (Inr (Success (hits, ttl) md), s1) \<Rightarrow>
          (if hits = [] then Some (Inr (), s1)
           else case yld hits s1 of
                  (Inl e, s2) \<Rightarrow> Some (Inl e, s2)
                | (Inr u, s2) \<Rightarrow>
                    (if int (length hits) < per_page then Some (Inr (), s2)
                     else scroll_pages B q per_page yld n (page + 1) s2)))"

definition scroll_default ::
  "('d, 's) search_backend \<Rightarrow> search_query \<Rightarrow> int \<Rightarrow> ('d search_hit list \<Rightarrow> ('s, unit) eff)
     \<Rightarrow> nat \<Rightarrow> ('s, unit) bounded" where
  "scroll_default B q per_page yld n = scroll_pages B q per_page yld n 1"

section \<open>OpenSearch\<close>

record raw_hit =
  rh_source :: dict
  rh_score :: "rat option"

record search_response =
  sp_hits :: "raw_hit list"
  sp_total :: nat
  sp_scroll_id :: string

text \<open>An item of a bulk response under its key \<open>index\<close>.\<close>

record bulk_item =
  bi_id :: "string option"
  bi_status :: "int option"
  bi_reason :: "string option"

record bulk_response =
  bp_errors :: bool
  bp_items :: "bulk_item list"

datatype bulk_action = BulkHeader string string | BulkBody dict

record 's opensearch =
  os_index :: "string \<Rightarrow> string \<Rightarrow> dict \<Rightarrow> ('s, unit) eff"
  os_delete :: "string \<Rightarrow> string \<Rightarrow> ('s, unit) eff"
  os_search :: "string \<Rightarrow> dict \<Rightarrow> int \<Rightarrow> int \<Rightarrow> ('s, search_response) eff"
  os_open :: "string \<Rightarrow> dict \<Rightarrow> int \<Rightarrow> ('s, search_response) eff"
  os_scroll :: "string \<Rightarrow> ('s, search_response) eff"
  os_clear :: "string \<Rightarrow> ('s, unit) eff"
  os_bulk :: "bulk_action list \<Rightarrow> ('s, bulk_response) eff"
  os_not_found :: "exn \<Rightarrow> bool"
  os_transport :: "exn \<Rightarrow> bool"

record ('d, 's) search_repo =
  sr_client :: "'s opensearch"
  sr_index :: string
  sr_serialize :: "'d \<Rightarrow> dict"
  sr_deserialize :: "dict \<Rightarrow> exn + 'd"

definition search_error :: "string \<Rightarrow> string \<Rightarrow> exn \<Rightarrow> error" where
  "search_error code msg e = Error InfrastructureError code (msg @ exn_str e) [] (Some e)"

definition repo_index :: "('d, 's) search_repo \<Rightarrow> string \<Rightarrow> 'd \<Rightarrow> ('s, unit result) eff" where
  "repo_index R doc_id document s =
     (case os_index (sr_client R) (sr_index R) doc_id (sr_serialize R document) s of
        (Inr u, s1) \<Rightarrow> (Inr (result_success () []), s1)
      | (Inl e, s1) \<Rightarrow>
          (if os_transport (sr_client R) e
           then (Inr (result_failure (search_error ''search.index_failed''
             (''failed to index document '' @ doc_id @ '': '') e) []), s1)
           else (Inl e, s1)))"

definition repo_delete :: "('d, 's) search_repo \<Rightarrow> string \<Rightarrow> ('s, unit result) eff" where
  "repo_delete R doc_id s =
     (case os_delete (sr_client R) (sr_index R) doc_id s of
        (Inr u, s1) \<Rightarrow> (Inr (result_success () []), s1)
      | (Inl e, s1) \<Rightarrow>
          (if os_not_found (sr_client R) e then (Inr (result_success () []), s1)
           else if os_transport (sr_client R) e
           then (Inr (result_failure (search_error ''search.delete_failed''
             (''failed to delete document '' @ doc_id @ '': '') e) []), s1)
           else (Inl e, s1)))"

definition hit_of :: "('d, 's) search_repo \<Rightarrow> raw_hit \<Rightarrow> exn + 'd search_hit" where
  "hit_of R h = map_sum id (\<lambda>d. \<lparr>sh_doc = d, sh_score = get_or (rh_score h) 0, sh_source = rh_source h\<rparr>)
     (sr_deserialize R (rh_source h))"

fun hits_of :: "('d, 's) search_repo \<Rightarrow> raw_hit list \<Rightarrow> exn + 'd search_hit list" where
  "hits_of R [] = Inr []"
| "hits_of R (h # hs) =
     (case hit_of R h of Inl e \<Rightarrow> Inl e | Inr x \<Rightarrow> map_sum id (\<lambda>xs. x # xs) (hits_of R hs))"

definition repo_search ::
  "('d, 's) search_repo \<Rightarrow> search_query \<Rightarrow> ('s, ('d search_hit list \<times> nat) result) eff" where
  "repo_search R q s =
     (case os_search (sr_client R) (sr_index R) (build_dsl q) ((sq_page q - 1) * sq_page_size q) (sq_page_size q) s of
        (Inl e, s1) \<Rightarrow>
          (if os_transport (sr_client R) e
           then (Inr (result_failure (search_error ''search.query_failed'' ''search query failed: '' e) []), s1)
           else (Inl e, s1))
      | (Inr resp, s1) \<Rightarrow>
          (map_sum id (\<lambda>hits. result_success (hits, sp_total resp) []) (hits_of R (sp_hits resp)), s1))"

text \<open>The slices \<open>xs[i : i + n]\<close> for \<open>i\<close> in \<open>range(0, len(xs), n)\<close>.\<close>

function chunks :: "nat \<Rightarrow> 'a list \<Rightarrow> 'a list list" where
  "chunks n xs = (if n = 0 \<or> xs = [] then [] else take n xs # chunks n (drop n xs))"
  by pat_completeness auto
termination by (relation "measure (\<lambda>(n, xs). length xs)") auto

declare chunks.simps [simp del]

definition bulk_actions :: "('d, 's) search_repo \<Rightarrow> (string \<times> 'd) list \<Rightarrow> bulk_action list" where
  "bulk_actions R batch =
     concat (map (\<lambda>(doc_id, document).
       [BulkHeader (sr_index R) doc_id, BulkBody (sr_serialize R document)]) batch)"

definition item_failed :: "bulk_item \<Rightarrow> bool" where
  "item_failed it \<longleftrightarrow> 400 \<le> get_or (bi_status it) 200"

definition item_error :: "bulk_item \<Rightarrow> bulk_index_error" where
  "item_error it =
     \<lparr>be_doc_id = get_or (bi_id it) ''unknown'', be_error = get_or (bi_reason it) ''unknown error''\<rparr>"

fun bulk_batches ::
  "('d, 's) search_repo \<Rightarrow> (string \<times> 'd) list list \<Rightarrow> nat \<Rightarrow> bulk_index_error list
     \<Rightarrow> ('s, bulk_index_result result) eff" where
  "bulk_batches R [] indexed errors s =
     (Inr (result_success \<lparr>bx_indexed = indexed, bx_failed = length errors, bx_errors = errors\<rparr> []), s)"
| "bulk_batches R (batch # rest) indexed errors s =
     (case os_bulk (sr_client R) (bulk_actions R batch) s of
        (Inl e, s1) \<Rightarrow>
          (if os_transport (sr_client R) e
           then (Inr (result_failure (search_error ''search.bulk_failed'' ''bulk index failed: '' e) []), s1)
           else (Inl e, s1))
      | (Inr resp, s1) \<Rightarrow>
          (if bp_errors resp
           then bulk_batches R rest
             (indexed + length (filter (\<lambda>it. \<not> item_failed it) (bp_items resp)))
             (errors @ map item_error (filter item_failed (bp_items resp))) s1
           else bulk_batches R rest (indexed + length batch) errors s1))"

definition repo_bulk_index ::
  "('d, 's) search_repo \<Rightarrow> (string \<times> 'd) list \<Rightarrow> int \<Rightarrow> ('s, bulk_index_result result) eff" where
  "repo_bulk_index R docs batch_size =
     (if batch_size = 0 then eraise (PyException ''ValueError'' ''range() arg 3 must not be zero'')
      else bulk_batches R (chunks (nat batch_size) docs) 0 [])"

definition scroll_failed :: "string \<Rightarrow> exn \<Rightarrow> exn" where
  "scroll_failed what e = as_exception (search_error ''search.scroll_failed'' what e)"

text \<open>The loop of \<open>scroll\<close> gives the id that the \<open>finally\<close> block clears.\<close>

fun scroll_loop ::
  "('d, 's) search_repo \<Rightarrow> ('d search_hit list \<Rightarrow> ('s, unit) eff) \<Rightarrow> nat \<Rightarrow> search_response
     \<Rightarrow> 's \<Rightarrow> (((exn + unit) \<times> string) \<times> 's) option" where
  "scroll_loop R yld 0 resp s = None"
| "scroll_loop R yld (Suc n) resp s =
     (if sp_hits resp = [] then Some ((Inr (), sp_scroll_id resp), s)
      else case ebind (elift (hits_of R (sp_hits resp))) yld s of
             (Inl e, s1) \<Rightarrow> Some ((Inl e, sp_scroll_id resp), s1)
           | (Inr u, s1) \<Rightarrow>
               (case os_scroll (sr_client R) (sp_scroll_id resp) s1 of
                  (Inl e, s2) \<Rightarrow> Some ((Inl (if os_transport (sr_client R) e
                      then scroll_failed ''scroll continuation failed: '' e else e), sp_scroll_id resp), s2)
                | (Inr resp', s2) \<Rightarrow> scroll_loop R yld n resp' s2))"

definition clear_scroll :: "('d, 's) search_repo \<Rightarrow> string \<Rightarrow> ('s, unit) eff" where
  "clear_scroll R scroll_id = etry (os_clear (sr_client R) scroll_id) (\<lambda>e. eret ())"

definition repo_scroll ::
  "('d, 's) search_repo \<Rightarrow> search_query \<Rightarrow> int \<Rightarrow> ('d search_hit list \<Rightarrow> ('s, unit) eff)
     \<Rightarrow> nat \<Rightarrow> ('s, unit) bounded" where
  "repo_scroll R q batch_size yld n s =
     (case os_open (sr_client R) (sr_index R) (build_dsl q) batch_size s of
        (Inl e, s1) \<Rightarrow> Some (Inl (if os_transport (sr_client R) e
            then scroll_failed ''scroll initialisation failed: '' e else e), s1)
      | (Inr resp, s1) \<Rightarrow>
          (case scroll_loop R yld n resp s1 of
             None \<Rightarrow> None
           | Some ((out, scroll_id), s2) \<Rightarrow> Some (ebind (clear_scroll R scroll_id) (\<lambda>_. elift out) s2)))"

definition repo_backend :: "('d, 's) search_repo \<Rightarrow> ('d, 's) search_backend" where
  "repo_backend R = \<lparr>bk_index = repo_index R, bk_search = repo_search R\<rparr>"

section \<open>Index lifecycle\<close>

definition ensure_index ::
  "(string \<Rightarrow> ('s, bool) eff) \<Rightarrow> (string \<Rightarrow> dict \<Rightarrow> ('s, unit) eff) \<Rightarrow> string \<Rightarrow> dict option \<Rightarrow> dict option
     \<Rightarrow> ('s, bool) eff" where
  "ensure_index exists_index create name index_settings mappings =
     ebind (exists_index name) (\<lambda>there.
       if there then eret False
       else ebind (create name
              ((case index_settings of Some d \<Rightarrow> if d = [] then [] else [(''settings'', JObj d)] | None \<Rightarrow> [])
               @ (case mappings of Some d \<Rightarrow> if d = [] then [] else [(''mappings'', JObj d)] | None \<Rightarrow> [])))
            (\<lambda>_. eret True))"

definition drop_index ::
  "(string \<Rightarrow> ('s, bool) eff) \<Rightarrow> (string \<Rightarrow> ('s, unit) eff) \<Rightarrow> string \<Rightarrow> ('s, bool) eff" where
  "drop_index exists_index remove name =
     ebind (exists_index name) (\<lambda>there.
       if \<not> there then eret False else ebind (remove name) (\<lambda>_. eret True))"

section \<open>The in-memory repository\<close>

text \<open>
  A dictionary keeps the place of a key that is set again. \<open>rank\<close> orders the values of a field, so a
  comparison that raises \<open>TypeError\<close> is left out.
\<close>

type_synonym 'd mem_store = "(string \<times> 'd \<times> dict) list"

definition json_number :: "json \<Rightarrow> rat option" where
  "json_number j = (case j of
     JBool b \<Rightarrow> Some (if b then 1 else 0) | JInt n \<Rightarrow> Some (of_int n) | JFloat q \<Rightarrow> Some q | _ \<Rightarrow> None)"

definition json_eq :: "json \<Rightarrow> json \<Rightarrow> bool" where
  "json_eq a b \<longleftrightarrow> (case (json_number a, json_number b) of (Some x, Some y) \<Rightarrow> x = y | _ \<Rightarrow> a = b)"

definition matches_filters :: "dict \<Rightarrow> search_query \<Rightarrow> bool" where
  "matches_filters source q \<longleftrightarrow> list_all (\<lambda>(k, v). json_eq (get_or (map_of source k) JNull) v) (sq_filters q)"

definition text_score :: "dict \<Rightarrow> search_query \<Rightarrow> rat" where
  "text_score source q =
     (case search_text q of
        None \<Rightarrow> 1
      | Some t \<Rightarrow> of_nat (length (filter (\<lambda>(k, v). case v of
          JStr s \<Rightarrow> py_contains (py_lower s) (py_lower t) | _ \<Rightarrow> False) source)))"

text \<open>\<open>list.sort(key=k, reverse=desc)\<close> is stable in both directions.\<close>

definition stable_sort :: "bool \<Rightarrow> ('a \<Rightarrow> 'k::linorder) \<Rightarrow> 'a list \<Rightarrow> 'a list" where
  "stable_sort desc k xs = (if desc then rev (sort_key k (rev xs)) else sort_key k xs)"

definition mem_order ::
  "(json \<Rightarrow> 'k::linorder) \<Rightarrow> search_query \<Rightarrow> 'd search_hit list \<Rightarrow> 'd search_hit list" where
  "mem_order rank q hits =
     (if sq_sort q \<noteq> []
      then fold (\<lambda>(field, dir). stable_sort (py_lower dir = ''desc'')
             (\<lambda>h. rank (get_or (map_of (sh_source h) field) (JStr [])))) (rev (sq_sort q)) hits
      else stable_sort True sh_score hits)"

definition mem_hits ::
  "(json \<Rightarrow> 'k::linorder) \<Rightarrow> search_query \<Rightarrow> 'd mem_store \<Rightarrow> 'd search_hit list" where
  "mem_hits rank q store =
     mem_order rank q (concat (map (\<lambda>(doc_id, doc, source).
       if matches_filters source q \<and> \<not> (search_text q \<noteq> None \<and> text_score source q = 0)
       then [\<lparr>sh_doc = doc, sh_score = text_score source q, sh_source = source\<rparr>] else []) store))"

text \<open>\<open>xs[lo:hi]\<close>, with negative bounds counted from the end.\<close>

definition py_slice :: "int \<Rightarrow> int \<Rightarrow> 'a list \<Rightarrow> 'a list" where
  "py_slice lo hi xs =
     (let n = int (length xs); pos = (\<lambda>i. nat (if i < 0 then max 0 (n + i) else min n i))
      in take (pos hi - pos lo) (drop (pos lo) xs))"

definition mem_index :: "('d \<Rightarrow> dict) \<Rightarrow> string \<Rightarrow> 'd \<Rightarrow> ('d mem_store \<times> 'c, unit result) eff" where
  "mem_index to_dict doc_id document =
     ebind (on_fst (emodify (AList.update doc_id (document, to_dict document)))) (\<lambda>_. eret (result_success () []))"

definition mem_delete :: "string \<Rightarrow> ('d mem_store \<times> 'c, unit result) eff" where
  "mem_delete doc_id = ebind (on_fst (emodify (AList.delete doc_id))) (\<lambda>_. eret (result_success () []))"

definition mem_bulk_index ::
  "('d \<Rightarrow> dict) \<Rightarrow> (string \<times> 'd) list \<Rightarrow> ('d mem_store \<times> 'c, bulk_index_result result) eff" where
  "mem_bulk_index to_dict docs =
     ebind (on_fst (emodify (fold (\<lambda>(i, d). AList.update i (d, to_dict d)) docs))) (\<lambda>_.
       eret (result_success \<lparr>bx_indexed = length docs, bx_failed = 0, bx_errors = []\<rparr> []))"

definition mem_search ::
  "(json \<Rightarrow> 'k::linorder) \<Rightarrow> search_query \<Rightarrow> ('d mem_store \<times> 'c, ('d search_hit list \<times> nat) result) eff" where
  "mem_search rank q st =
     (let hits = mem_hits rank q (fst st); off = (sq_page q - 1) * sq_page_size q
      in (Inr (result_success (py_slice off (off + sq_page_size q) hits, length hits) []), st))"

definition mem_scroll ::
  "(json \<Rightarrow> 'k::linorder) \<Rightarrow> search_query \<Rightarrow> int \<Rightarrow> ('d search_hit list \<Rightarrow> ('d mem_store \<times> 'c, unit) eff)
     \<Rightarrow> ('d mem_store \<times> 'c, unit) eff" where
  "mem_scroll rank q batch_size yld st =
     (if batch_size = 0 then (Inl (PyException ''ValueError'' ''range() arg 3 must not be zero''), st)
      else efold yld (chunks (nat batch_size) (mem_hits rank q (fst st))) st)"

definition mem_backend ::
  "('d \<Rightarrow> dict) \<Rightarrow> (json \<Rightarrow> 'k::linorder) \<Rightarrow> ('d, 'd mem_store \<times> 'c) search_backend" where
  "mem_backend to_dict rank = \<lparr>bk_index = mem_index to_dict, bk_search = mem_search rank\<rparr>"

section \<open>Paging\<close>

lemma chunks_Nil [simp]: "chunks n [] = []"
  by (simp add: chunks.simps)

lemma chunks_Cons: "0 < n \<Longrightarrow> xs \<noteq> [] \<Longrightarrow> chunks n xs = take n xs # chunks n (drop n xs)"
  by (simp add: chunks.simps [of n xs])

lemma concat_chunks: "0 < n \<Longrightarrow> concat (chunks n xs) = xs"
proof (induction n xs rule: chunks.induct)
  case (1 n xs)
  then show ?case by (cases "xs = []") (simp_all add: chunks_Cons)
qed

lemma py_slice_page:
  "0 \<le> off \<Longrightarrow> 0 \<le> n \<Longrightarrow> py_slice off (off + n) xs = take (nat n) (drop (nat off) xs)"
proof -
  assume o: "0 \<le> off" and n: "0 \<le> n"
  let ?l = "length xs"
  have "nat (min (int ?l) (off + n)) - nat (min (int ?l) off) = (if nat off \<le> ?l then min (?l - nat off) (nat n) else 0)"
    using o n by auto
  with o n show ?thesis
    by (cases "nat off \<le> ?l") (auto simp: py_slice_def Let_def min_def nat_add_distrib)
qed

lemma scroll_pages_mem:
  assumes keep: "\<And>b. ekeeps fst (yld b)" and per: "0 < per" and p: "1 \<le> page"
    and n: "length (drop (nat ((page - 1) * per)) (mem_hits rank q (fst st))) < n"
  shows "scroll_pages (mem_backend to_dict rank) q per yld n page st =
    Some (efold yld (chunks (nat per) (drop (nat ((page - 1) * per)) (mem_hits rank q (fst st)))) st)"
  using p n
proof (induction n arbitrary: page st)
  case (Suc n)
  let ?hits = "mem_hits rank q (fst st)"
  define r where "r = drop (nat ((page - 1) * per)) ?hits"
  have off: "0 \<le> (page - 1) * per" using Suc.prems(1) per by simp
  have same: "mem_hits rank (q\<lparr>sq_page := page, sq_page_size := per\<rparr>) = mem_hits rank q"
    by (rule ext) (simp add: mem_hits_def mem_order_def matches_filters_def text_score_def search_text_def
        cong: if_cong)
  have s: "bk_search (mem_backend to_dict rank) (q\<lparr>sq_page := page, sq_page_size := per\<rparr>) st =
      (Inr (Success (take (nat per) r, length ?hits) []), st)"
    unfolding r_def using py_slice_page [OF off, of per ?hits] per
    by (simp add: mem_backend_def mem_search_def Let_def same result_success_def)
  have "scroll_pages (mem_backend to_dict rank) q per yld (Suc n) page st =
      Some (efold yld (chunks (nat per) r) st)"
  proof (cases "r = []")
    case True
    then show ?thesis using s by simp
  next
    case False
    then have hit: "take (nat per) r \<noteq> []" using per by simp
    obtain x st1 where y: "yld (take (nat per) r) st = (x, st1)" by (rule prod.exhaust)
    have st1: "fst st1 = fst st" using ekeepsD [OF keep y] .
    show ?thesis
    proof (cases x)
      case (Inl e)
      with s y hit False per show ?thesis by (simp add: chunks_Cons ebind_def)
    next
      case (Inr u)
      have next_rest: "drop (nat per) r = drop (nat ((page + 1 - 1) * per)) (mem_hits rank q (fst st1))"
        using off per by (simp add: r_def st1 nat_add_distrib [symmetric] algebra_simps)
      show ?thesis
      proof (cases "length r < nat per")
        case True
        then have "drop (nat per) r = []" "int (length (take (nat per) r)) < per" by auto
        with s y hit False per Inr show ?thesis by (simp add: chunks_Cons ebind_def)
      next
        case len: False
        then have "length (drop (nat per) r) < n"
          using Suc.prems(2) per False unfolding r_def [symmetric] by (cases r) auto
        then have "scroll_pages (mem_backend to_dict rank) q per yld n (page + 1) st1 =
            Some (efold yld (chunks (nat per) (drop (nat per) r)) st1)"
          using Suc.IH [of "page + 1" st1] Suc.prems(1) unfolding next_rest by simp
        moreover have "\<not> int (length (take (nat per) r)) < per" using len by simp
        ultimately show ?thesis using s y hit False per Inr by (simp add: chunks_Cons ebind_def)
      qed
    qed
  qed
  then show ?case unfolding r_def .
qed simp

section \<open>A server with scroll contexts\<close>

text \<open>
  \<open>cursor\<close> gives the open contexts with the documents still to come. A page of a context moves it, its
  id may change, and clearing removes it.
\<close>

locale scroll_server =
  fixes C :: "'s opensearch"
    and matching :: "string \<Rightarrow> dict \<Rightarrow> 's \<Rightarrow> raw_hit list"
    and cursor :: "'s \<Rightarrow> string \<Rightarrow> (raw_hit list \<times> nat) option"
  assumes open_ok: "os_open C idx dsl n s = (Inr r, s') \<Longrightarrow> 0 < n \<Longrightarrow>
      sp_hits r = take (nat n) (matching idx dsl s) \<and> cursor s (sp_scroll_id r) = None \<and>
      cursor s' = (cursor s)(sp_scroll_id r \<mapsto> (drop (nat n) (matching idx dsl s), nat n))"
    and open_err: "os_open C idx dsl n s = (Inl e, s') \<Longrightarrow> cursor s' = cursor s"
    and page_ok: "os_scroll C i s = (Inr r, s') \<Longrightarrow> cursor s i = Some (rest, k) \<Longrightarrow>
      sp_hits r = take k rest \<and> (sp_scroll_id r = i \<or> cursor s (sp_scroll_id r) = None) \<and>
      cursor s' = (cursor s)(i := None, sp_scroll_id r \<mapsto> (drop k rest, k))"
    and page_err: "os_scroll C i s = (Inl e, s') \<Longrightarrow> cursor s' = cursor s"
    and clear_ok: "os_clear C i s = (Inr (), s') \<Longrightarrow> cursor s' = (cursor s)(i := None)"
    and clear_err: "os_clear C i s = (Inl e, s') \<Longrightarrow> cursor s' = cursor s \<or> cursor s' = (cursor s)(i := None)"
begin

text \<open>The contexts afterwards are those before, but for the one whose clearing failed.\<close>

definition released :: "'s \<Rightarrow> 's \<Rightarrow> bool" where
  "released s s' \<longleftrightarrow> cursor s' = cursor s \<or>
     (\<exists>i c s2 e. cursor s i = None \<and> cursor s' = (cursor s)(i \<mapsto> c) \<and> os_clear C i s2 = (Inl e, s'))"

lemma fun_upd_back: "f i = None \<Longrightarrow> (f(i \<mapsto> a))(i := None) = f"
  by auto

text \<open>Whatever ends the loop, the id it gives is that of the one context it holds.\<close>

lemma scroll_loop_cursor:
  assumes keep: "\<And>b. ekeeps cursor (yld b)" and C: "sr_client R = C"
    and held: "cursor s = base(sp_scroll_id resp \<mapsto> (rest, k))" "base (sp_scroll_id resp) = None"
    and k: "0 < k" and hits: "rest = [] \<or> sp_hits resp \<noteq> []" and n: "length rest + 1 < n"
  shows "\<exists>x i s'. scroll_loop R yld n resp s = Some ((x, i), s') \<and> (cursor s')(i := None) = base"
  using held hits n
proof (induction n arbitrary: resp s rest)
  case (Suc n)
  have closed: "(cursor s)(sp_scroll_id resp := None) = base"
    unfolding Suc.prems(1) using Suc.prems(2) by (rule fun_upd_back)
  show ?case
  proof (cases "sp_hits resp = []")
    case True
    then have "scroll_loop R yld (Suc n) resp s = Some ((Inr (), sp_scroll_id resp), s)" by simp
    with closed show ?thesis by blast
  next
    case False
    obtain x s1 where y: "ebind (elift (hits_of R (sp_hits resp))) yld s = (x, s1)" by (rule prod.exhaust)
    have "ekeeps cursor (ebind (elift (hits_of R (sp_hits resp))) yld)"
      by (intro ekeeps_bind keep) (simp add: ekeeps_def)
    from ekeepsD [OF this y] have c1: "cursor s1 = cursor s" .
    show ?thesis
    proof (cases x)
      case (Inl e)
      with y False have "scroll_loop R yld (Suc n) resp s = Some ((Inl e, sp_scroll_id resp), s1)" by simp
      with closed c1 show ?thesis by metis
    next
      case (Inr u)
      obtain z s2 where z: "os_scroll C (sp_scroll_id resp) s1 = (z, s2)" by (rule prod.exhaust)
      show ?thesis
      proof (cases z)
        case (Inl e)
        with y z False \<open>x = Inr u\<close> C have "\<exists>o'. scroll_loop R yld (Suc n) resp s = Some ((o', sp_scroll_id resp), s2)"
          by simp
        moreover have "cursor s2 = cursor s" using page_err [OF z [unfolded Inl]] c1 by simp
        ultimately show ?thesis using closed by metis
      next
        case (Inr r)
        have at: "cursor s1 (sp_scroll_id resp) = Some (rest, k)" using c1 Suc.prems(1) by simp
        note p = page_ok [OF z [unfolded Inr] at]
        have b: "cursor s2 = base(sp_scroll_id r \<mapsto> (drop k rest, k))" "base (sp_scroll_id r) = None"
        proof -
          have "(cursor s1)(sp_scroll_id resp := None) = base" using closed c1 by simp
          then show "cursor s2 = base(sp_scroll_id r \<mapsto> (drop k rest, k))" using p by simp
          show "base (sp_scroll_id r) = None"
            using p c1 Suc.prems(1,2) by (cases "sp_scroll_id r = sp_scroll_id resp") auto
        qed
        have h: "drop k rest = [] \<or> sp_hits r \<noteq> []" using p k by (cases rest) auto
        show ?thesis
        proof (cases "rest = []")
          case True
          then have "sp_hits r = []" using p by simp
          moreover obtain n' where "n = Suc n'" using Suc.prems(4) by (cases n) auto
          moreover have ctx: "(cursor s2)(sp_scroll_id r := None) = base"
            unfolding b(1) using b(2) by (rule fun_upd_back)
          ultimately have "scroll_loop R yld (Suc n) resp s = Some ((Inr (), sp_scroll_id r), s2)"
            using y z False \<open>x = Inr u\<close> Inr C by simp
          with ctx show ?thesis by blast
        next
          case rest: False
          then have "length (drop k rest) + 1 < n" using Suc.prems(4) k by (cases rest) auto
          from Suc.IH [OF b h this] show ?thesis using y z False \<open>x = Inr u\<close> Inr C by simp
        qed
      qed
    qed
  qed
qed simp

lemma scroll_no_leak:
  assumes "\<And>b. ekeeps cursor (yld b)" "sr_client R = C" "0 < batch_size"
    and "length (matching (sr_index R) (build_dsl q) s) + 1 < n"
  shows "\<exists>x s'. repo_scroll R q batch_size yld n s = Some (x, s') \<and> released s s'"
proof -
  obtain z s1 where z: "os_open C (sr_index R) (build_dsl q) batch_size s = (z, s1)" by (rule prod.exhaust)
  show ?thesis
  proof (cases z)
    case (Inl e)
    with z open_err [OF z [unfolded Inl]] assms(2) show ?thesis by (simp add: repo_scroll_def released_def)
  next
    case (Inr r)
    let ?m = "matching (sr_index R) (build_dsl q) s"
    note p = open_ok [OF z [unfolded Inr] assms(3)]
    have h: "drop (nat batch_size) ?m = [] \<or> sp_hits r \<noteq> []" using p assms(3) by (cases ?m) auto
    have k: "0 < nat batch_size" using assms(3) by simp
    have n: "length (drop (nat batch_size) ?m) + 1 < n" using assms(4) by simp
    from p have c: "cursor s1 = (cursor s)(sp_scroll_id r \<mapsto> (drop (nat batch_size) ?m, nat batch_size))"
      "cursor s (sp_scroll_id r) = None" by auto
    obtain x i s2 where l: "scroll_loop R yld n r s1 = Some ((x, i), s2)" "(cursor s2)(i := None) = cursor s"
      using scroll_loop_cursor [where yld = yld, OF assms(1,2) c k h n] by blast
    obtain w s3 where w: "os_clear C i s2 = (w, s3)" by (rule prod.exhaust)
    have "\<exists>x'. ebind (clear_scroll R i) (\<lambda>_. elift x) s2 = (x', s3)"
      using w assms(2) by (cases w) (auto simp: clear_scroll_def etry_def ebind_def)
    moreover have "released s s3"
    proof (cases w)
      case (Inr u)
      with clear_ok w l(2) show ?thesis by (simp add: released_def)
    next
      case (Inl e)
      have i: "cursor s i = None" using l(2) by (metis fun_upd_same)
      from clear_err [OF w [unfolded Inl]] show ?thesis
      proof (elim disjE)
        assume s3: "cursor s3 = cursor s2"
        show ?thesis
        proof (cases "cursor s2 i")
          case None
          then have "cursor s2 = cursor s" using l(2) by (metis fun_upd_triv)
          with s3 show ?thesis by (simp add: released_def)
        next
          case (Some c)
          then have "cursor s3 = (cursor s)(i \<mapsto> c)" using l(2) s3 by (metis fun_upd_triv fun_upd_upd)
          with i w Inl show ?thesis unfolding released_def by blast
        qed
      qed (simp add: released_def l(2))
    qed
    ultimately show ?thesis using z Inr l(1) assms(2) by (auto simp: repo_scroll_def)
  qed
qed

end

context scroll_server
begin

text \<open>A server that answers and a consumer that stores every batch.\<close>

definition scroll_answers :: "('s \<Rightarrow> 'b list) \<Rightarrow> bool" where
  "scroll_answers seen \<longleftrightarrow>
     (\<forall>idx dsl n s. \<exists>r s'. os_open C idx dsl n s = (Inr r, s') \<and> seen s' = seen s) \<and>
     (\<forall>i s. \<exists>r s'. os_scroll C i s = (Inr r, s') \<and> seen s' = seen s) \<and>
     (\<forall>i s r s'. os_clear C i s = (r, s') \<longrightarrow> seen s' = seen s \<and> (\<forall>e. r = Inl e \<longrightarrow> is_exception e))"

definition collects :: "('s \<Rightarrow> 'b list) \<Rightarrow> ('b \<Rightarrow> ('s, unit) eff) \<Rightarrow> bool" where
  "collects seen yld \<longleftrightarrow>
     (\<forall>b s. \<exists>s'. yld b s = (Inr (), s') \<and> seen s' = seen s @ [b] \<and> cursor s' = cursor s)"

lemma collects_keeps: "collects seen yld \<Longrightarrow> ekeeps cursor (yld b)"
  unfolding collects_def ekeeps_def by (metis snd_conv)

lemma hits_of_map: "(\<And>x. hit_of R x = Inr (h x)) \<Longrightarrow> hits_of R xs = Inr (map h xs)"
  by (induction xs) auto

lemma scroll_loop_complete:
  assumes up: "scroll_answers seen" "collects seen yld" "sr_client R = C" and h: "\<And>x. hit_of R x = Inr (h x)"
    and k: "0 < k"
    and held: "sp_hits resp = take k rows" "cursor s (sp_scroll_id resp) = Some (drop k rows, k)"
    and n: "length rows < n"
  shows "\<exists>i s'. scroll_loop R yld n resp s = Some ((Inr (), i), s') \<and> seen s' = seen s @ chunks k (map h rows)"
  using held n
proof (induction n arbitrary: resp s rows)
  case (Suc n)
  show ?case
  proof (cases "rows = []")
    case True
    with Suc.prems show ?thesis by simp
  next
    case False
    obtain s1 where y: "yld (map h (take k rows)) s = (Inr (), s1)" "seen s1 = seen s @ [map h (take k rows)]"
      "cursor s1 = cursor s" using up(2) unfolding collects_def by blast
    obtain r s2 where z: "os_scroll C (sp_scroll_id resp) s1 = (Inr r, s2)" "seen s2 = seen s1"
      using up(1) unfolding scroll_answers_def by blast
    have "cursor s1 (sp_scroll_id resp) = Some (drop k rows, k)" using y(3) Suc.prems(2) by simp
    note p = page_ok [OF z(1) this]
    have "sp_hits r = take k (drop k rows)" "cursor s2 (sp_scroll_id r) = Some (drop k (drop k rows), k)"
      using p by auto
    moreover have "length (drop k rows) < n" using Suc.prems(3) k False by (cases rows) auto
    ultimately obtain i s' where
      l: "scroll_loop R yld n r s2 = Some ((Inr (), i), s')"
      "seen s' = seen s2 @ chunks k (map h (drop k rows))" using Suc.IH [of r "drop k rows" s2] by blast
    have "scroll_loop R yld (Suc n) resp s = Some ((Inr (), i), s')"
      using l(1) z(1) y(1) False k Suc.prems(1) up(3) hits_of_map [of R h, OF h] by (simp add: ebind_def)
    moreover have "seen s' = seen s @ chunks k (map h rows)"
      using l(2) z(2) y(2) False k by (simp add: chunks_Cons take_map drop_map)
    ultimately show ?thesis by blast
  qed
qed simp

lemma scroll_complete_run:
  assumes up: "scroll_answers seen" "collects seen yld" "sr_client R = C" and h: "\<And>x. hit_of R x = Inr (h x)"
    and k: "0 < batch_size" and n: "length (matching (sr_index R) (build_dsl q) s) < n"
  shows "\<exists>s'. repo_scroll R q batch_size yld n s = Some (Inr (), s') \<and>
    seen s' = seen s @ chunks (nat batch_size) (map h (matching (sr_index R) (build_dsl q) s))"
proof -
  let ?m = "matching (sr_index R) (build_dsl q) s"
  obtain r s1 where o: "os_open C (sr_index R) (build_dsl q) batch_size s = (Inr r, s1)" "seen s1 = seen s"
    using up(1) unfolding scroll_answers_def by blast
  from open_ok [OF o(1) k] have held: "sp_hits r = take (nat batch_size) ?m"
    "cursor s1 (sp_scroll_id r) = Some (drop (nat batch_size) ?m, nat batch_size)" by auto
  have k': "0 < nat batch_size" using k by simp
  obtain i s2 where l: "scroll_loop R yld n r s1 = Some ((Inr (), i), s2)"
    "seen s2 = seen s1 @ chunks (nat batch_size) (map h ?m)"
    using scroll_loop_complete [of seen yld R h, OF up h k' held n] by blast
  obtain w s3 where c: "os_clear C i s2 = (w, s3)" by (rule prod.exhaust)
  then have w: "seen s3 = seen s2" "\<And>e. w = Inl e \<Longrightarrow> is_exception e"
    using up(1) unfolding scroll_answers_def by blast+
  moreover have "repo_scroll R q batch_size yld n s = Some (Inr (), s3)"
    using o(1) l(1) c up(3) w(2) by (cases w) (simp_all add: repo_scroll_def clear_scroll_def etry_def ebind_def)
  ultimately show ?thesis using l(2) o(2) by simp
qed

end

section \<open>A server that judges documents one by one\<close>

locale bulk_server =
  fixes C :: "'s opensearch" and verdict :: "string \<Rightarrow> string \<Rightarrow> dict \<Rightarrow> string option"
  assumes index_ok: "verdict idx i body = None \<Longrightarrow> \<exists>s'. os_index C idx i body s = (Inr (), s')"
    and index_bad: "verdict idx i body = Some why \<Longrightarrow>
      \<exists>e s'. os_index C idx i body s = (Inl e, s') \<and> os_transport C e"
    and bulk_items: "\<exists>s'. os_bulk C (concat (map (\<lambda>(i, body). [BulkHeader idx i, BulkBody body]) docs)) s =
      (Inr \<lparr>bp_errors = list_ex (\<lambda>(i, body). verdict idx i body \<noteq> None) docs,
        bp_items = map (\<lambda>(i, body). \<lparr>bi_id = Some i,
          bi_status = Some (if verdict idx i body = None then 201 else 400), bi_reason = verdict idx i body\<rparr>) docs\<rparr>, s')"
begin

definition rejected :: "('d, 's) search_repo \<Rightarrow> string \<times> 'd \<Rightarrow> bool" where
  "rejected R d \<longleftrightarrow> verdict (sr_index R) (fst d) (sr_serialize R (snd d)) \<noteq> None"

lemma bulk_each:
  assumes "sr_client R = C"
  shows "\<exists>r s'. bulk_index_each (repo_backend R) docs indexed errors s = (Inr (Success r []), s') \<and>
    bx_indexed r = indexed + length (filter (\<lambda>d. \<not> rejected R d) docs) \<and> bx_failed r = length (bx_errors r) \<and>
    map be_doc_id (bx_errors r) = map be_doc_id errors @ map fst (filter (rejected R) docs)"
proof (induction docs arbitrary: indexed errors s)
  case (Cons d docs)
  obtain i doc where d: "d = (i, doc)" by (rule prod.exhaust)
  show ?case
  proof (cases "verdict (sr_index R) i (sr_serialize R doc)")
    case None
    with index_ok obtain s1 where "os_index C (sr_index R) i (sr_serialize R doc) s = (Inr (), s1)" by blast
    then have r: "repo_index R i doc s = (Inr (Success () []), s1)"
      using assms by (simp add: repo_index_def result_success_def)
    have ok: "\<not> rejected R d" using None by (simp add: rejected_def d)
    obtain r' s' where ih: "bulk_index_each (repo_backend R) docs (indexed + 1) errors s1 = (Inr (Success r' []), s')"
      "bx_indexed r' = indexed + 1 + length (filter (\<lambda>d. \<not> rejected R d) docs)" "bx_failed r' = length (bx_errors r')"
      "map be_doc_id (bx_errors r') = map be_doc_id errors @ map fst (filter (rejected R) docs)"
      using Cons.IH [of "indexed + 1" errors s1] by blast
    have "bulk_index_each (repo_backend R) (d # docs) indexed errors s = (Inr (Success r' []), s')"
      using r ih(1) by (simp add: d repo_backend_def ebind_def)
    with ih ok show ?thesis by (intro exI [of _ r'] exI [of _ s']) simp
  next
    case (Some why)
    with index_bad obtain e s1 where "os_index C (sr_index R) i (sr_serialize R doc) s = (Inl e, s1)" "os_transport C e"
      by blast
    then obtain err where r: "repo_index R i doc s = (Inr (Failure err []), s1)"
      using assms by (simp add: repo_index_def result_failure_def)
    have bad: "rejected R d" using Some by (simp add: rejected_def d)
    let ?e = "errors @ [\<lparr>be_doc_id = i, be_error = err_message err\<rparr>]"
    obtain r' s' where ih: "bulk_index_each (repo_backend R) docs indexed ?e s1 = (Inr (Success r' []), s')"
      "bx_indexed r' = indexed + length (filter (\<lambda>d. \<not> rejected R d) docs)" "bx_failed r' = length (bx_errors r')"
      "map be_doc_id (bx_errors r') = map be_doc_id ?e @ map fst (filter (rejected R) docs)"
      using Cons.IH [of indexed ?e s1] by blast
    have "bulk_index_each (repo_backend R) (d # docs) indexed errors s = (Inr (Success r' []), s')"
      using r ih(1) by (simp add: d repo_backend_def ebind_def)
    with ih bad show ?thesis by (intro exI [of _ r'] exI [of _ s']) (simp add: d)
  qed
qed (simp add: result_success_def)

lemma bulk_response_law:
  assumes "sr_client R = C"
  shows "\<exists>resp s'. os_bulk C (bulk_actions R batch) s = (Inr resp, s') \<and>
    (bp_errors resp \<longleftrightarrow> filter (rejected R) batch \<noteq> []) \<and>
    length (filter (\<lambda>it. \<not> item_failed it) (bp_items resp)) = length (filter (\<lambda>d. \<not> rejected R d) batch) \<and>
    map be_doc_id (map item_error (filter item_failed (bp_items resp))) = map fst (filter (rejected R) batch)"
proof -
  let ?docs = "map (\<lambda>(i, doc). (i, sr_serialize R doc)) batch"
  have a: "bulk_actions R batch =
      concat (map (\<lambda>(i, body). [BulkHeader (sr_index R) i, BulkBody body]) ?docs)"
    by (induction batch) (auto simp: bulk_actions_def)
  obtain s' where b: "os_bulk C (bulk_actions R batch) s =
      (Inr \<lparr>bp_errors = list_ex (\<lambda>(i, body). verdict (sr_index R) i body \<noteq> None) ?docs,
        bp_items = map (\<lambda>(i, body). \<lparr>bi_id = Some i,
          bi_status = Some (if verdict (sr_index R) i body = None then 201 else 400),
          bi_reason = verdict (sr_index R) i body\<rparr>) ?docs\<rparr>, s')"
    using bulk_items [of "sr_index R" ?docs s] unfolding a by blast
  show ?thesis
    by (intro exI [of _ "\<lparr>bp_errors = list_ex (\<lambda>(i, body). verdict (sr_index R) i body \<noteq> None) ?docs,
        bp_items = map (\<lambda>(i, body). \<lparr>bi_id = Some i,
          bi_status = Some (if verdict (sr_index R) i body = None then 201 else 400),
          bi_reason = verdict (sr_index R) i body\<rparr>) ?docs\<rparr>"] exI [of _ s'] conjI b)
      (induction batch; force simp: rejected_def item_failed_def item_error_def)+
qed

lemma bulk_batches_counts:
  assumes "sr_client R = C"
  shows "\<exists>r s'. bulk_batches R batches indexed errors s = (Inr (Success r []), s') \<and>
    bx_indexed r = indexed + length (filter (\<lambda>d. \<not> rejected R d) (concat batches)) \<and>
    bx_failed r = length (bx_errors r) \<and>
    map be_doc_id (bx_errors r) = map be_doc_id errors @ map fst (filter (rejected R) (concat batches))"
proof (induction batches arbitrary: indexed errors s)
  case (Cons batch batches)
  obtain resp s1 where b: "os_bulk C (bulk_actions R batch) s = (Inr resp, s1)"
    "bp_errors resp \<longleftrightarrow> filter (rejected R) batch \<noteq> []"
    "length (filter (\<lambda>it. \<not> item_failed it) (bp_items resp)) = length (filter (\<lambda>d. \<not> rejected R d) batch)"
    "map be_doc_id (map item_error (filter item_failed (bp_items resp))) = map fst (filter (rejected R) batch)"
    using bulk_response_law [OF assms, of batch s] by blast
  show ?case
  proof (cases "bp_errors resp")
    case True
    have "bulk_batches R (batch # batches) indexed errors s = bulk_batches R batches
        (indexed + length (filter (\<lambda>d. \<not> rejected R d) batch))
        (errors @ map item_error (filter item_failed (bp_items resp))) s1"
      using b(1,3) True assms by simp
    with Cons.IH [of "indexed + length (filter (\<lambda>d. \<not> rejected R d) batch)"
        "errors @ map item_error (filter item_failed (bp_items resp))" s1] b(4)
    show ?thesis by (simp add: add.assoc)
  next
    case False
    then have "filter (rejected R) batch = []" using b(2) by simp
    then have all: "filter (\<lambda>d. \<not> rejected R d) batch = batch" "filter (rejected R) batch = []"
      by (auto simp: filter_empty_conv)
    have "bulk_batches R (batch # batches) indexed errors s = bulk_batches R batches (indexed + length batch) errors s1"
      using b(1) False assms by simp
    with Cons.IH [of "indexed + length batch" errors s1] all show ?thesis by (simp add: add.assoc)
  qed
qed (simp add: result_success_def)

end

section \<open>A server in a record\<close>

text \<open>
  Documents, open contexts and what a consumer has stored. \<open>sat\<close> is the meaning of a query and
  \<open>judge\<close> the mapping check of a document.
\<close>

record 'b search_world =
  sw_docs :: "(string \<times> string \<times> dict) list"
  sw_cursors :: "(string \<times> raw_hit list \<times> nat) list"
  sw_seen :: "'b list"

definition transport_exn :: "string \<Rightarrow> exn" where
  "transport_exn why = PyException ''TransportError'' why"

definition new_cursor_id :: "'b search_world \<Rightarrow> string" where
  "new_cursor_id w = replicate (Suc (sum_list (map (length \<circ> fst) (sw_cursors w)))) CHR ''x''"

definition world_matching :: "(dict \<Rightarrow> dict \<Rightarrow> bool) \<Rightarrow> string \<Rightarrow> dict \<Rightarrow> 'b search_world \<Rightarrow> raw_hit list" where
  "world_matching sat idx dsl w =
     map (\<lambda>(i, d, body). \<lparr>rh_source = body, rh_score = None\<rparr>)
       (filter (\<lambda>(i, d, body). i = idx \<and> sat dsl body) (sw_docs w))"

definition put_doc :: "string \<Rightarrow> string \<Rightarrow> dict \<Rightarrow> 'b search_world \<Rightarrow> 'b search_world" where
  "put_doc idx i body w =
     w\<lparr>sw_docs := filter (\<lambda>(a, b, c). \<not> (a = idx \<and> b = i)) (sw_docs w) @ [(idx, i, body)]\<rparr>"

fun pair_up :: "bulk_action list \<Rightarrow> (string \<times> string \<times> dict) list" where
  "pair_up (BulkHeader idx i # BulkBody body # rest) = (idx, i, body) # pair_up rest"
| "pair_up actions = []"

definition world_search ::
  "(dict \<Rightarrow> dict \<Rightarrow> bool) \<Rightarrow> (string \<Rightarrow> string \<Rightarrow> dict \<Rightarrow> string option) \<Rightarrow> ('b search_world) opensearch" where
  "world_search sat judge =
     \<lparr>os_index = (\<lambda>idx i body w. case judge idx i body of
        None \<Rightarrow> (Inr (), put_doc idx i body w) | Some why \<Rightarrow> (Inl (transport_exn why), w)),
      os_delete = (\<lambda>idx i w.
        if list_ex (\<lambda>(a, b, c). a = idx \<and> b = i) (sw_docs w)
        then (Inr (), w\<lparr>sw_docs := filter (\<lambda>(a, b, c). \<not> (a = idx \<and> b = i)) (sw_docs w)\<rparr>)
        else (Inl (PyException ''NotFoundError'' i), w)),
      os_search = (\<lambda>idx dsl start num w. let m = world_matching sat idx dsl w in
        (Inr \<lparr>sp_hits = take (nat num) (drop (nat start) m), sp_total = length m, sp_scroll_id = []\<rparr>, w)),
      os_open = (\<lambda>idx dsl num w. let m = world_matching sat idx dsl w; i = new_cursor_id w in
        (Inr \<lparr>sp_hits = take (nat num) m, sp_total = length m, sp_scroll_id = i\<rparr>,
         w\<lparr>sw_cursors := AList.update i (drop (nat num) m, nat num) (sw_cursors w)\<rparr>)),
      os_scroll = (\<lambda>i w. case get_or (map_of (sw_cursors w) i) ([], 0) of (rest, k) \<Rightarrow>
        (Inr \<lparr>sp_hits = take k rest, sp_total = length rest, sp_scroll_id = i\<rparr>,
         w\<lparr>sw_cursors := AList.update i (drop k rest, k) (sw_cursors w)\<rparr>)),
      os_clear = (\<lambda>i w. (Inr (), w\<lparr>sw_cursors := AList.delete i (sw_cursors w)\<rparr>)),
      os_bulk = (\<lambda>actions w.
        (Inr \<lparr>bp_errors = list_ex (\<lambda>(idx, i, body). judge idx i body \<noteq> None) (pair_up actions),
           bp_items = map (\<lambda>(idx, i, body). \<lparr>bi_id = Some i,
             bi_status = Some (if judge idx i body = None then 201 else 400), bi_reason = judge idx i body\<rparr>)
             (pair_up actions)\<rparr>,
         fold (\<lambda>(idx, i, body). if judge idx i body = None then put_doc idx i body else id) (pair_up actions) w)),
      os_not_found = (\<lambda>e. exn_class e = ''NotFoundError''),
      os_transport = (\<lambda>e. exn_class e = ''TransportError'' \<or> exn_class e = ''NotFoundError'')\<rparr>"

lemma new_cursor_id_fresh: "map_of (sw_cursors w) (new_cursor_id w) = None"
proof -
  have "length (new_cursor_id w) \<noteq> length i" if "i \<in> fst ` set (sw_cursors w)" for i
  proof -
    have "length i \<in> set (map (length \<circ> fst) (sw_cursors w))" using that by force
    then have "length i \<le> sum_list (map (length \<circ> fst) (sw_cursors w))" by (rule member_le_sum_list) simp
    then show ?thesis by (simp add: new_cursor_id_def)
  qed
  then show ?thesis unfolding map_of_eq_None_iff by blast
qed

lemma pair_up_docs:
  "pair_up (concat (map (\<lambda>(i, body). [BulkHeader idx i, BulkBody body]) docs)) =
     map (\<lambda>(i, body). (idx, i, body)) docs"
  by (induction docs) auto

interpretation world_scrolls: scroll_server "world_search sat judge" "world_matching sat" "\<lambda>w. map_of (sw_cursors w)"
  for sat judge
proof
  fix i s r s' rest k
  assume "os_scroll (world_search sat judge) i s = (Inr r, s')" "map_of (sw_cursors s) i = Some (rest, k)"
  then show "sp_hits r = take k rest \<and> (sp_scroll_id r = i \<or> map_of (sw_cursors s) (sp_scroll_id r) = None) \<and>
      map_of (sw_cursors s') = (map_of (sw_cursors s))(i := None, sp_scroll_id r \<mapsto> (drop k rest, k))"
    by (auto simp: world_search_def update_conv')
next
  fix idx dsl n s e s'
  assume "os_open (world_search sat judge) idx dsl n s = (Inl e, s')"
  then show "map_of (sw_cursors s') = map_of (sw_cursors s)" by (simp add: world_search_def Let_def)
next
  fix i s e s'
  assume "os_scroll (world_search sat judge) i s = (Inl e, s')"
  then show "map_of (sw_cursors s') = map_of (sw_cursors s)" by (simp add: world_search_def split: prod.splits)
qed (auto simp: world_search_def Let_def update_conv' delete_conv' new_cursor_id_fresh)

interpretation world_bulk: bulk_server "world_search sat judge" judge for sat judge
proof
  fix idx docs s
  show "\<exists>s'. os_bulk (world_search sat judge) (concat (map (\<lambda>(i, body). [BulkHeader idx i, BulkBody body]) docs)) s =
      (Inr \<lparr>bp_errors = list_ex (\<lambda>(i, body). judge idx i body \<noteq> None) docs,
        bp_items = map (\<lambda>(i, body). \<lparr>bi_id = Some i,
          bi_status = Some (if judge idx i body = None then 201 else 400), bi_reason = judge idx i body\<rparr>) docs\<rparr>, s')"
    by (simp add: world_search_def pair_up_docs) (simp add: list_ex_iff split_def comp_def)
qed (auto simp: world_search_def transport_exn_def)

section \<open>Properties\<close>

text \<open>C32: Scrolling ends, clears what it holds and misses nothing. Whatever the consumer or the server
  raises, the scroll contexts afterwards are those before, except that when clearing the context raises, which the
  code suppresses, that one context may be left to its timeout. With a server that answers the
  reads, whether or not it can clear, and a consumer that stores every batch, the call
  succeeds and the batches are the matching documents in order, cut by the batch size.\<close>

theorem opensearch_scroll:
  assumes server: "scroll_server C matching cursor" and client: "sr_client R = C"
    and batch: "0 < batch_size" and fuel: "length (matching (sr_index R) (build_dsl q) s) + 1 < n"
    and consumer: "\<forall>b. ekeeps cursor (yld b)"
  shows "\<exists>x s'. repo_scroll R q batch_size yld n s = Some (x, s') \<and>
    (cursor s' = cursor s \<or>
      (\<exists>i c s2 e. cursor s i = None \<and> cursor s' = (cursor s)(i \<mapsto> c) \<and> os_clear C i s2 = (Inl e, s'))) \<and>
    (\<forall>seen h. scroll_server.scroll_answers C seen \<longrightarrow> scroll_server.collects cursor seen yld \<longrightarrow>
       (\<forall>y. hit_of R y = Inr (h y)) \<longrightarrow>
       x = Inr () \<and> seen s' = seen s @ chunks (nat batch_size) (map h (matching (sr_index R) (build_dsl q) s)))"
proof -
  have k: "\<And>b. ekeeps cursor (yld b)" using consumer by blast
  from scroll_server.scroll_no_leak [where yld = yld, OF server k client batch fuel] obtain x s' where
    run: "repo_scroll R q batch_size yld n s = Some (x, s')" "scroll_server.released C cursor s s'" by blast
  have fuel': "length (matching (sr_index R) (build_dsl q) s) < n" using fuel by simp
  have "x = Inr () \<and> seen s' = seen s @ chunks (nat batch_size) (map h (matching (sr_index R) (build_dsl q) s))"
    if "scroll_server.scroll_answers C seen" "scroll_server.collects cursor seen yld" "\<forall>y. hit_of R y = Inr (h y)"
    for seen :: "'a \<Rightarrow> 'b search_hit list list" and h
    using scroll_server.scroll_complete_run [where h = h, OF server that(1,2) client _ batch fuel'] that(3) run(1) by auto
  with run show ?thesis unfolding scroll_server.released_def [OF server] by blast
qed

definition demo_repo :: "(dict, dict search_hit list search_world) search_repo" where
  "demo_repo =
     \<lparr>sr_client = world_search (\<lambda>dsl body. True) (\<lambda>idx i body. if body = [] then Some ''empty'' else None),
      sr_index = ''products'', sr_serialize = (\<lambda>d. d), sr_deserialize = Inr\<rparr>"

definition demo_query :: search_query where
  "demo_query = \<lparr>sq_text = None, sq_filters = [], sq_page = 1, sq_page_size = 20, sq_sort = []\<rparr>"

definition demo_search_world :: "dict search_hit list search_world" where
  "demo_search_world = \<lparr>sw_docs = map (\<lambda>n. (''products'', str_of_nat n, [(''n'', JInt (int n))])) [1, 2, 3],
     sw_cursors = [(''open'', [], 5)], sw_seen = []\<rparr>"

definition store_batch :: "'b \<Rightarrow> ('b search_world, unit) eff" where
  "store_batch b = emodify (\<lambda>w. w\<lparr>sw_seen := sw_seen w @ [b]\<rparr>)"

lemma opensearch_scroll_witness:
  "\<exists>w. repo_scroll demo_repo demo_query 2 store_batch 5 demo_search_world = Some (Inr (), w) \<and>
     map_of (sw_cursors w) = map_of (sw_cursors demo_search_world) \<and> map length (sw_seen w) = [2, 1]"
proof -
  let ?C = "world_search (\<lambda>(dsl :: dict) (body :: dict). True) (\<lambda>(idx :: string) (i :: string) body. if body = [] then Some ''empty'' else None)
    :: (dict search_hit list search_world) opensearch"
  let ?m = "world_matching (\<lambda>dsl body. True) ''products'' (build_dsl demo_query) demo_search_world"
  have m: "length ?m = 3" by (simp add: world_matching_def demo_search_world_def)
  have up: "scroll_server.scroll_answers ?C sw_seen"
    unfolding world_scrolls.scroll_answers_def
    by (auto simp: world_search_def Let_def split: prod.split)
  have col: "scroll_server.collects (\<lambda>w. map_of (sw_cursors w)) sw_seen store_batch"
    unfolding world_scrolls.collects_def by (simp add: store_batch_def)
  have hit: "hit_of demo_repo y = Inr \<lparr>sh_doc = rh_source y, sh_score = get_or (rh_score y) 0, sh_source = rh_source y\<rparr>" for y
    by (simp add: hit_of_def demo_repo_def)
  have client: "sr_client demo_repo = ?C" by (simp add: demo_repo_def)
  have idx: "sr_index demo_repo = ''products''" by (simp add: demo_repo_def)
  have keep: "\<forall>b. ekeeps (\<lambda>w. map_of (sw_cursors w)) (store_batch b)" by (simp add: store_batch_def ekeeps_def)
  have fuel: "length (world_matching (\<lambda>dsl body. True) (sr_index demo_repo) (build_dsl demo_query) demo_search_world) + 1 < 5"
    unfolding idx m by simp
  have batch: "0 < (2 :: int)" by simp
  from opensearch_scroll [OF world_scrolls.scroll_server_axioms client batch fuel keep] obtain x w where
    r: "repo_scroll demo_repo demo_query 2 store_batch 5 demo_search_world = Some (x, w)"
    "map_of (sw_cursors w) = map_of (sw_cursors demo_search_world) \<or>
      (\<exists>i c s2 e. map_of (sw_cursors demo_search_world) i = None \<and>
        map_of (sw_cursors w) = (map_of (sw_cursors demo_search_world))(i \<mapsto> c) \<and> os_clear ?C i s2 = (Inl e, w))"
    and all: "\<And>seen h. scroll_server.scroll_answers ?C seen \<Longrightarrow>
      scroll_server.collects (\<lambda>w. map_of (sw_cursors w)) seen store_batch \<Longrightarrow> (\<forall>y. hit_of demo_repo y = Inr (h y)) \<Longrightarrow>
      x = Inr () \<and> seen w = seen demo_search_world @ chunks (nat 2) (map h (world_matching (\<lambda>dsl body. True) (sr_index demo_repo) (build_dsl demo_query) demo_search_world))"
    by blast
  have "x = Inr () \<and> sw_seen w = sw_seen demo_search_world @ chunks (nat 2) (map
      (\<lambda>y. \<lparr>sh_doc = rh_source y, sh_score = get_or (rh_score y) 0, sh_source = rh_source y\<rparr>) ?m)"
    unfolding idx [symmetric] by (rule all [OF up col]) (simp add: hit)
  then have x: "x = Inr ()" and w: "sw_seen w = chunks 2 (map
      (\<lambda>y. \<lparr>sh_doc = rh_source y, sh_score = get_or (rh_score y) 0, sh_source = rh_source y\<rparr>) ?m)"
    by (simp_all add: demo_search_world_def)
  have "map length (sw_seen w) = [2, 1]"
  proof -
    have three: "length xs = 3 \<Longrightarrow> map length (chunks 2 xs) = [2, 1]" for xs :: "dict search_hit list"
      by (simp add: chunks_Cons length_0_conv [symmetric] del: length_0_conv)
    show ?thesis unfolding w by (rule three) (simp only: length_map m)
  qed
  moreover from r(2) have "map_of (sw_cursors w) = map_of (sw_cursors demo_search_world)"
    by (auto simp: world_search_def)
  ultimately show ?thesis using r(1) [unfolded x] by (intro exI [of _ w] conjI)
qed

text \<open>The double for tests scrolls like the framework: the scroll of the in-memory repository gives its
  consumer the same batches, with the same outcome, as the page by page scroll that every backend
  inherits, for any query, batch size and consumer that leaves the store alone.\<close>

theorem mem_scroll_is_paging:
  assumes "\<And>b. ekeeps fst (yld b)" "0 < per_page" "length (mem_hits rank q (fst st)) < n"
  shows "scroll_default (mem_backend to_dict rank) q per_page yld n st = Some (mem_scroll rank q per_page yld st)"
  using scroll_pages_mem [OF assms(1,2), of 1 rank q st n to_dict] assms(2,3)
  by (simp add: scroll_default_def mem_scroll_def)

definition keep_batch :: "'d search_hit list \<Rightarrow> ('d mem_store \<times> dict list, unit) eff" where
  "keep_batch b = on_snd (emodify (\<lambda>seen. seen @ map sh_source b))"

lemma mem_scroll_is_paging_witness:
  "\<exists>st. scroll_default (mem_backend (\<lambda>d. d) (\<lambda>_. 0 :: int)) demo_query 1 keep_batch 3
     ([(''a'', [], [(''n'', JInt 1)]), (''b'', [], [(''n'', JInt 2)])], []) = Some (Inr (), st) \<and>
   snd st = [[(''n'', JInt 1)], [(''n'', JInt 2)]]"
proof -
  let ?st = "([(''a'', [], [(''n'', JInt 1)]), (''b'', [], [(''n'', JInt 2)])], []) :: dict mem_store \<times> dict list"
  let ?rank = "\<lambda>_ :: json. 0 :: int"
  have hits: "mem_hits ?rank demo_query (fst ?st) =
      [\<lparr>sh_doc = [], sh_score = 1, sh_source = [(''n'', JInt 1)]\<rparr>,
       \<lparr>sh_doc = [], sh_score = 1, sh_source = [(''n'', JInt 2)]\<rparr>]"
    by (simp add: mem_hits_def mem_order_def demo_query_def matches_filters_def text_score_def
        search_text_def stable_sort_def)
  have "scroll_default (mem_backend (\<lambda>d. d) ?rank) demo_query 1 keep_batch 3 ?st =
      Some (mem_scroll ?rank demo_query 1 keep_batch ?st)"
    by (rule mem_scroll_is_paging) (simp_all add: keep_batch_def ekeeps_def on_snd_def hits [simplified])
  moreover have "mem_scroll ?rank demo_query 1 keep_batch ?st =
      (Inr (), (fst ?st, [[(''n'', JInt 1)], [(''n'', JInt 2)]]))"
    unfolding mem_scroll_def hits by (simp add: chunks_Cons keep_batch_def ebind_def)
  ultimately show ?thesis by simp
qed

text \<open>Bulk indexing agrees with indexing one by one: with a server that judges each document by itself,
  the bulk call reports the same numbers and the same failing ids as the inherited loop, for every
  positive batch size, and its numbers add up to the documents given.\<close>

theorem bulk_agrees_with_each:
  assumes "bulk_server C verdict" "sr_client R = C" "0 < batch_size"
  shows "\<exists>r s1 r' s2. repo_bulk_index R docs batch_size s = (Inr (Success r []), s1) \<and>
    bulk_index_default (repo_backend R) docs s' = (Inr (Success r' []), s2) \<and>
    bx_indexed r = bx_indexed r' \<and> bx_failed r = bx_failed r' \<and>
    map be_doc_id (bx_errors r) = map be_doc_id (bx_errors r') \<and> bx_indexed r + bx_failed r = length docs"
proof -
  obtain r s1 where a: "bulk_batches R (chunks (nat batch_size) docs) 0 [] s = (Inr (Success r []), s1)"
    "bx_indexed r = length (filter (\<lambda>d. \<not> bulk_server.rejected verdict R d) docs)"
    "bx_failed r = length (bx_errors r)"
    "map be_doc_id (bx_errors r) = map fst (filter (bulk_server.rejected verdict R) docs)"
    using bulk_server.bulk_batches_counts [OF assms(1,2), of "chunks (nat batch_size) docs" 0 "[]" s] assms(3)
    by (auto simp: concat_chunks)
  obtain r' s2 where b: "bulk_index_each (repo_backend R) docs 0 [] s' = (Inr (Success r' []), s2)"
    "bx_indexed r' = length (filter (\<lambda>d. \<not> bulk_server.rejected verdict R d) docs)"
    "bx_failed r' = length (bx_errors r')"
    "map be_doc_id (bx_errors r') = map fst (filter (bulk_server.rejected verdict R) docs)"
    using bulk_server.bulk_each [OF assms(1,2), of docs 0 "[]" s'] by auto
  have f: "bx_failed r = length (filter (bulk_server.rejected verdict R) docs)"
    "bx_failed r' = length (filter (bulk_server.rejected verdict R) docs)"
    using a(3,4) b(3,4) by (metis length_map)+
  have "bx_indexed r + bx_failed r = length docs"
    unfolding a(2) f(1) using sum_length_filter_compl [of "bulk_server.rejected verdict R" docs] by simp
  with a b f assms(3) show ?thesis
    by (simp add: repo_bulk_index_def bulk_index_default_def)
qed

lemma bulk_agrees_with_each_witness:
  "\<exists>r s1. repo_bulk_index demo_repo [(''4'', [(''n'', JInt 4)]), (''5'', [])] 1 demo_search_world = (Inr (Success r []), s1) \<and>
     bx_indexed r + bx_failed r = 2"
proof -
  have "sr_client demo_repo = world_search (\<lambda>dsl body. True) (\<lambda>idx i body. if body = [] then Some ''empty'' else None)"
    by (simp add: demo_repo_def)
  from bulk_agrees_with_each [OF world_bulk.bulk_server_axioms this, where batch_size = 1
      and docs = "[(''4'', [(''n'', JInt 4)]), (''5'', [])]" and s = demo_search_world and s' = demo_search_world]
  show ?thesis by auto
qed

end
