(* ===== verification/Qx_Tenancy.thy ===== *)
theory Qx_Tenancy
  imports Qx_Sql "HOL-Library.Word"
begin

text \<open>
  The rest of the package \<open>qx-db\<close>: engines and sessions (\<open>engine\<close>), a database or a schema per
  tenant (\<open>tenancy/database\<close>, \<open>tenancy/manager\<close>), row-level security (\<open>tenancy/rls\<close>), advisory
  locks (\<open>locking\<close>) and the migration runner (\<open>migrations\<close>). SQLAlchemy, Alembic and the server are
  arguments; one constructor of \<open>statement\<close> stands for each SQL text of these modules.
\<close>

section \<open>Tenants as names\<close>

text \<open>\<open>UUID | str\<close>, and its \<open>str\<close>.\<close>

datatype tenant_ref = TenantUuid uuid | TenantText string

fun tenant_text :: "tenant_ref \<Rightarrow> string" where
  "tenant_text (TenantUuid u) = str_of_uuid u"
| "tenant_text (TenantText s) = s"

definition database_name :: "string \<Rightarrow> tenant_ref \<Rightarrow> string" where
  "database_name prefix t = prefix @ filter (\<lambda>c. c \<noteq> CHR ''-'') (tenant_text t)"

definition schema_name :: "string \<Rightarrow> tenant_ref \<Rightarrow> string" where
  "schema_name prefix t = prefix @ filter (\<lambda>c. c \<noteq> CHR ''-'') (tenant_text t)"

lemma database_name_uuid:
  "u < 2 ^ 128 \<Longrightarrow> v < 2 ^ 128 \<Longrightarrow>
     database_name p (TenantUuid u) = database_name p (TenantUuid v) \<longleftrightarrow> u = v"
  by (simp add: database_name_def str_of_uuid_hex uuid_hex_inj del: hex_digits.simps)

text \<open>Two texts may name one database.\<close>

lemma database_name_texts: "database_name p (TenantText ''a-b'') = database_name p (TenantText ''ab'')"
  by (simp add: database_name_def)

section \<open>Engines\<close>

record db_settings =
  dbs_url :: string
  dbs_pool_size :: int
  dbs_max_overflow :: int
  dbs_pool_timeout :: rat
  dbs_pool_recycle :: int
  dbs_pre_ping :: bool
  dbs_pool_kind :: string
  dbs_echo :: bool
  dbs_statement_timeout_ms :: int

datatype pool = NullPool | QueuePool int int rat int bool

text \<open>
  What the code uses of SQLAlchemy: \<open>create_async_engine\<close>, \<open>dispose\<close>, \<open>async_sessionmaker\<close>, opening
  and closing a session, and \<open>str(make_url(url).set(database=name))\<close>.
\<close>

record ('w, 'g, 'f, 'z) sqlalchemy =
  sa_engine :: "string \<Rightarrow> pool \<Rightarrow> bool \<Rightarrow> ('w, 'g) eff"
  sa_dispose :: "'g \<Rightarrow> ('w, unit) eff"
  sa_factory :: "'g \<Rightarrow> 'f"
  sa_session :: "'f \<Rightarrow> ('w, 'z) eff"
  sa_close :: "'z \<Rightarrow> ('w, unit) eff"
  sa_url_for :: "string \<Rightarrow> string \<Rightarrow> exn + string"

definition create_engine :: "('w, 'g, 'f, 'z) sqlalchemy \<Rightarrow> db_settings \<Rightarrow> ('w, 'g) eff" where
  "create_engine A s =
     (if dbs_pool_kind s = ''null'' then sa_engine A (dbs_url s) NullPool (dbs_echo s)
      else sa_engine A (dbs_url s)
        (QueuePool (dbs_pool_size s) (dbs_max_overflow s) (dbs_pool_timeout s) (dbs_pool_recycle s)
          (dbs_pre_ping s)) (dbs_echo s))"

definition make_session_factory :: "('w, 'g, 'f, 'z) sqlalchemy \<Rightarrow> 'g \<Rightarrow> 'f" where
  "make_session_factory A g = sa_factory A g"

definition open_session ::
  "('w, 'g, 'f, 'z) sqlalchemy \<Rightarrow> 'f \<Rightarrow> ('z \<Rightarrow> ('w, 'a) eff) \<Rightarrow> ('w, 'a) eff" where
  "open_session A f body = ebind (sa_session A f) (\<lambda>z. efinally (body z) (sa_close A z))"

definition tenant_settings ::
  "('w, 'g, 'f, 'z) sqlalchemy \<Rightarrow> db_settings \<Rightarrow> string \<Rightarrow> tenant_ref \<Rightarrow> exn + db_settings" where
  "tenant_settings A s prefix t =
     (case sa_url_for A (dbs_url s) (database_name prefix t) of
        Inl e \<Rightarrow> Inl e
      | Inr url \<Rightarrow> Inr (s\<lparr>dbs_url := url\<rparr>))"

section \<open>The router of tenant engines\<close>

record ('g, 'f) engine_router =
  er_settings :: db_settings
  er_prefix :: string
  er_engines :: "(string \<times> 'g) list"
  er_factories :: "(string \<times> 'f) list"

type_synonym ('w, 'g, 'f) routing = "('g, 'f) engine_router \<times> 'w"

definition get_engine ::
  "('w, 'g, 'f, 'z) sqlalchemy \<Rightarrow> tenant_ref \<Rightarrow> (('w, 'g, 'f) routing, 'g) eff" where
  "get_engine A t st =
     (case map_of (er_engines (fst st)) (tenant_text t) of
        Some g \<Rightarrow> (Inr g, st)
      | None \<Rightarrow>
          ebind (elift (tenant_settings A (er_settings (fst st)) (er_prefix (fst st)) t)) (\<lambda>s.
          ebind (on_snd (create_engine A s)) (\<lambda>g.
          ebind (on_fst (emodify (\<lambda>r. r\<lparr>er_engines := AList.update (tenant_text t) g (er_engines r)\<rparr>)))
            (\<lambda>_. eret g))) st)"

definition get_session_factory ::
  "('w, 'g, 'f, 'z) sqlalchemy \<Rightarrow> tenant_ref \<Rightarrow> (('w, 'g, 'f) routing, 'f) eff" where
  "get_session_factory A t st =
     (case map_of (er_factories (fst st)) (tenant_text t) of
        Some f \<Rightarrow> (Inr f, st)
      | None \<Rightarrow>
          ebind (get_engine A t) (\<lambda>g.
            let f = make_session_factory A g
            in ebind (on_fst (emodify (\<lambda>r. r\<lparr>er_factories := AList.update (tenant_text t) f (er_factories r)\<rparr>)))
                 (\<lambda>_. eret f)) st)"

definition router_close ::
  "('w, 'g, 'f, 'z) sqlalchemy \<Rightarrow> tenant_ref \<Rightarrow> (('w, 'g, 'f) routing, unit) eff" where
  "router_close A t st =
     (let key = tenant_text t;
          engine = map_of (er_engines (fst st)) key;
          r = (fst st)\<lparr>er_factories := AList.delete key (er_factories (fst st)),
                       er_engines := AList.delete key (er_engines (fst st))\<rparr>
      in case engine of
           None \<Rightarrow> (Inr (), (r, snd st))
         | Some g \<Rightarrow> on_snd (sa_dispose A g) (r, snd st))"

definition router_close_all ::
  "('w, 'g, 'f, 'z) sqlalchemy \<Rightarrow> (('w, 'g, 'f) routing, unit) eff" where
  "router_close_all A st =
     on_snd (efold (sa_dispose A) (map snd (er_engines (fst st))))
       ((fst st)\<lparr>er_factories := [], er_engines := []\<rparr>, snd st)"

definition open_db_session ::
  "('w, 'g, 'f, 'z) sqlalchemy \<Rightarrow> tenant_ref \<Rightarrow> ('z \<Rightarrow> (('w, 'g, 'f) routing, 'a) eff)
     \<Rightarrow> (('w, 'g, 'f) routing, 'a) eff" where
  "open_db_session A t body =
     ebind (get_session_factory A t) (\<lambda>f.
     ebind (on_snd (sa_session A f)) (\<lambda>z. efinally (body z) (on_snd (sa_close A z))))"

section \<open>Engines are owned by the router\<close>

text \<open>
  An engine is live from its creation to its disposal; a factory is bound to one engine, and an engine
  to the URL it was made for.
\<close>

locale engine_pool =
  fixes A :: "('w, 'g, 'f, 'z) sqlalchemy" and live :: "'w \<Rightarrow> 'g set"
    and url_of :: "'g \<Rightarrow> string" and bound :: "'f \<Rightarrow> 'g"
  assumes made: "sa_engine A url p echo w = (Inr g, w') \<Longrightarrow>
      g \<notin> live w \<and> live w' = insert g (live w) \<and> url_of g = url"
    and not_made: "sa_engine A url p echo w = (Inl e, w') \<Longrightarrow> live w' = live w"
    and disposed: "sa_dispose A g w = (Inr u, w') \<Longrightarrow> live w' = live w - {g}"
    and factory: "bound (sa_factory A g) = g"

inductive router_step ::
  "('w, 'g, 'f, 'z) sqlalchemy \<Rightarrow> ('w \<Rightarrow> 'g set) \<Rightarrow> ('w, 'g, 'f) routing \<Rightarrow> ('w, 'g, 'f) routing \<Rightarrow> bool"
  for A :: "('w, 'g, 'f, 'z) sqlalchemy" and live :: "'w \<Rightarrow> 'g set"
where
  step_engine: "get_engine A t st = (x, st') \<Longrightarrow> router_step A live st st'"
| step_factory: "get_session_factory A t st = (y, st') \<Longrightarrow> router_step A live st st'"
| step_close: "router_close A t st = (Inr (), st') \<Longrightarrow> router_step A live st st'"
| step_close_all: "router_close_all A st = (Inr (), st') \<Longrightarrow> router_step A live st st'"
| step_work: "live w' = live w \<Longrightarrow> router_step A live (r, w) (r, w')"

lemma delete_snd:
  "distinct (map fst al) \<Longrightarrow> distinct (map snd al) \<Longrightarrow> map_of al k = Some v \<Longrightarrow>
     snd ` set (AList.delete k al) = snd ` set al - {v}"
  by (induction al) (auto simp: AList.delete_eq rev_image_eqI dest: map_of_SomeD split: if_splits)

lemma database_name_text: "tenant_text t = tenant_text t' \<Longrightarrow> database_name p t = database_name p t'"
  by (simp add: database_name_def)

context engine_pool
begin

definition router_ok :: "'g set \<Rightarrow> ('g, 'f) engine_router \<Rightarrow> 'w \<Rightarrow> bool" where
  "router_ok others r w \<longleftrightarrow>
     distinct (map fst (er_engines r)) \<and> distinct (map snd (er_engines r)) \<and>
     others \<inter> snd ` set (er_engines r) = {} \<and> live w = others \<union> snd ` set (er_engines r) \<and>
     (\<forall>k f. map_of (er_factories r) k = Some f \<longrightarrow> map_of (er_engines r) k = Some (bound f)) \<and>
     (\<forall>t g. map_of (er_engines r) (tenant_text t) = Some g \<longrightarrow>
        sa_url_for A (dbs_url (er_settings r)) (database_name (er_prefix r) t) = Inr (url_of g))"

definition same_config :: "('g, 'f) engine_router \<Rightarrow> ('g, 'f) engine_router \<Rightarrow> bool" where
  "same_config r r' \<longleftrightarrow> er_settings r' = er_settings r \<and> er_prefix r' = er_prefix r"

lemma create_engine_made:
  assumes "create_engine A s w = (x, w')"
  shows "case x of
      Inl e \<Rightarrow> live w' = live w
    | Inr g \<Rightarrow> g \<notin> live w \<and> live w' = insert g (live w) \<and> url_of g = dbs_url s"
  using assms made not_made
  by (cases "dbs_pool_kind s = ''null''"; cases x) (auto simp: create_engine_def)

lemma get_engine_ok:
  assumes ok: "router_ok others r w" and run: "get_engine A t (r, w) = (x, (r', w'))"
  shows "router_ok others r' w' \<and> same_config r r' \<and> er_factories r' = er_factories r \<and>
    (\<forall>g. x = Inr g \<longrightarrow> map_of (er_engines r') (tenant_text t) = Some g)"
proof (cases "map_of (er_engines r) (tenant_text t)")
  case (Some g)
  with run ok show ?thesis by (auto simp: get_engine_def same_config_def)
next
  case None
  show ?thesis
  proof (cases "tenant_settings A (er_settings r) (er_prefix r) t")
    case (Inl e)
    with run None ok show ?thesis by (auto simp: get_engine_def same_config_def ebind_def)
  next
    case (Inr s)
    then have url: "sa_url_for A (dbs_url (er_settings r)) (database_name (er_prefix r) t) = Inr (dbs_url s)"
      by (auto simp: tenant_settings_def split: sum.splits)
    obtain y w1 where c: "create_engine A s w = (y, w1)" by (rule prod.exhaust)
    note m = create_engine_made [OF c]
    show ?thesis
    proof (cases y)
      case (Inl e)
      with m have "live w1 = live w" by simp
      with run None Inr c Inl ok show ?thesis
        by (auto simp: get_engine_def same_config_def ebind_def router_ok_def)
    next
      case new: (Inr g)
      with m have l: "g \<notin> live w" "live w1 = insert g (live w)" "url_of g = dbs_url s" by simp_all
      have fresh: "tenant_text t \<notin> fst ` set (er_engines r)" using None by (simp add: map_of_eq_None_iff)
      let ?r = "r\<lparr>er_engines := er_engines r @ [(tenant_text t, g)]\<rparr>"
      from run None Inr c new have rw: "r' = ?r" "w' = w1" "x = Inr g"
        by (auto simp: get_engine_def ebind_def update_fresh [OF fresh])
      have urls: "sa_url_for A (dbs_url (er_settings r)) (database_name (er_prefix r) t') = Inr (dbs_url s)"
        if "tenant_text t' = tenant_text t" for t'
        using url database_name_text [OF that] by simp
      have "router_ok others ?r w1"
        using ok l fresh urls None unfolding router_ok_def
        by (auto simp: map_add_def split: option.splits)
      with rw None show ?thesis by (simp add: same_config_def map_add_def)
    qed
  qed
qed

lemma get_session_factory_ok:
  assumes ok: "router_ok others r w" and run: "get_session_factory A t (r, w) = (x, (r', w'))"
  shows "router_ok others r' w' \<and> same_config r r' \<and>
    (\<forall>f. x = Inr f \<longrightarrow> map_of (er_engines r') (tenant_text t) = Some (bound f))"
proof (cases "map_of (er_factories r) (tenant_text t)")
  case (Some f)
  with run ok show ?thesis by (auto simp: get_session_factory_def same_config_def router_ok_def)
next
  case None
  obtain y r1 w1 where g: "get_engine A t (r, w) = (y, (r1, w1))" by (metis prod.exhaust)
  note k = get_engine_ok [OF ok g]
  show ?thesis
  proof (cases y)
    case (Inl e)
    with run None g k show ?thesis by (auto simp: get_session_factory_def ebind_def)
  next
    case (Inr h)
    with run None g have rw: "w' = w1" "x = Inr (sa_factory A h)"
      "r' = r1\<lparr>er_factories := AList.update (tenant_text t) (sa_factory A h) (er_factories r1)\<rparr>"
      by (auto simp: get_session_factory_def ebind_def make_session_factory_def Let_def)
    with k Inr show ?thesis
      by (auto simp: router_ok_def same_config_def factory update_conv' split: if_splits)
  qed
qed

lemma close_ok:
  assumes ok: "router_ok others r w" and run: "router_close A t (r, w) = (Inr (), (r', w'))"
  shows "router_ok others r' w' \<and> same_config r r'"
proof -
  let ?k = "tenant_text t"
  have r': "r' = r\<lparr>er_factories := AList.delete ?k (er_factories r), er_engines := AList.delete ?k (er_engines r)\<rparr>"
    using run by (auto simp: router_close_def Let_def split: option.splits prod.splits)
  have d: "distinct (map fst (AList.delete ?k (er_engines r)))" "distinct (map snd (AList.delete ?k (er_engines r)))"
    using ok by (auto simp: router_ok_def distinct_delete AList.delete_eq distinct_map_filter)
  have l: "live w' = others \<union> snd ` set (AList.delete ?k (er_engines r))"
  proof (cases "map_of (er_engines r) ?k")
    case None
    with run have "w' = w" by (simp add: router_close_def Let_def)
    moreover have "AList.delete ?k (er_engines r) = er_engines r"
      using None by (simp add: delete_idem map_of_eq_None_iff)
    ultimately show ?thesis using ok by (simp add: router_ok_def)
  next
    case (Some g)
    with run have "sa_dispose A g w = (Inr (), w')"
      by (auto simp: router_close_def Let_def split: prod.splits)
    from disposed [OF this] have "live w' = live w - {g}" .
    moreover have "g \<in> snd ` set (er_engines r)" using map_of_SomeD [OF Some] by force
    with ok have "g \<notin> others" by (auto simp: router_ok_def)
    ultimately show ?thesis using ok delete_snd [of "er_engines r" ?k g] Some
      by (auto simp: router_ok_def)
  qed
  have "snd ` set (AList.delete ?k (er_engines r)) \<subseteq> snd ` set (er_engines r)"
    by (auto simp: AList.delete_eq)
  with ok d l show ?thesis unfolding r' router_ok_def same_config_def
    by (auto simp: delete_conv' simp del: map_of_eq_Some_iff split: if_splits)
qed

lemma dispose_all:
  assumes "efold (sa_dispose A) gs w = (Inr u, w')"
  shows "live w' = live w - set gs"
  using assms
proof (induction gs arbitrary: w)
  case (Cons g gs)
  then obtain v w1 where "sa_dispose A g w = (Inr v, w1)" "efold (sa_dispose A) gs w1 = (Inr u, w')"
    by (auto simp: ebind_eq_Inr)
  with Cons.IH disposed show ?case by fastforce
qed simp

lemma close_all_ok:
  assumes ok: "router_ok others r w" and run: "router_close_all A (r, w) = (Inr (), (r', w'))"
  shows "router_ok others r' w' \<and> same_config r r' \<and> live w' = others"
proof -
  from run have d: "efold (sa_dispose A) (map snd (er_engines r)) w = (Inr (), w')"
    and r': "r' = r\<lparr>er_factories := [], er_engines := []\<rparr>"
    by (auto simp: router_close_all_def split: prod.splits)
  from dispose_all [OF d] ok have "live w' = others" by (auto simp: router_ok_def)
  with r' show ?thesis by (simp add: router_ok_def same_config_def)
qed

lemma reachable_ok:
  assumes "(router_step A live)\<^sup>*\<^sup>* (r0, w0) st" and "er_engines r0 = []" "er_factories r0 = []"
  shows "router_ok (live w0) (fst st) (snd st) \<and> same_config r0 (fst st)"
  using assms(1)
proof (induction rule: rtranclp_induct)
  case base
  then show ?case using assms(2,3) by (simp add: router_ok_def same_config_def)
next
  case (step st st')
  then have ok: "router_ok (live w0) (fst st) (snd st)" and c: "same_config r0 (fst st)" by auto
  have "router_ok (live w0) (fst st') (snd st') \<and> same_config (fst st) (fst st')"
    using step.hyps(2)
  proof cases
    case (step_engine t x)
    then show ?thesis using get_engine_ok [OF ok, of t x "fst st'" "snd st'"] by simp
  next
    case (step_factory t y)
    then show ?thesis using get_session_factory_ok [OF ok, of t y "fst st'" "snd st'"] by simp
  next
    case (step_close t)
    then show ?thesis using close_ok [OF ok, of t "fst st'" "snd st'"] by simp
  next
    case step_close_all
    then show ?thesis using close_all_ok [OF ok, of "fst st'" "snd st'"] by simp
  next
    case (step_work w' w r)
    then show ?thesis using ok by (simp add: router_ok_def same_config_def)
  qed
  with c show ?case by (simp add: same_config_def)
qed

end

section \<open>The managers of tenant databases and schemas\<close>

text \<open>
  The statements of the package. A query gives the first column of its rows; \<open>ad_open\<close> and \<open>ad_release\<close>
  are \<open>connect()\<close> with AUTOCOMMIT and its end, \<open>ad_create_all\<close> is \<open>metadata.create_all\<close> on the engine.
\<close>

datatype statement =
    SelectDatabase string
  | CreateDatabase string "string option"
  | TerminateBackends string
  | DropDatabase string
  | ListDatabases string
  | CreateSchema string
  | SetLocalSearchPath string
  | SetSearchPath string
  | ResetSearchPath
  | DropSchema string
  | ListSchemas string
  | EnableRls string
  | ForceRls string
  | DropPolicy string string
  | CreatePolicy string string string string
  | DisableRls string
  | SetConfig string string
  | LockKey int
  | UnlockKey int
  | LockKeyXact int

record ('w, 'g) admin =
  ad_open :: "('w, unit) eff"
  ad_release :: "('w, unit) eff"
  ad_exec :: "statement \<Rightarrow> ('w, string list) eff"
  ad_create_all :: "'g \<Rightarrow> ('w, unit) eff"

definition with_connection :: "('w, 'g) admin \<Rightarrow> ('w, 'a) eff \<Rightarrow> ('w, 'a) eff" where
  "with_connection D body = ebind (ad_open D) (\<lambda>_. efinally body (ad_release D))"

definition db_provision ::
  "('w, 'g, 'f, 'z) sqlalchemy \<Rightarrow> ('w, 'g) admin \<Rightarrow> db_settings \<Rightarrow> string \<Rightarrow> tenant_ref \<Rightarrow> string option
     \<Rightarrow> ('w, unit) eff" where
  "db_provision A D s prefix t template =
     ebind (with_connection D
       (ebind (ad_exec D (SelectDatabase (database_name prefix t))) (\<lambda>found.
          if found = []
          then ebind (ad_exec D (CreateDatabase (database_name prefix t)
                 (if template = Some [] then None else template))) (\<lambda>_. eret ())
          else eret ()))) (\<lambda>_.
     ebind (elift (tenant_settings A s prefix t)) (\<lambda>ts.
     ebind (create_engine A ts) (\<lambda>g. efinally (ad_create_all D g) (sa_dispose A g))))"

definition db_drop :: "('w, 'g) admin \<Rightarrow> string \<Rightarrow> tenant_ref \<Rightarrow> ('w, unit) eff" where
  "db_drop D prefix t =
     with_connection D
       (ebind (ad_exec D (TerminateBackends (database_name prefix t))) (\<lambda>_.
        ebind (ad_exec D (DropDatabase (database_name prefix t))) (\<lambda>_. eret ())))"

definition list_databases :: "('w, 'g) admin \<Rightarrow> string \<Rightarrow> ('w, string list) eff" where
  "list_databases D prefix = with_connection D (ad_exec D (ListDatabases (prefix @ ''%'')))"

text \<open>
  A schema is made in one transaction of the engine; \<open>tx\<close> runs a body in it. \<open>create_all\<close> creates the
  tables that the search path does not show.
\<close>

record 'd schema_conn =
  sn_exec :: "statement \<Rightarrow> ('d, string list) eff"
  sn_create_all :: "('d, unit) eff"
  sn_commit :: "'d \<Rightarrow> exn option"

definition schema_provision :: "'d schema_conn \<Rightarrow> string \<Rightarrow> tenant_ref \<Rightarrow> ('d \<times> unit, unit) eff" where
  "schema_provision C prefix t =
     engine_begin (sn_commit C)
       (on_fst (ebind (sn_exec C (CreateSchema (schema_name prefix t))) (\<lambda>_.
                ebind (sn_exec C (SetLocalSearchPath (schema_name prefix t))) (\<lambda>_. sn_create_all C))))"

definition schema_drop :: "'d schema_conn \<Rightarrow> string \<Rightarrow> tenant_ref \<Rightarrow> ('d \<times> unit, unit) eff" where
  "schema_drop C prefix t =
     engine_begin (sn_commit C)
       (on_fst (ebind (sn_exec C (DropSchema (schema_name prefix t))) (\<lambda>_. eret ())))"

definition list_schemas :: "('w, 'g) admin \<Rightarrow> string \<Rightarrow> ('w, string list) eff" where
  "list_schemas D prefix = with_connection D (ad_exec D (ListSchemas (prefix @ ''%'')))"

section \<open>Row-level security\<close>

definition policy_name :: "string option \<Rightarrow> string \<Rightarrow> string" where
  "policy_name given tab =
     (case given of Some n \<Rightarrow> if n = [] then ''qx_tenant_'' @ tab else n | None \<Rightarrow> ''qx_tenant_'' @ tab)"

definition rls_enable ::
  "(statement \<Rightarrow> ('w, string list) eff) \<Rightarrow> string \<Rightarrow> string \<Rightarrow> string option \<Rightarrow> string \<Rightarrow> ('w, unit) eff" where
  "rls_enable exec tab column given setting =
     efold (\<lambda>q. ebind (exec q) (\<lambda>_. eret ()))
       [EnableRls tab, ForceRls tab, DropPolicy (policy_name given tab) tab,
        CreatePolicy (policy_name given tab) tab column setting]"

definition rls_disable ::
  "(statement \<Rightarrow> ('w, string list) eff) \<Rightarrow> string \<Rightarrow> string option \<Rightarrow> ('w, unit) eff" where
  "rls_disable exec tab given =
     efold (\<lambda>q. ebind (exec q) (\<lambda>_. eret ())) [DropPolicy (policy_name given tab) tab, DisableRls tab]"

definition open_rls_session ::
  "('w, 'g, 'f, 'z) sqlalchemy \<Rightarrow> ('z \<Rightarrow> statement \<Rightarrow> ('w, string list) eff) \<Rightarrow> 'f \<Rightarrow> tenant_ref \<Rightarrow> string
     \<Rightarrow> ('z \<Rightarrow> ('w, 'a) eff) \<Rightarrow> ('w, 'a) eff" where
  "open_rls_session A exec f t setting body =
     ebind (sa_session A f) (\<lambda>z.
       efinally (ebind (exec z (SetConfig setting (tenant_text t))) (\<lambda>_. body z)) (sa_close A z))"

section \<open>A session in the schema of a tenant\<close>

text \<open>The \<open>finally\<close> holds two awaits: when the first raises, the session is not closed.\<close>

definition open_schema_session ::
  "('w, 'g, 'f, 'z) sqlalchemy \<Rightarrow> ('z \<Rightarrow> statement \<Rightarrow> ('w, string list) eff) \<Rightarrow> 'f \<Rightarrow> string \<Rightarrow> tenant_ref
     \<Rightarrow> ('z \<Rightarrow> ('w, 'a) eff) \<Rightarrow> ('w, 'a) eff" where
  "open_schema_session A exec f prefix t body =
     ebind (sa_session A f) (\<lambda>z.
       efinally (ebind (exec z (SetSearchPath (schema_name prefix t))) (\<lambda>_. body z))
         (ebind (exec z ResetSearchPath) (\<lambda>_. sa_close A z)))"

section \<open>Advisory locks\<close>

text \<open>\<open>struct.unpack(">q", digest)\<close> on the first eight bytes; the hash is an argument.\<close>

definition advisory_key :: "(string \<Rightarrow> 8 word list) \<Rightarrow> string \<Rightarrow> int" where
  "advisory_key sha256 name = sint (word_rcat (take 8 (sha256 name)) :: 64 word)"

definition advisory_lock ::
  "(statement \<Rightarrow> ('w, string list) eff) \<Rightarrow> int \<Rightarrow> ('w, 'a) eff \<Rightarrow> ('w, 'a) eff" where
  "advisory_lock exec key body =
     ebind (exec (LockKey key)) (\<lambda>_.
       efinally body (etry (ebind (exec (UnlockKey key)) (\<lambda>_. eret ())) (\<lambda>e. eret ())))"

definition advisory_xact_lock ::
  "(statement \<Rightarrow> ('w, string list) eff) \<Rightarrow> int \<Rightarrow> ('w, 'a) eff \<Rightarrow> ('w, 'a) eff" where
  "advisory_xact_lock exec key body = ebind (exec (LockKeyXact key)) (\<lambda>_. body)"

section \<open>Migrations\<close>

text \<open>
  A connection of the engine, and Alembic's \<open>configure\<close> with \<open>begin_transaction\<close> and
  \<open>run_migrations\<close> on it. \<open>mg_engine\<close> is \<open>async_engine_from_config\<close>.
\<close>

record ('w, 'g, 'c) migrator =
  mg_engine :: "('w, 'g) eff"
  mg_dispose :: "'g \<Rightarrow> ('w, unit) eff"
  mg_connect :: "'g \<Rightarrow> ('w, 'c) eff"
  mg_close :: "'c \<Rightarrow> ('w, unit) eff"
  mg_schemas :: "'c \<Rightarrow> string \<Rightarrow> ('w, string list) eff"
  mg_search_path :: "'c \<Rightarrow> string \<Rightarrow> ('w, unit) eff"
  mg_run :: "'c \<Rightarrow> bool \<Rightarrow> bool \<Rightarrow> bool \<Rightarrow> ('w, unit) eff"

definition on_connection ::
  "('w, 'g, 'c) migrator \<Rightarrow> 'g \<Rightarrow> ('c \<Rightarrow> ('w, 'a) eff) \<Rightarrow> ('w, 'a) eff" where
  "on_connection M g body = ebind (mg_connect M g) (\<lambda>c. efinally (body c) (mg_close M c))"

definition run_online :: "('w, 'g, 'c) migrator \<Rightarrow> bool \<Rightarrow> bool \<Rightarrow> bool \<Rightarrow> ('w, unit) eff" where
  "run_online M compare_type compare_default include_schemas =
     ebind (mg_engine M) (\<lambda>g.
     ebind (on_connection M g (\<lambda>c. mg_run M c compare_type compare_default include_schemas)) (\<lambda>_.
       mg_dispose M g))"

definition do_migrations_in_schema ::
  "('w, 'g, 'c) migrator \<Rightarrow> 'c \<Rightarrow> string \<Rightarrow> bool \<Rightarrow> bool \<Rightarrow> ('w, unit) eff" where
  "do_migrations_in_schema M c schema compare_type compare_default =
     ebind (mg_search_path M c schema) (\<lambda>_. mg_run M c compare_type compare_default False)"

definition run_all_schemas ::
  "('w, 'g, 'c) migrator \<Rightarrow> string \<Rightarrow> bool \<Rightarrow> bool \<Rightarrow> ('w, string list) eff" where
  "run_all_schemas M prefix compare_type compare_default =
     ebind (mg_engine M) (\<lambda>g.
       efinally
         (ebind (on_connection M g (\<lambda>c. mg_schemas M c (prefix @ ''%''))) (\<lambda>schemas.
          ebind (efold (\<lambda>schema. on_connection M g (\<lambda>c.
                   do_migrations_in_schema M c schema compare_type compare_default)) schemas) (\<lambda>_.
            eret schemas)))
         (mg_dispose M g))"

section \<open>A server\<close>

text \<open>
  The databases of a server and those of them that have the tables. A URL names a database.
\<close>

locale tenant_server = engine_pool A live url_of bound
  for A :: "('w, 'g, 'f, 'z) sqlalchemy" and live :: "'w \<Rightarrow> 'g set"
    and url_of :: "'g \<Rightarrow> string" and bound :: "'f \<Rightarrow> 'g" +
  fixes D :: "('w, 'g) admin" and dbs :: "'w \<Rightarrow> string set" and ready :: "'w \<Rightarrow> string set"
    and db_of :: "string \<Rightarrow> string"
  assumes url_names: "sa_url_for A base n = Inr url \<Longrightarrow> db_of url = n"
    and engine_keeps: "ekeeps (\<lambda>w. (dbs w, ready w)) (sa_engine A url p echo)"
    and dispose_keeps: "ekeeps (\<lambda>w. (dbs w, ready w)) (sa_dispose A g)"
    and conn_keeps: "ekeeps (\<lambda>w. (dbs w, ready w, live w)) (ad_open D)"
      "ekeeps (\<lambda>w. (dbs w, ready w, live w)) (ad_release D)"
    and reads_keep: "ekeeps (\<lambda>w. (dbs w, ready w, live w)) (ad_exec D (SelectDatabase n))"
      "ekeeps (\<lambda>w. (dbs w, ready w, live w)) (ad_exec D (TerminateBackends n))"
    and exec_live: "ekeeps live (ad_exec D q)"
    and select_db: "ad_exec D (SelectDatabase n) w = (Inr xs, w') \<Longrightarrow> xs = [] \<longleftrightarrow> n \<notin> dbs w"
    and create_db: "ad_exec D (CreateDatabase n tmpl) w = (Inr ys, w') \<Longrightarrow>
      dbs w' = insert n (dbs w) \<and> ready w' - {n} = ready w - {n}"
    and drop_db: "ad_exec D (DropDatabase n) w = (Inr zs, w') \<Longrightarrow>
      dbs w' = dbs w - {n} \<and> ready w' = ready w - {n}"
    and create_all: "ad_create_all D g w = (Inr u, w') \<Longrightarrow>
      ready w' = insert (db_of (url_of g)) (ready w) \<and> dbs w' = dbs w"
    and create_all_live: "ekeeps live (ad_create_all D g)"
begin

lemma with_connection_done:
  assumes "with_connection D body w = (Inr x, w')"
  obtains w1 w2 where "dbs w1 = dbs w" "ready w1 = ready w" "live w1 = live w"
    "body w1 = (Inr x, w2)" "dbs w' = dbs w2" "ready w' = ready w2" "live w' = live w2"
proof -
  from assms obtain u w1 y w2 v where o: "ad_open D w = (Inr u, w1)" and b: "body w1 = (y, w2)"
    and r: "ad_release D w2 = (Inr v, w')" and y: "y = Inr x"
    by (auto simp: with_connection_def ebind_eq_Inr efinally_eq_Inr)
  from ekeepsD [OF conn_keeps(1) o] ekeepsD [OF conn_keeps(2) r]
  show ?thesis using that [of w1 w2] b y by simp
qed

lemma provision_ok:
  assumes "db_provision A D s prefix t tmpl w = (Inr (), w')"
  shows "dbs w' = insert (database_name prefix t) (dbs w) \<and> database_name prefix t \<in> ready w' \<and>
    ready w' - {database_name prefix t} = ready w - {database_name prefix t} \<and> live w' = live w"
proof -
  let ?n = "database_name prefix t"
  let ?create = "ebind (ad_exec D (SelectDatabase ?n)) (\<lambda>found.
      if found = []
      then ebind (ad_exec D (CreateDatabase ?n (if tmpl = Some [] then None else tmpl))) (\<lambda>_. eret ())
      else eret ())"
  from assms obtain wc ts g we where
    c: "with_connection D ?create w = (Inr (), wc)"
    and ts: "tenant_settings A s prefix t = Inr ts"
    and g: "create_engine A ts wc = (Inr g, we)"
    and rest: "efinally (ad_create_all D g) (sa_dispose A g) we = (Inr (), w')"
    by (auto simp: db_provision_def ebind_eq_Inr)
  obtain w1 w2 where v1: "dbs w1 = dbs w" "ready w1 = ready w" "live w1 = live w"
    and body: "?create w1 = (Inr (), w2)"
    and v2: "dbs wc = dbs w2" "ready wc = ready w2" "live wc = live w2"
    using with_connection_done [OF c] by blast
  from body obtain found wf where f: "ad_exec D (SelectDatabase ?n) w1 = (Inr found, wf)"
    and d: "(if found = []
      then ebind (ad_exec D (CreateDatabase ?n (if tmpl = Some [] then None else tmpl))) (\<lambda>_. eret ())
      else eret ()) wf = (Inr (), w2)"
    by (auto simp: ebind_eq_Inr)
  have vf: "dbs wf = dbs w" "ready wf = ready w" "live wf = live w"
    using ekeepsD [OF reads_keep(1) f] v1 by auto
  have created: "dbs w2 = insert ?n (dbs w) \<and> ready w2 - {?n} = ready w - {?n} \<and> live w2 = live w"
  proof (cases "found = []")
    case True
    with d obtain ys where y: "ad_exec D (CreateDatabase ?n (if tmpl = Some [] then None else tmpl)) wf = (Inr ys, w2)"
      by (auto simp: ebind_eq_Inr)
    from create_db [OF y] ekeepsD [OF exec_live y] vf show ?thesis by simp
  next
    case False
    with d select_db [OF f] v1 vf show ?thesis by auto
  qed
  from ts have url: "sa_url_for A (dbs_url s) ?n = Inr (dbs_url ts)"
    by (auto simp: tenant_settings_def split: sum.splits)
  have made: "g \<notin> live wc" "live we = insert g (live wc)" "url_of g = dbs_url ts"
    using create_engine_made [OF g] by simp_all
  have "ekeeps (\<lambda>w. (dbs w, ready w)) (create_engine A ts)"
    by (simp add: create_engine_def engine_keeps)
  from ekeepsD [OF this g] have ve: "dbs we = dbs wc" "ready we = ready wc" by auto
  from rest obtain wa u where a: "ad_create_all D g we = (Inr (), wa)" and x: "sa_dispose A g wa = (Inr u, w')"
    by (auto simp: efinally_eq_Inr)
  from create_all [OF a] url_names [OF url] made(3)
  have va: "ready wa = insert ?n (ready we)" "dbs wa = dbs we" by auto
  from ekeepsD [OF create_all_live a] disposed [OF x] made have "live w' = live wc" by auto
  moreover from ekeepsD [OF dispose_keeps x] va have "ready w' = insert ?n (ready we)" "dbs w' = dbs we" by auto
  ultimately show ?thesis using created v2 ve by auto
qed

lemma drop_ok:
  assumes "db_drop D prefix t w = (Inr (), w')"
  shows "dbs w' = dbs w - {database_name prefix t} \<and> ready w' = ready w - {database_name prefix t}"
proof -
  let ?n = "database_name prefix t"
  let ?drop = "ebind (ad_exec D (TerminateBackends ?n)) (\<lambda>_. ebind (ad_exec D (DropDatabase ?n)) (\<lambda>_. eret ()))"
  from assms have "with_connection D ?drop w = (Inr (), w')" by (simp add: db_drop_def)
  from with_connection_done [OF this] obtain w1 w2 where v1: "dbs w1 = dbs w" "ready w1 = ready w"
    and body: "?drop w1 = (Inr (), w2)" and v2: "dbs w' = dbs w2" "ready w' = ready w2" by metis
  from body obtain xs wt zs where t: "ad_exec D (TerminateBackends ?n) w1 = (Inr xs, wt)"
    and z: "ad_exec D (DropDatabase ?n) wt = (Inr zs, w2)" by (auto simp: ebind_eq_Inr)
  from ekeepsD [OF reads_keep(2) t] drop_db [OF z] v1 v2 show ?thesis by simp
qed

end

text \<open>A server in memory: engines are numbered and know their URL.\<close>

record pg_world =
  pw_next :: nat
  pw_live :: "(nat \<times> string) set"
  pw_dbs :: "string set"
  pw_ready :: "string set"

definition pg_alchemy :: "(pg_world, nat \<times> string, nat \<times> string, nat \<times> string) sqlalchemy" where
  "pg_alchemy =
     \<lparr>sa_engine = (\<lambda>url p echo w.
        if (pw_next w, url) \<in> pw_live w then (Inl (PyException ''RuntimeError'' ''no engine''), w)
        else (Inr (pw_next w, url), w\<lparr>pw_next := pw_next w + 1, pw_live := insert (pw_next w, url) (pw_live w)\<rparr>)),
      sa_dispose = (\<lambda>g w. (Inr (), w\<lparr>pw_live := pw_live w - {g}\<rparr>)),
      sa_factory = (\<lambda>g. g), sa_session = (\<lambda>f w. (Inr f, w)), sa_close = (\<lambda>z w. (Inr (), w)),
      sa_url_for = (\<lambda>base n. if CHR ''/'' \<in> set n then Inl (PyException ''ValueError'' n)
                              else Inr (base @ ''/'' @ n))\<rparr>"

fun pg_exec :: "statement \<Rightarrow> (pg_world, string list) eff" where
  "pg_exec (SelectDatabase n) w = (Inr (if n \<in> pw_dbs w then [''1''] else []), w)"
| "pg_exec (CreateDatabase n tmpl) w =
     (if n \<in> pw_dbs w then (Inl (PyException ''DuplicateDatabaseError'' n), w)
      else (Inr [], w\<lparr>pw_dbs := insert n (pw_dbs w)\<rparr>))"
| "pg_exec (DropDatabase n) w = (Inr [], w\<lparr>pw_dbs := pw_dbs w - {n}, pw_ready := pw_ready w - {n}\<rparr>)"
| "pg_exec q w = (Inr [], w)"

definition pg_admin :: "(pg_world, nat \<times> string) admin" where
  "pg_admin =
     \<lparr>ad_open = eret (), ad_release = eret (), ad_exec = pg_exec,
      ad_create_all = (\<lambda>g w. (Inr (), w\<lparr>pw_ready := insert (snd (py_rpartition (CHR ''/'') (snd g))) (pw_ready w)\<rparr>))\<rparr>"

lemma pg_exec_live: "pw_live (snd (pg_exec q w)) = pw_live w"
  by (cases q) auto

interpretation pg_pool: engine_pool pg_alchemy pw_live snd "\<lambda>f. f"
  by unfold_locales (auto simp: pg_alchemy_def split: if_splits)

interpretation pg_tenants: tenant_server pg_alchemy pw_live snd "\<lambda>f. f" pg_admin pw_dbs pw_ready
  "\<lambda>url. snd (py_rpartition (CHR ''/'') url)"
  by unfold_locales
    (auto simp: pg_alchemy_def pg_admin_def ekeeps_def pg_exec_live py_rpartition_last split: if_splits)

context engine_pool
begin

lemma factory_right:
  assumes "router_ok others r w" "get_session_factory A t (r, w) = (Inr f, (r', w'))"
  shows "bound f \<in> live w' \<and>
    sa_url_for A (dbs_url (er_settings r)) (database_name (er_prefix r) t) = Inr (url_of (bound f))"
proof -
  from get_session_factory_ok [OF assms] have ok: "router_ok others r' w'" and c: "same_config r r'"
    and m: "map_of (er_engines r') (tenant_text t) = Some (bound f)" by auto
  have "snd (tenant_text t, bound f) \<in> snd ` set (er_engines r')" using map_of_SomeD [OF m] by (rule imageI)
  moreover have "live w' = others \<union> snd ` set (er_engines r')" using ok by (simp add: router_ok_def)
  ultimately have "bound f \<in> live w'" by simp
  moreover have "sa_url_for A (dbs_url (er_settings r')) (database_name (er_prefix r') t) = Inr (url_of (bound f))"
    using ok m unfolding router_ok_def by blast
  ultimately show ?thesis using c by (simp add: same_config_def)
qed

end

section \<open>Properties of engines and databases\<close>


definition demo_db_settings :: db_settings where
  "demo_db_settings =
     \<lparr>dbs_url = ''pg:'', dbs_pool_size = 10, dbs_max_overflow = 10, dbs_pool_timeout = 30,
      dbs_pool_recycle = 1800, dbs_pre_ping = True, dbs_pool_kind = ''queue'', dbs_echo = False,
      dbs_statement_timeout_ms = 10000\<rparr>"

definition demo_router :: "(nat \<times> string, nat \<times> string) engine_router" where
  "demo_router =
     \<lparr>er_settings = demo_db_settings, er_prefix = ''t_'', er_engines = [], er_factories = []\<rparr>"

definition demo_pg :: pg_world where
  "demo_pg = \<lparr>pw_next = 0, pw_live = {}, pw_dbs = {''t_b''}, pw_ready = {}\<rparr>"


text \<open>Provisioning gives a tenant its own database with the tables and releases the engine it used,
  also when repeated; dropping removes that database; and neither touches the databases of other
  tenants, whose names differ when their ids are UUIDs.\<close>

theorem tenant_databases_separate:
  assumes server: "tenant_server A live url_of bound D dbs ready db_of"
    and made: "db_provision A D s prefix (TenantUuid u) tmpl w = (Inr (), w1)"
    and gone: "db_drop D prefix (TenantUuid u) w1 = (Inr (), w2)"
    and other: "u < 2 ^ 128" "v < 2 ^ 128" "v \<noteq> u"
  shows "database_name prefix (TenantUuid u) \<in> dbs w1 \<inter> ready w1 \<and> live w1 = live w \<and>
    database_name prefix (TenantUuid u) \<notin> dbs w2 \<union> ready w2 \<and>
    (let n = database_name prefix (TenantUuid v)
     in (n \<in> dbs w2 \<longleftrightarrow> n \<in> dbs w) \<and> (n \<in> ready w2 \<longleftrightarrow> n \<in> ready w))"
proof -
  let ?n = "database_name prefix (TenantUuid u)" and ?m = "database_name prefix (TenantUuid v)"
  have ne: "?m \<noteq> ?n" using database_name_uuid [OF other(1,2), of prefix] other(3) by metis
  from tenant_server.provision_ok [OF server made] have p: "dbs w1 = insert ?n (dbs w)" "?n \<in> ready w1"
    "ready w1 - {?n} = ready w - {?n}" "live w1 = live w" by blast+
  from tenant_server.drop_ok [OF server gone] p(1,3) have d: "dbs w2 = dbs w - {?n}" "ready w2 = ready w - {?n}"
    by auto
  show ?thesis using p(1,2,4) d ne by (simp add: Let_def)
qed

lemma tenant_databases_separate_witness:
  "\<exists>w1 w2. db_provision pg_alchemy pg_admin demo_db_settings ''t_'' (TenantUuid 1) None demo_pg = (Inr (), w1) \<and>
     db_drop pg_admin ''t_'' (TenantUuid 1) w1 = (Inr (), w2) \<and>
     database_name ''t_'' (TenantUuid 1) \<in> pw_dbs w1 \<and> database_name ''t_'' (TenantUuid 1) \<notin> pw_dbs w2"
proof -
  let ?n = "database_name ''t_'' (TenantUuid 1)"
  have h: "?n = ''t_'' @ hex_digits 32 1" by (simp add: database_name_def str_of_uuid_hex del: hex_digits.simps)
  have n: "CHR ''/'' \<notin> set ?n" unfolding h by code_simp
  have b: "?n \<noteq> ''t_b''" unfolding h by code_simp
  obtain w1 where m: "db_provision pg_alchemy pg_admin demo_db_settings ''t_'' (TenantUuid 1) None demo_pg = (Inr (), w1)"
    using n b by (simp add: db_provision_def with_connection_def pg_admin_def pg_alchemy_def ebind_def demo_pg_def
        efinally_def tenant_settings_def create_engine_def demo_db_settings_def)
  obtain w2 where g: "db_drop pg_admin ''t_'' (TenantUuid 1) w1 = (Inr (), w2)"
    by (simp add: db_drop_def with_connection_def pg_admin_def ebind_def efinally_def)
  from tenant_databases_separate [OF pg_tenants.tenant_server_axioms m g, of 2] m g show ?thesis by auto
qed

section \<open>Properties of advisory locks\<close>

lemma bit_rcat_64:
  "bit (word_rcat (bs :: 8 word list) :: 64 word) n \<longleftrightarrow>
     n < 64 \<and> n div 8 < length bs \<and> bit (rev bs ! (n div 8)) (n mod 8)"
  using bit_horner_sum_uint_exp_iff [of "rev bs" n] by (simp add: word_rcat_def bit_word_of_int_iff)

lemma rcat_64_inj:
  fixes bs cs :: "8 word list"
  assumes len: "length bs = 8" "length cs = 8" and eq: "(word_rcat bs :: 64 word) = word_rcat cs"
  shows "bs = cs"
proof -
  have "rev bs = rev cs"
  proof (rule nth_equalityI)
    fix i assume i: "i < length (rev bs)"
    show "rev bs ! i = rev cs ! i"
    proof (rule bit_word_eqI)
      fix j assume "j < LENGTH(8)"
      then have j: "j < 8" by simp
      with i len have n: "8 * i + j < 64" "(8 * i + j) div 8 = i" "(8 * i + j) mod 8 = j" by auto
      from eq have "bit (word_rcat bs :: 64 word) (8 * i + j) = bit (word_rcat cs :: 64 word) (8 * i + j)"
        by simp
      with n i len show "bit (rev bs ! i) j = bit (rev cs ! i) j" by (simp add: bit_rcat_64)
    qed
  qed (simp add: len)
  then show ?thesis by simp
qed

text \<open>The key of an advisory lock fits a \<open>bigint\<close>, and two names share a key exactly when the first
  eight bytes of their hashes agree: no two of the 2 to the 64 prefixes collide.\<close>

theorem advisory_key_bigint:
  assumes "\<And>name. length (sha256 name) = 32"
  shows "- (2 ^ 63) \<le> advisory_key sha256 a \<and> advisory_key sha256 a < 2 ^ 63 \<and>
    (advisory_key sha256 a = advisory_key sha256 b \<longleftrightarrow> take 8 (sha256 a) = take 8 (sha256 b))"
proof -
  have "sint x = sint y \<longleftrightarrow> x = y" for x y :: "64 word" by (auto intro: signed_word_eqI)
  moreover have "(word_rcat (take 8 (sha256 a)) :: 64 word) = word_rcat (take 8 (sha256 b)) \<longleftrightarrow>
      take 8 (sha256 a) = take 8 (sha256 b)"
    using rcat_64_inj [of "take 8 (sha256 a)" "take 8 (sha256 b)"] assms by auto
  ultimately show ?thesis
    using sint_ge [of "word_rcat (take 8 (sha256 a)) :: 64 word"] sint_lt [of "word_rcat (take 8 (sha256 a)) :: 64 word"]
    by (simp add: advisory_key_def)
qed

definition demo_hash :: "string \<Rightarrow> 8 word list" where
  "demo_hash name = (if name = [] then 255 else 0) # replicate 31 1"

lemma advisory_key_bigint_witness:
  "advisory_key demo_hash [] \<noteq> advisory_key demo_hash ''a'' \<and> advisory_key demo_hash [] < 2 ^ 63"
  using advisory_key_bigint [of demo_hash "[]" "''a''"] by (simp add: demo_hash_def)

text \<open>
  The locks a session holds, with their counts, and whether its transaction has failed: the server then
  refuses every statement until the rollback.
\<close>

locale advisory_server =
  fixes exec :: "statement \<Rightarrow> ('w, string list) eff"
    and held :: "'w \<Rightarrow> int \<Rightarrow> nat" and failed :: "'w \<Rightarrow> bool"
  assumes locked: "exec (LockKey k) w = (Inr xs, w') \<Longrightarrow> held w' = (held w)(k := held w k + 1)"
    and unlocked: "\<not> failed w \<Longrightarrow> \<exists>ys w'. exec (UnlockKey k) w = (Inr ys, w') \<and> held w' = (held w)(k := held w k - 1)"
    and refused: "failed w \<Longrightarrow> \<exists>e w'. exec (UnlockKey k) w = (Inl e, w') \<and> is_exception e \<and> held w' = held w"

text \<open>Leaving an advisory lock gives the block's own outcome, whatever happens to the unlock, and
  releases the lock except in one case: when the block leaves its transaction failed, the unlock is
  refused and silently dropped, and the session keeps the lock.\<close>

theorem advisory_lock_release:
  assumes server: "advisory_server exec held failed"
    and got: "exec (LockKey key) w = (Inr xs, w1)"
    and block: "body w1 = (x, w2)" "held w2 = held w1"
  shows "\<exists>w'. advisory_lock exec key body w = (x, w') \<and>
    held w' = (if failed w2 then (held w)(key := held w key + 1) else held w)"
proof -
  note h = advisory_server.locked [OF server got]
  show ?thesis
  proof (cases "failed w2")
    case True
    from advisory_server.refused [OF server True, of key] obtain e w' where
      "exec (UnlockKey key) w2 = (Inl e, w')" "is_exception e" "held w' = held w2" by blast
    with got block h True show ?thesis
      by (simp add: advisory_lock_def ebind_def efinally_def etry_def)
  next
    case False
    from advisory_server.unlocked [OF server False, of key] obtain ys w' where
      "exec (UnlockKey key) w2 = (Inr ys, w')" "held w' = (held w2)(key := held w2 key - 1)" by blast
    with got block h False show ?thesis
      by (simp add: advisory_lock_def ebind_def efinally_def etry_def)
  qed
qed

definition demo_exec :: "statement \<Rightarrow> ((int \<Rightarrow> nat) \<times> bool, string list) eff" where
  "demo_exec q w =
     (if snd w then (Inl (PyException ''InFailedSqlTransactionError'' []), w)
      else case q of
             LockKey k \<Rightarrow> (Inr [[]], ((fst w)(k := fst w k + 1), snd w))
           | UnlockKey k \<Rightarrow> (Inr [[]], ((fst w)(k := fst w k - 1), snd w))
           | _ \<Rightarrow> (Inr [], w))"

interpretation demo_locks: advisory_server demo_exec fst snd
  by unfold_locales (auto simp: demo_exec_def split: if_splits)

lemma advisory_lock_release_witness:
  "\<exists>w'. advisory_lock demo_exec 7 (\<lambda>w. (Inl (PyException ''IntegrityError'' []) :: exn + unit, (fst w, True)))
      (\<lambda>k. 0, False) = (Inl (PyException ''IntegrityError'' []), w') \<and> fst w' 7 = 1"
  using advisory_lock_release [OF demo_locks.advisory_server_axioms,
      of 7 "(\<lambda>k. 0, False)" "[[]]" "((\<lambda>k. 0)(7 := 1), False)"
        "\<lambda>w. (Inl (PyException ''IntegrityError'' []) :: exn + unit, (fst w, True))"]
  by (fastforce simp: demo_exec_def)

section \<open>Properties of migrations\<close>

text \<open>
  What is committed, and the connections that have a transaction open. Every statement opens one;
  Alembic, configured on a connection with an open transaction, leaves the commit to its caller;
  closing a connection rolls back.
\<close>

locale migration_server =
  fixes M :: "('w, 'g, 'c) migrator" and durable :: "'w \<Rightarrow> 'd" and busy :: "'w \<Rightarrow> 'c set"
    and migrated :: "'d \<Rightarrow> 'd"
  assumes quiet: "ekeeps durable (mg_engine M)" "ekeeps durable (mg_dispose M g)"
      "ekeeps durable (mg_connect M g)" "ekeeps durable (mg_close M c)"
      "ekeeps durable (mg_schemas M c pat)" "ekeeps durable (mg_search_path M c schema)"
    and connected: "mg_connect M g w = (Inr c, w') \<Longrightarrow> c \<notin> busy w'"
    and path_set: "mg_search_path M c schema w = (Inr u, w') \<Longrightarrow> c \<in> busy w'"
    and run_inside: "c \<in> busy w \<Longrightarrow> mg_run M c p q i w = (x, w') \<Longrightarrow> durable w' = durable w"
    and run_alone: "c \<notin> busy w \<Longrightarrow> mg_run M c p q i w = (Inr u, w') \<Longrightarrow> durable w' = migrated (durable w)"
begin

lemma in_schema_keeps: "ekeeps durable (do_migrations_in_schema M c schema p q)"
proof -
  have "durable (snd (do_migrations_in_schema M c schema p q w)) = durable w" for w
  proof (cases "mg_search_path M c schema w")
    case (Pair y w1)
    note k = ekeepsD [OF quiet(6) Pair]
    show ?thesis
    proof (cases y)
      case (Inr u)
      obtain z w2 where r: "mg_run M c p q False w1 = (z, w2)" by (rule prod.exhaust)
      from run_inside [OF path_set r] Pair Inr k r show ?thesis
        by (simp add: do_migrations_in_schema_def ebind_def)
    qed (use Pair k in \<open>simp add: do_migrations_in_schema_def ebind_def\<close>)
  qed
  then show ?thesis by (simp add: ekeeps_def)
qed

lemma on_connection_keeps: "(\<And>c. ekeeps durable (body c)) \<Longrightarrow> ekeeps durable (on_connection M g body)"
  unfolding on_connection_def by (intro ekeeps_bind ekeeps_finally quiet)

lemma all_schemas_keep: "ekeeps durable (run_all_schemas M prefix p q)"
  unfolding run_all_schemas_def
  by (intro ekeeps_bind ekeeps_finally ekeeps_efold on_connection_keeps in_schema_keeps ekeeps_pure quiet)

lemma online_migrates:
  assumes "run_online M p q i w = (Inr (), w')"
  shows "durable w' = migrated (durable w)"
proof -
  from assms obtain g w1 c w2 w3 w4 u where e: "mg_engine M w = (Inr g, w1)" and c: "mg_connect M g w1 = (Inr c, w2)"
    and r: "mg_run M c p q i w2 = (Inr (), w3)" and x: "mg_close M c w3 = (Inr u, w4)"
    and d: "mg_dispose M g w4 = (Inr (), w')"
    by (auto simp: run_online_def on_connection_def ebind_eq_Inr efinally_eq_Inr)
  from ekeepsD [OF quiet(1) e] ekeepsD [OF quiet(3) c] run_alone [OF connected [OF c] r]
    ekeepsD [OF quiet(4) x] ekeepsD [OF quiet(2) d]
  show ?thesis by simp
qed

end

text \<open>Migrating every tenant schema changes nothing that is committed, although it returns the
  schemas as migrated: setting the search path opens the transaction that the migration then leaves
  uncommitted. The plain runner, on a fresh connection, does commit.\<close>

theorem schema_migrations_lost:
  assumes server: "migration_server M durable busy migrated"
  shows "durable (snd (run_all_schemas M prefix p q w)) = durable w \<and>
    (\<forall>w'. run_online M p q i w = (Inr (), w') \<longrightarrow> durable w' = migrated (durable w))"
  using migration_server.all_schemas_keep [OF server] migration_server.online_migrates [OF server]
  by (auto simp: ekeeps_def)

text \<open>Two schemas in a database whose version is a number, one connection at a time.\<close>

definition demo_migrator :: "(nat \<times> nat \<times> bool, unit, unit) migrator" where
  "demo_migrator =
     \<lparr>mg_engine = eret (), mg_dispose = (\<lambda>g. eret ()),
      mg_connect = (\<lambda>g (v, now, b). (Inr (), (v, v, False))),
      mg_close = (\<lambda>c (v, now, b). (Inr (), (v, v, False))),
      mg_schemas = (\<lambda>c pat. eret [''tenant_a'', ''tenant_b'']),
      mg_search_path = (\<lambda>c schema (v, now, b). (Inr (), (v, now, True))),
      mg_run = (\<lambda>c p q i (v, now, b). (Inr (), if b then (v, now + 1, True) else (v + 1, v + 1, False)))\<rparr>"

interpretation demo_migrations: migration_server demo_migrator fst "\<lambda>(v, now, b). if b then {()} else {}" Suc
  by unfold_locales (auto simp: demo_migrator_def ekeeps_def split: if_splits)

lemma schema_migrations_lost_witness:
  "fst (run_all_schemas demo_migrator ''tenant_'' True True (3, 3, False)) = Inr [''tenant_a'', ''tenant_b''] \<and>
   fst (snd (run_all_schemas demo_migrator ''tenant_'' True True (3, 3, False))) = 3"
  using schema_migrations_lost [OF demo_migrations.migration_server_axioms, of "''tenant_''" True True "(3, 3, False)" False]
  by (simp add: run_all_schemas_def on_connection_def do_migrations_in_schema_def demo_migrator_def ebind_def efinally_def)

section \<open>Search paths of pooled connections\<close>

text \<open>
  \<open>stored\<close> is the search path of each connection of the pool as a rollback restores it, \<open>held\<close> the
  connection a session has a transaction on, with the path that holds in it. A SET takes effect in the
  transaction; a commit makes it permanent and gives the connection back; closing rolls back.
\<close>

locale path_server =
  fixes A :: "('w, 'g, 'f, 'z) sqlalchemy" and exec :: "'z \<Rightarrow> statement \<Rightarrow> ('w, string list) eff"
    and commit :: "'z \<Rightarrow> ('w, unit) eff" and stored :: "'w \<Rightarrow> 'c \<Rightarrow> string list"
    and held :: "'w \<Rightarrow> 'z \<Rightarrow> ('c \<times> string list) option"
  assumes quiet: "ekeeps stored (sa_session A f)" "ekeeps stored (sa_close A z)"
      "ekeeps stored (exec z (SetSearchPath s))" "ekeeps stored (exec z ResetSearchPath)"
    and set_path: "exec z (SetSearchPath s) w = (Inr ys, w') \<Longrightarrow> \<exists>c. held w' z = Some (c, [s, ''public''])"
    and committed: "commit z w = (Inr u, w') \<Longrightarrow> held w z = Some (c, p) \<Longrightarrow> stored w' = (stored w)(c := p)"
begin

lemma schema_session_keeps: "(\<And>z. ekeeps stored (body z)) \<Longrightarrow> ekeeps stored (open_schema_session A exec f prefix t body)"
  unfolding open_schema_session_def by (intro ekeeps_bind ekeeps_finally quiet)

lemma commit_inside_stays:
  assumes work: "\<And>z. ekeeps (\<lambda>w. (stored w, held w)) (work z)" and rest: "\<And>z. ekeeps stored (rest z)"
    and run: "open_schema_session A exec f prefix t
      (\<lambda>z. ebind (work z) (\<lambda>_. ebind (commit z) (\<lambda>_. rest z))) w = (Inr v, w')"
  shows "\<exists>c. stored w' = (stored w)(c := [schema_name prefix t, ''public''])"
proof -
  from run obtain z w1 ys w2 a w3 u w4 w5 zs w6 n where o: "sa_session A f w = (Inr z, w1)"
    and s: "exec z (SetSearchPath (schema_name prefix t)) w1 = (Inr ys, w2)" and k: "work z w2 = (Inr a, w3)"
    and c: "commit z w3 = (Inr u, w4)" and r: "rest z w4 = (Inr v, w5)"
    and b: "exec z ResetSearchPath w5 = (Inr zs, w6)" and x: "sa_close A z w6 = (Inr n, w')"
    by (auto simp: open_schema_session_def ebind_eq_Inr efinally_eq_Inr)
  obtain conn where "held w2 z = Some (conn, [schema_name prefix t, ''public''])"
    using set_path [OF s] by (rule exE)
  with ekeepsD [OF work k] have "held w3 z = Some (conn, [schema_name prefix t, ''public''])" by simp
  from committed [OF c this] ekeepsD [OF quiet(1) o] ekeepsD [OF quiet(3) s] ekeepsD [OF work k]
    ekeepsD [OF rest r] ekeepsD [OF quiet(4) b] ekeepsD [OF quiet(2) x]
  show ?thesis by (intro exI [where x = conn]) simp
qed

end

text \<open>When the reset is refused, as it is in a failed transaction, the session is not closed.\<close>

lemma failed_reset_leaks:
  assumes "sa_session A f w = (Inr z, w1)" and "exec z (SetSearchPath (schema_name prefix t)) w1 = (Inr ys, w2)"
    and "body z w2 = (x, w3)" and "exec z ResetSearchPath w3 = (Inl e, w4)"
  shows "open_schema_session A exec f prefix t body w = (Inl e, w4)"
  using assms by (simp add: open_schema_session_def ebind_def efinally_def)


text \<open>A pool of one connection: the path it has for good, and the one in the open transaction.\<close>

type_synonym path_world = "string list \<times> string list option"

definition path_alchemy :: "(path_world, unit, unit, unit) sqlalchemy" where
  "path_alchemy =
     \<lparr>sa_engine = (\<lambda>url p echo. eret ()), sa_dispose = (\<lambda>g. eret ()), sa_factory = (\<lambda>g. g),
      sa_session = (\<lambda>f (s, h). (Inr (), (s, None))), sa_close = (\<lambda>z (s, h). (Inr (), (s, None))),
      sa_url_for = (\<lambda>base n. Inr n)\<rparr>"

fun path_exec :: "unit \<Rightarrow> statement \<Rightarrow> (path_world, string list) eff" where
  "path_exec z (SetSearchPath s) w = (Inr [], (fst w, Some [s, ''public'']))"
| "path_exec z ResetSearchPath w = (Inr [], (fst w, Some [''public'']))"
| "path_exec z q w = (Inr [], w)"

definition path_commit :: "unit \<Rightarrow> (path_world, unit) eff" where
  "path_commit z w = (Inr (), (get_or (snd w) (fst w), None))"

interpretation demo_paths: path_server path_alchemy path_exec path_commit "\<lambda>w (c::unit). fst w"
  "\<lambda>w z. map_option (Pair ()) (snd w)"
  by unfold_locales (auto simp: path_alchemy_def path_commit_def ekeeps_def)


end
