(* ===== verification/Qx_Observe.thy ===== *)
theory Qx_Observe
  imports Qx_Pipeline
begin

text \<open>
  The package \<open>qx-observability\<close>, what takes part in a dispatch: the span helper (\<open>tracing\<close>) and the two
  behaviours (\<open>behaviors\<close>). OpenTelemetry and the Prometheus client are arguments; the locale
  \<open>telemetry\<close> says that their calls return and leave alone what the handlers see.
\<close>

section \<open>Spans\<close>

text \<open>
  A tracer: starting a span, the end of its \<open>with\<close> block, and what the sources call on a span.
\<close>

record ('s, 'h) tracer =
  tr_start :: "string \<Rightarrow> (string \<times> string) list \<Rightarrow> ('s, 'h) eff"
  tr_exit :: "'h \<Rightarrow> exn option \<Rightarrow> ('s, unit) eff"
  tr_exception :: "'h \<Rightarrow> exn \<Rightarrow> ('s, unit) eff"
  tr_error :: "'h \<Rightarrow> string \<Rightarrow> ('s, unit) eff"
  tr_attribute :: "'h \<Rightarrow> string \<Rightarrow> string \<Rightarrow> ('s, unit) eff"
  tr_event :: "'h \<Rightarrow> string \<Rightarrow> (string \<times> string) list \<Rightarrow> ('s, unit) eff"

definition with_span :: "('s, 'h) tracer \<Rightarrow> 'h \<Rightarrow> ('s, 'a) eff \<Rightarrow> ('s, 'a) eff" where
  "with_span T h body s =
     (case body s of
        (Inl e, s1) \<Rightarrow> ebind (tr_exit T h (Some e)) (\<lambda>_. eraise e) s1
      | (Inr x, s1) \<Rightarrow> ebind (tr_exit T h None) (\<lambda>_. eret x) s1)"

definition marking_errors :: "('s, 'h) tracer \<Rightarrow> 'h \<Rightarrow> ('s, 'a) eff \<Rightarrow> ('s, 'a) eff" where
  "marking_errors T h body =
     etry_all body (\<lambda>e. ebind (tr_exception T h e) (\<lambda>_. ebind (tr_error T h (exn_str e)) (\<lambda>_. eraise e)))"

definition dict_setdefault :: "string \<Rightarrow> 'v \<Rightarrow> (string \<times> 'v) list \<Rightarrow> (string \<times> 'v) list" where
  "dict_setdefault k v d = (case map_of d k of None \<Rightarrow> d @ [(k, v)] | Some w \<Rightarrow> d)"

definition span_defaults :: "'a request_context \<Rightarrow> (string \<times> string) list \<Rightarrow> (string \<times> string) list" where
  "span_defaults ctx d =
     (let c = dict_setdefault ''qx.correlation_id'' (str_of_uuid (rc_correlation_id ctx)) d;
          t = (case rc_tenant_id ctx of None \<Rightarrow> c | Some u \<Rightarrow> dict_setdefault ''qx.tenant_id'' (str_of_uuid u) c)
      in case rc_user_id ctx of None \<Rightarrow> t | Some u \<Rightarrow> dict_setdefault ''enduser.id'' (str_of_uuid u) t)"

definition trace_span ::
  "('s, 'h) tracer \<Rightarrow> ('s \<Rightarrow> 'a request_context) \<Rightarrow> string \<Rightarrow> (string \<times> string) list
     \<Rightarrow> ('h \<Rightarrow> ('s, 'b) eff) \<Rightarrow> ('s, 'b) eff" where
  "trace_span T rc name attrs body s =
     ebind (tr_start T name (span_defaults (rc s) attrs)) (\<lambda>h.
       with_span T h (marking_errors T h (body h))) s"

section \<open>Behaviours\<close>

definition kind_text :: "message_kind \<Rightarrow> string option" where
  "kind_text k =
     (if k = CommandMsg then Some ''command'' else if k = QueryMsg then Some ''query'' else None)"

definition dispatch_attributes :: "string \<Rightarrow> message \<Rightarrow> 'a request_context \<Rightarrow> (string \<times> string) list" where
  "dispatch_attributes kind msg ctx =
     [(''qx.message_type'', kind), (''qx.message_class'', ms_class msg),
      (''qx.correlation_id'', str_of_uuid (rc_correlation_id ctx))] @
     (case rc_tenant_id ctx of None \<Rightarrow> [] | Some u \<Rightarrow> [(''qx.tenant_id'', str_of_uuid u)]) @
     (case rc_user_id ctx of None \<Rightarrow> [] | Some u \<Rightarrow> [(''enduser.id'', str_of_uuid u)])"

definition record_outcome :: "('s, 'h) tracer \<Rightarrow> 'h \<Rightarrow> 'v result \<Rightarrow> ('s, unit) eff" where
  "record_outcome T h result =
     (case result of
        Success v md \<Rightarrow> tr_attribute T h ''qx.outcome'' ''success''
      | Failure err md \<Rightarrow>
          ebind (tr_attribute T h ''qx.outcome'' ''failure'') (\<lambda>_.
          ebind (tr_attribute T h ''qx.error_code'' (err_code err)) (\<lambda>_.
          ebind (tr_attribute T h ''qx.error_category'' (category (err_class err))) (\<lambda>_.
            tr_event T h ''handler_failed'' [(''error_code'', err_code err)]))))"

definition tracing_handle ::
  "('s, 'h) tracer \<Rightarrow> ('s \<Rightarrow> 'a request_context) \<Rightarrow> (message, 's, 'v) behavior" where
  "tracing_handle T rc msg nxt s =
     (case kind_text (ms_kind msg) of
        None \<Rightarrow> nxt msg s
      | Some kind \<Rightarrow>
          ebind (tr_start T (''qx.'' @ kind @ ''.'' @ ms_class msg) (dispatch_attributes kind msg (rc s))) (\<lambda>h.
            with_span T h
              (ebind (marking_errors T h (nxt msg)) (\<lambda>result.
                 ebind (record_outcome T h result) (\<lambda>_. eret result)))) s)"

text \<open>The counters and histograms of a dispatch, by kind, message class and outcome.\<close>

record 's dispatch_metrics =
  dm_total :: "string \<Rightarrow> string \<Rightarrow> string \<Rightarrow> ('s, unit) eff"
  dm_duration :: "string \<Rightarrow> string \<Rightarrow> string \<Rightarrow> rat \<Rightarrow> ('s, unit) eff"

definition metrics_handle ::
  "'s dispatch_metrics \<Rightarrow> ('s, rat) eff \<Rightarrow> (message, 's, 'v) behavior" where
  "metrics_handle M perf_counter msg nxt =
     (case kind_text (ms_kind msg) of
        None \<Rightarrow> nxt msg
      | Some kind \<Rightarrow>
          ebind perf_counter (\<lambda>start.
          ebind (nxt msg) (\<lambda>result.
          ebind perf_counter (\<lambda>now.
            let outcome = (if is_success result then ''success'' else ''failure'')
            in ebind (dm_total M kind (ms_class msg) outcome) (\<lambda>_.
               ebind (dm_duration M kind (ms_class msg) outcome (now - start)) (\<lambda>_.
                 eret result))))))"

section \<open>Two computations that a handler cannot tell apart\<close>

text \<open>
  \<open>obs\<close> is what the handlers see of the state. A quiet call returns and leaves it alone; two calls
  agree when equal views give equal outcomes and equal views.
\<close>

definition quiet :: "('s \<Rightarrow> 'o) \<Rightarrow> ('s, 'a) eff \<Rightarrow> bool" where
  "quiet obs m \<longleftrightarrow> (\<forall>s. \<exists>x s'. m s = (Inr x, s') \<and> obs s' = obs s)"

definition agree :: "('s \<Rightarrow> 'o) \<Rightarrow> ('s, 'a) eff \<Rightarrow> ('s, 'a) eff \<Rightarrow> bool" where
  "agree obs m n \<longleftrightarrow>
     (\<forall>s t. obs s = obs t \<longrightarrow> fst (m s) = fst (n t) \<and> obs (snd (m s)) = obs (snd (n t)))"

definition transparent :: "('s \<Rightarrow> 'o) \<Rightarrow> ('m, 's, 'v) behavior \<Rightarrow> bool" where
  "transparent obs b \<longleftrightarrow>
     (\<forall>msg n n'. (\<forall>m. agree obs (n m) (n' m)) \<longrightarrow> agree obs (b msg n) (n' msg))"

definition blind :: "('s \<Rightarrow> 'o) \<Rightarrow> ('m, 's, 'v) behavior \<Rightarrow> bool" where
  "blind obs b \<longleftrightarrow>
     (\<forall>msg n n'. (\<forall>m. agree obs (n m) (n' m)) \<longrightarrow> agree obs (b msg n) (b msg n'))"

lemma quietE:
  assumes "quiet obs m" obtains x s' where "m s = (Inr x, s')" "obs s' = obs s"
  using assms unfolding quiet_def by blast

lemma quiet_eret [simp, intro]: "quiet obs (eret x)"
  by (simp add: quiet_def)

lemma quiet_bind:
  assumes "quiet obs m" "\<And>x. quiet obs (f x)"
  shows "quiet obs (ebind m f)"
  unfolding quiet_def
proof
  fix s
  obtain x s1 where 1: "m s = (Inr x, s1)" "obs s1 = obs s" by (rule quietE [OF assms(1)])
  obtain y s2 where "f x s1 = (Inr y, s2)" "obs s2 = obs s1" by (rule quietE [OF assms(2)])
  with 1 show "\<exists>x s'. ebind m f s = (Inr x, s') \<and> obs s' = obs s" by (simp add: ebind_def)
qed

lemma agreeI:
  "(\<And>s t. obs s = obs t \<Longrightarrow> fst (m s) = fst (n t) \<and> obs (snd (m s)) = obs (snd (n t))) \<Longrightarrow> agree obs m n"
  by (simp add: agree_def)

lemma agreeD:
  "agree obs m n \<Longrightarrow> obs s = obs t \<Longrightarrow> fst (m s) = fst (n t) \<and> obs (snd (m s)) = obs (snd (n t))"
  by (simp add: agree_def)

text \<open>A quiet call before, or between the result and its return, is not noticed.\<close>

lemma agree_quiet_first:
  assumes "quiet obs q" "\<And>x. agree obs (f x) n"
  shows "agree obs (ebind q f) n"
proof (rule agreeI)
  fix s t assume e: "obs s = obs t"
  obtain x s1 where 1: "q s = (Inr x, s1)" "obs s1 = obs s" by (rule quietE [OF assms(1)])
  from agreeD [OF assms(2) [of x], of s1 t] 1 e
  show "fst (ebind q f s) = fst (n t) \<and> obs (snd (ebind q f s)) = obs (snd (n t))"
    by (simp add: ebind_def)
qed

lemma agree_quiet_last:
  assumes "agree obs m n" "\<And>x. quiet obs (q x)"
  shows "agree obs (ebind m (\<lambda>x. ebind (q x) (\<lambda>_. eret x))) n"
proof (rule agreeI)
  fix s t assume e: "obs s = obs t"
  obtain y s1 where m: "m s = (y, s1)" by (rule prod.exhaust)
  note a = agreeD [OF assms(1) e]
  show "fst (ebind m (\<lambda>x. ebind (q x) (\<lambda>_. eret x)) s) = fst (n t) \<and>
      obs (snd (ebind m (\<lambda>x. ebind (q x) (\<lambda>_. eret x)) s)) = obs (snd (n t))"
  proof (cases y)
    case (Inr x)
    obtain u s2 where "q x s1 = (Inr u, s2)" "obs s2 = obs s1" by (rule quietE [OF assms(2)])
    moreover from a m Inr have "fst (n t) = Inr x" "obs s1 = obs (snd (n t))" by simp_all
    ultimately show ?thesis using m Inr by (simp add: ebind_def)
  next
    case (Inl x)
    from a m Inl have "fst (n t) = Inl x" "obs s1 = obs (snd (n t))" by simp_all
    then show ?thesis using m Inl by (simp add: ebind_def)
  qed
qed

lemma agree_try_all:
  assumes "agree obs m n" "\<And>e. quiet obs (q e)"
  shows "agree obs (etry_all m (\<lambda>e. ebind (q e) (\<lambda>_. eraise e))) n"
proof (rule agreeI)
  fix s t assume e: "obs s = obs t"
  obtain y s1 where m: "m s = (y, s1)" by (rule prod.exhaust)
  note a = agreeD [OF assms(1) e]
  show "fst (etry_all m (\<lambda>e. ebind (q e) (\<lambda>_. eraise e)) s) = fst (n t) \<and>
      obs (snd (etry_all m (\<lambda>e. ebind (q e) (\<lambda>_. eraise e)) s)) = obs (snd (n t))"
  proof (cases y)
    case (Inl x)
    obtain u s2 where "q x s1 = (Inr u, s2)" "obs s2 = obs s1" by (rule quietE [OF assms(2)])
    moreover from a m Inl have "fst (n t) = Inl x" "obs s1 = obs (snd (n t))" by simp_all
    ultimately show ?thesis using m Inl by (simp add: etry_all_def ebind_def)
  next
    case (Inr x)
    from a m Inr have "fst (n t) = Inr x" "obs s1 = obs (snd (n t))" by simp_all
    then show ?thesis using m Inr by (simp add: etry_all_def)
  qed
qed

lemma agree_span:
  assumes "agree obs m n" "\<And>h e. quiet obs (tr_exit T h e)"
  shows "agree obs (with_span T h m) n"
proof (rule agreeI)
  fix s t assume e: "obs s = obs t"
  obtain y s1 where m: "m s = (y, s1)" by (rule prod.exhaust)
  note a = agreeD [OF assms(1) e]
  show "fst (with_span T h m s) = fst (n t) \<and> obs (snd (with_span T h m s)) = obs (snd (n t))"
  proof (cases y)
    case (Inl x)
    obtain u s2 where "tr_exit T h (Some x) s1 = (Inr u, s2)" "obs s2 = obs s1" by (rule quietE [OF assms(2)])
    moreover from a m Inl have "fst (n t) = Inl x" "obs s1 = obs (snd (n t))" by simp_all
    ultimately show ?thesis using m Inl by (simp add: with_span_def ebind_def)
  next
    case (Inr x)
    obtain u s2 where "tr_exit T h None s1 = (Inr u, s2)" "obs s2 = obs s1" by (rule quietE [OF assms(2)])
    moreover from a m Inr have "fst (n t) = Inr x" "obs s1 = obs (snd (n t))" by simp_all
    ultimately show ?thesis using m Inr by (simp add: with_span_def ebind_def)
  qed
qed

lemma transparent_chain:
  fixes bs :: "(bool \<times> ('m, 's, 'v) behavior) list"
  assumes "\<And>b. (True, b) \<in> set bs \<Longrightarrow> transparent obs b" "\<And>b. (False, b) \<in> set bs \<Longrightarrow> blind obs b"
    and "\<And>m. agree obs (terminal m) (terminal m)"
  shows "agree obs (compose_chain False otel (map snd bs) terminal msg)
    (compose_chain False otel (map snd (filter (\<lambda>b. \<not> fst b) bs)) terminal msg)"
  using assms
proof (induction bs arbitrary: msg)
  case Nil
  then show ?case by (simp add: compose_chain_def)
next
  case (Cons b bs)
  have ih: "agree obs (compose_chain False otel (map snd bs) terminal m)
      (compose_chain False otel (map snd (filter (\<lambda>b. \<not> fst b) bs)) terminal m)" for m
    using Cons.IH Cons.prems by simp
  obtain mark h where b: "b = (mark, h)" by (rule prod.exhaust)
  show ?case
  proof (cases mark)
    case True
    then have "transparent obs h" using Cons.prems(1) [of h] b by simp
    with ih b True show ?thesis by (simp add: transparent_def compose_chain_def run_behavior_def)
  next
    case False
    then have "blind obs h" using Cons.prems(2) [of h] b by simp
    with ih b False show ?thesis by (simp add: blind_def compose_chain_def run_behavior_def)
  qed
qed

section \<open>Telemetry\<close>

locale telemetry =
  fixes obs :: "'s \<Rightarrow> 'o" and T :: "('s, 'h) tracer" and M :: "'s dispatch_metrics"
    and perf_counter :: "('s, rat) eff" and emit :: "log_record \<Rightarrow> ('s, unit) eff"
  assumes tracer: "quiet obs (tr_start T name attrs)" "quiet obs (tr_exit T h ending)"
      "quiet obs (tr_exception T h e)" "quiet obs (tr_error T h txt)" "quiet obs (tr_attribute T h k v)"
      "quiet obs (tr_event T h name attrs)"
    and meters: "quiet obs (dm_total M kind cls out)" "quiet obs (dm_duration M kind cls out d)"
    and clock: "quiet obs perf_counter" and logger: "quiet obs (emit entry)"
begin

lemma marking_agree: "agree obs m n \<Longrightarrow> agree obs (marking_errors T h m) n"
  unfolding marking_errors_def
  using agree_try_all [of obs m n "\<lambda>e. ebind (tr_exception T h e) (\<lambda>_. tr_error T h (exn_str e))"]
  by (simp add: quiet_bind tracer ebind_assoc)

lemma outcome_quiet: "quiet obs (record_outcome T h result)"
  unfolding record_outcome_def by (cases result) (simp_all add: quiet_bind tracer)

lemma tracing_transparent: "transparent obs (tracing_handle T rc)"
  unfolding transparent_def
proof (intro allI impI)
  fix msg and n n' :: "message \<Rightarrow> ('s, 'v result) eff"
  assume n: "\<forall>m. agree obs (n m) (n' m)"
  show "agree obs (tracing_handle T rc msg n) (n' msg)"
  proof (cases "kind_text (ms_kind msg)")
    case None
    then have "tracing_handle T rc msg n = n msg" by (simp add: tracing_handle_def fun_eq_iff)
    with n show ?thesis by simp
  next
    case (Some kind)
    let ?body = "\<lambda>h. with_span T h (ebind (marking_errors T h (n msg)) (\<lambda>result.
        ebind (record_outcome T h result) (\<lambda>_. eret result)))"
    have b: "agree obs (?body h) (n' msg)" for h
      by (intro agree_span agree_quiet_last marking_agree outcome_quiet tracer) (use n in blast)
    show ?thesis
    proof (rule agreeI)
      fix s t assume "obs s = obs t"
      with agreeD [OF agree_quiet_first [OF tracer(1) b]] Some
      show "fst (tracing_handle T rc msg n s) = fst (n' msg t) \<and>
          obs (snd (tracing_handle T rc msg n s)) = obs (snd (n' msg t))"
        by (simp add: tracing_handle_def)
    qed
  qed
qed

lemma metrics_transparent: "transparent obs (metrics_handle M perf_counter)"
  unfolding transparent_def
proof (intro allI impI)
  fix msg and n n' :: "message \<Rightarrow> ('s, 'v result) eff"
  assume n: "\<forall>m. agree obs (n m) (n' m)"
  show "agree obs (metrics_handle M perf_counter msg n) (n' msg)"
  proof (cases "kind_text (ms_kind msg)")
    case None
    with n show ?thesis by (simp add: metrics_handle_def)
  next
    case (Some kind)
    let ?q = "\<lambda>start result. ebind perf_counter (\<lambda>now.
        ebind (dm_total M kind (ms_class msg) (if is_success result then ''success'' else ''failure'')) (\<lambda>_.
          dm_duration M kind (ms_class msg) (if is_success result then ''success'' else ''failure'') (now - start)))"
    have "agree obs (ebind (n msg) (\<lambda>result. ebind (?q start result) (\<lambda>_. eret result))) (n' msg)" for start
      by (intro agree_quiet_last quiet_bind clock meters) (use n in blast)
    then have "agree obs (ebind perf_counter (\<lambda>start.
        ebind (n msg) (\<lambda>result. ebind (?q start result) (\<lambda>_. eret result)))) (n' msg)"
      by (rule agree_quiet_first [OF clock])
    with Some show ?thesis by (simp add: metrics_handle_def Let_def ebind_assoc)
  qed
qed

lemma logging_transparent: "transparent obs (logging_handle emit perf_counter rc)"
  unfolding transparent_def
proof (intro allI impI)
  fix msg and n n' :: "message \<Rightarrow> ('s, 'v result) eff"
  assume n: "\<forall>m. agree obs (n m) (n' m)"
  show "agree obs (logging_handle emit perf_counter rc msg n) (n' msg)"
  proof (rule agreeI)
    fix s t assume e: "obs s = obs t"
    let ?e = "\<lambda>level code cat d. \<lparr>lg_level = level, lg_message_type = ms_class msg, lg_error_code = code,
        lg_error_category = cat, lg_correlation_id = rc_correlation_id (rc s), lg_duration_ms = d * 1000\<rparr>"
    let ?fail = "\<lambda>start. ebind perf_counter (\<lambda>now. emit (?e ''exception'' None None (now - start)))"
    let ?done = "\<lambda>start result. ebind perf_counter (\<lambda>now. case result of
        Success v md \<Rightarrow> emit (?e ''info'' None None (now - start))
      | Failure err md \<Rightarrow> emit (?e (log_failure_level err) (Some (err_code err)) (Some (category (err_class err))) (now - start)))"
    have d: "quiet obs (?done start result)" for start result
      by (cases result) (simp_all add: quiet_bind clock logger)
    have f: "quiet obs (?fail start)" for start
      by (simp add: quiet_bind clock logger)
    have "agree obs (ebind perf_counter (\<lambda>start.
        ebind (etry_all (n msg) (\<lambda>x. ebind (?fail start) (\<lambda>_. eraise x)))
          (\<lambda>result. ebind (?done start result) (\<lambda>_. eret result)))) (n' msg)"
      by (intro agree_quiet_first [OF clock] agree_quiet_last agree_try_all d f) (use n in blast)
    from agreeD [OF this e]
    show "fst (logging_handle emit perf_counter rc msg n s) = fst (n' msg t) \<and>
        obs (snd (logging_handle emit perf_counter rc msg n s)) = obs (snd (n' msg t))"
      by (simp add: logging_handle_def Let_def ebind_assoc)
  qed
qed

lemma trace_span_agree: "(\<And>h. agree obs (body h) n) \<Longrightarrow> agree obs (trace_span T rc name attrs body) n"
proof (rule agreeI)
  fix s t assume b: "\<And>h. agree obs (body h) n" and e: "obs s = obs t"
  have "agree obs (with_span T h (marking_errors T h (body h))) n" for h
    by (intro agree_span marking_agree b tracer)
  from agreeD [OF agree_quiet_first [OF tracer(1) this] e]
  show "fst (trace_span T rc name attrs body s) = fst (n t) \<and>
      obs (snd (trace_span T rc name attrs body s)) = obs (snd (n t))"
    by (simp add: trace_span_def)
qed

end

section \<open>The chain with and without telemetry\<close>

lemma agree_bind:
  assumes "agree obs m n" "\<And>x. agree obs (f x) (g x)"
  shows "agree obs (ebind m f) (ebind n g)"
proof (rule agreeI)
  fix s t assume e: "obs s = obs t"
  obtain y s1 where m: "m s = (y, s1)" by (rule prod.exhaust)
  from agreeD [OF assms(1) e] m obtain t1 where n: "n t = (y, t1)" "obs s1 = obs t1" by (metis prod.collapse fst_conv snd_conv)
  show "fst (ebind m f s) = fst (ebind n g t) \<and> obs (snd (ebind m f s)) = obs (snd (ebind n g t))"
    using m n agreeD [OF assms(2) n(2)] by (cases y) (simp_all add: ebind_def)
qed

lemma agree_eret [simp, intro]: "agree obs (eret x) (eret x)" "agree obs (eraise e) (eraise e)" "agree obs (Pair r) (Pair r)"
  by (simp_all add: agree_def)

lemma translation_blind:
  fixes obs :: "'s \<Rightarrow> 'o"
  shows "blind obs (exception_translation_handle :: ('m, 's, 'v) behavior)"
proof -
  have "agree obs (etry_all m (\<lambda>e. eret (h e))) (etry_all n (\<lambda>e. eret (h e)))" if "agree obs m n"
    for m n :: "('s, 'v result) eff" and h
  proof (rule agreeI)
    fix s t assume e: "obs s = obs t"
    obtain y s1 where m: "m s = (y, s1)" by (rule prod.exhaust)
    from agreeD [OF that e] m obtain t1 where "n t = (y, t1)" "obs s1 = obs t1" by (metis prod.collapse fst_conv snd_conv)
    with m show "fst (etry_all m (\<lambda>e. eret (h e)) s) = fst (etry_all n (\<lambda>e. eret (h e)) t) \<and>
        obs (snd (etry_all m (\<lambda>e. eret (h e)) s)) = obs (snd (etry_all n (\<lambda>e. eret (h e)) t))"
      by (cases y) (simp_all add: etry_all_def)
  qed
  then show ?thesis by (simp add: blind_def exception_translation_handle_def)
qed

lemma retry_blind:
  fixes obs :: "'s \<Rightarrow> 'o"
  assumes "agree obs uniform uniform" "\<And>d. agree obs (sleep d) (sleep d)"
  shows "blind obs (retry_handle cfg uniform sleep :: ('m, 's, 'v) behavior)"
proof -
  have "agree obs (retry_loop cfg uniform sleep c k prev) (retry_loop cfg uniform sleep c' k prev)"
    if c: "agree obs c c'" for c c' :: "('s, 'v result) eff" and k prev
  proof (induction k arbitrary: prev)
    case 0
    then show ?case by (cases prev) simp_all
  next
    case (Suc k)
    have d: "agree obs (if b then ebind uniform (\<lambda>u. sleep (f u)) else eret ())
        (if b then ebind uniform (\<lambda>u. sleep (f u)) else eret ())" for b f
      by (simp add: agree_bind assms)
    show ?case
      unfolding retry_loop.simps
      by (rule agree_bind [OF c]) (auto intro!: agree_bind Suc assms)
  qed
  then show ?thesis by (simp add: blind_def retry_handle_def)
qed

text \<open>C28: Telemetry does not change a dispatch: with the tracing, metrics and logging behaviours at any
  places of the pipeline, in any number, the outcome and everything the handlers see are those of the
  pipeline without them, as long as the telemetry calls return and the other behaviours do not look at
  what telemetry records.\<close>

theorem telemetry_transparent:
  assumes tel: "telemetry obs T M perf_counter emit"
    and marked: "\<And>b. (True, b) \<in> set bs \<Longrightarrow>
      b \<in> {tracing_handle T rc, metrics_handle M perf_counter, logging_handle emit perf_counter rc}"
    and others: "\<And>b. (False, b) \<in> set bs \<Longrightarrow> blind obs b"
    and handler: "\<And>m. agree obs (terminal m) (terminal m)" and same: "obs s = obs t"
  shows "fst (compose_chain False otel (map snd bs) terminal msg s) =
      fst (compose_chain False otel (map snd (filter (\<lambda>b. \<not> fst b) bs)) terminal msg t) \<and>
    obs (snd (compose_chain False otel (map snd bs) terminal msg s)) =
      obs (snd (compose_chain False otel (map snd (filter (\<lambda>b. \<not> fst b) bs)) terminal msg t))"
proof -
  have "transparent obs b" if "(True, b) \<in> set bs" for b
    using marked [OF that] telemetry.tracing_transparent [OF tel] telemetry.metrics_transparent [OF tel]
      telemetry.logging_transparent [OF tel] by blast
  from agreeD [OF transparent_chain [OF this others handler] same] show ?thesis .
qed

text \<open>Telemetry that only writes lines beside the handlers' state.\<close>

definition note_line :: "string \<Rightarrow> ('s \<times> string list, unit) eff" where
  "note_line txt = on_snd (emodify (\<lambda>ls. ls @ [txt]))"

definition line_tracer :: "('s \<times> string list, unit) tracer" where
  "line_tracer =
     \<lparr>tr_start = (\<lambda>name attrs. note_line name), tr_exit = (\<lambda>h e. note_line ''end''),
      tr_exception = (\<lambda>h e. note_line (exn_str e)), tr_error = (\<lambda>h d. note_line d),
      tr_attribute = (\<lambda>h k v. note_line v), tr_event = (\<lambda>h name attrs. note_line name)\<rparr>"

definition line_metrics :: "('s \<times> string list) dispatch_metrics" where
  "line_metrics =
     \<lparr>dm_total = (\<lambda>kind cls out. note_line out), dm_duration = (\<lambda>kind cls out d. note_line cls)\<rparr>"

lemma note_line_quiet: "quiet fst (note_line txt)"
  by (simp add: quiet_def note_line_def on_snd_def)

interpretation line_telemetry: telemetry fst line_tracer line_metrics "eret 0" "\<lambda>entry. note_line (lg_level entry)"
  by unfold_locales (simp_all add: line_tracer_def line_metrics_def note_line_quiet)

definition count_handler :: "message \<Rightarrow> (nat \<times> string list, nat result) eff" where
  "count_handler msg st = (Inr (Success (fst st) []), (Suc (fst st), snd st))"

lemma telemetry_transparent_witness:
  "let bs = [tracing_handle line_tracer (\<lambda>st. demo_ctx), exception_translation_handle, metrics_handle line_metrics (eret 0)];
       msg = \<lparr>ms_class = ''Pay'', ms_kind = CommandMsg, ms_fields = []\<rparr>
   in fst (compose_chain False True bs count_handler msg (3, [])) =
        fst (compose_chain False True [exception_translation_handle] count_handler msg (3, [])) \<and>
      snd (snd (compose_chain False True bs count_handler msg (3, []))) =
        [''qx.command.Pay'', ''success'', ''Pay'', ''success'', ''end'']"
proof -
  let ?bs = "[(True, tracing_handle line_tracer (\<lambda>st. demo_ctx)), (False, exception_translation_handle),
      (True, metrics_handle line_metrics (eret 0))] :: (bool \<times> (message, nat \<times> string list, nat) behavior) list"
  let ?msg = "\<lparr>ms_class = ''Pay'', ms_kind = CommandMsg, ms_fields = []\<rparr>"
  have "fst (compose_chain False True (map snd ?bs) count_handler ?msg (3, [])) =
      fst (compose_chain False True (map snd (filter (\<lambda>b. \<not> fst b) ?bs)) count_handler ?msg (3, []))"
    using telemetry_transparent [OF line_telemetry.telemetry_axioms, of ?bs "\<lambda>st. demo_ctx" count_handler
        "(3, [])" "(3, [])" True ?msg] translation_blind
    by (auto simp: agree_def count_handler_def)
  moreover have "snd (snd (compose_chain False True (map snd ?bs) count_handler ?msg (3, []))) =
      [''qx.command.Pay'', ''success'', ''Pay'', ''success'', ''end'']"
    by (simp add: compose_chain_def run_behavior_def tracing_handle_def metrics_handle_def kind_text_def
        exception_translation_handle_def line_tracer_def line_metrics_def note_line_def with_span_def
        marking_errors_def record_outcome_def count_handler_def ebind_def etry_all_def)
  ultimately show ?thesis by (simp add: Let_def)
qed

end
