(* ===== verification/Qx_Testing.thy ===== *)
theory Qx_Testing
  imports Qx_Repository Qx_Mediator
begin

text \<open>
  The package \<open>qx-testing\<close>, the doubles for handlers (\<open>doubles\<close>): the repository stub, the mediator
  stub and the flag client stub; and the flag client they stand for (\<open>qx-flags\<close>). The stub keeps
  the entity objects it is given, so its model has them in a heap; the search double is in
  \<open>Qx_Search\<close>.
\<close>

section \<open>The repository stub\<close>

text \<open>An entity object is a number in the heap; \<open>sb_store\<close> maps ids to objects.\<close>

record stub =
  sb_heap :: "nat \<Rightarrow> entity"
  sb_store :: "(uuid \<times> nat) list"
  sb_deleted :: "uuid set"

definition stub_init :: "(nat \<Rightarrow> entity) \<Rightarrow> stub" where
  "stub_init heap = \<lparr>sb_heap = heap, sb_store = [], sb_deleted = {}\<rparr>"

definition stub_put :: "nat \<Rightarrow> stub \<Rightarrow> stub" where
  "stub_put r st = st\<lparr>sb_store := AList.update (en_id (sb_heap st r)) r (sb_store st)\<rparr>"

definition stub_preload :: "nat list \<Rightarrow> (stub, unit) eff" where
  "stub_preload rs = efold (\<lambda>r. emodify (stub_put r)) rs"

definition stub_missing :: "uuid \<Rightarrow> error" where
  "stub_missing i = mk_error NotFoundError ''not_found'' (str_of_uuid i)"

definition stub_get :: "uuid \<Rightarrow> bool \<Rightarrow> (stub, nat result) eff" where
  "stub_get i include_deleted st =
     (if i \<in> sb_deleted st \<and> \<not> include_deleted then (Inr (result_failure (stub_missing i) []), st)
      else case map_of (sb_store st) i of
             None \<Rightarrow> (Inr (result_failure (stub_missing i) []), st)
           | Some r \<Rightarrow> (Inr (result_success r []), st))"

definition stub_exists :: "uuid \<Rightarrow> (stub, bool) eff" where
  "stub_exists i st = (Inr (map_of (sb_store st) i \<noteq> None \<and> i \<notin> sb_deleted st), st)"

definition stub_list :: "offset_pagination \<Rightarrow> bool \<Rightarrow> (stub, nat offset_page) eff" where
  "stub_list p include_deleted st =
     (let items = map snd (filter (\<lambda>(i, r). include_deleted \<or> i \<notin> sb_deleted st) (sb_store st))
      in (Inr \<lparr>pg_items = take (op_page_size p) (drop (pagination_offset p) items), pg_page = op_page p,
               pg_page_size = op_page_size p, pg_total = length items\<rparr>, st))"

definition stub_add :: "nat \<Rightarrow> (stub, nat result) eff" where
  "stub_add r st =
     (let i = en_id (sb_heap st r)
      in if map_of (sb_store st) i \<noteq> None
         then (Inr (result_failure (mk_error ConflictError ''duplicate''
                (''id '' @ str_of_uuid i @ '' exists'')) []), st)
         else (Inr (result_success r []), stub_put r st))"

definition raise_version :: "nat \<Rightarrow> stub \<Rightarrow> stub" where
  "raise_version r st =
     st\<lparr>sb_heap := (sb_heap st)(r := (sb_heap st r)\<lparr>en_version := en_version (sb_heap st r) + 1\<rparr>)\<rparr>"

definition stub_save :: "nat \<Rightarrow> (stub, nat result) eff" where
  "stub_save r st =
     (let e = sb_heap st r
      in case map_of (sb_store st) (en_id e) of
           None \<Rightarrow> (Inr (result_failure (stub_missing (en_id e)) []), st)
         | Some r0 \<Rightarrow>
             (let existing = sb_heap st r0
              in if en_version existing \<noteq> en_version e
                 then (Inr (result_failure (mk_error ConflictError ''version_conflict''
                        (''expected v'' @ str_of_int (en_version existing) @ '', got v'' @ str_of_int (en_version e))) []), st)
                 else (Inr (result_success r []), stub_put r (raise_version r st))))"

definition stub_soft_delete :: "uuid \<Rightarrow> (stub, unit result) eff" where
  "stub_soft_delete i st =
     (if map_of (sb_store st) i = None then (Inr (result_failure (stub_missing i) []), st)
      else (Inr (result_success () []), st\<lparr>sb_deleted := insert i (sb_deleted st)\<rparr>))"

definition stub_hard_delete :: "uuid \<Rightarrow> (stub, unit result) eff" where
  "stub_hard_delete i st =
     (if map_of (sb_store st) i = None then (Inr (result_failure (stub_missing i) []), st)
      else (Inr (result_success () []),
            st\<lparr>sb_store := AList.delete i (sb_store st), sb_deleted := sb_deleted st - {i}\<rparr>))"

section \<open>The mediator stub\<close>

text \<open>Handlers by message class; \<open>ms_log\<close> is \<open>published_domain\<close>.\<close>

record ('s, 'v) mediator_stub =
  mt_commands :: "(string \<times> (message \<Rightarrow> ('s, 'v result) eff)) list"
  mt_queries :: "(string \<times> (message \<Rightarrow> ('s, 'v result) eff)) list"

definition stub_register_command ::
  "string \<Rightarrow> (message \<Rightarrow> ('s, 'v result) eff) \<Rightarrow> ('s, 'v) mediator_stub \<Rightarrow> ('s, 'v) mediator_stub" where
  "stub_register_command cls h ms = ms\<lparr>mt_commands := AList.update cls h (mt_commands ms)\<rparr>"

definition stub_register_query ::
  "string \<Rightarrow> (message \<Rightarrow> ('s, 'v result) eff) \<Rightarrow> ('s, 'v) mediator_stub \<Rightarrow> ('s, 'v) mediator_stub" where
  "stub_register_query cls h ms = ms\<lparr>mt_queries := AList.update cls h (mt_queries ms)\<rparr>"

definition stub_send :: "('s, 'v) mediator_stub \<Rightarrow> message \<Rightarrow> ('s, 'v result) eff" where
  "stub_send ms msg =
     (if ms_kind msg = CommandMsg
      then case map_of (mt_commands ms) (ms_class msg) of
             None \<Rightarrow> eraise (mediator_error (''no handler for '' @ ms_class msg))
           | Some h \<Rightarrow> h msg
      else if ms_kind msg = QueryMsg
      then case map_of (mt_queries ms) (ms_class msg) of
             None \<Rightarrow> eraise (mediator_error (''no handler for '' @ ms_class msg))
           | Some h \<Rightarrow> h msg
      else eraise (mediator_error (''unsupported message: '' @ ms_class msg)))"

definition stub_publish :: "event \<Rightarrow> (event list, unit) eff" where
  "stub_publish ev = emodify (\<lambda>published. published @ [ev])"

section \<open>Feature flags\<close>

text \<open>
  What the client uses of OpenFeature: the evaluation of a flag with a default, a targeting key and
  attributes. An attribute that the client sets is a UUID.
\<close>

datatype flag_attribute = FlagUuid uuid | FlagExtra json

definition flag_context ::
  "'a request_context \<Rightarrow> string option \<Rightarrow> (string \<times> json) list \<Rightarrow> string \<times> (string \<times> flag_attribute) list" where
  "flag_context ctx targeting extra =
     (let base = (case rc_tenant_id ctx of None \<Rightarrow> [] | Some t \<Rightarrow> [(''tenant_id'', FlagUuid t)]) @
                 (case rc_user_id ctx of None \<Rightarrow> [] | Some u \<Rightarrow> [(''user_id'', FlagUuid u)]);
          attrs = foldl (\<lambda>d (k, v). AList.update k (FlagExtra v) d) base extra;
          given = (case targeting of Some k \<Rightarrow> if k = [] then None else Some k | None \<Rightarrow> None)
      in (get_or (or_else given (map_option str_of_uuid (or_else (rc_user_id ctx) (rc_tenant_id ctx)))) [],
          attrs))"

type_synonym ('s, 'v) flag_provider =
  "string \<Rightarrow> 'v \<Rightarrow> string \<times> (string \<times> flag_attribute) list \<Rightarrow> ('s, 'v) eff"

definition flag_value ::
  "('s, 'v) flag_provider \<Rightarrow> ('s \<Rightarrow> 'a request_context) \<Rightarrow> string \<Rightarrow> 'v \<Rightarrow> string option
     \<Rightarrow> (string \<times> json) list \<Rightarrow> ('s, 'v) eff" where
  "flag_value provider rc flag dflt targeting extra s =
     provider flag dflt (flag_context (rc s) targeting extra) s"

text \<open>The stub converts what it holds, the default too.\<close>

definition flag_stub_set :: "string \<Rightarrow> json \<Rightarrow> dict \<Rightarrow> dict" where
  "flag_stub_set k v flags = AList.update k v flags"

definition flag_stub_remove :: "string \<Rightarrow> dict \<Rightarrow> dict" where
  "flag_stub_remove k flags = AList.delete k flags"

definition flag_stub_value :: "(json \<Rightarrow> exn + 'v) \<Rightarrow> dict \<Rightarrow> string \<Rightarrow> json \<Rightarrow> exn + 'v" where
  "flag_stub_value convert flags k dflt = convert (get_or (map_of flags k) dflt)"

definition flag_stub_bool :: "dict \<Rightarrow> string \<Rightarrow> bool \<Rightarrow> exn + bool" where
  "flag_stub_bool flags k dflt = flag_stub_value (\<lambda>j. Inr (json_truthy j)) flags k (JBool dflt)"

section \<open>The stub mirrors the repository\<close>

text \<open>
  Both are seen as a map from ids to the version and whether the entity is deleted. \<open>mirrors\<close> relates a
  stub to the rows of a table of one class of entities.
\<close>

definition ent_view :: "entity list \<Rightarrow> uuid \<Rightarrow> (int \<times> bool) option" where
  "ent_view es = map_of (map (\<lambda>e. (en_id e, (en_version e, en_deleted_at e \<noteq> None))) es)"

definition stub_view :: "stub \<Rightarrow> uuid \<Rightarrow> (int \<times> bool) option" where
  "stub_view st i =
     map_option (\<lambda>r. (en_version (sb_heap st r), i \<in> sb_deleted st)) (map_of (sb_store st) i)"

definition stored :: "string \<Rightarrow> string list \<Rightarrow> entity list \<Rightarrow> row list \<Rightarrow> bool" where
  "stored ty names es rws \<longleftrightarrow>
     rws = map entity_to_dict es \<and> (\<forall>e\<in>set es. entity_ok ty names e) \<and> distinct (map en_id es)"

definition stub_ok :: "stub \<Rightarrow> bool" where
  "stub_ok st \<longleftrightarrow> sb_deleted st \<subseteq> {i. map_of (sb_store st) i \<noteq> None} \<and>
     (\<forall>i r. map_of (sb_store st) i = Some r \<longrightarrow> en_id (sb_heap st r) = i)"

definition mirrors :: "string \<Rightarrow> string list \<Rightarrow> stub \<Rightarrow> row list \<Rightarrow> bool" where
  "mirrors ty names st rws \<longleftrightarrow> stub_ok st \<and> (\<exists>es. stored ty names es rws \<and> ent_view es = stub_view st)"

datatype repo_call =
    CallGet uuid bool | CallExists uuid | CallAdd nat | CallSave nat | CallSoftDelete uuid | CallHardDelete uuid

text \<open>Whether a call succeeds, on the stub and, with the same objects, on the repository.\<close>

fun stub_call :: "repo_call \<Rightarrow> (stub, bool) eff" where
  "stub_call (CallGet i d) = ebind (stub_get i d) (\<lambda>x. eret (is_success x))"
| "stub_call (CallExists i) = stub_exists i"
| "stub_call (CallAdd r) = ebind (stub_add r) (\<lambda>x. eret (is_success x))"
| "stub_call (CallSave r) = ebind (stub_save r) (\<lambda>x. eret (is_success x))"
| "stub_call (CallSoftDelete i) = ebind (stub_soft_delete i) (\<lambda>x. eret (is_success x))"
| "stub_call (CallHardDelete i) = ebind (stub_hard_delete i) (\<lambda>x. eret (is_success x))"

fun repo_do ::
  "('db, entity) repo \<Rightarrow> 'a request_context \<Rightarrow> instant \<Rightarrow> (nat \<Rightarrow> entity) \<Rightarrow> repo_call \<Rightarrow> ('db, bool) eff" where
  "repo_do rp ctx now heap (CallGet i d) = ebind (repo_get rp ctx i d) (\<lambda>x. eret (is_success x))"
| "repo_do rp ctx now heap (CallExists i) = repo_exists rp ctx i"
| "repo_do rp ctx now heap (CallAdd r) = ebind (repo_add rp ctx now (heap r)) (\<lambda>x. eret (is_success x))"
| "repo_do rp ctx now heap (CallSave r) = ebind (repo_save rp ctx now (heap r)) (\<lambda>x. eret (is_success (fst x)))"
| "repo_do rp ctx now heap (CallSoftDelete i) = ebind (repo_soft_delete rp ctx now i) (\<lambda>x. eret (is_success x))"
| "repo_do rp ctx now heap (CallHardDelete i) = ebind (repo_hard_delete rp i) (\<lambda>x. eret (is_success x))"

text \<open>
  The calls on which the two agree: an added entity has a new id, a saved one is not deleted, and
  nothing is soft-deleted twice.
\<close>

fun agreed :: "string \<Rightarrow> string list \<Rightarrow> repo_call \<Rightarrow> stub \<Rightarrow> bool" where
  "agreed ty names (CallAdd r) st \<longleftrightarrow> entity_ok ty names (sb_heap st r) \<and>
     en_deleted_at (sb_heap st r) = None \<and> map_of (sb_store st) (en_id (sb_heap st r)) = None"
| "agreed ty names (CallSave r) st \<longleftrightarrow> entity_ok ty names (sb_heap st r) \<and>
     en_deleted_at (sb_heap st r) = None \<and> en_id (sb_heap st r) \<notin> sb_deleted st"
| "agreed ty names (CallSoftDelete i) st \<longleftrightarrow> i \<notin> sb_deleted st"
| "agreed ty names c st \<longleftrightarrow> True"

lemma set_cols_same_keys:
  assumes "map fst vs = map fst r" "distinct (map fst vs)"
  shows "set_cols vs r = vs"
proof -
  have keys: "map fst (set_cols xs q) = map fst q" if "set (map fst xs) \<subseteq> set (map fst q)" for xs q :: row
    using that
  proof (induction xs arbitrary: q)
    case (Cons p xs)
    obtain k v where p: "p = (k, v)" by (cases p)
    from Cons.prems p have "k \<in> fst ` set q" by simp
    then have m: "map fst (AList.update k v q) = map fst q" by (simp add: AList.update_keys)
    have "set (map fst xs) \<subseteq> set (map fst (AList.update k v q))"
      unfolding m using Cons.prems by simp
    from Cons.IH [OF this] m p show ?case by (simp add: set_cols_def)
  qed (simp add: set_cols_def)
  have k: "map fst (set_cols vs r) = map fst vs" using keys [of vs r] assms(1) by simp
  show ?thesis
  proof (rule nth_equalityI)
    show l: "length (set_cols vs r) = length vs" using k by (metis length_map)
    fix j assume j: "j < length (set_cols vs r)"
    have f: "fst (set_cols vs r ! j) = fst (vs ! j)" using k j l by (metis nth_map)
    have d: "distinct (map fst (set_cols vs r))" using k assms(2) by simp
    have "map_of (set_cols vs r) (fst (set_cols vs r ! j)) = Some (snd (set_cols vs r ! j))"
      using j d by (simp add: nth_mem)
    moreover have "map_of vs (fst (vs ! j)) = Some (snd (vs ! j))" using j l assms(2) by (simp add: nth_mem)
    ultimately have "snd (set_cols vs r ! j) = snd (vs ! j)"
      using set_cols_map_of [OF assms(2), of r "fst (vs ! j)"] f by simp
    with f show "set_cols vs r ! j = vs ! j" by (simp add: prod_eq_iff)
  qed
qed

lemma ent_view_Nil [simp]: "ent_view [] i = None"
  by (simp add: ent_view_def)

lemma ent_view_Cons [simp]:
  "ent_view (e # es) i = (if en_id e = i then Some (en_version e, en_deleted_at e \<noteq> None) else ent_view es i)"
  by (simp add: ent_view_def)

lemma ent_view_app: "ent_view (as @ bs) i = (case ent_view as i of None \<Rightarrow> ent_view bs i | Some v \<Rightarrow> Some v)"
  by (induction as) auto

lemma ent_view_none: "ent_view es i = None \<longleftrightarrow> (\<forall>e\<in>set es. en_id e \<noteq> i)"
  by (induction es) auto

lemma view_cases:
  assumes "distinct (map en_id es)"
  shows "(ent_view es i = None \<and> (\<forall>e\<in>set es. en_id e \<noteq> i)) \<or>
    (\<exists>as e bs. es = as @ e # bs \<and> en_id e = i \<and> ent_view es i = Some (en_version e, en_deleted_at e \<noteq> None) \<and>
       (\<forall>x\<in>set as \<union> set bs. en_id x \<noteq> i))"
proof (cases "\<exists>e\<in>set es. en_id e = i")
  case True
  then obtain e as bs where es: "es = as @ e # bs" "en_id e = i" by (meson split_list)
  with assms have o: "\<forall>x\<in>set as \<union> set bs. en_id x \<noteq> i" by (auto simp: rev_image_eqI)
  then have "ent_view as i = None" by (simp add: ent_view_none)
  with es have "ent_view es i = Some (en_version e, en_deleted_at e \<noteq> None)" by (simp add: ent_view_app)
  with es o show ?thesis by blast
next
  case False
  then show ?thesis by (simp add: ent_view_none)
qed

lemma ent_view_mid:
  assumes "distinct (map en_id (as @ e # bs))"
  shows "ent_view (as @ e # bs) (en_id e) = Some (en_version e, en_deleted_at e \<noteq> None)"
proof -
  have "ent_view as (en_id e) = None" using assms by (auto simp: ent_view_none rev_image_eqI)
  then show ?thesis by (simp add: ent_view_app)
qed

lemma ent_view_Some:
  "ent_view es i = Some (v, d) \<Longrightarrow> \<exists>e\<in>set es. en_id e = i \<and> en_version e = v \<and> d = (en_deleted_at e \<noteq> None)"
  by (induction es) (auto split: if_splits)

lemma ent_view_replace:
  assumes "\<forall>x\<in>set as. en_id x \<noteq> i" "en_id e' = i" "en_id e = i"
  shows "ent_view (as @ e' # bs) = (ent_view (as @ e # bs))(i \<mapsto> (en_version e', en_deleted_at e' \<noteq> None))"
  using assms ent_view_none [of as i] by (auto simp: fun_eq_iff ent_view_app split: option.split)

lemma ent_view_remove:
  assumes "\<forall>x\<in>set as \<union> set bs. en_id x \<noteq> i" "en_id e = i"
  shows "ent_view (as @ bs) = (ent_view (as @ e # bs))(i := None)"
  using assms ent_view_none [of as i] ent_view_none [of bs i] by (auto simp: fun_eq_iff ent_view_app split: option.split)

lemma ent_view_append:
  "ent_view es (en_id e) = None \<Longrightarrow> ent_view (es @ [e]) = (ent_view es)(en_id e \<mapsto> (en_version e, en_deleted_at e \<noteq> None))"
  by (auto simp: fun_eq_iff ent_view_app split: option.split)

text \<open>The rows of entities: what the conditions of the repository read.\<close>

lemma dict_cols:
  assumes "entity_ok ty names e"
  shows "col (entity_to_dict e) ''id'' = VUuid i \<longleftrightarrow> en_id e = i"
    and "col (entity_to_dict e) ''version'' = VInt v \<longleftrightarrow> en_version e = v"
    and "col (entity_to_dict e) ''deleted_at'' = VNull \<longleftrightarrow> en_deleted_at e = None"
  using base_vars_cols [OF assms] by auto

lemma soft_deleted_dict:
  "set_cols [(''deleted_at'', VTime now), (''deleted_by'', v_uuid u)] (entity_to_dict e) =
     entity_to_dict (e\<lparr>en_deleted_at := Some now, en_deleted_by := u\<rparr>)"
  by (simp add: set_cols_def entity_to_dict_def base_vars_def v_time_def)

lemma stored_replace:
  assumes "stored ty names (as @ e # bs) rws" "entity_ok ty names e'" "en_id e' = en_id e"
  shows "stored ty names (as @ e' # bs) (map entity_to_dict (as @ e' # bs))"
  using assms by (auto simp: stored_def)

lemma map_one:
  assumes "\<And>x. x \<in> set as \<union> set bs \<Longrightarrow> \<not> P (g x)" "P (g e)" "f (g e) = g e'"
  shows "map (\<lambda>r. if P r then f r else r) (map g (as @ e # bs)) = map g (as @ e' # bs)"
  using assms by auto

locale stub_pair =
  fixes T :: "('db, row) sql" and rows :: "'db \<Rightarrow> row list" and rest :: "'db \<Rightarrow> 'o"
    and rp :: "('db, entity) repo" and ty :: string and names fl so :: "string list"
    and lt :: "sqlval \<Rightarrow> sqlval \<Rightarrow> bool" and n :: instant and ctx :: "'a request_context"
  assumes table: "sql_up T rows row_clash rest" and repo: "rp = std_repo T ty names fl so lt n"
    and no_tenant: "rc_tenant_id ctx = None"
begin

lemma tb: "sql_table T rows row_clash rest"
  by (rule sql_up.axioms(1) [OF table])

lemma scope_alive: "entity_ok ty names e \<Longrightarrow> scope_query rp ctx d (entity_to_dict e) \<longleftrightarrow> d \<or> en_deleted_at e = None"
  using dict_cols(3) [of ty names e] no_tenant std_repo_sel [OF repo]
  by (auto simp: scope_query_def base_names_def)

lemma unique_stored: "stored ty names es (rows db) \<Longrightarrow> unique_rows row_clash (rows db)"
proof -
  assume s: "stored ty names es (rows db)"
  have "unique_rows row_clash (map entity_to_dict es)" if "\<forall>e\<in>set es. entity_ok ty names e" "distinct (map en_id es)" for es
    using that
    by (induction es) (auto simp: unique_rows_def row_clash_def base_vars_cols(1) [where ty = ty and names = names])
  with s show ?thesis by (simp add: stored_def)
qed

text \<open>The rows with an id, and those of them a query shows.\<close>

lemma filter_id:
  assumes "stored ty names (as @ e # bs) rws" "en_id e = i" "\<forall>x\<in>set as \<union> set bs. en_id x \<noteq> i"
  shows "filter (\<lambda>r. col r ''id'' = VUuid i \<and> Q r) rws = (if Q (entity_to_dict e) then [entity_to_dict e] else [])"
proof -
  have "filter (\<lambda>r. col r ''id'' = VUuid i \<and> Q r) (map entity_to_dict xs) = []"
    if "set xs \<subseteq> set as \<union> set bs" for xs
  proof -
    have "col (entity_to_dict x) ''id'' \<noteq> VUuid i" if "x \<in> set xs" for x
      using that \<open>set xs \<subseteq> set as \<union> set bs\<close> assms(1,3) dict_cols(1) [of ty names x i] by (auto simp: stored_def)
    then show ?thesis by (auto simp: filter_empty_conv)
  qed
  from this [of as] this [of bs] assms(1,2) dict_cols(1) [of ty names e i] show ?thesis by (auto simp: stored_def)
qed

lemma filter_none:
  assumes "stored ty names es rws" "\<forall>x\<in>set es. en_id x \<noteq> i"
  shows "filter (\<lambda>r. col r ''id'' = VUuid i \<and> Q r) rws = []"
  using assms dict_cols(1) by (fastforce simp: stored_def filter_empty_conv)

lemma get_call:
  assumes "stored ty names es (rows db)"
  shows "repo_do rp ctx now heap (CallGet i d) db =
    (Inr (case ent_view es i of None \<Rightarrow> False | Some (v, del) \<Rightarrow> d \<or> \<not> del), db)"
proof -
  let ?P = "\<lambda>r. col r ''id'' = VUuid i \<and> scope_query rp ctx d r"
  obtain rs db' where q: "sql_select T ?P no_order None db = (Inr rs, db')"
    using sql_up.select_up [OF table] by blast
  have db': "db' = db" by (rule sql_table.select_state [OF tb q])
  note m = sql_table.select_mset(1) [OF tb q]
  note sel = std_repo_sel [OF repo]
  from assms have "distinct (map en_id es)" by (simp add: stored_def)
  from view_cases [OF this, of i] show ?thesis
  proof (elim disjE exE conjE)
    assume "ent_view es i = None" "\<forall>e\<in>set es. en_id e \<noteq> i"
    moreover from filter_none [OF assms this(2)] m have "rs = []" by simp
    ultimately show ?thesis using q db' sel
      by (simp add: repo_get_def ebind_def from_optional_def result_failure_def)
  next
    fix as e bs assume es: "es = as @ e # bs" and e: "en_id e = i" and v: "ent_view es i = Some (en_version e, en_deleted_at e \<noteq> None)"
      and o: "\<forall>x\<in>set as \<union> set bs. en_id x \<noteq> i"
    have ok: "entity_ok ty names e" using assms es by (simp add: stored_def)
    from filter_id [OF assms [unfolded es] e o] m
    have "rs = (if d \<or> en_deleted_at e = None then [entity_to_dict e] else [])"
      by (simp add: scope_alive [OF ok] split: if_splits)
    with q db' sel v row_to_entity_dict [OF ok] show ?thesis
      by (auto simp: repo_get_def ebind_def from_optional_def result_failure_def result_success_def)
  qed
qed

lemma exists_call:
  assumes "stored ty names es (rows db)"
  shows "repo_do rp ctx now heap (CallExists i) db =
    (Inr (case ent_view es i of None \<Rightarrow> False | Some (v, del) \<Rightarrow> \<not> del), db)"
proof -
  let ?P = "\<lambda>r. col r ''id'' = VUuid i \<and> scope_query rp ctx False r"
  obtain m db' where q: "sql_count T ?P db = (Inr m, db')" using sql_up.count_up [OF table] by blast
  from sql_table.count_rows [OF tb q] have m: "m = length (filter ?P (rows db))" "db' = db" by auto
  note sel = std_repo_sel [OF repo]
  from assms have "distinct (map en_id es)" by (simp add: stored_def)
  from view_cases [OF this, of i] show ?thesis
  proof (elim disjE exE conjE)
    assume "ent_view es i = None" "\<forall>e\<in>set es. en_id e \<noteq> i"
    with filter_none [OF assms this(2)] m q sel show ?thesis by (simp add: repo_exists_def ebind_def)
  next
    fix as e bs assume es: "es = as @ e # bs" and e: "en_id e = i" and v: "ent_view es i = Some (en_version e, en_deleted_at e \<noteq> None)"
      and o: "\<forall>x\<in>set as \<union> set bs. en_id x \<noteq> i"
    have ok: "entity_ok ty names e" using assms es by (simp add: stored_def)
    from filter_id [OF assms [unfolded es] e o] m q sel v scope_alive [OF ok] show ?thesis
      by (simp add: repo_exists_def ebind_def)
  qed
qed

end

context stub_pair
begin

lemma add_call:
  assumes s: "stored ty names es (rows db)" and ok: "entity_ok ty names (heap r)"
    and new: "ent_view es (en_id (heap r)) = None"
  shows "\<exists>db'. repo_do rp ctx now heap (CallAdd r) db = (Inr True, db') \<and> stored ty names (es @ [heap r]) (rows db')"
proof -
  let ?d = "entity_to_dict (heap r)"
  have s': "stored ty names (es @ [heap r]) (rows db @ [?d])"
    using s ok new by (auto simp: stored_def ent_view_none)
  have "unique_rows row_clash (rows db @ [?d])"
  proof -
    have "\<not> row_clash x ?d" if "x \<in> set (rows db)" for x
      using that s new base_vars_cols(1) [OF ok] by (auto simp: stored_def row_clash_def ent_view_none dict_cols(1))
    with unique_stored [OF s] show ?thesis by (simp add: unique_rows_append) (simp add: unique_rows_def)
  qed
  then obtain db' where i: "sql_insert T [?d] db = (Inr (), db')" using sql_up.insert_up [OF table] by blast
  from sql_table.insert_ok [OF tb i unique_stored [OF s]] s' have "stored ty names (es @ [heap r]) (rows db')" by simp
  moreover have "repo_do rp ctx now heap (CallAdd r) db = (Inr True, db')"
    using i by (simp add: repo repo_add_eq [OF ok] ebind_def)
  ultimately show ?thesis by blast
qed

text \<open>An UPDATE of the row with an id, when it passes a further condition.\<close>

lemma update_call:
  assumes s: "stored ty names es (rows db)"
    and u: "sql_update T (\<lambda>r. col r ''id'' = VUuid i \<and> Q r) f db = (Inr m, db')"
    and f: "\<forall>e. entity_ok ty names e \<and> en_id e = i \<and> Q (entity_to_dict e) \<longrightarrow>
      f (entity_to_dict e) = entity_to_dict (g e) \<and> entity_ok ty names (g e) \<and> en_id (g e) = i"
  shows "(m = 0 \<and> rows db' = rows db \<and> (\<forall>e\<in>set es. en_id e = i \<longrightarrow> \<not> Q (entity_to_dict e))) \<or>
    (\<exists>as e bs. m \<noteq> 0 \<and> es = as @ e # bs \<and> en_id e = i \<and> Q (entity_to_dict e) \<and>
       stored ty names (as @ g e # bs) (rows db') \<and>
       ent_view (as @ g e # bs) = (ent_view es)(i \<mapsto> (en_version (g e), en_deleted_at (g e) \<noteq> None)))"
proof (cases "\<exists>e\<in>set es. en_id e = i \<and> Q (entity_to_dict e)")
  case True
  then obtain e as bs where es: "es = as @ e # bs" and e: "en_id e = i" "Q (entity_to_dict e)" by (meson split_list)
  have ok: "entity_ok ty names e" using s es by (simp add: stored_def)
  from f ok e have g: "f (entity_to_dict e) = entity_to_dict (g e)" "entity_ok ty names (g e)" "en_id (g e) = i"
    by blast+
  have o: "\<forall>x\<in>set as \<union> set bs. en_id x \<noteq> i" using s es e(1) by (auto simp: stored_def rev_image_eqI)
  let ?P = "\<lambda>r. col r ''id'' = VUuid i \<and> Q r"
  have p: "?P (entity_to_dict e)" using dict_cols(1) [OF ok] e by simp
  have "\<not> ?P (entity_to_dict x)" if "x \<in> set as \<union> set bs" for x
    using that o s es dict_cols(1) [of ty names x i] by (auto simp: stored_def)
  from map_one [of as bs ?P entity_to_dict, OF this p] g
  have "rows db' = map entity_to_dict (as @ g e # bs)"
    using sql_table.update_ok [OF tb u] s es by (simp add: stored_def)
  with stored_replace [OF s [unfolded es]] g e(1) have "stored ty names (as @ g e # bs) (rows db')" by simp
  moreover have "m \<noteq> 0" using sql_table.update_none(1) [OF tb u] p s es by (auto simp: stored_def)
  moreover have "ent_view (as @ g e # bs) = (ent_view es)(i \<mapsto> (en_version (g e), en_deleted_at (g e) \<noteq> None))"
    unfolding es by (rule ent_view_replace) (use o g e in auto)
  ultimately show ?thesis using es e by blast
next
  case False
  have "\<not> (col r ''id'' = VUuid i \<and> Q r)" if "r \<in> set (rows db)" for r
    using that False s by (auto simp: stored_def dict_cols(1))
  with sql_table.update_none [OF tb u] False show ?thesis by blast
qed

lemma save_call:
  assumes s: "stored ty names es (rows db)" and ok: "entity_ok ty names (heap r)"
  shows "\<exists>b db' es'. repo_do rp ctx now heap (CallSave r) db = (Inr b, db') \<and> stored ty names es' (rows db') \<and>
    (b \<longleftrightarrow> (\<exists>del. ent_view es (en_id (heap r)) = Some (en_version (heap r), del))) \<and>
    ent_view es' = (if b then (ent_view es)(en_id (heap r) \<mapsto>
      (en_version (heap r) + 1, en_deleted_at (heap r) \<noteq> None)) else ent_view es)"
proof -
  let ?e = "heap r" let ?vs = "save_values rp ctx now ?e"
  let ?e' = "?e\<lparr>en_version := en_version ?e + 1, en_updated_at := Some now, en_updated_by := rc_user_id ctx\<rparr>"
  note sel = std_repo_sel [OF repo] and v = save_values_cols [OF ok repo, of ctx now]
  have ok': "entity_ok ty names ?e'" using ok by (simp add: entity_ok_def)
  let ?Q = "\<lambda>q. col q ''version'' = VInt (en_version ?e)"
  have "keeps_keys row_clash (\<lambda>q. col q ''id'' = VUuid (en_id ?e) \<and> ?Q q) (set_cols ?vs)"
    by (rule set_cols_keeps_keys [OF v(3)]) (simp add: v(1))
  then obtain m db' where u: "sql_update T (\<lambda>q. col q ''id'' = VUuid (en_id ?e) \<and> ?Q q) (set_cols ?vs) db = (Inr m, db')"
    using sql_up.update_up [OF table] by blast
  have f: "set_cols ?vs (entity_to_dict x) = entity_to_dict ?e' \<and> entity_ok ty names ?e' \<and> en_id ?e' = en_id ?e"
    if "entity_ok ty names x" "en_id x = en_id ?e" "?Q (entity_to_dict x)" for x
    using set_cols_same_keys [of ?vs "entity_to_dict x"] entity_keys [OF that(1)] entity_keys [OF ok']
    unfolding save_values_dict [OF ok repo] using ok' by simp
  have run: "repo_do rp ctx now heap (CallSave r) db = (Inr (m \<noteq> 0), db')"
    using u v(1) sel by (simp add: repo_save_def ebind_def Let_def result_success_def result_failure_def)
  have dist: "distinct (map en_id es)" and oks: "\<forall>e\<in>set es. entity_ok ty names e" using s by (simp_all add: stored_def)
  have f': "\<forall>x. entity_ok ty names x \<and> en_id x = en_id ?e \<and> ?Q (entity_to_dict x) \<longrightarrow>
      set_cols ?vs (entity_to_dict x) = entity_to_dict ?e' \<and> entity_ok ty names ?e' \<and> en_id ?e' = en_id ?e"
    using f by blast
  from update_call [where g = "\<lambda>x. ?e'", OF s u f'] show ?thesis
  proof (elim disjE exE conjE)
    assume m: "m = 0" "rows db' = rows db" and no: "\<forall>e\<in>set es. en_id e = en_id ?e \<longrightarrow> \<not> ?Q (entity_to_dict e)"
    have "\<nexists>del. ent_view es (en_id ?e) = Some (en_version ?e, del)"
    proof
      assume "\<exists>del. ent_view es (en_id ?e) = Some (en_version ?e, del)"
      then obtain x where "x \<in> set es" "en_id x = en_id ?e" "en_version x = en_version ?e"
        using ent_view_Some by blast
      with no oks dict_cols(2) [of ty names x "en_version ?e"] show False by auto
    qed
    with m run s show ?thesis by (intro exI [of _ False] exI [of _ db'] exI [of _ es]) simp
  next
    fix as e bs assume m: "m \<noteq> 0" and es: "es = as @ e # bs" and e: "en_id e = en_id ?e" "?Q (entity_to_dict e)"
      and s': "stored ty names (as @ ?e' # bs) (rows db')"
      and w: "ent_view (as @ ?e' # bs) = (ent_view es)(en_id ?e \<mapsto> (en_version ?e', en_deleted_at ?e' \<noteq> None))"
    have "\<exists>del. ent_view es (en_id ?e) = Some (en_version ?e, del)"
      using ent_view_mid [OF dist [unfolded es]] es e oks dict_cols(2) [of ty names e "en_version ?e"] by auto
    with m run s' w show ?thesis by (intro exI [of _ True] exI [of _ db'] exI [of _ "as @ ?e' # bs"]) simp
  qed
qed

end

context stub_pair
begin

lemma soft_delete_call:
  assumes s: "stored ty names es (rows db)"
  shows "\<exists>b db' es'. repo_do rp ctx now heap (CallSoftDelete i) db = (Inr b, db') \<and> stored ty names es' (rows db') \<and>
    (b \<longleftrightarrow> (\<exists>v. ent_view es i = Some (v, False))) \<and>
    (\<forall>v. ent_view es i = Some (v, False) \<longrightarrow> ent_view es' = (ent_view es)(i \<mapsto> (v, True))) \<and>
    (\<not> b \<longrightarrow> ent_view es' = ent_view es)"
proof -
  let ?Q = "\<lambda>r. col r ''deleted_at'' = VNull"
  let ?f = "set_cols [(''deleted_at'', VTime now), (''deleted_by'', v_uuid (rc_user_id ctx))]"
  let ?g = "\<lambda>e. e\<lparr>en_deleted_at := Some now, en_deleted_by := rc_user_id ctx\<rparr>"
  have "keeps_keys row_clash (\<lambda>r. col r ''id'' = VUuid i \<and> ?Q r) ?f" by (rule set_cols_keeps_keys) simp_all
  then obtain m db' where u: "sql_update T (\<lambda>r. col r ''id'' = VUuid i \<and> ?Q r) ?f db = (Inr m, db')"
    using sql_up.update_up [OF table] by blast
  have run: "repo_do rp ctx now heap (CallSoftDelete i) db = (Inr (m \<noteq> 0), db')"
    using u std_repo_sel [OF repo]
    by (simp add: repo_soft_delete_def ebind_def result_success_def result_failure_def)
  have dist: "distinct (map en_id es)" and oks: "\<forall>e\<in>set es. entity_ok ty names e" using s by (simp_all add: stored_def)
  have f: "\<forall>e. entity_ok ty names e \<and> en_id e = i \<and> ?Q (entity_to_dict e) \<longrightarrow>
      ?f (entity_to_dict e) = entity_to_dict (?g e) \<and> entity_ok ty names (?g e) \<and> en_id (?g e) = i"
    using soft_deleted_dict by (auto simp: entity_ok_def)
  from update_call [where g = ?g, OF s u f] show ?thesis
  proof (elim disjE exE conjE)
    assume m: "m = 0" "rows db' = rows db" and no: "\<forall>e\<in>set es. en_id e = i \<longrightarrow> \<not> ?Q (entity_to_dict e)"
    have "\<nexists>v. ent_view es i = Some (v, False)"
    proof
      assume "\<exists>v. ent_view es i = Some (v, False)"
      then obtain x where "x \<in> set es" "en_id x = i" "en_deleted_at x = None" using ent_view_Some by blast
      with no oks dict_cols(3) [of ty names x] show False by auto
    qed
    with m run s show ?thesis by (intro exI [of _ False] exI [of _ db'] exI [of _ es]) simp
  next
    fix as e bs assume m: "m \<noteq> 0" and es: "es = as @ e # bs" and e: "en_id e = i" "?Q (entity_to_dict e)"
      and s': "stored ty names (as @ ?g e # bs) (rows db')"
      and w: "ent_view (as @ ?g e # bs) = (ent_view es)(i \<mapsto> (en_version (?g e), en_deleted_at (?g e) \<noteq> None))"
    have "ent_view es i = Some (en_version e, False)"
      using ent_view_mid [OF dist [unfolded es]] es e oks dict_cols(3) [of ty names e] by auto
    with m run s' w show ?thesis by (intro exI [of _ True] exI [of _ db'] exI [of _ "as @ ?g e # bs"]) simp
  qed
qed

lemma hard_delete_call:
  assumes s: "stored ty names es (rows db)"
  shows "\<exists>b db' es'. repo_do rp ctx now heap (CallHardDelete i) db = (Inr b, db') \<and> stored ty names es' (rows db') \<and>
    (b \<longleftrightarrow> ent_view es i \<noteq> None) \<and> ent_view es' = (ent_view es)(i := None)"
proof -
  let ?P = "\<lambda>r. col r ''id'' = VUuid i"
  obtain m db' where u: "sql_delete T ?P db = (Inr m, db')" using sql_up.delete_up [OF table] by blast
  from sql_table.delete_ok [OF tb u] have d: "rows db' = filter (\<lambda>r. \<not> ?P r) (rows db)"
    "m = length (filter ?P (rows db))" by auto
  have run: "repo_do rp ctx now heap (CallHardDelete i) db = (Inr (m \<noteq> 0), db')"
    using u std_repo_sel [OF repo]
    by (simp add: repo_hard_delete_def ebind_def result_success_def result_failure_def)
  have keep: "filter (\<lambda>r. \<not> ?P r) (map entity_to_dict xs) = map entity_to_dict (filter (\<lambda>e. en_id e \<noteq> i) xs)"
    and pick: "filter ?P (map entity_to_dict xs) = map entity_to_dict (filter (\<lambda>e. en_id e = i) xs)"
    if "\<forall>e\<in>set xs. entity_ok ty names e" for xs
    using that by (induction xs) (auto simp: dict_cols(1) [where ty = ty and names = names])
  have view: "ent_view (filter (\<lambda>e. en_id e \<noteq> i) xs) = (ent_view xs)(i := None)" for xs
    by (induction xs) (auto simp: fun_eq_iff)
  let ?es = "filter (\<lambda>e. en_id e \<noteq> i) es"
  have s': "stored ty names ?es (rows db')"
    using s d(1) keep [of es] by (auto simp: stored_def distinct_map_filter)
  have "m \<noteq> 0 \<longleftrightarrow> ent_view es i \<noteq> None"
    using s d(2) pick [of es] by (auto simp: stored_def ent_view_none filter_empty_conv)
  with run s' view show ?thesis by (intro exI [of _ "m \<noteq> 0"] exI [of _ db'] exI [of _ ?es]) simp
qed

end

section \<open>Properties\<close>

lemma stub_view_none: "stub_view st i = None \<longleftrightarrow> map_of (sb_store st) i = None"
  by (simp add: stub_view_def)

lemma stub_view_put:
  assumes "stub_ok st" "en_id (sb_heap st r) = i"
  shows "stub_view (stub_put r st) = (stub_view st)(i \<mapsto> (en_version (sb_heap st r), i \<in> sb_deleted st))"
  using assms(2) by (auto simp: stub_view_def stub_put_def fun_eq_iff update_conv')

lemma stub_ok_put: "stub_ok st \<Longrightarrow> stub_ok (stub_put r st)"
  by (auto simp: stub_ok_def stub_put_def update_conv')

lemma stub_ok_raise: "stub_ok st \<Longrightarrow> stub_ok (raise_version r st)"
  by (auto simp: stub_ok_def raise_version_def)

lemma stub_view_raise:
  assumes "stub_ok st" "en_id (sb_heap st r) = i"
  shows "(stub_view (raise_version r st))(i := z) = (stub_view st)(i := z)"
  using assms by (auto simp: stub_view_def raise_version_def stub_ok_def fun_eq_iff map_option_case split: option.split)

lemma stub_save_view:
  assumes "stub_ok st" "stub_save r st = (Inr x, st')"
  shows "stub_ok st' \<and> (is_success x \<longleftrightarrow> (\<exists>d. stub_view st (en_id (sb_heap st r)) = Some (en_version (sb_heap st r), d))) \<and>
    stub_view st' = (if is_success x then (stub_view st)(en_id (sb_heap st r) \<mapsto>
      (en_version (sb_heap st r) + 1, en_id (sb_heap st r) \<in> sb_deleted st)) else stub_view st)"
proof -
  let ?i = "en_id (sb_heap st r)"
  have id: "en_id (sb_heap (raise_version r st) r) = ?i" "en_version (sb_heap (raise_version r st) r) = en_version (sb_heap st r) + 1"
    "sb_deleted (raise_version r st) = sb_deleted st" by (simp_all add: raise_version_def)
  have "stub_view (stub_put r (raise_version r st)) = (stub_view st)(?i \<mapsto> (en_version (sb_heap st r) + 1, ?i \<in> sb_deleted st))"
    unfolding stub_view_put [OF stub_ok_raise [OF assms(1)] id(1)] id(2,3)
    by (rule stub_view_raise [OF assms(1) refl])
  with assms show ?thesis
    by (auto simp: stub_save_def Let_def result_success_def result_failure_def stub_view_def stub_ok_put stub_ok_raise
        split: option.splits if_splits)
qed

text \<open>One step of the simulation, operation by operation.\<close>

definition simulates ::
  "('db \<Rightarrow> row list) \<Rightarrow> ('db, entity) repo \<Rightarrow> 'a request_context \<Rightarrow> instant \<Rightarrow> string \<Rightarrow> string list \<Rightarrow> repo_call
     \<Rightarrow> stub \<Rightarrow> 'db \<Rightarrow> bool" where
  "simulates rows rp ctx now ty names c st db \<longleftrightarrow>
     (\<exists>b st' db'. stub_call c st = (Inr b, st') \<and> repo_do rp ctx now (sb_heap st) c db = (Inr b, db') \<and>
        mirrors ty names st' (rows db'))"

lemma mirrorsE:
  assumes "mirrors ty names st rws"
  obtains es where "stub_ok st" "stored ty names es rws" "ent_view es = stub_view st"
  using assms by (auto simp: mirrors_def)

context stub_pair
begin

lemma read_sim:
  assumes m: "mirrors ty names st (rows db)"
  shows "simulates rows rp ctx now ty names (CallGet i d) st db"
    and "simulates rows rp ctx now ty names (CallExists i) st db"
proof -
  from m obtain es where s: "stored ty names es (rows db)" and v: "ent_view es = stub_view st" by (rule mirrorsE)
  have "stub_call (CallGet i d) st =
      (Inr (case stub_view st i of None \<Rightarrow> False | Some (w, del) \<Rightarrow> d \<or> \<not> del), st)"
    by (auto simp: stub_get_def stub_view_def ebind_def result_failure_def result_success_def split: option.split)
  with get_call [OF s, of now "sb_heap st" i d] m v show "simulates rows rp ctx now ty names (CallGet i d) st db"
    unfolding simulates_def by metis
  have "stub_call (CallExists i) st = (Inr (case stub_view st i of None \<Rightarrow> False | Some (w, del) \<Rightarrow> \<not> del), st)"
    by (auto simp: stub_exists_def stub_view_def split: option.split)
  with exists_call [OF s, of now "sb_heap st" i] m v show "simulates rows rp ctx now ty names (CallExists i) st db"
    unfolding simulates_def by metis
qed

lemma add_sim:
  assumes m: "mirrors ty names st (rows db)" and call: "agreed ty names (CallAdd r) st"
  shows "simulates rows rp ctx now ty names (CallAdd r) st db"
proof -
  let ?e = "sb_heap st r" and ?st = "stub_put r st"
  from m obtain es where ok: "stub_ok st" and s: "stored ty names es (rows db)" and v: "ent_view es = stub_view st"
    by (rule mirrorsE)
  from call have e: "entity_ok ty names ?e" "en_deleted_at ?e = None" "stub_view st (en_id ?e) = None"
    by (simp_all add: stub_view_none)
  from add_call [where heap = "sb_heap st" and r = r, OF s e(1)] e v obtain db' where
    a: "repo_do rp ctx now (sb_heap st) (CallAdd r) db = (Inr True, db')" "stored ty names (es @ [?e]) (rows db')"
    by auto
  have "en_id ?e \<notin> sb_deleted st" using ok e(3) by (auto simp: stub_ok_def stub_view_none)
  then have "ent_view (es @ [?e]) = stub_view ?st"
    using ent_view_append [of es ?e] stub_view_put [OF ok refl, of r] e v by simp
  with a(2) stub_ok_put [OF ok] have "mirrors ty names ?st (rows db')" by (auto simp: mirrors_def)
  moreover have "stub_call (CallAdd r) st = (Inr True, ?st)"
    using e(3) by (simp add: stub_add_def stub_view_none Let_def result_success_def ebind_def)
  ultimately show ?thesis using a(1) unfolding simulates_def by blast
qed

lemma save_sim:
  assumes m: "mirrors ty names st (rows db)" and call: "agreed ty names (CallSave r) st"
  shows "simulates rows rp ctx now ty names (CallSave r) st db"
proof -
  let ?e = "sb_heap st r"
  from m obtain es where ok: "stub_ok st" and s: "stored ty names es (rows db)" and v: "ent_view es = stub_view st"
    by (rule mirrorsE)
  obtain x st' where x: "stub_save r st = (Inr x, st')"
    by (cases "stub_save r st") (auto simp: stub_save_def Let_def split: option.splits if_splits)
  from call have e: "entity_ok ty names ?e" "en_deleted_at ?e = None" "en_id ?e \<notin> sb_deleted st" by simp_all
  from save_call [where heap = "sb_heap st" and r = r and now = now, OF s e(1)] obtain b db' es' where
    a: "repo_do rp ctx now (sb_heap st) (CallSave r) db = (Inr b, db')" "stored ty names es' (rows db')"
    and a': "b \<longleftrightarrow> (\<exists>d. ent_view es (en_id ?e) = Some (en_version ?e, d))"
    "ent_view es' = (if b then (ent_view es)(en_id ?e \<mapsto> (en_version ?e + 1, en_deleted_at ?e \<noteq> None)) else ent_view es)"
    by blast
  from stub_save_view [OF ok x] a' [unfolded v] e(2,3) have "stub_ok st'" "is_success x = b" "ent_view es' = stub_view st'"
    by auto
  moreover from x this(2) have "stub_call (CallSave r) st = (Inr b, st')" by (simp add: ebind_def)
  ultimately show ?thesis using a(1,2) unfolding simulates_def mirrors_def by metis
qed

lemma soft_delete_sim:
  assumes m: "mirrors ty names st (rows db)" and call: "i \<notin> sb_deleted st"
  shows "simulates rows rp ctx now ty names (CallSoftDelete i) st db"
proof -
  from m obtain es where ok: "stub_ok st" and s: "stored ty names es (rows db)" and v: "ent_view es = stub_view st"
    by (rule mirrorsE)
  from soft_delete_call [OF s, of now "sb_heap st" i] v obtain b db' es' where
    a: "repo_do rp ctx now (sb_heap st) (CallSoftDelete i) db = (Inr b, db')" "stored ty names es' (rows db')"
    "b \<longleftrightarrow> (\<exists>w. stub_view st i = Some (w, False))"
    "\<forall>w. stub_view st i = Some (w, False) \<longrightarrow> ent_view es' = (stub_view st)(i \<mapsto> (w, True))"
    "\<not> b \<longrightarrow> ent_view es' = stub_view st" by auto
  show ?thesis
  proof (cases "map_of (sb_store st) i")
    case None
    with a(3) have b: "\<not> b" by (simp add: stub_view_def)
    from None b have "stub_call (CallSoftDelete i) st = (Inr b, st)"
      by (simp add: stub_soft_delete_def result_failure_def ebind_def)
    with a b ok show ?thesis unfolding simulates_def mirrors_def by metis
  next
    case (Some r)
    let ?st = "st\<lparr>sb_deleted := insert i (sb_deleted st)\<rparr>"
    from Some call have w: "stub_view st i = Some (en_version (sb_heap st r), False)" by (simp add: stub_view_def)
    with a(4) have "ent_view es' = (stub_view st)(i \<mapsto> (en_version (sb_heap st r), True))" by blast
    also have "\<dots> = stub_view ?st" using Some by (auto simp: stub_view_def fun_eq_iff)
    finally have "mirrors ty names ?st (rows db')" using a(2) ok Some by (auto simp: mirrors_def stub_ok_def)
    moreover from Some a(3) w have "stub_call (CallSoftDelete i) st = (Inr b, ?st)"
      by (simp add: stub_soft_delete_def result_success_def ebind_def)
    ultimately show ?thesis using a(1) unfolding simulates_def by metis
  qed
qed

lemma hard_delete_sim:
  assumes m: "mirrors ty names st (rows db)"
  shows "simulates rows rp ctx now ty names (CallHardDelete i) st db"
proof -
  from m obtain es where ok: "stub_ok st" and s: "stored ty names es (rows db)" and v: "ent_view es = stub_view st"
    by (rule mirrorsE)
  from hard_delete_call [OF s, of now "sb_heap st" i] v obtain b db' es' where
    a: "repo_do rp ctx now (sb_heap st) (CallHardDelete i) db = (Inr b, db')" "stored ty names es' (rows db')"
    "b \<longleftrightarrow> stub_view st i \<noteq> None" "ent_view es' = (stub_view st)(i := None)" by auto
  show ?thesis
  proof (cases "map_of (sb_store st) i")
    case None
    then have w: "stub_view st i = None" by (simp add: stub_view_none)
    then have "ent_view es' = stub_view st" using a(4) by (auto simp: fun_eq_iff)
    moreover from None w a(3) have "stub_call (CallHardDelete i) st = (Inr b, st)"
      by (simp add: stub_hard_delete_def result_failure_def ebind_def)
    ultimately show ?thesis using a(1,2) ok unfolding simulates_def mirrors_def by metis
  next
    case (Some r)
    let ?st = "st\<lparr>sb_store := AList.delete i (sb_store st), sb_deleted := sb_deleted st - {i}\<rparr>"
    have "ent_view es' = stub_view ?st" unfolding a(4) by (auto simp: stub_view_def fun_eq_iff delete_conv')
    moreover have "stub_ok ?st" using ok by (auto simp: stub_ok_def delete_conv')
    ultimately have "mirrors ty names ?st (rows db')" using a(2) by (auto simp: mirrors_def)
    moreover have "b" using a(3) Some by (simp add: stub_view_none)
    moreover from Some this have "stub_call (CallHardDelete i) st = (Inr b, ?st)"
      by (simp add: stub_hard_delete_def result_success_def ebind_def)
    ultimately show ?thesis using a(1) unfolding simulates_def by metis
  qed
qed

end

interpretation note_pair: stub_pair "rp_table note_repo" "\<lambda>rs. rs" "\<lambda>_. ()" note_repo "''Note''" "[''title'']"
  "[''title'']" "[''title'']" "\<lambda>a b. False" 0 "tenant_ctx None"
  by (rule stub_pair.intro [OF note_table note_repo_eq]) (simp add: tenant_ctx_def)

text \<open>The repository stub stands for the repository: from a stub and a table with the same ids, versions
  and deletion marks, every call with the same objects (reading with or without deleted entities,
  existence, adding a new id, saving, deleting softly or physically) succeeds on both or fails on
  both and leaves them alike. The calls excluded are adding an existing id, saving a deleted entity and
  deleting softly twice; the context has no tenant.\<close>

theorem stub_mirrors_repository:
  assumes table: "sql_up T rows row_clash rest" and repo: "rp = std_repo T ty names fl so lt n"
    and ctx: "rc_tenant_id ctx = None"
    and alike: "mirrors ty names st (rows db)" and call: "agreed ty names c st"
  shows "\<exists>b st' db'. stub_call c st = (Inr b, st') \<and> repo_do rp ctx now (sb_heap st) c db = (Inr b, db') \<and>
    mirrors ty names st' (rows db')"
proof -
  note sp = stub_pair.intro [OF table repo ctx]
  have "simulates rows rp ctx now ty names c st db"
    using call by (cases c)
      (simp_all add: stub_pair.read_sim [OF sp alike] stub_pair.add_sim [OF sp alike] stub_pair.save_sim [OF sp alike]
        stub_pair.soft_delete_sim [OF sp alike] stub_pair.hard_delete_sim [OF sp alike])
  then show ?thesis unfolding simulates_def .
qed

text \<open>An object that was read from the stub is the stored one: however it is changed meanwhile, saving it
  never conflicts.\<close>

lemma stub_save_aliased:
  assumes "stub_get i d st = (Inr (Success r md), st)"
    and "sb_store st' = sb_store st" "en_id (sb_heap st' r) = i"
  shows "\<exists>st''. stub_save r st' = (Inr (Success r []), st'')"
  using assms by (auto simp: stub_get_def stub_save_def result_failure_def result_success_def split: if_splits option.splits)

lemma stub_mirrors_repository_witness:
  "\<exists>b st' db'. stub_call (CallSave 0) \<lparr>sb_heap = (\<lambda>r. memo 5 None 1), sb_store = [(5, 0)], sb_deleted = {}\<rparr> = (Inr b, st') \<and>
     repo_do note_repo (tenant_ctx None) 9 (\<lambda>r. memo 5 None 1) (CallSave 0) [entity_to_dict (memo 5 None 1)] = (Inr b, db') \<and>
     mirrors ''Note'' [''title''] st' db'"
proof -
  let ?st = "\<lparr>sb_heap = (\<lambda>r. memo 5 None 1), sb_store = [(5, 0)], sb_deleted = {}\<rparr> :: stub"
  have "mirrors ''Note'' [''title''] ?st [entity_to_dict (memo 5 None 1)]"
    unfolding mirrors_def
    by (intro conjI exI [of _ "[memo 5 None 1]"])
      (auto simp: stub_ok_def stored_def note_ok stub_view_def fun_eq_iff)
  from stub_mirrors_repository [OF note_table note_repo_eq _ this, of "tenant_ctx None" "CallSave 0" 9]
  show ?thesis by (simp add: note_ok tenant_ctx_def)
qed

text \<open>The mediator stub sends like the mediator without behaviours.\<close>

lemma stub_send_is_send:
  assumes cmds: "\<And>cls. map_of (mt_commands ms) cls = map_option (\<lambda>ht. \<lambda>m. ebind (resolve ht) (\<lambda>h. handle h m)) (map_of (md_commands md) cls)"
    and k: "ms_kind msg = CommandMsg" "map_of (md_commands md) (ms_class msg) \<noteq> None"
  shows "stub_send ms msg = mediator_send md [] [] tr otel resolve handle msg"
  using assms by (auto simp: stub_send_def mediator_send_def dispatch_request_def compose_chain_def)

end
