(* ===== verification/Qx_Order.thy ===== *)
theory Qx_Order
  imports Qx_Projections Qx_Uow Qx_Saga
begin

text \<open>
  The example \<open>order-service\<close>, the one program of the repository that puts the packages together: an
  event-sourced order (\<open>domain/aggregates/order\<close>), its three commands (\<open>application/commands\<close>) on
  the event store and the outbox, the read model (\<open>infrastructure/projections\<close>) kept by the
  projection runner, the query on it (\<open>application/queries\<close>) and the fulfilment saga (\<open>sagas\<close>).
  Definitions of the packages are used as they are.
\<close>

section \<open>Events\<close>

text \<open>
  \<open>'b\<close> stands for the fields every event inherits, taken as what they are written as; nothing here
  reads them.
\<close>

datatype 'b order_event =
    OrderPlaced 'b uuid uuid "dict list" int
  | OrderConfirmed 'b uuid
  | OrderCancelled 'b uuid string

fun order_class_name :: "'b order_event \<Rightarrow> string" where
  "order_class_name (OrderPlaced b i c items n) = ''OrderPlaced''"
| "order_class_name (OrderConfirmed b i) = ''OrderConfirmed''"
| "order_class_name (OrderCancelled b i reason) = ''OrderCancelled''"

fun order_event_name :: "'b order_event \<Rightarrow> string" where
  "order_event_name (OrderPlaced b i c items n) = ''order.placed''"
| "order_event_name (OrderConfirmed b i) = ''order.confirmed''"
| "order_event_name (OrderCancelled b i reason) = ''order.cancelled''"

fun event_order_id :: "'b order_event \<Rightarrow> uuid" where
  "event_order_id (OrderPlaced b i c items n) = i"
| "event_order_id (OrderConfirmed b i) = i"
| "event_order_id (OrderCancelled b i reason) = i"

text \<open>\<open>dump\<close> is \<open>model_dump\<close> and \<open>imp\<close> the import of a class with its \<open>model_validate\<close>.\<close>

definition order_api ::
  "('b order_event \<Rightarrow> json) \<Rightarrow> (string \<Rightarrow> string \<Rightarrow> exn + (json \<Rightarrow> exn + 'b order_event))
     \<Rightarrow> 'b order_event event_api" where
  "order_api dump imp =
     \<lparr>ev_module = (\<lambda>_. ''order_service.domain.aggregates.order''), ev_qualname = order_class_name,
      ev_class_name = order_class_name, ev_event_name = order_event_name, ev_dump = dump,
      import_class = imp\<rparr>"

definition order_type :: string where "order_type = ''order_service.Order''"

definition st_pending :: string where "st_pending = ''pending''"
definition st_confirmed :: string where "st_confirmed = ''confirmed''"
definition st_cancelled :: string where "st_cancelled = ''cancelled''"

lemmas order_statuses = st_pending_def st_confirmed_def st_cancelled_def

section \<open>The aggregate\<close>

record order_item =
  oi_sku :: string
  oi_quantity :: int
  oi_price :: int

definition order_item_new :: "string \<Rightarrow> int \<Rightarrow> int \<Rightarrow> exn + order_item" where
  "order_item_new sku quantity price =
     (if quantity \<le> 0 then Inl (PyException ''ValueError'' ''quantity must be positive'')
      else if price \<le> 0 then Inl (PyException ''ValueError'' ''unit_price_cents must be positive'')
      else Inr \<lparr>oi_sku = sku, oi_quantity = quantity, oi_price = price\<rparr>)"

definition order_item_dict :: "order_item \<Rightarrow> dict" where
  "order_item_dict it =
     [(''sku'', JStr (oi_sku it)), (''quantity'', JInt (oi_quantity it)),
      (''unit_price_cents'', JInt (oi_price it))]"

text \<open>
  \<open>Order\<close> has no \<open>@dataclass\<close> of its own, so its four attributes are no fields: in the class they are
  the objects \<open>field(...)\<close> made, which equal no text, until an \<open>apply_\<close> method sets them.
\<close>

definition field_object :: "dict \<Rightarrow> json" where
  "field_object args = JObj args"

definition apply_orderplaced :: "'b order_event \<Rightarrow> json attrs \<Rightarrow> exn option \<times> json attrs" where
  "apply_orderplaced ev v =
     (case ev of
        OrderPlaced b i c items n \<Rightarrow>
          (None, [''customer_id'' \<mapsto> JStr (str_of_uuid c), ''items'' \<mapsto> JList (map JObj items),
                  ''total_cents'' \<mapsto> JInt n, ''status'' \<mapsto> JStr st_pending])
      | _ \<Rightarrow> (Some (PyException ''AttributeError'' ''customer_id''), Map.empty))"

definition order_class :: "('b order_event, json) agg_class" where
  "order_class =
     \<lparr>cls_fields = [],
      cls_attrs = [''customer_id'' \<mapsto> field_object [(''default_factory'', JStr ''uuid4'')],
                   ''items'' \<mapsto> field_object [(''default_factory'', JStr ''list'')],
                   ''total_cents'' \<mapsto> field_object [(''default'', JInt 0)],
                   ''status'' \<mapsto> field_object [(''default'', JStr st_pending)]],
      cls_apply = (\<lambda>m.
        if m = ''apply_orderplaced'' then Some apply_orderplaced
        else if m = ''apply_orderconfirmed'' then Some (\<lambda>ev v. (None, [''status'' \<mapsto> JStr st_confirmed]))
        else if m = ''apply_ordercancelled'' then Some (\<lambda>ev v. (None, [''status'' \<mapsto> JStr st_cancelled]))
        else None),
      cls_dump = Inr, cls_load = (\<lambda>j. j)\<rparr>"

definition order_status :: "('b order_event, json) es_agg \<Rightarrow> json option" where
  "order_status a = agg_view order_class a ''status''"

definition status_text :: "json option \<Rightarrow> string" where
  "status_text s = (case s of Some (JStr t) \<Rightarrow> t | _ \<Rightarrow> ''Field'')"

definition order_place ::
  "'b order_event event_api \<Rightarrow> uuid \<Rightarrow> 'b \<Rightarrow> uuid \<Rightarrow> order_item list \<Rightarrow> int
     \<Rightarrow> exn + ('b order_event, json) es_agg result" where
  "order_place api order_id base customer items tot =
     (if items = []
      then Inr (result_failure (mk_error DomainError ''order.empty_items''
             ''An order must have at least one item.'') [])
      else if tot \<le> 0
      then Inr (result_failure (mk_error DomainError ''order.invalid_total''
             ''Order total must be positive.'') [])
      else case es_new order_class (IdText (str_of_uuid order_id)) of
             Inl e \<Rightarrow> Inl e
           | Inr a \<Rightarrow>
               (case es_record_event api order_class
                       (OrderPlaced base order_id customer (map order_item_dict items) tot) a of
                  (Inl e, a') \<Rightarrow> Inl e
                | (Inr u, a') \<Rightarrow> Inr (result_success a' [])))"

text \<open>The id of a loaded order is text; building an event from it parses it.\<close>

definition order_id_of :: "('b order_event, json) es_agg \<Rightarrow> exn + uuid" where
  "order_id_of a =
     (case parse_uuid (ag_id a) of
        None \<Rightarrow> Inl (PyException ''ValidationError'' ''order_id'')
      | Some u \<Rightarrow> Inr u)"

definition order_confirm ::
  "'b order_event event_api \<Rightarrow> 'b \<Rightarrow> (('b order_event, json) es_agg, unit result) eff" where
  "order_confirm api base =
     ebind eget (\<lambda>a.
       if order_status a \<noteq> Some (JStr st_pending)
       then eret (result_failure (mk_error DomainError ''order.not_pending''
              (''Cannot confirm an order in status '' @ [CHR 0x27] @ status_text (order_status a) @
                 [CHR 0x27] @ ''.'')) [])
       else ebind (elift (order_id_of a)) (\<lambda>i.
            ebind (es_record_event api order_class (OrderConfirmed base i)) (\<lambda>_.
              eret (result_success () []))))"

definition order_cancel ::
  "'b order_event event_api \<Rightarrow> 'b \<Rightarrow> string \<Rightarrow> (('b order_event, json) es_agg, unit result) eff" where
  "order_cancel api base reason =
     ebind eget (\<lambda>a.
       if order_status a = Some (JStr st_cancelled)
       then eret (result_failure (mk_error DomainError ''order.already_cancelled''
              ''Order is already cancelled.'') [])
       else ebind (elift (order_id_of a)) (\<lambda>i.
            ebind (es_record_event api order_class (OrderCancelled base i reason)) (\<lambda>_.
              eret (result_success () []))))"

section \<open>Commands\<close>

text \<open>
  What the handlers are constructed with: the tables, and the commit of a session. \<open>EventStore\<close> is
  made with its default interval of 50.
\<close>

record ('db, 'b) order_env =
  oe_api :: "'b order_event event_api"
  oe_events :: "('db, es_row) sql"
  oe_snapshots :: "('db, snap_row) sql"
  oe_outbox :: "('db, outbox_row) sql"
  oe_iso :: "instant \<Rightarrow> string"
  oe_commit :: "'db \<Rightarrow> exn option"

definition order_store :: "('db, 'b) order_env \<Rightarrow> 'db event_store" where
  "order_store env =
     \<lparr>st_events = oe_events env, st_snapshots = oe_snapshots env, st_snapshot_every = 50\<rparr>"

text \<open>\<open>async with self._sf() as session, session.begin()\<close>; a return inside it commits.\<close>

definition order_session :: "('db \<Rightarrow> exn option) \<Rightarrow> ('db, 'a) eff \<Rightarrow> ('db, 'a) eff" where
  "order_session commit body db =
     (case engine_begin commit (on_fst body) (db, ()) of (x, (db', u)) \<Rightarrow> (x, db'))"

definition not_found_order :: "uuid \<Rightarrow> error" where
  "not_found_order i =
     mk_error NotFoundError ''order.not_found'' (''Order '' @ str_of_uuid i @ '' not found.'')"

text \<open>The integration event reads the attributes of the order just placed.\<close>

definition placed_integration :: "event \<Rightarrow> ('b order_event, json) es_agg \<Rightarrow> exn + event" where
  "placed_integration base a =
     (case (agg_view order_class a ''customer_id'', agg_view order_class a ''total_cents'') of
        (Some (JStr c), Some (JInt n)) \<Rightarrow>
          Inr (base\<lparr>ev_type := ''OrderPlacedIntegration'', ev_kind := IntegrationEvent,
                 ev_name := ''order.placed'', ev_version := 1,
                 ev_body := [(''order_id'', JStr (ag_id a)), (''customer_id'', JStr c),
                             (''total_cents'', JInt n)]\<rparr>)
      | _ \<Rightarrow> Inl (PyException ''ValidationError'' ''OrderPlacedIntegration''))"

text \<open>What a call gets from the clock and \<open>uuid4\<close>: the ids and times of the append, the inherited
  fields of the events it makes, and the ids of outbox rows.\<close>

record 'b order_call =
  oc_fresh :: "nat \<Rightarrow> uuid"
  oc_now :: instant
  oc_later :: instant
  oc_base :: 'b
  oc_integration :: event
  oc_rows :: "nat \<Rightarrow> uuid"

fun order_items :: "(string \<times> int \<times> int) list \<Rightarrow> exn + order_item list" where
  "order_items [] = Inr []"
| "order_items ((sku, quantity, price) # its) =
     (case order_item_new sku quantity price of
        Inl e \<Rightarrow> Inl e
      | Inr it \<Rightarrow> (case order_items its of Inl e \<Rightarrow> Inl e | Inr rest \<Rightarrow> Inr (it # rest)))"

definition place_block ::
  "('db, 'b) order_env \<Rightarrow> 'b order_call \<Rightarrow> uuid \<Rightarrow> ('b order_event, json) es_agg \<Rightarrow> ('db, uuid result) eff" where
  "place_block env c order_id order db =
     (case es_append (oe_api env) (order_store env) order_class (oc_fresh c) (oc_now c) (oc_later c)
             order_type None (db, order) of
        (Inl e, (db', a)) \<Rightarrow> (Inl e, db')
      | (Inr (Failure err md), (db', a)) \<Rightarrow> (Inr (result_failure err []), db')
      | (Inr (Success v md), (db', a)) \<Rightarrow>
          ebind (elift (placed_integration (oc_integration c) a)) (\<lambda>ev.
          ebind (outbox_record (oe_outbox env) (oe_iso env) (oc_rows c) 0 [ev]) (\<lambda>_.
            eret (result_success order_id []))) db')"

definition place_order_handle ::
  "('db, 'b) order_env \<Rightarrow> 'b order_call \<Rightarrow> uuid \<Rightarrow> uuid \<Rightarrow> (string \<times> int \<times> int) list \<Rightarrow> int
     \<Rightarrow> ('db, uuid result) eff" where
  "place_order_handle env c order_id customer inputs tot =
     ebind (elift (order_items inputs)) (\<lambda>items.
     ebind (elift (order_place (oe_api env) order_id (oc_base c) customer items tot)) (\<lambda>placed.
       case placed of
         Failure err md \<Rightarrow> eret (result_failure err [])
       | Success order md \<Rightarrow> order_session (oe_commit env) (place_block env c order_id order)))"

text \<open>
  Confirming and cancelling: the block up to the decision gives a result to return or the order to
  append; then the rest of the block.
\<close>

definition change_order ::
  "('db, 'b) order_env \<Rightarrow> (('b order_event, json) es_agg, unit result) eff \<Rightarrow> uuid
     \<Rightarrow> ('db, unit result + ('b order_event, json) es_agg) eff" where
  "change_order env decide order_id =
     ebind (es_load (oe_api env) (order_store env) order_class (str_of_uuid order_id) order_type) (\<lambda>loaded.
       case loaded of
         Failure err md \<Rightarrow> eret (Inl (result_failure err []))
       | Success None md \<Rightarrow> eret (Inl (result_failure (not_found_order order_id) []))
       | Success (Some order) md \<Rightarrow>
           (case decide order of
              (Inl e, order') \<Rightarrow> eraise e
            | (Inr (Failure err md'), order') \<Rightarrow> eret (Inl (Failure err md'))
            | (Inr (Success u md'), order') \<Rightarrow> eret (Inr order')))"

definition finish_change ::
  "('db, 'b) order_env \<Rightarrow> 'b order_call \<Rightarrow> ('b order_event, json) es_agg \<Rightarrow> ('db, unit result) eff" where
  "finish_change env c order db =
     (case es_append (oe_api env) (order_store env) order_class (oc_fresh c) (oc_now c) (oc_later c)
             order_type None (db, order) of
        (Inl e, (db', a)) \<Rightarrow> (Inl e, db')
      | (Inr r, (db', a)) \<Rightarrow> (Inr (result_success () []), db'))"

definition confirm_order_handle ::
  "('db, 'b) order_env \<Rightarrow> 'b order_call \<Rightarrow> uuid \<Rightarrow> ('db, unit result) eff" where
  "confirm_order_handle env c order_id =
     order_session (oe_commit env)
       (ebind (change_order env (order_confirm (oe_api env) (oc_base c)) order_id) (\<lambda>x.
          case x of Inl r \<Rightarrow> eret r | Inr order \<Rightarrow> finish_change env c order))"

definition cancel_order_handle ::
  "('db, 'b) order_env \<Rightarrow> 'b order_call \<Rightarrow> uuid \<Rightarrow> string \<Rightarrow> ('db, unit result) eff" where
  "cancel_order_handle env c order_id reason =
     order_session (oe_commit env)
       (ebind (change_order env (order_cancel (oe_api env) (oc_base c) reason) order_id) (\<lambda>x.
          case x of Inl r \<Rightarrow> eret r | Inr order \<Rightarrow> finish_change env c order))"

section \<open>The read model\<close>

record summary_row =
  su_order :: string
  su_customer :: string
  su_total :: int
  su_status :: string
  su_items :: int
  su_placed :: instant
  su_updated :: instant

definition summary_clash :: "summary_row \<Rightarrow> summary_row \<Rightarrow> bool" where
  "summary_clash a b \<longleftrightarrow> su_order a = su_order b"

text \<open>
  Each handler commits on a connection of its own, so its effect is on the second state, which a
  rollback of the runner's session keeps. A status is set with the time of the database.
\<close>

definition summary_placed ::
  "('m, summary_row) sql \<Rightarrow> instant \<Rightarrow> uuid \<Rightarrow> uuid \<Rightarrow> dict list \<Rightarrow> int \<Rightarrow> ('m, unit) eff" where
  "summary_placed T now i c items n =
     sql_upsert T \<lparr>su_order = str_of_uuid i, su_customer = str_of_uuid c, su_total = n,
        su_status = ''pending'', su_items = int (length items), su_placed = now, su_updated = now\<rparr> (\<lambda>r. r)"

definition summary_status :: "('m, summary_row) sql \<Rightarrow> instant \<Rightarrow> uuid \<Rightarrow> string \<Rightarrow> ('m, unit) eff" where
  "summary_status T now i status =
     ebind (sql_update T (\<lambda>r. su_order r = str_of_uuid i)
       (\<lambda>r. r\<lparr>su_status := status, su_updated := now\<rparr>)) (\<lambda>_. eret ())"

definition on_orderplaced ::
  "('m, summary_row) sql \<Rightarrow> instant \<Rightarrow> 'b order_event \<Rightarrow> ('m, unit) eff" where
  "on_orderplaced T now ev =
     (case ev of OrderPlaced b i c items n \<Rightarrow> summary_placed T now i c items n
      | _ \<Rightarrow> eraise (PyException ''AttributeError'' ''customer_id''))"

definition order_summary_projection ::
  "('m \<Rightarrow> exn option) \<Rightarrow> ('m, summary_row) sql \<Rightarrow> instant \<Rightarrow> ('d \<times> 'm, 'b order_event) projection" where
  "order_summary_projection commit T now =
     \<lparr>pj_name = ''order_summary'',
      pj_handler = (\<lambda>m.
        if m = ''on_orderplaced'' then Some (\<lambda>ev. on_snd (order_session commit (on_orderplaced T now ev)))
        else if m = ''on_orderconfirmed''
        then Some (\<lambda>ev. on_snd (order_session commit (summary_status T now (event_order_id ev) ''confirmed'')))
        else if m = ''on_ordercancelled''
        then Some (\<lambda>ev. on_snd (order_session commit (summary_status T now (event_order_id ev) ''cancelled'')))
        else None),
      pj_reset = on_snd (order_session commit (ebind (sql_delete T (\<lambda>r. True)) (\<lambda>_. eret ())))\<rparr>"

text \<open>The background task: one run in a session of its own; an \<open>Exception\<close> is logged.\<close>

definition order_runner ::
  "('d \<times> 'm, ck_row) sql \<Rightarrow> ('d \<times> 'm, es_row) sql \<Rightarrow> ('d \<times> 'm, 'b order_event) projection
     \<Rightarrow> ('d \<times> 'm, 'b order_event) runner" where
  "order_runner checkpoints events p =
     pj_register p \<lparr>pr_checkpoints = checkpoints, pr_events = events, pr_batch = 500, pr_projections = []\<rparr>"

definition project_once ::
  "'b order_event event_api \<Rightarrow> ('d \<Rightarrow> exn option) \<Rightarrow> ('d \<times> 'm, 'b order_event) runner \<Rightarrow> instant
     \<Rightarrow> ('d \<times> 'm, unit) eff" where
  "project_once api commit R now =
     etry (ebind (engine_begin commit (pj_run_once api R now)) (\<lambda>n. eret ())) (\<lambda>e. eret ())"

record order_dto =
  od_order :: uuid
  od_customer :: uuid
  od_total :: int
  od_status :: string
  od_items :: int

definition uuid_of_text :: "string \<Rightarrow> exn + uuid" where
  "uuid_of_text s =
     (case parse_uuid s of None \<Rightarrow> Inl (PyException ''ValueError'' s) | Some u \<Rightarrow> Inr u)"

definition get_order_handle :: "('m, summary_row) sql \<Rightarrow> uuid \<Rightarrow> ('m, order_dto result) eff" where
  "get_order_handle T order_id =
     ebind (sql_select T (\<lambda>r. su_order r = str_of_uuid order_id) no_order None) (\<lambda>rs.
       case rs of
         [] \<Rightarrow> eret (result_failure (not_found_order order_id) [])
       | r # _ \<Rightarrow>
           ebind (elift (uuid_of_text (su_order r))) (\<lambda>i.
           ebind (elift (uuid_of_text (su_customer r))) (\<lambda>c.
             eret (result_success \<lparr>od_order = i, od_customer = c, od_total = su_total r,
                od_status = su_status r, od_items = su_items r\<rparr> []))))"

section \<open>The saga\<close>

datatype order_command = ConfirmOrder uuid | CancelOrder uuid string

text \<open>\<open>send\<close> is \<open>mediator.send\<close>; the saga does not look at the result.\<close>

definition saga_order_placed :: "(order_command \<Rightarrow> ('s, unit) eff) \<Rightarrow> 's saga_handler" where
  "saga_order_placed send ev =
     (case map_of (ev_body ev) ''order_id'' of
        Some (JStr t) \<Rightarrow>
          ebind (elift (uuid_of_text t)) (\<lambda>i.
          ebind (on_fst (emodify (\<lambda>sg.
              sg\<lparr>so_state := AList.update ''order_id'' (JStr (str_of_uuid i)) (so_state sg)\<rparr>))) (\<lambda>_.
            on_snd (send (ConfirmOrder i))))
      | _ \<Rightarrow> eraise (PyException ''AttributeError'' ''order_id''))"

definition saga_handle_timeout :: "(order_command \<Rightarrow> ('s, unit) eff) \<Rightarrow> 's saga_hook" where
  "saga_handle_timeout send =
     ebind (on_fst eget) (\<lambda>sg.
       case map_of (so_state sg) ''order_id'' of
         Some (JStr t) \<Rightarrow>
           if t = [] then eret ()
           else ebind (elift (uuid_of_text t)) (\<lambda>i.
             on_snd (send (CancelOrder i ''order timed out awaiting confirmation'')))
       | _ \<Rightarrow> eraise (PyException ''AttributeError'' ''order_id''))"

definition order_saga_attrs :: "(order_command \<Rightarrow> ('s, unit) eff) \<Rightarrow> 's saga_attr list" where
  "order_saga_attrs send =
     (let plain = \<lparr>sa_on = None, sa_timeout = None, sa_handler = (\<lambda>ev. eret ()), sa_hook = eret ()\<rparr>
      in [saga_on ''OrderPlacedIntegration'' (plain\<lparr>sa_handler := saga_order_placed send\<rparr>),
          saga_on ''OrderConfirmed'' (plain\<lparr>sa_handler := (\<lambda>ev. on_fst (emodify mark_complete))\<rparr>),
          saga_on ''OrderCancelled'' (plain\<lparr>sa_handler := (\<lambda>ev. on_fst (emodify mark_failed))\<rparr>),
          saga_on_timeout (30 * 60 * 1000000) (plain\<lparr>sa_hook := saga_handle_timeout send\<rparr>)])"

definition order_saga ::
  "(dict \<Rightarrow> exn + dict) \<Rightarrow> (order_command \<Rightarrow> ('s, unit) eff) \<Rightarrow> 's saga_class" where
  "order_saga validate send =
     (case saga_meta (order_saga_attrs send) [] of
        (hs, hook, after) \<Rightarrow>
          \<lparr>sg_key = ''order_service.sagas.OrderFulfillmentSaga'', sg_handlers = hs, sg_timeout_handler = hook,
           sg_timeout_after = after, sg_initial = [(''order_id'', JStr [])], sg_validate = validate,
           sg_compensate = eret ()\<rparr>)"

section \<open>The life of an order\<close>

text \<open>
  An order is placed, then confirmed or cancelled, and after a confirmation it may still be cancelled;
  all its events carry its id.
\<close>

definition order_life :: "string \<Rightarrow> 'b order_event list \<Rightarrow> bool" where
  "order_life aid evs \<longleftrightarrow>
     map order_class_name evs \<in>
       {[], [''OrderPlaced''], [''OrderPlaced'', ''OrderConfirmed''], [''OrderPlaced'', ''OrderCancelled''],
        [''OrderPlaced'', ''OrderConfirmed'', ''OrderCancelled'']} \<and>
     (\<forall>ev\<in>set evs. str_of_uuid (event_order_id ev) = aid)"

text \<open>The UUIDs of an event have 128 bits.\<close>

fun order_event_ok :: "'b order_event \<Rightarrow> bool" where
  "order_event_ok (OrderPlaced b i c items n) \<longleftrightarrow> i < 2 ^ 128 \<and> c < 2 ^ 128"
| "order_event_ok (OrderConfirmed b i) \<longleftrightarrow> i < 2 ^ 128"
| "order_event_ok (OrderCancelled b i reason) \<longleftrightarrow> i < 2 ^ 128"

fun status_after :: "'b order_event \<Rightarrow> string" where
  "status_after (OrderPlaced b i c items n) = st_pending"
| "status_after (OrderConfirmed b i) = st_confirmed"
| "status_after (OrderCancelled b i reason) = st_cancelled"

lemma order_names:
  "order_class_name ev = ''OrderPlaced'' \<longleftrightarrow> (\<exists>b i c items n. ev = OrderPlaced b i c items n)"
  "order_class_name ev = ''OrderConfirmed'' \<longleftrightarrow> (\<exists>b i. ev = OrderConfirmed b i)"
  "order_class_name ev = ''OrderCancelled'' \<longleftrightarrow> (\<exists>b i reason. ev = OrderCancelled b i reason)"
  by (cases ev; simp)+

lemma order_lower [simp]:
  "py_lower ''OrderPlaced'' = ''orderplaced''" "py_lower ''OrderConfirmed'' = ''orderconfirmed''"
  "py_lower ''OrderCancelled'' = ''ordercancelled''"
  by code_simp+

lemma order_life_length: "order_life aid evs \<Longrightarrow> length evs \<le> 3"
proof -
  assume "order_life aid evs"
  then have "length (map order_class_name evs) \<le> 3" unfolding order_life_def by fastforce
  then show ?thesis by simp
qed

lemma order_life_Nil [simp]: "order_life aid []"
  by (simp add: order_life_def)

text \<open>The status of an order is that of its last event, and says which events may follow.\<close>

lemma order_fold_step:
  assumes "ev_class_name api = order_class_name"
  shows "es_fold api order_class (ev # evs) v =
     es_fold api order_class evs (v ++ (if order_class_name ev = ''OrderPlaced'' then snd (apply_orderplaced ev v)
       else [''status'' \<mapsto> JStr (status_after ev)]))"
  by (cases ev) (simp_all add: assms order_class_def apply_orderplaced_def)

lemma order_fold_status:
  assumes api: "ev_class_name api = order_class_name"
    and "es_fold api order_class evs v = Inr w" "evs \<noteq> []"
  shows "w ''status'' = Some (JStr (status_after (last evs)))"
  using assms(2,3)
proof (induction evs arbitrary: v)
  case (Cons ev evs)
  show ?case
  proof (cases "evs = []")
    case True
    with Cons.prems(1) show ?thesis
      unfolding order_fold_step [OF api] by (cases ev) (auto simp: apply_orderplaced_def)
  next
    case False
    with Cons show ?thesis unfolding order_fold_step [OF api] by simp
  qed
qed simp

lemma life_confirm:
  assumes "order_life aid evs" "evs \<noteq> []" "status_after (last evs) = st_pending"
    "order_class_name ev = ''OrderConfirmed''" "str_of_uuid (event_order_id ev) = aid"
  shows "order_life aid (evs @ [ev])"
proof -
  have "order_class_name (last evs) = ''OrderPlaced''"
    using assms(3) by (cases "last evs") (simp_all add: order_statuses)
  then have "last (map order_class_name evs) = ''OrderPlaced''" using assms(2) by (simp add: last_map)
  with assms show ?thesis unfolding order_life_def by auto
qed

lemma life_cancel:
  assumes "order_life aid evs" "evs \<noteq> []" "status_after (last evs) \<noteq> st_cancelled"
    "order_class_name ev = ''OrderCancelled''" "str_of_uuid (event_order_id ev) = aid"
  shows "order_life aid (evs @ [ev])"
proof -
  have "order_class_name (last evs) \<noteq> ''OrderCancelled''"
    using assms(3) by (cases "last evs") (simp_all add: order_statuses)
  then have "last (map order_class_name evs) \<noteq> ''OrderCancelled''" using assms(2) by (simp add: last_map)
  with assms show ?thesis unfolding order_life_def by auto
qed

lemma record_frame:
  assumes "es_record_event api cls ev a = (r, a')"
  shows "ag_id a' = ag_id a \<and> ag_version a' = ag_version a \<and> ag_pending a' = ag_pending a @ [ev]"
proof -
  have "efold (es_apply api cls) [ev] (a\<lparr>ag_pending := ag_pending a @ [ev]\<rparr>) = (r, a')"
    using assms by (simp add: es_record_event_def ebind_def)
  from efold_apply_frame [OF this] show ?thesis by (simp add: ag_id_def)
qed

text \<open>What a decision that goes through has recorded.\<close>

lemma decision_records:
  assumes api: "ev_class_name api = order_class_name"
    and d: "decide = order_confirm api base \<or> decide = order_cancel api base reason"
    and run: "decide a = (Inr (Success u md), a')"
    and st: "agg_view order_class a ''status'' = Some (JStr (status_after (last evs)))"
    and life: "order_life (ag_id a) evs" "evs \<noteq> []"
    and i: "parse_uuid (ag_id a) = Some i" "str_of_uuid i = ag_id a" "i < 2 ^ 128"
  shows "\<exists>ev. es_record_event api order_class ev a = (Inr (), a') \<and> order_life (ag_id a) (evs @ [ev]) \<and>
    order_event_ok ev"
  using d
proof
  assume "decide = order_confirm api base"
  with run i(1) have "status_after (last evs) = st_pending"
    and "es_record_event api order_class (OrderConfirmed base i) a = (Inr (), a')"
    by (auto simp: order_confirm_def order_status_def st order_id_of_def ebind_def result_failure_def
        result_success_def split: if_splits prod.splits sum.splits)
  with life_confirm [OF life, of "OrderConfirmed base i"] i(2,3) show ?thesis by (intro exI conjI) auto
next
  assume "decide = order_cancel api base reason"
  with run i(1) have "status_after (last evs) \<noteq> st_cancelled"
    and "es_record_event api order_class (OrderCancelled base i reason) a = (Inr (), a')"
    by (auto simp: order_cancel_def order_status_def st order_id_of_def ebind_def result_failure_def
        result_success_def split: if_splits prod.splits sum.splits)
  with life_cancel [OF life, of "OrderCancelled base i reason"] i(2,3) show ?thesis by (intro exI conjI) auto
qed

lemma order_session_cases:
  assumes "order_session commit body db = (x, db')"
  shows "db' = db \<or> (\<exists>v. body db = (Inr v, db') \<and> x = Inr v)"
  using assms by (auto simp: order_session_def engine_begin_def split: prod.splits sum.splits option.splits)

section \<open>Any number of handlers at once\<close>

text \<open>
  A world is the database and the orders that running handlers have changed and not yet appended. The
  handlers of different requests interleave between the two halves of a change.
\<close>

type_synonym ('db, 'b) order_world = "'db \<times> (nat \<rightharpoonup> ('b order_event, json) es_agg)"

inductive order_step ::
  "('db, 'b) order_env \<Rightarrow> ('db, 'b) order_world \<Rightarrow> ('db, 'b) order_world \<Rightarrow> bool" for env
where
  step_placed: "i < 2 ^ 128 \<Longrightarrow> customer < 2 ^ 128 \<Longrightarrow> place_order_handle env c i customer inputs tot db = (x, db') \<Longrightarrow>
    order_step env (db, cl) (db', cl)"
| step_decided: "i < 2 ^ 128 \<Longrightarrow>
    decide = order_confirm (oe_api env) base \<or> decide = order_cancel (oe_api env) base reason \<Longrightarrow>
    change_order env decide i db = (Inr (Inr a), db') \<Longrightarrow>
    order_step env (db, cl) (db', cl(k \<mapsto> a))"
| step_finished: "cl k = Some a \<Longrightarrow> order_session (oe_commit env) (finish_change env c a) db = (y, db') \<Longrightarrow>
    order_step env (db, cl) (db', cl(k := None))"

text \<open>The tables of the service; a statement on the outbox leaves the log alone.\<close>

locale order_tables =
  fixes env :: "('db, 'b) order_env" and er :: "'db \<Rightarrow> es_row list" and sr :: "'db \<Rightarrow> snap_row list"
  assumes store: "es_tables (order_store env) er sr"
    and classes: "ev_class_name (oe_api env) = order_class_name"
    and loadable: "order_event_ok ev \<Longrightarrow> es_loadable (oe_api env) ev"
    and outbox: "sql_insert (oe_outbox env) xs db = (ores, db') \<Longrightarrow> er db' = er db \<and> sr db' = sr db"
begin

abbreviation history :: "es_row list \<Rightarrow> string \<Rightarrow> 'b order_event list \<Rightarrow> bool" where
  "history rows aid evs \<equiv> es_history (oe_api env) rows order_type aid evs"

abbreviation stream_length :: "es_row list \<Rightarrow> string \<Rightarrow> int" where
  "stream_length rows aid \<equiv> int (length (es_stream rows order_type aid))"

definition log_ok :: "'db \<Rightarrow> bool" where
  "log_ok db \<longleftrightarrow>
     es_log_ok (oe_api env) (\<lambda>_. order_class) (\<lambda>_. True) (er db) [] \<and> sr db = [] \<and>
     (\<forall>r\<in>set (er db). er_type r = order_type) \<and>
     (\<forall>aid evs. history (er db) aid evs \<longrightarrow> order_life aid evs)"

definition change_ok :: "es_row list \<Rightarrow> ('b order_event, json) es_agg \<Rightarrow> bool" where
  "change_ok rows a \<longleftrightarrow>
     client_ok (oe_api env) (\<lambda>_. order_class) (\<lambda>_. True) rows (order_type, a) \<and> ag_pending a \<noteq> [] \<and>
     (\<forall>evs. ag_version a = stream_length rows (ag_id a) \<longrightarrow> history rows (ag_id a) evs \<longrightarrow>
        order_life (ag_id a) (evs @ ag_pending a))"

lemma change_ok_extend:
  assumes ok: "change_ok rows b" and c: "es_contiguous rows" and ne: "evs \<noteq> []"
  shows "change_ok (rows @ es_make_rows (oe_api env) fresh now order_type tenant aid (stream_length rows aid) evs) b"
proof -
  let ?new = "es_make_rows (oe_api env) fresh now order_type tenant aid (stream_length rows aid) evs"
  note ext = es_stream_extend [OF c refl, where api = "oe_api env" and fresh = fresh and now = now
      and tenant = tenant and evs = evs and ty = order_type and aid = aid]
  from ok have co: "client_ok (oe_api env) (\<lambda>_. order_class) (\<lambda>_. True) rows (order_type, b)" by (simp add: change_ok_def)
  note co' = client_ok_extend [OF co c ne refl, of fresh now order_type tenant aid]
  show ?thesis
  proof (cases "ag_id b = aid")
    case True
    with co have "ag_version b \<le> stream_length rows aid" by (simp add: client_ok_def)
    with ne have "ag_version b \<noteq> stream_length (rows @ ?new) (ag_id b)"
      using ext(1) True by (cases evs) simp_all
    with co' ok show ?thesis unfolding change_ok_def by blast
  next
    case False
    then have "es_stream (rows @ ?new) order_type (ag_id b) = es_stream rows order_type (ag_id b)"
      using ext(2) by simp
    with co' ok show ?thesis unfolding change_ok_def by simp
  qed
qed

end

context order_tables
begin

lemma log_okD:
  assumes "log_ok db"
  shows "es_contiguous (er db)" "unique_rows es_clash (er db)" "sr db = []"
    "es_log_ok (oe_api env) (\<lambda>_. order_class) (\<lambda>_. True) (er db) (sr db)" "\<exists>evs. history (er db) aid evs"
    "history (er db) aid evs \<Longrightarrow> order_life aid evs" "\<forall>r\<in>set (er db). er_type r = order_type"
  using assms unfolding log_ok_def es_log_ok_def by auto

text \<open>A log grown by events that continue the life of one order.\<close>

lemma log_ok_grown:
  assumes ok: "log_ok db" and h: "history (er db) aid evs" and life: "order_life aid (evs @ new)"
    and e: "er db' = er db @ es_make_rows (oe_api env) fresh now order_type None aid (stream_length (er db) aid) new"
    and u: "unique_rows es_clash (er db')" and s: "sr db' = []" and ld: "list_all (es_loadable (oe_api env)) new"
  shows "log_ok db'"
proof -
  note c = log_okD(1) [OF ok] and l = log_okD(4) [OF ok, unfolded log_okD(3) [OF ok]]
  note ext = es_log_ok_extend [OF l _ refl, where ty = order_type and aid = aid and fresh = fresh
      and now = now and tenant = None and evs = new, folded e]
  have "order_life aid' evs'" if h': "history (er db') aid' evs'" for aid' evs'
  proof (cases "aid' = aid")
    case True
    with h' ext(2) [OF ld u TrueI h] life show ?thesis by simp
  next
    case False
    then have "es_stream (er db') order_type aid' = es_stream (er db) order_type aid'"
      unfolding e by (intro es_stream_extend(2) [OF c refl]) simp
    with h' log_okD(6) [OF ok] show ?thesis by simp
  qed
  moreover have "\<forall>r\<in>set (er db'). er_type r = order_type"
    using log_okD(7) [OF ok] make_rows_keys unfolding e by fastforce
  ultimately show ?thesis using ext(1) [OF ld u] s by (simp add: log_ok_def)
qed

text \<open>An append either changes nothing or adds the pending events, which continue the life of the order;
  no snapshot is due before the fiftieth event.\<close>

lemma append_order:
  assumes ok: "log_ok db" and ch: "change_ok (er db) a"
    and run: "es_append (oe_api env) (order_store env) order_class fresh now now' order_type None (db, a) = (r, (db', a'))"
  shows "log_ok db' \<and> (\<forall>b. change_ok (er db) b \<longrightarrow> change_ok (er db') b)"
proof -
  let ?n = "stream_length (er db) (ag_id a)"
  note c = log_okD(1) [OF ok] and u = log_okD(2) [OF ok]
  from ch have v: "0 \<le> ag_version a" "ag_version a \<le> ?n" and p: "ag_pending a \<noteq> []"
    and ld: "list_all (es_loadable (oe_api env)) (ag_pending a)"
    by (auto simp: change_ok_def client_ok_def)
  have same: ?thesis if "er db' = er db" "sr db' = sr db"
    using ok that by (simp add: log_ok_def)
  show ?thesis
  proof (cases "ag_version a = ?n")
    case False
    with v have "ag_version a < ?n" by simp
    from es_tables.append_behind [OF store c u v(1) this p run] same show ?thesis by simp
  next
    case True
    obtain evs where h: "history (er db) (ag_id a) evs" using log_okD(5) [OF ok] by blast
    with ch True have life: "order_life (ag_id a) (evs @ ag_pending a)" by (simp add: change_ok_def)
    have len: "ag_version a + int (length (ag_pending a)) = int (length (evs @ ag_pending a))"
      using deserialize_length [OF h] True by simp
    obtain x db1 where i: "sql_insert (st_events (order_store env))
        (es_make_rows (oe_api env) fresh now order_type None (ag_id a) (ag_version a) (ag_pending a)) db = (x, db1)"
      by (rule prod.exhaust)
    show ?thesis
    proof (cases x)
      case (Inl e)
      from es_append_insert_failed [OF p i [unfolded Inl], of order_class now'] run
      have "db' = db1" by simp
      moreover from sql_table.insert_failed [OF es_tables.axioms(1) [OF store] i [unfolded Inl]]
      have "er db1 = er db \<and> sr db1 = sr db" .
      ultimately show ?thesis using same by simp
    next
      case (Inr w)
      have "0 < length (ag_pending a)" using p by simp
      then have "0 < ag_version a + int (length (ag_pending a))" "ag_version a + int (length (ag_pending a)) \<le> 3"
        using order_life_length [OF life] v(1) len by linarith+
      then have "(ag_version a + int (length (ag_pending a))) mod 50 \<noteq> 0" by simp
      with es_append_inserted [OF p i [unfolded Inr] refl refl, of order_class now'] run
      have "db' = db1" by (simp add: order_store_def)
      moreover from sql_table.insert_ok [OF es_tables.axioms(1) [OF store] i [unfolded Inr] u]
      have "er db1 = er db @ es_make_rows (oe_api env) fresh now order_type None (ag_id a) ?n (ag_pending a)"
        "unique_rows es_clash (er db1)" "sr db1 = sr db" using True by simp_all
      ultimately show ?thesis
        using log_ok_grown [OF ok h life, of db' fresh now] ld log_okD(3) [OF ok] change_ok_extend [OF _ c p]
        by simp
    qed
  qed
qed

text \<open>A decision on a loaded order is one that its life allows.\<close>

lemma change_decided:
  assumes ok: "log_ok db" and i: "i < 2 ^ 128"
    and d: "decide = order_confirm (oe_api env) base \<or> decide = order_cancel (oe_api env) base reason"
    and run: "change_order env decide i db = (Inr (Inr a'), db')"
  shows "db' = db \<and> change_ok (er db) a' \<and> ag_id a' = str_of_uuid i \<and>
    ag_version a' = stream_length (er db) (str_of_uuid i)"
proof -
  let ?aid = "str_of_uuid i"
  obtain y db1 where l: "es_load (oe_api env) (order_store env) order_class ?aid order_type db = (y, db1)"
    by (rule prod.exhaust)
  obtain a md u md' where y: "y = Inr (Success (Some a) md)" and dec: "decide a = (Inr (Success u md'), a')"
    and db1: "db1 = db'"
    using run l by (auto simp: change_order_def ebind_def split: sum.splits result.splits option.splits prod.splits)
  obtain evs where h: "history (er db) ?aid evs" using log_okD(5) [OF ok] by blast
  note ls = es_tables.load_spec [OF store, where classes = "\<lambda>_. order_class" and ty = order_type
      and api = "oe_api env" and aid = ?aid and db = db and db' = db1 and res = "Success (Some a) md"]
  let ?cls = "order_class :: ('b order_event, json) agg_class"
  have db: "db1 = db" and ne: "evs \<noteq> []" and a: "ag_id a = ?aid" "ag_version a = int (length evs)" "ag_pending a = []"
    and f: "es_fold (oe_api env) ?cls evs (cls_attrs ?cls) = Inr (agg_view ?cls a)"
    using ls [OF log_okD(4) [OF ok] _ l [unfolded y]] log_okD(3) [OF ok] h
    by (auto simp: ag_id_def split: if_splits)
  have life: "order_life (ag_id a) evs" using log_okD(6) [OF ok h] a(1) by simp
  from decision_records [OF classes d dec order_fold_status [OF classes f ne] life ne] parse_str_of_uuid [OF i] a(1) i
  obtain new where rec: "es_record_event (oe_api env) order_class new a = (Inr (), a')"
    and life': "order_life (ag_id a) (evs @ [new])" and new: "order_event_ok new" by auto
  note fr = record_frame [OF rec]
  have co: "client_ok (oe_api env) (\<lambda>_. order_class) (\<lambda>_. True) (er db) (order_type, a)"
    using a f h deserialize_length [OF h] by (simp add: client_ok_def)
  from client_ok_record [OF this loadable [OF new]] rec
  have "client_ok (oe_api env) (\<lambda>_. order_class) (\<lambda>_. True) (er db) (order_type, a')" by simp
  with fr a h life' have "change_ok (er db) a'" by (auto simp: change_ok_def)
  with fr a db db1 deserialize_length [OF h] show ?thesis by simp
qed

end

context order_tables
begin

lemma log_ok_same: "log_ok db \<Longrightarrow> er db' = er db \<Longrightarrow> sr db' = sr db \<Longrightarrow> log_ok db'"
  by (simp add: log_ok_def)

lemma placed_order:
  assumes run: "order_place (oe_api env) i base customer items tot = Inr (Success a md)" and ok: "log_ok db"
    and ids: "i < 2 ^ 128" "customer < 2 ^ 128"
  shows "change_ok (er db) a"
proof -
  let ?cls = "order_class :: ('b order_event, json) agg_class"
  let ?ev = "OrderPlaced base i customer (map order_item_dict items) tot"
  let ?a = "es_blank (IdText (str_of_uuid i)) :: ('b order_event, json) es_agg"
  have new: "es_new ?cls (IdText (str_of_uuid i)) = Inr (?a\<lparr>ag_attrs := Map.empty\<rparr>)"
    by (simp add: es_new_def order_class_def)
  have blank: "?a\<lparr>ag_attrs := Map.empty\<rparr> = ?a" by (simp add: es_blank_def)
  from run new have rec: "es_record_event (oe_api env) ?cls ?ev ?a = (Inr (), a)"
    by (auto simp: order_place_def blank result_failure_def result_success_def
        split: if_splits sum.splits prod.splits)
  have none: "history (er db) (str_of_uuid i) []" if "stream_length (er db) (str_of_uuid i) = 0"
    using that by simp
  have "client_ok (oe_api env) (\<lambda>_. ?cls) (\<lambda>_. True) (er db) (order_type, ?a)"
    using none by (auto simp: client_ok_def)
  from client_ok_record [OF this loadable, of ?ev] rec ids
  have co: "client_ok (oe_api env) (\<lambda>_. ?cls) (\<lambda>_. True) (er db) (order_type, a)" by simp
  have "order_life (str_of_uuid i) (evs @ [?ev])"
    if "stream_length (er db) (str_of_uuid i) = 0" "history (er db) (str_of_uuid i) evs" for evs
    using deserialize_length [OF that(2)] that(1) by (simp add: order_life_def)
  with co record_frame [OF rec] show ?thesis by (simp add: change_ok_def)
qed

lemma order_session_keeps:
  assumes "order_session commit body db = (x, db')" and "P db" and "\<And>v d. body db = (Inr v, d) \<Longrightarrow> P d"
  shows "P db'"
  using order_session_cases [OF assms(1)] assms(2,3) by auto

lemma outbox_record_keeps:
  assumes "outbox_record (oe_outbox env) fmt fresh session evs db = (x, db')"
  shows "er db' = er db \<and> sr db' = sr db"
  using assms outbox by (auto simp: outbox_record_def split: if_splits)

definition grows :: "'db \<Rightarrow> 'db \<Rightarrow> bool" where
  "grows db db' \<longleftrightarrow> log_ok db' \<and> (\<forall>b. change_ok (er db) b \<longrightarrow> change_ok (er db') b)"

lemma grows_refl: "log_ok db \<Longrightarrow> grows db db"
  by (simp add: grows_def)

lemma grows_same: "grows db db1 \<Longrightarrow> er db2 = er db1 \<Longrightarrow> sr db2 = sr db1 \<Longrightarrow> grows db db2"
  by (auto simp: grows_def intro: log_ok_same)

lemma place_grows:
  assumes ok: "log_ok db" and run: "place_order_handle env c i customer inputs tot db = (x, db')"
    and ids: "i < 2 ^ 128" "customer < 2 ^ 128"
  shows "grows db db'"
proof -
  consider "db' = db"
    | items order md where "order_place (oe_api env) i (oc_base c) customer items tot = Inr (Success order md)"
        "order_session (oe_commit env) (place_block env c i order) db = (x, db')"
    using run by (auto simp: place_order_handle_def ebind_def split: sum.splits result.splits)
  then show ?thesis
  proof cases
    case 1
    with ok show ?thesis by (simp add: grows_refl)
  next
    case 2
    show ?thesis
    proof (rule order_session_keeps [where P = "grows db", OF 2(2) grows_refl [OF ok]])
      fix v d assume body: "place_block env c i order db = (Inr v, d)"
      obtain r db1 a where ap: "es_append (oe_api env) (order_store env) order_class (oc_fresh c) (oc_now c)
          (oc_later c) order_type None (db, order) = (r, (db1, a))"
        by (metis prod.exhaust)
      from append_order [OF ok placed_order [OF 2(1) ok ids] ap] have g: "grows db db1" by (simp add: grows_def)
      have "er d = er db1 \<and> sr d = sr db1"
        using body ap outbox_record_keeps
        by (auto simp: place_block_def ebind_def split: sum.splits result.splits prod.splits)
      with g show "grows db d" by (blast intro: grows_same)
    qed
  qed
qed

lemma finish_grows:
  assumes ok: "log_ok db" and a: "change_ok (er db) a"
    and run: "order_session (oe_commit env) (finish_change env c a) db = (x, db')"
  shows "grows db db'"
proof (rule order_session_keeps [where P = "grows db", OF run grows_refl [OF ok]])
  fix v d assume "finish_change env c a db = (Inr v, d)"
  moreover obtain r db1 a1 where ap: "es_append (oe_api env) (order_store env) order_class (oc_fresh c) (oc_now c)
      (oc_later c) order_type None (db, a) = (r, (db1, a1))"
    by (metis prod.exhaust)
  ultimately have "d = db1" by (auto simp: finish_change_def split: sum.splits)
  with append_order [OF ok a ap] show "grows db d" by (simp add: grows_def)
qed

lemma ran_all_upd: "\<forall>a\<in>ran m. P a \<Longrightarrow> (\<And>a. x = Some a \<Longrightarrow> P a) \<Longrightarrow> \<forall>a\<in>ran (m(k := x)). P a"
  using ran_update by fastforce

lemma order_steps_inv:
  assumes "(order_step env)\<^sup>*\<^sup>* (db0, Map.empty) w" and "er db0 = []" "sr db0 = []"
  shows "log_ok (fst w) \<and> (\<forall>a\<in>ran (snd w). change_ok (er (fst w)) a)"
  using assms(1)
proof (induction rule: rtranclp_induct)
  case base
  have "order_life aid evs" if "history (er db0) aid evs" for aid evs
    using that assms by simp
  then show ?case using assms
    by (auto simp: log_ok_def es_log_ok_def unique_rows_def es_contiguous_def)
next
  case (step w w')
  from step.hyps(2) step.IH show ?case
  proof (cases rule: order_step.cases)
    case (step_placed c i customer inputs tot db x db' cl)
    with step.IH place_grows [OF _ step_placed(5,3,4)] show ?thesis by (auto simp: grows_def)
  next
    case (step_decided i decide base reason db a db' cl k)
    with step.IH have ok: "log_ok db" by simp
    from change_decided [OF ok step_decided(3-5)] have "db' = db" "change_ok (er db) a" by simp_all
    with ran_all_upd [of cl "change_ok (er db)" "Some a" k] ok step.IH show ?thesis
      unfolding step_decided(1,2) fst_conv snd_conv by (simp del: fun_upd_apply)
  next
    case (step_finished cl k a c db y db')
    with step.IH have ok: "log_ok db" and a: "change_ok (er db) a" by (auto intro: ranI)
    from finish_grows [OF ok a step_finished(4)] have "log_ok db'" "\<forall>b. change_ok (er db) b \<longrightarrow> change_ok (er db') b"
      by (simp_all add: grows_def)
    with ran_all_upd [of cl "change_ok (er db')" None k] step.IH show ?thesis
      unfolding step_finished(1,2) fst_conv snd_conv by (simp del: fun_upd_apply)
  qed
qed

text \<open>A change that is late gets no answer but success, and leaves no trace.\<close>

lemma finish_late:
  assumes ok: "log_ok db" and a: "change_ok (er db) a"
    and late: "ag_version a < stream_length (er db) (ag_id a)" and commit: "\<And>d. oe_commit env d = None"
  shows "\<exists>db'. order_session (oe_commit env) (finish_change env c a) db = (Inr (Success () []), db') \<and>
    er db' = er db \<and> sr db' = sr db"
proof -
  obtain r db1 a1 where ap: "es_append (oe_api env) (order_store env) order_class (oc_fresh c) (oc_now c)
      (oc_later c) order_type None (db, a) = (r, (db1, a1))"
    by (metis prod.exhaust)
  from a have p: "0 \<le> ag_version a" "ag_pending a \<noteq> []" by (auto simp: change_ok_def client_ok_def)
  from es_tables.append_behind [OF store log_okD(1,2) [OF ok] p(1) late p(2) ap]
  have "r = Inr (Failure (version_conflict order_type (ag_id a)) [])" "er db1 = er db" "sr db1 = sr db" by simp_all
  with ap commit show ?thesis
    by (simp add: order_session_def engine_begin_def finish_change_def result_success_def)
qed

end

section \<open>The log of the service\<close>

definition order_log :: "'b order_event event_api \<Rightarrow> es_row list \<Rightarrow> bool" where
  "order_log api rows \<longleftrightarrow>
     es_contiguous rows \<and> (\<forall>r\<in>set rows. er_type r = order_type) \<and>
     (\<forall>aid. \<exists>evs. es_history api rows order_type aid evs \<and> order_life aid evs)"

context order_tables
begin

lemma log_ok_order_log: "log_ok db \<Longrightarrow> order_log (oe_api env) (er db)"
  using log_okD unfolding order_log_def by meson

end

lemma deserialize_nth:
  "es_deserialize_all api rs = Inr evs \<Longrightarrow> k < length rs \<Longrightarrow> es_deserialize_event api (rs ! k) = Inr (evs ! k)"
proof (induction rs arbitrary: evs k)
  case (Cons r rs)
  then show ?case by (cases k) (auto split: sum.splits)
qed simp

lemma order_life_later:
  assumes "order_life aid evs" "0 < k" "k < length evs"
  shows "order_class_name (evs ! k) \<noteq> ''OrderPlaced''"
proof -
  have "map order_class_name evs ! k \<noteq> ''OrderPlaced''" if "k = 1 \<or> k = 2"
    using assms(1,3) that unfolding order_life_def length_map [of order_class_name evs, symmetric]
    by (elim conjE insertE disjE) auto
  moreover have "k = 1 \<or> k = 2" using assms order_life_length [OF assms(1)] by auto
  ultimately show ?thesis using assms(3) by simp
qed

lemma order_log_row:
  assumes log: "order_log api rows" and r: "r \<in> set rows"
  shows "\<exists>ev. es_deserialize_event api r = Inr ev \<and> (2 \<le> er_seq r \<longrightarrow> order_class_name ev \<noteq> ''OrderPlaced'')"
proof -
  let ?s = "es_stream rows order_type (er_agg r)"
  from log obtain evs where h: "es_history api rows order_type (er_agg r) evs" and life: "order_life (er_agg r) evs"
    unfolding order_log_def by blast
  from r log have "r \<in> set ?s" by (simp add: es_stream_set order_log_def)
  then obtain k where k: "k < length ?s" "?s ! k = r" by (auto simp: in_set_conv_nth)
  from log have "map er_seq ?s ! k = [1..int (length ?s)] ! k" by (simp add: order_log_def es_contiguous_def)
  with k have sq: "er_seq r = int k + 1" by simp
  have "es_deserialize_event api r = Inr (evs ! k)" using deserialize_nth [OF h k(1)] k(2) by simp
  moreover have "2 \<le> er_seq r \<longrightarrow> order_class_name (evs ! k) \<noteq> ''OrderPlaced''"
    using order_life_later [OF life] sq k(1) deserialize_length [OF h] by auto
  ultimately show ?thesis by blast
qed

section \<open>What the projection sees\<close>

text \<open>On any log a run applies stored events past the checkpoint only, and the checkpoint does not go back.\<close>

context projection_db
begin

lemma run_above:
  assumes u: "unique_rows ck_clash (cr s)"
    and reads: "\<forall>r\<in>set (er s). \<exists>ev. es_deserialize_event api r = Inr ev"
  shows "\<exists>n s' rs evs. pj_run_projection api R now p None s = (Inr n, s') \<and> er s' = er s \<and>
    unique_rows ck_clash (cr s') \<and> ck_value (cr s) (pj_name p) \<le> ck_value (cr s') (pj_name p) \<and>
    set rs \<subseteq> {r \<in> set (er s). er_seq r > ck_value (cr s) (pj_name p)} \<and>
    es_deserialize_all api rs = Inr evs \<and> rm s' = fold upd evs (rm s)"
proof -
  let ?c = "ck_value (cr s) (pj_name p)"
  obtain rs s1 where q: "sql_select (pr_events R) (\<lambda>r. er_seq r > ?c) (\<lambda>r. (er_seq r, 0)) (Some (pr_batch R)) s = (Inr rs, s1)"
    using ev.select_up by blast
  obtain ys where ys: "mset ys = mset (filter (\<lambda>r. er_seq r > ?c) (er s))" "rs = take (pr_batch R) ys"
    using ev.select_rows [OF q] by auto
  have "set ys = {r \<in> set (er s). er_seq r > ?c}" using mset_eq_setD [OF ys(1)] by simp
  with ys(2) have rs: "set rs \<subseteq> {r \<in> set (er s). er_seq r > ?c}" by (auto dest: in_set_takeD)
  have "\<exists>evs. es_deserialize_all api xs = Inr evs" if "set xs \<subseteq> set (er s)" for xs
    using that
  proof (induction xs)
    case (Cons x xs)
    from Cons.prems reads obtain ev where "es_deserialize_event api x = Inr ev" by (meson list.set_intros(1) subsetD)
    moreover from Cons obtain evs where "es_deserialize_all api xs = Inr evs" by auto
    ultimately show ?case by simp
  qed simp
  with rs obtain evs where evs: "es_deserialize_all api rs = Inr evs" by blast
  note st = ev.select_state [OF q] get_checkpoint [OF u]
  show ?thesis
  proof (cases "rs = []")
    case True
    with q st u show ?thesis
      by (intro exI [of _ 0] exI [of _ s] exI [of _ "[]"]) (simp add: pj_run_projection_def ebind_Inr)
  next
    case False
    obtain s2 where s2: "efold (pj_apply_row api p) rs s = (Inr (), s2)" "er s2 = er s" "cr s2 = cr s"
      "rm s2 = fold upd evs (rm s)"
      using apply_rows [OF evs] by blast
    from set_checkpoint [of s2 now "pj_name p" "er_seq (last rs)"] s2(3) u obtain s3 where
      s3: "pj_set_checkpoint R now (pj_name p) (er_seq (last rs)) s2 = (Inr (), s3)" "er s3 = er s2"
      "rm s3 = rm s2" "ck_value (cr s3) (pj_name p) = er_seq (last rs)" "unique_rows ck_clash (cr s3)"
      by auto
    have "er_seq (last rs) > ?c" using subsetD [OF rs last_in_set [OF False]] by simp
    with False q st s2 s3 rs evs show ?thesis
      by (intro exI [of _ "length rs"] exI [of _ s3] exI [of _ rs]) (simp add: pj_run_projection_def ebind_Inr)
  qed
qed

end

text \<open>One event on the rows of the read model.\<close>

definition summary_upd :: "instant \<Rightarrow> 'b order_event \<Rightarrow> summary_row list \<Rightarrow> summary_row list" where
  "summary_upd now ev rows =
     (case ev of
        OrderPlaced b i c items n \<Rightarrow>
          upsert_rows summary_clash \<lparr>su_order = str_of_uuid i, su_customer = str_of_uuid c, su_total = n,
            su_status = ''pending'', su_items = int (length items), su_placed = now, su_updated = now\<rparr> (\<lambda>r. r) rows
      | _ \<Rightarrow> map (\<lambda>r. if su_order r = str_of_uuid (event_order_id ev)
               then r\<lparr>su_status := status_after ev, su_updated := now\<rparr> else r) rows)"

lemma summary_upd_ids:
  "order_class_name ev \<noteq> ''OrderPlaced'' \<Longrightarrow> map su_order (summary_upd now ev rows) = map su_order rows"
  by (cases ev) (auto simp: summary_upd_def)

text \<open>The tables of the runner and of the read model, with statements and commits that do not fail.\<close>

locale order_views =
  ev: sql_up evT "\<lambda>s. er (fst s)" es_clash "\<lambda>s. (cr (fst s), sm (snd s))" +
  ck: sql_up ckT "\<lambda>s. cr (fst s)" ck_clash "\<lambda>s. (er (fst s), sm (snd s))" +
  su: sql_up smT sm summary_clash "\<lambda>_. ()"
  for evT :: "('d \<times> 'm, es_row) sql" and ckT :: "('d \<times> 'm, ck_row) sql" and smT :: "('m, summary_row) sql"
    and er :: "'d \<Rightarrow> es_row list" and cr :: "'d \<Rightarrow> ck_row list" and sm :: "'m \<Rightarrow> summary_row list" +
  fixes api :: "'b order_event event_api" and commit :: "'d \<Rightarrow> exn option" and commit' :: "'m \<Rightarrow> exn option"
  assumes classes: "ev_class_name api = order_class_name"
    and commits: "commit d = None" "commit' m = None"
begin

abbreviation summaries :: "instant \<Rightarrow> ('d \<times> 'm, 'b order_event) projection" where
  "summaries now \<equiv> order_summary_projection commit' smT now"

abbreviation runs :: "instant \<Rightarrow> ('d \<times> 'm, 'b order_event) runner" where
  "runs now \<equiv> order_runner ckT evT (summaries now)"

lemma session_ok: "body db = (Inr v, db') \<Longrightarrow> order_session commit' body db = (Inr v, db')"
  by (simp add: order_session_def engine_begin_def commits)

lemma summary_handler:
  "\<exists>s'. pj_apply api (summaries now) ev aid s = (Inr (), s') \<and> fst s' = fst s \<and>
     sm (snd s') = summary_upd now ev (sm (snd s))"
proof (cases s)
  case (Pair d m)
  show ?thesis
  proof (cases ev)
    case (OrderPlaced b i c items n)
    obtain m' where q: "summary_placed smT now i c items n m = (Inr (), m')"
      unfolding summary_placed_def using su.upsert_up by blast
    then have "sm m' = summary_upd now ev (sm m)"
      using su.upsert_ok [OF q [unfolded summary_placed_def]] by (simp add: summary_upd_def OrderPlaced)
    with q Pair OrderPlaced show ?thesis
      using session_ok [of "on_orderplaced smT now ev" m "()" m']
      by (simp add: pj_apply_def order_summary_projection_def classes on_orderplaced_def)
  next
    case (OrderConfirmed b i)
    have "keeps_keys summary_clash (\<lambda>r. su_order r = str_of_uuid i)
        (\<lambda>r. r\<lparr>su_status := ''confirmed'', su_updated := now\<rparr>)"
      by (simp add: keeps_keys_def summary_clash_def)
    then obtain k m' where q: "sql_update smT (\<lambda>r. su_order r = str_of_uuid i)
        (\<lambda>r. r\<lparr>su_status := ''confirmed'', su_updated := now\<rparr>) m = (Inr k, m')"
      using su.update_up by blast
    from su.update_ok [OF q] have "sm m' = summary_upd now ev (sm m)"
      by (simp add: summary_upd_def OrderConfirmed order_statuses)
    with session_ok [of "summary_status smT now i ''confirmed''" m "()" m'] q Pair OrderConfirmed show ?thesis
      by (simp add: pj_apply_def order_summary_projection_def classes summary_status_def ebind_def)
  next
    case (OrderCancelled b i reason)
    have "keeps_keys summary_clash (\<lambda>r. su_order r = str_of_uuid i)
        (\<lambda>r. r\<lparr>su_status := ''cancelled'', su_updated := now\<rparr>)"
      by (simp add: keeps_keys_def summary_clash_def)
    then obtain k m' where q: "sql_update smT (\<lambda>r. su_order r = str_of_uuid i)
        (\<lambda>r. r\<lparr>su_status := ''cancelled'', su_updated := now\<rparr>) m = (Inr k, m')"
      using su.update_up by blast
    from su.update_ok [OF q] have "sm m' = summary_upd now ev (sm m)"
      by (simp add: summary_upd_def OrderCancelled order_statuses)
    with session_ok [of "summary_status smT now i ''cancelled''" m "()" m'] q Pair OrderCancelled show ?thesis
      by (simp add: pj_apply_def order_summary_projection_def classes summary_status_def ebind_def)
  qed
qed

end

text \<open>The read model evolves by runs of the projection and by whatever the handlers do to the log.\<close>

inductive order_view_step ::
  "'b order_event event_api \<Rightarrow> ('d \<Rightarrow> exn option) \<Rightarrow> ('m \<Rightarrow> exn option) \<Rightarrow> ('d \<times> 'm, ck_row) sql
     \<Rightarrow> ('d \<times> 'm, es_row) sql \<Rightarrow> ('m, summary_row) sql \<Rightarrow> ('d \<Rightarrow> es_row list) \<Rightarrow> ('d \<Rightarrow> ck_row list)
     \<Rightarrow> 'd \<times> 'm \<Rightarrow> 'd \<times> 'm \<Rightarrow> bool" for api commit commit' ckT evT smT er cr
where
  view_run: "project_once api commit (order_runner ckT evT (order_summary_projection commit' smT now)) now' s = (x, s') \<Longrightarrow>
    order_view_step api commit commit' ckT evT smT er cr s s'"
| view_log: "order_log api (er d') \<Longrightarrow> cr d' = cr d \<Longrightarrow>
    order_view_step api commit commit' ckT evT smT er cr (d, m) (d', m)"

context order_views
begin

lemma views_db:
  "projection_db (runs now) (\<lambda>s. er (fst s)) (\<lambda>s. cr (fst s)) (\<lambda>s. sm (snd s)) api (summaries now) (summary_upd now)"
proof (intro projection_db.intro projection_db_axioms.intro)
  show "sql_up (pr_events (runs now)) (\<lambda>s. er (fst s)) es_clash (\<lambda>s. (cr (fst s), sm (snd s)))"
    by (simp add: order_runner_def pj_register_def ev.sql_up_axioms)
  show "sql_up (pr_checkpoints (runs now)) (\<lambda>s. cr (fst s)) ck_clash (\<lambda>s. (er (fst s), sm (snd s)))"
    by (simp add: order_runner_def pj_register_def ck.sql_up_axioms)
  show "\<exists>s'. pj_apply api (summaries now) ev aid s = (Inr (), s') \<and> er (fst s') = er (fst s) \<and>
      cr (fst s') = cr (fst s) \<and> sm (snd s') = summary_upd now ev (sm (snd s))" for ev aid s
    using summary_handler [of now ev aid s] by metis
qed

text \<open>Past the first checkpoint no order is added to the read model.\<close>

definition hides :: "string set \<Rightarrow> 'd \<times> 'm \<Rightarrow> bool" where
  "hides ids s \<longleftrightarrow>
     order_log api (er (fst s)) \<and> unique_rows ck_clash (cr (fst s)) \<and>
     1 \<le> ck_value (cr (fst s)) ''order_summary'' \<and> su_order ` set (sm (snd s)) = ids"

lemma fold_upd_ids:
  "\<forall>ev\<in>set evs. order_class_name ev \<noteq> ''OrderPlaced'' \<Longrightarrow>
     map su_order (fold (summary_upd now) evs rows) = map su_order rows"
  by (induction evs arbitrary: rows) (simp_all add: summary_upd_ids)

lemma hides_run:
  assumes h: "hides ids s" and run: "project_once api commit (runs now) now' s = (x, s')"
  shows "hides ids s'"
proof -
  let ?c = "ck_value (cr (fst s)) ''order_summary''"
  have name: "pj_name (summaries now) = ''order_summary''" by (simp add: order_summary_projection_def)
  from h have log: "order_log api (er (fst s))" and u: "unique_rows ck_clash (cr (fst s))" and c: "1 \<le> ?c"
    by (simp_all add: hides_def)
  have reads: "\<forall>r\<in>set (er (fst s)). \<exists>ev. es_deserialize_event api r = Inr ev"
    using order_log_row [OF log] by blast
  from projection_db.run_above [OF views_db u reads, of now now'] obtain n s1 rs evs where
    r: "pj_run_projection api (runs now) now' (summaries now) None s = (Inr n, s1)"
    and keep: "er (fst s1) = er (fst s)" "unique_rows ck_clash (cr (fst s1))"
      "?c \<le> ck_value (cr (fst s1)) ''order_summary''"
    and rs: "set rs \<subseteq> {r \<in> set (er (fst s)). er_seq r > ?c}"
    and evs: "es_deserialize_all api rs = Inr evs" "sm (snd s1) = fold (summary_upd now) evs (sm (snd s))"
    unfolding name by blast
  have "order_class_name ev \<noteq> ''OrderPlaced''" if "ev \<in> set evs" for ev
  proof -
    from that obtain k where k: "k < length evs" "evs ! k = ev" by (auto simp: in_set_conv_nth)
    then have kr: "k < length rs" using deserialize_length [OF evs(1)] by simp
    with rs nth_mem have "rs ! k \<in> set (er (fst s))" "er_seq (rs ! k) > ?c" by blast+
    with order_log_row [OF log, of "rs ! k"] deserialize_nth [OF evs(1) kr] k(2) c show ?thesis by auto
  qed
  with fold_upd_ids [of evs now "sm (snd s)"] evs(2) have "map su_order (sm (snd s1)) = map su_order (sm (snd s))"
    by simp
  then have ids: "su_order ` set (sm (snd s1)) = su_order ` set (sm (snd s))" by (metis list.set_map)
  have "pj_run_once api (runs now) now' s = (Inr n, s1)"
    using r by (simp add: pj_run_once_def order_runner_def pj_register_def ebind_def)
  then have "s' = s1" using run
    by (cases s1) (simp add: project_once_def engine_begin_def etry_def ebind_def commits)
  with h keep ids c show ?thesis by (simp add: hides_def)
qed

lemma hides_steps:
  assumes "(order_view_step api commit commit' ckT evT smT er cr)\<^sup>*\<^sup>* s s'" and "hides ids s"
  shows "hides ids s'"
  using assms
proof (induction rule: rtranclp_induct)
  case (step s1 s2)
  from step.hyps(2) step.IH [OF step.prems] show ?case
  proof (cases rule: order_view_step.cases)
    case (view_run now now' x)
    with hides_run step.IH [OF step.prems] show ?thesis by blast
  next
    case (view_log d' d m)
    with step.IH [OF step.prems] show ?thesis by (simp add: hides_def)
  qed
qed simp

lemma get_hidden:
  assumes "str_of_uuid i \<notin> su_order ` set (sm m)"
  shows "fst (get_order_handle smT i m) = Inr (Failure (not_found_order i) [])"
proof -
  obtain rs m' where q: "sql_select smT (\<lambda>r. su_order r = str_of_uuid i) no_order None m = (Inr rs, m')"
    using su.select_up by blast
  have "filter (\<lambda>r. su_order r = str_of_uuid i) (sm m) = []"
    using assms unfolding filter_empty_conv by (metis image_eqI)
  with su.select_mset(1) [OF q] have "rs = []" by simp
  with q show ?thesis by (simp add: get_order_handle_def ebind_def result_failure_def)
qed

end

section \<open>An instance\<close>

text \<open>Pydantic on the three classes, with no inherited fields.\<close>

fun demo_order_dump :: "unit order_event \<Rightarrow> json" where
  "demo_order_dump (OrderPlaced b i c items n) =
     JObj [(''order_id'', JStr (str_of_uuid i)), (''customer_id'', JStr (str_of_uuid c)),
           (''items'', JList (map JObj items)), (''total_cents'', JInt n)]"
| "demo_order_dump (OrderConfirmed b i) = JObj [(''order_id'', JStr (str_of_uuid i))]"
| "demo_order_dump (OrderCancelled b i reason) =
     JObj [(''order_id'', JStr (str_of_uuid i)), (''reason'', JStr reason)]"

fun demo_dicts :: "json list \<Rightarrow> dict list option" where
  "demo_dicts [] = Some []"
| "demo_dicts (JObj d # js) = map_option ((#) d) (demo_dicts js)"
| "demo_dicts (j # js) = None"

fun demo_placed :: "json \<Rightarrow> unit order_event option" where
  "demo_placed (JObj [(k1, JStr i), (k2, JStr c), (k3, JList items), (k4, JInt n)]) =
     Option.bind (parse_uuid i) (\<lambda>i. Option.bind (parse_uuid c) (\<lambda>c.
       map_option (\<lambda>ds. OrderPlaced () i c ds n) (demo_dicts items)))"
| "demo_placed j = None"

fun demo_confirmed :: "json \<Rightarrow> unit order_event option" where
  "demo_confirmed (JObj [(k, JStr i)]) = map_option (OrderConfirmed ()) (parse_uuid i)"
| "demo_confirmed j = None"

fun demo_cancelled :: "json \<Rightarrow> unit order_event option" where
  "demo_cancelled (JObj [(k, JStr i), (k', JStr reason)]) =
     map_option (\<lambda>i. OrderCancelled () i reason) (parse_uuid i)"
| "demo_cancelled j = None"

definition demo_validate :: "(json \<Rightarrow> unit order_event option) \<Rightarrow> json \<Rightarrow> exn + unit order_event" where
  "demo_validate f j = (case f j of None \<Rightarrow> Inl (PyException ''ValidationError'' []) | Some ev \<Rightarrow> Inr ev)"

definition demo_import :: "string \<Rightarrow> string \<Rightarrow> exn + (json \<Rightarrow> exn + unit order_event)" where
  "demo_import m c =
     (if c = ''OrderPlaced'' then Inr (demo_validate demo_placed)
      else if c = ''OrderConfirmed'' then Inr (demo_validate demo_confirmed)
      else if c = ''OrderCancelled'' then Inr (demo_validate demo_cancelled)
      else Inl (PyException ''AttributeError'' c))"

definition demo_order_api :: "unit order_event event_api" where
  "demo_order_api = order_api demo_order_dump demo_import"

lemma demo_order_class: "ev_class_name demo_order_api = order_class_name"
  by (simp add: demo_order_api_def order_api_def)

lemma demo_dicts_map: "demo_dicts (map JObj ds) = Some ds"
  by (induction ds) auto

lemma demo_order_loadable: "order_event_ok ev \<Longrightarrow> es_loadable demo_order_api ev"
  by (cases ev) (simp_all add: es_loadable_def demo_order_api_def order_api_def demo_import_def
      demo_validate_def parse_str_of_uuid demo_dicts_map)

text \<open>A database of events, snapshots and outbox rows.\<close>

type_synonym order_db = "es_row list \<times> snap_row list \<times> outbox_row list"

definition demo_order_env :: "(order_db, unit) order_env" where
  "demo_order_env =
     \<lparr>oe_api = demo_order_api, oe_events = list_sql fst (\<lambda>rs db. (rs, snd db)) es_clash,
      oe_snapshots = list_sql (\<lambda>db. fst (snd db)) (\<lambda>rs db. (fst db, rs, snd (snd db))) sn_clash,
      oe_outbox = list_sql (\<lambda>db. snd (snd db)) (\<lambda>rs db. (fst db, fst (snd db), rs)) ob_clash,
      oe_iso = (\<lambda>t. ''now''), oe_commit = (\<lambda>db. None)\<rparr>"

interpretation demo_orders: order_tables demo_order_env fst "\<lambda>db. fst (snd db)"
proof (intro order_tables.intro)
  have e: "table_slot fst (\<lambda>rs db :: order_db. (rs, snd db)) (\<lambda>db. fst (snd db))" by unfold_locales auto
  have s: "table_slot (\<lambda>db. fst (snd db)) (\<lambda>rs db :: order_db. (fst db, rs, snd (snd db))) fst"
    by unfold_locales auto
  show "es_tables (order_store demo_order_env) fst (\<lambda>db. fst (snd db))"
    using table_slot.list_sql_table [OF e] table_slot.list_sql_table [OF s]
    by (simp add: es_tables_def order_store_def demo_order_env_def)
qed (auto simp: demo_order_env_def demo_order_loadable demo_order_class split: if_splits)

type_synonym view_db = "es_row list \<times> ck_row list"

abbreviation "demo_view_events \<equiv>
  list_sql (\<lambda>s. fst (fst s)) (\<lambda>rs (s :: view_db \<times> summary_row list). ((rs, snd (fst s)), snd s)) es_clash"
abbreviation "demo_view_checkpoints \<equiv>
  list_sql (\<lambda>s. snd (fst s)) (\<lambda>rs (s :: view_db \<times> summary_row list). ((fst (fst s), rs), snd s)) ck_clash"
abbreviation "demo_summaries \<equiv> list_sql (\<lambda>rs. rs) (\<lambda>rs (_ :: summary_row list). rs) summary_clash"

interpretation demo_views: order_views demo_view_events demo_view_checkpoints demo_summaries fst snd "\<lambda>m. m"
  demo_order_api "\<lambda>d. None" "\<lambda>m. None"
proof -
  have e: "table_slot (\<lambda>s. fst (fst s)) (\<lambda>rs (s :: view_db \<times> summary_row list). ((rs, snd (fst s)), snd s))
      (\<lambda>s. (snd (fst s), snd s))" by unfold_locales auto
  have c: "table_slot (\<lambda>s. snd (fst s)) (\<lambda>rs (s :: view_db \<times> summary_row list). ((fst (fst s), rs), snd s))
      (\<lambda>s. (fst (fst s), snd s))" by unfold_locales auto
  show "order_views demo_view_events demo_view_checkpoints demo_summaries fst snd (\<lambda>m. m) demo_order_api
      (\<lambda>d. None) (\<lambda>m. None)"
    unfolding order_views_def order_views_axioms_def
    using table_slot.list_sql_up [OF e] table_slot.list_sql_up [OF c] list_table.sql_up_axioms [of summary_clash]
    by (simp add: demo_order_class)
qed

text \<open>An order is placed; two handlers load it, one to confirm and one to cancel it; the second is faster.\<close>

definition demo_call :: "nat \<Rightarrow> unit order_call" where
  "demo_call n =
     \<lparr>oc_fresh = (\<lambda>i. 10 * n + i), oc_now = 0, oc_later = 0, oc_base = (),
      oc_integration = Qx_Domain.demo_event IntegrationEvent ''order.placed'', oc_rows = (\<lambda>i. 10 * n + i)\<rparr>"

definition demo_placed_event :: "unit order_event" where
  "demo_placed_event = OrderPlaced () 1 2 [order_item_dict \<lparr>oi_sku = ''S'', oi_quantity = 1, oi_price = 5\<rparr>] 5"

definition demo_order_row :: "uuid \<Rightarrow> uuid \<Rightarrow> int \<Rightarrow> unit order_event \<Rightarrow> es_row" where
  "demo_order_row n i sq ev = es_make_row demo_order_api n 0 order_type None (str_of_uuid i) sq ev"

definition demo_attrs :: "string \<Rightarrow> json attrs" where
  "demo_attrs status = (cls_attrs (order_class :: (unit order_event, json) agg_class)) ++
     snd (apply_orderplaced demo_placed_event Map.empty) ++ [''status'' \<mapsto> JStr status]"

lemma demo_place:
  "\<exists>ob. place_order_handle demo_order_env (demo_call 1) 1 2 [(''S'', 1, 5)] 5 ([], [], []) =
     (Inr (Success 1 []), ([demo_order_row 11 1 1 demo_placed_event], [], ob))"
  by (simp add: place_order_handle_def order_item_new_def ebind_def order_place_def es_new_def order_class_def
      es_record_event_def es_apply_def demo_order_env_def demo_order_api_def order_api_def agg_view_def
      apply_orderplaced_def result_success_def order_session_def engine_begin_def place_block_def
      es_append_def es_pull_events_def order_store_def es_make_rows_def demo_call_def etry_def unique_rows_def
      es_blank_def placed_integration_def outbox_record_def Qx_Domain.demo_event_def outbox_rows_def
      demo_order_row_def demo_placed_event_def es_make_row_def is_text_def)

lemma demo_row_sel [simp]:
  "er_type (demo_order_row n i sq ev) = order_type" "er_agg (demo_order_row n i sq ev) = str_of_uuid i"
  "er_seq (demo_order_row n i sq ev) = sq" "er_id (demo_order_row n i sq ev) = n"
  "order_event_ok ev \<Longrightarrow> es_deserialize_event demo_order_api (demo_order_row n i sq ev) = Inr ev"
  by (simp_all add: demo_order_row_def deserialize_make_row demo_order_loadable) (simp_all add: es_make_row_def)

definition demo_loaded :: "(unit order_event, json) es_agg" where
  "demo_loaded = \<lparr>ag_ident = IdText (str_of_uuid 1), ag_version = 1, ag_pending = [],
     ag_attrs = Map.empty ++ snd (apply_orderplaced demo_placed_event Map.empty)\<rparr>"

lemma demo_env_sel [simp]:
  "oe_api demo_order_env = demo_order_api" "oe_commit demo_order_env db = None"
  "st_snapshot_every (order_store demo_order_env) = 50"
  "st_events (order_store demo_order_env) = list_sql fst (\<lambda>rs db. (rs, snd db)) es_clash"
  "st_snapshots (order_store demo_order_env) =
     list_sql (\<lambda>db. fst (snd db)) (\<lambda>rs db. (fst db, rs, snd (snd db))) sn_clash"
  by (simp_all add: demo_order_env_def order_store_def)

lemma demo_load:
  "es_load demo_order_api (order_store demo_order_env) order_class (str_of_uuid 1) order_type
     ([demo_order_row 11 1 1 demo_placed_event], [], ob) =
   (Inr (Success (Some demo_loaded) []), ([demo_order_row 11 1 1 demo_placed_event], [], ob))"
  by (simp add: es_load_def ebind_def es_from_events_def es_replay_def es_apply_def demo_order_class
      demo_placed_event_def order_class_def result_success_def demo_loaded_def es_blank_def agg_view_def
      apply_orderplaced_def)

definition demo_changed :: "unit order_event \<Rightarrow> (unit order_event, json) es_agg" where
  "demo_changed ev = demo_loaded\<lparr>ag_pending := [ev],
     ag_attrs := ag_attrs demo_loaded ++ [''status'' \<mapsto> JStr (status_after ev)]\<rparr>"

lemma demo_changes:
  "change_order demo_order_env (order_confirm demo_order_api ()) 1 ([demo_order_row 11 1 1 demo_placed_event], [], ob) =
     (Inr (Inr (demo_changed (OrderConfirmed () 1))), ([demo_order_row 11 1 1 demo_placed_event], [], ob))"
  "change_order demo_order_env (order_cancel demo_order_api () ''late'') 1
      ([demo_order_row 11 1 1 demo_placed_event], [], ob) =
     (Inr (Inr (demo_changed (OrderCancelled () 1 ''late''))), ([demo_order_row 11 1 1 demo_placed_event], [], ob))"
proof -
  have id: "order_id_of demo_loaded = Inr 1" by (simp add: order_id_of_def demo_loaded_def parse_str_of_uuid)
  have st: "order_status demo_loaded = Some (JStr st_pending)"
    by (simp add: order_status_def agg_view_def demo_loaded_def demo_placed_event_def apply_orderplaced_def)
  show "change_order demo_order_env (order_confirm demo_order_api ()) 1 ([demo_order_row 11 1 1 demo_placed_event], [], ob) =
      (Inr (Inr (demo_changed (OrderConfirmed () 1))), ([demo_order_row 11 1 1 demo_placed_event], [], ob))"
    using demo_load [of ob]
    by (simp add: change_order_def ebind_def order_confirm_def st id es_record_event_def es_apply_def
        demo_order_class order_class_def demo_changed_def result_success_def) (simp add: demo_loaded_def)
  show "change_order demo_order_env (order_cancel demo_order_api () ''late'') 1
      ([demo_order_row 11 1 1 demo_placed_event], [], ob) =
      (Inr (Inr (demo_changed (OrderCancelled () 1 ''late''))), ([demo_order_row 11 1 1 demo_placed_event], [], ob))"
    using demo_load [of ob]
    by (simp add: change_order_def ebind_def order_cancel_def st id es_record_event_def es_apply_def
        demo_order_class order_class_def demo_changed_def result_success_def order_statuses) (simp add: demo_loaded_def)
qed

lemma demo_finish:
  "order_session (oe_commit demo_order_env) (finish_change demo_order_env (demo_call 2)
      (demo_changed (OrderCancelled () 1 ''late''))) ([demo_order_row 11 1 1 demo_placed_event], [], ob) =
     (Inr (Success () []),
      ([demo_order_row 11 1 1 demo_placed_event, demo_order_row 21 1 2 (OrderCancelled () 1 ''late'')], [], ob))"
proof -
  have "\<not> es_clash (demo_order_row 11 1 1 demo_placed_event) (demo_order_row 21 1 2 (OrderCancelled () 1 ''late''))"
    by (simp add: es_clash_def)
  then show ?thesis
    by (simp add: order_session_def engine_begin_def finish_change_def es_append_def es_pull_events_def ebind_def
        es_make_rows_def demo_call_def demo_changed_def etry_def unique_rows_def demo_loaded_def result_success_def
        flip: demo_order_row_def)
qed

definition demo_late_rows :: "es_row list" where
  "demo_late_rows = [demo_order_row 11 1 1 demo_placed_event, demo_order_row 21 1 2 (OrderCancelled () 1 ''late'')]"

lemma demo_order_reach:
  "\<exists>ob cl. (order_step demo_order_env)\<^sup>*\<^sup>* (([], [], []), Map.empty) ((demo_late_rows, [], ob), cl) \<and>
     cl 1 = Some (demo_changed (OrderConfirmed () 1))"
proof -
  let ?a = "demo_changed (OrderConfirmed () 1)" and ?b = "demo_changed (OrderCancelled () 1 ''late'')"
  obtain ob where p: "place_order_handle demo_order_env (demo_call 1) 1 2 [(''S'', 1, 5)] 5 ([], [], []) =
      (Inr (Success 1 []), ([demo_order_row 11 1 1 demo_placed_event], [], ob))"
    using demo_place by blast
  let ?db = "([demo_order_row 11 1 1 demo_placed_event], [] :: snap_row list, ob)"
  have "order_step demo_order_env (([], [], []), Map.empty) (?db, Map.empty)"
    by (rule step_placed [OF _ _ p]) simp_all
  moreover have "order_step demo_order_env (?db, Map.empty) (?db, [1 \<mapsto> ?a])"
    by (rule step_decided [where i = 1 and decide = "order_confirm demo_order_api ()"])
      (simp_all add: demo_changes del: One_nat_def)
  moreover have "order_step demo_order_env (?db, [1 \<mapsto> ?a]) (?db, [1 \<mapsto> ?a, 2 \<mapsto> ?b])"
    by (rule step_decided [where i = 1 and decide = "order_cancel demo_order_api () ''late''"
          and reason = "''late''"]) (simp_all add: demo_changes del: One_nat_def)
  moreover have "order_step demo_order_env (?db, [1 \<mapsto> ?a, 2 \<mapsto> ?b])
      ((demo_late_rows, [], ob), ([1 \<mapsto> ?a, 2 \<mapsto> ?b])(2 := None))"
    by (rule step_finished [OF _ demo_finish [of ob, folded demo_late_rows_def]]) simp
  ultimately have "(order_step demo_order_env)\<^sup>*\<^sup>* (([], [], []), Map.empty)
      ((demo_late_rows, [], ob), ([1 \<mapsto> ?a, 2 \<mapsto> ?b])(2 := None))"
    by (meson rtranclp.rtrancl_into_rtrancl rtranclp.rtrancl_refl)
  then show ?thesis by (intro exI conjI) (assumption, simp)
qed

section \<open>The saga's timeout\<close>

text \<open>
  The handlers of the class, and what its timeout does: it sends the cancellation and leaves the saga
  running, so every later tick sends it again.
\<close>

lemma order_saga_events:
  "map fst (sg_handlers (order_saga validate send)) = [''OrderPlacedIntegration'', ''OrderConfirmed'', ''OrderCancelled'']"
  "sg_timeout_after (order_saga validate send) = Some 1800000000"
  "sg_timeout_handler (order_saga validate send) = Some (saga_handle_timeout send)"
  by (simp_all add: order_saga_def saga_meta_def order_saga_attrs_def saga_on_def saga_on_timeout_def Let_def)

lemma order_saga_stays_running:
  assumes "map_of (so_state sg) ''order_id'' = Some (JStr (str_of_uuid i))" "i < 2 ^ 128"
    and "\<not> so_completed sg" "\<not> so_failed sg"
    and "send (CancelOrder i ''order timed out awaiting confirmation'') s = (Inr (), s')"
  shows "run_timeout_handler m (order_saga validate send) (saga_handle_timeout send) (sg, s) =
    (Inr st_running, (sg, s'))"
proof -
  have "str_of_uuid i \<noteq> []" by (simp add: str_of_uuid_def Let_def)
  with assms show ?thesis
    by (simp add: run_timeout_handler_def saga_handle_timeout_def ebind_def etry_def uuid_of_text_def
        parse_str_of_uuid)
qed

section \<open>Properties\<close>

text \<open>C20: In every interleaving of handlers that place, confirm and cancel orders, the log stays one
  readable stream per order, and each stream is a legal life: placed, then possibly confirmed, then
  possibly cancelled, nothing after that, every event with the id of its order; so no order gets the
  fifty events of a snapshot, which would lose its state.\<close>

theorem order_lifecycle:
  assumes "order_tables env er sr" and "er db0 = []" "sr db0 = []"
    and "(order_step env)\<^sup>*\<^sup>* (db0, Map.empty) (db, cl)"
  shows "order_log (oe_api env) (er db) \<and> sr db = []"
  using order_tables.order_steps_inv [OF assms(1,4,2,3)] order_tables.log_ok_order_log [OF assms(1)]
    order_tables.log_okD(3) [OF assms(1)] by simp

lemma order_lifecycle_witness:
  "\<exists>evs. es_history demo_order_api demo_late_rows order_type (str_of_uuid 1) evs \<and> order_life (str_of_uuid 1) evs \<and>
     length demo_late_rows = 2"
proof -
  obtain ob cl where "(order_step demo_order_env)\<^sup>*\<^sup>* (([], [], []), Map.empty) ((demo_late_rows, [], ob), cl)"
    using demo_order_reach by blast
  from order_lifecycle [OF demo_orders.order_tables_axioms _ _ this]
  show ?thesis by (simp add: order_log_def demo_late_rows_def)
qed

text \<open>C26: A handler whose order was changed by another request after it was loaded answers success all
  the same, although its event is not stored: \<open>confirm\<close> and \<open>cancel\<close> drop the result of \<open>append\<close>.\<close>

theorem late_change_reported_success:
  assumes "order_tables env er sr" and "er db0 = []" "sr db0 = []"
    and "(order_step env)\<^sup>*\<^sup>* (db0, Map.empty) (db, cl)"
    and held: "cl k = Some a" "ag_version a < int (length (es_stream (er db) order_type (ag_id a)))"
    and commit: "\<And>d. oe_commit env d = None"
  shows "\<exists>db'. order_session (oe_commit env) (finish_change env c a) db = (Inr (Success () []), db') \<and>
    er db' = er db"
proof -
  from order_tables.order_steps_inv [OF assms(1,4,2,3)] held(1)
  have "order_tables.log_ok env er sr db" "order_tables.change_ok env (er db) a" by (auto intro: ranI)
  from order_tables.finish_late [OF assms(1) this held(2) commit] show ?thesis by blast
qed

lemma late_change_reported_success_witness:
  "\<exists>ob db'. order_session (oe_commit demo_order_env) (finish_change demo_order_env (demo_call 3)
       (demo_changed (OrderConfirmed () 1))) (demo_late_rows, [], ob) = (Inr (Success () []), db') \<and>
     fst db' = demo_late_rows"
proof -
  obtain ob cl where r: "(order_step demo_order_env)\<^sup>*\<^sup>* (([], [], []), Map.empty) ((demo_late_rows, [], ob), cl)"
    and k: "cl 1 = Some (demo_changed (OrderConfirmed () 1))"
    using demo_order_reach by blast
  have "ag_version (demo_changed (OrderConfirmed () 1)) <
      int (length (es_stream demo_late_rows order_type (ag_id (demo_changed (OrderConfirmed () 1)))))"
    by (simp add: demo_changed_def demo_loaded_def es_stream_def demo_late_rows_def)
  with late_change_reported_success [OF demo_orders.order_tables_axioms _ _ r k, of "demo_call 3"]
  show ?thesis by auto
qed

text \<open>C29: Once the projection has moved past the first event of any order, no other order ever enters the
  read model: whatever is placed and however often the projection runs, an order that has no summary yet
  is never found by the query. The checkpoint is compared with the number of an event in its own
  stream, and every \<open>OrderPlaced\<close> has number 1.\<close>

theorem order_never_visible:
  assumes views: "order_views evT ckT smT er cr sm api commit commit'"
    and start: "order_log api (er d)" "unique_rows ck_clash (cr d)" "1 \<le> ck_value (cr d) ''order_summary''"
    and hidden: "str_of_uuid i \<notin> su_order ` set (sm m)"
    and steps: "(order_view_step api commit commit' ckT evT smT er cr)\<^sup>*\<^sup>* (d, m) (d', m')"
  shows "fst (get_order_handle smT i m') = Inr (Failure (not_found_order i) [])"
proof -
  have "order_views.hides er cr sm api (su_order ` set (sm m)) (d, m)"
    using start by (simp add: order_views.hides_def [OF views])
  from order_views.hides_steps [OF views steps this] hidden
  have "str_of_uuid i \<notin> su_order ` set (sm m')" by (simp add: order_views.hides_def [OF views])
  then show ?thesis by (rule order_views.get_hidden [OF views])
qed

text \<open>Two orders: the first is in the read model when the second is placed.\<close>

lemma order_log_placed:
  assumes "\<forall>r\<in>set rows. er_type r = order_type \<and> er_seq r = 1 \<and>
      (\<exists>b i c items n. es_deserialize_event api r = Inr (OrderPlaced b i c items n) \<and> str_of_uuid i = er_agg r)"
    and "distinct (map er_agg rows)"
  shows "order_log api rows"
proof -
  have one: "filter (\<lambda>r. er_type r = ty \<and> er_agg r = aid) rows = [] \<or>
      (\<exists>r\<in>set rows. filter (\<lambda>r. er_type r = ty \<and> er_agg r = aid) rows = [r] \<and> er_agg r = aid)" for ty aid
    using assms(2)
  proof (induction rows)
    case (Cons r rows)
    then show ?case by (auto simp: filter_empty_conv image_iff)
  qed simp
  have stream: "es_stream rows ty aid = [] \<or> (\<exists>r\<in>set rows. es_stream rows ty aid = [r] \<and> er_agg r = aid)" for ty aid
    using one [of ty aid] by (auto simp: es_stream_def)
  have "map er_seq (es_stream rows ty aid) = [1..int (length (es_stream rows ty aid))]" for ty aid
    using stream [of ty aid] assms(1) by auto
  moreover have "\<exists>evs. es_history api rows order_type aid evs \<and> order_life aid evs" for aid
  proof (cases "es_stream rows order_type aid")
    case (Cons r rs)
    with stream [of order_type aid] have "rs = []" "r \<in> set rows" "er_agg r = aid" by auto
    with assms(1) Cons show ?thesis by (fastforce simp: order_life_def)
  qed (simp add: exI [of _ "[]"])
  ultimately show ?thesis using assms(1) by (simp add: order_log_def es_contiguous_def)
qed

lemma order_never_visible_witness:
  "\<exists>s. project_once demo_order_api (\<lambda>d. None) (order_runner demo_view_checkpoints demo_view_events
        (order_summary_projection (\<lambda>m. None) demo_summaries 0)) 0
      (([demo_order_row 1 1 1 demo_placed_event, demo_order_row 2 2 1 (OrderPlaced () 2 2 [] 7)],
        [\<lparr>ck_projection = ''order_summary'', ck_last = 1, ck_updated = 0\<rparr>]),
       [\<lparr>su_order = str_of_uuid 1, su_customer = str_of_uuid 2, su_total = 5, su_status = ''pending'',
         su_items = 1, su_placed = 0, su_updated = 0\<rparr>]) = (Inr (), s) \<and>
     fst (get_order_handle demo_summaries 2 (snd s)) = Inr (Failure (not_found_order 2) [])"
proof -
  let ?rows = "[demo_order_row 1 1 1 demo_placed_event, demo_order_row 2 2 1 (OrderPlaced () 2 2 [] 7)]"
  let ?ck = "[\<lparr>ck_projection = ''order_summary'', ck_last = 1, ck_updated = 0\<rparr>]"
  let ?m = "[\<lparr>su_order = str_of_uuid 1, su_customer = str_of_uuid 2, su_total = 5, su_status = ''pending'',
         su_items = 1, su_placed = 0, su_updated = 0\<rparr>]"
  have ne: "str_of_uuid 2 \<noteq> str_of_uuid 1"
    using parse_str_of_uuid [of 1] parse_str_of_uuid [of 2] by auto
  have log: "order_log demo_order_api ?rows"
    by (rule order_log_placed) (use ne in \<open>auto simp: demo_placed_event_def\<close>)
  have run: "project_once demo_order_api (\<lambda>d. None) (order_runner demo_view_checkpoints demo_view_events
        (order_summary_projection (\<lambda>m. None) demo_summaries 0)) 0 ((?rows, ?ck), ?m) = (Inr (), ((?rows, ?ck), ?m))"
    by (simp add: project_once_def engine_begin_def etry_def ebind_def pj_run_once_def order_runner_def
        pj_register_def order_summary_projection_def pj_run_projection_def pj_get_checkpoint_def)
  have "(order_view_step demo_order_api (\<lambda>d. None) (\<lambda>m. None) demo_view_checkpoints demo_view_events demo_summaries
      fst snd)\<^sup>*\<^sup>* ((?rows, ?ck), ?m) ((?rows, ?ck), ?m)"
    by (rule r_into_rtranclp) (rule view_run [OF run])
  from order_never_visible [OF demo_views.order_views_axioms _ _ _ _ this, of 2] log ne
  have "fst (get_order_handle demo_summaries 2 ?m) = Inr (Failure (not_found_order 2) [])"
    by (simp add: unique_rows_def ck_value_def)
  with run show ?thesis by auto
qed

end
