(* ===== verification/Qx_Identity.thy ===== *)
theory Qx_Identity
  imports Qx_Uow Qx_Repository Qx_Mediator Qx_Tenancy Qx_Testing
begin

text \<open>
  The example \<open>identity-service\<close>: the \<open>User\<close> aggregate, its table mapping and repository, the two
  commands and the three queries, put together from the unit of work, the repository, the session
  factory and the flag client. The objects of a request live on the heap of the world; a handler
  allocates the aggregates it makes or loads there.
\<close>

section \<open>Table columns\<close>

text \<open>\<open>standard_audit_columns\<close> of the package \<open>qx-db\<close>, by name.\<close>

definition standard_audit_columns :: "bool \<Rightarrow> bool \<Rightarrow> string list" where
  "standard_audit_columns include_tenant include_deletion =
     [''created_at'', ''updated_at'', ''created_by'', ''updated_by'', ''version''] @
     (if include_tenant then [''tenant_id''] else []) @
     (if include_deletion then [''deleted_at'', ''deleted_by''] else [])"

definition users_columns :: "string list" where
  "users_columns = [''id'', ''email'', ''name'', ''is_active''] @ standard_audit_columns True True"

text \<open>The primary key, and \<open>UNIQUE (email, tenant_id)\<close>: rows without a tenant never clash on it,
  since SQL takes two NULLs for distinct.\<close>

definition users_clash :: "row \<Rightarrow> row \<Rightarrow> bool" where
  "users_clash r r' \<longleftrightarrow>
     col r ''id'' = col r' ''id'' \<or>
     (col r ''email'' = col r' ''email'' \<and> col r ''tenant_id'' = col r' ''tenant_id'' \<and>
      col r ''tenant_id'' \<noteq> VNull)"

section \<open>The aggregate\<close>

definition user_fields :: "string \<Rightarrow> string \<Rightarrow> bool \<Rightarrow> row" where
  "user_fields email name active =
     [(''email'', VStr email), (''name'', VStr name), (''is_active'', VBool active)]"

definition user_text :: "string \<Rightarrow> 'z entity_scheme \<Rightarrow> string" where
  "user_text f u = (case col (en_fields u) f of VStr s \<Rightarrow> s | _ \<Rightarrow> [])"

definition user_active :: "'z entity_scheme \<Rightarrow> bool" where
  "user_active u = (case col (en_fields u) ''is_active'' of VBool b \<Rightarrow> b | _ \<Rightarrow> True)"

text \<open>A new event is the \<open>base\<close> that carries the generated id and time, with the class's own fields.\<close>

definition user_event ::
  "string \<Rightarrow> event_kind \<Rightarrow> string \<Rightarrow> event \<Rightarrow> dict \<Rightarrow> event" where
  "user_event ty kind name base body =
     base\<lparr>ev_type := ty, ev_kind := kind, ev_name := name, ev_version := 1, ev_body := body\<rparr>"

definition registered_body :: "uuid \<Rightarrow> string \<Rightarrow> string \<Rightarrow> dict" where
  "registered_body i email name =
     [(''user_id'', JStr (str_of_uuid i)), (''email'', JStr email), (''name'', JStr name)]"

definition user_registered :: "event \<Rightarrow> uuid \<Rightarrow> string \<Rightarrow> string \<Rightarrow> event" where
  "user_registered base i email name =
     user_event ''UserRegistered'' DomainEvent ''identity.user.registered'' base
       (registered_body i email name)"

definition user_registered_integration :: "event \<Rightarrow> uuid \<Rightarrow> string \<Rightarrow> string \<Rightarrow> event" where
  "user_registered_integration base i email name =
     user_event ''UserRegisteredIntegration'' IntegrationEvent ''identity.user.registered'' base
       (registered_body i email name)"

definition user_email_changed :: "event \<Rightarrow> uuid \<Rightarrow> string \<Rightarrow> string \<Rightarrow> event" where
  "user_email_changed base i old new =
     user_event ''UserEmailChanged'' IntegrationEvent ''identity.user.email_changed'' base
       [(''user_id'', JStr (str_of_uuid i)), (''old_email'', JStr old), (''new_email'', JStr new)]"

definition user_object :: "instant \<Rightarrow> uuid \<Rightarrow> row \<Rightarrow> int \<Rightarrow> aggregate" where
  "user_object now i vals v =
     \<lparr>en_type = ''User'', en_id = i, en_created_at = now, en_updated_at = None, en_deleted_at = None,
      en_created_by = None, en_updated_by = None, en_deleted_by = None, en_version = v,
      en_tenant_id = None, en_fields = vals, ar_pending = []\<rparr>"

definition invalid_email :: error where
  "invalid_email = mk_error DomainError ''user.invalid_email'' ''email is required''"

definition user_register ::
  "instant \<Rightarrow> uuid \<Rightarrow> event \<Rightarrow> event \<Rightarrow> string \<Rightarrow> string \<Rightarrow> aggregate result" where
  "user_register now i b1 b2 raw_email raw_name =
     (let email = py_lower (py_strip raw_email); name = py_strip raw_name
      in if email = [] \<or> CHR ''@'' \<notin> set email then result_failure invalid_email []
         else if name = []
         then result_failure (mk_error DomainError ''user.invalid_name'' ''name is required'') []
         else result_success
           (aggregate_record_event (user_registered_integration b2 i email name)
             (aggregate_record_event (user_registered b1 i email name)
               (user_object now i (user_fields email name True) 1))) [])"

definition user_change_email :: "event \<Rightarrow> string \<Rightarrow> (aggregate, unit result) eff" where
  "user_change_email base raw u =
     (let email = py_lower (py_strip raw); old = user_text ''email'' u
      in if CHR ''@'' \<notin> set email then (Inr (result_failure invalid_email []), u)
         else if email = old then (Inr (result_success () []), u)
         else (Inr (result_success () []),
               aggregate_record_event (user_email_changed base (en_id u) old email)
                 (u\<lparr>en_fields := AList.update ''email'' (VStr email) (en_fields u)\<rparr>)))"

definition user_deactivate :: "aggregate \<Rightarrow> aggregate" where
  "user_deactivate u = u\<lparr>en_fields := AList.update ''is_active'' (VBool False) (en_fields u)\<rparr>"

section \<open>The repository\<close>

definition user_from_row :: "instant \<Rightarrow> row \<Rightarrow> exn + aggregate" where
  "user_from_row now r =
     Inr (user_object now (get_or (get_uuid r ''id'') 0)
       [(''email'', col r ''email''), (''name'', col r ''name''), (''is_active'', col r ''is_active'')]
       (case col r ''version'' of VInt v \<Rightarrow> v | _ \<Rightarrow> 1))"

definition user_to_dict :: "aggregate \<Rightarrow> row" where
  "user_to_dict u =
     [(''id'', VUuid (en_id u)), (''email'', col (en_fields u) ''email''),
      (''name'', col (en_fields u) ''name''), (''is_active'', col (en_fields u) ''is_active''),
      (''version'', VInt (en_version u))]"

definition user_repo ::
  "('db, row) sql \<Rightarrow> (sqlval \<Rightarrow> sqlval \<Rightarrow> bool) \<Rightarrow> instant \<Rightarrow> ('db, aggregate) repo" where
  "user_repo T lt now =
     \<lparr>rp_table = T, rp_columns = users_columns, rp_name = ''User'',
      rp_filterable = [''email'', ''name'', ''is_active''], rp_sortable = [''created_at'', ''email''],
      rp_tenanted = True, rp_less = lt, rp_from_row = user_from_row now, rp_to_dict = user_to_dict,
      rp_entity_id = en_id, rp_version = en_version,
      rp_set_version = (\<lambda>v u. u\<lparr>en_version := v\<rparr>)\<rparr>"

definition find_by_email ::
  "('db, aggregate) repo \<Rightarrow> 'a request_context \<Rightarrow> string \<Rightarrow> ('db, aggregate result) eff" where
  "find_by_email rp ctx email =
     ebind (sql_select (rp_table rp)
         (\<lambda>r. col r ''email'' = VStr (py_strip (py_lower email)) \<and> scope_query rp ctx False r)
         no_order None)
       (\<lambda>rows.
         case rows of
           [] \<Rightarrow> eret (result_failure
                   (Error NotFoundError ''user.not_found'' (''no user with email '' @ email)
                      [(''email'', JStr email)] None) [])
         | r # _ \<Rightarrow> ebind (elift (rp_from_row rp r)) (\<lambda>u. eret (result_success u [])))"

section \<open>Commands\<close>

text \<open>The world of a request, with the first unused reference of the heap.\<close>

record ('d, 'a) svc_world = "('d, 'a) world" +
  sw_unused :: nat

definition new_object :: "aggregate \<Rightarrow> (('d, 'a) svc_world, nat) eff" where
  "new_object u w =
     (Inr (sw_unused w), w\<lparr>w_heap := (w_heap w)(sw_unused w := u), sw_unused := Suc (sw_unused w)\<rparr>)"

definition on_object :: "nat \<Rightarrow> (aggregate, 'b) eff \<Rightarrow> (('d, 'a) svc_world, 'b) eff" where
  "on_object a m w =
     (case m (w_heap w a) of (x, u) \<Rightarrow> (x, w\<lparr>w_heap := (w_heap w)(a := u)\<rparr>))"

text \<open>\<open>Repository.save\<close> changes the version of the object it is given.\<close>

definition save_object ::
  "('d, aggregate) repo \<Rightarrow> instant \<Rightarrow> nat \<Rightarrow> (('d, 'a) svc_world, aggregate result) eff" where
  "save_object rp now a =
     ebind eget (\<lambda>w.
     ebind (on_db (repo_save rp (w_ctx w) now (w_heap w a))) (\<lambda>(saved, u).
     ebind (on_object a (\<lambda>_. (Inr (), u))) (\<lambda>_. eret saved)))"

record create_user_dto =
  cu_id :: uuid
  cu_email :: string
  cu_name :: string

definition create_user_dto_of :: "aggregate \<Rightarrow> create_user_dto" where
  "create_user_dto_of u = \<lparr>cu_id = en_id u, cu_email = user_text ''email'' u, cu_name = user_text ''name'' u\<rparr>"

definition duplicate_email :: "string \<Rightarrow> error" where
  "duplicate_email email =
     Error ConflictError ''user.duplicate_email'' ''a user with this email already exists''
       [(''email'', JStr email)] None"

text \<open>The block returns early with a result, or falls through with the reference of the user.\<close>

definition create_user_block ::
  "('d, ('d, 'a) svc_world) uow_env \<Rightarrow> ('d, aggregate) repo \<Rightarrow> instant \<Rightarrow> uuid \<Rightarrow> event \<Rightarrow> event
     \<Rightarrow> nat \<Rightarrow> string \<Rightarrow> string \<Rightarrow> (('d, 'a) svc_world, create_user_dto result + nat) eff" where
  "create_user_block env rp now i b1 b2 r email name =
     ebind (uow_session r) (\<lambda>_.
     ebind eget (\<lambda>w.
     ebind (on_db (find_by_email rp (w_ctx w) email)) (\<lambda>existing.
       if is_success existing then eret (Inl (result_failure (duplicate_email email) []))
       else case user_register now i b1 b2 email name of
         Failure e md \<Rightarrow> eret (Inl (result_map (Failure e md) create_user_dto_of))
       | Success u md \<Rightarrow>
           ebind (new_object u) (\<lambda>a.
           ebind (uow_track r a) (\<lambda>_.
           ebind (on_db (repo_add rp (w_ctx w) now u)) (\<lambda>added.
             case added of
               Failure e md' \<Rightarrow> eret (Inl (result_failure e []))
             | Success u' md' \<Rightarrow> ebind (uow_commit env r) (\<lambda>_. eret (Inr a))))))))"

definition create_user_handle ::
  "('d, ('d, 'a) svc_world) uow_env \<Rightarrow> ('d, aggregate) repo \<Rightarrow> instant \<Rightarrow> uuid \<Rightarrow> event \<Rightarrow> event
     \<Rightarrow> nat \<Rightarrow> string \<Rightarrow> string \<Rightarrow> (('d, 'a) svc_world, create_user_dto result) eff" where
  "create_user_handle env rp now i b1 b2 r email name =
     ebind (async_with (uow_aenter env r) (uow_aexit env r)
         (create_user_block env rp now i b1 b2 r email name))
       (\<lambda>left. case left of
          Inl res \<Rightarrow> eret res
        | Inr a \<Rightarrow> ebind eget (\<lambda>w. eret (result_success (create_user_dto_of (w_heap w a)) [])))"

definition change_email_block ::
  "('d, ('d, 'a) svc_world) uow_env \<Rightarrow> ('d, aggregate) repo \<Rightarrow> instant \<Rightarrow> event
     \<Rightarrow> nat \<Rightarrow> uuid \<Rightarrow> string \<Rightarrow> (('d, 'a) svc_world, unit result) eff" where
  "change_email_block env rp now base r i new_email =
     ebind (uow_session r) (\<lambda>_.
     ebind eget (\<lambda>w.
     ebind (on_db (repo_get rp (w_ctx w) i False)) (\<lambda>loaded.
       case loaded of
         Failure e md \<Rightarrow> eret (result_failure e [])
       | Success u md \<Rightarrow>
           ebind (new_object u) (\<lambda>a.
           ebind (uow_track r a) (\<lambda>_.
           ebind (on_object a (user_change_email base new_email)) (\<lambda>changed.
             case changed of
               Failure e md' \<Rightarrow> eret (result_failure e [])
             | Success y md' \<Rightarrow>
                 ebind (save_object rp now a) (\<lambda>saved.
                   case saved of
                     Failure e md'' \<Rightarrow> eret (result_failure e [])
                   | Success u' md'' \<Rightarrow>
                       ebind (uow_commit env r) (\<lambda>_. eret (result_success () [])))))))))"

definition change_email_handle ::
  "('d, ('d, 'a) svc_world) uow_env \<Rightarrow> ('d, aggregate) repo \<Rightarrow> instant \<Rightarrow> event
     \<Rightarrow> nat \<Rightarrow> uuid \<Rightarrow> string \<Rightarrow> (('d, 'a) svc_world, unit result) eff" where
  "change_email_handle env rp now base r i new_email =
     async_with (uow_aenter env r) (uow_aexit env r) (change_email_block env rp now base r i new_email)"

section \<open>Queries\<close>

record user_dto =
  ud_id :: uuid
  ud_email :: string
  ud_name :: string
  ud_active :: bool

definition user_dto_of :: "aggregate \<Rightarrow> user_dto" where
  "user_dto_of u = \<lparr>ud_id = en_id u, ud_email = user_text ''email'' u, ud_name = user_text ''name'' u,
     ud_active = user_active u\<rparr>"

definition get_user_handle ::
  "('w, 'g, 'f, 'z) sqlalchemy \<Rightarrow> 'f \<Rightarrow> ('z \<Rightarrow> ('w, aggregate) repo) \<Rightarrow> 'a request_context \<Rightarrow> uuid
     \<Rightarrow> ('w, user_dto result) eff" where
  "get_user_handle A sessions rp ctx i =
     open_session A sessions (\<lambda>session.
       ebind (repo_get (rp session) ctx i False) (\<lambda>found.
         case found of
           Failure e md \<Rightarrow> eret (result_failure e [])
         | Success u md \<Rightarrow> eret (result_success (user_dto_of u) [])))"

definition list_users_handle ::
  "('w, 'g, 'f, 'z) sqlalchemy \<Rightarrow> 'f \<Rightarrow> ('z \<Rightarrow> ('w, aggregate) repo) \<Rightarrow> 'a request_context
     \<Rightarrow> nat \<Rightarrow> nat \<Rightarrow> ('w, user_dto offset_page result) eff" where
  "list_users_handle A sessions rp ctx page page_size =
     ebind (open_session A sessions (\<lambda>session.
         repo_list (rp session) ctx
           \<lparr>op_page = page, op_page_size = page_size, op_sort = [], op_filters = []\<rparr> False))
       (\<lambda>pg. eret (result_success
          \<lparr>pg_items = map user_dto_of (pg_items pg), pg_page = pg_page pg,
           pg_page_size = pg_page_size pg, pg_total = pg_total pg\<rparr> []))"

record user_profile =
  up_id :: uuid
  up_email :: string
  up_name :: string
  up_active :: "bool option"

definition enhanced_flag :: string where
  "enhanced_flag = ''identity.enhanced-profile''"

text \<open>The profile is read inside the unit of work, the flag after it.\<close>

definition get_user_profile_handle ::
  "('d, ('d, 'a) svc_world) uow_env \<Rightarrow> ('d, aggregate) repo \<Rightarrow> (('d, 'a) svc_world, bool) flag_provider
     \<Rightarrow> nat \<Rightarrow> uuid \<Rightarrow> (('d, 'a) svc_world, user_profile result) eff" where
  "get_user_profile_handle env rp flags r i =
     ebind (async_with (uow_aenter env r) (uow_aexit env r)
         (ebind (uow_session r) (\<lambda>_. ebind eget (\<lambda>w. on_db (repo_get rp (w_ctx w) i False)))))
       (\<lambda>found. case found of
          Failure e md \<Rightarrow> eret (result_failure
            (Error NotFoundError ''user.not_found'' (''user '' @ str_of_uuid i @ '' not found'')
               [(''user_id'', JStr (str_of_uuid i))] None) [])
        | Success u md \<Rightarrow>
            ebind (flag_value flags w_ctx enhanced_flag False None []) (\<lambda>enhanced.
              eret (result_success
                \<lparr>up_id = en_id u, up_email = user_text ''email'' u, up_name = user_text ''name'' u,
                 up_active = (if enhanced then Some (user_active u) else None)\<rparr> [])))"

section \<open>What the service relies on\<close>

text \<open>
  One database holds the two tables; \<open>com\<close> is its durable state. The statements of an open
  transaction leave the durable state alone. No handler of domain events is registered, so the
  dispatcher leaves the state alone and publishes a domain event without an exception.
\<close>

locale identity_db =
  fixes env :: "('d, ('d, 'a) svc_world) uow_env"
    and com :: "'d \<Rightarrow> outbox_row list \<times> row list"
    and ob :: "'d \<Rightarrow> outbox_row list"
    and us :: "'d \<Rightarrow> row list"
    and To :: "('d, outbox_row) sql"
    and Tu :: "('d, row) sql"
    and iso_fmt :: "instant \<Rightarrow> string"
    and ids :: "nat \<Rightarrow> uuid"
  assumes laws: "session_laws (ue_session env) com (\<lambda>d. (ob d, us d))"
    and outbox: "ue_outbox env = Some (outbox_record To iso_fmt ids)"
    and outbox_table: "sql_table To ob ob_clash us"
    and users_table: "sql_table Tu us users_clash ob"
    and outbox_com: "insert_not_durable To com"
    and users_com: "insert_not_durable Tu com"
    and quiet: "ue_dispatcher env = Some publish \<Longrightarrow>
      \<exists>x. publish ev w = (x, w) \<and> (ev_kind ev = DomainEvent \<longrightarrow> x = Inr ())"

text \<open>The row of a new user: what the repository adds to the entity's own columns.\<close>

definition user_row :: "'a request_context \<Rightarrow> instant \<Rightarrow> aggregate \<Rightarrow> row" where
  "user_row ctx now u =
     user_to_dict u @ [(''created_at'', VTime now), (''created_by'', v_uuid (rc_user_id ctx)),
       (''tenant_id'', v_uuid (rc_tenant_id ctx))]"

lemma user_repo_sel [simp]:
  "rp_table (user_repo T lt now) = T" "rp_from_row (user_repo T lt now) = user_from_row now"
  "rp_to_dict (user_repo T lt now) = user_to_dict" "rp_tenanted (user_repo T lt now)"
  "rp_version (user_repo T lt now) = en_version" "rp_name (user_repo T lt now) = ''User''"
  "rp_columns (user_repo T lt now) = users_columns" "rp_entity_id (user_repo T lt now) = en_id"
  "rp_set_version (user_repo T lt now) = (\<lambda>v u. u\<lparr>en_version := v\<rparr>)"
  by (simp_all add: user_repo_def)

lemma user_add:
  "repo_add (user_repo T lt now) ctx now u =
     ebind (sql_insert T [user_row ctx now u]) (\<lambda>_. eret (Success u []))"
  by (simp add: repo_add_def set_default_def user_to_dict_def user_row_def result_success_def Let_def)

lemma user_row_cols:
  "col (user_row ctx now u) ''id'' = VUuid (en_id u)"
  "col (user_row ctx now u) ''email'' = col (en_fields u) ''email''"
  "col (user_row ctx now u) ''tenant_id'' = v_uuid (rc_tenant_id ctx)"
  "col (user_row ctx now u) ''deleted_at'' = VNull"
  by (simp_all add: user_row_def user_to_dict_def col_def)

lemma user_scope:
  "scope_query (user_repo T lt now) ctx False r \<longleftrightarrow>
     col r ''deleted_at'' = VNull \<and>
     (case rc_tenant_id ctx of None \<Rightarrow> True | Some t \<Rightarrow> col r ''tenant_id'' = VUuid t)"
  by (simp add: scope_query_def users_columns_def standard_audit_columns_def)

text \<open>The users the finder of a context sees under an address.\<close>

definition email_taken :: "'a request_context \<Rightarrow> string \<Rightarrow> row list \<Rightarrow> bool" where
  "email_taken ctx email rs \<longleftrightarrow>
     list_ex (\<lambda>r. col r ''email'' = VStr (py_lower (py_strip email)) \<and> col r ''deleted_at'' = VNull \<and>
       (case rc_tenant_id ctx of None \<Rightarrow> True | Some t \<Rightarrow> col r ''tenant_id'' = VUuid t)) rs"

lemma find_by_email_spec:
  assumes T: "sql_table T rows clash rest"
    and run: "find_by_email (user_repo T lt now) ctx email d = (Inr found, d')"
  shows "d' = d" "is_success found \<longleftrightarrow> email_taken ctx email (rows d)"
proof -
  let ?P = "\<lambda>r. col r ''email'' = VStr (py_strip (py_lower email)) \<and>
    scope_query (user_repo T lt now) ctx False r"
  obtain y d1 where y: "sql_select T ?P no_order None d = (y, d1)" by fastforce
  from y run obtain rs where yr: "y = Inr rs"
    by (cases y) (auto simp: find_by_email_def ebind_def)
  have "d' = d1 \<and> (is_success found \<longleftrightarrow> rs \<noteq> [])"
    using run y unfolding yr
    by (cases rs) (auto simp: find_by_email_def ebind_def user_from_row_def elift_def eret_def)
  with y yr have rs: "sql_select T ?P no_order None d = (Inr rs, d')"
    and found: "is_success found \<longleftrightarrow> rs \<noteq> []" by simp_all
  show "d' = d" by (rule sql_table.select_state [OF T rs])
  have "set rs = {r \<in> set (rows d). ?P r}"
    using sql_table.select_mset(2) [OF T rs] by auto
  then have "rs \<noteq> [] \<longleftrightarrow> (\<exists>r \<in> set (rows d). ?P r)"
    unfolding set_empty [symmetric] by auto
  with found show "is_success found \<longleftrightarrow> email_taken ctx email (rows d)"
    by (simp add: email_taken_def list_ex_iff user_scope py_strip_lower)
qed

lemma find_by_email_state:
  assumes "sql_table T rows clash rest"
    and run: "find_by_email (user_repo T lt now) ctx email d = (x, d')"
  shows "d' = d"
proof -
  obtain y d1 where s: "sql_select T (\<lambda>r. col r ''email'' = VStr (py_strip (py_lower email)) \<and>
      scope_query (user_repo T lt now) ctx False r) no_order None d = (y, d1)" by fastforce
  from sql_table.select_state [OF assms(1) s] s run show ?thesis
    by (auto simp: find_by_email_def ebind_def user_from_row_def elift_def eret_def
        split: sum.splits list.splits)
qed

section \<open>Entering and leaving the unit of work\<close>

lemma uow_aenter_state:
  assumes "uow_aenter env r w = (x, w')"
  shows "\<exists>d. w' = (set_uow r (\<lambda>u. u\<lparr>uw_open := True\<rparr>) w)\<lparr>w_db := d\<rparr>"
  using assms by (auto simp: uow_aenter_def on_db_def emodify_def [abs_def] ebind_def split: prod.splits)

lemma ekeeps_heap [intro]:
  "ekeeps w_heap (on_db m)" "ekeeps w_heap (emodify (set_uow r f))"
  by (simp_all add: ekeeps_def emodify_def)

lemma uow_aexit_heap:
  assumes "uow_aexit env r exc w = (x, w')"
  shows "w_heap w' = w_heap w"
proof -
  have "ekeeps w_heap (uow_rollback env r)"
    unfolding uow_rollback_def Let_def by (intro ekeeps_heap ekeeps_rules)
  then have "ekeeps w_heap (uow_aexit env r exc)"
    unfolding uow_aexit_def by (intro ekeeps_heap ekeeps_rules)
  then show ?thesis using assms by (rule ekeepsD)
qed

text \<open>A block that returns leaves the heap as its body did.\<close>

lemma uow_block_heap:
  assumes "async_with (uow_aenter env r) (uow_aexit env r) body w = (Inr v, w')"
    and "uow_aenter env r w = (Inr u, w1)" and "body w1 = (y, w2)"
  shows "y = Inr v" "w_heap w' = w_heap w2"
  using assms uow_aexit_heap [of env r None w2]
  by (auto simp: async_with_def ebind_def eret_def eraise_def split: sum.splits prod.splits)


section \<open>Creating a user\<close>

lemma user_register_success:
  assumes "user_register now i b1 b2 raw_email raw_name = Success u md"
  shows "u = user_object now i (user_fields (py_lower (py_strip raw_email)) (py_strip raw_name) True) 1
      \<lparr>ar_pending := [user_registered b1 i (py_lower (py_strip raw_email)) (py_strip raw_name),
         user_registered_integration b2 i (py_lower (py_strip raw_email)) (py_strip raw_name)]\<rparr>"
  using assms
  by (auto simp: user_register_def Let_def result_success_def result_failure_def user_object_def
      aggregate_record_event_def split: if_splits)

lemma user_events_kind:
  "integration_events (map (enrich_event ctx) [user_registered b1 i e n, user_registered_integration b2 i e n])
     = [enrich_event ctx (user_registered_integration b2 i e n)]"
  by (simp add: integration_events_def enrich_event_def user_registered_def user_registered_integration_def
      user_event_def)

context identity_db
begin

lemma dispatch_quiet: "dispatch_domain env evs w = (Inr (), w)"
proof (cases "ue_dispatcher env")
  case None
  then show ?thesis by (simp add: dispatch_domain_def eret_def)
next
  case (Some publish)
  have one: "publish ev s = (Inr (), s)" if "ev_kind ev = DomainEvent" for ev s
    using quiet [OF Some, of ev s] that by auto
  have "efold publish xs s = (Inr (), s)" if "\<forall>ev \<in> set xs. ev_kind ev = DomainEvent" for xs s
    using that by (induction xs arbitrary: s) (simp_all add: one ebind_def eret_def)
  then show ?thesis by (simp add: dispatch_domain_def Some domain_events_def)
qed

lemma dispatcher_quiet_inside: "dispatcher_inside env r com ok"
  unfolding dispatcher_inside_def inside_tx_def
proof (intro allI impI)
  fix publish ev w x w' assume p: "ue_dispatcher env = Some publish" and run: "publish ev w = (x, w')"
  from quiet [OF p, of ev w] run have "w' = w" by auto
  then show "com (w_db w') = com (w_db w) \<and> uow_phase r w' = uow_phase r w \<and> (ok (w_db w) \<longrightarrow> ok (w_db w'))"
    by simp
qed

lemma commit_heap:
  assumes run: "uow_commit env r w = (Inr u, w')" and ph: "uow_phase r w = (True, True, False, False)"
  shows "w_heap w' = snd (drain_events (w_ctx w) (uw_tracked (uow_at r w)) (w_heap w))"
proof -
  obtain evs h where dr: "drain_events (w_ctx w) (uw_tracked (uow_at r w)) (w_heap w) = (evs, h)"
    by fastforce
  have pub: "ekeeps w_heap (publish ev)" if "ue_dispatcher env = Some publish" for publish ev
    unfolding ekeeps_def
  proof
    fix s
    from quiet [OF that, of ev s] show "w_heap (snd (publish ev s)) = w_heap s" by auto
  qed
  have disp: "ekeeps w_heap (uow_dispatch env r evs)" for evs
    unfolding uow_dispatch_def using pub
    by (auto intro!: ekeeps_bind ekeeps_efold ekeeps_heap split: option.split if_split)
  have "ekeeps w_heap
      (ebind (uow_dispatch env r evs) (\<lambda>_. ebind (on_db (se_commit (ue_session env) r))
        (\<lambda>_. emodify (set_uow r (\<lambda>u. u\<lparr>uw_committed := True\<rparr>)))))"
    by (intro ekeeps_bind disp ekeeps_heap)
  from ekeepsD [OF this] have "w_heap w' = h"
    using run ph by (simp add: uow_commit_def dr uow_phase_def)
  then show ?thesis by (simp add: dr)
qed

lemma commit_quiet:
  assumes ph: "uow_phase r w = (True, True, False, False)" and tr: "uw_tracked (uow_at r w) = [a]"
    and u: "unique_rows ob_clash (ob (w_db w))" and run: "uow_commit env r w = (x, w')"
  shows "case x of
     Inl e \<Rightarrow> com (w_db w') = com (w_db w)
   | Inr y \<Rightarrow> com (w_db w') = (ob (w_db w) @ outbox_rows iso_fmt ids
         (integration_events (map (enrich_event (w_ctx w)) (ar_pending (w_heap w a)))), us (w_db w)) \<and>
       w_heap w' a = (w_heap w a)\<lparr>ar_pending := []\<rparr>"
proof -
  let ?evs = "map (enrich_event (w_ctx w)) (ar_pending (w_heap w a))"
  let ?h = "(w_heap w)(a := (w_heap w a)\<lparr>ar_pending := []\<rparr>)"
  have dr: "drain_events (w_ctx w) (uw_tracked (uow_at r w)) (w_heap w) = (?evs, ?h)"
    by (simp add: tr)
  note runs = uow_commit_runs [where rows = ob and rest = us and com = com and
      wrk = "\<lambda>d. (ob d, us d)" and env = env and T = To and r = r and w = w,
      OF laws refl outbox outbox_table outbox_com dispatcher_quiet_inside u ph dr run]
  show ?thesis
  proof (cases x)
    case (Inl e)
    with runs show ?thesis by simp
  next
    case (Inr y)
    with runs have "com (w_db w') = (ob (w_db w) @ outbox_rows iso_fmt ids (integration_events ?evs),
        us (w_db w))"
      by (auto simp: dispatch_quiet)
    moreover have "w_heap w' = ?h"
      using commit_heap [OF _ ph] run Inr dr by simp
    ultimately show ?thesis by (simp add: Inr)
  qed
qed

end


text \<open>What a request wrote when it created a user: one row in each table.\<close>

definition user_stored ::
  "(instant \<Rightarrow> string) \<Rightarrow> (nat \<Rightarrow> uuid) \<Rightarrow> 'a request_context \<Rightarrow> instant \<Rightarrow> uuid \<Rightarrow> event
     \<Rightarrow> string \<Rightarrow> string \<Rightarrow> outbox_row list \<times> row list \<Rightarrow> outbox_row list \<times> row list \<Rightarrow> bool" where
  "user_stored iso_fmt ids ctx now i b2 email name d d' \<longleftrightarrow>
     \<not> email_taken ctx email (snd d) \<and>
     fst d' = fst d @ outbox_rows iso_fmt ids
       [enrich_event ctx (user_registered_integration b2 i (py_lower (py_strip email)) (py_strip name))] \<and>
     snd d' = snd d @
       [user_row ctx now (user_object now i (user_fields (py_lower (py_strip email)) (py_strip name) True) 1)]"

context identity_db
begin

lemma add_then_commit:
  fixes w :: "('d, 'a) svc_world"
  assumes ph: "uow_phase r w = (True, True, False, False)" and tr: "uw_tracked (uow_at r w) = []"
    and u1: "unique_rows ob_clash (ob (w_db w))" and u2: "unique_rows users_clash (us (w_db w))"
    and run: "ebind (new_object u) (\<lambda>a. ebind (uow_track r a) (\<lambda>_.
        ebind (on_db (repo_add (user_repo Tu lt now) ctx now u)) (\<lambda>added.
          case added of
            Failure e md' \<Rightarrow> eret (Inl (result_failure e []))
          | Success u' md' \<Rightarrow> ebind (uow_commit env r) (\<lambda>_. eret (Inr a))))) w = (y, w')"
  shows "case y of
     Inl e \<Rightarrow> com (w_db w') = com (w_db w)
   | Inr (Inl res) \<Rightarrow> com (w_db w') = com (w_db w) \<and> \<not> is_success (res :: create_user_dto result)
   | Inr (Inr a) \<Rightarrow> com (w_db w') =
         (ob (w_db w) @ outbox_rows iso_fmt ids
            (integration_events (map (enrich_event (w_ctx w)) (ar_pending u))),
          us (w_db w) @ [user_row ctx now u]) \<and>
       w_heap w' a = u\<lparr>ar_pending := []\<rparr>"
proof -
  let ?a = "sw_unused w"
  let ?w2 = "w\<lparr>w_heap := (w_heap w)(?a := u), sw_unused := Suc ?a\<rparr>"
  let ?w3 = "set_uow r (\<lambda>v. v\<lparr>uw_tracked := [?a]\<rparr>) ?w2"
  have r: "r < length (w_uows w)" using ph by (simp add: uow_phase_def)
  have "uow_track r ?a ?w2 = (Inr (), ?w3)"
    using tr by (simp add: uow_track_def set_uow_def)
  then have run2: "ebind (on_db (sql_insert Tu [user_row ctx now u])) (\<lambda>_.
      ebind (uow_commit env r) (\<lambda>_. eret (Inr ?a))) ?w3 = (y, w')"
    using run by (simp add: user_add new_object_def ebind_def on_db_def eret_def split: prod.splits sum.splits)
  obtain z d where z: "sql_insert Tu [user_row ctx now u] (w_db w) = (z, d)" by fastforce
  have com_d: "com d = com (w_db w)" using users_com z unfolding insert_not_durable_def by (metis snd_conv)
  show ?thesis
  proof (cases z)
    case (Inl e)
    with run2 z have "y = Inl e" "w' = ?w3\<lparr>w_db := d\<rparr>" by (auto simp: ebind_def on_db_def)
    with com_d show ?thesis by simp
  next
    case (Inr v)
    let ?w4 = "?w3\<lparr>w_db := d\<rparr>"
    from sql_table.insert_ok [OF users_table z [unfolded Inr] u2]
    have d: "us d = us (w_db w) @ [user_row ctx now u]" "ob d = ob (w_db w)" by simp_all
    obtain x w5 where c: "uow_commit env r ?w4 = (x, w5)" by fastforce
    have ph4: "uow_phase r ?w4 = (True, True, False, False)" "uw_tracked (uow_at r ?w4) = [?a]"
      using ph r by (auto simp: uow_phase_def set_uow_def)
    have u4: "unique_rows ob_clash (ob (w_db ?w4))" using u1 d by simp
    note q = commit_quiet [OF ph4 u4 c]
    from run2 z Inr c have yw: "w' = w5" "y = (case x of Inl e \<Rightarrow> Inl e | Inr v \<Rightarrow> Inr (Inr ?a))"
      by (auto simp: ebind_def on_db_def eret_def split: sum.splits)
    show ?thesis
    proof (cases x)
      case (Inl e)
      with q yw com_d show ?thesis by simp
    next
      case (Inr v)
      with q yw d show ?thesis by simp
    qed
  qed
qed

lemma block_result:
  fixes w :: "('d, 'a) svc_world"
  assumes ph: "uow_phase r w = (True, True, False, False)" and tr: "uw_tracked (uow_at r w) = []"
    and u1: "unique_rows ob_clash (ob (w_db w))" and u2: "unique_rows users_clash (us (w_db w))"
    and c: "com (w_db w) = (ob (w_db w), us (w_db w))"
    and run: "create_user_block env (user_repo Tu lt now) now i b1 b2 r email name w = (y, w')"
  shows "case y of
     Inl e \<Rightarrow> com (w_db w') = com (w_db w)
   | Inr (Inl res) \<Rightarrow> com (w_db w') = com (w_db w) \<and> \<not> is_success res
   | Inr (Inr a) \<Rightarrow>
       user_stored iso_fmt ids (w_ctx w) now i b2 email name (com (w_db w)) (com (w_db w')) \<and>
       create_user_dto_of (w_heap w' a) =
         \<lparr>cu_id = i, cu_email = py_lower (py_strip email), cu_name = py_strip name\<rparr>"
proof -
  obtain f d where f: "find_by_email (user_repo Tu lt now) (w_ctx w) email (w_db w) = (f, d)" by fastforce
  then have d: "d = w_db w" by (rule find_by_email_state [OF users_table])
  have sess: "uow_session r w = (Inr r, w)" using ph by (simp add: uow_session_def uow_phase_def)
  show ?thesis
  proof (cases f)
    case (Inl e)
    with run f d sess have "y = Inl e" "w' = w"
      by (auto simp: create_user_block_def ebind_def eget_def on_db_def)
    then show ?thesis by simp
  next
    case (Inr found)
    note find = find_by_email_spec [OF users_table f [unfolded Inr]]
    show ?thesis
    proof (cases "is_success found")
      case True
      with run f d sess Inr have "y = Inr (Inl (result_failure (duplicate_email email) []))" "w' = w"
        by (auto simp: create_user_block_def ebind_def eget_def on_db_def eret_def)
      then show ?thesis by simp
    next
      case False
      with find have free: "\<not> email_taken (w_ctx w) email (us (w_db w))" by simp
      show ?thesis
      proof (cases "user_register now i b1 b2 email name")
        case (Failure e md)
        with False run f d sess Inr have "y = Inr (Inl (Failure e md))" "w' = w"
          by (auto simp: create_user_block_def ebind_def eget_def on_db_def eret_def)
        then show ?thesis by simp
      next
        case (Success u md)
        note u = user_register_success [OF Success]
        from False run f d sess Inr Success
        have "ebind (new_object u) (\<lambda>a. ebind (uow_track r a) (\<lambda>_.
          ebind (on_db (repo_add (user_repo Tu lt now) (w_ctx w) now u)) (\<lambda>added.
            case added of
              Failure e md' \<Rightarrow> eret (Inl (result_failure e []))
            | Success u' md' \<Rightarrow> ebind (uow_commit env r) (\<lambda>_. eret (Inr a))))) w = (y, w')"
          by (simp add: create_user_block_def ebind_def eget_def on_db_def)
        from add_then_commit [OF ph tr u1 u2 this]
        show ?thesis using free c
          by (auto simp: u user_stored_def user_events_kind create_user_dto_of_def user_object_def
              user_fields_def user_text_def user_row_def user_to_dict_def col_def simp del: list.map
              split: sum.splits)
      qed
    qed
  qed
qed

end


context identity_db
begin

lemma create_result:
  fixes w :: "('d, 'a) svc_world"
  assumes r: "r < length (w_uows w)" "uow_at r w = uow_init"
    and u1: "unique_rows ob_clash (fst (com (w_db w)))" and u2: "unique_rows users_clash (snd (com (w_db w)))"
    and run: "create_user_handle env (user_repo Tu lt now) now i b1 b2 r email name w = (x, w')"
  shows "case x of
     Inl e \<Rightarrow> com (w_db w') = com (w_db w) \<or>
       user_stored iso_fmt ids (w_ctx w) now i b2 email name (com (w_db w)) (com (w_db w'))
   | Inr (Failure e md) \<Rightarrow> com (w_db w') = com (w_db w)
   | Inr (Success dto md) \<Rightarrow>
       user_stored iso_fmt ids (w_ctx w) now i b2 email name (com (w_db w)) (com (w_db w')) \<and>
       dto = \<lparr>cu_id = i, cu_email = py_lower (py_strip email), cu_name = py_strip name\<rparr>"
proof -
  let ?body = "create_user_block env (user_repo Tu lt now) now i b1 b2 r email name"
  obtain b wb where b: "async_with (uow_aenter env r) (uow_aexit env r) ?body w = (b, wb)" by fastforce
  with run have x: "w' = wb" "x = (case b of Inl e \<Rightarrow> Inl e | Inr (Inl res) \<Rightarrow> Inr res
      | Inr (Inr a) \<Rightarrow> Inr (Success (create_user_dto_of (w_heap wb a)) []))"
    by (auto simp: create_user_handle_def ebind_def eret_def eget_def result_success_def split: sum.splits)
  show ?thesis
  proof (rule uow_block_com [OF laws b])
    fix e assume "b = Inl e" "com (w_db wb) = com (w_db w)"
    with x show ?thesis by simp
  next
    fix w1 y w2
    assume en: "uow_aenter env r w = (Inr (), w1)" and body: "?body w1 = (y, w2)"
      and com2: "com (w_db wb) = com (w_db w2)" and "b = y \<or> (\<exists>e. b = Inl e)"
    obtain d where d: "w1 = (set_uow r (\<lambda>u. u\<lparr>uw_open := True\<rparr>) w)\<lparr>w_db := d\<rparr>"
      using uow_aenter_state [OF en] by blast
    have c1: "com (w_db w1) = com (w_db w)" by (rule uow_aenter_com(1) [OF laws en])
    have wrk1: "(ob (w_db w1), us (w_db w1)) = com (w_db w)" using uow_aenter_com(3) [OF laws en] by simp
    have ph: "uow_phase r w1 = (True, True, False, False)"
      using uow_aenter_com(2) [OF laws en r(1)] r(2) by (simp add: uow_init_def)
    have tr: "uw_tracked (uow_at r w1) = []" using r by (simp add: d set_uow_def uow_init_def)
    have ctx: "w_ctx w1 = w_ctx w" by (simp add: d)
    have u: "unique_rows ob_clash (ob (w_db w1))" "unique_rows users_clash (us (w_db w1))"
      using u1 u2 by (simp_all flip: wrk1)
    have cc: "com (w_db w1) = (ob (w_db w1), us (w_db w1))" using c1 wrk1 by simp
    note blk = block_result [OF ph tr u cc body, unfolded c1 ctx]
    show ?thesis
    proof (cases b)
      case (Inl e)
      with blk com2 x show ?thesis by (auto split: sum.splits)
    next
      case (Inr v)
      with b have "async_with (uow_aenter env r) (uow_aexit env r) ?body w = (Inr v, wb)" by simp
      note hp = uow_block_heap [OF this en body]
      with blk com2 x Inr show ?thesis by (auto split: sum.splits result.splits)
    qed
  qed
qed

end

text \<open>C16: Creating a user is atomic. A returned success says that the address was free among the
  users the caller's tenant can see, and that exactly one user row, with the address in lower case
  and without surrounding space, and exactly one outbox row, of the integration event of that user,
  became durable together. A returned failure changed nothing, and after an exception either
  nothing is durable or both rows are.\<close>

theorem create_user_atomic:
  assumes "identity_db env com ob us To Tu iso_fmt ids"
    and "r < length (w_uows w)" "uow_at r w = uow_init"
    and "unique_rows ob_clash (fst (com (w_db w)))" "unique_rows users_clash (snd (com (w_db w)))"
    and "create_user_handle env (user_repo Tu lt now) now i b1 b2 r email name w = (x, w')"
  shows "case x of
     Inl e \<Rightarrow> com (w_db w') = com (w_db w) \<or>
       user_stored iso_fmt ids (w_ctx w) now i b2 email name (com (w_db w)) (com (w_db w'))
   | Inr (Failure e md) \<Rightarrow> com (w_db w') = com (w_db w)
   | Inr (Success dto md) \<Rightarrow>
       user_stored iso_fmt ids (w_ctx w) now i b2 email name (com (w_db w)) (com (w_db w')) \<and>
       dto = \<lparr>cu_id = i, cu_email = py_lower (py_strip email), cu_name = py_strip name\<rparr>"
  by (rule identity_db.create_result [OF assms])

section \<open>The handlers of the service\<close>

text \<open>\<open>register_handlers\<close> scans six modules; each defines its handler beside the message.\<close>

definition identity_modules :: "scanned list" where
  "identity_modules =
     map (\<lambda>(m, cs). ScanModule m (map (\<lambda>c. (c, m)) cs))
       [(''create_user'', [''CreateUserCommand'', ''CreateUserDto'', ''CreateUserHandler'']),
        (''change_email'', [''ChangeEmailCommand'', ''ChangeEmailHandler'']),
        (''get_user'', [''GetUserHandler'', ''GetUserQuery'', ''UserDto'']),
        (''get_user_profile'', [''GetUserProfileHandler'', ''GetUserProfileQuery'', ''UserProfileDto'']),
        (''list_users'', [''ListUsersHandler'', ''ListUsersQuery'']),
        (''on_user_registered'', [''OnUserRegistered''])]"

definition identity_stamps :: "string \<Rightarrow> (string \<times> string) option" where
  "identity_stamps = map_of
     [(''CreateUserHandler'', (''command'', ''CreateUserCommand'')),
      (''ChangeEmailHandler'', (''command'', ''ChangeEmailCommand'')),
      (''GetUserHandler'', (''query'', ''GetUserQuery'')),
      (''GetUserProfileHandler'', (''query'', ''GetUserProfileQuery'')),
      (''ListUsersHandler'', (''query'', ''ListUsersQuery'')),
      (''OnUserRegistered'', (''integration'', ''UserRegisteredIntegration''))]"

definition identity_register :: "(string \<Rightarrow> ('s, 'v) factory) \<Rightarrow> (('s, 'v) mstate, nat) eff" where
  "identity_register cls = register_decorated cls identity_stamps identity_modules"

definition identity_mediator :: mediator where
  "identity_mediator =
     \<lparr>md_commands = [(''CreateUserCommand'', ''CreateUserHandler''), (''ChangeEmailCommand'', ''ChangeEmailHandler'')],
      md_queries = [(''GetUserQuery'', ''GetUserHandler''), (''GetUserProfileQuery'', ''GetUserProfileHandler''),
        (''ListUsersQuery'', ''ListUsersHandler'')],
      md_events = [], md_integrations = [(''UserRegisteredIntegration'', [''OnUserRegistered''])],
      md_notifications = []\<rparr>"

definition with_provider :: "(string \<Rightarrow> ('s, 'v) factory) \<Rightarrow> string \<Rightarrow> ('s, 'v) container \<Rightarrow> ('s, 'v) container" where
  "with_provider cls h c =
     (case map_of (ct_providers c) (KClass h) of
        Some p \<Rightarrow> c
      | None \<Rightarrow> c\<lparr>ct_providers := AList.update (KClass h)
          (FactoryProvider (KClass h) TRANSIENT [] (cls h)) (ct_providers c)\<rparr>)"

lemma ensure_provider_eq: "ensure_provider cls h (md, c) = (Inr (), (md, with_provider cls h c))"
  by (simp add: ensure_provider_def with_provider_def register_transient_def di_register_def
      make_provider_def split: option.split)

lemma identity_registers:
  "\<exists>c'. identity_register cls (mediator_init, c) = (Inr 6, (identity_mediator, c'))"
  by (simp add: identity_register_def register_decorated_def identity_modules_def identity_stamps_def
      mediator_init_def identity_mediator_def register_kind_def register_command_def register_query_def
      register_integration_def add_handler_def ensure_provider_eq ebind_def eret_def)

section \<open>A database of two tables\<close>

definition tx_users :: "((outbox_row list \<times> row list) \<times> (outbox_row list \<times> row list), row) sql" where
  "tx_users = list_sql (\<lambda>d. snd (snd d)) (\<lambda>xs d. (fst d, (fst (snd d), xs))) users_clash"

interpretation tx_users_slot: table_slot "\<lambda>d. snd (snd d)" "\<lambda>xs d. (fst d, (fst (snd d), xs))"
    "\<lambda>d. fst (snd d)"
  by unfold_locales simp_all

type_synonym identity_demo_db = "(outbox_row list \<times> row list) \<times> (outbox_row list \<times> row list)"

definition demo_identity_env :: "(identity_demo_db, (identity_demo_db, unit) svc_world) uow_env" where
  "demo_identity_env =
     \<lparr>ue_session = tx_session,
      ue_dispatcher = Some (mediator_event_dispatcher identity_mediator (\<lambda>ht e w. w)
        (\<lambda>ht. eret ()) (\<lambda>h ev. eret ())),
      ue_outbox = Some (outbox_record tx_outbox (\<lambda>t. ''t'') (\<lambda>i. i))\<rparr>"

interpretation demo_identity: identity_db demo_identity_env fst "\<lambda>d. fst (snd d)" "\<lambda>d. snd (snd d)"
    tx_outbox tx_users "\<lambda>t. ''t''" "\<lambda>i. i"
proof (intro identity_db.intro)
  show "session_laws (ue_session demo_identity_env) fst (\<lambda>d. (fst (snd d), snd (snd d)))"
    using tx_session_laws by (simp add: demo_identity_env_def)
  show "sql_table tx_users (\<lambda>d. snd (snd d)) users_clash (\<lambda>d. fst (snd d))"
    unfolding tx_users_def by (rule tx_users_slot.list_sql_table)
  show "insert_not_durable tx_users fst"
    by (simp add: insert_not_durable_def tx_users_def)
next
  fix publish :: "event \<Rightarrow> ((identity_demo_db, unit) svc_world, unit) eff" and ev w
  assume "ue_dispatcher demo_identity_env = Some publish"
  then show "\<exists>x. publish ev w = (x, w) \<and> (ev_kind ev = DomainEvent \<longrightarrow> x = Inr ())"
    using dispatcher_without_handlers [of identity_mediator] by (auto simp: demo_identity_env_def identity_mediator_def)
qed (auto simp: demo_identity_env_def tx_outbox_table tx_outbox_com)

definition stored_user :: "uuid \<Rightarrow> string \<Rightarrow> uuid option \<Rightarrow> row" where
  "stored_user i email tenant =
     [(''id'', VUuid i), (''email'', VStr email), (''name'', VStr ''n''), (''is_active'', VBool True),
      (''version'', VInt 1), (''tenant_id'', v_uuid tenant)]"

definition identity_world :: "uuid option \<Rightarrow> row list \<Rightarrow> (identity_demo_db, unit) svc_world" where
  "identity_world tenant users =
     \<lparr>w_db = (([], users), ([], [])), w_heap = (\<lambda>a. user_object 0 0 [] 0), w_uows = [uow_init],
      w_active = None, w_ctx = demo_ctx\<lparr>rc_tenant_id := tenant\<rparr>, sw_unused = 0\<rparr>"

definition demo_create :: "uuid option \<Rightarrow> row list \<Rightarrow> string
    \<Rightarrow> (exn + create_user_dto result) \<times> (identity_demo_db, unit) svc_world" where
  "demo_create tenant users email =
     create_user_handle demo_identity_env (user_repo tx_users (\<lambda>a b. False) 5) 5 3
       (demo_event DomainEvent ''e'') (demo_event IntegrationEvent ''e'') 0 email ''Ann''
       (identity_world tenant users)"


lemmas identity_eval = create_user_handle_def create_user_block_def async_with_def uow_aenter_def
  uow_aexit_def uow_session_def uow_commit_def uow_rollback_def uow_dispatch_def on_db_def set_uow_def
  uow_track_def uow_init_def new_object_def find_by_email_def user_add user_scope tx_session_def
  demo_identity_env_def identity_world_def demo_ctx_def Let_def eff_defs [abs_def] result_success_def
  result_failure_def from_optional_def tx_users_def tx_outbox_def user_register_def
  aggregate_record_event_def user_registered_def user_registered_integration_def user_event_def
  demo_event_def integration_events_def domain_events_def enrich_event_def outbox_record_def
  outbox_rows_def is_text_def unique_rows_def create_user_dto_of_def user_object_def user_text_def
  user_fields_def mediator_event_dispatcher_def mediator_publish_def identity_mediator_def

lemma normal_ann: "py_lower (py_strip '' Ann@X.Org '') = ''ann@x.org''"
    "py_lower (py_strip ''Ann@X.Org'') = ''ann@x.org''"
    "py_strip (py_lower '' Ann@X.Org '') = ''ann@x.org''" "py_strip ''Ann'' = ''Ann''"
    "py_lower (py_strip ''ann@x.org'') = ''ann@x.org''"
    "py_strip (py_lower ''ann@x.org'') = ''ann@x.org''"
  by code_simp+

lemma demo_create_once:
  "fst (demo_create (Some 9) [] '' Ann@X.Org '') =
     Inr (Success \<lparr>cu_id = 3, cu_email = ''ann@x.org'', cu_name = ''Ann''\<rparr> [])"
  by (simp add: demo_create_def identity_eval normal_ann col_def)

theorem create_user_atomic_witness:
  "fst (fst (w_db (snd (demo_create (Some 9) [] '' Ann@X.Org '')))) =
     outbox_rows (\<lambda>t. ''t'') (\<lambda>i. i) [enrich_event (demo_ctx\<lparr>rc_tenant_id := Some 9\<rparr>)
       (user_registered_integration (demo_event IntegrationEvent ''e'') 3 ''ann@x.org'' ''Ann'')] \<and>
   map (\<lambda>r. col r ''email'') (snd (fst (w_db (snd (demo_create (Some 9) [] '' Ann@X.Org ''))))) =
     [VStr ''ann@x.org'']"
proof -
  let ?w = "identity_world (Some 9) []"
  have w: "0 < length (w_uows ?w)" "uow_at 0 ?w = uow_init" "unique_rows ob_clash (fst (fst (w_db ?w)))"
    "unique_rows users_clash (snd (fst (w_db ?w)))" "w_ctx ?w = demo_ctx\<lparr>rc_tenant_id := Some 9\<rparr>"
    "fst (w_db ?w) = ([], [])"
    by (simp_all add: identity_world_def unique_rows_def)
  obtain x w' where run: "demo_create (Some 9) [] '' Ann@X.Org '' = (x, w')" by fastforce
  with demo_create_once have x: "x = Inr (Success \<lparr>cu_id = 3, cu_email = ''ann@x.org'', cu_name = ''Ann''\<rparr> [])"
    by simp
  have "user_stored (\<lambda>t. ''t'') (\<lambda>i. i) (w_ctx ?w) 5 3 (demo_event IntegrationEvent ''e'')
      '' Ann@X.Org '' ''Ann'' (fst (w_db ?w)) (fst (w_db w'))"
    using create_user_atomic [OF demo_identity.identity_db_axioms w(1-4) run [unfolded demo_create_def]] x
    by simp
  then show ?thesis
    by (simp add: run user_stored_def w(5,6) normal_ann user_row_cols user_object_def user_fields_def)
      (simp add: col_def)
qed

text \<open>The same address again, in other letters, is refused.\<close>

lemma demo_create_twice:
  "fst (demo_create (Some 9) [stored_user 1 ''ann@x.org'' (Some 9)] '' Ann@X.Org '') =
     Inr (Failure (duplicate_email '' Ann@X.Org '') [])"
  by (simp add: demo_create_def identity_eval normal_ann stored_user_def col_def user_from_row_def
      v_uuid_def get_uuid_def elift_def)

text \<open>A deleted user is not found and the insert then violates the constraint, which is an exception.\<close>

lemma demo_create_deleted:
  "fst (demo_create (Some 9) [stored_user 1 ''ann@x.org'' (Some 9) @ [(''deleted_at'', VTime 4)]] ''Ann@X.Org'') =
     Inl unique_violation_exn"
  by (simp add: demo_create_def identity_eval normal_ann stored_user_def col_def user_from_row_def
      v_uuid_def get_uuid_def elift_def users_clash_def user_row_def user_to_dict_def)

definition demo_change :: "uuid option \<Rightarrow> row list \<Rightarrow> uuid \<Rightarrow> string
    \<Rightarrow> (exn + unit result) \<times> (identity_demo_db, unit) svc_world" where
  "demo_change tenant users i email =
     change_email_handle demo_identity_env (user_repo tx_users (\<lambda>a b. False) 5) 5
       (demo_event IntegrationEvent ''e'') 0 i email (identity_world tenant users)"

lemmas change_eval = change_email_handle_def change_email_block_def save_object_def on_object_def
  repo_get_def repo_save_def save_values_def set_cols_def user_change_email_def user_email_changed_def
  stored_user_def col_def user_from_row_def user_to_dict_def v_uuid_def get_uuid_def elift_def
  users_clash_def py_strip_def py_lower_def is_space_def lower_char_def


end
