(* ===== verification/Qx_Rental.thy ===== *)
theory Qx_Rental
  imports Qx_Identity Qx_Mediator
begin

text \<open>
  The example \<open>rental-service\<close>: three aggregates, their tables, the commands and queries of the three
  slices and the registration of the handlers. The repositories override nothing, so rows and
  entities are converted as the package does it; a table refuses columns it does not have, as
  SQLAlchemy does when it compiles an INSERT. A date is its day number.
\<close>

section \<open>Aggregates\<close>

definition rental_object :: "string \<Rightarrow> instant \<Rightarrow> uuid \<Rightarrow> row \<Rightarrow> event \<Rightarrow> aggregate" where
  "rental_object ty now i vals ev =
     \<lparr>en_type = ty, en_id = i, en_created_at = now, en_updated_at = None, en_deleted_at = None,
      en_created_by = None, en_updated_by = None, en_deleted_by = None, en_version = 1,
      en_tenant_id = None, en_fields = vals, ar_pending = [ev]\<rparr>"

definition house_listing_created :: "event \<Rightarrow> uuid \<Rightarrow> string \<Rightarrow> int \<Rightarrow> event" where
  "house_listing_created base i address price =
     user_event ''HouseListingCreated'' DomainEvent ''rental.house.listing_created'' base
       [(''house_id'', JStr (str_of_uuid i)), (''address'', JStr address),
        (''price_per_night_cents'', JInt price)]"

definition house_create_listing ::
  "instant \<Rightarrow> uuid \<Rightarrow> event \<Rightarrow> string \<Rightarrow> int \<Rightarrow> aggregate result" where
  "house_create_listing now i base address price =
     (if py_strip address = []
      then result_failure (mk_error DomainError ''house.invalid_address'' ''address is required'') []
      else if price \<le> 0
      then result_failure (mk_error DomainError ''house.invalid_price'' ''price must be positive'') []
      else result_success
        (rental_object ''House'' now i
           [(''address'', VStr (py_strip address)), (''price_per_night_cents'', VInt price),
            (''available'', VBool True)]
           (house_listing_created base i (py_strip address) price)) [])"

definition rental_created :: "event \<Rightarrow> uuid \<Rightarrow> uuid \<Rightarrow> uuid \<Rightarrow> int \<Rightarrow> event" where
  "rental_created base i user house tot =
     user_event ''RentalCreated'' DomainEvent ''rental.rent.created'' base
       [(''rental_id'', JStr (str_of_uuid i)), (''user_id'', JStr (str_of_uuid user)),
        (''house_id'', JStr (str_of_uuid house)), (''total_cents'', JInt tot)]"

definition rental_create ::
  "instant \<Rightarrow> uuid \<Rightarrow> event \<Rightarrow> uuid \<Rightarrow> uuid \<Rightarrow> int \<Rightarrow> int \<Rightarrow> int \<Rightarrow> aggregate result" where
  "rental_create now i base user house check_in check_out price =
     (if check_out \<le> check_in
      then result_failure (mk_error DomainError ''rental.invalid_dates''
             ''check_out must be after check_in'') []
      else
        (let nights = check_out - check_in; tot = nights * price
         in result_success
           (rental_object ''Rental'' now i
              [(''user_id'', VUuid user), (''house_id'', VUuid house), (''check_in'', VInt check_in),
               (''check_out'', VInt check_out), (''total_cents'', VInt tot), (''status'', VStr ''pending'')]
              (rental_created base i user house tot)) []))"

definition rental_user_registered :: "event \<Rightarrow> uuid \<Rightarrow> string \<Rightarrow> string \<Rightarrow> event" where
  "rental_user_registered base i email name =
     user_event ''UserRegistered'' DomainEvent ''rental.user.registered'' base
       (registered_body i email name)"

definition rental_user_register ::
  "instant \<Rightarrow> uuid \<Rightarrow> event \<Rightarrow> string \<Rightarrow> string \<Rightarrow> aggregate result" where
  "rental_user_register now i base raw_email raw_name =
     (let email = py_lower (py_strip raw_email); name = py_strip raw_name
      in if email = [] \<or> CHR ''@'' \<notin> set email
         then result_failure (mk_error DomainError ''user.invalid_email'' ''email must be valid'') []
         else if name = []
         then result_failure (mk_error DomainError ''user.invalid_name'' ''name is required'') []
         else result_success
           (rental_object ''User'' now i [(''email'', VStr email), (''name'', VStr name)]
              (rental_user_registered base i email name)) [])"

section \<open>Tables and repositories\<close>

definition houses_columns :: "string list" where
  "houses_columns = [''id'', ''address'', ''price_per_night_cents'', ''available'']"

definition rentals_columns :: "string list" where
  "rentals_columns =
     [''id'', ''user_id'', ''house_id'', ''check_in'', ''check_out'', ''total_cents'', ''status'']"

definition rental_users_columns :: "string list" where
  "rental_users_columns = [''id'', ''email'', ''name'', ''is_active'']"

text \<open>The INSERT of a table with the given columns.\<close>

definition columns_checked :: "string list \<Rightarrow> ('db, row) sql \<Rightarrow> ('db, row) sql" where
  "columns_checked cols T =
     T\<lparr>sql_insert := (\<lambda>rs db.
         if list_all (\<lambda>r. list_all (\<lambda>(k, v). k \<in> set cols) r) rs then sql_insert T rs db
         else (Inl (PyException ''CompileError'' ''Unconsumed column names''), db))\<rparr>"

text \<open>\<open>entity_cls(**dict(row))\<close>, with no pending events.\<close>

definition row_to_aggregate :: "string \<Rightarrow> string list \<Rightarrow> instant \<Rightarrow> row \<Rightarrow> exn + aggregate" where
  "row_to_aggregate ty names now r =
     (case row_to_entity ty names now r of
        Inl e \<Rightarrow> Inl e
      | Inr e \<Rightarrow> Inr (entity.extend e (aggregate.fields [])))"

definition rental_repo ::
  "string \<Rightarrow> string list \<Rightarrow> string list \<Rightarrow> string list \<Rightarrow> ('db, row) sql
     \<Rightarrow> (sqlval \<Rightarrow> sqlval \<Rightarrow> bool) \<Rightarrow> instant \<Rightarrow> ('db, aggregate) repo" where
  "rental_repo ty names cols filterable T lt now =
     \<lparr>rp_table = columns_checked cols T, rp_columns = cols, rp_name = ty, rp_filterable = filterable,
      rp_sortable = [''created_at''], rp_tenanted = True, rp_less = lt,
      rp_from_row = row_to_aggregate ty names now, rp_to_dict = entity_to_dict, rp_entity_id = en_id,
      rp_version = en_version, rp_set_version = (\<lambda>v u. u\<lparr>en_version := v\<rparr>)\<rparr>"

definition house_repository where
  "house_repository T lt now =
     rental_repo ''House'' [''address'', ''price_per_night_cents'', ''available''] houses_columns [] T lt now"

definition rental_repository where
  "rental_repository T lt now =
     rental_repo ''Rental''
       [''user_id'', ''house_id'', ''check_in'', ''check_out'', ''total_cents'', ''status'']
       rentals_columns [] T lt now"

definition rental_user_repository where
  "rental_user_repository T lt now =
     rental_repo ''User'' [''email'', ''name''] rental_users_columns [''email''] T lt now"

section \<open>Commands\<close>

text \<open>The block that the three commands share: an early return carries the error of \<open>add\<close>.\<close>

definition add_block ::
  "('d, ('d, 'a) svc_world) uow_env \<Rightarrow> ('d, aggregate) repo \<Rightarrow> instant \<Rightarrow> nat \<Rightarrow> nat
     \<Rightarrow> (('d, 'a) svc_world, error option) eff" where
  "add_block env rp now r a =
     ebind (uow_session r) (\<lambda>_.
     ebind eget (\<lambda>w.
     ebind (on_db (repo_add rp (w_ctx w) now (w_heap w a))) (\<lambda>added.
       case added of
         Failure e md \<Rightarrow> eret (Some e)
       | Success u md \<Rightarrow>
           ebind (uow_track r a) (\<lambda>_. ebind (uow_commit env r) (\<lambda>_. eret None)))))"

definition add_new ::
  "('d, ('d, 'a) svc_world) uow_env \<Rightarrow> ('d, aggregate) repo \<Rightarrow> instant \<Rightarrow> nat \<Rightarrow> aggregate result
     \<Rightarrow> (aggregate \<Rightarrow> 'b) \<Rightarrow> (('d, 'a) svc_world, 'b result) eff" where
  "add_new env rp now r made dto =
     (case made of
        Failure e md \<Rightarrow> eret (result_failure e [])
      | Success u md \<Rightarrow>
          ebind (new_object u) (\<lambda>a.
          ebind (async_with (uow_aenter env r) (uow_aexit env r) (add_block env rp now r a)) (\<lambda>early.
            case early of
              Some e \<Rightarrow> eret (result_failure e [])
            | None \<Rightarrow> ebind eget (\<lambda>w. eret (result_success (dto (w_heap w a)) [])))))"

definition list_house_handle where
  "list_house_handle env T lt now i base r address price =
     add_new env (house_repository T lt now) now r (house_create_listing now i base address price) en_id"

definition rental_register_user_handle where
  "rental_register_user_handle env T lt now i base r email name =
     add_new env (rental_user_repository T lt now) now r (rental_user_register now i base email name) en_id"

definition field_int :: "string \<Rightarrow> 'z entity_scheme \<Rightarrow> int" where
  "field_int f u = (case col (en_fields u) f of VInt n \<Rightarrow> n | _ \<Rightarrow> 0)"

text \<open>\<open>users\<close> and \<open>houses\<close> are the repositories on the session that is opened for the lookups.\<close>

definition create_rental_handle ::
  "(('d, 'a) svc_world, 'g, 'f, 'z) sqlalchemy \<Rightarrow> 'f \<Rightarrow> ('z \<Rightarrow> (('d, 'a) svc_world, aggregate) repo)
     \<Rightarrow> ('z \<Rightarrow> (('d, 'a) svc_world, aggregate) repo) \<Rightarrow> ('d, ('d, 'a) svc_world) uow_env
     \<Rightarrow> ('d, aggregate) repo \<Rightarrow> instant \<Rightarrow> uuid \<Rightarrow> event \<Rightarrow> nat \<Rightarrow> uuid \<Rightarrow> uuid \<Rightarrow> int \<Rightarrow> int
     \<Rightarrow> (('d, 'a) svc_world, (uuid \<times> int) result) eff" where
  "create_rental_handle A sessions users houses env rp now i base r user house check_in check_out =
     ebind (open_session A sessions (\<lambda>session.
         ebind eget (\<lambda>w.
         ebind (repo_get (users session) (w_ctx w) user False) (\<lambda>user_r.
           if is_failure user_r
           then eret (Inl (mk_error NotFoundError ''user.not_found''
                  (''user '' @ str_of_uuid user @ '' not found'')))
           else ebind (repo_get (houses session) (w_ctx w) house False) (\<lambda>house_r.
             case house_r of
               Failure e md \<Rightarrow> eret (Inl (mk_error NotFoundError ''house.not_found''
                    (''house '' @ str_of_uuid house @ '' not found'')))
             | Success h md \<Rightarrow> eret (Inr h))))))
       (\<lambda>found. case found of
          Inl e \<Rightarrow> eret (result_failure e [])
        | Inr h \<Rightarrow>
            add_new env rp now r
              (rental_create now i base user house check_in check_out (field_int ''price_per_night_cents'' h))
              (\<lambda>u. (en_id u, field_int ''total_cents'' u)))"

section \<open>Queries\<close>

text \<open>
  The entity a repository without overrides loads has the raw UUID of the row as its \<open>id\<close>, and a
  UUID has no attribute \<open>value\<close>.
\<close>

definition no_value_attribute :: exn where
  "no_value_attribute = PyException ''AttributeError'' ''UUID object has no attribute value''"

definition rental_lookup ::
  "('w, 'g, 'f, 'z) sqlalchemy \<Rightarrow> 'f \<Rightarrow> ('z \<Rightarrow> ('w, aggregate) repo) \<Rightarrow> 'a request_context \<Rightarrow> string \<Rightarrow> string
     \<Rightarrow> uuid \<Rightarrow> ('w, 'b result) eff" where
  "rental_lookup A sessions rp ctx code what i =
     ebind (open_session A sessions (\<lambda>session. repo_get (rp session) ctx i False)) (\<lambda>found.
       if is_failure found
       then eret (result_failure (mk_error NotFoundError code (what @ '' '' @ str_of_uuid i @ '' not found'')) [])
       else eraise no_value_attribute)"

definition get_house_handle where
  "get_house_handle A sessions rp ctx i = rental_lookup A sessions rp ctx ''house.not_found'' ''house'' i"
definition get_rental_handle where
  "get_rental_handle A sessions rp ctx i = rental_lookup A sessions rp ctx ''rental.not_found'' ''rental'' i"
definition rental_user_profile_handle where
  "rental_user_profile_handle A sessions rp ctx i = rental_lookup A sessions rp ctx ''user.not_found'' ''user'' i"

section \<open>Registration\<close>

text \<open>The package module itself defines no class; its slices are submodules.\<close>

definition rental_package :: scanned where
  "rental_package = ScanModule ''rental_service'' []"

definition rental_register ::
  "(string \<Rightarrow> ('s, 'v) factory) \<Rightarrow> (string \<Rightarrow> (string \<times> string) option) \<Rightarrow> (('s, 'v) mstate, nat) eff" where
  "rental_register cls stamps = register_decorated cls stamps [rental_package]"

section \<open>What the service does\<close>

text \<open>The service answers no request. Its one call that discovers handlers looks at the classes of
  the package module only and finds none, so the mediator it builds is the empty one, and sending it
  any message raises the mediator's exception before any behaviour or handler runs.\<close>

theorem rental_answers_nothing:
  "rental_register cls stamps (mediator_init, c) = (Inr 0, (mediator_init, c)) \<and>
   (\<exists>m. mediator_send (fst (snd (rental_register cls stamps (mediator_init, c)))) cb qb tb otel resolve
          handle msg s = (Inl (mediator_error m), s))"
  by (auto simp: rental_register_def register_decorated_def rental_package_def mediator_send_def
      dispatch_request_def mediator_init_def eret_def eraise_def)

text \<open>\<open>vars(entity)\<close> has every column that \<open>add\<close> would default.\<close>

lemma entity_dict_has:
  "map_of (entity_to_dict u) ''created_at'' = Some (VTime (en_created_at u))"
  "map_of (entity_to_dict u) ''created_by'' = Some (v_uuid (en_created_by u))"
  "map_of (entity_to_dict u) ''tenant_id'' = Some (v_uuid (en_tenant_id u))"
  "map_of (entity_to_dict u) ''version'' = Some (VInt (en_version u))"
  by (simp_all add: entity_to_dict_def base_vars_def)

text \<open>An INSERT of a generic entity names the audit columns, so a table without them refuses it.\<close>

lemma add_unknown_column:
  assumes "''created_at'' \<notin> set cols"
  shows "repo_add (rental_repo ty names cols fl T lt now) ctx now u d =
    (Inl (PyException ''CompileError'' ''Unconsumed column names''), d)"
proof -
  have "(''created_at'', VTime (en_created_at u)) \<in> set (entity_to_dict u)"
    using map_of_SomeD [OF entity_dict_has(1)] .
  with assms have "\<not> list_all (\<lambda>(k, v). k \<in> set cols) (entity_to_dict u)"
    by (auto simp: list_all_iff)
  then show ?thesis
    by (simp add: repo_add_def rental_repo_def set_default_def entity_dict_has columns_checked_def
        Let_def ebind_def)
qed

lemma add_block_refused:
  assumes cols: "''created_at'' \<notin> set cols"
    and run: "add_block env (rental_repo ty names cols fl T lt now) now r a w = (x, w')"
  shows "(\<exists>e. x = Inl e) \<and> w' = w"
  using run
  by (auto simp: add_block_def uow_session_def on_db_def add_unknown_column [OF cols] ebind_def eget_def
      split: if_splits)

lemma add_new_refused:
  fixes w :: "('d, 'a) svc_world"
  assumes S: "session_laws (ue_session env) com wrk" and cols: "''created_at'' \<notin> set cols"
    and run: "add_new env (rental_repo ty names cols fl T lt now) now r made dto w = (x, w')"
  shows "(\<forall>res. x = Inr res \<longrightarrow> \<not> is_success res) \<and> com (w_db w') = com (w_db w)"
proof (cases made)
  case (Failure e md)
  with run show ?thesis by (auto simp: add_new_def eret_def)
next
  case (Success u md)
  let ?rp = "rental_repo ty names cols fl T lt now"
  obtain a w0 where n: "new_object u w = (Inr a, w0)" and w0: "w_db w0 = w_db w"
    by (simp add: new_object_def)
  let ?body = "add_block env ?rp now r a"
  obtain b wb where b: "async_with (uow_aenter env r) (uow_aexit env r) ?body w0 = (b, wb)" by fastforce
  have "(\<exists>e. b = Inl e) \<and> com (w_db wb) = com (w_db w0)"
  proof (rule uow_block_com [OF S b])
    fix w1 y w2
    assume en: "uow_aenter env r w0 = (Inr (), w1)" and body: "?body w1 = (y, w2)"
      and "com (w_db wb) = com (w_db w2)" "b = y \<or> (\<exists>e. b = Inl e)"
    with add_block_refused [OF cols body] uow_aenter_com(1) [OF S en]
    show "(\<exists>e. b = Inl e) \<and> com (w_db wb) = com (w_db w0)" by auto
  qed auto
  with run n b Success w0 show ?thesis by (auto simp: add_new_def ebind_def)
qed

text \<open>Listing a house and registering a user can store nothing: whatever the input, they end in a
  failure or in an exception and leave the durable state as it was, since the INSERT of the package's
  repository names the audit columns that the tables do not have.\<close>

theorem rental_writes_fail:
  assumes "session_laws (ue_session env) com wrk"
    and "list_house_handle env T lt now i base r address price w = (x, w')"
    and "rental_register_user_handle env T lt now i base r email name w = (y, w'')"
  shows "(\<forall>res. x = Inr res \<longrightarrow> \<not> is_success res) \<and> com (w_db w') = com (w_db w) \<and>
         (\<forall>res. y = Inr res \<longrightarrow> \<not> is_success res) \<and> com (w_db w'') = com (w_db w)"
  using add_new_refused [OF assms(1) _ assms(2) [unfolded list_house_handle_def house_repository_def]]
    add_new_refused [OF assms(1) _ assms(3) [unfolded rental_register_user_handle_def
        rental_user_repository_def]]
  by (simp add: houses_columns_def rental_users_columns_def)

lemma rental_writes_fail_witness:
  "fst (w_db (snd (list_house_handle demo_identity_env tx_users (\<lambda>a b. False) 5 3
     (demo_event DomainEvent ''e'') 0 ''Main St'' 100 (identity_world None [])))) = ([], [])"
proof -
  let ?f = "\<lambda>a b :: sqlval. False" and ?ev = "demo_event DomainEvent ''e''"
  let ?x = "list_house_handle demo_identity_env tx_users ?f 5 3 ?ev 0 ''Main St'' 100 (identity_world None [])"
  let ?y = "rental_register_user_handle demo_identity_env tx_users ?f 5 3 ?ev 0 ''a@x'' ''A'' (identity_world None [])"
  have S: "session_laws (ue_session demo_identity_env) fst snd"
    using tx.session_laws_axioms by (simp add: demo_identity_env_def)
  from rental_writes_fail [OF S, where x = "fst ?x" and w' = "snd ?x" and y = "fst ?y" and w'' = "snd ?y",
      OF surjective_pairing surjective_pairing]
  show ?thesis by (simp add: identity_world_def)
qed

end
