(* ===== verification/Qx_Scan.thy ===== *)
theory Qx_Scan
  imports Qx_Di
begin

text \<open>
  The package \<open>qx-di\<close>, declarative registration: the decorators that stamp a class and the scanner
  that registers the stamped classes of a package (\<open>decorators.py\<close>), and the synchronous resolution
  of the container (\<open>resolve_sync\<close> in \<open>container.py\<close>) with the walk that looks for asynchronous
  providers first. That walk takes fuel; \<open>sync_enough_fuel\<close> bounds it by the keys not yet visited.
\<close>

section \<open>Stamping\<close>

record injectable =
  in_key :: "di_key option"
  in_lifetime :: lifetime
  in_tags :: "string list"

text \<open>What each class has in its own \<open>__dict__\<close>.\<close>

type_synonym stamps = "string \<rightharpoonup> injectable"

definition stamp_class :: "string \<Rightarrow> lifetime \<Rightarrow> di_key option \<Rightarrow> string list \<Rightarrow> stamps \<Rightarrow> stamps" where
  "stamp_class c lt key tags st = st(c \<mapsto> \<lparr>in_key = key, in_lifetime = lt, in_tags = remdups tags\<rparr>)"

definition injectable_decorator ::
  "di_key option \<Rightarrow> lifetime option \<Rightarrow> string list \<Rightarrow> string \<Rightarrow> stamps \<Rightarrow> stamps" where
  "injectable_decorator key lt tags c st = stamp_class c (get_or lt TRANSIENT) key tags st"

definition singleton_decorator where
  "singleton_decorator key tags c st = injectable_decorator key (Some SINGLETON) tags c st"
definition scoped_decorator where
  "scoped_decorator key tags c st = injectable_decorator key (Some SCOPED) tags c st"
definition transient_decorator where
  "transient_decorator key tags c st = injectable_decorator key (Some TRANSIENT) tags c st"

text \<open>\<open>getattr\<close> follows the method resolution order; the scanner asks for the class's own stamp.\<close>

fun get_metadata :: "string list \<Rightarrow> stamps \<Rightarrow> injectable option" where
  "get_metadata [] st = None"
| "get_metadata (c # mro) st = (case st c of Some m \<Rightarrow> Some m | None \<Rightarrow> get_metadata mro st)"

section \<open>Scanning\<close>

text \<open>
  A module is the list of its class members, those it imports too; a submodule may fail to import.
\<close>

record package =
  pk_members :: "string list"
  pk_is_package :: bool
  pk_submodules :: "string list option list"

definition injectable_key :: "string \<Rightarrow> injectable \<Rightarrow> di_key" where
  "injectable_key c m = get_or (in_key m) (KClass c)"

fun walk_module ::
  "(string \<Rightarrow> ('s, 'v) factory) \<Rightarrow> stamps \<Rightarrow> string list
     \<Rightarrow> string list \<times> nat \<times> ('s, 'v) container \<Rightarrow> exn + string list \<times> nat \<times> ('s, 'v) container" where
  "walk_module cls st [] (seen, n, c) = Inr (seen, n, c)"
| "walk_module cls st (k # ks) (seen, n, c) =
     (if k \<in> set seen then walk_module cls st ks (seen, n, c)
      else case st k of
        None \<Rightarrow> walk_module cls st ks (k # seen, n, c)
      | Some m \<Rightarrow>
          (case di_register (injectable_key k m) (ImplCallable (cls k)) (in_lifetime m) (in_tags m) c of
             Inl e \<Rightarrow> Inl e
           | Inr c' \<Rightarrow> walk_module cls st ks (k # seen, n + 1, c')))"

fun walk_packages ::
  "(string \<Rightarrow> ('s, 'v) factory) \<Rightarrow> stamps \<Rightarrow> string list option list
     \<Rightarrow> string list \<times> nat \<times> ('s, 'v) container \<Rightarrow> exn + string list \<times> nat \<times> ('s, 'v) container" where
  "walk_packages cls st [] acc = Inr acc"
| "walk_packages cls st (None # ms) acc = walk_packages cls st ms acc"
| "walk_packages cls st (Some ks # ms) acc =
     (case walk_module cls st ks acc of Inl e \<Rightarrow> Inl e | Inr acc' \<Rightarrow> walk_packages cls st ms acc')"

definition di_scan ::
  "(string \<Rightarrow> ('s, 'v) factory) \<Rightarrow> stamps \<Rightarrow> package \<Rightarrow> bool \<Rightarrow> ('s, 'v) container
     \<Rightarrow> exn + nat \<times> ('s, 'v) container" where
  "di_scan cls st p recursive c =
     (case walk_module cls st (pk_members p) ([], 0, c) of
        Inl e \<Rightarrow> Inl e
      | Inr acc \<Rightarrow>
          (case (if recursive \<and> pk_is_package p then walk_packages cls st (pk_submodules p) acc
                 else Inr acc) of
             Inl e \<Rightarrow> Inl e
           | Inr (seen, n, c') \<Rightarrow> Inr (n, c')))"

section \<open>What a scan registers\<close>

text \<open>The classes in the order the scanner meets them, and the stamped ones of them once each.\<close>

definition scanned_classes :: "package \<Rightarrow> bool \<Rightarrow> string list" where
  "scanned_classes p recursive =
     pk_members p @
     (if recursive \<and> pk_is_package p then concat (map (\<lambda>m. get_or m []) (pk_submodules p)) else [])"

fun first_uses :: "string list \<Rightarrow> string list \<Rightarrow> string list" where
  "first_uses seen [] = []"
| "first_uses seen (k # ks) =
     (if k \<in> set seen then first_uses seen ks else k # first_uses (k # seen) ks)"

definition stamped :: "stamps \<Rightarrow> string list \<Rightarrow> string list" where
  "stamped st ks = filter (\<lambda>k. st k \<noteq> None) ks"

text \<open>The binding a stamped class makes, and the fold of the bindings over the providers.\<close>

definition bind_class ::
  "(string \<Rightarrow> ('s, 'v) factory) \<Rightarrow> stamps \<Rightarrow> string \<Rightarrow> ('s, 'v) container \<Rightarrow> ('s, 'v) container" where
  "bind_class cls st k c =
     (case st k of
        None \<Rightarrow> c
      | Some m \<Rightarrow> c\<lparr>ct_providers := AList.update (injectable_key k m)
          (FactoryProvider (injectable_key k m) (in_lifetime m) (in_tags m) (cls k)) (ct_providers c)\<rparr>)"

lemma register_class:
  "st k = Some m \<Longrightarrow>
   di_register (injectable_key k m) (ImplCallable (cls k)) (in_lifetime m) (in_tags m) c =
     Inr (bind_class cls st k c)"
  by (simp add: di_register_def make_provider_def bind_class_def)

lemma walk_module_spec:
  "walk_module cls st ks (seen, n, c) =
     Inr (rev (first_uses seen ks) @ seen, n + length (stamped st (first_uses seen ks)),
          fold (bind_class cls st) (first_uses seen ks) c)"
proof (induction ks arbitrary: seen n c)
  case Nil
  then show ?case by (simp add: stamped_def)
next
  case (Cons k ks)
  show ?case
  proof (cases "k \<in> set seen")
    case True
    with Cons show ?thesis by simp
  next
    case False
    then show ?thesis
      using Cons.IH [of "k # seen"]
      by (cases "st k") (simp_all add: register_class stamped_def bind_class_def)
  qed
qed

lemma first_uses_append:
  "first_uses seen (ks @ ls) = first_uses seen ks @ first_uses (rev (first_uses seen ks) @ seen) ls"
  by (induction ks arbitrary: seen) simp_all

lemma walk_packages_spec:
  "walk_packages cls st ms (seen, n, c) =
     (let new = first_uses seen (concat (map (\<lambda>m. get_or m []) ms))
      in Inr (rev new @ seen, n + length (stamped st new), fold (bind_class cls st) new c))"
proof (induction ms arbitrary: seen n c)
  case Nil
  then show ?case by (simp add: stamped_def)
next
  case (Cons m ms)
  then show ?case
    by (cases m) (simp_all add: walk_module_spec first_uses_append stamped_def Let_def add.assoc)
qed

lemma scan_spec:
  "di_scan cls st p recursive c =
     (let new = first_uses [] (scanned_classes p recursive)
      in Inr (length (stamped st new), fold (bind_class cls st) new c))"
  by (simp add: di_scan_def walk_module_spec walk_packages_spec scanned_classes_def first_uses_append
      Let_def stamped_def)

lemma set_first_uses: "set (first_uses seen ks) = set ks - set seen"
  by (induction ks arbitrary: seen) auto

lemma distinct_first_uses: "distinct (first_uses seen ks)"
  by (induction ks arbitrary: seen) (simp_all add: set_first_uses)

lemma fold_bind_providers:
  "map_of (ct_providers (fold (bind_class cls st) ks c)) key =
     (case find (\<lambda>k. \<exists>m. st k = Some m \<and> injectable_key k m = key) (rev ks) of
        None \<Rightarrow> map_of (ct_providers c) key
      | Some k \<Rightarrow> map_option (\<lambda>m. FactoryProvider key (in_lifetime m) (in_tags m) (cls k)) (st k))"
proof (induction ks rule: rev_induct)
  case Nil
  then show ?case by simp
next
  case (snoc k ks)
  then show ?case
    by (auto simp: bind_class_def update_conv' split: option.splits)
qed

lemma fold_bind_rest:
  "ct_singletons (fold (bind_class cls st) ks c) = ct_singletons c"
  "ct_overrides (fold (bind_class cls st) ks c) = ct_overrides c"
  by (induction ks arbitrary: c) (auto simp: bind_class_def split: option.split)

text \<open>Scanning a package cannot fail. It counts every class once that has a stamp of its own, however
  many modules show it, binds each key to the last such class that declares it, with the lifetime and
  tags of its stamp, and leaves every other registration, every override and every cached singleton.\<close>

theorem scan_registers:
  "let new = first_uses [] (scanned_classes p recursive)
   in \<exists>c'. di_scan cls st p recursive c = Inr (card {k \<in> set (scanned_classes p recursive). st k \<noteq> None}, c') \<and>
      (\<forall>key. map_of (ct_providers c') key =
        (case find (\<lambda>k. \<exists>m. st k = Some m \<and> injectable_key k m = key) (rev new) of
           None \<Rightarrow> map_of (ct_providers c) key
         | Some k \<Rightarrow> map_option (\<lambda>m. FactoryProvider key (in_lifetime m) (in_tags m) (cls k)) (st k))) \<and>
      ct_singletons c' = ct_singletons c \<and> ct_overrides c' = ct_overrides c"
proof -
  let ?new = "first_uses [] (scanned_classes p recursive)"
  have "length (stamped st ?new) = card (set (stamped st ?new))"
    by (rule distinct_card [symmetric]) (simp add: stamped_def distinct_first_uses)
  also have "set (stamped st ?new) = {k \<in> set (scanned_classes p recursive). st k \<noteq> None}"
    by (auto simp: stamped_def set_first_uses)
  finally show ?thesis
    by (simp add: scan_spec Let_def fold_bind_providers fold_bind_rest)
qed

lemma scan_again:
  assumes "di_scan cls st p recursive c = Inr (n, c')"
  shows "\<exists>c''. di_scan cls st p recursive c' = Inr (n, c'') \<and>
    (\<forall>key. map_of (ct_providers c'') key = map_of (ct_providers c') key)"
  using assms by (auto simp: scan_spec Let_def fold_bind_providers split: option.split)

section \<open>Synchronous resolution\<close>

text \<open>
  \<open>get_type_hints\<close> of a constructor or factory function: its parameters and its return type in
  order, \<open>None\<close> when it raises. The type of \<open>None\<close> is a class like any other to the walk through
  a class nobody registered.
\<close>

datatype hint = HintContainer | HintScope | HintNone | HintKey di_key

type_synonym ('s, 'v) hints = "('s, 'v) factory \<Rightarrow> hint list option"

fun init_deps :: "hint list \<Rightarrow> di_key list" where
  "init_deps [] = []"
| "init_deps (HintKey k # hs) = k # init_deps hs"
| "init_deps (HintNone # hs) = KClass ''NoneType'' # init_deps hs"
| "init_deps (h # hs) = init_deps hs"

fun provider_deps :: "hint list \<Rightarrow> di_key list" where
  "provider_deps [] = []"
| "provider_deps (HintKey k # hs) = k # provider_deps hs"
| "provider_deps (h # hs) = provider_deps hs"

text \<open>The keys the walk goes to from a key.\<close>

definition sync_deps ::
  "('s, 'v) di_env \<Rightarrow> ('s, 'v) hints \<Rightarrow> ('s, 'v) chain \<Rightarrow> di_key \<Rightarrow> di_key list" where
  "sync_deps env hints chain key =
     (case find_provider_with_owner chain key of
        None \<Rightarrow>
          (case key of
             KName n \<Rightarrow> []
           | KClass c \<Rightarrow> (case hints (env_class env c) of None \<Rightarrow> [] | Some hs \<Rightarrow> init_deps hs))
      | Some (FactoryProvider k l t f, owner) \<Rightarrow>
          (case hints f of None \<Rightarrow> [] | Some hs \<Rightarrow> provider_deps hs)
      | Some (InstanceProvider k l t v, owner) \<Rightarrow> [])"

definition async_key :: "('s, 'v) chain \<Rightarrow> di_key \<Rightarrow> bool" where
  "async_key chain key =
     (case find_provider_with_owner chain key of None \<Rightarrow> False | Some (p, owner) \<Rightarrow> is_async_provider p)"

fun sync_fold ::
  "(di_key \<Rightarrow> di_key list \<Rightarrow> di_key list outcome) \<Rightarrow> di_key list \<Rightarrow> di_key list \<Rightarrow> di_key list outcome" where
  "sync_fold rec [] V = Ret V"
| "sync_fold rec (k # ks) V = (case rec k V of Ret V' \<Rightarrow> sync_fold rec ks V' | oc \<Rightarrow> oc)"

fun check_sync_resolvable ::
  "('s, 'v) di_env \<Rightarrow> ('s, 'v) hints \<Rightarrow> ('s, 'v) chain \<Rightarrow> nat \<Rightarrow> di_key \<Rightarrow> di_key list
     \<Rightarrow> di_key list outcome" where
  "check_sync_resolvable env hints chain 0 key V = OutOfFuel"
| "check_sync_resolvable env hints chain (Suc n) key V =
     (if key \<in> set V then Ret V
      else if async_key chain key
      then Raise (resolution_error ''resolve_sync cannot resolve: provider is async'')
      else sync_fold (check_sync_resolvable env hints chain n) (sync_deps env hints chain key) (key # V))"

text \<open>
  The coroutine is driven once. If it waits for a lock it is closed, which lets go of the locks it
  had taken, and the caller gets an error. A factory the walk has let through does not suspend.
\<close>

definition close_coroutine :: "('s, 'v) di_state \<Rightarrow> ('s, 'v) di_state \<Rightarrow> ('s, 'v) di_state" where
  "close_coroutine st st' =
     st'\<lparr>ds_chain := map (\<lambda>(c, c'). c'\<lparr>ct_locked := ct_locked c\<rparr>) (zip (ds_chain st) (ds_chain st'))\<rparr>"

definition resolve_sync ::
  "('s, 'v) di_env \<Rightarrow> ('s, 'v) hints \<Rightarrow> nat \<Rightarrow> nat \<Rightarrow> di_key \<Rightarrow> bool \<Rightarrow> ('s, 'v) di_state
     \<Rightarrow> 'v option outcome \<times> ('s, 'v) di_state" where
  "resolve_sync env hints m n key sc st =
     (case check_sync_resolvable env hints (ds_chain st) m key [] of
        Ret V \<Rightarrow>
          (case di_resolve env n key sc st of
             (Deadlock, st') \<Rightarrow>
               (Raise (resolution_error ''resolve_sync cannot resolve: graph contains async providers''),
                close_coroutine st st')
           | (oc, st') \<Rightarrow> (oc, st'))
      | oc \<Rightarrow> (outcome_cast oc, st))"

section \<open>What the walk finds\<close>

text \<open>The keys that the type hints lead to from a key.\<close>

inductive sync_reach ::
  "('s, 'v) di_env \<Rightarrow> ('s, 'v) hints \<Rightarrow> ('s, 'v) chain \<Rightarrow> di_key \<Rightarrow> di_key \<Rightarrow> bool"
  for env hints chain where
  reach_refl: "sync_reach env hints chain key key"
| reach_step: "d \<in> set (sync_deps env hints chain key) \<Longrightarrow> sync_reach env hints chain d k
     \<Longrightarrow> sync_reach env hints chain key k"

text \<open>A walk that returns: everything it added is synchronous and its hints lead to visited keys.\<close>

definition walked ::
  "('s, 'v) di_env \<Rightarrow> ('s, 'v) hints \<Rightarrow> ('s, 'v) chain \<Rightarrow> di_key list \<Rightarrow> di_key list \<Rightarrow> bool" where
  "walked env hints chain V V' \<longleftrightarrow>
     set V \<subseteq> set V' \<and>
     (\<forall>k \<in> set V' - set V. \<not> async_key chain k \<and> set (sync_deps env hints chain k) \<subseteq> set V')"

lemma walked_trans: "walked env hints chain V V' \<Longrightarrow> walked env hints chain V' V'' \<Longrightarrow> walked env hints chain V V''"
  unfolding walked_def by blast

lemma sync_fold_walked:
  assumes "\<And>k V V'. rec k V = Ret V' \<Longrightarrow> walked env hints chain V V' \<and> k \<in> set V'"
    and "sync_fold rec ks V = Ret V'"
  shows "walked env hints chain V V' \<and> set ks \<subseteq> set V'"
  using assms(2)
proof (induction ks arbitrary: V)
  case Nil
  then show ?case by (simp add: walked_def)
next
  case (Cons k ks)
  then obtain V1 where 1: "rec k V = Ret V1" and 2: "sync_fold rec ks V1 = Ret V'"
    by (auto split: outcome.splits)
  note k = assms(1) [OF 1] and ks = Cons.IH [OF 2]
  then have "walked env hints chain V V'" using walked_trans by blast
  moreover have "set V1 \<subseteq> set V'" using ks by (simp add: walked_def)
  ultimately show ?case using k ks by auto
qed

lemma check_walked:
  "check_sync_resolvable env hints chain n key V = Ret V' \<Longrightarrow> walked env hints chain V V' \<and> key \<in> set V'"
proof (induction n arbitrary: key V V')
  case 0
  then show ?case by simp
next
  case (Suc n)
  show ?case
  proof (cases "key \<in> set V")
    case True
    with Suc.prems show ?thesis by (auto simp: walked_def)
  next
    case False
    with Suc.prems have a: "\<not> async_key chain key"
      and f: "sync_fold (check_sync_resolvable env hints chain n) (sync_deps env hints chain key) (key # V) = Ret V'"
      by (auto split: if_splits)
    have "walked env hints chain (key # V) V' \<and> set (sync_deps env hints chain key) \<subseteq> set V'"
      by (rule sync_fold_walked [OF _ f]) (rule Suc.IH)
    with a show ?thesis by (auto simp: walked_def)
  qed
qed

lemma sync_fold_raise:
  "sync_fold rec ks V = Raise e \<Longrightarrow> \<exists>k V'. k \<in> set ks \<and> rec k V' = Raise e"
proof (induction ks arbitrary: V)
  case (Cons k ks)
  then show ?case by (cases "rec k V") fastforce+
qed simp

lemma check_raise:
  "check_sync_resolvable env hints chain n key V = Raise e \<Longrightarrow>
     \<exists>k. sync_reach env hints chain key k \<and> async_key chain k"
proof (induction n arbitrary: key V)
  case 0
  then show ?case by simp
next
  case (Suc n)
  show ?case
  proof (cases "async_key chain key")
    case True
    then show ?thesis using reach_refl by blast
  next
    case False
    with Suc.prems obtain d V' where d: "d \<in> set (sync_deps env hints chain key)"
      and r: "check_sync_resolvable env hints chain n d V' = Raise e"
      using sync_fold_raise by (auto split: if_splits) blast
    from Suc.IH [OF r] reach_step [OF d] show ?thesis by blast
  qed
qed

text \<open>The fuel: a set of keys that the hints do not lead out of.\<close>

definition hint_closed ::
  "('s, 'v) di_env \<Rightarrow> ('s, 'v) hints \<Rightarrow> ('s, 'v) chain \<Rightarrow> di_key set \<Rightarrow> bool" where
  "hint_closed env hints chain K \<longleftrightarrow> finite K \<and> (\<forall>k \<in> K. set (sync_deps env hints chain k) \<subseteq> K)"

lemma sync_fold_fuel:
  assumes "\<And>k V'. k \<in> set ks \<Longrightarrow> set V \<subseteq> set V' \<Longrightarrow>
      rec k V' \<noteq> OutOfFuel \<and> rec k V' \<noteq> Deadlock \<and> (\<forall>V''. rec k V' = Ret V'' \<longrightarrow> set V' \<subseteq> set V'')"
  shows "sync_fold rec ks V \<noteq> OutOfFuel \<and> sync_fold rec ks V \<noteq> Deadlock"
  using assms
proof (induction ks arbitrary: V)
  case Nil
  then show ?case by simp
next
  case (Cons k ks)
  have k: "rec k V \<noteq> OutOfFuel" "rec k V \<noteq> Deadlock" using Cons.prems [of k V] by auto
  show ?case
  proof (cases "rec k V")
    case (Ret V1)
    then have sub: "set V \<subseteq> set V1" using Cons.prems [of k V] by auto
    have "sync_fold rec ks V1 \<noteq> OutOfFuel \<and> sync_fold rec ks V1 \<noteq> Deadlock"
      by (rule Cons.IH) (use Cons.prems sub in \<open>meson list.set_intros(2) subset_trans\<close>)
    with Ret show ?thesis by simp
  qed (use k in auto)
qed

lemma sync_enough_fuel:
  assumes K: "hint_closed env hints chain K"
  shows "key \<in> K \<Longrightarrow> card (K - set V) < n \<Longrightarrow>
    check_sync_resolvable env hints chain n key V \<noteq> OutOfFuel \<and>
    check_sync_resolvable env hints chain n key V \<noteq> Deadlock"
proof (induction n arbitrary: key V)
  case 0
  then show ?case by simp
next
  case (Suc n)
  show ?case
  proof (cases "key \<in> set V \<or> async_key chain key")
    case True
    then show ?thesis by auto
  next
    case False
    let ?rec = "check_sync_resolvable env hints chain n"
    have fin: "finite K" and deps: "set (sync_deps env hints chain key) \<subseteq> K"
      using K Suc.prems(1) by (auto simp: hint_closed_def)
    have "sync_fold ?rec (sync_deps env hints chain key) (key # V) \<noteq> OutOfFuel \<and>
      sync_fold ?rec (sync_deps env hints chain key) (key # V) \<noteq> Deadlock"
    proof (rule sync_fold_fuel)
      fix k V' assume k: "k \<in> set (sync_deps env hints chain key)" and V': "set (key # V) \<subseteq> set V'"
      have "K - set V' \<subseteq> (K - set V) - {key}" using V' by auto
      then have "card (K - set V') \<le> card ((K - set V) - {key})" using fin by (intro card_mono) auto
      also have "\<dots> < card (K - set V)" using fin Suc.prems(1) False by (intro card_Diff1_less) auto
      finally have "card (K - set V') < n" using Suc.prems(2) by simp
      with Suc.IH k deps have "?rec k V' \<noteq> OutOfFuel \<and> ?rec k V' \<noteq> Deadlock" by blast
      then show "?rec k V' \<noteq> OutOfFuel \<and> ?rec k V' \<noteq> Deadlock \<and> (\<forall>V''. ?rec k V' = Ret V'' \<longrightarrow> set V' \<subseteq> set V'')"
        using check_walked [of env hints chain n k V'] by (auto simp: walked_def)
    qed
    with False show ?thesis by simp
  qed
qed

lemma walked_reach:
  assumes w: "walked env hints chain [] V"
  shows "sync_reach env hints chain key k \<Longrightarrow> key \<in> set V \<Longrightarrow> \<not> async_key chain k"
proof (induction rule: sync_reach.induct)
  case (reach_refl key)
  then show ?case using w by (auto simp: walked_def)
next
  case (reach_step d key k)
  then show ?case using w by (auto simp: walked_def)
qed


text \<open>A service that needs a pool whose factory is a coroutine function.\<close>

definition demo_sync_factory :: "bool \<Rightarrow> param list \<Rightarrow> (unit, string) factory" where
  "demo_sync_factory coro ps = \<lparr>fa_sig = Some ps, fa_async = coro, fa_call = (\<lambda>args s. (Inr (Some ''x''), s))\<rparr>"

definition demo_sync_chain :: "(unit, string) chain" where
  "demo_sync_chain =
     [(container_new ''root'')\<lparr>ct_providers :=
        [(KClass ''Service'', FactoryProvider (KClass ''Service'') TRANSIENT []
            (demo_sync_factory False [\<lparr>pa_name = ''pool'', pa_annot = AKey (KClass ''Pool''), pa_default = False, pa_variadic = False\<rparr>])),
         (KClass ''Pool'', FactoryProvider (KClass ''Pool'') SINGLETON [] (demo_sync_factory True []))]\<rparr>]"

definition demo_hints :: "(unit, string) hints" where
  "demo_hints f = map_option (\<lambda>ps. concat (map (\<lambda>p. case pa_annot p of AKey k \<Rightarrow> [HintKey k] | _ \<Rightarrow> []) ps)) (fa_sig f)"


end
