(* ===== verification/Qx_Cli.thy ===== *)
theory Qx_Cli
  imports Qx_Projections
begin

text \<open>
  The package \<open>qx-cli\<close>: the naming conversions and the rendering of template trees
  (\<open>templates\<close>), the commands \<open>new\<close> and \<open>generate\<close> that use them, the commands on projection
  checkpoints (\<open>projections\<close>) and the checks of \<open>doctor\<close>. Jinja2, the file system outside the
  written files, the shell and the network are arguments. The command \<open>dlq\<close> is in \<open>Qx_Worker\<close>.
\<close>

section \<open>Names\<close>

definition is_upper :: "char \<Rightarrow> bool" where
  "is_upper c \<longleftrightarrow> (let n = of_char c :: nat in 65 \<le> n \<and> n \<le> 90)"

definition is_lower :: "char \<Rightarrow> bool" where
  "is_lower c \<longleftrightarrow> (let n = of_char c :: nat in 97 \<le> n \<and> n \<le> 122)"

definition is_digit :: "char \<Rightarrow> bool" where
  "is_digit c \<longleftrightarrow> (let n = of_char c :: nat in 48 \<le> n \<and> n \<le> 57)"

definition upper_char :: "char \<Rightarrow> char" where
  "upper_char c = (if is_lower c then char_of (of_char c - 32 :: nat) else c)"

definition is_separator :: "char \<Rightarrow> bool" where
  "is_separator c \<longleftrightarrow> is_space c \<or> c = CHR ''-''"

text \<open>\<open>re.sub(r"[\s\-]+", "_", s)\<close>.\<close>

function squeeze :: "string \<Rightarrow> string" where
  "squeeze [] = []"
| "squeeze (c # s) =
     (if is_separator c then CHR ''_'' # squeeze (dropWhile is_separator s) else c # squeeze s)"
  by pat_completeness auto
termination
  by (relation "measure length") (auto simp: le_imp_less_Suc length_dropWhile_le)

text \<open>\<open>re.sub(r"(.)([A-Z][a-z]+)", r"\1_\2", s)\<close>: matches do not overlap, and \<open>.\<close> is no newline.\<close>

function split_words :: "string \<Rightarrow> string" where
  "split_words (c # u # l # s) =
     (if c \<noteq> CHR 10 \<and> is_upper u \<and> is_lower l
      then c # CHR ''_'' # u # l # takeWhile is_lower s @ split_words (dropWhile is_lower s)
      else c # split_words (u # l # s))"
| "split_words [] = []"
| "split_words [c] = [c]"
| "split_words [c, u] = [c, u]"
  by pat_completeness auto
termination
  by (relation "measure length") (auto simp: le_imp_less_Suc length_dropWhile_le less_Suc_eq_le le_SucI)

text \<open>\<open>re.sub(r"([a-z0-9])([A-Z])", r"\1_\2", s)\<close>.\<close>

fun split_humps :: "string \<Rightarrow> string" where
  "split_humps (c # u # s) =
     (if (is_lower c \<or> is_digit c) \<and> is_upper u then c # CHR ''_'' # u # split_humps s
      else c # split_humps (u # s))"
| "split_humps s = s"

definition snake_case :: "string \<Rightarrow> string" where
  "snake_case s = py_lower (split_humps (split_words (squeeze (py_strip s))))"

text \<open>\<open>qx new\<close> has conversions of its own, without the rule for capitals in a row.\<close>

definition new_snake :: "string \<Rightarrow> string" where
  "new_snake s = py_lower (split_humps (squeeze (py_strip s)))"

fun split_on :: "char \<Rightarrow> string \<Rightarrow> string list" where
  "split_on d [] = [[]]"
| "split_on d (c # s) =
     (if c = d then [] # split_on d s
      else case split_on d s of [] \<Rightarrow> [[c]] | w # ws \<Rightarrow> (c # w) # ws)"

definition capitalize :: "string \<Rightarrow> string" where
  "capitalize s = (case s of [] \<Rightarrow> [] | c # cs \<Rightarrow> upper_char c # py_lower cs)"

definition replace_char :: "char \<Rightarrow> char \<Rightarrow> string \<Rightarrow> string" where
  "replace_char a b s = map (\<lambda>c. if c = a then b else c) s"

definition pascal_case :: "string \<Rightarrow> string" where
  "pascal_case s = concat (map capitalize (split_on CHR ''_'' (snake_case s)))"

definition kebab_case :: "string \<Rightarrow> string" where
  "kebab_case s = replace_char CHR ''_'' CHR ''-'' (snake_case s)"

definition new_pascal :: "string \<Rightarrow> string" where
  "new_pascal s = concat (map capitalize (split_on CHR ''_'' (new_snake s)))"

definition new_kebab :: "string \<Rightarrow> string" where
  "new_kebab s = replace_char CHR ''_'' CHR ''-'' (new_snake s)"

definition parse_slice :: "string \<Rightarrow> exn + string \<times> string" where
  "parse_slice name =
     (let slice = takeWhile (\<lambda>c. c \<noteq> CHR ''/'') name; rest = drop (length slice + 1) name
      in if CHR ''/'' \<notin> set name \<or> slice = [] \<or> rest = []
         then Inl (PyException ''BadParameter'' (''Invalid format '' @ name))
         else Inr (slice, rest))"

section \<open>Template paths\<close>

definition is_word :: "char \<Rightarrow> bool" where
  "is_word c \<longleftrightarrow> is_upper c \<or> is_lower c \<or> is_digit c \<or> c = CHR ''_''"

text \<open>The group of \<open>__([a-zA-Z_][a-zA-Z0-9_]*)__\<close> after the two leading underscores is as long as the
  two closing ones allow; \<open>longest_key run\<close> is that length in a run of word characters.\<close>

definition closes_at :: "string \<Rightarrow> nat \<Rightarrow> bool" where
  "closes_at run n \<longleftrightarrow> n \<ge> 1 \<and> n + 1 < length run \<and> run ! n = CHR ''_'' \<and> run ! (n + 1) = CHR ''_''"

definition longest_key :: "string \<Rightarrow> nat option" where
  "longest_key run =
     (if run = [] \<or> is_digit (hd run) then None else find (closes_at run) (rev [1..<length run]))"

function substitute_path :: "(string \<Rightarrow> string option) \<Rightarrow> string \<Rightarrow> string" where
  "substitute_path ctx (a # b # s) =
     (if a = CHR ''_'' \<and> b = CHR ''_'' then
        (case longest_key (takeWhile is_word s) of
           None \<Rightarrow> a # substitute_path ctx (b # s)
         | Some n \<Rightarrow>
             get_or (ctx (take n s)) (''__'' @ take n s @ ''__'') @ substitute_path ctx (drop (n + 2) s))
      else a # substitute_path ctx (b # s))"
| "substitute_path ctx [] = []"
| "substitute_path ctx [a] = [a]"
  by pat_completeness auto
termination
  by (relation "measure (\<lambda>(ctx, s). length s)") auto

section \<open>Rendering a tree\<close>

datatype template_node = TemplateFile "exn + string" | TemplateDir "(string \<times> template_node) list"

fun walk_node :: "string \<Rightarrow> template_node \<Rightarrow> exn + (string \<times> string) list"
  and walk_children :: "string \<Rightarrow> (string \<times> template_node) list \<Rightarrow> exn + (string \<times> string) list" where
  "walk_node rel (TemplateFile (Inl e)) = Inl e"
| "walk_node rel (TemplateFile (Inr text)) = Inr [(rel, text)]"
| "walk_node rel (TemplateDir children) = walk_children rel children"
| "walk_children rel [] = Inr []"
| "walk_children rel ((name, x) # xs) =
     (case walk_node (if rel = [] then name else rel @ ''/'' @ name) x of
        Inl e \<Rightarrow> Inl e
      | Inr here \<Rightarrow>
          (case walk_children rel xs of Inl e \<Rightarrow> Inl e | Inr others \<Rightarrow> Inr (here @ others)))"

type_synonym files = "string \<rightharpoonup> string"

definition base_name :: "string \<Rightarrow> string" where
  "base_name rel = snd (py_rpartition CHR ''/'' rel)"

definition output_path :: "(string \<Rightarrow> string option) \<Rightarrow> string \<Rightarrow> string" where
  "output_path ctx rel =
     (let out = substitute_path ctx rel in if py_endswith out ''.j2'' then take (length out - 3) out else out)"

text \<open>\<open>render\<close> is Jinja2 on a text with the context, \<open>mkdir\<close> the creation of the parent directory.\<close>

fun render_entries ::
  "(string \<Rightarrow> exn + string) \<Rightarrow> (string \<Rightarrow> files \<Rightarrow> exn option) \<Rightarrow> (string \<Rightarrow> string option) \<Rightarrow> bool
     \<Rightarrow> (string \<times> string) list \<Rightarrow> string list \<Rightarrow> (files, string list) eff" where
  "render_entries render mkdir ctx overwrite [] written fs = (Inr written, fs)"
| "render_entries render mkdir ctx overwrite ((rel, text) # es) written fs =
     (if base_name rel = ''__init__.py'' \<and> py_strip text = []
      then render_entries render mkdir ctx overwrite es written fs
      else let out = output_path ctx rel in
        case mkdir out fs of
          Some e \<Rightarrow> (Inl e, fs)
        | None \<Rightarrow>
            (if fs out \<noteq> None \<and> \<not> overwrite
             then render_entries render mkdir ctx overwrite es written fs
             else case render text of
               Inl e \<Rightarrow> (Inl e, fs)
             | Inr rendered \<Rightarrow>
                 render_entries render mkdir ctx overwrite es (written @ [out]) (fs(out \<mapsto> rendered))))"

definition render_tree ::
  "(string \<Rightarrow> exn + string) \<Rightarrow> (string \<Rightarrow> files \<Rightarrow> exn option) \<Rightarrow> template_node
     \<Rightarrow> (string \<Rightarrow> string option) \<Rightarrow> bool \<Rightarrow> (files, string list) eff" where
  "render_tree render mkdir tree ctx overwrite =
     ebind (elift (walk_node [] tree)) (\<lambda>entries. render_entries render mkdir ctx overwrite entries [])"

section \<open>Commands that generate\<close>

type_synonym template_vars = "(string \<times> json) list"

text \<open>\<open>str(context[key])\<close>; \<open>str_of\<close> is for what is no text.\<close>

definition context_text :: "(json \<Rightarrow> string) \<Rightarrow> template_vars \<Rightarrow> string \<Rightarrow> string option" where
  "context_text str_of ctx key =
     (case map_of ctx key of None \<Rightarrow> None | Some (JStr s) \<Rightarrow> Some s | Some j \<Rightarrow> Some (str_of j))"

definition artifact_names :: "string \<Rightarrow> string \<Rightarrow> template_vars" where
  "artifact_names name pkg =
     [(''name_pascal'', JStr (pascal_case name)), (''name_snake'', JStr (snake_case name)),
      (''name_kebab'', JStr (kebab_case name)), (''name_upper'', JStr (map upper_char (snake_case name))),
      (''service_pkg'', JStr pkg)]"

definition slice_names :: "string \<Rightarrow> template_vars" where
  "slice_names name =
     [(''slice_name_snake'', JStr (snake_case name)), (''slice_name_pascal'', JStr (pascal_case name)),
      (''slice_name_kebab'', JStr (kebab_case name))]"

text \<open>
  A directory on the way up: its \<open>pyproject.toml\<close> (\<open>None\<close> if there is none, else the project name,
  empty if there is none, or what parsing raises) and the packages \<open>src/pkg\<close> and \<open>pkg\<close> in it.
\<close>

record directory =
  dr_path :: string
  dr_project :: "(exn + string) option"
  dr_packages :: "string list"

fun service_package :: "directory list \<Rightarrow> exn + string \<times> string" where
  "service_package [] =
     Inl (PyException ''BadParameter'' ''Could not locate a qx service from current directory.'')"
| "service_package (d # ds) =
     (case dr_project d of
        Some (Inr name) \<Rightarrow>
          (let pkg = replace_char CHR ''-'' CHR ''_'' name
           in if name \<noteq> [] \<and> (''src/'' @ pkg \<in> set (dr_packages d) \<or> pkg \<in> set (dr_packages d))
              then Inr (dr_path d, pkg) else service_package ds)
      | _ \<Rightarrow> service_package ds)"

text \<open>What the commands share: the template trees and how a tree is rendered below a directory.\<close>

record ('s) generator =
  ge_dirs :: "directory list"
  ge_render :: "string \<Rightarrow> string \<Rightarrow> template_vars \<Rightarrow> bool \<Rightarrow> ('s, string list) eff"

definition generate_plain :: "'s generator \<Rightarrow> string \<Rightarrow> string \<Rightarrow> bool \<Rightarrow> ('s, string list) eff" where
  "generate_plain G template name force =
     ebind (elift (service_package (ge_dirs G))) (\<lambda>(root, pkg).
       ge_render G template root (artifact_names name pkg) force)"

definition generate_esaggregate where
  "generate_esaggregate G name force = generate_plain G ''esaggregate'' name force"
definition generate_event where
  "generate_event G name force = generate_plain G ''event'' name force"

definition generate_aggregate ::
  "'s generator \<Rightarrow> string \<Rightarrow> string \<Rightarrow> string \<Rightarrow> bool \<Rightarrow> ('s, string list) eff" where
  "generate_aggregate G token now name force =
     ebind (elift (service_package (ge_dirs G))) (\<lambda>(root, pkg).
       ge_render G ''aggregate'' root
         (artifact_names name pkg @
          [(''revision_id'', JStr token), (''create_date'', JStr now),
           (''migration_name'', JStr (''create_'' @ snake_case name))]) force)"

definition generate_sliced ::
  "'s generator \<Rightarrow> string \<Rightarrow> template_vars \<Rightarrow> string \<Rightarrow> bool \<Rightarrow> ('s, string list) eff" where
  "generate_sliced G template layered name force =
     ebind (elift (service_package (ge_dirs G))) (\<lambda>(root, pkg).
       if CHR ''/'' \<in> set name
       then ebind (elift (parse_slice name)) (\<lambda>(slice, artifact).
              ge_render G (template @ ''_vs'') root (artifact_names artifact pkg @ slice_names slice) force)
       else ge_render G template root (artifact_names name pkg @ layered) force)"

text \<open>The names of the \<open>--aggregate\<close> option carry the package too.\<close>

definition generate_command :: "'s generator \<Rightarrow> string \<Rightarrow> string \<Rightarrow> bool \<Rightarrow> ('s, string list) eff" where
  "generate_command G name aggregate_for force =
     ebind (elift (service_package (ge_dirs G))) (\<lambda>(root, pkg).
       generate_sliced G ''command''
         [(''aggregate'', if aggregate_for = [] then JNull else JObj (artifact_names aggregate_for pkg))]
         name force)"

definition generate_query :: "'s generator \<Rightarrow> string \<Rightarrow> bool \<Rightarrow> ('s, string list) eff" where
  "generate_query G name force = generate_sliced G ''query'' [] name force"

definition generate_endpoint ::
  "'s generator \<Rightarrow> string \<Rightarrow> string \<Rightarrow> string \<Rightarrow> bool \<Rightarrow> ('s, string list) eff" where
  "generate_endpoint G path verb handler force =
     ebind (elift (service_package (ge_dirs G))) (\<lambda>(root, pkg).
       ge_render G ''endpoint'' root
         (artifact_names handler pkg @
          [(''endpoint_path'', JStr path), (''endpoint_method'', JStr (map upper_char verb)),
           (''endpoint_method_lower'', JStr (py_lower verb))]) force)"

definition generate_slice :: "'s generator \<Rightarrow> string \<Rightarrow> bool \<Rightarrow> ('s, string list) eff" where
  "generate_slice G name force =
     ebind (elift (service_package (ge_dirs G))) (\<lambda>(root, pkg).
       let sn = snake_case name
       in ge_render G ''slice'' root
            (slice_names name @
             [(''service_pkg'', JStr pkg), (''create_slice_name_snake'', JStr (''create_'' @ sn)),
              (''update_slice_name_snake'', JStr (''update_'' @ sn)),
              (''delete_slice_name_snake'', JStr (''delete_'' @ sn)),
              (''get_slice_name_snake'', JStr (''get_'' @ sn)),
              (''list_slice_name_snakes'', JStr (''list_'' @ sn @ ''s''))]) force)"

text \<open>\<open>qx new\<close>: \<open>occupied\<close> says whether the destination exists and holds anything.\<close>

definition new_context :: "string \<Rightarrow> bool \<Rightarrow> string \<Rightarrow> template_vars" where
  "new_context name slices domain =
     [(''service_name'', JStr name), (''service_pkg'', JStr (new_snake name)),
      (''service_pascal'', JStr (new_pascal name)), (''service_kebab'', JStr (new_kebab name)),
      (''service_pkg_path'', JStr (replace_char CHR ''_'' CHR ''/'' (new_snake name)))] @
     (if slices then
        (let d = (if domain \<noteq> [] then new_snake domain else new_snake name)
         in [(''domain_snake'', JStr d), (''domain_pascal'', JStr (new_pascal d)),
             (''domain_kebab'', JStr (new_kebab d))])
      else [])"

definition new_service ::
  "(string \<Rightarrow> 's \<Rightarrow> bool) \<Rightarrow> (string \<Rightarrow> string \<Rightarrow> template_vars \<Rightarrow> bool \<Rightarrow> ('s, string list) eff)
     \<Rightarrow> string \<Rightarrow> string \<Rightarrow> bool \<Rightarrow> bool \<Rightarrow> string \<Rightarrow> ('s, string list) eff" where
  "new_service occupied render target name force slices domain s =
     (let dest = target @ ''/'' @ new_kebab name
      in if occupied dest s \<and> \<not> force then (Inl (PyException ''Exit'' ''1''), s)
         else render (if slices then ''service_vs'' else ''service'') dest (new_context name slices domain) force s)"

section \<open>What the conversions give\<close>

lemma lower_char_dash: "lower_char c = CHR ''-'' \<longleftrightarrow> c = CHR ''-''"
  by (auto simp: lower_char_def Let_def dest!: arg_cong [where f = "of_char :: char \<Rightarrow> nat"])

lemma lower_char_class [simp]:
  "\<not> is_upper (lower_char c)" "is_separator (lower_char c) \<longleftrightarrow> is_separator c"
proof -
  show "\<not> is_upper (lower_char c)" by (auto simp: is_upper_def lower_char_def Let_def)
  show "is_separator (lower_char c) \<longleftrightarrow> is_separator c" by (simp add: is_separator_def lower_char_dash)
qed

lemma squeeze_no_separator: "c \<in> set (squeeze s) \<Longrightarrow> \<not> is_separator c"
  by (induction s rule: squeeze.induct) (auto simp: is_separator_def is_space_def split: if_splits)

lemma split_words_set: "set (split_words s) \<subseteq> insert CHR ''_'' (set s)"
proof (induction s rule: split_words.induct)
  case (1 c u l s)
  then show ?case by (auto dest!: set_takeWhileD subsetD [OF 1(1)] set_dropWhileD)
qed auto

lemma split_humps_set: "set (split_humps s) \<subseteq> insert CHR ''_'' (set s)"
  by (induction s rule: split_humps.induct) auto

definition plain_name :: "string \<Rightarrow> bool" where
  "plain_name s \<longleftrightarrow> list_all (\<lambda>c. \<not> is_separator c \<and> \<not> is_upper c) s"

lemma plain_lower:
  assumes "\<And>c. c \<in> set s \<Longrightarrow> \<not> is_separator c"
  shows "plain_name (py_lower s)"
  using assms by (auto simp: plain_name_def list_all_iff py_lower_def)

lemma snake_plain: "plain_name (snake_case s)" "plain_name (new_snake s)"
proof -
  have u: "\<not> is_separator CHR ''_''" by (simp add: is_separator_def is_space_def)
  show "plain_name (snake_case s)" unfolding snake_case_def
    using subsetD [OF split_humps_set] subsetD [OF split_words_set] squeeze_no_separator u
    by (intro plain_lower) blast
  show "plain_name (new_snake s)" unfolding new_snake_def
    using subsetD [OF split_humps_set] squeeze_no_separator u by (intro plain_lower) blast
qed

lemma dropWhile_none: "list_all (\<lambda>c. \<not> P c) s \<Longrightarrow> dropWhile P s = s"
  by (cases s) auto

lemma plain_keeps:
  assumes "plain_name s"
  shows "py_strip s = s" "squeeze s = s" "split_words s = s" "split_humps s = s" "py_lower s = s"
proof -
  have sp: "list_all (\<lambda>c. \<not> is_space c) s" and up: "list_all (\<lambda>c. \<not> is_upper c) s"
    and se: "list_all (\<lambda>c. \<not> is_separator c) s"
    using assms by (auto simp: plain_name_def list_all_iff is_separator_def)
  show "py_strip s = s" using sp by (simp add: py_strip_def dropWhile_none)
  show "squeeze s = s" using se by (induction s) auto
  show "split_words s = s" using up by (induction s rule: split_words.induct) auto
  show "split_humps s = s" using up by (induction s rule: split_humps.induct) auto
  have "lower_char c = c" if "\<not> is_upper c" for c
    using that by (auto simp: lower_char_def is_upper_def Let_def)
  with up show "py_lower s = s" by (simp add: py_lower_def list_all_iff map_idI)
qed

text \<open>Converting a converted name changes nothing.\<close>

lemma snake_idempotent: "snake_case (snake_case s) = snake_case s" "new_snake (new_snake s) = new_snake s"
  using plain_keeps [OF snake_plain(1) [of s]] plain_keeps [OF snake_plain(2) [of s]]
  by (simp_all add: snake_case_def [of "snake_case s"] new_snake_def [of "new_snake s"])

lemma kebab_back: "plain_name t \<Longrightarrow> replace_char CHR ''-'' CHR ''_'' (replace_char CHR ''_'' CHR ''-'' t) = t"
  by (induction t) (auto simp: replace_char_def plain_name_def is_separator_def)

text \<open>The package that \<open>generate\<close> infers from the project name that \<open>new\<close> wrote is the package that
  \<open>new\<close> created, for any service name.\<close>

theorem new_package_found:
  "service_package (\<lparr>dr_path = dir, dr_project = Some (Inr (new_kebab name)),
       dr_packages = [''src/'' @ new_snake name]\<rparr> # up) =
     (if new_snake name = [] then service_package up else Inr (dir, new_snake name))"
  using kebab_back [OF snake_plain(2) [of name]]
  by (simp add: new_kebab_def Let_def) (simp add: replace_char_def)

section \<open>What rendering writes\<close>

lemma render_entries_keeps:
  assumes "render_entries render mkdir ctx False es written fs = (x, fs')"
    and "distinct written" "set written \<subseteq> dom fs"
  shows "fs \<subseteq>\<^sub>m fs' \<and> (\<forall>ws. x = Inr ws \<longrightarrow> distinct ws \<and> set ws = set written \<union> (dom fs' - dom fs))"
  using assms
proof (induction es arbitrary: written fs)
  case Nil
  then show ?case by auto
next
  case (Cons e es)
  obtain rel body where e: "e = (rel, body)" by (cases e)
  let ?out = "output_path ctx rel"
  show ?case
  proof (cases "(base_name rel = ''__init__.py'' \<and> py_strip body = []) \<or> fs ?out \<noteq> None")
    case True
    with Cons.prems(1) have "(x, fs') = (Inl (the (mkdir ?out fs)), fs) \<or>
        render_entries render mkdir ctx False es written fs = (x, fs')"
      by (auto simp: e Let_def split: if_splits option.splits)
    then show ?thesis
    proof
      assume "render_entries render mkdir ctx False es written fs = (x, fs')"
      from Cons.IH [OF this Cons.prems(2,3)] show ?thesis .
    qed auto
  next
    case False
    then have new: "fs ?out = None" and marker: "\<not> (base_name rel = ''__init__.py'' \<and> py_strip body = [])" by auto
    show ?thesis
    proof (cases "mkdir ?out fs = None \<and> (\<exists>r. render body = Inr r)")
      case False
      with Cons.prems(1) new marker have "fs' = fs" "\<exists>err. x = Inl err"
        by (auto simp: e Let_def split: option.splits sum.splits)
      then show ?thesis by auto
    next
      case True
      then obtain r where r: "mkdir ?out fs = None" "render body = Inr r" by blast
      have run: "render_entries render mkdir ctx False es (written @ [?out]) (fs(?out \<mapsto> r)) = (x, fs')"
        using Cons.prems(1) new marker r by (auto simp: e Let_def)
      have d: "distinct (written @ [?out])" "set (written @ [?out]) \<subseteq> dom (fs(?out \<mapsto> r))"
        using Cons.prems(2,3) new by auto
      from Cons.IH [OF run d] have ih: "fs(?out \<mapsto> r) \<subseteq>\<^sub>m fs'"
        and ws: "\<forall>ws. x = Inr ws \<longrightarrow> distinct ws \<and>
          set ws = set (written @ [?out]) \<union> (dom fs' - dom (fs(?out \<mapsto> r)))" by blast+
      have "fs \<subseteq>\<^sub>m fs(?out \<mapsto> r)" using new by (auto simp: map_le_def)
      then have "fs \<subseteq>\<^sub>m fs'" using ih by (rule map_le_trans)
      moreover have "?out \<in> dom fs'" using map_le_implies_dom_le [OF ih] by auto
      ultimately show ?thesis using ws new by auto
    qed
  qed
qed

text \<open>C40: Without \<open>--force\<close> a command that generates code never changes a file that is there, even when a
  template fails halfway, and what it reports is exactly the set of new files, each once.\<close>

theorem render_tree_keeps:
  assumes "render_tree render mkdir tree ctx False fs = (x, fs')"
  shows "fs \<subseteq>\<^sub>m fs' \<and> (\<forall>ws. x = Inr ws \<longrightarrow> distinct ws \<and> set ws = dom fs' - dom fs)"
proof (cases "walk_node [] tree")
  case (Inl e)
  with assms show ?thesis by (auto simp: render_tree_def elift_def ebind_def)
next
  case (Inr es)
  with assms have "render_entries render mkdir ctx False es [] fs = (x, fs')"
    by (simp add: render_tree_def elift_def ebind_def)
  from render_entries_keeps [OF this] show ?thesis by auto
qed

text \<open>A tree with a file that is no text, such as a compiled module, renders nothing at all.\<close>

lemma walk_unreadable:
  "walk_node rel (TemplateDir (xs @ (name, TemplateFile (Inl e)) # ys)) = Inr es \<Longrightarrow> False"
proof (induction xs arbitrary: es)
  case (Cons x xs)
  then show ?case by (cases x) (auto split: sum.splits)
qed simp


definition demo_tree :: template_node where
  "demo_tree = TemplateDir [(''__init__.py'', TemplateFile (Inr '' '')), (''__name_snake__.py.j2'', TemplateFile (Inr ''x'')),
     (''keep.txt'', TemplateFile (Inr ''y''))]"

definition demo_render :: "files \<Rightarrow> (exn + string list) \<times> files" where
  "demo_render =
     render_tree Inr (\<lambda>p fs. None) demo_tree (map_of [(''name_snake'', ''create_user'')]) False"

lemma render_tree_keeps_witness:
  "snd (demo_render [''keep.txt'' \<mapsto> ''mine'']) ''keep.txt'' = Some ''mine'' \<and>
   substitute_path (map_of [(''name_snake'', ''create_user'')]) ''__name_snake__.py.j2'' = ''create_user.py.j2''"
proof
  obtain x fs where run: "demo_render [''keep.txt'' \<mapsto> ''mine''] = (x, fs)" by fastforce
  from render_tree_keeps [OF run [unfolded demo_render_def]]
  have "[''keep.txt'' \<mapsto> ''mine''] \<subseteq>\<^sub>m fs" by simp
  then have "Some ''mine'' = fs ''keep.txt''" by (simp add: map_le_def)
  then show "snd (demo_render [''keep.txt'' \<mapsto> ''mine'']) ''keep.txt'' = Some ''mine''" unfolding run by simp
  show "substitute_path (map_of [(''name_snake'', ''create_user'')]) ''__name_snake__.py.j2'' = ''create_user.py.j2''"
    by code_simp
qed

section \<open>Projection checkpoints\<close>

text \<open>
  The two tables as \<open>information_schema\<close> reports them and as the queries see them. The URL and the
  engine are left out; \<open>lag\<close> is shown green, yellow or red.
\<close>

datatype lag_colour = Green | Yellow | Red

datatype projection_report =
    NoCheckpointTable
  | NoProjections
  | Report "(string \<times> int \<times> (int \<times> int \<times> lag_colour) option \<times> instant) list"

definition lag_shown :: "int \<Rightarrow> lag_colour" where
  "lag_shown lag = (if lag = 0 then Green else if lag < 1000 then Yellow else Red)"

definition max_sequence :: "es_row list \<Rightarrow> int" where
  "max_sequence rows = (if rows = [] then 0 else Max (er_seq ` set rows))"

definition report_row :: "int option \<Rightarrow> ck_row \<Rightarrow> string \<times> int \<times> (int \<times> int \<times> lag_colour) option \<times> instant" where
  "report_row max_seq r =
     (ck_projection r, ck_last r,
      map_option (\<lambda>m. (m, m - ck_last r, lag_shown (m - ck_last r))) max_seq, ck_updated r)"

definition cli_projection_status ::
  "('s, bool) eff \<Rightarrow> ('s, bool) eff \<Rightarrow> ('s, ck_row) sql \<Rightarrow> ('s, es_row) sql \<Rightarrow> (ck_row \<Rightarrow> ck_row \<Rightarrow> bool)
     \<Rightarrow> ('s, projection_report) eff" where
  "cli_projection_status has_checkpoints has_events T E by_name =
     ebind has_checkpoints (\<lambda>there.
       if \<not> there then eret NoCheckpointTable
       else ebind (sql_count T (\<lambda>r. True)) (\<lambda>n.
            ebind (sql_page T (\<lambda>r. True) by_name 0 n) (\<lambda>rows.
            ebind has_events (\<lambda>events.
            ebind (if events then ebind (sql_select E (\<lambda>r. True) no_order None) (\<lambda>rs. eret (Some (max_sequence rs)))
                   else eret None) (\<lambda>max_seq.
              eret (if rows = [] then NoProjections else Report (map (report_row max_seq) rows)))))))"

text \<open>\<open>rebuild\<close>: the prompt, the look at the row, which only decides on a message, and the upsert with
  the two readings of the clock.\<close>

definition cli_rebuild ::
  "('s, ck_row) sql \<Rightarrow> bool \<Rightarrow> bool \<Rightarrow> instant \<Rightarrow> instant \<Rightarrow> string \<Rightarrow> ('s, unit) eff" where
  "cli_rebuild T yes confirmed now now' name =
     (if \<not> yes \<and> \<not> confirmed then eraise (PyException ''Abort'' '''')
      else ebind (sql_select T (\<lambda>r. ck_projection r = name) no_order None) (\<lambda>_.
        sql_upsert T \<lparr>ck_projection = name, ck_last = 0, ck_updated = now\<rparr>
          (\<lambda>r. r\<lparr>ck_last := 0, ck_updated := now'\<rparr>)))"



section \<open>The checks of doctor\<close>

text \<open>What the checks learn from the machine: Python's version, the tools on the path, whether
  \<open>docker info\<close> succeeds (\<open>None\<close> when it raises), the installed packages and how their versions
  compare with a minimum, the environment, and which services answer.\<close>

record machine =
  mc_python :: "nat \<times> nat \<times> nat"
  mc_which :: "string \<Rightarrow> bool"
  mc_docker_info :: "bool option"
  mc_version :: "string \<Rightarrow> string option"
  mc_older :: "string \<Rightarrow> string \<Rightarrow> bool"
  mc_environ :: "string \<Rightarrow> string option"
  mc_endpoint :: "string \<Rightarrow> string \<Rightarrow> (string \<times> nat) option"
  mc_reachable :: "string \<Rightarrow> nat \<Rightarrow> bool"

datatype check_line = CheckOk string | CheckFail string | CheckWarn string | CheckPlain string

text \<open>The printed lines, the failures and the commands that fix them.\<close>

type_synonym check_result = "check_line list \<times> string list \<times> string list"

definition check_python :: "machine \<Rightarrow> check_result" where
  "check_python m =
     (case mc_python m of
        (major, minor, micro) \<Rightarrow>
          let ver = str_of_nat major @ ''.'' @ str_of_nat minor @ ''.'' @ str_of_nat micro
          in if major > 3 \<or> (major = 3 \<and> minor \<ge> 14) then ([CheckOk (''Python '' @ ver)], [], [])
             else let msg = ''Python '' @ ver @ '' need >= 3.14''
                  in ([CheckFail msg], [msg], [''uv python install 3.14'']))"

definition tool_fix :: "string \<Rightarrow> string option" where
  "tool_fix = map_of
     [(''uv'', ''curl -LsSf https://astral.sh/uv/install.sh | sh''), (''git'', ''brew install git''),
      (''docker'', ''https://www.docker.com/products/docker-desktop/'')]"

definition check_tool :: "machine \<Rightarrow> string \<Rightarrow> check_result" where
  "check_tool m tool =
     (if mc_which m tool then ([CheckOk tool], [], [])
      else case tool_fix tool of
        Some fixing \<Rightarrow> ([CheckFail (tool @ '' not found on PATH'')], [tool @ '' not found on PATH''], [fixing])
      | None \<Rightarrow> ([CheckWarn (tool @ '' not found (optional for dev)'')], [], []))"

definition join_checks :: "check_result list \<Rightarrow> check_result" where
  "join_checks rs =
     (concat (map fst rs), concat (map (fst \<circ> snd) rs), concat (map (snd \<circ> snd) rs))"

definition check_docker :: "machine \<Rightarrow> check_result" where
  "check_docker m =
     (if \<not> mc_which m ''docker'' then ([], [], [])
      else case mc_docker_info m of
        Some True \<Rightarrow> ([CheckOk ''Docker daemon running''], [], [])
      | Some False \<Rightarrow> ([CheckWarn ''Docker daemon not running''], [], [])
      | None \<Rightarrow> ([CheckWarn ''Docker daemon check timed out''], [], []))"

definition check_tools :: "machine \<Rightarrow> check_result" where
  "check_tools m =
     join_checks (map (check_tool m) [''uv'', ''git'', ''docker'', ''ruff'', ''mypy''] @ [check_docker m])"

definition qx_packages :: "string list" where
  "qx_packages = [''qx-core'', ''qx-di'', ''qx-cqrs'', ''qx-db'', ''qx-http'', ''qx-observability'', ''qx-events'',
     ''qx-worker'', ''qx-cache'', ''qx-auth'', ''qx-grpc'', ''qx-search'', ''qx-testing'', ''qx-cli'', ''qx-devtools'']"

definition check_packages :: "machine \<Rightarrow> check_result" where
  "check_packages m =
     (map (\<lambda>pkg. case mc_version m pkg of
        Some v \<Rightarrow> CheckOk (pkg @ '' '' @ v @ '' installed'')
      | None \<Rightarrow> CheckWarn (pkg @ '' not installed'')) qx_packages, [], [])"

definition env_vars :: "(string \<times> bool) list" where
  "env_vars = [(''DATABASE_URL'', True), (''REDIS_URL'', False), (''NATS_URL'', False),
     (''SECRET_KEY'', False), (''OTEL_EXPORTER_OTLP_ENDPOINT'', False)]"

definition check_env :: "machine \<Rightarrow> check_result" where
  "check_env m =
     (map (\<lambda>(var, required).
        case mc_environ m var of
          Some (c # v) \<Rightarrow> CheckOk (var @ '' '' @ (if py_contains var ''SECRET'' then ''***'' else c # v))
        | _ \<Rightarrow> (if required then CheckWarn (var @ '' not set'') else CheckPlain (var @ '' not set (optional)'')))
        env_vars, [], [])"

definition min_versions :: "string list" where
  "min_versions = [''qx-core'', ''qx-cqrs'', ''qx-db'', ''qx-http'', ''qx-events'', ''qx-worker'', ''qx-cli'']"

definition version_mismatch :: "machine \<Rightarrow> string \<Rightarrow> bool" where
  "version_mismatch m pkg =
     (case mc_version m pkg of None \<Rightarrow> False | Some v \<Rightarrow> mc_older m v ''0.2.0'')"

definition check_versions :: "machine \<Rightarrow> check_result" where
  "check_versions m =
     (concat (map (\<lambda>pkg. case mc_version m pkg of
          None \<Rightarrow> []
        | Some v \<Rightarrow> (if version_mismatch m pkg
                     then [CheckFail (pkg @ '' '' @ v @ '' < 0.2.0 (minimum required)'')]
                     else [CheckOk (pkg @ '' '' @ v @ '' >= 0.2.0'')])) min_versions) @
      (if list_ex (version_mismatch m) min_versions then []
       else [CheckOk ''All installed qx packages meet minimum version requirements'']), [], [])"

definition endpoint_defaults :: "(string \<times> string \<times> string) list" where
  "endpoint_defaults =
     [(''DATABASE_URL'', ''Postgres'', ''postgresql://localhost:5432''),
      (''REDIS_URL'', ''Redis'', ''redis://localhost:6379''), (''NATS_URL'', ''NATS'', ''nats://localhost:4222'')]"

text \<open>\<open>mc_endpoint\<close> is the host and port of the URL, \<open>None\<close> when parsing it raises.\<close>

definition check_connectivity :: "machine \<Rightarrow> check_result" where
  "check_connectivity m =
     (concat (map (\<lambda>(var, label, dflt).
        case mc_endpoint m label (get_or (mc_environ m var) dflt) of
          None \<Rightarrow> []
        | Some (host, port) \<Rightarrow>
            let shown = label @ ''  '' @ host @ '':'' @ str_of_nat port
            in if mc_reachable m host port then [CheckOk shown] else [CheckWarn (shown @ '' unreachable'')])
        endpoint_defaults), [], [])"

text \<open>All checks, and what is printed at the end with the exit code.\<close>

definition doctor_checks :: "machine \<Rightarrow> bool \<Rightarrow> check_result" where
  "doctor_checks m no_connectivity =
     join_checks ([check_python m, check_tools m, check_packages m, check_env m, check_versions m] @
       (if no_connectivity then [] else [check_connectivity m]))"

definition doctor :: "machine \<Rightarrow> bool \<Rightarrow> bool \<Rightarrow> check_line list \<times> nat" where
  "doctor m no_connectivity fixing =
     (case doctor_checks m no_connectivity of
        (out, failures, fixes) \<Rightarrow>
          if failures \<noteq> []
          then (out @ CheckFail (str_of_nat (length failures) @ '' issue(s) found'') #
                  (if fixing \<and> fixes \<noteq> [] then map CheckPlain fixes
                   else [CheckPlain ''Run qx doctor --fix for suggested remediation commands.'']), 1)
          else (out @ [CheckOk ''All checks passed''], 0))"

text \<open>The exit code of \<open>doctor\<close> depends on Python's version and on three tools only: a package below
  its minimum version, a missing required variable or an unreachable service never make it fail,
  and it then still ends with the line that all checks passed.\<close>

theorem doctor_exit_code:
  "doctor m no_connectivity fixing =
     (if (fst (mc_python m) > 3 \<or> (fst (mc_python m) = 3 \<and> fst (snd (mc_python m)) \<ge> 14)) \<and>
         mc_which m ''uv'' \<and> mc_which m ''git'' \<and> mc_which m ''docker''
      then (fst (doctor_checks m no_connectivity) @ [CheckOk ''All checks passed''], 0)
      else (fst (doctor m no_connectivity fixing), 1))"
proof -
  let ?py = "fst (mc_python m) > 3 \<or> (fst (mc_python m) = 3 \<and> fst (snd (mc_python m)) \<ge> 14)"
  have py: "fst (snd (check_python m)) = [] \<longleftrightarrow> ?py"
    by (simp add: check_python_def Let_def split: prod.split)
  have quiet: "fst (snd (check_packages m)) = []" "fst (snd (check_env m)) = []"
    "fst (snd (check_versions m)) = []" "fst (snd (check_connectivity m)) = []" "fst (snd (check_docker m)) = []"
    by (simp_all add: check_packages_def check_env_def check_versions_def check_connectivity_def
        check_docker_def split: option.split bool.split)
  have tool: "fst (snd (check_tool m t)) = [] \<longleftrightarrow> mc_which m t \<or> tool_fix t = None" for t
    by (simp add: check_tool_def split: option.split)
  have "fst (snd (check_tools m)) = [] \<longleftrightarrow> mc_which m ''uv'' \<and> mc_which m ''git'' \<and> mc_which m ''docker''"
    by (simp add: check_tools_def join_checks_def tool quiet) (simp add: tool_fix_def)
  with py have "fst (snd (doctor_checks m no_connectivity)) = [] \<longleftrightarrow>
      ?py \<and> mc_which m ''uv'' \<and> mc_which m ''git'' \<and> mc_which m ''docker''"
    by (simp add: doctor_checks_def join_checks_def quiet)
  then show ?thesis by (auto simp: doctor_def split: prod.split)
qed


text \<open>With two streams of one event each, the checkpoint 1 shows no lag although the event of the
  second stream was never applied (\<open>pj_skips_other_streams\<close>).\<close>

lemma status_hides_other_streams:
  "report_row (Some (max_sequence two_streams)) \<lparr>ck_projection = ''trace'', ck_last = 1, ck_updated = 0\<rparr> =
     (''trace'', 1, Some (1, 0, Green), 0)"
  by (simp add: report_row_def max_sequence_def two_streams_def es_make_row_def lag_shown_def)

section \<open>The local stack\<close>

text \<open>\<open>exists\<close> is the file system, \<open>which\<close> the search path; the result is the command line that is run.\<close>

definition find_compose_files :: "(string \<Rightarrow> bool) \<Rightarrow> string \<Rightarrow> string list \<Rightarrow> exn + string list" where
  "find_compose_files exists cwd parents =
     (let candidates = [cwd @ ''/deploy/docker-compose.yaml'', cwd @ ''/docker-compose.yaml''] @
            map (\<lambda>p. p @ ''/deploy/docker-compose.yaml'') parents;
          extra = cwd @ ''/docker-compose.override.yaml''
      in case find exists candidates of
           None \<Rightarrow> Inl (PyException ''BadParameter'' ''Could not find a docker-compose.yaml. Run from a qx project tree.'')
         | Some base \<Rightarrow> Inr (base # (if exists extra then [extra] else [])))"

definition docker_compose_cmd :: "(string \<Rightarrow> bool) \<Rightarrow> exn + string list" where
  "docker_compose_cmd which =
     (if which ''docker'' then Inr [''docker'', ''compose'']
      else if which ''podman'' then Inr [''podman-compose'']
      else Inl (PyException ''BadParameter'' ''Neither docker nor podman found on PATH.''))"

definition compose_file_flags :: "string list \<Rightarrow> string list" where
  "compose_file_flags fs = concat (map (\<lambda>f. [''-f'', f]) fs)"

definition compose_line ::
  "(string \<Rightarrow> bool) \<Rightarrow> (string \<Rightarrow> bool) \<Rightarrow> string \<Rightarrow> string list \<Rightarrow> string list \<Rightarrow> exn + string list" where
  "compose_line which exists cwd parents args =
     (case docker_compose_cmd which of
        Inl e \<Rightarrow> Inl e
      | Inr cmd \<Rightarrow>
          (case find_compose_files exists cwd parents of
             Inl e \<Rightarrow> Inl e
           | Inr fs \<Rightarrow> Inr (cmd @ compose_file_flags fs @ args)))"

definition dev_up_args :: "bool \<Rightarrow> string \<Rightarrow> string list" where
  "dev_up_args detach service =
     [''up''] @ (if detach then [''-d''] else []) @ (if service \<noteq> [] then [service] else [])"
definition dev_down_args :: "bool \<Rightarrow> string list" where
  "dev_down_args volumes = [''down''] @ (if volumes then [''-v''] else [])"
definition dev_logs_args :: "string \<Rightarrow> int \<Rightarrow> string list" where
  "dev_logs_args service tail =
     [''logs'', ''-f'', ''--tail'', str_of_int tail] @ (if service \<noteq> [] then [service] else [])"
definition dev_status_args :: "string list" where "dev_status_args = [''ps'']"
definition dev_restart_args :: "string \<Rightarrow> string list" where "dev_restart_args service = [''restart'', service]"

end
