(* ===== verification/Qx_App.thy ===== *)
theory Qx_App
  imports Qx_Di Qx_Http Qx_Observe Qx_Cli
begin

text \<open>
  What starts and surrounds a service: the application factory of \<open>qx-http\<close> (\<open>app\<close>) with the
  dependencies that reach from an endpoint into the container (\<open>deps\<close>), the processors of \<open>qx-observability\<close>
  that enrich a log entry (\<open>logging\<close>), and the configuration files \<open>qx-devtools\<close> writes. FastAPI calls a
  dependency once per request, however many parameters ask for it.
\<close>

section \<open>The application\<close>

text \<open>\<open>'c\<close> refers to the container, \<open>'m\<close> is a middleware; the last one added is the outermost.\<close>

record ('m, 'c) fastapi =
  fa_title :: string
  fa_container :: "'c option"
  fa_handlers :: bool
  fa_middleware :: "'m list"
  fa_routers :: "string list"

definition attach_container :: "'c \<Rightarrow> ('m, 'c) fastapi \<Rightarrow> ('m, 'c) fastapi" where
  "attach_container c app = app\<lparr>fa_container := Some c\<rparr>"

definition get_container :: "('m, 'c) fastapi \<Rightarrow> exn + 'c" where
  "get_container app =
     (case fa_container app of
        None \<Rightarrow> Inl (PyException ''RuntimeError''
          ''No container attached to the app. Call attach_container(app, container) at startup.'')
      | Some c \<Rightarrow> Inr c)"

definition add_middleware :: "'m \<Rightarrow> ('m, 'c) fastapi \<Rightarrow> ('m, 'c) fastapi" where
  "add_middleware m app = app\<lparr>fa_middleware := fa_middleware app @ [m]\<rparr>"

definition register_unless :: "di_key \<Rightarrow> 'v \<Rightarrow> ('s, 'v) container \<Rightarrow> ('s, 'v) container" where
  "register_unless key v c =
     (if map_of (ct_providers c) key = None then register_instance key v c else c)"

text \<open>The arguments \<open>metrics_mw\<close>, \<open>redirect_mw\<close> and \<open>context_mw\<close> are the three middlewares as \<open>'m\<close>.\<close>

definition setup_qx_app ::
  "'c \<Rightarrow> string \<Rightarrow> string option \<Rightarrow> 'v \<Rightarrow> 'v \<Rightarrow> 'm \<Rightarrow> 'm option \<Rightarrow> 'm \<Rightarrow> ('s, 'v) container
     \<Rightarrow> ('m, 'c) fastapi \<times> ('s, 'v) container" where
  "setup_qx_app ref app_name title metrics health metrics_mw redirect_mw context_mw c =
     (let c1 = register_unless (KClass ''Metrics'') metrics c;
          c2 = register_unless (KClass ''HealthRegistry'') health c1;
          app = \<lparr>fa_title = (case title of None \<Rightarrow> app_name | Some t \<Rightarrow> if t = [] then app_name else t),
                 fa_container = None, fa_handlers = False, fa_middleware = [], fa_routers = []\<rparr>;
          app1 = (attach_container ref app)\<lparr>fa_handlers := True\<rparr>;
          app2 = add_middleware metrics_mw app1;
          app3 = (case redirect_mw of None \<Rightarrow> app2 | Some m \<Rightarrow> add_middleware m app2);
          app4 = add_middleware context_mw app3
      in (app4\<lparr>fa_routers := [''probes'']\<rparr>, c2))"

definition lifespan :: "('s, unit) eff \<Rightarrow> (('s, 'a) eff \<Rightarrow> ('s, 'a) eff) option \<Rightarrow> ('s, 'a) eff \<Rightarrow> ('s, 'a) eff" where
  "lifespan aclose extra serve =
     efinally (case extra of Some around \<Rightarrow> around serve | None \<Rightarrow> serve) aclose"

text \<open>Each middleware wraps what was added before it.\<close>

definition serve_app :: "(('s, 'r) eff \<Rightarrow> ('s, 'r) eff, 'c) fastapi \<Rightarrow> ('s, 'r) eff \<Rightarrow> ('s, 'r) eff" where
  "serve_app app routes = fold (\<lambda>m inner. m inner) (fa_middleware app) routes"

section \<open>Dependencies of an endpoint\<close>

text \<open>\<open>async with container.scope("http")\<close> around the rest of the request.\<close>

definition scope_dep ::
  "(('s, 'v) di_state \<Rightarrow> 'a outcome \<times> ('s, 'v) di_state) \<Rightarrow> ('s, 'v) di_state \<Rightarrow> 'a outcome \<times> ('s, 'v) di_state" where
  "scope_dep body st =
     (case body (st\<lparr>ds_scope := scope_new ''http''\<rparr>) of
        (Deadlock, st1) \<Rightarrow> (Deadlock, st1)
      | (OutOfFuel, st1) \<Rightarrow> (OutOfFuel, st1)
      | (oc, st1) \<Rightarrow>
          (case scope_aexit (ds_world st1, ds_scope st1) of
             (Inr u, (w, sc)) \<Rightarrow> (oc, st1\<lparr>ds_world := w, ds_scope := sc\<rparr>)
           | (Inl e, (w, sc)) \<Rightarrow> (Raise e, st1\<lparr>ds_world := w, ds_scope := sc\<rparr>)))"

definition inject :: "('s, 'v) di_env \<Rightarrow> nat \<Rightarrow> di_key \<Rightarrow> ('s, 'v) di_state \<Rightarrow> 'v option outcome \<times> ('s, 'v) di_state" where
  "inject env n key st = di_resolve env n key True st"

text \<open>The injected parameters of an endpoint from left to right, then its body with their values.\<close>

fun inject_all ::
  "('s, 'v) di_env \<Rightarrow> nat \<Rightarrow> di_key list \<Rightarrow> 'v option list
     \<Rightarrow> ('v option list \<Rightarrow> ('s, 'v) di_state \<Rightarrow> 'a outcome \<times> ('s, 'v) di_state)
     \<Rightarrow> ('s, 'v) di_state \<Rightarrow> 'a outcome \<times> ('s, 'v) di_state" where
  "inject_all env n [] vs body st = body vs st"
| "inject_all env n (k # ks) vs body st =
     (case inject env n k st of
        (Ret v, st1) \<Rightarrow> inject_all env n ks (vs @ [v]) body st1
      | (oc, st1) \<Rightarrow> (outcome_cast oc, st1))"

definition call_endpoint where
  "call_endpoint env n ks body = scope_dep (inject_all env n ks [] body)"

section \<open>Log entries\<close>

definition set_text :: "string \<Rightarrow> string option \<Rightarrow> (string \<times> string) list \<Rightarrow> (string \<times> string) list" where
  "set_text k v d = (case v of None \<Rightarrow> d | Some s \<Rightarrow> if s = [] then d else dict_setdefault k s d)"

definition context_processor :: "'a request_context \<Rightarrow> (string \<times> string) list \<Rightarrow> (string \<times> string) list" where
  "context_processor ctx d =
     (let d1 = dict_setdefault ''correlation_id'' (str_of_uuid (rc_correlation_id ctx)) d;
          d2 = dict_setdefault ''request_id'' (str_of_uuid (rc_request_id ctx)) d1;
          d3 = set_text ''trace_id'' (rc_trace_id ctx) d2;
          d4 = set_text ''span_id'' (rc_span_id ctx) d3;
          d5 = (case rc_user_id ctx of None \<Rightarrow> d4 | Some u \<Rightarrow> dict_setdefault ''user_id'' (str_of_uuid u) d4)
      in case rc_tenant_id ctx of None \<Rightarrow> d5 | Some u \<Rightarrow> dict_setdefault ''tenant_id'' (str_of_uuid u) d5)"

text \<open>The span context, if OpenTelemetry can be imported: its validity, trace id and span id.\<close>

definition otel_processor :: "(bool \<times> nat \<times> nat) option \<Rightarrow> (string \<times> string) list \<Rightarrow> (string \<times> string) list" where
  "otel_processor current d =
     (case current of
        Some (True, trace, sid) \<Rightarrow>
          dict_setdefault ''otel_span_id'' (hex_digits 16 sid)
            (dict_setdefault ''otel_trace_id'' (hex_digits 32 trace) d)
      | _ \<Rightarrow> d)"

section \<open>Configuration files\<close>

text \<open>\<open>contents\<close> are the four text constants.\<close>

definition config_files :: "(string \<Rightarrow> string) \<Rightarrow> bool \<Rightarrow> bool \<Rightarrow> bool \<Rightarrow> bool \<Rightarrow> (string \<times> string) list" where
  "config_files contents ruff mypy pre_commit editorconfig =
     map (\<lambda>n. (n, contents n))
       ((if ruff then [''ruff.toml''] else []) @ (if mypy then [''mypy.ini''] else []) @
        (if pre_commit then [''.pre-commit-config.yaml''] else []) @
        (if editorconfig then [''.editorconfig''] else []))"

fun write_each :: "string \<Rightarrow> bool \<Rightarrow> (string \<times> string) list \<Rightarrow> string list \<Rightarrow> files \<Rightarrow> string list \<times> files" where
  "write_each target overwrite [] written fs = (written, fs)"
| "write_each target overwrite ((name, content) # cs) written fs =
     (let path = target @ ''/'' @ name
      in if fs path \<noteq> None \<and> \<not> overwrite then write_each target overwrite cs written fs
         else write_each target overwrite cs (written @ [path]) (fs(path \<mapsto> content)))"

definition write_configs ::
  "(string \<Rightarrow> string) \<Rightarrow> string \<Rightarrow> bool \<Rightarrow> bool \<Rightarrow> bool \<Rightarrow> bool \<Rightarrow> bool \<Rightarrow> files \<Rightarrow> string list \<times> files" where
  "write_configs contents target ruff mypy pre_commit editorconfig overwrite fs =
     write_each target overwrite (config_files contents ruff mypy pre_commit editorconfig) [] fs"

section \<open>What the application promises\<close>

text \<open>The middlewares as they are added form the stack of \<open>Qx_Http\<close>.\<close>

lemma setup_serves_stack:
  "serve_app (fst (setup_qx_app ref name title mv hv (metrics_dispatch observe q)
       (map_option (\<lambda>(resolve, cfg). region_redirect_dispatch resolve cfg write_methods infra_prefixes q) router)
       (request_context_dispatch (fst fresh) (snd fresh) trace q) c)) routes =
   qx_stack fresh trace router observe q routes"
  by (simp add: serve_app_def setup_qx_app_def add_middleware_def attach_container_def qx_stack_def Let_def
      split: option.split)

lemma register_unless_keeps:
  "map_of (ct_providers c) k = Some p \<Longrightarrow> map_of (ct_providers (register_unless key v c)) k = Some p"
  by (auto simp: register_unless_def register_instance_def update_conv')

text \<open>What the service registered stays, the two it did not are there, and endpoints find the container.\<close>

lemma setup_registers:
  assumes "setup_qx_app ref name title mv hv mm rm cm c = (app, c')"
  shows "map_of (ct_providers c) k = Some p \<Longrightarrow> map_of (ct_providers c') k = Some p"
    and "map_of (ct_providers c') (KClass ''Metrics'') \<noteq> None \<and>
      map_of (ct_providers c') (KClass ''HealthRegistry'') \<noteq> None \<and> get_container app = Inr ref"
proof -
  from assms have c': "c' = register_unless (KClass ''HealthRegistry'') hv (register_unless (KClass ''Metrics'') mv c)"
    by (simp add: setup_qx_app_def Let_def)
  show "map_of (ct_providers c) k = Some p \<Longrightarrow> map_of (ct_providers c') k = Some p"
    unfolding c' by (intro register_unless_keeps)
  have "get_container app = Inr ref"
    using assms by (auto simp: setup_qx_app_def get_container_def attach_container_def add_middleware_def Let_def
        split: option.splits)
  then show "map_of (ct_providers c') (KClass ''Metrics'') \<noteq> None \<and>
      map_of (ct_providers c') (KClass ''HealthRegistry'') \<noteq> None \<and> get_container app = Inr ref"
    by (auto simp: c' register_unless_def register_instance_def update_conv')
qed

text \<open>At shutdown the container is torn down after what the service added, whatever that raises.\<close>

lemma lifespan_closes:
  "snd (lifespan aclose extra serve s) =
     snd (aclose (snd ((case extra of Some around \<Rightarrow> around serve | None \<Rightarrow> serve) s)))"
  by (simp add: lifespan_def efinally_def Let_def split: prod.split sum.split)

text \<open>
  However an endpoint ends, the scope of its request is closed afterwards, its disposers have run in
  reverse order, and what they raise does not change the outcome.
\<close>

lemma scope_dep_closes:
  assumes run: "body (st\<lparr>ds_scope := scope_new ''http''\<rparr>) = (oc, st1)" and ends: "oc \<noteq> Deadlock" "oc \<noteq> OutOfFuel"
    and live: "\<not> sc_closed (ds_scope st1)"
  shows "\<exists>st'. scope_dep body st = (oc, st') \<and> sc_closed (ds_scope st') \<and>
    ds_world st' = snd (run_disposers (rev (sc_disposers (ds_scope st1))) (ds_world st1)) \<and>
    ds_chain st' = ds_chain st1"
  using assms
  by (cases oc) (auto simp: scope_dep_def scope_aexit_def etry_all_def eret_def scope_close_def split: prod.splits)

text \<open>A scoped object that was made in a request is the one every later parameter of it gets.\<close>

lemma scope_set_get:
  "scope_set k (Some v) sc = Inr s1 \<Longrightarrow> maybe_register_scope_disposer env (Some v) s1 = Inr s2 \<Longrightarrow>
     scope_get k s2 = Some v"
  by (auto simp: scope_set_def maybe_register_scope_disposer_def scope_register_disposer_def scope_get_def
      update_conv' split: if_splits option.splits)

lemma inject_scoped_once:
  assumes first: "inject env n key st = (Ret (Some v), st')"
    and found: "lookup_provider env (ds_chain st) key = Some (p, owner)"
    and p: "prov_lifetime p = SCOPED" "prov_key p = key" and m: "0 < m"
  shows "inject env m key st' = (Ret (Some v), st')"
proof -
  obtain k where n: "n = Suc k" using first by (cases n) (auto simp: inject_def)
  have frame: "frame st (Ret (Some v)) st'"
    using di_resolve_framed [of env n] first by (simp add: framed_def inject_def)
  have flight: "key \<notin> set (ds_flight st)" using first by (auto simp: inject_def n)
  from first found flight obtain st1 where pr:
    "produce env (di_resolve env k) p True owner (st\<lparr>ds_flight := key # ds_flight st\<rparr>) = (Ret (Some v), st1)"
    and st': "st' = leave_flight key st1"
    by (auto simp: inject_def n split: prod.splits)
  from pr p have "scope_get key (ds_scope st1) = Some v"
    by (auto simp: produce_def Let_def scope_set_get split: option.splits prod.splits outcome.splits sum.splits)
  then have held: "scope_get key (ds_scope st') = Some v" by (simp add: st' leave_flight_def)
  from frame have "regs (ds_chain st') = regs (ds_chain st)" "ds_flight st' = ds_flight st"
    by (simp_all add: frame_def)
  with found flight have now: "lookup_provider env (ds_chain st') key = Some (p, owner)"
    "key \<notin> set (ds_flight st')"
    using lookup_provider_regs [of "ds_chain st'" "ds_chain st" env key] by simp_all
  have "leave_flight key (st'\<lparr>ds_flight := key # ds_flight st'\<rparr>) = st'"
    using now(2) by (simp add: leave_flight_def removeAll_id)
  moreover obtain j where "m = Suc j" using m by (cases m) auto
  ultimately show ?thesis using now p held by (simp add: inject_def produce_def)
qed

text \<open>The processors add to a log entry and change nothing that is in it.\<close>

lemma setdefault_keeps: "map_of d k = Some v \<Longrightarrow> map_of (dict_setdefault k' v' d) k = Some v"
  by (auto simp: dict_setdefault_def map_add_def split: option.split)

lemma processors_keep:
  assumes "map_of d k = Some v"
  shows "map_of (otel_processor current (context_processor ctx d)) k = Some v"
proof -
  have t: "map_of d k = Some v \<Longrightarrow> map_of (set_text k' o' d) k = Some v" for d k' o'
    by (simp add: set_text_def setdefault_keeps split: option.split)
  have "map_of (context_processor ctx d) k = Some v"
    using assms by (auto simp: context_processor_def Let_def intro!: setdefault_keeps t split: option.split)
  then show ?thesis
    by (auto simp: otel_processor_def intro!: setdefault_keeps split: option.split prod.split bool.split)
qed

text \<open>Without \<open>overwrite\<close> no file that is there changes, and the answer lists the new ones.\<close>

lemma write_each_keeps:
  assumes "write_each target False cs written fs = (ws, fs')" "set written \<subseteq> dom fs"
  shows "fs \<subseteq>\<^sub>m fs' \<and> set ws = set written \<union> (dom fs' - dom fs)"
  using assms
proof (induction cs arbitrary: written fs)
  case (Cons c cs)
  obtain name content where c: "c = (name, content)" by (cases c)
  let ?p = "target @ ''/'' @ name"
  show ?case
  proof (cases "fs ?p")
    case (Some old)
    with Cons c show ?thesis by (simp add: Let_def)
  next
    case None
    with Cons.prems c have run: "write_each target False cs (written @ [?p]) (fs(?p \<mapsto> content)) = (ws, fs')"
      by (simp add: Let_def)
    have "set (written @ [?p]) \<subseteq> dom (fs(?p \<mapsto> content))" using Cons.prems(2) by auto
    from Cons.IH [OF run this] have ih: "fs(?p \<mapsto> content) \<subseteq>\<^sub>m fs'"
      "set ws = set (written @ [?p]) \<union> (dom fs' - dom (fs(?p \<mapsto> content)))" by blast+
    have "fs \<subseteq>\<^sub>m fs(?p \<mapsto> content)" using None by (auto simp: map_le_def)
    then have "fs \<subseteq>\<^sub>m fs'" using ih(1) by (rule map_le_trans)
    moreover have "?p \<in> dom fs'" using map_le_implies_dom_le [OF ih(1)] by auto
    ultimately show ?thesis using ih(2) None by auto
  qed
qed simp

lemma write_configs_keeps:
  "write_configs contents target ruff mypy pre ed False fs = (ws, fs') \<Longrightarrow>
     fs \<subseteq>\<^sub>m fs' \<and> set ws = dom fs' - dom fs"
  using write_each_keeps [of target _ "[]" fs ws fs'] by (simp add: write_configs_def)

end
